(* ===== verification/JS_Number.thy ===== *)
theory JS_Number
  imports Complex_Main "HOL-Library.Log_Nat"
begin

section \<open>JavaScript numbers\<close>

text \<open>
  The program computes every amount of money with JavaScript numbers, that is with IEEE 754
  binary64 values. This theory models the part of that arithmetic the sources use: a number is
  NaN, an infinity or a finite value; every arithmetic operation computes the exact rational
  result and rounds it to the nearest representable value, ties to even, overflowing to an
  infinity (\<open>js_of_rat\<close>). The two zeros are one value here: no modelled code divides by a value
  that can be zero or otherwise tells them apart.

  The lemmas at the end bound the rounding error. They are what the money theories need to show
  that floating point amounts behave like whole cents.
\<close>

subsection \<open>Rounding to binary64\<close>

definition ilog2 :: "rat \<Rightarrow> int" where
  "ilog2 q =
     (let (n, d) = quotient_of q;
          e = bitlen n - bitlen d
      in if q < 2 powi e then e - 1 else e)"

definition round_half_even :: "rat \<Rightarrow> int" where
  "round_half_even q =
     (let f = \<lfloor>q\<rfloor>; r = q - of_int f
      in if r < 1 / 2 then f else if r > 1 / 2 then f + 1 else if even f then f else f + 1)"

text \<open>The exponent of the smallest subnormal, and the overflow threshold.\<close>

definition min_exponent :: int where
  "min_exponent = -1074"

definition overflow_bound :: rat where
  "overflow_bound = 2 ^ 1024"

definition ulp_exponent :: "rat \<Rightarrow> int" where
  "ulp_exponent q = max (ilog2 \<bar>q\<bar> - 52) min_exponent"

definition round_binary64 :: "rat \<Rightarrow> rat" where
  "round_binary64 q =
     (if q = 0 then 0
      else let u = 2 powi ulp_exponent q in of_int (round_half_even (q / u)) * u)"

text \<open>
  \<open>js_of_rat\<close> is the value of an operation with exact result \<open>q\<close>: rounding with an unbounded
  exponent and overflowing from \<open>2 ^ 1024\<close> on is the standard's rule.
\<close>

datatype jsnum = NaN | PosInf | NegInf | Fin rat

definition js_of_rat :: "rat \<Rightarrow> jsnum" where
  "js_of_rat q =
     (let r = round_binary64 q
      in if r \<ge> overflow_bound then PosInf else if r \<le> - overflow_bound then NegInf else Fin r)"

subsection \<open>Operators\<close>

fun js_neg :: "jsnum \<Rightarrow> jsnum" where
  "js_neg NaN = NaN"
| "js_neg PosInf = NegInf"
| "js_neg NegInf = PosInf"
| "js_neg (Fin a) = Fin (- a)"

fun js_add :: "jsnum \<Rightarrow> jsnum \<Rightarrow> jsnum" where
  "js_add (Fin a) (Fin b) = js_of_rat (a + b)"
| "js_add NaN _ = NaN"
| "js_add _ NaN = NaN"
| "js_add PosInf NegInf = NaN"
| "js_add NegInf PosInf = NaN"
| "js_add PosInf _ = PosInf"
| "js_add NegInf _ = NegInf"
| "js_add _ PosInf = PosInf"
| "js_add _ NegInf = NegInf"

definition js_sub :: "jsnum \<Rightarrow> jsnum \<Rightarrow> jsnum" where
  "js_sub x y = js_add x (js_neg y)"

text \<open>The infinity with the sign of \<open>a\<close>; \<open>0 * Infinity\<close> is NaN.\<close>

definition inf_of_sign :: "rat \<Rightarrow> jsnum" where
  "inf_of_sign a = (if a > 0 then PosInf else if a < 0 then NegInf else NaN)"

fun js_mul :: "jsnum \<Rightarrow> jsnum \<Rightarrow> jsnum" where
  "js_mul (Fin a) (Fin b) = js_of_rat (a * b)"
| "js_mul NaN _ = NaN"
| "js_mul _ NaN = NaN"
| "js_mul PosInf PosInf = PosInf"
| "js_mul NegInf NegInf = PosInf"
| "js_mul PosInf NegInf = NegInf"
| "js_mul NegInf PosInf = NegInf"
| "js_mul PosInf (Fin b) = inf_of_sign b"
| "js_mul NegInf (Fin b) = inf_of_sign (- b)"
| "js_mul (Fin a) PosInf = inf_of_sign a"
| "js_mul (Fin a) NegInf = inf_of_sign (- a)"

text \<open>Division by a finite non-zero constant, the only division of the money code.\<close>

fun js_div_by :: "jsnum \<Rightarrow> rat \<Rightarrow> jsnum" where
  "js_div_by (Fin a) c = js_of_rat (a / c)"
| "js_div_by NaN c = NaN"
| "js_div_by PosInf c = inf_of_sign c"
| "js_div_by NegInf c = inf_of_sign (- c)"

text \<open>\<open>Math.round\<close>: the nearest integer, halves towards plus infinity.\<close>

fun math_round :: "jsnum \<Rightarrow> jsnum" where
  "math_round (Fin a) = Fin (of_int \<lfloor>a + 1 / 2\<rfloor>)"
| "math_round x = x"

text \<open>Comparisons: every comparison with NaN is false.\<close>

fun js_less :: "jsnum \<Rightarrow> jsnum \<Rightarrow> bool" where
  "js_less (Fin a) (Fin b) = (a < b)"
| "js_less NaN _ = False"
| "js_less _ NaN = False"
| "js_less PosInf _ = False"
| "js_less _ NegInf = False"
| "js_less _ _ = True"

fun js_le :: "jsnum \<Rightarrow> jsnum \<Rightarrow> bool" where
  "js_le (Fin a) (Fin b) = (a \<le> b)"
| "js_le NaN _ = False"
| "js_le _ NaN = False"
| "js_le NegInf _ = True"
| "js_le _ PosInf = True"
| "js_le _ _ = False"

text \<open>\<open>===\<close> on numbers: NaN differs from itself.\<close>

definition js_eq :: "jsnum \<Rightarrow> jsnum \<Rightarrow> bool" where
  "js_eq x y = (x \<noteq> NaN \<and> x = y)"

text \<open>\<open>Math.max(x, y)\<close> is NaN when an argument is.\<close>

definition math_max :: "jsnum \<Rightarrow> jsnum \<Rightarrow> jsnum" where
  "math_max x y = (if x = NaN \<or> y = NaN then NaN else if js_less x y then y else x)"

definition math_min :: "jsnum \<Rightarrow> jsnum \<Rightarrow> jsnum" where
  "math_min x y = (if x = NaN \<or> y = NaN then NaN else if js_less x y then x else y)"

text \<open>
  \<open>Number(value) || 0\<close> for a nullable numeric field (\<open>None\<close> is null or undefined): null reads
  as 0, undefined as NaN, and NaN as 0 by the \<open>||\<close>.
\<close>

fun num_or_zero :: "jsnum option \<Rightarrow> jsnum" where
  "num_or_zero None = Fin 0"
| "num_or_zero (Some NaN) = Fin 0"
| "num_or_zero (Some x) = x"

definition is_finite :: "jsnum \<Rightarrow> bool" where
  "is_finite x = (case x of Fin _ \<Rightarrow> True | _ \<Rightarrow> False)"

subsection \<open>Rounding error\<close>

lemma pow2_pos [simp]: "(0::rat) < 2 powi e"
  by (simp add: zero_less_power_int)

lemma pow2_nonneg [simp]: "(0::rat) \<le> 2 powi e"
  by (simp add: zero_le_power_int)

lemma pow2_nonzero [simp]: "(2::rat) powi e \<noteq> 0"
  using pow2_pos [of e] by linarith

lemma pow2_Suc: "(2::rat) powi (e + 1) = 2 * 2 powi e"
  by (simp add: power_int_add)

lemma bitlen_pow2_bounds:
  assumes "0 < (n::int)"
  shows "(2::rat) powi (bitlen n - 1) \<le> of_int n" and "of_int n < (2::rat) powi bitlen n"
proof -
  have pos: "0 \<le> bitlen n - 1"
    using assms bitlen_eq_zero_iff [of n] bitlen_nonneg [of n] by linarith
  from bitlen_bounds [OF assms]
  have lo: "2 ^ nat (bitlen n - 1) \<le> n" and hi: "n < 2 ^ nat (bitlen n)" by auto
  have "(of_int (2 ^ nat (bitlen n - 1)) :: rat) \<le> of_int n" using lo by (simp only: of_int_le_iff)
  then show "(2::rat) powi (bitlen n - 1) \<le> of_int n"
    using pos by (simp add: power_int_def)
  have "(of_int n :: rat) < of_int (2 ^ nat (bitlen n))" using hi by (simp only: of_int_less_iff)
  then show "of_int n < (2::rat) powi bitlen n"
    using pos by (simp add: power_int_def)
qed

lemma ilog2_bounds:
  assumes "0 < q"
  shows "2 powi ilog2 q \<le> q" and "q < 2 powi (ilog2 q + 1)"
proof -
  obtain n d where nd: "quotient_of q = (n, d)" by fastforce
  have d: "0 < d" using quotient_of_denom_pos [OF nd] .
  have q: "q = of_int n / of_int d" using quotient_of_div [OF nd] .
  have n: "0 < n" using assms d by (simp add: q zero_less_divide_iff)
  let ?e = "bitlen n - bitlen d"
  have "2 powi (bitlen n - 1) / 2 powi bitlen d \<le> of_int n / (of_int d :: rat)"
    using bitlen_pow2_bounds [OF n] bitlen_pow2_bounds [OF d] n d by (intro frac_le) auto
  moreover have "(2::rat) powi (bitlen n - 1) / 2 powi bitlen d = 2 powi (?e - 1)"
    by (simp add: power_int_diff)
  ultimately have lo: "2 powi (?e - 1) \<le> q" by (simp add: q)
  have "of_int n / (of_int d :: rat) < 2 powi bitlen n / 2 powi (bitlen d - 1)"
    using bitlen_pow2_bounds [OF n] bitlen_pow2_bounds [OF d] n d by (intro frac_less) auto
  moreover have "(2::rat) powi bitlen n / 2 powi (bitlen d - 1) = 2 powi (?e + 1)"
    by (simp add: power_int_diff power_int_add)
  ultimately have hi: "q < 2 powi (?e + 1)" by (simp add: q)
  show "2 powi ilog2 q \<le> q" and "q < 2 powi (ilog2 q + 1)"
    using lo hi by (auto simp: ilog2_def nd Let_def)
qed

lemma round_half_even_error: "\<bar>of_int (round_half_even q) - q\<bar> \<le> 1 / 2"
proof -
  have "of_int \<lfloor>q\<rfloor> \<le> q" and "q < of_int \<lfloor>q\<rfloor> + 1" by linarith+
  then show ?thesis by (auto simp: round_half_even_def Let_def)
qed

lemma round_half_even_int [simp]: "round_half_even (of_int k) = k"
  by (simp add: round_half_even_def)

text \<open>Half the smallest subnormal is far below every amount the code handles.\<close>

lemma min_ulp_small: "(2::rat) powi min_exponent \<le> 1 / 2 ^ 200"
proof -
  have "(2::rat) powi min_exponent \<le> 2 powi (-200)"
    by (rule power_int_increasing) (auto simp: min_exponent_def)
  also have "(2::rat) powi (-200) = 1 / 2 ^ 200"
    by (subst power_int_minus_divide) simp
  finally show ?thesis .
qed

lemma overflow_bound_large: "2 ^ 200 \<le> overflow_bound"
  unfolding overflow_bound_def by (rule power_increasing) auto

text \<open>Relative error at most \<open>2 ^ -53\<close>, plus a bound for the subnormal range.\<close>

lemma ulp_bound:
  assumes "q \<noteq> 0"
  shows "2 powi ulp_exponent q \<le> \<bar>q\<bar> / 2 ^ 52 + 1 / 2 ^ 200"
proof (cases "ilog2 \<bar>q\<bar> - 52 \<ge> min_exponent")
  case True
  then have "2 powi ulp_exponent q = (2 powi ilog2 \<bar>q\<bar> :: rat) / 2 ^ 52"
    by (simp add: ulp_exponent_def power_int_diff)
  also have "\<dots> \<le> \<bar>q\<bar> / 2 ^ 52"
    using ilog2_bounds(1) [of "\<bar>q\<bar>"] assms by (intro divide_right_mono) auto
  also have "\<dots> \<le> \<bar>q\<bar> / 2 ^ 52 + 1 / 2 ^ 200" by simp
  finally show ?thesis .
next
  case False
  then have "2 powi ulp_exponent q = (2::rat) powi min_exponent"
    by (simp add: ulp_exponent_def max_def)
  also have "\<dots> \<le> 1 / 2 ^ 200" by (rule min_ulp_small)
  also have "\<dots> \<le> \<bar>q\<bar> / 2 ^ 52 + 1 / 2 ^ 200" by simp
  finally show ?thesis .
qed

lemma round_binary64_error:
  "\<bar>round_binary64 q - q\<bar> \<le> \<bar>q\<bar> / 2 ^ 53 + 1 / 2 ^ 200"
proof (cases "q = 0")
  case True
  then show ?thesis by (simp add: round_binary64_def)
next
  case False
  define u where "u = (2::rat) powi ulp_exponent q"
  have u: "0 < u" by (simp add: u_def)
  have "round_binary64 q - q = (of_int (round_half_even (q / u)) - q / u) * u"
    using False u by (simp add: round_binary64_def u_def Let_def left_diff_distrib)
  then have "\<bar>round_binary64 q - q\<bar> \<le> u / 2"
    using mult_right_mono [OF round_half_even_error [of "q / u"], of u] u
    by (simp add: abs_mult)
  also have "u / 2 \<le> \<bar>q\<bar> / 2 ^ 53 + 1 / 2 ^ 200"
    using ulp_bound [OF False] by (simp add: u_def)
  finally show ?thesis .
qed

lemma round_binary64_0 [simp]: "round_binary64 0 = 0"
  by (simp add: round_binary64_def)

lemma js_of_rat_finite:
  assumes "\<bar>q\<bar> \<le> 2 ^ 100"
  shows "js_of_rat q = Fin (round_binary64 q)"
proof -
  have "\<bar>round_binary64 q\<bar> \<le> \<bar>q\<bar> + (\<bar>q\<bar> / 2 ^ 53 + 1 / 2 ^ 200)"
    using round_binary64_error [of q] by linarith
  also have "\<dots> < 2 ^ 200" using assms by simp
  also have "\<dots> \<le> overflow_bound" by (rule overflow_bound_large)
  finally show ?thesis by (auto simp: js_of_rat_def Let_def)
qed

text \<open>Integers up to \<open>2 ^ 53\<close> are exact.\<close>

lemma round_binary64_int:
  assumes "\<bar>k\<bar> < 2 ^ 53"
  shows "round_binary64 (of_int k) = of_int k"
proof (cases "k = 0")
  case True
  then show ?thesis by simp
next
  case False
  let ?q = "of_int k :: rat" and ?e = "ulp_exponent (of_int k)"
  have "2 powi ilog2 \<bar>?q\<bar> \<le> \<bar>?q\<bar>" using ilog2_bounds(1) [of "\<bar>?q\<bar>"] False by simp
  also have "\<bar>?q\<bar> = of_int \<bar>k\<bar>" by simp
  also have "\<dots> < of_int (2 ^ 53)" using assms by (simp only: of_int_less_iff)
  also have "\<dots> = (2::rat) powi 53" by simp
  finally have lt: "2 powi ilog2 \<bar>?q\<bar> < (2::rat) powi 53" .
  have "ilog2 \<bar>?q\<bar> < 53" by (rule power_int_le_imp_less_exp [OF _ lt]) auto
  then have e: "?e \<le> 0" by (simp add: ulp_exponent_def min_exponent_def)
  have "?q / 2 powi ?e = of_int (k * 2 ^ nat (- ?e))"
    using e by (simp add: power_int_def field_simps)
  then have "of_int (round_half_even (?q / 2 powi ?e)) = ?q / 2 powi ?e"
    by (simp only: round_half_even_int)
  with False show ?thesis by (simp add: round_binary64_def Let_def)
qed

text \<open>Integer inequalities among the rationals.\<close>

lemma int_le_rat: "i \<le> j \<Longrightarrow> (of_int i :: rat) \<le> of_int j"
  by simp

lemma int_less_rat: "i < j \<Longrightarrow> (of_int i :: rat) + 1 \<le> of_int j"
proof -
  assume "i < j"
  then have "(of_int (i + 1) :: rat) \<le> of_int j" by (intro int_le_rat) simp
  then show ?thesis by simp
qed

end
