(* ===== verification/Money.thy ===== *)
theory Money
  imports JS_Number
begin

section \<open>Money: balances, line, tax and proposal totals, retainers\<close>

text \<open>
  Models \<^verbatim>\<open>src/utils/invoice-balance.js\<close>, \<^verbatim>\<open>src/utils/money-totals.js\<close>,
  \<^verbatim>\<open>src/utils/proposal-totals.js\<close>, \<^verbatim>\<open>src/utils/retainer-money.js\<close> and the currency rules of
  \<^verbatim>\<open>src/utils/money.js\<close>. Amounts are JavaScript numbers (theory JS_Number). A nullable or missing
  numeric field is a \<open>jsnum option\<close>; the code reads it as \<open>Number(value) || 0\<close>.

  \<open>cents k\<close> is the number the code stores for \<open>k\<close> whole cents, the double nearest to \<open>k / 100\<close>.
  The lemmas show that within \<open>\<plusminus>2 ^ 40\<close> cents the floating point code computes exactly the whole
  cent result for sums, differences and comparisons.
\<close>

subsection \<open>invoice-balance.js\<close>

definition UNPAID_INVOICE_STATUSES :: "string list" where
  "UNPAID_INVOICE_STATUSES = [''SENT'', ''VIEWED'', ''OVERDUE'']"

definition SENT_INVOICE_STATUSES :: "string list" where
  "SENT_INVOICE_STATUSES = [''SENT'', ''VIEWED'']"

definition CENT_TOLERANCE :: jsnum where
  "CENT_TOLERANCE = js_of_rat (5 / 1000)"

definition roundMoney :: "jsnum option \<Rightarrow> jsnum" where
  "roundMoney v = js_div_by (math_round (js_mul (num_or_zero v) (Fin 100))) 100"

record balance =
  amountPaid :: jsnum
  balanceDue :: jsnum

definition invoiceBalance :: "jsnum option \<Rightarrow> jsnum option \<Rightarrow> balance" where
  "invoiceBalance invoice_total amount_paid =
     (let paid = roundMoney amount_paid
      in \<lparr>amountPaid = paid,
          balanceDue = roundMoney (Some (math_max (Fin 0) (js_sub (roundMoney invoice_total) paid)))\<rparr>)"

text \<open>\<open>payments.reduce((sum, p) => sum + (Number(p.amount) || 0), 0)\<close> and the same over lines.\<close>

definition sum_amounts :: "jsnum option list \<Rightarrow> jsnum" where
  "sum_amounts xs = foldl (\<lambda>sum x. js_add sum (num_or_zero x)) (Fin 0) xs"

subsection \<open>money-totals.js\<close>

definition lineTotal :: "jsnum option \<Rightarrow> jsnum option \<Rightarrow> jsnum" where
  "lineTotal quantity unitPrice =
     roundMoney (Some (js_mul (num_or_zero quantity) (num_or_zero unitPrice)))"

record totals =
  tot_subtotal :: jsnum
  tot_preTax :: jsnum
  tot_tax :: jsnum
  tot_total :: jsnum

definition invoiceTotals :: "jsnum option list \<Rightarrow> jsnum option \<Rightarrow> jsnum option \<Rightarrow> totals" where
  "invoiceTotals lines taxRate discount =
     (let sub = roundMoney (Some (sum_amounts lines));
          pre = roundMoney (Some (math_max (Fin 0) (js_sub sub (num_or_zero discount))));
          tx = roundMoney (Some (js_div_by (js_mul pre (num_or_zero taxRate)) 100))
      in \<lparr>tot_subtotal = sub, tot_preTax = pre, tot_tax = tx,
          tot_total = roundMoney (Some (js_add pre tx))\<rparr>)"

subsection \<open>proposal-totals.js\<close>

record line_item =
  li_description :: string
  li_quantity :: "jsnum option"
  li_unitPrice :: "jsnum option"

record stored_line_item =
  sli_description :: string
  sli_quantity :: jsnum
  sli_unitPrice :: "jsnum option"
  sli_total :: jsnum

definition computeProposalLineItems :: "line_item list \<Rightarrow> stored_line_item list" where
  "computeProposalLineItems items =
     map (\<lambda>item.
       let quantity = (case li_quantity item of None \<Rightarrow> Fin 1 | Some n \<Rightarrow> n)
       in \<lparr>sli_description = li_description item, sli_quantity = quantity,
           sli_unitPrice = li_unitPrice item,
           sli_total = lineTotal (Some quantity) (li_unitPrice item)\<rparr>) items"

definition proposalTotals :: "jsnum option list \<Rightarrow> jsnum option \<Rightarrow> jsnum \<times> jsnum" where
  "proposalTotals line_totals discount =
     (let sub = roundMoney (Some (sum_amounts line_totals))
      in (sub, roundMoney (Some (math_max (Fin 0) (js_sub sub (num_or_zero discount))))))"

definition DEFAULT_PROPOSAL_TAX_RATE :: jsnum where
  "DEFAULT_PROPOSAL_TAX_RATE = Fin 13"

text \<open>
  \<open>JSON.parse(proposal.metadata)\<close>: no metadata (an empty or missing string), text that does not
  parse, or a parsed value, of which the code reads \<open>source\<close> and \<open>taxRate\<close>. A \<open>taxRate\<close> entry is
  absent or null, or has the number \<open>Number(taxRate)\<close>.
\<close>

datatype metadata = NoMetadata | Unparseable | Metadata (md_source: "string option") (md_taxRate: "jsnum option")

fun proposalTaxRate :: "metadata \<Rightarrow> jsnum" where
  "proposalTaxRate (Metadata src (Some rate)) =
     (if src = Some ''estimate'' \<and> is_finite rate \<and> js_le (Fin 0) rate \<and> js_le rate (Fin 100)
      then rate else DEFAULT_PROPOSAL_TAX_RATE)"
| "proposalTaxRate _ = DEFAULT_PROPOSAL_TAX_RATE"

definition taxTypeForRate :: "jsnum option \<Rightarrow> string" where
  "taxTypeForRate rate =
     (let value = num_or_zero rate
      in if js_le value (Fin 0) then ''NONE''
         else if js_eq value DEFAULT_PROPOSAL_TAX_RATE then ''HST'' else ''TAX'')"

text \<open>The fields of a proposal that its tax summary reads; \<open>pr_lineItems\<close> is the line totals.\<close>

record proposal =
  pr_metadata :: metadata
  pr_lineItems :: "jsnum option list option"
  pr_total :: "jsnum option"
  pr_discount :: "jsnum option"

record tax_summary =
  ts_taxRate :: jsnum
  ts_taxType :: string
  ts_tax :: jsnum
  ts_totalWithTax :: jsnum

definition proposalTaxSummary :: "proposal \<Rightarrow> tax_summary" where
  "proposalTaxSummary p =
     (let rate = proposalTaxRate (pr_metadata p);
          lines = (case pr_lineItems p of Some ls \<Rightarrow> ls
                   | None \<Rightarrow> [Some (math_max (Fin 0) (num_or_zero (pr_total p)))]);
          discount = (case pr_lineItems p of Some _ \<Rightarrow> pr_discount p | None \<Rightarrow> Some (Fin 0));
          t = invoiceTotals lines (Some rate) discount
      in \<lparr>ts_taxRate = rate, ts_taxType = taxTypeForRate (Some rate),
          ts_tax = tot_tax t, ts_totalWithTax = tot_total t\<rparr>)"

subsection \<open>retainer-money.js and money.js\<close>

record retainer_plan =
  monthlyAmountUsd :: "jsnum option"
  monthlyAmountCad :: "jsnum option"

definition retainerMonthlyCharge :: "retainer_plan \<Rightarrow> (jsnum \<times> string) option" where
  "retainerMonthlyCharge plan =
     (let usd = num_or_zero (monthlyAmountUsd plan);
          cad = num_or_zero (monthlyAmountCad plan)
      in if js_less (Fin 0) usd then Some (roundMoney (Some usd), ''USD'')
         else if js_less (Fin 0) cad then Some (roundMoney (Some cad), ''CAD'')
         else None)"

definition INVOICE_CURRENCIES :: "string list" where
  "INVOICE_CURRENCIES = [''CAD'', ''USD'', ''EUR'', ''GBP'']"

definition DEFAULT_INVOICE_CURRENCY :: string where
  "DEFAULT_INVOICE_CURRENCY = ''CAD''"

definition defaultInvoiceCurrency :: string where
  "defaultInvoiceCurrency = DEFAULT_INVOICE_CURRENCY"

text \<open>The per-currency totals are an object: an association list with distinct keys.\<close>

record mrr =
  mrr_amount :: "jsnum option"
  mrrCurrency :: "string option"
  mrrByCurrency :: "(string \<times> jsnum) list"

definition mrrSummary :: "(string \<times> jsnum) list \<Rightarrow> mrr" where
  "mrrSummary byCurrency =
     (let entries = filter (\<lambda>(_, amount). js_less (Fin 0) amount) byCurrency;
          rounded = map (\<lambda>(code, amount). (code, roundMoney (Some amount))) entries
      in case entries of
           [] \<Rightarrow> \<lparr>mrr_amount = Some (Fin 0), mrrCurrency = Some defaultInvoiceCurrency,
                  mrrByCurrency = rounded\<rparr>
         | [e] \<Rightarrow> \<lparr>mrr_amount = map_of rounded (fst e), mrrCurrency = Some (fst e),
                   mrrByCurrency = rounded\<rparr>
         | _ \<Rightarrow> \<lparr>mrr_amount = None, mrrCurrency = None, mrrByCurrency = rounded\<rparr>)"

subsection \<open>Whole cents\<close>

definition cents :: "int \<Rightarrow> jsnum" where
  "cents k = Fin (round_binary64 (of_int k / 100))"

definition to_cents :: "rat \<Rightarrow> int" where
  "to_cents q = \<lfloor>round_binary64 (q * 100) + 1 / 2\<rfloor>"

lemma cents_value:
  assumes "\<bar>k\<bar> \<le> 2 ^ 42"
  obtains x where "cents k = Fin x" and "\<bar>x - of_int k / 100\<bar> \<le> 1 / 100000"
proof
  show "cents k = Fin (round_binary64 (of_int k / 100))" by (simp add: cents_def)
  have "\<bar>of_int k :: rat\<bar> \<le> 2 ^ 42"
    using assms of_int_le_iff [of "\<bar>k\<bar>" "2 ^ 42", where ?'a = rat] by simp
  with round_binary64_error [of "of_int k / 100"]
  show "\<bar>round_binary64 (of_int k / 100) - of_int k / 100\<bar> \<le> 1 / 100000"
    by (simp add: abs_divide)
qed

lemma to_cents_near:
  assumes "\<bar>q - of_int k / 100\<bar> \<le> 1 / 1000" and "\<bar>k\<bar> \<le> 2 ^ 42"
  shows "to_cents q = k"
proof -
  have k: "\<bar>of_int k :: rat\<bar> \<le> 2 ^ 42"
    using assms(2) of_int_le_iff [of "\<bar>k\<bar>" "2 ^ 42", where ?'a = rat] by simp
  have near: "\<bar>q * 100 - of_int k\<bar> \<le> 1 / 10" using assms(1) by linarith
  then have "\<bar>q * 100\<bar> \<le> 2 ^ 42 + 1 / 10" using k by linarith
  then have "\<bar>round_binary64 (q * 100) - q * 100\<bar> \<le> 1 / 10"
    using round_binary64_error [of "q * 100"] by simp
  with near have "\<bar>round_binary64 (q * 100) - of_int k\<bar> \<le> 1 / 5" by linarith
  then show ?thesis unfolding to_cents_def by linarith
qed

lemma roundMoney_finite:
  assumes "\<bar>q\<bar> \<le> 2 ^ 60"
  shows "roundMoney (Some (Fin q)) = cents (to_cents q)"
proof -
  have big: "\<bar>q * 100\<bar> \<le> 2 ^ 67" using assms by (simp add: abs_mult)
  then have mul: "js_mul (Fin q) (Fin 100) = Fin (round_binary64 (q * 100))"
    by (simp add: js_of_rat_finite)
  have "\<bar>round_binary64 (q * 100)\<bar> \<le> 2 ^ 68"
    using round_binary64_error [of "q * 100"] big by simp
  then have "\<bar>of_int (to_cents q) :: rat\<bar> \<le> 2 ^ 69"
    unfolding to_cents_def by simp linarith
  then have "\<bar>of_int (to_cents q) / 100 :: rat\<bar> \<le> 2 ^ 100" by (simp add: abs_divide)
  then show ?thesis
    by (simp add: roundMoney_def mul to_cents_def cents_def js_of_rat_finite del: js_mul.simps)
qed

lemma roundMoney_near:
  assumes "\<bar>q - of_int k / 100\<bar> \<le> 1 / 1000" and "\<bar>k\<bar> \<le> 2 ^ 42"
  shows "roundMoney (Some (Fin q)) = cents k"
proof -
  have "\<bar>of_int k :: rat\<bar> \<le> 2 ^ 42"
    using assms(2) of_int_le_iff [of "\<bar>k\<bar>" "2 ^ 42", where ?'a = rat] by simp
  then have "\<bar>of_int k :: rat\<bar> \<le> 4398046511104" by simp
  then have "\<bar>q\<bar> \<le> 4398046511105" using assms(1) by linarith
  then have "\<bar>q\<bar> \<le> 2 ^ 60" by simp
  with to_cents_near [OF assms] show ?thesis by (simp add: roundMoney_finite)
qed

lemma cents_0 [simp]: "cents 0 = Fin 0"
  by (simp add: cents_def)

lemma roundMoney_cents:
  assumes "\<bar>k\<bar> \<le> 2 ^ 42"
  shows "roundMoney (Some (cents k)) = cents k"
proof -
  obtain x where "cents k = Fin x" and "\<bar>x - of_int k / 100\<bar> \<le> 1 / 100000"
    by (rule cents_value [OF assms])
  then show ?thesis using roundMoney_near [of x k] assms by simp
qed

lemma cents_less_iff:
  assumes "\<bar>i\<bar> \<le> 2 ^ 42" and "\<bar>j\<bar> \<le> 2 ^ 42"
  shows "js_less (cents i) (cents j) \<longleftrightarrow> i < j"
proof -
  obtain x where x: "cents i = Fin x" "\<bar>x - of_int i / 100\<bar> \<le> 1 / 100000"
    by (rule cents_value [OF assms(1)])
  obtain y where y: "cents j = Fin y" "\<bar>y - of_int j / 100\<bar> \<le> 1 / 100000"
    by (rule cents_value [OF assms(2)])
  consider "i = j" | "i \<le> j - 1" | "j \<le> i - 1" by linarith
  then show ?thesis
  proof cases
    case 1
    with x(1) y(1) show ?thesis by simp
  next
    case 2
    then have "(of_int i :: rat) \<le> of_int (j - 1)" by (simp only: of_int_le_iff)
    then have "(of_int i :: rat) \<le> of_int j - 1" by simp
    then have "x < y" using x(2) y(2) by linarith
    with x y 2 show ?thesis by simp
  next
    case 3
    then have "(of_int j :: rat) \<le> of_int (i - 1)" by (simp only: of_int_le_iff)
    then have "(of_int j :: rat) \<le> of_int i - 1" by simp
    then have "y < x" using x(2) y(2) by linarith
    with x y 3 show ?thesis by simp
  qed
qed

lemma cents_inject:
  assumes "\<bar>i\<bar> \<le> 2 ^ 42" and "\<bar>j\<bar> \<le> 2 ^ 42"
  shows "cents i = cents j \<longleftrightarrow> i = j"
  using cents_less_iff [OF assms] cents_less_iff [OF assms(2,1)] cents_less_iff [OF assms(1,1)]
  by (metis less_irrefl linorder_neqE)


text \<open>
  Sums. An amount of at most 1.5 billion dollars is off by at most \<open>2 ^ -22\<close> dollars, and so is one
  addition: after 1000 additions the running sum is still within a tenth of a cent.
\<close>

lemma js_add_near:
  assumes "\<bar>x - a\<bar> \<le> d" and "\<bar>y - b\<bar> \<le> d'" and "\<bar>a + b\<bar> \<le> 1500000000" and "d + d' \<le> 1"
  obtains z where "js_add (Fin x) (Fin y) = Fin z" and "\<bar>z - (a + b)\<bar> \<le> d + d' + 1 / 2 ^ 22"
proof
  have s: "\<bar>(x + y) - (a + b)\<bar> \<le> d + d'" using assms(1,2) by linarith
  with assms(3,4) have m: "\<bar>x + y\<bar> \<le> 1500000001" by linarith
  then have "\<bar>x + y\<bar> \<le> 2 ^ 100" by simp
  then show "js_add (Fin x) (Fin y) = Fin (round_binary64 (x + y))"
    by (simp add: js_of_rat_finite)
  have "\<bar>round_binary64 (x + y) - (x + y)\<bar> \<le> 1 / 2 ^ 22"
    using round_binary64_error [of "x + y"] m by simp
  with s show "\<bar>round_binary64 (x + y) - (a + b)\<bar> \<le> d + d' + 1 / 2 ^ 22" by linarith
qed

lemma cents_value_fine:
  assumes "\<bar>k\<bar> \<le> 2 ^ 36"
  obtains x where "cents k = Fin x" and "\<bar>x - of_int k / 100\<bar> \<le> 1 / 2 ^ 22"
proof
  show "cents k = Fin (round_binary64 (of_int k / 100))" by (simp add: cents_def)
  have "\<bar>of_int k :: rat\<bar> \<le> 2 ^ 36"
    using assms of_int_le_iff [of "\<bar>k\<bar>" "2 ^ 36", where ?'a = rat] by simp
  with round_binary64_error [of "of_int k / 100"]
  show "\<bar>round_binary64 (of_int k / 100) - of_int k / 100\<bar> \<le> 1 / 2 ^ 22"
    by (simp add: abs_divide)
qed

lemma num_or_zero_cents [simp]: "num_or_zero (Some (cents k)) = cents k"
  by (simp add: cents_def)

lemma foldl_cents_near:
  assumes "\<bar>s - a\<bar> \<le> d" and "\<bar>a\<bar> + of_int (\<Sum>k\<leftarrow>ks. \<bar>k\<bar>) / 100 \<le> 1500000000"
    and "d + of_nat (length ks) / 2 ^ 21 \<le> 1" and "\<forall>k \<in> set ks. \<bar>k\<bar> \<le> 2 ^ 36"
  shows "\<exists>z. foldl (\<lambda>sum x. js_add sum (num_or_zero x)) (Fin s) (map (\<lambda>k. Some (cents k)) ks) = Fin z
           \<and> \<bar>z - (a + of_int (sum_list ks) / 100)\<bar> \<le> d + of_nat (length ks) / 2 ^ 21"
  using assms
proof (induction ks arbitrary: s a d)
  case Nil
  then show ?case by simp
next
  case (Cons k ks)
  obtain x where x: "cents k = Fin x" "\<bar>x - of_int k / 100\<bar> \<le> 1 / 2 ^ 22"
    using cents_value_fine [of k] Cons.prems(4) by auto
  let ?b = "of_int k / 100 :: rat" and ?r = "of_int (\<Sum>k\<leftarrow>ks. \<bar>k\<bar>) / 100 :: rat"
  have split: "of_int (\<Sum>k\<leftarrow>k # ks. \<bar>k\<bar>) / 100 = \<bar>?b\<bar> + ?r"
    by (simp add: add_divide_distrib abs_divide)
  have r: "0 \<le> ?r" by (induction ks) (auto simp: add_divide_distrib)
  have ab: "\<bar>a + ?b\<bar> + ?r \<le> 1500000000" using Cons.prems(2) unfolding split by linarith
  have len: "of_nat (length (k # ks)) / 2 ^ 21 = 1 / 2 ^ 21 + of_nat (length ks) / (2 ^ 21 :: rat)"
    by (simp add: add_divide_distrib)
  have nn: "(0::rat) \<le> of_nat (length ks) / 2 ^ 21" by simp
  have one: "d + 1 / 2 ^ 22 \<le> 1" using Cons.prems(3) nn unfolding len by simp
  have ab': "\<bar>a + ?b\<bar> \<le> 1500000000" using ab r by linarith
  obtain z where z: "js_add (Fin s) (Fin x) = Fin z" "\<bar>z - (a + ?b)\<bar> \<le> d + 1 / 2 ^ 22 + 1 / 2 ^ 22"
    by (rule js_add_near [OF Cons.prems(1) x(2) ab' one])
  have z': "\<bar>z - (a + ?b)\<bar> \<le> d + 1 / 2 ^ 21" using z(2) by simp
  have d': "d + 1 / 2 ^ 21 + of_nat (length ks) / 2 ^ 21 \<le> 1"
    using Cons.prems(3) unfolding len by linarith
  have el: "\<forall>k \<in> set ks. \<bar>k\<bar> \<le> 2 ^ 36" using Cons.prems(4) by simp
  obtain w where w: "foldl (\<lambda>sum x. js_add sum (num_or_zero x)) (Fin z) (map (\<lambda>k. Some (cents k)) ks) = Fin w"
      "\<bar>w - (a + ?b + of_int (sum_list ks) / 100)\<bar> \<le> (d + 1 / 2 ^ 21) + of_nat (length ks) / 2 ^ 21"
    using Cons.IH [OF z' ab d' el] by blast
  have "foldl (\<lambda>sum x. js_add sum (num_or_zero x)) (Fin s) (map (\<lambda>k. Some (cents k)) (k # ks)) = Fin w"
    using w(1) by (simp add: x(1) z(1) del: js_add.simps)
  moreover have "\<bar>w - (a + of_int (sum_list (k # ks)) / 100)\<bar> \<le> d + of_nat (length (k # ks)) / 2 ^ 21"
    using w(2) unfolding len by (simp add: add_divide_distrib add.assoc)
  ultimately show ?case by blast
qed

lemma sum_amounts_cents:
  assumes "(\<Sum>k\<leftarrow>ks. \<bar>k\<bar>) \<le> 2 ^ 36" and "length ks \<le> 1000"
  obtains z where "sum_amounts (map (\<lambda>k. Some (cents k)) ks) = Fin z"
    and "\<bar>z - of_int (sum_list ks) / 100\<bar> \<le> 1 / 2000"
proof -
  have el: "\<forall>k \<in> set ks. \<bar>k\<bar> \<le> 2 ^ 36"
    using assms(1) member_le_sum_list [of _ "map abs ks"] by fastforce
  have "of_int (\<Sum>k\<leftarrow>ks. \<bar>k\<bar>) \<le> (of_int (2 ^ 36) :: rat)" using assms(1) by (simp only: of_int_le_iff)
  then have s: "\<bar>0\<bar> + of_int (\<Sum>k\<leftarrow>ks. \<bar>k\<bar>) / 100 \<le> (1500000000 :: rat)" by simp
  have "of_nat (length ks) \<le> (of_nat 1000 :: rat)" using assms(2) by (simp only: of_nat_le_iff)
  then have l: "of_nat (length ks) / 2 ^ 21 \<le> (1 / 2000 :: rat)" by simp
  obtain z where "sum_amounts (map (\<lambda>k. Some (cents k)) ks) = Fin z"
      "\<bar>z - (0 + of_int (sum_list ks) / 100)\<bar> \<le> 0 + of_nat (length ks) / 2 ^ 21"
    using foldl_cents_near [of 0 0 0 ks] s l el by (auto simp: sum_amounts_def)
  then show ?thesis using that [of z] l by simp
qed

subsection \<open>Balances and totals in whole cents\<close>

lemma math_max_Fin [simp]: "math_max (Fin a) (Fin b) = Fin (max a b)"
  by (auto simp: math_max_def max_def)

lemma max0_near:
  fixes z d e :: rat
  shows "\<bar>z - d\<bar> \<le> e \<Longrightarrow> \<bar>max 0 z - max 0 d\<bar> \<le> e"
  unfolding max_def by (simp split: if_split) linarith

lemma roundMoney_diff:
  assumes "cents i = Fin x" and "\<bar>y - of_int j / 100\<bar> \<le> 1 / 2000" and "\<bar>i\<bar> \<le> 2 ^ 36" and "\<bar>j\<bar> \<le> 2 ^ 36"
  shows "roundMoney (Some (math_max (Fin 0) (js_sub (Fin x) (Fin y)))) = cents (max 0 (i - j))"
proof -
  have ij: "\<bar>of_int i :: rat\<bar> \<le> 2 ^ 36" "\<bar>of_int j :: rat\<bar> \<le> 2 ^ 36"
    using assms(3,4) of_int_le_iff [of "\<bar>i\<bar>" "2 ^ 36", where ?'a = rat]
      of_int_le_iff [of "\<bar>j\<bar>" "2 ^ 36", where ?'a = rat] by simp_all
  have x: "\<bar>x - of_int i / 100\<bar> \<le> 1 / 2 ^ 22"
    using cents_value_fine [OF assms(3)] assms(1) by (metis jsnum.inject)
  have y: "\<bar>- y - - (of_int j / 100)\<bar> \<le> 1 / 2000" using assms(2) by linarith
  have "\<bar>of_int i / 100 + - (of_int j / 100)\<bar> \<le> (1500000000 :: rat)"
    using ij by (simp add: abs_le_iff)
  then obtain z where z: "js_add (Fin x) (Fin (- y)) = Fin z"
      "\<bar>z - (of_int i / 100 + - (of_int j / 100))\<bar> \<le> 1 / 2 ^ 22 + 1 / 2000 + 1 / 2 ^ 22"
    by (rule js_add_near [OF x y]) auto
  have "(1 / 2 ^ 22 + 1 / 2000 + 1 / 2 ^ 22 :: rat) \<le> 1 / 1000" by simp
  with z(2) have near: "\<bar>z - of_int (i - j) / 100\<bar> \<le> 1 / 1000" by (simp add: diff_divide_distrib)
  have b: "\<bar>max 0 (i - j)\<bar> \<le> 2 ^ 42" using assms(3,4) by simp
  have mx: "(of_int (max 0 (i - j)) :: rat) / 100 = max 0 (of_int (i - j) / 100)" by (simp add: max_def)
  have "\<bar>max 0 z - of_int (max 0 (i - j)) / 100\<bar> \<le> 1 / 1000"
    unfolding mx by (rule max0_near [OF near])
  from roundMoney_near [OF this b] z(1) show ?thesis
    by (simp add: js_sub_def del: js_add.simps)
qed

lemma invoiceBalance_cents:
  assumes "\<bar>q - of_int p / 100\<bar> \<le> 1 / 2000" and "\<bar>t\<bar> \<le> 2 ^ 36" and "\<bar>p\<bar> \<le> 2 ^ 36"
  shows "invoiceBalance (Some (cents t)) (Some (Fin q)) =
           \<lparr>amountPaid = cents p, balanceDue = cents (max 0 (t - p))\<rparr>"
proof -
  have paid: "roundMoney (Some (Fin q)) = cents p"
    using roundMoney_near [of q p] assms by simp
  obtain x where x: "cents t = Fin x" by (simp add: cents_def)
  obtain y where y: "cents p = Fin y" "\<bar>y - of_int p / 100\<bar> \<le> 1 / 2 ^ 22"
    by (rule cents_value_fine [OF assms(3)])
  have "\<bar>y - of_int p / 100\<bar> \<le> 1 / 2000" using y(2) by simp
  from roundMoney_diff [OF x this assms(2,3)] show ?thesis
    using roundMoney_cents [of t] assms(2) x y(1) by (simp add: invoiceBalance_def paid Let_def)
qed

lemma invoiceBalance_cents_exact:
  assumes "\<bar>t\<bar> \<le> 2 ^ 36" and "\<bar>p\<bar> \<le> 2 ^ 36"
  shows "invoiceBalance (Some (cents t)) (Some (cents p)) =
           \<lparr>amountPaid = cents p, balanceDue = cents (max 0 (t - p))\<rparr>"
proof -
  obtain y where y: "cents p = Fin y" "\<bar>y - of_int p / 100\<bar> \<le> 1 / 2 ^ 22"
    by (rule cents_value_fine [OF assms(2)])
  have "\<bar>y - of_int p / 100\<bar> \<le> 1 / 2000" using y(2) by simp
  from invoiceBalance_cents [OF this assms] show ?thesis by (simp add: y(1))
qed

lemma subtotal_cents:
  assumes "(\<Sum>k\<leftarrow>ks. \<bar>k\<bar>) \<le> 2 ^ 36" and "length ks \<le> 1000"
  shows "roundMoney (Some (sum_amounts (map (\<lambda>k. Some (cents k)) ks))) = cents (sum_list ks)"
    and "\<bar>sum_list ks\<bar> \<le> 2 ^ 36"
proof -
  show b: "\<bar>sum_list ks\<bar> \<le> 2 ^ 36" using sum_list_abs [of ks] assms(1) by simp
  obtain z where "sum_amounts (map (\<lambda>k. Some (cents k)) ks) = Fin z"
    and "\<bar>z - of_int (sum_list ks) / 100\<bar> \<le> 1 / 2000"
    by (rule sum_amounts_cents [OF assms])
  then show "roundMoney (Some (sum_amounts (map (\<lambda>k. Some (cents k)) ks))) = cents (sum_list ks)"
    using roundMoney_near [of z "sum_list ks"] b by simp
qed

text \<open>The tax on \<open>p\<close> cents at \<open>r\<close> percent is within half a cent (and a thousandth) of the exact tax.\<close>

definition tax_cents :: "int \<Rightarrow> rat \<Rightarrow> int" where
  "tax_cents p r =
     (case (cents p) of Fin x \<Rightarrow>
        to_cents (round_binary64 (round_binary64 (x * r) / 100)) | _ \<Rightarrow> 0)"

lemma tax_value:
  assumes "0 \<le> p" and "p \<le> 2 ^ 36" and "0 \<le> r" and "r \<le> 100"
  shows "roundMoney (Some (js_div_by (js_mul (cents p) (Fin r)) 100)) = cents (tax_cents p r)"
    and "\<bar>of_int (tax_cents p r) - of_int p * r / 100\<bar> \<le> 1 / 2 + 1 / 1000"
proof -
  obtain x where x: "cents p = Fin x" "\<bar>x - of_int p / 100\<bar> \<le> 1 / 2 ^ 22"
    using cents_value_fine [of p] assms by auto
  have fine: "x = round_binary64 (of_int p / 100)" using x(1) by (simp add: cents_def)
  have p: "0 \<le> (of_int p :: rat)" "(of_int p :: rat) \<le> 2 ^ 36"
    using assms(1,2) of_int_le_iff [of p "2 ^ 36", where ?'a = rat] by simp_all
  have xe: "\<bar>x - of_int p / 100\<bar> \<le> 1 / 10 ^ 7"
    using round_binary64_error [of "of_int p / 100"] p unfolding fine by simp
  define e where "e = of_int p / 100 * r"
  define y where "y = round_binary64 (x * r)"
  define w where "w = round_binary64 (y / 100)"
  have e: "0 \<le> e" "e \<le> 68719476736"
    using p assms(3,4) mult_mono [of "of_int p / 100" "2 ^ 36 / 100" r 100] by (auto simp: e_def)
  have "\<bar>x * r - e\<bar> = \<bar>x - of_int p / 100\<bar> * r"
    using abs_mult [of "x - of_int p / 100" r] assms(3) by (simp add: left_diff_distrib e_def)
  also have "\<dots> \<le> 1 / 10 ^ 7 * 100" using xe assms(3,4) by (intro mult_mono) auto
  also have "\<dots> = 1 / 100000" by simp
  finally have m: "\<bar>x * r - e\<bar> \<le> 1 / 100000" .
  then have xr: "\<bar>x * r\<bar> \<le> 68719476737" using e by linarith
  then have "\<bar>y - x * r\<bar> \<le> 1 / 100000"
    using round_binary64_error [of "x * r"] by (simp add: y_def)
  then have ye: "\<bar>y - e\<bar> \<le> 2 / 100000" using m by linarith
  then have yb: "\<bar>y / 100\<bar> \<le> 687194768" using e by linarith
  then have we: "\<bar>w - y / 100\<bar> \<le> 1 / 1000000"
    using round_binary64_error [of "y / 100"] by (simp add: w_def)
  then have wb: "\<bar>w\<bar> \<le> 687194769" using yb by linarith
  then have we2: "\<bar>round_binary64 (w * 100) - w * 100\<bar> \<le> 1 / 100000"
    using round_binary64_error [of "w * 100"] by (simp add: abs_mult)
  have t: "tax_cents p r = to_cents w" by (simp add: tax_cents_def x(1) w_def y_def)
  have "\<bar>x * r\<bar> \<le> 2 ^ 100" "\<bar>y / 100\<bar> \<le> 2 ^ 100" using xr yb by simp_all
  then have "js_div_by (js_mul (cents p) (Fin r)) 100 = Fin w"
    by (simp add: x(1) js_of_rat_finite w_def y_def)
  moreover have "\<bar>w\<bar> \<le> 2 ^ 60" using wb by simp
  ultimately show "roundMoney (Some (js_div_by (js_mul (cents p) (Fin r)) 100)) = cents (tax_cents p r)"
    by (simp add: roundMoney_finite t del: js_mul.simps)
  have "\<bar>of_int (to_cents w) - round_binary64 (w * 100)\<bar> \<le> 1 / 2"
    unfolding to_cents_def by linarith
  moreover have "\<bar>w * 100 - e\<bar> \<le> 3 / 10000" using we ye by linarith
  ultimately have "\<bar>of_int (to_cents w) - e\<bar> \<le> 1 / 2 + 1 / 1000" using we2 by linarith
  then show "\<bar>of_int (tax_cents p r) - of_int p * r / 100\<bar> \<le> 1 / 2 + 1 / 1000"
    by (simp add: t e_def)
qed

lemma add_cents:
  assumes "\<bar>i\<bar> \<le> 2 ^ 36" and "\<bar>j\<bar> \<le> 2 ^ 36"
  shows "roundMoney (Some (js_add (cents i) (cents j))) = cents (i + j)"
proof -
  obtain x where x: "cents i = Fin x" "\<bar>x - of_int i / 100\<bar> \<le> 1 / 2 ^ 22"
    by (rule cents_value_fine [OF assms(1)])
  obtain y where y: "cents j = Fin y" "\<bar>y - of_int j / 100\<bar> \<le> 1 / 2 ^ 22"
    by (rule cents_value_fine [OF assms(2)])
  have ij: "\<bar>of_int i :: rat\<bar> \<le> 2 ^ 36" "\<bar>of_int j :: rat\<bar> \<le> 2 ^ 36"
    using assms of_int_le_iff [of "\<bar>i\<bar>" "2 ^ 36", where ?'a = rat]
      of_int_le_iff [of "\<bar>j\<bar>" "2 ^ 36", where ?'a = rat] by simp_all
  then have "\<bar>of_int i / 100 + of_int j / 100\<bar> \<le> (1500000000 :: rat)" by (simp add: abs_le_iff)
  then obtain z where z: "js_add (Fin x) (Fin y) = Fin z"
      "\<bar>z - (of_int i / 100 + of_int j / 100)\<bar> \<le> 1 / 2 ^ 22 + 1 / 2 ^ 22 + 1 / 2 ^ 22"
    by (rule js_add_near [OF x(2) y(2)]) auto
  have "(1 / 2 ^ 22 + 1 / 2 ^ 22 + 1 / 2 ^ 22 :: rat) \<le> 1 / 1000" by simp
  with z(2) have "\<bar>z - of_int (i + j) / 100\<bar> \<le> 1 / 1000" by (simp add: add_divide_distrib)
  moreover have "\<bar>i + j\<bar> \<le> 2 ^ 42" using assms by simp
  ultimately show ?thesis using roundMoney_near [of z "i + j"] by (simp add: x(1) y(1) z(1) del: js_add.simps)
qed

lemma tax_cents_bounds:
  assumes "0 \<le> p" and "p \<le> 2 ^ 36" and "0 \<le> r" and "r \<le> 100"
  shows "0 \<le> tax_cents p r" and "tax_cents p r \<le> 2 ^ 36"
proof -
  have p: "0 \<le> (of_int p :: rat)" using assms(1) by simp
  have e: "0 \<le> of_int p * r / 100" "of_int p * r / 100 \<le> of_int p"
    using p assms(3,4) mult_left_mono [of r 100 "of_int p"] by auto
  have d: "\<bar>of_int (tax_cents p r) - of_int p * r / 100\<bar> \<le> 1 / 2 + 1 / 1000"
    using tax_value(2) [OF assms] .
  have "(-1 :: rat) < of_int (tax_cents p r)" using d e by linarith
  then have "(of_int (-1) :: rat) < of_int (tax_cents p r)" by simp
  then show "0 \<le> tax_cents p r" unfolding of_int_less_iff by linarith
  have "(of_int (tax_cents p r) :: rat) < of_int p + 1" using d e by linarith
  then have "(of_int (tax_cents p r) :: rat) < of_int (p + 1)" by simp
  then show "tax_cents p r \<le> 2 ^ 36" using assms(2) unfolding of_int_less_iff by linarith
qed

subsection \<open>Properties\<close>

text \<open>C30: Floating point totals are exact in whole cents. For up to 1000 lines that add up to at
  most \<open>2 ^ 36\<close> cents, a non-negative discount and a rate between 0 and 100 percent,
  \<open>invoiceTotals\<close> returns exactly the sum of the line cents, that sum less the discount and never
  below zero, a tax within half a cent (and a thousandth) of the exact tax, and a total that is
  exactly the pre-tax amount plus the tax.\<close>

theorem invoiceTotals_cents:
  assumes "(\<Sum>k\<leftarrow>ks. \<bar>k\<bar>) \<le> 2 ^ 36" and "length ks \<le> 1000"
    and "0 \<le> d" and "d \<le> 2 ^ 36" and "0 \<le> r" and "r \<le> 100"
  shows "\<exists>t. invoiceTotals (map (\<lambda>k. Some (cents k)) ks) (Some (Fin r)) (Some (cents d)) =
           \<lparr>tot_subtotal = cents (sum_list ks), tot_preTax = cents (max 0 (sum_list ks - d)),
            tot_tax = cents t, tot_total = cents (max 0 (sum_list ks - d) + t)\<rparr>
         \<and> \<bar>of_int t - of_int (max 0 (sum_list ks - d)) * r / 100\<bar> \<le> 1 / 2 + 1 / 1000"
proof -
  let ?s = "sum_list ks" and ?p = "max 0 (sum_list ks - d)"
  note sub = subtotal_cents [OF assms(1,2)]
  have p: "0 \<le> ?p" "?p \<le> 2 ^ 36" using sub(2) assms(3) by auto
  obtain x where x: "cents ?s = Fin x" by (simp add: cents_def)
  have ad: "\<bar>d\<bar> \<le> 2 ^ 36" using assms(3,4) by simp
  obtain y where y: "cents d = Fin y" "\<bar>y - of_int d / 100\<bar> \<le> 1 / 2 ^ 22"
    by (rule cents_value_fine [OF ad])
  have "\<bar>y - of_int d / 100\<bar> \<le> 1 / 2000" using y(2) by simp
  from roundMoney_diff [OF x this sub(2) ad]
  have pre: "roundMoney (Some (math_max (Fin 0) (js_sub (cents ?s) (cents d)))) = cents ?p"
    by (simp add: x y(1))
  note tx = tax_value [OF p assms(5,6)]
  note tb = tax_cents_bounds [OF p assms(5,6)]
  have tot: "roundMoney (Some (js_add (cents ?p) (cents (tax_cents ?p r)))) = cents (?p + tax_cents ?p r)"
    using p tb by (intro add_cents) auto
  have "invoiceTotals (map (\<lambda>k. Some (cents k)) ks) (Some (Fin r)) (Some (cents d)) =
      \<lparr>tot_subtotal = cents ?s, tot_preTax = cents ?p,
       tot_tax = cents (tax_cents ?p r), tot_total = cents (?p + tax_cents ?p r)\<rparr>"
    by (simp add: invoiceTotals_def Let_def sub(1) pre tx(1) tot)
  with tx(2) show ?thesis by blast
qed

theorem invoiceTotals_cents_witness:
  "\<exists>t. invoiceTotals (map (\<lambda>k. Some (cents k)) [1999, 500]) (Some (Fin 13)) (Some (cents 99)) =
         \<lparr>tot_subtotal = cents 2499, tot_preTax = cents 2400, tot_tax = cents t, tot_total = cents (2400 + t)\<rparr>
       \<and> \<bar>of_int t - 2400 * 13 / (100 :: rat)\<bar> \<le> 1 / 2 + 1 / 1000"
  using invoiceTotals_cents [of "[1999, 500]" 99 13] by simp

lemma single_line_tax:
  assumes "0 \<le> p" and "p \<le> 2 ^ 36" and "0 \<le> r" and "r \<le> 100"
  shows "tot_tax (invoiceTotals [Some (cents p)] (Some (Fin r)) None) = cents (tax_cents p r)"
proof -
  obtain x where x: "cents p = Fin x" by (simp add: cents_def)
  have "roundMoney (Some (sum_amounts (map (\<lambda>k. Some (cents k)) [p]))) = cents (sum_list [p])"
    using assms(1,2) by (intro subtotal_cents) auto
  then have sub: "roundMoney (Some (sum_amounts [Some (cents p)])) = cents p" by simp
  have "roundMoney (Some (math_max (Fin 0) (js_sub (Fin x) (Fin 0)))) = cents (max 0 (p - 0))"
    using assms(1,2) by (intro roundMoney_diff [OF x]) auto
  then have "roundMoney (Some (math_max (Fin 0) (js_sub (cents p) (Fin 0)))) = cents p"
    using assms(1) by (simp add: x)
  then show ?thesis
    using tax_value(1) [OF assms] by (simp add: invoiceTotals_def Let_def sub)
qed

lemma nearest_int_unique:
  fixes t m :: int
  assumes "\<bar>of_int t - of_int m / 100\<bar> \<le> (1 / 2 + 1 / 1000 :: rat)" and "m mod 100 \<noteq> 50"
  shows "t = (m + 50) div 100"
proof -
  have "\<bar>100 * of_int t - of_int m :: rat\<bar> \<le> 501 / 10" using assms(1) by linarith
  then have "\<bar>of_int (100 * t - m) :: rat\<bar> < of_int 51" by simp
  then have near: "\<bar>100 * t - m\<bar> < 51" by linarith
  have "m \<noteq> 50 + 100 * t" using assms(2) by auto
  then have "(m + 50) div 100 = t"
    using near by (intro int_div_pos_eq [where r = "m + 50 - 100 * t"]) auto
  then show ?thesis ..
qed

text \<open>At a whole percentage the tax is the exact tax rounded half up to cents, whenever the exact
  tax is not a half cent.\<close>

theorem whole_percent_tax:
  assumes "0 \<le> p" and "p \<le> 2 ^ 36" and "n \<le> (100::nat)" and "(p * int n) mod 100 \<noteq> 50"
  shows "tot_tax (invoiceTotals [Some (cents p)] (Some (Fin (of_nat n))) None)
         = cents ((p * int n + 50) div 100)"
proof -
  have n: "0 \<le> (of_nat n :: rat)" "(of_nat n :: rat) \<le> 100"
    using assms(3) of_nat_le_iff [of n 100, where ?'a = rat] by simp_all
  have "\<bar>of_int (tax_cents p (of_nat n)) - of_int (p * int n) / 100\<bar> \<le> (1 / 2 + 1 / 1000 :: rat)"
    using tax_value(2) [OF assms(1,2) n] by simp
  from nearest_int_unique [OF this assms(4)] show ?thesis
    using single_line_tax [OF assms(1,2) n] by simp
qed

theorem whole_percent_tax_witness:
  "tot_tax (invoiceTotals [Some (cents 1999)] (Some (Fin (of_nat 13))) None) = cents 260"
  using whole_percent_tax [of 1999 13] by simp

lemma tax_cents_1850: "tax_cents 1850 13 = 240"
proof -
  have a: "round_binary64 (37 / 2) = 37 / 2" by code_simp
  have b: "round_binary64 (481 / 2) = 481 / 2" by code_simp
  have c: "round_binary64 (481 / 200) = 5415578551913021 / 2251799813685248" by code_simp
  have d: "round_binary64 (5415578551913021 / 2251799813685248 * 100) = 8461841487364095 / 35184372088832"
    by code_simp
  have "tax_cents 1850 13 = \<lfloor>round_binary64 (round_binary64 (round_binary64
      (round_binary64 (37 / 2) * 13) / 100) * 100) + 1 / 2\<rfloor>"
    by (simp add: tax_cents_def cents_def to_cents_def)
  also have "round_binary64 (37 / 2) * 13 = 481 / 2" unfolding a by simp
  also have "round_binary64 (481 / 2) / 100 = 481 / 200" unfolding b by simp
  also have "\<lfloor>round_binary64 (round_binary64 (481 / 200) * 100) + 1 / 2\<rfloor> = 240"
    unfolding c d by (rule floor_unique) simp_all
  finally show ?thesis .
qed

text \<open>On a half cent the documented half-up rule does not hold: the 13 percent tax on 18.50 is
  2.405, which half-up rounds to 2.41, and the code returns 2.40.\<close>

theorem half_cent_tax_rounds_down:
  "tot_tax (invoiceTotals [Some (cents 1850)] (Some (Fin 13)) None) = cents 240
   \<and> (1850 * 13 + 50) div 100 = (241 :: int)"
  using single_line_tax [of 1850 13] tax_cents_1850 by simp

end
