(* ===== verification/Prelude.thy ===== *)
theory Prelude
  imports Main "HOL-Library.Char_ord" "HOL-Library.List_Lexorder"
begin

section \<open>Shared definitions: strings, tables, results\<close>

text \<open>
  What every component shares. A JavaScript string is a \<open>string\<close> (a list of characters with codes
  below 256; code units above Latin-1 are outside the model). A database table is the list of its
  rows, and a Prisma \<open>updateMany\<close> with a \<open>where\<close> and a \<open>data\<close> is \<open>update_rows P f\<close> with the
  count \<open>count_rows P\<close>, evaluated on the current table in one step: the statement is atomic. A
  function that may throw returns a sum, \<open>Inl\<close> the error. Times are milliseconds, \<open>int\<close>.
\<close>

named_theorems row_simps \<open>equations for tables and their updates\<close>

type_synonym timestamp = int

subsection \<open>Strings\<close>

definition ALPHA :: string where
  "ALPHA = ''ABCDEFGHIJKLMNOPQRSTUVWXYZabcdefghijklmnopqrstuvwxyz''"

definition UPPER :: string where
  "UPPER = ''ABCDEFGHIJKLMNOPQRSTUVWXYZ''"

definition DIGITS :: string where
  "DIGITS = ''0123456789''"

definition HEX :: string where
  "HEX = ''0123456789abcdef''"

definition all_in :: "string \<Rightarrow> string \<Rightarrow> bool" where
  "all_in cs s = list_all (\<lambda>c. c \<in> set cs) s"

lemma all_in_mono: "all_in cs s \<Longrightarrow> set cs \<subseteq> set ds \<Longrightarrow> all_in ds s"
  by (auto simp: all_in_def list_all_iff)

lemma all_in_append [simp]: "all_in cs (s @ t) \<longleftrightarrow> all_in cs s \<and> all_in cs t"
  by (simp add: all_in_def)

lemma all_in_take: "all_in cs s \<Longrightarrow> all_in cs (take n s)"
  by (auto simp: all_in_def list_all_iff dest: in_set_takeD)

text \<open>\<open>String.prototype.trim\<close> and \<open>toUpperCase\<close> on Latin-1 text.\<close>

definition is_space :: "char \<Rightarrow> bool" where
  "is_space c = (of_char c \<in> {9, 10, 11, 12, 13, 32, 160 :: nat})"

definition js_trim :: "string \<Rightarrow> string" where
  "js_trim s = rev (dropWhile is_space (rev (dropWhile is_space s)))"

definition upper_char :: "char \<Rightarrow> string" where
  "upper_char c =
     (let n = (of_char c :: nat)
      in if 97 \<le> n \<and> n \<le> 122 \<or> 224 \<le> n \<and> n \<le> 254 \<and> n \<noteq> 247 then [char_of (n - 32)]
         else if n = 223 then ''SS'' else [c])"

definition js_upper :: "string \<Rightarrow> string" where
  "js_upper s = concat (map upper_char s)"

definition lower_char :: "char \<Rightarrow> char" where
  "lower_char c =
     (let n = (of_char c :: nat)
      in if 65 \<le> n \<and> n \<le> 90 \<or> 192 \<le> n \<and> n \<le> 222 \<and> n \<noteq> 215 then char_of (n + 32) else c)"

definition js_lower :: "string \<Rightarrow> string" where
  "js_lower s = map lower_char s"

text \<open>The decimal text of a natural number, and \<open>padStart\<close>.\<close>

function (sequential) nat_text :: "nat \<Rightarrow> string" where
  "nat_text n = (if n < 10 then [DIGITS ! n] else nat_text (n div 10) @ [DIGITS ! (n mod 10)])"
  by pat_completeness auto

termination nat_text
  by (relation "measure id") auto

declare nat_text.simps [simp del]

definition int_text :: "int \<Rightarrow> string" where
  "int_text i = (if i < 0 then CHR ''-'' # nat_text (nat (- i)) else nat_text (nat i))"

definition padStart :: "nat \<Rightarrow> char \<Rightarrow> string \<Rightarrow> string" where
  "padStart n c s = replicate (n - length s) c @ s"

text \<open>A nullable string that is present and not empty, the strings JavaScript takes as true.\<close>

definition given :: "string option \<Rightarrow> bool" where
  "given s = (case s of None \<Rightarrow> False | Some t \<Rightarrow> t \<noteq> [])"

subsection \<open>Tables\<close>

definition update_rows :: "('r \<Rightarrow> bool) \<Rightarrow> ('r \<Rightarrow> 'r) \<Rightarrow> 'r list \<Rightarrow> 'r list" where
  "update_rows P f rows = map (\<lambda>r. if P r then f r else r) rows"

definition count_rows :: "('r \<Rightarrow> bool) \<Rightarrow> 'r list \<Rightarrow> nat" where
  "count_rows P rows = length (filter P rows)"

definition find_row :: "('r \<Rightarrow> bool) \<Rightarrow> 'r list \<Rightarrow> 'r option" where
  "find_row P rows = List.find P rows"

lemma update_rows_Nil [row_simps, simp]: "update_rows P f [] = []"
  by (simp add: update_rows_def)

lemma update_rows_Cons [row_simps, simp]:
  "update_rows P f (r # rs) = (if P r then f r else r) # update_rows P f rs"
  by (simp add: update_rows_def)

lemma length_update_rows [row_simps, simp]: "length (update_rows P f rows) = length rows"
  by (simp add: update_rows_def)

lemma set_update_rows:
  "set (update_rows P f rows) = {r \<in> set rows. \<not> P r} \<union> f ` {r \<in> set rows. P r}"
  by (auto simp: update_rows_def)

lemma in_update_rowsE:
  assumes "r' \<in> set (update_rows P f rows)"
  obtains r where "r \<in> set rows" and "P r" and "r' = f r"
    | "r' \<in> set rows" and "\<not> P r'"
  using assms by (auto simp: set_update_rows)

lemma count_rows_0_iff [row_simps]: "count_rows P rows = 0 \<longleftrightarrow> (\<forall>r \<in> set rows. \<not> P r)"
  by (simp add: count_rows_def filter_empty_conv)

lemma update_rows_none: "\<forall>r \<in> set rows. \<not> P r \<Longrightarrow> update_rows P f rows = rows"
  by (induction rows) auto

lemma count_rows_pos: "r \<in> set rows \<Longrightarrow> P r \<Longrightarrow> 0 < count_rows P rows"
  by (auto simp: count_rows_def filter_empty_conv)

text \<open>
  Row updates that keep the key of a row: the table keeps its keys, and looking a key up after the
  update finds the updated row. Every component interprets this locale on its own updates.
\<close>

locale keyed_update =
  fixes key :: "'r \<Rightarrow> 'k" and upd :: "'r \<Rightarrow> 'r"
  assumes key_upd: "key (upd r) = key r"
begin

lemma keys_update: "map key (update_rows P upd rows) = map key rows"
  by (induction rows) (auto simp: key_upd)

lemma distinct_update: "distinct (map key rows) \<Longrightarrow> distinct (map key (update_rows P upd rows))"
  by (simp add: keys_update)

lemma find_update:
  "find_row (\<lambda>r. key r = k) (update_rows P upd rows) =
     map_option (\<lambda>r. if P r then upd r else r) (find_row (\<lambda>r. key r = k) rows)"
  unfolding find_row_def by (induction rows) (auto simp: key_upd)

end

lemma find_row_distinct:
  "distinct (map key rows) \<Longrightarrow> r \<in> set rows \<Longrightarrow> find_row (\<lambda>x. key x = key r) rows = Some r"
  unfolding find_row_def by (induction rows) (auto simp: image_iff)

lemma find_row_SomeD: "find_row P rows = Some r \<Longrightarrow> r \<in> set rows \<and> P r"
  by (auto simp: find_row_def find_Some_iff)

lemma find_row_None_iff [row_simps]: "find_row P rows = None \<longleftrightarrow> (\<forall>r \<in> set rows. \<not> P r)"
  by (auto simp: find_row_def find_None_iff)

lemma find_row_append:
  "find_row P (xs @ ys) = (case find_row P xs of None \<Rightarrow> find_row P ys | Some r \<Rightarrow> Some r)"
  unfolding find_row_def by (induction xs) auto

lemma find_row_Cons: "find_row P (x # xs) = (if P x then Some x else find_row P xs)"
  by (simp add: find_row_def)

text \<open>An update addressed by a unique key changes at most one row.\<close>

lemma count_by_key:
  assumes "distinct (map key rows)" and "\<And>r. P r \<Longrightarrow> key r = k"
  shows "count_rows P rows \<le> 1"
  using assms unfolding count_rows_def
proof (induction rows)
  case (Cons r rows)
  show ?case
  proof (cases "P r")
    case True
    then have "\<forall>x \<in> set rows. \<not> P x" using Cons.prems by (metis distinct.simps(2) image_eqI list.set_map list.simps(9))
    then have "filter P rows = []" by (simp add: filter_empty_conv)
    with True show ?thesis by simp
  next
    case False
    with Cons show ?thesis by simp
  qed
qed simp

subsection \<open>Statements of a request\<close>

text \<open>
  One statement of a request: before it the other requests act on the database, and it may fail, in
  which case it has no effect. The counter numbers the statements of the run.
\<close>

definition db_statement ::
  "(nat \<Rightarrow> 'db \<Rightarrow> 'db) \<Rightarrow> (nat \<Rightarrow> bool) \<Rightarrow> ('db \<Rightarrow> 'r \<times> 'db) \<Rightarrow> nat \<times> 'db \<Rightarrow> 'r option \<times> nat \<times> 'db" where
  "db_statement others ok f r =
     (let db = others (fst r) (snd r)
      in if ok (fst r) then (case f db of (x, db') \<Rightarrow> (Some x, Suc (fst r), db')) else (None, Suc (fst r), db))"

definition db_read :: "('db \<Rightarrow> 'r) \<Rightarrow> 'db \<Rightarrow> 'r \<times> 'db" where
  "db_read q db = (q db, db)"

lemma db_read_statement:
  "db_statement others ok (db_read q) r =
     (if ok (fst r) then Some (q (others (fst r) (snd r))) else None, Suc (fst r), others (fst r) (snd r))"
  by (simp add: db_statement_def db_read_def Let_def)

end
