(* ===== verification/Domain_Events.thy ===== *)
theory Domain_Events
  imports Prelude JS_Number
begin

section \<open>Domain events: catalog, producers, transactional recorder\<close>

text \<open>
  Models \<^verbatim>\<open>src/services/domain-event-catalog.js\<close> (the versioned payload schemas),
  \<^verbatim>\<open>src/services/domain-event-producers.js\<close> (the normalizing producers of invoice, proposal and
  contract events) and \<^verbatim>\<open>src/services/domain-event.service.js\<close> (the recorder, which appends an event
  to the outbox table with the next sequence number of its aggregate).

  SHA-256, \<open>Date.toISOString\<close> and zod's date-time check are parameters (\<open>externals\<close>); the theorems
  that need them assume \<open>externals_ok\<close>: a digest is 64 lower-case hex digits and zod accepts
  the text of \<open>toISOString\<close> for a time in the years 0 to 9999 (from 0000-01-01 up to 10000-01-01).
\<close>

record externals =
  sha256 :: "string \<Rightarrow> string"
  toISOString :: "timestamp \<Rightarrow> string"
  zodDateTime :: "string \<Rightarrow> bool"

definition four_digit_year :: "timestamp \<Rightarrow> bool" where
  "four_digit_year t \<longleftrightarrow> - 62167219200000 \<le> t \<and> t < 253402300800000"

definition externals_ok :: "externals \<Rightarrow> bool" where
  "externals_ok ext \<longleftrightarrow>
     (\<forall>s. length (sha256 ext s) = 64 \<and> all_in HEX (sha256 ext s)) \<and>
     (\<forall>t. four_digit_year t \<longrightarrow> zodDateTime ext (toISOString ext t))"

subsection \<open>JSON values and the payload catalog\<close>

datatype json =
    JNull
  | JBool bool
  | JNum jsnum
  | JStr string
  | JArr "json list"
  | JObj "(string \<times> json) list"

text \<open>The member of an object; other values have none.\<close>

definition jfield :: "json \<Rightarrow> string \<Rightarrow> json option" where
  "jfield v k = (case v of JObj kvs \<Rightarrow> map_of kvs k | _ \<Rightarrow> None)"

text \<open>What JavaScript takes as true.\<close>

definition truthy :: "json option \<Rightarrow> bool" where
  "truthy v = (case v of None \<Rightarrow> False | Some JNull \<Rightarrow> False | Some (JBool b) \<Rightarrow> b
     | Some (JNum n) \<Rightarrow> n \<noteq> NaN \<and> n \<noteq> Fin 0 | Some (JStr s) \<Rightarrow> s \<noteq> [] | Some _ \<Rightarrow> True)"

text \<open>The field schemas of the catalog: \<open>id\<close>, \<open>id.nullable()\<close>, \<open>amount\<close>, and so on.\<close>

datatype field_schema =
    SId | SNullableId | SAmount | SCurrency | SCode | SSha256 | SIsoDateTime
  | SEnum "string list" | SDataIssues

definition ID_CHARS :: string where
  "ID_CHARS = ALPHA @ DIGITS @ ''_:.-''"

definition CODE_CHARS :: string where
  "CODE_CHARS = ALPHA @ DIGITS @ ''_-''"

fun is_id :: "json \<Rightarrow> bool" where
  "is_id (JStr s) = (1 \<le> length s \<and> length s \<le> 191 \<and> all_in ID_CHARS s)"
| "is_id _ = False"

fun is_issue :: "json \<Rightarrow> bool" where
  "is_issue (JStr s) = (s \<noteq> [] \<and> all_in ALPHA s \<and> length s \<le> 40)"
| "is_issue _ = False"

text \<open>Whether a present value satisfies a field schema.\<close>

fun check_field :: "externals \<Rightarrow> field_schema \<Rightarrow> json \<Rightarrow> bool" where
  "check_field ext SId v = is_id v"
| "check_field ext SNullableId v = (v = JNull \<or> is_id v)"
| "check_field ext SAmount v = (case v of JNum n \<Rightarrow> is_finite n | _ \<Rightarrow> False)"
| "check_field ext SCurrency v = (case v of JStr s \<Rightarrow> length s = 3 \<and> all_in UPPER s | _ \<Rightarrow> False)"
| "check_field ext SCode v =
     (case v of JStr s \<Rightarrow> 1 \<le> length s \<and> length s \<le> 40 \<and> all_in CODE_CHARS s | _ \<Rightarrow> False)"
| "check_field ext SSha256 v = (case v of JStr s \<Rightarrow> length s = 64 \<and> all_in HEX s | _ \<Rightarrow> False)"
| "check_field ext SIsoDateTime v = (case v of JStr s \<Rightarrow> zodDateTime ext s | _ \<Rightarrow> False)"
| "check_field ext (SEnum allowed) v = (case v of JStr s \<Rightarrow> s \<in> set allowed | _ \<Rightarrow> False)"
| "check_field ext SDataIssues v =
     (case v of JArr xs \<Rightarrow> 1 \<le> length xs \<and> length xs \<le> 20 \<and> list_all is_issue xs | _ \<Rightarrow> False)"

text \<open>
  A strict object schema: no unlisted key, every listed key present and valid; only \<open>dataIssues\<close>
  is optional.
\<close>

type_synonym object_schema = "(string \<times> field_schema) list"

fun check_object :: "externals \<Rightarrow> object_schema \<Rightarrow> json \<Rightarrow> bool" where
  "check_object ext schema (JObj kvs) =
     (list_all (\<lambda>(k, _). k \<in> set (map fst schema)) kvs \<and>
      list_all (\<lambda>(k, s). case map_of kvs k of
                   None \<Rightarrow> s = SDataIssues
                 | Some v \<Rightarrow> check_field ext s v) schema)"
| "check_object _ _ _ = False"

record event_spec =
  spec_aggregateType :: string
  spec_currentVersion :: nat
  spec_versions :: "(nat \<times> object_schema) list"

definition run_requested_spec :: event_spec where
  "run_requested_spec =
     \<lparr>spec_aggregateType = ''client_agent_run'', spec_currentVersion = 1,
      spec_versions = [(1, [(''clientId'', SId), (''conversationId'', SId), (''runId'', SId),
                            (''requestedById'', SId)])]\<rparr>"

definition invoice_paid_spec :: event_spec where
  "invoice_paid_spec =
     \<lparr>spec_aggregateType = ''invoice'', spec_currentVersion = 1,
      spec_versions = [(1, [(''invoiceId'', SId), (''clientId'', SId), (''paymentId'', SNullableId),
         (''amount'', SAmount), (''total'', SAmount), (''currency'', SCurrency), (''method'', SCode),
         (''source'', SEnum [''manual'', ''stripe_checkout'']), (''paidAt'', SIsoDateTime),
         (''dataIssues'', SDataIssues)])]\<rparr>"

definition proposal_approved_spec :: event_spec where
  "proposal_approved_spec =
     \<lparr>spec_aggregateType = ''proposal'', spec_currentVersion = 1,
      spec_versions = [(1, [(''proposalId'', SId), (''clientId'', SId), (''projectId'', SNullableId),
         (''total'', SAmount), (''via'', SEnum [''portal_link'', ''public_link'']),
         (''approvedAt'', SIsoDateTime), (''dataIssues'', SDataIssues)])]\<rparr>"

definition contract_signed_spec :: event_spec where
  "contract_signed_spec =
     \<lparr>spec_aggregateType = ''contract'', spec_currentVersion = 1,
      spec_versions = [(1, [(''contractId'', SId), (''clientId'', SId), (''proposalId'', SNullableId),
         (''signingMethod'', SEnum [''type'', ''draw'']), (''documentHash'', SSha256),
         (''via'', SEnum [''portal_link'', ''public_link'']), (''signedAt'', SIsoDateTime),
         (''dataIssues'', SDataIssues)])]\<rparr>"

definition DOMAIN_EVENT_CATALOG :: "(string \<times> event_spec) list" where
  "DOMAIN_EVENT_CATALOG =
     [(''client_agent.run_requested'', run_requested_spec), (''invoice.paid'', invoice_paid_spec),
      (''proposal.approved'', proposal_approved_spec), (''contract.signed'', contract_signed_spec)]"

datatype event_error = DomainEventValidationError | DomainEventIdempotencyConflict string

definition getDomainEventSpec :: "string \<Rightarrow> event_error + event_spec" where
  "getDomainEventSpec type =
     (case map_of DOMAIN_EVENT_CATALOG type of
        None \<Rightarrow> Inl DomainEventValidationError | Some spec \<Rightarrow> Inr spec)"

definition validateDomainEventPayload ::
  "externals \<Rightarrow> string \<Rightarrow> json \<Rightarrow> nat option \<Rightarrow> event_error + json" where
  "validateDomainEventPayload ext type payload schemaVersion =
     (case getDomainEventSpec type of Inl e \<Rightarrow> Inl e
      | Inr spec \<Rightarrow>
         (let version = (case schemaVersion of None \<Rightarrow> spec_currentVersion spec | Some v \<Rightarrow> v)
          in case map_of (spec_versions spec) version of
               None \<Rightarrow> Inl DomainEventValidationError
             | Some schema \<Rightarrow>
                 if check_object ext schema payload then Inr payload
                 else Inl DomainEventValidationError))"

subsection \<open>The payload normalizer\<close>

text \<open>
  Each method of \<open>PayloadNormalizer\<close> returns the value it puts into the payload and the list of
  flagged fields, the normalizer's state, threaded in call order. A stored value is an option:
  \<open>None\<close> for null, undefined or a value of another type.
\<close>

definition flag :: "string \<Rightarrow> string list \<Rightarrow> string list" where
  "flag field issues = (if field \<in> set issues then issues else issues @ [field])"

definition valid_id :: "string \<Rightarrow> bool" where
  "valid_id s = (length s \<le> 191 \<and> s \<noteq> [] \<and> all_in ID_CHARS s)"

definition n_id :: "externals \<Rightarrow> string \<Rightarrow> string option \<Rightarrow> string list \<Rightarrow> string \<times> string list" where
  "n_id ext field value issues =
     (case value of
        Some s \<Rightarrow> if valid_id s then (s, issues)
                  else (''invalid-'' @ take 32 (sha256 ext s), flag field issues)
      | None \<Rightarrow> (''invalid-'' @ take 32 (sha256 ext []), flag field issues))"

definition n_nullableId ::
  "externals \<Rightarrow> string \<Rightarrow> string option \<Rightarrow> string list \<Rightarrow> json \<times> string list" where
  "n_nullableId ext field value issues =
     (case value of None \<Rightarrow> (JNull, issues)
      | Some s \<Rightarrow> (let (v, is) = n_id ext field (Some s) issues in (JStr v, is)))"

definition n_amount :: "string \<Rightarrow> jsnum option \<Rightarrow> string list \<Rightarrow> jsnum \<times> string list" where
  "n_amount field value issues =
     (case value of
        Some n \<Rightarrow> if is_finite n then (n, issues) else (Fin 0, flag field issues)
      | None \<Rightarrow> (Fin 0, flag field issues))"

definition n_currency :: "string \<Rightarrow> string option \<Rightarrow> string list \<Rightarrow> string \<times> string list" where
  "n_currency field value issues =
     (case value of None \<Rightarrow> (''CAD'', issues)
      | Some s \<Rightarrow>
         (if s = [] then (''CAD'', issues)
          else let upper = js_upper (js_trim s)
               in if length upper = 3 \<and> all_in UPPER upper then (upper, issues)
                  else (''XXX'', flag field issues)))"

definition n_code :: "string \<Rightarrow> string option \<Rightarrow> string list \<Rightarrow> string \<times> string list" where
  "n_code field value issues =
     (case value of
        Some s \<Rightarrow> if 1 \<le> length s \<and> length s \<le> 40 \<and> all_in CODE_CHARS s then (s, issues)
                  else (''UNKNOWN'', flag field issues)
      | None \<Rightarrow> (''UNKNOWN'', flag field issues))"

definition n_oneOf ::
  "string \<Rightarrow> string option \<Rightarrow> string list \<Rightarrow> string \<Rightarrow> string list \<Rightarrow> string \<times> string list" where
  "n_oneOf field value allowed fallback issues =
     (case value of
        Some s \<Rightarrow> if s \<in> set allowed then (s, issues) else (fallback, flag field issues)
      | None \<Rightarrow> (fallback, flag field issues))"

definition n_sha256 :: "externals \<Rightarrow> string \<Rightarrow> string option \<Rightarrow> string list \<Rightarrow> string \<times> string list" where
  "n_sha256 ext field value issues =
     (case value of
        Some s \<Rightarrow> if length s = 64 \<and> all_in HEX s then (s, issues)
                  else (sha256 ext s, flag field issues)
      | None \<Rightarrow> (sha256 ext [], flag field issues))"

definition n_date ::
  "externals \<Rightarrow> timestamp \<Rightarrow> string \<Rightarrow> timestamp option \<Rightarrow> string list \<Rightarrow> string \<times> string list" where
  "n_date ext now field value issues =
     (case value of Some t \<Rightarrow> (toISOString ext t, issues)
      | None \<Rightarrow> (toISOString ext now, flag field issues))"

definition n_finish :: "(string \<times> json) list \<Rightarrow> string list \<Rightarrow> json" where
  "n_finish payload issues =
     (if issues \<noteq> [] then JObj (payload @ [(''dataIssues'', JArr (map JStr issues))])
      else JObj payload)"

definition idempotencyKeyFor :: "externals \<Rightarrow> string \<Rightarrow> string list \<Rightarrow> string" where
  "idempotencyKeyFor ext type parts =
     (let key = concat (type # map (\<lambda>p. '':'' @ p) parts)
      in if length key \<le> 255 then key else type @ '':sha256:'' @ sha256 ext key)"

subsection \<open>The outbox table and the recorder\<close>

datatype event_status = Pending | Dispatching | Published | Dead | Discarded

record event =
  ev_id :: string
  ev_organizationId :: string
  ev_type :: string
  ev_schemaVersion :: nat
  ev_aggregateType :: string
  ev_aggregateId :: string
  ev_sequence :: nat
  ev_payload :: json
  ev_correlationId :: string
  ev_causationId :: "string option"
  ev_idempotencyKey :: string
  ev_occurredAt :: timestamp
  ev_status :: event_status
  ev_attempts :: nat
  ev_nextAttemptAt :: timestamp
  ev_lastAttemptAt :: "timestamp option"
  ev_lockedUntil :: "timestamp option"
  ev_claimToken :: "string option"
  ev_publishedAt :: "timestamp option"
  ev_discardedAt :: "timestamp option"
  ev_lastError :: "string option"
  ev_replayCount :: nat

text \<open>
  What a request supplies besides its input: the tenant and request id of the request context, the
  clock, and the fresh identifiers of the row (\<open>cuid\<close>) and of the correlation (\<open>randomUUID\<close>).
\<close>

record request_ctx =
  ctx_organizationId :: "string option"
  ctx_requestId :: "string option"
  ctx_now :: timestamp
  ctx_newId :: string
  ctx_uuid :: string

record event_input =
  in_type :: string
  in_aggregateId :: string
  in_payload :: json
  in_idempotencyKey :: string
  in_organizationId :: "string option"
  in_correlationId :: "string option"
  in_causationId :: "string option"
  in_occurredAt :: "timestamp option"

definition TRACE_CHARS :: string where
  "TRACE_CHARS = ALPHA @ DIGITS @ ''_:.@/+-''"

definition traceIdOrNull :: "string option \<Rightarrow> string option" where
  "traceIdOrNull value =
     (case value of None \<Rightarrow> None
      | Some s \<Rightarrow> if s = [] then None
                  else if length s \<le> 191 \<and> all_in TRACE_CHARS s then Some s else None)"

definition requiredId :: "string option \<Rightarrow> nat \<Rightarrow> event_error + string" where
  "requiredId value limit =
     (case value of None \<Rightarrow> Inl DomainEventValidationError
      | Some s \<Rightarrow> if s = [] \<or> limit < length s then Inl DomainEventValidationError else Inr s)"

text \<open>
  \<open>canonicalJson\<close>, as the value whose text it prints: keys sorted at every level, and a number that
  JSON cannot express printed as null. Two values have the same text iff these are equal.
\<close>

fun canonicalJson :: "json \<Rightarrow> json" where
  "canonicalJson (JArr xs) = JArr (map canonicalJson xs)"
| "canonicalJson (JObj kvs) =
     JObj (sort_key fst (map (\<lambda>(k, v). (k, canonicalJson v)) kvs))"
| "canonicalJson (JNum n) = (if is_finite n then JNum n else JNull)"
| "canonicalJson JNull = JNull"
| "canonicalJson (JBool b) = JBool b"
| "canonicalJson (JStr s) = JStr s"

definition same_aggregate :: "string \<Rightarrow> string \<Rightarrow> string \<Rightarrow> event \<Rightarrow> bool" where
  "same_aggregate org aggType aggId e =
     (ev_organizationId e = org \<and> ev_aggregateType e = aggType \<and> ev_aggregateId e = aggId)"

definition max_sequence :: "event list \<Rightarrow> nat" where
  "max_sequence es = fold max (map ev_sequence es) 0"

text \<open>\<open>tx.domainEvent.create\<close> with the unique index on (organization, idempotency key).\<close>

definition create_event :: "event list \<Rightarrow> event \<Rightarrow> event_error + event list" where
  "create_event rows e =
     (if list_ex (\<lambda>r. ev_organizationId r = ev_organizationId e \<and>
                      ev_idempotencyKey r = ev_idempotencyKey e) rows
      then Inl (DomainEventIdempotencyConflict (ev_idempotencyKey e))
      else Inr (rows @ [e]))"

text \<open>
  \<open>recordDomainEvent\<close> after its advisory lock, so the read of the table and the insert are one
  step. \<open>check_input\<close> is the code before the lock: it returns the catalog entry, the validated
  payload, the organization, the aggregate id and the idempotency key.
\<close>

definition check_input ::
  "externals \<Rightarrow> request_ctx \<Rightarrow> event_input \<Rightarrow> event_error + (event_spec \<times> json \<times> string \<times> string \<times> string)" where
  "check_input ext ctx input =
     (case getDomainEventSpec (in_type input) of Inl e \<Rightarrow> Inl e | Inr spec \<Rightarrow>
     (case validateDomainEventPayload ext (in_type input) (in_payload input) None of
        Inl e \<Rightarrow> Inl e | Inr payload \<Rightarrow>
     (case requiredId (case in_organizationId input of
                         Some o' \<Rightarrow> Some o' | None \<Rightarrow> ctx_organizationId ctx) 191 of
        Inl e \<Rightarrow> Inl e | Inr org \<Rightarrow>
     (if ctx_organizationId ctx \<noteq> None \<and> ctx_organizationId ctx \<noteq> Some [] \<and>
         ctx_organizationId ctx \<noteq> Some org
      then Inl DomainEventValidationError
      else
     (case requiredId (Some (in_aggregateId input)) 191 of Inl e \<Rightarrow> Inl e | Inr aggId \<Rightarrow>
     (case requiredId (Some (in_idempotencyKey input)) 255 of Inl e \<Rightarrow> Inl e | Inr key \<Rightarrow>
        Inr (spec, payload, org, aggId, key)))))))"

definition new_event ::
  "request_ctx \<Rightarrow> event_input \<Rightarrow> event_spec \<Rightarrow> json \<Rightarrow> string \<Rightarrow> string \<Rightarrow> string \<Rightarrow> nat \<Rightarrow> event" where
  "new_event ctx input spec payload org aggId key sequence =
     \<lparr>ev_id = ctx_newId ctx, ev_organizationId = org, ev_type = in_type input,
      ev_schemaVersion = spec_currentVersion spec,
      ev_aggregateType = spec_aggregateType spec, ev_aggregateId = aggId,
      ev_sequence = sequence, ev_payload = payload,
      ev_correlationId = (case traceIdOrNull (in_correlationId input) of Some c \<Rightarrow> c
                          | None \<Rightarrow> (case traceIdOrNull (ctx_requestId ctx) of Some c \<Rightarrow> c
                                     | None \<Rightarrow> ctx_uuid ctx)),
      ev_causationId = traceIdOrNull (in_causationId input),
      ev_idempotencyKey = key,
      ev_occurredAt = (case in_occurredAt input of Some t \<Rightarrow> t | None \<Rightarrow> ctx_now ctx),
      ev_status = Pending, ev_attempts = 0, ev_nextAttemptAt = ctx_now ctx,
      ev_lastAttemptAt = None, ev_lockedUntil = None, ev_claimToken = None,
      ev_publishedAt = None, ev_discardedAt = None, ev_lastError = None, ev_replayCount = 0\<rparr>"

definition recordDomainEvent ::
  "externals \<Rightarrow> request_ctx \<Rightarrow> event_input \<Rightarrow> event list \<Rightarrow> event_error + (event \<times> bool \<times> event list)" where
  "recordDomainEvent ext ctx input rows =
     (case check_input ext ctx input of Inl e \<Rightarrow> Inl e
      | Inr (spec, payload, org, aggId, key) \<Rightarrow>
     (case find_row (\<lambda>e. ev_organizationId e = org \<and> ev_idempotencyKey e = key) rows of
        Some existing \<Rightarrow>
          (if ev_type existing \<noteq> in_type input \<or> ev_aggregateType existing \<noteq> spec_aggregateType spec
              \<or> ev_aggregateId existing \<noteq> aggId \<or> ev_schemaVersion existing \<noteq> spec_currentVersion spec
              \<or> canonicalJson (ev_payload existing) \<noteq> canonicalJson payload
           then Inl (DomainEventIdempotencyConflict key)
           else Inr (existing, True, rows))
      | None \<Rightarrow>
         (let sequence = max_sequence
                (filter (same_aggregate org (spec_aggregateType spec) aggId) rows) + 1;
              e = new_event ctx input spec payload org aggId key sequence
          in case create_event rows e of Inl err \<Rightarrow> Inl err | Inr rows' \<Rightarrow> Inr (e, False, rows'))))"

subsection \<open>The producers\<close>

text \<open>
  The organization of an event: the input's, else the request's, else the client's (looked up
  including soft-deleted clients). \<open>clients\<close> is the clients table as (id, organization) pairs.
\<close>

definition resolveClientOrganizationId :: "(string \<times> string) list \<Rightarrow> string \<Rightarrow> event_error + string" where
  "resolveClientOrganizationId clients clientId =
     (case map_of clients clientId of
        None \<Rightarrow> Inl DomainEventValidationError
      | Some org \<Rightarrow> if org = [] then Inl DomainEventValidationError else Inr org)"

definition owningOrganization ::
  "request_ctx \<Rightarrow> (string \<times> string) list \<Rightarrow> string option \<Rightarrow> string \<Rightarrow> event_error + string" where
  "owningOrganization ctx clients organizationId clientId =
     (case organizationId of Some org \<Rightarrow> Inr org
      | None \<Rightarrow> (case ctx_organizationId ctx of Some org \<Rightarrow> Inr org
                 | None \<Rightarrow> resolveClientOrganizationId clients clientId))"

record invoice_paid_input =
  ip_organizationId :: "string option"
  ip_invoiceId :: string
  ip_clientId :: string
  ip_total :: "jsnum option"
  ip_currency :: "string option"
  ip_paymentId :: string
  ip_amount :: "jsnum option"
  ip_method :: string
  ip_source :: string
  ip_paidAt :: "timestamp option"
  ip_correlationId :: "string option"
  ip_causationId :: "string option"

definition invoice_paid_payload ::
  "externals \<Rightarrow> timestamp \<Rightarrow> invoice_paid_input \<Rightarrow> string \<times> string \<times> json" where
  "invoice_paid_payload ext now input =
     (let (invoiceId, i1) = n_id ext ''invoiceId'' (Some (ip_invoiceId input)) [];
          (paymentId, i2) = n_id ext ''paymentId'' (Some (ip_paymentId input)) i1;
          (clientId, i3) = n_id ext ''clientId'' (Some (ip_clientId input)) i2;
          (amount, i4) = n_amount ''amount'' (ip_amount input) i3;
          (tot, i5) = n_amount ''total'' (ip_total input) i4;
          (currency, i6) = n_currency ''currency'' (ip_currency input) i5;
          (method, i7) = n_code ''method'' (Some (ip_method input)) i6;
          (paidAt, i8) = n_date ext now ''paidAt'' (ip_paidAt input) i7
      in (invoiceId, paymentId,
          n_finish [(''invoiceId'', JStr invoiceId), (''clientId'', JStr clientId),
                    (''paymentId'', JStr paymentId), (''amount'', JNum amount), (''total'', JNum tot),
                    (''currency'', JStr currency), (''method'', JStr method),
                    (''source'', JStr (ip_source input)), (''paidAt'', JStr paidAt)] i8))"

definition recordInvoicePaid ::
  "externals \<Rightarrow> request_ctx \<Rightarrow> (string \<times> string) list \<Rightarrow> invoice_paid_input \<Rightarrow> event list
   \<Rightarrow> event_error + (event \<times> bool \<times> event list)" where
  "recordInvoicePaid ext ctx clients input rows =
     (let (invoiceId, paymentId, payload) = invoice_paid_payload ext (ctx_now ctx) input
      in case owningOrganization ctx clients (ip_organizationId input) (ip_clientId input) of
           Inl e \<Rightarrow> Inl e
         | Inr org \<Rightarrow>
             recordDomainEvent ext ctx
               \<lparr>in_type = ''invoice.paid'', in_aggregateId = invoiceId, in_payload = payload,
                in_idempotencyKey = idempotencyKeyFor ext ''invoice.paid'' [invoiceId, paymentId],
                in_organizationId = Some org, in_correlationId = ip_correlationId input,
                in_causationId = ip_causationId input, in_occurredAt = None\<rparr> rows)"

record proposal_approved_input =
  pa_organizationId :: "string option"
  pa_proposalId :: string
  pa_clientId :: string
  pa_projectId :: "string option"
  pa_total :: "jsnum option"
  pa_via :: string
  pa_approvedAt :: "timestamp option"
  pa_correlationId :: "string option"

definition proposal_approved_payload ::
  "externals \<Rightarrow> timestamp \<Rightarrow> proposal_approved_input \<Rightarrow> string \<times> json" where
  "proposal_approved_payload ext now input =
     (let (proposalId, i1) = n_id ext ''proposalId'' (Some (pa_proposalId input)) [];
          (clientId, i2) = n_id ext ''clientId'' (Some (pa_clientId input)) i1;
          (projectId, i3) = n_nullableId ext ''projectId'' (pa_projectId input) i2;
          (tot, i4) = n_amount ''total'' (pa_total input) i3;
          (approvedAt, i5) = n_date ext now ''approvedAt'' (pa_approvedAt input) i4
      in (proposalId,
          n_finish [(''proposalId'', JStr proposalId), (''clientId'', JStr clientId),
                    (''projectId'', projectId), (''total'', JNum tot), (''via'', JStr (pa_via input)),
                    (''approvedAt'', JStr approvedAt)] i5))"

definition recordProposalApproved ::
  "externals \<Rightarrow> request_ctx \<Rightarrow> (string \<times> string) list \<Rightarrow> proposal_approved_input \<Rightarrow> event list
   \<Rightarrow> event_error + (event \<times> bool \<times> event list)" where
  "recordProposalApproved ext ctx clients input rows =
     (let (proposalId, payload) = proposal_approved_payload ext (ctx_now ctx) input
      in case owningOrganization ctx clients (pa_organizationId input) (pa_clientId input) of
           Inl e \<Rightarrow> Inl e
         | Inr org \<Rightarrow>
             recordDomainEvent ext ctx
               \<lparr>in_type = ''proposal.approved'', in_aggregateId = proposalId, in_payload = payload,
                in_idempotencyKey = idempotencyKeyFor ext ''proposal.approved'' [proposalId],
                in_organizationId = Some org, in_correlationId = pa_correlationId input,
                in_causationId = None, in_occurredAt = None\<rparr> rows)"

record contract_signed_input =
  cs_organizationId :: "string option"
  cs_contractId :: string
  cs_clientId :: string
  cs_proposalId :: "string option"
  cs_signingMethod :: "string option"
  cs_documentHash :: "string option"
  cs_via :: string
  cs_signedAt :: "timestamp option"
  cs_correlationId :: "string option"

definition contract_signed_payload ::
  "externals \<Rightarrow> timestamp \<Rightarrow> contract_signed_input \<Rightarrow> string \<times> json" where
  "contract_signed_payload ext now input =
     (let (contractId, i1) = n_id ext ''contractId'' (Some (cs_contractId input)) [];
          (clientId, i2) = n_id ext ''clientId'' (Some (cs_clientId input)) i1;
          (proposalId, i3) = n_nullableId ext ''proposalId'' (cs_proposalId input) i2;
          (signingMethod, i4) = n_oneOf ''signingMethod'' (cs_signingMethod input) [''type'', ''draw''] ''type'' i3;
          (documentHash, i5) = n_sha256 ext ''documentHash'' (cs_documentHash input) i4;
          (signedAt, i6) = n_date ext now ''signedAt'' (cs_signedAt input) i5
      in (contractId,
          n_finish [(''contractId'', JStr contractId), (''clientId'', JStr clientId),
                    (''proposalId'', proposalId), (''signingMethod'', JStr signingMethod),
                    (''documentHash'', JStr documentHash), (''via'', JStr (cs_via input)),
                    (''signedAt'', JStr signedAt)] i6))"

definition recordContractSigned ::
  "externals \<Rightarrow> request_ctx \<Rightarrow> (string \<times> string) list \<Rightarrow> contract_signed_input \<Rightarrow> event list
   \<Rightarrow> event_error + (event \<times> bool \<times> event list)" where
  "recordContractSigned ext ctx clients input rows =
     (let (contractId, payload) = contract_signed_payload ext (ctx_now ctx) input
      in case owningOrganization ctx clients (cs_organizationId input) (cs_clientId input) of
           Inl e \<Rightarrow> Inl e
         | Inr org \<Rightarrow>
             recordDomainEvent ext ctx
               \<lparr>in_type = ''contract.signed'', in_aggregateId = contractId, in_payload = payload,
                in_idempotencyKey = idempotencyKeyFor ext ''contract.signed'' [contractId],
                in_organizationId = Some org, in_correlationId = cs_correlationId input,
                in_causationId = None, in_occurredAt = None\<rparr> rows)"

subsection \<open>Normalized payloads validate\<close>

definition issues_ok :: "nat \<Rightarrow> string list \<Rightarrow> bool" where
  "issues_ok n issues \<longleftrightarrow> length issues \<le> n \<and> (\<forall>x \<in> set issues. is_issue (JStr x))"

lemma issues_ok_Nil: "issues_ok 0 []"
  by (simp add: issues_ok_def)

lemma issues_ok_keep: "issues_ok n is \<Longrightarrow> issues_ok (Suc n) is"
  by (simp add: issues_ok_def)

lemma issues_ok_flag: "issues_ok n is \<Longrightarrow> is_issue (JStr f) \<Longrightarrow> issues_ok (Suc n) (flag f is)"
  by (auto simp: issues_ok_def flag_def)

lemmas issues_ok_step = issues_ok_keep issues_ok_flag

lemma externals_okD:
  assumes "externals_ok ext"
  shows "length (sha256 ext s) = 64" and "all_in HEX (sha256 ext s)" and "four_digit_year t \<Longrightarrow> zodDateTime ext (toISOString ext t)"
  using assms by (auto simp: externals_ok_def)

lemma HEX_ID: "set HEX \<subseteq> set ID_CHARS"
  by (simp add: HEX_def ID_CHARS_def ALPHA_def DIGITS_def)

lemma invalid_prefix: "all_in ID_CHARS ''invalid-''"
  by (simp add: all_in_def ID_CHARS_def ALPHA_def DIGITS_def)

lemma hashed_id_valid:
  assumes "externals_ok ext"
  shows "valid_id (''invalid-'' @ take 32 (sha256 ext s))"
proof -
  have "all_in ID_CHARS (take 32 (sha256 ext s))"
    using all_in_mono [OF externals_okD(2) [OF assms] HEX_ID] by (rule all_in_take)
  then show ?thesis
    using invalid_prefix externals_okD(1) [OF assms, of s]
    by (simp add: valid_id_def del: append.simps)
qed

lemma n_id_valid: "n_id ext f v is = (s, is') \<Longrightarrow> externals_ok ext \<Longrightarrow> valid_id s"
  by (auto simp: n_id_def hashed_id_valid simp del: append.simps split: option.splits if_splits)

lemma n_id_issues:
  "n_id ext f v is = (s, is') \<Longrightarrow> is_issue (JStr f) \<Longrightarrow> issues_ok n is \<Longrightarrow> issues_ok (Suc n) is'"
  by (auto simp: n_id_def issues_ok_step split: option.splits if_splits)

lemma n_nullableId_valid:
  "n_nullableId ext f v is = (j, is') \<Longrightarrow> externals_ok ext \<Longrightarrow> check_field ext SNullableId j"
  using n_id_valid
  by (auto simp: n_nullableId_def valid_id_def Suc_le_eq split: option.splits prod.splits)

lemma n_nullableId_issues:
  "n_nullableId ext f v is = (j, is') \<Longrightarrow> is_issue (JStr f) \<Longrightarrow> issues_ok n is \<Longrightarrow> issues_ok (Suc n) is'"
  using n_id_issues
  by (auto simp: n_nullableId_def issues_ok_keep split: option.splits prod.splits)

lemma n_amount_valid: "n_amount f v is = (a, is') \<Longrightarrow> is_finite a"
  by (auto simp: n_amount_def is_finite_def split: option.splits if_splits)

lemma n_amount_issues:
  "n_amount f v is = (a, is') \<Longrightarrow> is_issue (JStr f) \<Longrightarrow> issues_ok n is \<Longrightarrow> issues_ok (Suc n) is'"
  by (auto simp: n_amount_def issues_ok_step split: option.splits if_splits)

lemma n_currency_valid: "n_currency f v is = (s, is') \<Longrightarrow> length s = 3 \<and> all_in UPPER s"
  by (auto simp: n_currency_def Let_def all_in_def UPPER_def split: option.splits if_splits)

lemma n_currency_issues:
  "n_currency f v is = (s, is') \<Longrightarrow> is_issue (JStr f) \<Longrightarrow> issues_ok n is \<Longrightarrow> issues_ok (Suc n) is'"
  by (auto simp: n_currency_def Let_def issues_ok_step split: option.splits if_splits)

lemma n_code_valid:
  "n_code f v is = (s, is') \<Longrightarrow> 1 \<le> length s \<and> length s \<le> 40 \<and> all_in CODE_CHARS s"
  by (auto simp: n_code_def all_in_def CODE_CHARS_def ALPHA_def split: option.splits if_splits)

lemma n_code_issues:
  "n_code f v is = (s, is') \<Longrightarrow> is_issue (JStr f) \<Longrightarrow> issues_ok n is \<Longrightarrow> issues_ok (Suc n) is'"
  by (auto simp: n_code_def issues_ok_step split: option.splits if_splits)

lemma n_oneOf_valid: "n_oneOf f v allowed fb is = (s, is') \<Longrightarrow> fb \<in> set allowed \<Longrightarrow> s \<in> set allowed"
  by (auto simp: n_oneOf_def split: option.splits if_splits)

lemma n_oneOf_issues:
  "n_oneOf f v allowed fb is = (s, is') \<Longrightarrow> is_issue (JStr f) \<Longrightarrow> issues_ok n is \<Longrightarrow> issues_ok (Suc n) is'"
  by (auto simp: n_oneOf_def issues_ok_step split: option.splits if_splits)

lemma n_sha256_valid:
  "n_sha256 ext f v is = (s, is') \<Longrightarrow> externals_ok ext \<Longrightarrow> length s = 64 \<and> all_in HEX s"
  using externals_okD by (auto simp: n_sha256_def split: option.splits if_splits)

lemma n_sha256_issues:
  "n_sha256 ext f v is = (s, is') \<Longrightarrow> is_issue (JStr f) \<Longrightarrow> issues_ok n is \<Longrightarrow> issues_ok (Suc n) is'"
  by (auto simp: n_sha256_def issues_ok_step split: option.splits if_splits)

lemma n_date_valid:
  "n_date ext now f v is = (s, is') \<Longrightarrow> externals_ok ext \<Longrightarrow> four_digit_year (case v of Some t \<Rightarrow> t | None \<Rightarrow> now) \<Longrightarrow> zodDateTime ext s"
  using externals_okD by (auto simp: n_date_def split: option.splits if_splits)

lemma n_date_issues:
  "n_date ext now f v is = (s, is') \<Longrightarrow> is_issue (JStr f) \<Longrightarrow> issues_ok n is \<Longrightarrow> issues_ok (Suc n) is'"
  by (auto simp: n_date_def issues_ok_step split: option.splits if_splits)

lemma valid_id_is_id: "valid_id s \<Longrightarrow> is_id (JStr s)"
  by (cases s) (auto simp: valid_id_def)

lemma list_all2_map_of:
  assumes "list_all2 (\<lambda>(k, s) (k', v). k = k' \<and> Q s v) schema payload"
    and "distinct (map fst schema)" and "(k, s) \<in> set schema"
  shows "\<exists>v. map_of payload k = Some v \<and> Q s v"
  using assms
proof (induction rule: list_all2_induct)
  case (Cons x xs y ys)
  then show ?case by (cases x; cases y) (auto simp: rev_image_eqI)
qed simp

text \<open>A payload with valid fields and a well-formed issue list passes its strict schema.\<close>

lemma check_finish:
  assumes "list_all2 (\<lambda>(k, s) (k', v). k = k' \<and> check_field ext s v) schema payload"
    and "distinct (map fst schema)" and "''dataIssues'' \<notin> set (map fst schema)" and "issues_ok 20 issues"
  shows "check_object ext (schema @ [(''dataIssues'', SDataIssues)]) (n_finish payload issues)"
proof -
  have keys: "map fst payload = map fst schema"
    using assms(1) by (induction rule: list_all2_induct) auto
  note get = list_all2_map_of [OF assms(1,2)]
  have none: "map_of payload ''dataIssues'' = None"
    using assms(3) keys by (metis list.set_map map_of_eq_None_iff)
  have sub: "fst ` set payload \<subseteq> fst ` set schema" using keys by (metis list.set_map order_refl)
  define extra where "extra = (if issues = [] then [] else [(''dataIssues'', JArr (map JStr issues))])"
  have fin: "n_finish payload issues = JObj (payload @ extra)"
    by (simp add: n_finish_def extra_def)
  have fields: "\<exists>v. map_of (payload @ extra) k = Some v \<and> check_field ext s v" if "(k, s) \<in> set schema" for k s
    using get [OF that] by (auto simp: map_add_def)
  have last: "case map_of (payload @ extra) ''dataIssues'' of None \<Rightarrow> True
              | Some v \<Rightarrow> check_field ext SDataIssues v"
    using none assms(4)
    by (auto simp: extra_def map_add_def issues_ok_def list_all_iff Suc_le_eq split: option.splits)
  have all_keys: "fst ` set (payload @ extra) \<subseteq> set (map fst (schema @ [(''dataIssues'', SDataIssues)]))"
    using sub by (auto simp: extra_def)
  have "list_all (\<lambda>(k, s). case map_of (payload @ extra) k of None \<Rightarrow> s = SDataIssues
          | Some v \<Rightarrow> check_field ext s v) (schema @ [(''dataIssues'', SDataIssues)])"
    using last fields unfolding list_all_iff by (force split: option.splits)
  moreover have "list_all (\<lambda>(k, _). k \<in> set (map fst (schema @ [(''dataIssues'', SDataIssues)]))) (payload @ extra)"
    using all_keys unfolding list_all_iff by force
  ultimately show ?thesis by (simp only: fin check_object.simps)
qed

lemmas literal_chars = all_in_def ALPHA_def

lemma issues_ok_mono: "issues_ok m is \<Longrightarrow> m \<le> n \<Longrightarrow> issues_ok n is"
  by (auto simp: issues_ok_def)

lemma invoice_paid_payload_valid:
  assumes ext: "externals_ok ext" and src: "ip_source input \<in> {''manual'', ''stripe_checkout''}"
    and time: "four_digit_year (case ip_paidAt input of Some t \<Rightarrow> t | None \<Rightarrow> now)"
    and eq: "invoice_paid_payload ext now input = (iid, pid, payload)"
  shows "valid_id iid" and "valid_id pid"
    and "validateDomainEventPayload ext ''invoice.paid'' payload None = Inr payload"
proof -
  obtain i1 where e1: "n_id ext ''invoiceId'' (Some (ip_invoiceId input)) [] = (iid, i1)"
    using eq by (auto simp: invoice_paid_payload_def Let_def split: prod.splits)
  obtain i2 where e2: "n_id ext ''paymentId'' (Some (ip_paymentId input)) i1 = (pid, i2)"
    using eq e1 by (auto simp: invoice_paid_payload_def Let_def split: prod.splits)
  obtain cid i3 where e3: "n_id ext ''clientId'' (Some (ip_clientId input)) i2 = (cid, i3)" by fastforce
  obtain am i4 where e4: "n_amount ''amount'' (ip_amount input) i3 = (am, i4)" by fastforce
  obtain tt i5 where e5: "n_amount ''total'' (ip_total input) i4 = (tt, i5)" by fastforce
  obtain cu i6 where e6: "n_currency ''currency'' (ip_currency input) i5 = (cu, i6)" by fastforce
  obtain me i7 where e7: "n_code ''method'' (Some (ip_method input)) i6 = (me, i7)" by fastforce
  obtain da i8 where e8: "n_date ext now ''paidAt'' (ip_paidAt input) i7 = (da, i8)" by fastforce
  have payload: "payload = n_finish [(''invoiceId'', JStr iid), (''clientId'', JStr cid),
      (''paymentId'', JStr pid), (''amount'', JNum am), (''total'', JNum tt), (''currency'', JStr cu),
      (''method'', JStr me), (''source'', JStr (ip_source input)), (''paidAt'', JStr da)] i8"
    using eq by (simp add: invoice_paid_payload_def e1 e2 e3 e4 e5 e6 e7 e8)
  note es = e1 e2 e3 e4 e5 e6 e7 e8
  show ids: "valid_id iid" "valid_id pid" using n_id_valid [OF e1 ext] n_id_valid [OF e2 ext] .
  have "issues_ok (Suc (Suc (Suc (Suc (Suc (Suc (Suc (Suc 0)))))))) i8"
    by (intro n_date_issues [OF e8] n_code_issues [OF e7] n_currency_issues [OF e6] n_amount_issues [OF e5]
        n_amount_issues [OF e4] n_id_issues [OF e3] n_id_issues [OF e2] n_id_issues [OF e1] issues_ok_Nil)
      (simp_all add: literal_chars)
  then have iss: "issues_ok 20 i8" by (rule issues_ok_mono) simp
  have "check_object ext ([(''invoiceId'', SId), (''clientId'', SId), (''paymentId'', SNullableId),
      (''amount'', SAmount), (''total'', SAmount), (''currency'', SCurrency), (''method'', SCode),
      (''source'', SEnum [''manual'', ''stripe_checkout'']), (''paidAt'', SIsoDateTime)]
      @ [(''dataIssues'', SDataIssues)]) payload"
    unfolding payload
    by (rule check_finish [OF _ _ _ iss])
      (use ids n_id_valid [OF e3 ext] n_amount_valid [OF e4] n_amount_valid [OF e5] n_currency_valid [OF e6]
        n_code_valid [OF e7] n_date_valid [OF e8 ext time] src in \<open>simp_all add: valid_id_is_id del: is_id.simps\<close>)
  then show "validateDomainEventPayload ext ''invoice.paid'' payload None = Inr payload"
    by (simp add: validateDomainEventPayload_def getDomainEventSpec_def DOMAIN_EVENT_CATALOG_def
        invoice_paid_spec_def del: check_object.simps)
qed

lemma proposal_approved_payload_valid:
  assumes ext: "externals_ok ext" and src: "pa_via input \<in> {''portal_link'', ''public_link''}"
    and time: "four_digit_year (case pa_approvedAt input of Some t \<Rightarrow> t | None \<Rightarrow> now)"
    and eq: "proposal_approved_payload ext now input = (pid, payload)"
  shows "valid_id pid"
    and "validateDomainEventPayload ext ''proposal.approved'' payload None = Inr payload"
proof -
  obtain i1 where e1: "n_id ext ''proposalId'' (Some (pa_proposalId input)) [] = (pid, i1)"
    using eq by (auto simp: proposal_approved_payload_def Let_def split: prod.splits)
  obtain cid i2 where e2: "n_id ext ''clientId'' (Some (pa_clientId input)) i1 = (cid, i2)" by fastforce
  obtain pj i3 where e3: "n_nullableId ext ''projectId'' (pa_projectId input) i2 = (pj, i3)" by fastforce
  obtain tt i4 where e4: "n_amount ''total'' (pa_total input) i3 = (tt, i4)" by fastforce
  obtain da i5 where e5: "n_date ext now ''approvedAt'' (pa_approvedAt input) i4 = (da, i5)" by fastforce
  have payload: "payload = n_finish [(''proposalId'', JStr pid), (''clientId'', JStr cid), (''projectId'', pj),
      (''total'', JNum tt), (''via'', JStr (pa_via input)), (''approvedAt'', JStr da)] i5"
    using eq by (simp add: proposal_approved_payload_def e1 e2 e3 e4 e5)
  show ids: "valid_id pid" using n_id_valid [OF e1 ext] .
  have "issues_ok (Suc (Suc (Suc (Suc (Suc 0))))) i5"
    by (intro n_date_issues [OF e5] n_amount_issues [OF e4] n_nullableId_issues [OF e3]
        n_id_issues [OF e2] n_id_issues [OF e1] issues_ok_Nil) (simp_all add: literal_chars)
  then have iss: "issues_ok 20 i5" by (rule issues_ok_mono) simp
  have "check_object ext ([(''proposalId'', SId), (''clientId'', SId), (''projectId'', SNullableId),
         (''total'', SAmount), (''via'', SEnum [''portal_link'', ''public_link'']),
         (''approvedAt'', SIsoDateTime)] @ [(''dataIssues'', SDataIssues)]) payload"
    unfolding payload
    by (rule check_finish [OF _ _ _ iss])
      (use ids n_id_valid [OF e2 ext] n_nullableId_valid [OF e3 ext] n_amount_valid [OF e4]
        n_date_valid [OF e5 ext time] src in \<open>simp_all add: valid_id_is_id del: is_id.simps\<close>)
  then show "validateDomainEventPayload ext ''proposal.approved'' payload None = Inr payload"
    by (simp add: validateDomainEventPayload_def getDomainEventSpec_def DOMAIN_EVENT_CATALOG_def
        proposal_approved_spec_def del: check_object.simps)
qed

lemma contract_signed_payload_valid:
  assumes ext: "externals_ok ext" and src: "cs_via input \<in> {''portal_link'', ''public_link''}"
    and time: "four_digit_year (case cs_signedAt input of Some t \<Rightarrow> t | None \<Rightarrow> now)"
    and eq: "contract_signed_payload ext now input = (cid, payload)"
  shows "valid_id cid"
    and "validateDomainEventPayload ext ''contract.signed'' payload None = Inr payload"
proof -
  obtain i1 where e1: "n_id ext ''contractId'' (Some (cs_contractId input)) [] = (cid, i1)"
    using eq by (auto simp: contract_signed_payload_def Let_def split: prod.splits)
  obtain cl i2 where e2: "n_id ext ''clientId'' (Some (cs_clientId input)) i1 = (cl, i2)" by fastforce
  obtain pj i3 where e3: "n_nullableId ext ''proposalId'' (cs_proposalId input) i2 = (pj, i3)" by fastforce
  obtain sm i4 where e4: "n_oneOf ''signingMethod'' (cs_signingMethod input) [''type'', ''draw''] ''type'' i3 = (sm, i4)"
    by fastforce
  obtain dh i5 where e5: "n_sha256 ext ''documentHash'' (cs_documentHash input) i4 = (dh, i5)" by fastforce
  obtain da i6 where e6: "n_date ext now ''signedAt'' (cs_signedAt input) i5 = (da, i6)" by fastforce
  have payload: "payload = n_finish [(''contractId'', JStr cid), (''clientId'', JStr cl), (''proposalId'', pj),
      (''signingMethod'', JStr sm), (''documentHash'', JStr dh), (''via'', JStr (cs_via input)),
      (''signedAt'', JStr da)] i6"
    using eq by (simp add: contract_signed_payload_def e1 e2 e3 e4 e5 e6)
  show ids: "valid_id cid" using n_id_valid [OF e1 ext] .
  have "issues_ok (Suc (Suc (Suc (Suc (Suc (Suc 0)))))) i6"
    by (intro n_date_issues [OF e6] n_sha256_issues [OF e5] n_oneOf_issues [OF e4] n_nullableId_issues [OF e3]
        n_id_issues [OF e2] n_id_issues [OF e1] issues_ok_Nil) (simp_all add: literal_chars)
  then have iss: "issues_ok 20 i6" by (rule issues_ok_mono) simp
  have sm: "sm \<in> {''type'', ''draw''}" using n_oneOf_valid [OF e4] by simp
  have "check_object ext ([(''contractId'', SId), (''clientId'', SId), (''proposalId'', SNullableId),
         (''signingMethod'', SEnum [''type'', ''draw'']), (''documentHash'', SSha256),
         (''via'', SEnum [''portal_link'', ''public_link'']), (''signedAt'', SIsoDateTime)]
         @ [(''dataIssues'', SDataIssues)]) payload"
    unfolding payload
    by (rule check_finish [OF _ _ _ iss])
      (use ids n_id_valid [OF e2 ext] n_nullableId_valid [OF e3 ext] sm n_sha256_valid [OF e5 ext]
        n_date_valid [OF e6 ext time] src in \<open>simp_all add: valid_id_is_id del: is_id.simps\<close>)
  then show "validateDomainEventPayload ext ''contract.signed'' payload None = Inr payload"
    by (simp add: validateDomainEventPayload_def getDomainEventSpec_def DOMAIN_EVENT_CATALOG_def
        contract_signed_spec_def del: check_object.simps)
qed

subsection \<open>The recorder\<close>

lemma idempotencyKey_length:
  assumes "externals_ok ext" and "length type \<le> 100" and "type \<noteq> []"
  shows "idempotencyKeyFor ext type parts \<noteq> [] \<and> length (idempotencyKeyFor ext type parts) \<le> 255"
  using assms(2,3) externals_okD(1) [OF assms(1)] by (auto simp: idempotencyKeyFor_def Let_def)

text \<open>
  The invariant of the outbox table: idempotency keys are unique in an organization, and the
  events of an aggregate carry the sequence numbers 1, 2, 3, \<dots> in the order they were recorded.
\<close>

definition keys_unique :: "event list \<Rightarrow> bool" where
  "keys_unique rows \<longleftrightarrow> distinct (map (\<lambda>e. (ev_organizationId e, ev_idempotencyKey e)) rows)"

definition contiguous :: "event list \<Rightarrow> bool" where
  "contiguous rows \<longleftrightarrow>
     (\<forall>org ty i. map ev_sequence (filter (same_aggregate org ty i) rows) =
                 [1..<Suc (length (filter (same_aggregate org ty i) rows))])"

definition outbox_ok :: "event list \<Rightarrow> bool" where
  "outbox_ok rows \<longleftrightarrow> keys_unique rows \<and> contiguous rows"

lemma fold_max_upt: "fold max [1..<Suc n] 0 = (n::nat)"
  by (induction n) auto

lemma max_sequence_contiguous:
  assumes "contiguous rows"
  shows "max_sequence (filter (same_aggregate org ty i) rows) = length (filter (same_aggregate org ty i) rows)"
  using assms fold_max_upt unfolding max_sequence_def contiguous_def by metis

lemma contiguous_append:
  assumes "contiguous rows"
    and "ev_sequence e = length (filter (same_aggregate (ev_organizationId e) (ev_aggregateType e) (ev_aggregateId e)) rows) + 1"
  shows "contiguous (rows @ [e])"
  unfolding contiguous_def
proof (intro allI)
  fix org ty i
  show "map ev_sequence (filter (same_aggregate org ty i) (rows @ [e])) =
        [1..<Suc (length (filter (same_aggregate org ty i) (rows @ [e])))]"
  proof (cases "same_aggregate org ty i e")
    case True
    then have "ev_sequence e = Suc (length (filter (same_aggregate org ty i) rows))"
      using assms(2) by (simp add: same_aggregate_def)
    with True show ?thesis using assms(1) by (simp add: contiguous_def)
  next
    case False
    then show ?thesis using assms(1) by (simp add: contiguous_def)
  qed
qed

text \<open>A fresh key is always recorded, with the next sequence number of the aggregate.\<close>

lemma record_fresh:
  assumes "check_input ext ctx input = Inr (spec, payload, org, aggId, key)"
    and "\<forall>r \<in> set rows. \<not> (ev_organizationId r = org \<and> ev_idempotencyKey r = key)"
  shows "recordDomainEvent ext ctx input rows =
    (let e = new_event ctx input spec payload org aggId key
               (max_sequence (filter (same_aggregate org (spec_aggregateType spec) aggId) rows) + 1)
     in Inr (e, False, rows @ [e]))"
proof -
  have none: "find_row (\<lambda>e. ev_organizationId e = org \<and> ev_idempotencyKey e = key) rows = None"
    using assms(2) by (simp add: find_row_None_iff)
  have "create_event rows (new_event ctx input spec payload org aggId key n) =
      Inr (rows @ [new_event ctx input spec payload org aggId key n])" for n
    using assms(2) by (auto simp: create_event_def new_event_def list_ex_iff)
  then show ?thesis by (simp add: recordDomainEvent_def assms(1) none Let_def)
qed

text \<open>The two ways a recording succeeds.\<close>

lemma record_cases:
  assumes "recordDomainEvent ext ctx input rows = Inr (e, dup, rows')"
  obtains (fresh) spec payload org aggId key where
      "check_input ext ctx input = Inr (spec, payload, org, aggId, key)"
      "\<forall>r \<in> set rows. \<not> (ev_organizationId r = org \<and> ev_idempotencyKey r = key)"
      "e = new_event ctx input spec payload org aggId key
             (max_sequence (filter (same_aggregate org (spec_aggregateType spec) aggId) rows) + 1)"
      "dup = False" "rows' = rows @ [e]"
    | (duplicate) "e \<in> set rows" "dup = True" "rows' = rows"
proof (cases "check_input ext ctx input")
  case (Inl err)
  with assms show ?thesis by (simp add: recordDomainEvent_def)
next
  case (Inr r)
  obtain spec payload org aggId key where r: "r = (spec, payload, org, aggId, key)" by (cases r) auto
  note ok = Inr [unfolded r]
  show ?thesis
  proof (cases "find_row (\<lambda>e. ev_organizationId e = org \<and> ev_idempotencyKey e = key) rows")
    case None
    then have no: "\<forall>r \<in> set rows. \<not> (ev_organizationId r = org \<and> ev_idempotencyKey r = key)"
      by (simp add: find_row_None_iff)
    from record_fresh [OF ok no] show ?thesis
      using assms by (intro fresh [OF ok no]) (auto simp: Let_def)
  next
    case (Some x)
    then have "x \<in> set rows" using find_row_SomeD by fast
    with Some ok assms show ?thesis
      by (intro duplicate) (auto simp: recordDomainEvent_def split: if_splits)
  qed
qed

lemma new_event_sel [simp]:
  "ev_organizationId (new_event ctx input spec payload org aggId key n) = org"
  "ev_idempotencyKey (new_event ctx input spec payload org aggId key n) = key"
  "ev_aggregateType (new_event ctx input spec payload org aggId key n) = spec_aggregateType spec"
  "ev_aggregateId (new_event ctx input spec payload org aggId key n) = aggId"
  "ev_sequence (new_event ctx input spec payload org aggId key n) = n"
  "ev_type (new_event ctx input spec payload org aggId key n) = in_type input"
  "ev_schemaVersion (new_event ctx input spec payload org aggId key n) = spec_currentVersion spec"
  "ev_payload (new_event ctx input spec payload org aggId key n) = payload"
  "ev_status (new_event ctx input spec payload org aggId key n) = Pending"
  "ev_attempts (new_event ctx input spec payload org aggId key n) = 0"
  "ev_id (new_event ctx input spec payload org aggId key n) = ctx_newId ctx"
  by (simp_all add: new_event_def)

lemma check_input_ctx:
  assumes "ctx_organizationId ctx' = ctx_organizationId ctx"
  shows "check_input ext ctx' input = check_input ext ctx input"
  unfolding check_input_def assms ..

text \<open>The checks before the lock pass for a payload that validates and ids of the right length.\<close>

lemma check_input_ok:
  assumes "getDomainEventSpec (in_type input) = Inr spec"
    and "validateDomainEventPayload ext (in_type input) (in_payload input) None = Inr (in_payload input)"
    and "in_organizationId input = Some org" and "org \<noteq> []" and "length org \<le> 191"
    and "ctx_organizationId ctx \<in> {None, Some org}"
    and "valid_id (in_aggregateId input)"
    and "in_idempotencyKey input \<noteq> []" and "length (in_idempotencyKey input) \<le> 255"
  shows "check_input ext ctx input = Inr (spec, in_payload input, org, in_aggregateId input, in_idempotencyKey input)"
  using assms by (auto simp: check_input_def requiredId_def valid_id_def)

text \<open>A new paid-invoice fact is recorded whatever the shape of the stored fields.\<close>

lemma invoice_paid_recorded:
  assumes "externals_ok ext" and "ip_source input \<in> {''manual'', ''stripe_checkout''}"
    and "four_digit_year (case ip_paidAt input of Some t \<Rightarrow> t | None \<Rightarrow> ctx_now ctx)"
    and "owningOrganization ctx clients (ip_organizationId input) (ip_clientId input) = Inr org"
    and "org \<noteq> []" and "length org \<le> 191" and "ctx_organizationId ctx \<in> {None, Some org}"
    and "invoice_paid_payload ext (ctx_now ctx) input = (iid, pid, payload)"
    and "\<forall>r \<in> set rows. \<not> (ev_organizationId r = org \<and>
           ev_idempotencyKey r = idempotencyKeyFor ext ''invoice.paid'' [iid, pid])"
  shows "\<exists>e. recordInvoicePaid ext ctx clients input rows = Inr (e, False, rows @ [e]) \<and>
             ev_type e = ''invoice.paid'' \<and> ev_organizationId e = org \<and> ev_aggregateId e = iid \<and>
             ev_sequence e = max_sequence (filter (same_aggregate org ''invoice'' iid) rows) + 1"
proof -
  note valid = invoice_paid_payload_valid [OF assms(1,2,3,8)]
  let ?in = "\<lparr>in_type = ''invoice.paid'', in_aggregateId = iid, in_payload = payload,
      in_idempotencyKey = idempotencyKeyFor ext ''invoice.paid'' [iid, pid], in_organizationId = Some org,
      in_correlationId = ip_correlationId input, in_causationId = ip_causationId input, in_occurredAt = None\<rparr>"
  have spec: "getDomainEventSpec ''invoice.paid'' = Inr invoice_paid_spec"
    by (simp add: getDomainEventSpec_def DOMAIN_EVENT_CATALOG_def)
  have "check_input ext ctx ?in =
      Inr (invoice_paid_spec, payload, org, iid, idempotencyKeyFor ext ''invoice.paid'' [iid, pid])"
    using check_input_ok [of ?in invoice_paid_spec ext org ctx] spec valid assms(5-7)
      idempotencyKey_length [OF assms(1), of "''invoice.paid''" "[iid, pid]"] by simp
  from record_fresh [OF this assms(9)] show ?thesis
    by (simp add: recordInvoicePaid_def assms(4,8) Let_def invoice_paid_spec_def)
qed

subsection \<open>Properties\<close>

text \<open>C31: Recording an event keeps the outbox well-formed: idempotency keys stay unique within an
  organization and the events of every aggregate stay numbered 1, 2, 3, \<dots> without a gap.\<close>

theorem record_keeps_outbox:
  assumes "outbox_ok rows" and "recordDomainEvent ext ctx input rows = Inr (e, dup, rows')"
  shows "outbox_ok rows'"
  using assms(2)
proof (cases rule: record_cases)
  case (fresh spec payload org aggId key)
  have "keys_unique rows'"
    using assms(1) fresh(2,3,5) by (auto simp: outbox_ok_def keys_unique_def)
  moreover have "contiguous rows'"
    using assms(1) fresh(3,5)
    by (auto simp: outbox_ok_def max_sequence_contiguous intro!: contiguous_append)
  ultimately show ?thesis by (simp add: outbox_ok_def)
next
  case duplicate
  with assms(1) show ?thesis by simp
qed

definition sample_externals :: externals where
  "sample_externals = \<lparr>sha256 = (\<lambda>_. replicate 64 CHR ''0''), toISOString = (\<lambda>_. ''1970-01-01T00:00:00.000Z''),
     zodDateTime = (\<lambda>s. s = ''1970-01-01T00:00:00.000Z'')\<rparr>"

lemma sample_externals_ok: "externals_ok sample_externals"
  by (simp add: externals_ok_def sample_externals_def all_in_def HEX_def list_all_iff)

definition sample_ctx :: request_ctx where
  "sample_ctx = \<lparr>ctx_organizationId = Some ''org1'', ctx_requestId = Some ''req-1'', ctx_now = 1000,
     ctx_newId = ''ev1'', ctx_uuid = ''uuid-1''\<rparr>"

definition sample_input :: event_input where
  "sample_input = \<lparr>in_type = ''client_agent.run_requested'', in_aggregateId = ''run1'',
     in_payload = JObj [(''clientId'', JStr ''c1''), (''conversationId'', JStr ''v1''),
       (''runId'', JStr ''run1''), (''requestedById'', JStr ''u1'')],
     in_idempotencyKey = ''run:run1'', in_organizationId = None, in_correlationId = None,
     in_causationId = None, in_occurredAt = None\<rparr>"

lemma sample_check_input:
  "check_input sample_externals sample_ctx sample_input =
     Inr (run_requested_spec, in_payload sample_input, ''org1'', ''run1'', ''run:run1'')"
  by (simp add: check_input_def sample_input_def sample_ctx_def getDomainEventSpec_def DOMAIN_EVENT_CATALOG_def
      validateDomainEventPayload_def run_requested_spec_def requiredId_def all_in_def ID_CHARS_def ALPHA_def
      DIGITS_def)

definition sample_event :: event where
  "sample_event = new_event sample_ctx sample_input run_requested_spec (in_payload sample_input)
     ''org1'' ''run1'' ''run:run1'' 1"

lemma sample_record:
  "recordDomainEvent sample_externals sample_ctx sample_input [] = Inr (sample_event, False, [sample_event])"
  using record_fresh [OF sample_check_input, of "[]"]
  by (simp add: sample_event_def max_sequence_def Let_def sample_input_def run_requested_spec_def)

theorem record_keeps_outbox_witness: "outbox_ok [sample_event]"
proof -
  have "outbox_ok []" by (simp add: outbox_ok_def keys_unique_def contiguous_def)
  from record_keeps_outbox [OF this sample_record] show ?thesis .
qed

text \<open>Recording is idempotent: repeating the recording of a fact in the same tenant, in any later
  request, returns the event stored first and leaves the table unchanged.\<close>

theorem record_idempotent:
  assumes "recordDomainEvent ext ctx input rows = Inr (e, dup, rows')"
    and "ctx_organizationId ctx' = ctx_organizationId ctx"
  shows "recordDomainEvent ext ctx' input rows' = Inr (e, True, rows')"
  using assms(1)
proof (cases rule: record_cases)
  case (fresh spec payload org aggId key)
  have "find_row (\<lambda>e. ev_organizationId e = org \<and> ev_idempotencyKey e = key) rows' = Some e"
    using fresh(2,3,5) by (simp add: find_row_append find_row_None_iff [THEN iffD2] find_row_Cons)
  then show ?thesis
    using fresh(1,3) by (simp add: recordDomainEvent_def check_input_ctx [OF assms(2)])
next
  case duplicate
  with assms show ?thesis
    by (auto simp: recordDomainEvent_def check_input_ctx [OF assms(2)] Let_def create_event_def
        split: sum.splits option.splits if_splits prod.splits)
qed

theorem record_idempotent_witness:
  "recordDomainEvent sample_externals (sample_ctx\<lparr>ctx_now := 5000, ctx_newId := ''ev2''\<rparr>) sample_input [sample_event]
   = Inr (sample_event, True, [sample_event])"
  by (rule record_idempotent [OF sample_record]) simp

definition sample_payment :: invoice_paid_input where
  "sample_payment = \<lparr>ip_organizationId = None, ip_invoiceId = ''inv 1!'', ip_clientId = ''c1'',
     ip_total = Some NaN, ip_currency = Some ''dollars'', ip_paymentId = ''p1'', ip_amount = None,
     ip_method = ''by hand'', ip_source = ''manual'', ip_paidAt = None, ip_correlationId = None,
     ip_causationId = None\<rparr>"

text \<open>The outbox never stops a payment because stored data is out of shape: for any ids, amounts,
  currency, method and date (however malformed, in the years 0 to 9999), a payment whose organization resolves and whose
  fact is new is recorded as an \<open>invoice.paid\<close> event with the next number of its invoice.\<close>

theorem recordInvoicePaid_accepts:
  assumes "externals_ok ext" and "ip_source input \<in> {''manual'', ''stripe_checkout''}"
    and "four_digit_year (case ip_paidAt input of Some t \<Rightarrow> t | None \<Rightarrow> ctx_now ctx)"
    and "owningOrganization ctx clients (ip_organizationId input) (ip_clientId input) = Inr org"
    and "org \<noteq> []" and "length org \<le> 191" and "ctx_organizationId ctx \<in> {None, Some org}"
    and "invoice_paid_payload ext (ctx_now ctx) input = (iid, pid, payload)"
    and "\<forall>r \<in> set rows. \<not> (ev_organizationId r = org \<and>
           ev_idempotencyKey r = idempotencyKeyFor ext ''invoice.paid'' [iid, pid])"
  shows "\<exists>e. recordInvoicePaid ext ctx clients input rows = Inr (e, False, rows @ [e]) \<and>
             ev_type e = ''invoice.paid'' \<and> ev_organizationId e = org \<and> ev_aggregateId e = iid \<and>
             ev_sequence e = max_sequence (filter (same_aggregate org ''invoice'' iid) rows) + 1"
  using invoice_paid_recorded [OF assms] .

theorem recordInvoicePaid_accepts_witness:
  "\<exists>e. recordInvoicePaid sample_externals sample_ctx [] sample_payment [] = Inr (e, False, [e]) \<and>
       ev_type e = ''invoice.paid'' \<and> ev_sequence e = 1"
proof -
  obtain iid pid payload where p: "invoice_paid_payload sample_externals (ctx_now sample_ctx) sample_payment = (iid, pid, payload)"
    by (metis prod_cases3)
  have org: "owningOrganization sample_ctx [] (ip_organizationId sample_payment) (ip_clientId sample_payment) = Inr ''org1''"
    by (simp add: owningOrganization_def sample_ctx_def sample_payment_def)
  show ?thesis
    using recordInvoicePaid_accepts [OF sample_externals_ok _ _ org _ _ _ p, of "[]"]
    by (auto simp: sample_payment_def sample_ctx_def max_sequence_def four_digit_year_def)
qed

end
