(* ===== verification/Invoice_Settlement.thy ===== *)
theory Invoice_Settlement
  imports Money Domain_Events
begin

section \<open>Invoice payments: the locked settlement path\<close>

text \<open>
  Models \<^verbatim>\<open>src/services/invoice-settlement.js\<close> (claim and apply one payment),
  \<^verbatim>\<open>src/services/invoice-payment.service.js\<close> (manual payments), the Checkout settlement of
  \<^verbatim>\<open>src/services/stripe.service.js\<close> and the invoice reads of \<^verbatim>\<open>src/utils/invoice-balance.js\<close>.

  The state is the part of the database these functions touch: the invoices, their payment rows,
  the outbox and the owner of each client. Each function is one database transaction: it returns
  the new database, or an error, and then nothing is written. The claim's row lock is held until
  commit, so concurrent payments of an invoice are a sequence of such transactions.

  The database's \<open>SUM\<close> over the payment amounts is a parameter \<open>agg\<close>; the locale \<open>payment_sum\<close>
  states what the code relies on (the sum of whole-cent amounts is right to a twentieth of a
  cent), and is interpreted on the sum the code itself computes over loaded payments.
\<close>

record invoice =
  inv_id :: string
  inv_clientId :: string
  inv_invoiceNumber :: string
  inv_status :: string
  inv_currency :: "string option"
  inv_total :: jsnum
  inv_paymentMethod :: "string option"
  inv_paidAt :: "timestamp option"
  inv_updatedAt :: timestamp
  inv_stripePaymentLink :: "string option"
  inv_stripeCheckoutSessionId :: "string option"
  inv_stripeCheckoutAmountMinor :: "int option"
  inv_stripeCheckoutCurrency :: "string option"
  inv_stripeCheckoutExpiresAt :: "timestamp option"
  inv_stripeCheckoutAttempt :: nat
  inv_stripePaymentIntentId :: "string option"

record payment =
  pay_id :: string
  pay_invoiceId :: string
  pay_amount :: jsnum
  pay_method :: string
  pay_paidAt :: timestamp
  pay_transactionId :: "string option"
  pay_notes :: "string option"

record db =
  db_invoices :: "invoice list"
  db_payments :: "payment list"
  db_events :: "event list"
  db_clients :: "(string \<times> string) list"

datatype pay_error =
    InvoiceOverpaymentError jsnum
  | InvalidPaymentAmountError
  | UniqueViolation
  | RecordNotFound
  | EventError event_error
  | StripeCheckoutRejectedError string

type_synonym aggregate = "jsnum list \<Rightarrow> jsnum option"

subsection \<open>Reading balances\<close>

definition payments_of :: "db \<Rightarrow> string \<Rightarrow> payment list" where
  "payments_of db invoiceId = filter (\<lambda>p. pay_invoiceId p = invoiceId) (db_payments db)"

definition invoiceAmountPaid :: "aggregate \<Rightarrow> db \<Rightarrow> string \<Rightarrow> jsnum" where
  "invoiceAmountPaid agg db invoiceId = roundMoney (agg (map pay_amount (payments_of db invoiceId)))"

text \<open>The invoice with its balance, from its loaded payments when present.\<close>

definition withInvoiceBalance ::
  "aggregate \<Rightarrow> db \<Rightarrow> payment list option \<Rightarrow> invoice \<Rightarrow> invoice \<times> balance" where
  "withInvoiceBalance agg db loaded i =
     (let paid = (case loaded of
                    Some ps \<Rightarrow> sum_amounts (map (\<lambda>p. Some (pay_amount p)) ps)
                  | None \<Rightarrow> invoiceAmountPaid agg db (inv_id i))
      in (i, invoiceBalance (Some (inv_total i)) (Some paid)))"

subsection \<open>invoice-settlement.js\<close>

definition PAYABLE_INVOICE_STATUSES :: "string list" where
  "PAYABLE_INVOICE_STATUSES = UNPAID_INVOICE_STATUSES"

definition claimPayableInvoice :: "timestamp \<Rightarrow> string \<Rightarrow> db \<Rightarrow> invoice option \<times> db" where
  "claimPayableInvoice now invoiceId db =
     (let payable = (\<lambda>i. inv_id i = invoiceId \<and> inv_status i \<in> set PAYABLE_INVOICE_STATUSES);
          db' = db\<lparr>db_invoices := update_rows payable (\<lambda>i. i\<lparr>inv_updatedAt := now\<rparr>) (db_invoices db)\<rparr>
      in if count_rows payable (db_invoices db) \<noteq> 1 then (None, db')
         else (find_row (\<lambda>i. inv_id i = invoiceId) (db_invoices db'), db'))"

text \<open>
  \<open>invoiceFields\<close> and \<open>paymentFields\<close> are the extra columns a caller writes, as updates of the row.
\<close>

record apply_input =
  ai_invoice :: invoice
  ai_amount :: "jsnum option"
  ai_method :: string
  ai_paidAt :: timestamp
  ai_invoiceFields :: "invoice \<Rightarrow> invoice"
  ai_paymentFields :: "payment \<Rightarrow> payment"
  ai_source :: string
  ai_correlationId :: "string option"
  ai_causationId :: "string option"
  ai_newPaymentId :: string

record apply_result =
  ar_payment :: payment
  ar_amount :: jsnum
  ar_fullyPaid :: bool
  ar_invoice :: invoice
  ar_balance :: balance

text \<open>\<open>tx.invoicePayment.create\<close> with the partial unique index on Stripe transaction ids.\<close>

definition create_payment :: "payment \<Rightarrow> payment list \<Rightarrow> pay_error + payment list" where
  "create_payment p rows =
     (if pay_method p = ''STRIPE'' \<and> pay_transactionId p \<noteq> None \<and>
         list_ex (\<lambda>q. pay_method q = ''STRIPE'' \<and> pay_transactionId q = pay_transactionId p) rows
      then Inl UniqueViolation else Inr (rows @ [p]))"

text \<open>The amount checks: the amount to record, or the error that is thrown.\<close>

definition check_amount :: "jsnum \<Rightarrow> jsnum option \<Rightarrow> pay_error + jsnum" where
  "check_amount due requested =
     (let amount = roundMoney (Some (case requested of Some a \<Rightarrow> a | None \<Rightarrow> due));
          nothingOwed = js_le due CENT_TOLERANCE
      in if (if nothingOwed then \<not> js_eq amount (Fin 0) else \<not> js_less (Fin 0) amount)
         then (if js_less (Fin 0) amount then Inl (InvoiceOverpaymentError due)
               else Inl InvalidPaymentAmountError)
         else if js_less (js_add due CENT_TOLERANCE) amount then Inl (InvoiceOverpaymentError due)
         else Inr amount)"

definition settled_invoice :: "apply_input \<Rightarrow> bool \<Rightarrow> invoice \<Rightarrow> invoice" where
  "settled_invoice input fullyPaid i =
     (let i1 = ai_invoiceFields input (i\<lparr>inv_paymentMethod := Some (ai_method input)\<rparr>);
          i2 = i1\<lparr>inv_stripeCheckoutAttempt := inv_stripeCheckoutAttempt i + 1\<rparr>
      in if fullyPaid then i2\<lparr>inv_status := ''PAID'', inv_paidAt := Some (ai_paidAt input)\<rparr> else i2)"

definition paid_event_input :: "apply_input \<Rightarrow> payment \<Rightarrow> invoice_paid_input" where
  "paid_event_input input p =
     \<lparr>ip_organizationId = None, ip_invoiceId = inv_id (ai_invoice input),
      ip_clientId = inv_clientId (ai_invoice input), ip_total = Some (inv_total (ai_invoice input)),
      ip_currency = inv_currency (ai_invoice input), ip_paymentId = pay_id p,
      ip_amount = Some (pay_amount p), ip_method = ai_method input, ip_source = ai_source input,
      ip_paidAt = Some (ai_paidAt input), ip_correlationId = ai_correlationId input,
      ip_causationId = ai_causationId input\<rparr>"

definition applyInvoicePayment ::
  "externals \<Rightarrow> aggregate \<Rightarrow> request_ctx \<Rightarrow> apply_input \<Rightarrow> db \<Rightarrow> pay_error + (apply_result \<times> db)" where
  "applyInvoicePayment ext agg ctx input db =
     (let invc = ai_invoice input;
          paidBefore = invoiceAmountPaid agg db (inv_id invc);
          due = balanceDue (invoiceBalance (Some (inv_total invc)) (Some paidBefore))
      in case check_amount due (ai_amount input) of Inl e \<Rightarrow> Inl e
         | Inr amount \<Rightarrow>
        (let p = ai_paymentFields input
                   \<lparr>pay_id = ai_newPaymentId input, pay_invoiceId = inv_id invc, pay_amount = amount,
                    pay_method = ai_method input, pay_paidAt = ai_paidAt input,
                    pay_transactionId = None, pay_notes = None\<rparr>
         in case create_payment p (db_payments db) of Inl e \<Rightarrow> Inl e
            | Inr payments \<Rightarrow>
           (let fullyPaid = js_le (js_sub (roundMoney (Some (inv_total invc))) CENT_TOLERANCE)
                                  (js_add paidBefore amount);
                invoices = update_rows (\<lambda>i. inv_id i = inv_id invc) (settled_invoice input fullyPaid)
                             (db_invoices db);
                db' = db\<lparr>db_invoices := invoices, db_payments := payments\<rparr>
            in case find_row (\<lambda>i. inv_id i = inv_id invc) invoices of None \<Rightarrow> Inl RecordNotFound
               | Some updated \<Rightarrow>
              (let result = \<lparr>ar_payment = p, ar_amount = amount, ar_fullyPaid = fullyPaid,
                             ar_invoice = updated,
                             ar_balance = invoiceBalance (Some (inv_total updated))
                                            (Some (js_add paidBefore amount))\<rparr>
               in if fullyPaid then
                    (case recordInvoicePaid ext ctx (db_clients db) (paid_event_input input p) (db_events db) of
                       Inl e \<Rightarrow> Inl (EventError e)
                     | Inr (e, dup, events) \<Rightarrow> Inr (result, db'\<lparr>db_events := events\<rparr>))
                  else Inr (result, db')))))"

subsection \<open>invoice-payment.service.js\<close>

definition CLEARED_CHECKOUT_FIELDS :: "invoice \<Rightarrow> invoice" where
  "CLEARED_CHECKOUT_FIELDS i =
     i\<lparr>inv_stripePaymentLink := None, inv_stripeCheckoutSessionId := None,
       inv_stripeCheckoutAmountMinor := None, inv_stripeCheckoutCurrency := None,
       inv_stripeCheckoutExpiresAt := None\<rparr>"

record manual_input =
  mi_invoiceId :: string
  mi_method :: string
  mi_amount :: "jsnum option"
  mi_paidAt :: timestamp
  mi_invoiceFields :: "invoice \<Rightarrow> invoice"
  mi_paymentFields :: "payment \<Rightarrow> payment"
  mi_correlationId :: "string option"
  mi_newPaymentId :: string

definition manual_apply :: "manual_input \<Rightarrow> invoice \<Rightarrow> apply_input" where
  "manual_apply input current =
     \<lparr>ai_invoice = current, ai_amount = mi_amount input, ai_method = mi_method input,
      ai_paidAt = mi_paidAt input,
      ai_invoiceFields = (\<lambda>i. CLEARED_CHECKOUT_FIELDS (mi_invoiceFields input i)),
      ai_paymentFields = mi_paymentFields input, ai_source = ''manual'',
      ai_correlationId = mi_correlationId input, ai_causationId = None,
      ai_newPaymentId = mi_newPaymentId input\<rparr>"

text \<open>\<open>Inr (None, _)\<close>: the invoice was not payable.\<close>

definition recordManualPayment ::
  "externals \<Rightarrow> aggregate \<Rightarrow> request_ctx \<Rightarrow> manual_input \<Rightarrow> db
   \<Rightarrow> pay_error + ((apply_result \<times> string option) option \<times> db)" where
  "recordManualPayment ext agg ctx input db =
     (case claimPayableInvoice (ctx_now ctx) (mi_invoiceId input) db of
        (None, db1) \<Rightarrow> Inr (None, db1)
      | (Some current, db1) \<Rightarrow>
          (case applyInvoicePayment ext agg ctx (manual_apply input current) db1 of
             Inl e \<Rightarrow> Inl e
           | Inr (result, db2) \<Rightarrow>
               Inr (Some (result, inv_stripeCheckoutSessionId current), db2)))"

definition settleInvoiceManually ::
  "externals \<Rightarrow> aggregate \<Rightarrow> request_ctx \<Rightarrow> manual_input \<Rightarrow> db
   \<Rightarrow> pay_error + ((apply_result \<times> string option) option \<times> db)" where
  "settleInvoiceManually ext agg ctx input db = recordManualPayment ext agg ctx input db"

subsection \<open>stripe.service.js: a completed Checkout session\<close>

record checkout_event =
  ce_eventId :: string
  ce_created :: int
  ce_sessionId :: string
  ce_paymentIntent :: "string option"
  ce_invoiceId :: "string option"
  ce_invoiceNumber :: "string option"
  ce_paymentStatus :: string
  ce_currency :: "string option"
  ce_amountTotal :: "int option"

datatype checkout_outcome = Duplicate | Settled bool

definition stripe_payment :: "string \<Rightarrow> payment list \<Rightarrow> payment option" where
  "stripe_payment transactionId rows =
     find_row (\<lambda>p. pay_transactionId p = Some transactionId \<and> pay_method p = ''STRIPE'') rows"

definition transaction_id :: "checkout_event \<Rightarrow> string" where
  "transaction_id e =
     (case ce_paymentIntent e of Some s \<Rightarrow> if s = [] then ce_sessionId e else s | None \<Rightarrow> ce_sessionId e)"

definition is_duplicate :: "string \<Rightarrow> string \<Rightarrow> db \<Rightarrow> bool" where
  "is_duplicate transactionId invoiceId db =
     (case stripe_payment transactionId (db_payments db) of
        None \<Rightarrow> False | Some p \<Rightarrow> pay_invoiceId p = invoiceId)"

text \<open>The amount of a Stripe session is a positive whole number of cents, divided by 100.\<close>

definition checkout_apply ::
  "string option \<Rightarrow> string \<Rightarrow> checkout_event \<Rightarrow> int \<Rightarrow> invoice \<Rightarrow> apply_input" where
  "checkout_apply correlationId newPaymentId e minor current =
     \<lparr>ai_invoice = current, ai_amount = Some (js_div_by (Fin (of_int minor)) 100),
      ai_method = ''STRIPE'', ai_paidAt = ce_created e * 1000,
      ai_invoiceFields = (\<lambda>i. (CLEARED_CHECKOUT_FIELDS i)\<lparr>inv_stripePaymentIntentId := Some (transaction_id e)\<rparr>),
      ai_paymentFields = (\<lambda>p. p\<lparr>pay_transactionId := Some (transaction_id e),
          pay_notes := Some (''Paid via Stripe Checkout event '' @ ce_eventId e)\<rparr>),
      ai_source = ''stripe_checkout'', ai_correlationId = correlationId,
      ai_causationId = Some (''stripe:'' @ ce_eventId e), ai_newPaymentId = newPaymentId\<rparr>"

text \<open>A fully paid invoice keeps the id of the session that paid it.\<close>

definition keep_session :: "bool \<Rightarrow> checkout_event \<Rightarrow> string \<Rightarrow> db \<Rightarrow> db" where
  "keep_session fullyPaid e invoiceId db =
     (if fullyPaid then db\<lparr>db_invoices := update_rows (\<lambda>i. inv_id i = invoiceId)
        (\<lambda>i. i\<lparr>inv_stripeCheckoutSessionId := Some (ce_sessionId e)\<rparr>) (db_invoices db)\<rparr> else db)"

definition checkout_transaction ::
  "externals \<Rightarrow> aggregate \<Rightarrow> request_ctx \<Rightarrow> string option \<Rightarrow> string \<Rightarrow> checkout_event \<Rightarrow> string \<Rightarrow> db
   \<Rightarrow> pay_error + (checkout_outcome \<times> db)" where
  "checkout_transaction ext agg ctx correlationId newPaymentId e invoiceId db =
     (let transactionId = transaction_id e
      in case find_row (\<lambda>i. inv_id i = invoiceId) (db_invoices db) of
           None \<Rightarrow> Inl (StripeCheckoutRejectedError ''CHECKOUT_MISMATCH'')
         | Some found \<Rightarrow>
        (let cur = (case inv_currency found of None \<Rightarrow> ''CAD'' | Some c \<Rightarrow> if c = [] then ''CAD'' else c)
         in if ce_paymentStatus e \<noteq> ''paid'' then Inl (StripeCheckoutRejectedError ''CHECKOUT_MISMATCH'')
            else if is_duplicate transactionId invoiceId db then Inr (Duplicate, db)
            else if map_option js_lower (ce_currency e) \<noteq> Some (js_lower cur)
              then Inl (StripeCheckoutRejectedError ''CHECKOUT_MISMATCH'')
            else if ce_invoiceNumber e \<noteq> Some (inv_invoiceNumber found)
              then Inl (StripeCheckoutRejectedError ''CHECKOUT_MISMATCH'')
            else
           (case ce_amountTotal e of
              None \<Rightarrow> Inl (StripeCheckoutRejectedError ''CHECKOUT_MISMATCH'')
            | Some minor \<Rightarrow>
               if minor \<le> 0 then Inl (StripeCheckoutRejectedError ''CHECKOUT_MISMATCH'')
               else
              (case claimPayableInvoice (ctx_now ctx) invoiceId db of
                 (claimed, db1) \<Rightarrow>
                   if is_duplicate transactionId invoiceId db1 then Inr (Duplicate, db1)
                   else
                  (case claimed of
                     None \<Rightarrow>
                      (case map_option inv_status (find_row (\<lambda>i. inv_id i = invoiceId) (db_invoices db1)) of
                         Some st \<Rightarrow>
                           (if st = ''VOID'' then Inl (StripeCheckoutRejectedError ''INVOICE_VOID'')
                            else if st = ''PAID'' then Inl (StripeCheckoutRejectedError ''INVOICE_ALREADY_PAID'')
                            else Inl (StripeCheckoutRejectedError ''CHECKOUT_MISMATCH''))
                       | None \<Rightarrow> Inl (StripeCheckoutRejectedError ''CHECKOUT_MISMATCH''))
                   | Some current \<Rightarrow>
                      (case applyInvoicePayment ext agg ctx
                              (checkout_apply correlationId newPaymentId e minor current) db1 of
                         Inl (InvoiceOverpaymentError _) \<Rightarrow>
                           Inl (StripeCheckoutRejectedError ''CHECKOUT_BALANCE_CHANGED'')
                       | Inl err \<Rightarrow> Inl err
                       | Inr (result, db2) \<Rightarrow>
                           Inr (Settled (ar_fullyPaid result),
                                keep_session (ar_fullyPaid result) e invoiceId db2)))))))"

definition recordCompletedCheckout ::
  "externals \<Rightarrow> aggregate \<Rightarrow> request_ctx \<Rightarrow> string option \<Rightarrow> string \<Rightarrow> checkout_event \<Rightarrow> db
   \<Rightarrow> pay_error + (checkout_outcome \<times> db)" where
  "recordCompletedCheckout ext agg ctx correlationId newPaymentId e db =
     (case ce_invoiceId e of
        None \<Rightarrow> Inl (StripeCheckoutRejectedError ''CHECKOUT_MISMATCH'')
      | Some invoiceId \<Rightarrow>
         (if invoiceId = [] then Inl (StripeCheckoutRejectedError ''CHECKOUT_MISMATCH'')
          else case checkout_transaction ext agg ctx correlationId newPaymentId e invoiceId db of
                 Inl UniqueViolation \<Rightarrow>
                   (if is_duplicate (transaction_id e) invoiceId db then Inr (Duplicate, db)
                    else Inl UniqueViolation)
               | r \<Rightarrow> r))"

subsection \<open>The cent tolerance\<close>

lemma CENT_TOLERANCE_value:
  obtains x where "CENT_TOLERANCE = Fin x" and "\<bar>x - 1 / 200\<bar> \<le> 1 / 1000000"
proof
  show "CENT_TOLERANCE = Fin (round_binary64 (5 / 1000))"
    by (simp add: CENT_TOLERANCE_def js_of_rat_finite)
  show "\<bar>round_binary64 (5 / 1000) - 1 / 200\<bar> \<le> 1 / 1000000"
    using round_binary64_error [of "5 / 1000"] by simp
qed

lemma rat_bound: "\<bar>k\<bar> \<le> 2 ^ 36 \<Longrightarrow> \<bar>of_int k :: rat\<bar> \<le> 68719476736"
proof -
  assume "\<bar>k\<bar> \<le> 2 ^ 36"
  then have "(of_int \<bar>k\<bar> :: rat) \<le> of_int (2 ^ 36)" by (rule int_le_rat)
  then show ?thesis by simp
qed

lemma fine_small: "(1 / 2 ^ 22 :: rat) \<le> 1 / 1000000"
  by simp

lemma nothing_owed_iff:
  assumes "\<bar>k\<bar> \<le> 2 ^ 36"
  shows "js_le (cents k) CENT_TOLERANCE \<longleftrightarrow> k \<le> 0"
proof -
  obtain x where x: "cents k = Fin x" "\<bar>x - of_int k / 100\<bar> \<le> 1 / 2 ^ 22"
    by (rule cents_value_fine [OF assms])
  obtain y where y: "CENT_TOLERANCE = Fin y" "\<bar>y - 1 / 200\<bar> \<le> 1 / 1000000"
    by (rule CENT_TOLERANCE_value)
  have "x \<le> y \<longleftrightarrow> k \<le> 0"
  proof (cases "k \<le> 0")
    case True
    then have "(of_int k :: rat) \<le> 0" by simp
    then have "x \<le> y" using x(2) y(2) fine_small by linarith
    with True show ?thesis by simp
  next
    case False
    then have "1 \<le> (of_int k :: rat)" using int_less_rat [of 0 k] by simp
    then have "y < x" using x(2) y(2) fine_small by linarith
    with False show ?thesis by simp
  qed
  then show ?thesis by (simp add: x(1) y(1))
qed

lemma exceeds_balance_iff:
  assumes "\<bar>d\<bar> \<le> 2 ^ 36" and "\<bar>a\<bar> \<le> 2 ^ 36"
  shows "js_less (js_add (cents d) CENT_TOLERANCE) (cents a) \<longleftrightarrow> d < a"
proof -
  obtain x where x: "cents d = Fin x" "\<bar>x - of_int d / 100\<bar> \<le> 1 / 2 ^ 22"
    by (rule cents_value_fine [OF assms(1)])
  obtain w where w: "cents a = Fin w" "\<bar>w - of_int a / 100\<bar> \<le> 1 / 2 ^ 22"
    by (rule cents_value_fine [OF assms(2)])
  obtain y where y: "CENT_TOLERANCE = Fin y" "\<bar>y - 1 / 200\<bar> \<le> 1 / 1000000"
    by (rule CENT_TOLERANCE_value)
  have "\<bar>of_int d / 100 + 1 / 200 :: rat\<bar> \<le> 1500000000" using rat_bound [OF assms(1)] by linarith
  then obtain z where z: "js_add (Fin x) (Fin y) = Fin z"
      "\<bar>z - (of_int d / 100 + 1 / 200)\<bar> \<le> 1 / 2 ^ 22 + 1 / 1000000 + 1 / 2 ^ 22"
    by (rule js_add_near [OF x(2) y(2)]) auto
  have "z < w \<longleftrightarrow> d < a"
  proof (cases "d < a")
    case True
    then have "(of_int d :: rat) + 1 \<le> of_int a" by (rule int_less_rat)
    then have "z < w" using z(2) w(2) fine_small by linarith
    with True show ?thesis by simp
  next
    case False
    then have "(of_int a :: rat) \<le> of_int d" by simp
    then have "w \<le> z" using z(2) w(2) fine_small by linarith
    with False show ?thesis by simp
  qed
  then show ?thesis by (simp add: x(1) y(1) z(1) w(1) del: js_add.simps)
qed

lemma fully_paid_iff:
  assumes "\<bar>t\<bar> \<le> 2 ^ 36" and "\<bar>p\<bar> \<le> 2 ^ 36" and "\<bar>a\<bar> \<le> 2 ^ 36"
  shows "js_le (js_sub (cents t) CENT_TOLERANCE) (js_add (cents p) (cents a)) \<longleftrightarrow> t \<le> p + a"
proof -
  obtain x where x: "cents t = Fin x" "\<bar>x - of_int t / 100\<bar> \<le> 1 / 2 ^ 22"
    by (rule cents_value_fine [OF assms(1)])
  obtain v where v: "cents p = Fin v" "\<bar>v - of_int p / 100\<bar> \<le> 1 / 2 ^ 22"
    by (rule cents_value_fine [OF assms(2)])
  obtain w where w: "cents a = Fin w" "\<bar>w - of_int a / 100\<bar> \<le> 1 / 2 ^ 22"
    by (rule cents_value_fine [OF assms(3)])
  obtain y where y: "CENT_TOLERANCE = Fin y" "\<bar>y - 1 / 200\<bar> \<le> 1 / 1000000"
    by (rule CENT_TOLERANCE_value)
  have y': "\<bar>- y - - (1 / 200)\<bar> \<le> 1 / 1000000" using y(2) by linarith
  have "\<bar>of_int t / 100 + - (1 / 200) :: rat\<bar> \<le> 1500000000" using rat_bound [OF assms(1)] by linarith
  then obtain z where z: "js_add (Fin x) (Fin (- y)) = Fin z"
      "\<bar>z - (of_int t / 100 + - (1 / 200))\<bar> \<le> 1 / 2 ^ 22 + 1 / 1000000 + 1 / 2 ^ 22"
    by (rule js_add_near [OF x(2) y']) auto
  have "\<bar>of_int p / 100 + of_int a / 100 :: rat\<bar> \<le> 1500000000"
    using rat_bound [OF assms(2)] rat_bound [OF assms(3)] by linarith
  then obtain s where s: "js_add (Fin v) (Fin w) = Fin s"
      "\<bar>s - (of_int p / 100 + of_int a / 100)\<bar> \<le> 1 / 2 ^ 22 + 1 / 2 ^ 22 + 1 / 2 ^ 22"
    by (rule js_add_near [OF v(2) w(2)]) auto
  have "z \<le> s \<longleftrightarrow> t \<le> p + a"
  proof (cases "t \<le> p + a")
    case True
    then have "(of_int t :: rat) \<le> of_int (p + a)" by (rule int_le_rat)
    then have "(of_int t :: rat) \<le> of_int p + of_int a" by simp
    then have "z \<le> s" using z(2) s(2) fine_small by linarith
    with True show ?thesis by simp
  next
    case False
    then have "(of_int (p + a) :: rat) + 1 \<le> of_int t" by (intro int_less_rat) simp
    then have "(of_int p :: rat) + of_int a + 1 \<le> of_int t" by simp
    then have "s < z" using z(2) s(2) fine_small by linarith
    with False show ?thesis by simp
  qed
  then show ?thesis by (simp add: js_sub_def x(1) y(1) z(1) v(1) w(1) s(1) del: js_add.simps)
qed

subsection \<open>The whole-cent specification of a payment\<close>

text \<open>
  What the amount checks promise, in whole cents: with nothing owed only a zero record is accepted,
  otherwise the amount must be positive and at most the balance.
\<close>

definition pay_spec :: "int \<Rightarrow> int option \<Rightarrow> pay_error + int" where
  "pay_spec due requested =
     (let a = (case requested of Some a \<Rightarrow> a | None \<Rightarrow> due)
      in if due = 0 then (if a = 0 then Inr 0
                          else if 0 < a then Inl (InvoiceOverpaymentError (cents due))
                          else Inl InvalidPaymentAmountError)
         else if a \<le> 0 then Inl InvalidPaymentAmountError
         else if due < a then Inl (InvoiceOverpaymentError (cents due)) else Inr a)"

definition amount_cents :: "jsnum \<Rightarrow> int" where
  "amount_cents x = (case x of Fin q \<Rightarrow> to_cents q | _ \<Rightarrow> 0)"

text \<open>An amount a request may carry: a finite number of at most \<open>2 ^ 36\<close> cents once rounded.\<close>

definition amount_in_range :: "jsnum \<Rightarrow> bool" where
  "amount_in_range x = (case x of Fin q \<Rightarrow> \<bar>q\<bar> \<le> 2 ^ 60 \<and> \<bar>to_cents q\<bar> \<le> 2 ^ 36 | _ \<Rightarrow> False)"

lemma amount_cents_cents [simp]: "\<bar>k\<bar> \<le> 2 ^ 42 \<Longrightarrow> amount_cents (cents k) = k"
proof -
  assume k: "\<bar>k\<bar> \<le> 2 ^ 42"
  obtain x where x: "cents k = Fin x" "\<bar>x - of_int k / 100\<bar> \<le> 1 / 100000"
    by (rule cents_value [OF k])
  have "to_cents x = k" using x(2) k by (intro to_cents_near) auto
  with x(1) show ?thesis by (simp add: amount_cents_def)
qed

lemma roundMoney_in_range:
  "amount_in_range x \<Longrightarrow> roundMoney (Some x) = cents (amount_cents x) \<and> \<bar>amount_cents x\<bar> \<le> 2 ^ 36"
  by (cases x) (auto simp: amount_in_range_def amount_cents_def roundMoney_finite)

lemma check_amount_refines:
  assumes "0 \<le> d" and "d \<le> 2 ^ 36" and "\<forall>a. requested = Some a \<longrightarrow> amount_in_range a"
  shows "check_amount (cents d) requested =
         map_sum id cents (pay_spec d (map_option amount_cents requested))"
proof -
  have d: "\<bar>d\<bar> \<le> 2 ^ 36" "\<bar>d\<bar> \<le> 2 ^ 42" using assms(1,2) by auto
  define a where "a = (case requested of Some x \<Rightarrow> amount_cents x | None \<Rightarrow> d)"
  have a: "roundMoney (Some (case requested of Some x \<Rightarrow> x | None \<Rightarrow> cents d)) = cents a" "\<bar>a\<bar> \<le> 2 ^ 36"
    using roundMoney_in_range assms(3) roundMoney_cents [OF d(2)] d(1)
    by (auto simp: a_def split: option.splits)
  have a0: "js_eq (cents a) (Fin 0) \<longleftrightarrow> a = 0"
    using cents_inject [of a 0] a(2) by (simp add: js_eq_def cents_def)
  have ap: "js_less (Fin 0) (cents a) \<longleftrightarrow> 0 < a"
    using cents_less_iff [of 0 a] a(2) by simp
  have "pay_spec d (map_option amount_cents requested) =
      (if d = 0 then (if a = 0 then Inr 0
                          else if 0 < a then Inl (InvoiceOverpaymentError (cents d))
                          else Inl InvalidPaymentAmountError)
         else if a \<le> 0 then Inl InvalidPaymentAmountError
         else if d < a then Inl (InvoiceOverpaymentError (cents d)) else Inr a)"
    by (simp add: pay_spec_def a_def Let_def split: option.splits)
  then show ?thesis
    using assms(1) by (simp add: check_amount_def a(1) Let_def a0 ap nothing_owed_iff [OF d(1)]
        exceeds_balance_iff [OF d(1) a(2)])
qed

subsection \<open>The payment sum\<close>

text \<open>What the code relies on of the database's sum of payment amounts.\<close>

locale payment_sum =
  fixes agg :: aggregate
  assumes agg_Nil: "roundMoney (agg []) = Fin 0"
    and agg_near: "ks \<noteq> [] \<Longrightarrow> (\<Sum>k\<leftarrow>ks. \<bar>k\<bar>) \<le> 2 ^ 36 \<Longrightarrow> length ks \<le> 1000 \<Longrightarrow>
           \<exists>q. agg (map cents ks) = Some (Fin q) \<and> \<bar>q - of_int (sum_list ks) / 100\<bar> \<le> 1 / 2000"
begin

lemma amount_paid_cents:
  assumes "map pay_amount (payments_of db i) = map cents ks"
    and "(\<Sum>k\<leftarrow>ks. \<bar>k\<bar>) \<le> 2 ^ 36" and "length ks \<le> 1000"
  shows "invoiceAmountPaid agg db i = cents (sum_list ks)"
proof (cases "ks = []")
  case True
  then show ?thesis using assms(1) agg_Nil by (simp add: invoiceAmountPaid_def)
next
  case False
  then obtain q where q: "agg (map cents ks) = Some (Fin q)" "\<bar>q - of_int (sum_list ks) / 100\<bar> \<le> 1 / 2000"
    using agg_near assms(2,3) by blast
  have "\<bar>sum_list ks\<bar> \<le> 2 ^ 42" using sum_list_abs [of ks] assms(2) by simp
  then show ?thesis
    using roundMoney_near [of q "sum_list ks"] q assms(1) by (simp add: invoiceAmountPaid_def)
qed

end

text \<open>The sum the code computes over loaded payments satisfies it.\<close>

definition loaded_sum :: aggregate where
  "loaded_sum xs = Some (sum_amounts (map Some xs))"

interpretation loaded: payment_sum loaded_sum
proof
  show "roundMoney (loaded_sum []) = Fin 0"
    using roundMoney_cents [of 0] by (simp add: loaded_sum_def sum_amounts_def)
next
  fix ks :: "int list"
  assume "(\<Sum>k\<leftarrow>ks. \<bar>k\<bar>) \<le> 2 ^ 36" and "length ks \<le> 1000"
  then obtain z where "sum_amounts (map (\<lambda>k. Some (cents k)) ks) = Fin z"
      "\<bar>z - of_int (sum_list ks) / 100\<bar> \<le> 1 / 2000"
    by (rule sum_amounts_cents)
  then show "\<exists>q. loaded_sum (map cents ks) = Some (Fin q) \<and> \<bar>q - of_int (sum_list ks) / 100\<bar> \<le> 1 / 2000"
    by (simp add: loaded_sum_def comp_def)
qed

subsection \<open>The ledger\<close>

definition whole_cents :: "jsnum \<Rightarrow> bool" where
  "whole_cents x \<longleftrightarrow> x = cents (amount_cents x) \<and> 0 \<le> amount_cents x \<and> amount_cents x \<le> 2 ^ 36"

definition paid_cents :: "db \<Rightarrow> string \<Rightarrow> int" where
  "paid_cents db i = (\<Sum>p\<leftarrow>payments_of db i. amount_cents (pay_amount p))"

text \<open>
  Every invoice total and payment is a non-negative whole-cent amount, no invoice has received more
  than its total, and a PAID invoice has received exactly its total.
\<close>

definition invoice_ok :: "db \<Rightarrow> invoice \<Rightarrow> bool" where
  "invoice_ok db i \<longleftrightarrow>
     whole_cents (inv_total i) \<and> paid_cents db (inv_id i) \<le> amount_cents (inv_total i) \<and>
     (inv_status i = ''PAID'' \<longrightarrow> paid_cents db (inv_id i) = amount_cents (inv_total i))"

definition ledger_ok :: "db \<Rightarrow> bool" where
  "ledger_ok db \<longleftrightarrow>
     distinct (map inv_id (db_invoices db)) \<and>
     (\<forall>p \<in> set (db_payments db). whole_cents (pay_amount p)) \<and>
     (\<forall>i \<in> set (db_invoices db). invoice_ok db i)"

text \<open>Extra columns a caller writes may not touch what settlement relies on.\<close>

definition invoice_fields_ok :: "(invoice \<Rightarrow> invoice) \<Rightarrow> bool" where
  "invoice_fields_ok f \<longleftrightarrow>
     (\<forall>i. inv_id (f i) = inv_id i \<and> inv_total (f i) = inv_total i \<and> inv_status (f i) = inv_status i)"

definition payment_fields_ok :: "(payment \<Rightarrow> payment) \<Rightarrow> bool" where
  "payment_fields_ok f \<longleftrightarrow>
     (\<forall>p. pay_id (f p) = pay_id p \<and> pay_invoiceId (f p) = pay_invoiceId p \<and>
          pay_amount (f p) = pay_amount p \<and> pay_method (f p) = pay_method p)"

lemma paid_cents_nonneg: "\<forall>p \<in> set (db_payments db). whole_cents (pay_amount p) \<Longrightarrow> 0 \<le> paid_cents db i"
  unfolding paid_cents_def payments_of_def by (intro sum_list_nonneg) (auto simp: whole_cents_def)

lemma payments_as_cents:
  fixes db :: db and i :: string
  assumes "\<forall>p \<in> set (db_payments db). whole_cents (pay_amount p)"
  defines "ks \<equiv> map (\<lambda>p. amount_cents (pay_amount p)) (payments_of db i)"
  shows "map pay_amount (payments_of db i) = map cents ks" and "(\<Sum>k\<leftarrow>ks. \<bar>k\<bar>) = paid_cents db i"
    and "sum_list ks = paid_cents db i" and "length ks = length (payments_of db i)"
proof -
  have el: "\<forall>p \<in> set (payments_of db i). whole_cents (pay_amount p)"
    using assms(1) by (simp add: payments_of_def)
  then show "map pay_amount (payments_of db i) = map cents ks"
    by (auto simp: ks_def whole_cents_def)
  have abs_ks: "map abs ks = ks" using el by (auto simp: ks_def whole_cents_def intro!: map_idI)
  have s: "sum_list ks = paid_cents db i" by (simp add: ks_def paid_cents_def)
  show "(\<Sum>k\<leftarrow>ks. \<bar>k\<bar>) = paid_cents db i" by (simp only: abs_ks s)
qed (simp_all add: ks_def paid_cents_def)

lemma settled_invoice_sel:
  assumes "invoice_fields_ok (ai_invoiceFields input)"
  shows "inv_id (settled_invoice input b i) = inv_id i" and "inv_total (settled_invoice input b i) = inv_total i"
    and "inv_status (settled_invoice input b i) = (if b then ''PAID'' else inv_status i)"
  using assms by (auto simp: settled_invoice_def Let_def invoice_fields_ok_def)

text \<open>
  Applying a payment is what \<open>pay_spec\<close> promises: the same decision and amount, the payment row
  appended, the invoice settled exactly when the payments now cover the total.
\<close>

context payment_sum
begin

lemma apply_decision:
  assumes led: "ledger_ok db" and inv: "ai_invoice input \<in> set (db_invoices db)"
    and cnt: "length (payments_of db (inv_id (ai_invoice input))) \<le> 1000"
    and req: "\<forall>a. ai_amount input = Some a \<longrightarrow> amount_in_range a"
  defines "t \<equiv> amount_cents (inv_total (ai_invoice input))" and "p \<equiv> paid_cents db (inv_id (ai_invoice input))"
  shows "invoiceAmountPaid agg db (inv_id (ai_invoice input)) = cents p"
    and "inv_total (ai_invoice input) = cents t" and "0 \<le> p" and "p \<le> t" and "t \<le> 2 ^ 36"
    and "check_amount (balanceDue (invoiceBalance (Some (inv_total (ai_invoice input))) (Some (cents p)))) (ai_amount input)
         = map_sum id cents (pay_spec (t - p) (map_option amount_cents (ai_amount input)))"
proof -
  have pays: "\<forall>q \<in> set (db_payments db). whole_cents (pay_amount q)"
    using led by (simp add: ledger_ok_def)
  have iok: "invoice_ok db (ai_invoice input)" using led inv by (simp add: ledger_ok_def)
  show tot: "inv_total (ai_invoice input) = cents t" and t: "t \<le> 2 ^ 36" and pt: "p \<le> t"
    using iok by (auto simp: invoice_ok_def whole_cents_def t_def p_def)
  show p0: "0 \<le> p" unfolding p_def by (rule paid_cents_nonneg [OF pays])
  show "invoiceAmountPaid agg db (inv_id (ai_invoice input)) = cents p"
    using amount_paid_cents [OF payments_as_cents(1) [OF pays]] payments_as_cents(2-4) [OF pays] cnt pt t
    by (simp add: p_def)
  have "invoiceBalance (Some (cents t)) (Some (cents p)) =
      \<lparr>amountPaid = cents p, balanceDue = cents (max 0 (t - p))\<rparr>"
    using p0 pt t by (intro invoiceBalance_cents_exact) auto
  then have "balanceDue (invoiceBalance (Some (inv_total (ai_invoice input))) (Some (cents p))) = cents (t - p)"
    using pt tot by simp
  moreover have "0 \<le> t - p" "t - p \<le> 2 ^ 36" using p0 pt t by auto
  ultimately show "check_amount (balanceDue (invoiceBalance (Some (inv_total (ai_invoice input))) (Some (cents p)))) (ai_amount input)
         = map_sum id cents (pay_spec (t - p) (map_option amount_cents (ai_amount input)))"
    using check_amount_refines [OF _ _ req] by simp
qed

end

lemma pay_spec_Inr:
  "pay_spec d r = Inr a \<Longrightarrow> 0 \<le> d \<Longrightarrow> 0 \<le> a \<and> a \<le> d \<and> (a = 0 \<longleftrightarrow> d = 0)"
  by (auto simp: pay_spec_def Let_def split: if_splits option.splits)

subsection \<open>Applying a payment\<close>

definition payment_row :: "apply_input \<Rightarrow> jsnum \<Rightarrow> payment" where
  "payment_row input amount =
     ai_paymentFields input
       \<lparr>pay_id = ai_newPaymentId input, pay_invoiceId = inv_id (ai_invoice input), pay_amount = amount,
        pay_method = ai_method input, pay_paidAt = ai_paidAt input, pay_transactionId = None, pay_notes = None\<rparr>"

lemma payment_row_sel:
  assumes "payment_fields_ok (ai_paymentFields input)"
  shows "pay_amount (payment_row input a) = a"
    and "pay_invoiceId (payment_row input a) = inv_id (ai_invoice input)"
  using assms by (simp_all add: payment_row_def payment_fields_ok_def)

text \<open>How a payment that was accepted changed the database.\<close>

lemma apply_Inr:
  assumes "applyInvoicePayment ext agg ctx input db = Inr (r, db')"
  defines "i \<equiv> ai_invoice input"
  defines "paid \<equiv> invoiceAmountPaid agg db (inv_id i)"
  obtains amount fully where
    "check_amount (balanceDue (invoiceBalance (Some (inv_total i)) (Some paid))) (ai_amount input) = Inr amount"
    "fully = js_le (js_sub (roundMoney (Some (inv_total i))) CENT_TOLERANCE) (js_add paid amount)"
    "ar_amount r = amount" "ar_fullyPaid r = fully" "ar_payment r = payment_row input amount"
    "db_payments db' = db_payments db @ [payment_row input amount]"
    "db_invoices db' = update_rows (\<lambda>j. inv_id j = inv_id i) (settled_invoice input fully) (db_invoices db)"
    "db_clients db' = db_clients db"
    "if fully then \<exists>e dup. recordInvoicePaid ext ctx (db_clients db)
         (paid_event_input input (payment_row input amount)) (db_events db) = Inr (e, dup, db_events db')
     else db_events db' = db_events db"
proof -
  obtain amount where c: "check_amount (balanceDue (invoiceBalance (Some (inv_total i)) (Some paid))) (ai_amount input)
      = Inr amount"
    using assms by (auto simp: applyInvoicePayment_def Let_def split: sum.splits)
  show ?thesis
    using assms(1) c that [OF c refl]
    by (auto simp: applyInvoicePayment_def Let_def i_def [symmetric] paid_def [symmetric] payment_row_def
        create_payment_def split: sum.splits if_splits option.splits prod.splits)
qed

lemma apply_create:
  assumes "applyInvoicePayment ext agg ctx input db = Inr (r, db')"
  shows "\<exists>a. db_payments db' = db_payments db @ [payment_row input a] \<and>
             create_payment (payment_row input a) (db_payments db) = Inr (db_payments db')"
proof -
  obtain a where a: "check_amount (balanceDue (invoiceBalance (Some (inv_total (ai_invoice input)))
        (Some (invoiceAmountPaid agg db (inv_id (ai_invoice input)))))) (ai_amount input) = Inr a"
      and pay: "db_payments db' = db_payments db @ [payment_row input a]"
    using assms by (rule apply_Inr)
  obtain ps where "create_payment (payment_row input a) (db_payments db) = Inr ps"
    using assms a by (cases "create_payment (payment_row input a) (db_payments db)")
      (simp_all add: applyInvoicePayment_def Let_def payment_row_def)
  moreover from this have "ps = db_payments db @ [payment_row input a]"
    by (simp add: create_payment_def split: if_splits)
  ultimately show ?thesis using pay by auto
qed

lemma paid_cents_append:
  "db_payments db' = db_payments db @ [q] \<Longrightarrow>
   paid_cents db' j = paid_cents db j + (if pay_invoiceId q = j then amount_cents (pay_amount q) else 0)"
  by (simp add: paid_cents_def payments_of_def)

context payment_sum
begin

lemma apply_outcome:
  assumes led: "ledger_ok db" and inv: "ai_invoice input \<in> set (db_invoices db)"
    and cnt: "length (payments_of db (inv_id (ai_invoice input))) \<le> 1000"
    and req: "\<forall>a. ai_amount input = Some a \<longrightarrow> amount_in_range a"
    and fld: "invoice_fields_ok (ai_invoiceFields input)" "payment_fields_ok (ai_paymentFields input)"
    and ok: "applyInvoicePayment ext agg ctx input db = Inr (r, db')"
  defines "t \<equiv> amount_cents (inv_total (ai_invoice input))" and "p \<equiv> paid_cents db (inv_id (ai_invoice input))"
  obtains a where "pay_spec (t - p) (map_option amount_cents (ai_amount input)) = Inr a"
    "ar_amount r = cents a" "ar_fullyPaid r \<longleftrightarrow> p + a = t" "0 \<le> a" "a \<le> t - p" "t \<le> 2 ^ 36"
    "db_payments db' = db_payments db @ [payment_row input (cents a)]"
    "db_invoices db' = update_rows (\<lambda>j. inv_id j = inv_id (ai_invoice input))
       (settled_invoice input (p + a = t)) (db_invoices db)"
    "if p + a = t then \<exists>e dup. recordInvoicePaid ext ctx (db_clients db)
         (paid_event_input input (payment_row input (cents a))) (db_events db) = Inr (e, dup, db_events db')
     else db_events db' = db_events db"
proof -
  note dec = apply_decision [OF led inv cnt req, folded t_def p_def]
  obtain amount fully where step:
    "check_amount (balanceDue (invoiceBalance (Some (inv_total (ai_invoice input))) (Some (cents p)))) (ai_amount input)
       = Inr amount"
    "fully = js_le (js_sub (roundMoney (Some (inv_total (ai_invoice input)))) CENT_TOLERANCE) (js_add (cents p) amount)"
    "ar_amount r = amount" "ar_fullyPaid r = fully"
    "db_payments db' = db_payments db @ [payment_row input amount]"
    "db_invoices db' = update_rows (\<lambda>j. inv_id j = inv_id (ai_invoice input)) (settled_invoice input fully) (db_invoices db)"
    "if fully then \<exists>e dup. recordInvoicePaid ext ctx (db_clients db)
         (paid_event_input input (payment_row input amount)) (db_events db) = Inr (e, dup, db_events db')
     else db_events db' = db_events db"
    using ok by (rule apply_Inr) (use dec(1) in auto)
  obtain a where a: "pay_spec (t - p) (map_option amount_cents (ai_amount input)) = Inr a" "amount = cents a"
    using step(1) dec(6) by (cases "pay_spec (t - p) (map_option amount_cents (ai_amount input))") auto
  have bounds: "0 \<le> a" "a \<le> t - p" using pay_spec_Inr [OF a(1)] dec(4) by auto
  have "roundMoney (Some (cents t)) = cents t" using dec(3-5) by (intro roundMoney_cents) auto
  moreover have "js_le (js_sub (cents t) CENT_TOLERANCE) (js_add (cents p) (cents a)) \<longleftrightarrow> t \<le> p + a"
    using dec(3-5) bounds by (intro fully_paid_iff) auto
  ultimately have "fully \<longleftrightarrow> p + a = t"
    using step(2) dec(2) a(2) bounds by auto
  then show ?thesis using that [of a] a step bounds dec(5) by auto
qed

lemma apply_keeps_ledger:
  assumes led: "ledger_ok db" and inv: "ai_invoice input \<in> set (db_invoices db)"
    and cnt: "length (payments_of db (inv_id (ai_invoice input))) \<le> 1000"
    and req: "\<forall>a. ai_amount input = Some a \<longrightarrow> amount_in_range a"
    and fld: "invoice_fields_ok (ai_invoiceFields input)" "payment_fields_ok (ai_paymentFields input)"
    and ok: "applyInvoicePayment ext agg ctx input db = Inr (r, db')"
  shows "ledger_ok db'"
proof -
  let ?i = "ai_invoice input"
  define t where "t = amount_cents (inv_total ?i)"
  define p where "p = paid_cents db (inv_id ?i)"
  obtain a where a: "0 \<le> a" "a \<le> t - p" "t \<le> 2 ^ 36"
      "db_payments db' = db_payments db @ [payment_row input (cents a)]"
      "db_invoices db' = update_rows (\<lambda>j. inv_id j = inv_id ?i) (settled_invoice input (p + a = t)) (db_invoices db)"
    by (rule apply_outcome [OF led inv cnt req fld ok, folded t_def p_def])
  note sel = settled_invoice_sel [OF fld(1)] and row = payment_row_sel [OF fld(2)]
  have p0: "0 \<le> p" using led paid_cents_nonneg by (auto simp: p_def ledger_ok_def)
  have ca: "amount_cents (cents a) = a" using a(1-3) p0 by simp
  have paid: "paid_cents db' j = paid_cents db j + (if inv_id ?i = j then a else 0)" for j
    using paid_cents_append [OF a(4), of j] row ca by simp
  have wa: "whole_cents (cents a)" using a(1-3) p0 ca by (simp add: whole_cents_def)
  have keys: "map inv_id (db_invoices db') = map inv_id (db_invoices db)"
    unfolding a(5) by (simp add: update_rows_def sel(1))
  have same: "j = ?i" if "j \<in> set (db_invoices db)" "inv_id j = inv_id ?i" for j
    using led inv that unfolding ledger_ok_def by (metis distinct_map inj_onD)
  have "invoice_ok db' j" if "j \<in> set (db_invoices db')" for j
    using that unfolding a(5)
  proof (cases rule: in_update_rowsE)
    case (1 k)
    then have "k = ?i" using same by blast
    moreover have "invoice_ok db ?i" using led inv by (simp add: ledger_ok_def)
    ultimately show ?thesis
      using 1(3) a(1,2) paid [of "inv_id ?i"] by (auto simp: invoice_ok_def sel t_def p_def)
  next
    case 2
    then have "invoice_ok db j" using led by (simp add: ledger_ok_def)
    then show ?thesis using 2 paid [of "inv_id j"] by (auto simp: invoice_ok_def)
  qed
  then show ?thesis
    using led keys wa a(4) row(1) by (auto simp: ledger_ok_def)
qed

end

subsection \<open>Claiming\<close>

interpretation claim: keyed_update inv_id "\<lambda>i. i\<lparr>inv_updatedAt := now\<rparr>" for now
  by unfold_locales simp

lemma claim_db:
  assumes "claimPayableInvoice now iid db = (c, db1)"
  shows "db_payments db1 = db_payments db" and "db_events db1 = db_events db" and "db_clients db1 = db_clients db"
    and "db_invoices db1 = update_rows (\<lambda>i. inv_id i = iid \<and> inv_status i \<in> set PAYABLE_INVOICE_STATUSES)
           (\<lambda>i. i\<lparr>inv_updatedAt := now\<rparr>) (db_invoices db)"
  using assms by (auto simp: claimPayableInvoice_def Let_def split: if_splits)

lemma claim_keeps_ledger:
  assumes "ledger_ok db" and "claimPayableInvoice now iid db = (c, db1)"
  shows "ledger_ok db1"
proof -
  note db1 = claim_db [OF assms(2)]
  have paid: "paid_cents db1 j = paid_cents db j" for j
    by (simp add: paid_cents_def payments_of_def db1(1))
  have "invoice_ok db1 j" if "j \<in> set (db_invoices db1)" for j
    using that assms(1) unfolding db1(4)
    by (elim in_update_rowsE) (auto simp: ledger_ok_def invoice_ok_def paid)
  moreover have "distinct (map inv_id (db_invoices db1))"
    unfolding db1(4) using assms(1) by (intro claim.distinct_update) (simp add: ledger_ok_def)
  ultimately show ?thesis using assms(1) by (auto simp: ledger_ok_def db1(1))
qed

lemma claim_Some:
  assumes "claimPayableInvoice now iid db = (Some cur, db1)" and "distinct (map inv_id (db_invoices db))"
  shows "cur \<in> set (db_invoices db1)" and "inv_id cur = iid" and "inv_status cur \<in> set PAYABLE_INVOICE_STATUSES"
proof -
  let ?P = "\<lambda>i. inv_id i = iid \<and> inv_status i \<in> set PAYABLE_INVOICE_STATUSES"
  have fr: "find_row (\<lambda>i. inv_id i = iid) (db_invoices db1) = Some cur" and one: "count_rows ?P (db_invoices db) = 1"
    using assms(1) by (auto simp: claimPayableInvoice_def Let_def split: if_splits)
  from find_row_SomeD [OF fr] show "cur \<in> set (db_invoices db1)" and "inv_id cur = iid" by auto
  obtain x where x: "x \<in> set (db_invoices db)" "?P x"
    using one count_rows_0_iff [of ?P "db_invoices db"] by auto
  have "find_row (\<lambda>i. inv_id i = iid) (db_invoices db) = Some x"
    using find_row_distinct [OF assms(2) x(1)] x(2) by simp
  then have "cur = x\<lparr>inv_updatedAt := now\<rparr>"
    using fr claim.find_update [of iid ?P now "db_invoices db"] x(2) by (simp add: claim_db(4) [OF assms(1)])
  then show "inv_status cur \<in> set PAYABLE_INVOICE_STATUSES" using x(2) by simp
qed

lemma claim_payable:
  assumes "distinct (map inv_id (db_invoices db))" and "i \<in> set (db_invoices db)"
    and "inv_status i \<in> set PAYABLE_INVOICE_STATUSES"
  shows "\<exists>db1. claimPayableInvoice now (inv_id i) db = (Some (i\<lparr>inv_updatedAt := now\<rparr>), db1)"
proof -
  let ?P = "\<lambda>j. inv_id j = inv_id i \<and> inv_status j \<in> set PAYABLE_INVOICE_STATUSES"
  have "count_rows ?P (db_invoices db) \<le> 1" by (rule count_by_key [OF assms(1)]) simp
  moreover have "0 < count_rows ?P (db_invoices db)" using assms(2,3) by (intro count_rows_pos) auto
  ultimately have one: "count_rows ?P (db_invoices db) = 1" by simp
  show ?thesis
    using claim.find_update [of "inv_id i" ?P now "db_invoices db"] find_row_distinct [OF assms(1,2)] assms(3) one
    by (simp add: claimPayableInvoice_def Let_def)
qed

lemma claim_not_payable:
  assumes "\<forall>i \<in> set (db_invoices db). inv_id i = iid \<longrightarrow> inv_status i \<notin> set PAYABLE_INVOICE_STATUSES"
  shows "claimPayableInvoice now iid db = (None, db)"
proof -
  let ?P = "\<lambda>i. inv_id i = iid \<and> inv_status i \<in> set PAYABLE_INVOICE_STATUSES"
  have "count_rows ?P (db_invoices db) = 0" using assms by (auto simp: count_rows_0_iff)
  moreover have "update_rows ?P (\<lambda>i. i\<lparr>inv_updatedAt := now\<rparr>) (db_invoices db) = db_invoices db"
    using assms by (intro update_rows_none) auto
  ultimately show ?thesis by (simp add: claimPayableInvoice_def Let_def)
qed

subsection \<open>Manual payments\<close>

lemma manual_apply_sel [simp]:
  "ai_invoice (manual_apply input cur) = cur" "ai_amount (manual_apply input cur) = mi_amount input"
  "ai_paymentFields (manual_apply input cur) = mi_paymentFields input"
  "ai_source (manual_apply input cur) = ''manual''" "ai_method (manual_apply input cur) = mi_method input"
  by (simp_all add: manual_apply_def)

lemma cleared_fields_ok: "invoice_fields_ok f \<Longrightarrow> invoice_fields_ok (\<lambda>i. CLEARED_CHECKOUT_FIELDS (f i))"
  by (simp add: invoice_fields_ok_def CLEARED_CHECKOUT_FIELDS_def)

lemma manual_fields_ok:
  "invoice_fields_ok (mi_invoiceFields input) \<Longrightarrow> invoice_fields_ok (ai_invoiceFields (manual_apply input cur))"
  using cleared_fields_ok by (simp add: manual_apply_def)

lemma manual_keeps_ledger:
  assumes "payment_sum agg" and "ledger_ok db"
    and "length (payments_of db (mi_invoiceId input)) \<le> 1000"
    and "\<forall>a. mi_amount input = Some a \<longrightarrow> amount_in_range a"
    and "invoice_fields_ok (mi_invoiceFields input)" and "payment_fields_ok (mi_paymentFields input)"
    and "recordManualPayment ext agg ctx input db = Inr (r, db')"
  shows "ledger_ok db'"
proof (cases "claimPayableInvoice (ctx_now ctx) (mi_invoiceId input) db")
  case (Pair c db1)
  show ?thesis
  proof (cases c)
    case None
    with Pair assms(7) claim_keeps_ledger [OF assms(2) Pair] show ?thesis by (simp add: recordManualPayment_def)
  next
    case (Some cur)
    note claim = Pair [unfolded Some]
    have d: "distinct (map inv_id (db_invoices db))" using assms(2) by (simp add: ledger_ok_def)
    note cur = claim_Some [OF claim d]
    obtain res where ap: "applyInvoicePayment ext agg ctx (manual_apply input cur) db1 = Inr (res, db')"
      using assms(7) claim by (auto simp: recordManualPayment_def split: sum.splits)
    have cnt: "length (payments_of db1 (inv_id cur)) \<le> 1000"
      using assms(3) cur(2) claim_db(1) [OF claim] by (simp add: payments_of_def)
    show ?thesis
      by (rule payment_sum.apply_keeps_ledger [OF assms(1) claim_keeps_ledger [OF assms(2) claim] _ _ _ _ _ ap])
        (use cur cnt assms(4-6) manual_fields_ok in auto)
  qed
qed

subsection \<open>A payment that is within the balance is recorded\<close>

text \<open>The idempotency key of the event that settling an invoice writes.\<close>

definition paid_event_key :: "externals \<Rightarrow> string \<Rightarrow> string \<Rightarrow> string" where
  "paid_event_key ext invoiceId paymentId =
     idempotencyKeyFor ext ''invoice.paid''
       [fst (n_id ext ''invoiceId'' (Some invoiceId) []), fst (n_id ext ''paymentId'' (Some paymentId) [])]"

lemma n_id_fst: "fst (n_id ext f v is) = fst (n_id ext g v js)"
  by (simp add: n_id_def split: option.splits)

lemma payload_ids:
  assumes "invoice_paid_payload ext now input = (iid, pid, payload)"
  shows "idempotencyKeyFor ext ''invoice.paid'' [iid, pid] = paid_event_key ext (ip_invoiceId input) (ip_paymentId input)"
proof -
  have "iid = fst (n_id ext ''invoiceId'' (Some (ip_invoiceId input)) [])"
    using assms by (auto simp: invoice_paid_payload_def Let_def split: prod.splits)
  moreover have "pid = fst (n_id ext ''paymentId'' (Some (ip_paymentId input))
      (snd (n_id ext ''invoiceId'' (Some (ip_invoiceId input)) [])))"
    using assms by (auto simp: invoice_paid_payload_def Let_def split: prod.splits)
  ultimately show ?thesis unfolding paid_event_key_def using n_id_fst by metis
qed

text \<open>
  The outbox takes the event: the tenant resolves and agrees with the request, and the event of this
  payment is not recorded yet.
\<close>

definition outbox_ready :: "externals \<Rightarrow> request_ctx \<Rightarrow> db \<Rightarrow> string \<Rightarrow> string \<Rightarrow> string \<Rightarrow> bool" where
  "outbox_ready ext ctx db clientId invoiceId paymentId \<longleftrightarrow>
     (case owningOrganization ctx (db_clients db) None clientId of
        Inl _ \<Rightarrow> False
      | Inr org \<Rightarrow> org \<noteq> [] \<and> length org \<le> 191 \<and> ctx_organizationId ctx \<in> {None, Some org} \<and>
          (\<forall>r \<in> set (db_events db). \<not> (ev_organizationId r = org \<and>
             ev_idempotencyKey r = paid_event_key ext invoiceId paymentId)))"

lemma settlement_event:
  assumes "externals_ok ext" and "ai_source input \<in> {''manual'', ''stripe_checkout''}" and "four_digit_year (ai_paidAt input)"
    and "outbox_ready ext ctx db (inv_clientId (ai_invoice input)) (inv_id (ai_invoice input)) (pay_id p)"
  shows "\<exists>e. recordInvoicePaid ext ctx (db_clients db) (paid_event_input input p) (db_events db)
             = Inr (e, False, db_events db @ [e])"
proof -
  obtain org where org: "owningOrganization ctx (db_clients db) None (inv_clientId (ai_invoice input)) = Inr org"
      "org \<noteq> []" "length org \<le> 191" "ctx_organizationId ctx \<in> {None, Some org}"
      "\<forall>r \<in> set (db_events db). \<not> (ev_organizationId r = org \<and>
         ev_idempotencyKey r = paid_event_key ext (inv_id (ai_invoice input)) (pay_id p))"
    using assms(4) by (auto simp: outbox_ready_def split: sum.splits)
  obtain iid pid payload where pl: "invoice_paid_payload ext (ctx_now ctx) (paid_event_input input p) = (iid, pid, payload)"
    by (metis prod_cases3)
  show ?thesis
    using invoice_paid_recorded [OF assms(1) _ _ _ org(2-4) pl, of "db_clients db" "db_events db"] assms(2,3) org(1,5)
      payload_ids [OF pl] by (auto simp: paid_event_input_def)
qed

lemma create_payment_ok:
  "pay_method p \<noteq> ''STRIPE'' \<or> pay_transactionId p = None \<or>
     stripe_payment (the (pay_transactionId p)) rows = None \<Longrightarrow> create_payment p rows = Inr (rows @ [p])"
  by (auto simp: create_payment_def stripe_payment_def find_row_None_iff list_ex_iff)

context payment_sum
begin

lemma apply_total:
  assumes led: "ledger_ok db" and inv: "ai_invoice input \<in> set (db_invoices db)"
    and cnt: "length (payments_of db (inv_id (ai_invoice input))) \<le> 1000"
    and req: "\<forall>a. ai_amount input = Some a \<longrightarrow> amount_in_range a"
    and fld: "invoice_fields_ok (ai_invoiceFields input)"
    and spec: "pay_spec (amount_cents (inv_total (ai_invoice input)) - paid_cents db (inv_id (ai_invoice input)))
                 (map_option amount_cents (ai_amount input)) = Inr a"
    and cre: "create_payment (payment_row input (cents a)) (db_payments db) = Inr payments"
    and ev: "\<exists>e. recordInvoicePaid ext ctx (db_clients db) (paid_event_input input (payment_row input (cents a)))
               (db_events db) = Inr (e, False, db_events db @ [e])"
  shows "\<exists>r db'. applyInvoicePayment ext agg ctx input db = Inr (r, db') \<and>
           (\<exists>b. ar_invoice r = settled_invoice input b (ai_invoice input) \<and> ar_fullyPaid r = b \<and>
                length (db_events db') = length (db_events db) + (if b then 1 else 0))"
proof -
  note dec = apply_decision [OF led inv cnt req]
  have d: "distinct (map inv_id (db_invoices db))" using led by (simp add: ledger_ok_def)
  have chk: "check_amount (balanceDue (invoiceBalance (Some (inv_total (ai_invoice input)))
        (Some (cents (paid_cents db (inv_id (ai_invoice input))))))) (ai_amount input) = Inr (cents a)"
    using dec(6) spec by simp
  have fr: "find_row (\<lambda>i. inv_id i = inv_id (ai_invoice input))
        (update_rows (\<lambda>i. inv_id i = inv_id (ai_invoice input)) (settled_invoice input b) (db_invoices db))
      = Some (settled_invoice input b (ai_invoice input))" for b
  proof -
    have "keyed_update inv_id (settled_invoice input b)"
      using settled_invoice_sel(1) [OF fld] by unfold_locales
    from keyed_update.find_update [OF this] show ?thesis
      by (simp add: find_row_distinct [OF d inv])
  qed
  obtain e where e: "recordInvoicePaid ext ctx (db_clients db) (paid_event_input input (payment_row input (cents a)))
               (db_events db) = Inr (e, False, db_events db @ [e])" using ev by blast
  show ?thesis
    by (cases "js_le (js_sub (roundMoney (Some (inv_total (ai_invoice input)))) CENT_TOLERANCE)
          (js_add (cents (paid_cents db (inv_id (ai_invoice input)))) (cents a))")
      (simp_all add: applyInvoicePayment_def Let_def dec(1) chk payment_row_def [symmetric] fr cre e)
qed

lemma apply_refines:
  assumes led: "ledger_ok db" and inv: "ai_invoice input \<in> set (db_invoices db)"
    and cnt: "length (payments_of db (inv_id (ai_invoice input))) \<le> 1000"
    and req: "\<forall>a. ai_amount input = Some a \<longrightarrow> amount_in_range a"
    and fld: "invoice_fields_ok (ai_invoiceFields input)" "payment_fields_ok (ai_paymentFields input)"
    and cre: "\<And>a. create_payment (payment_row input a) (db_payments db) = Inr (db_payments db @ [payment_row input a])"
    and ext: "externals_ok ext" and src: "ai_source input \<in> {''manual'', ''stripe_checkout''}" "four_digit_year (ai_paidAt input)"
    and rdy: "outbox_ready ext ctx db (inv_clientId (ai_invoice input)) (inv_id (ai_invoice input)) (ai_newPaymentId input)"
  defines "t \<equiv> amount_cents (inv_total (ai_invoice input))" and "p \<equiv> paid_cents db (inv_id (ai_invoice input))"
  shows "case pay_spec (t - p) (map_option amount_cents (ai_amount input)) of
      Inl e \<Rightarrow> applyInvoicePayment ext agg ctx input db = Inl e
    | Inr a \<Rightarrow> \<exists>r db'. applyInvoicePayment ext agg ctx input db = Inr (r, db') \<and>
        ar_amount r = cents a \<and> paid_cents db' (inv_id (ai_invoice input)) = p + a \<and>
        (ar_fullyPaid r \<longleftrightarrow> p + a = t) \<and>
        inv_status (ar_invoice r) = (if ar_fullyPaid r then ''PAID'' else inv_status (ai_invoice input)) \<and>
        length (db_events db') = length (db_events db) + (if ar_fullyPaid r then 1 else 0)"
proof (cases "pay_spec (t - p) (map_option amount_cents (ai_amount input))")
  case (Inl e)
  then show ?thesis
    using apply_decision(1,6) [OF led inv cnt req]
    by (simp add: applyInvoicePayment_def Let_def t_def p_def)
next
  case (Inr a)
  have "pay_id (payment_row input (cents a)) = ai_newPaymentId input"
    using fld(2) by (simp add: payment_row_def payment_fields_ok_def)
  then have ev: "\<exists>e. recordInvoicePaid ext ctx (db_clients db) (paid_event_input input (payment_row input (cents a)))
      (db_events db) = Inr (e, False, db_events db @ [e])"
    using settlement_event [OF ext src] rdy by simp
  obtain r db' b where ap: "applyInvoicePayment ext agg ctx input db = Inr (r, db')"
      "ar_invoice r = settled_invoice input b (ai_invoice input)" "ar_fullyPaid r = b"
      "length (db_events db') = length (db_events db) + (if b then 1 else 0)"
    using apply_total [OF led inv cnt req fld(1) Inr [unfolded t_def p_def] cre ev] by blast
  obtain a' where a': "pay_spec (t - p) (map_option amount_cents (ai_amount input)) = Inr a'"
      "ar_amount r = cents a'" "ar_fullyPaid r \<longleftrightarrow> p + a' = t" "0 \<le> a'" "a' \<le> t - p" "t \<le> 2 ^ 36"
      "db_payments db' = db_payments db @ [payment_row input (cents a')]"
    by (rule apply_outcome [OF led inv cnt req fld ap(1), folded t_def p_def])
  have aa: "a' = a" using a'(1) Inr by simp
  have "0 \<le> p" using led paid_cents_nonneg by (auto simp: p_def ledger_ok_def)
  then have "amount_cents (cents a) = a" using a'(4-6) aa by (intro amount_cents_cents) simp
  then have "paid_cents db' (inv_id (ai_invoice input)) = p + a"
    using paid_cents_append [OF a'(7)] payment_row_sel [OF fld(2)] aa by (simp add: p_def)
  then show ?thesis
    using Inr ap a'(2,3) aa settled_invoice_sel(3) [OF fld(1)] by simp
qed

end

text \<open>C27: Manual payments refine whole-cent bookkeeping. On a payable invoice with \<open>t\<close> cents total and
  \<open>p\<close> cents paid, the payment is refused exactly with the error of \<open>pay_spec\<close>; otherwise it is
  recorded, the paid amount grows by exactly the accepted cents, the invoice becomes PAID exactly
  when the payments now equal the total, exactly then one \<open>invoice.paid\<close> event is written, and no
  invoice is ever overpaid. (The date of the payment is in the years 0 to 9999.)\<close>

theorem manual_payment_refines:
  assumes sum: "payment_sum agg" and led: "ledger_ok db" and i: "i \<in> set (db_invoices db)"
    and st: "inv_status i \<in> set PAYABLE_INVOICE_STATUSES" and mi: "mi_invoiceId input = inv_id i"
    and cnt: "length (payments_of db (inv_id i)) \<le> 1000"
    and req: "\<forall>a. mi_amount input = Some a \<longrightarrow> amount_in_range a"
    and fld: "invoice_fields_ok (mi_invoiceFields input)" "payment_fields_ok (mi_paymentFields input)"
    and met: "mi_method input \<noteq> ''STRIPE''" and ext: "externals_ok ext" and time: "four_digit_year (mi_paidAt input)"
    and rdy: "outbox_ready ext ctx db (inv_clientId i) (inv_id i) (mi_newPaymentId input)"
  shows "case pay_spec (amount_cents (inv_total i) - paid_cents db (inv_id i)) (map_option amount_cents (mi_amount input)) of
      Inl e \<Rightarrow> recordManualPayment ext agg ctx input db = Inl e
    | Inr a \<Rightarrow> \<exists>r db'. recordManualPayment ext agg ctx input db = Inr (Some (r, inv_stripeCheckoutSessionId i), db') \<and>
        ar_amount r = cents a \<and> paid_cents db' (inv_id i) = paid_cents db (inv_id i) + a \<and>
        (ar_fullyPaid r \<longleftrightarrow> paid_cents db' (inv_id i) = amount_cents (inv_total i)) \<and>
        inv_status (ar_invoice r) = (if ar_fullyPaid r then ''PAID'' else inv_status i) \<and>
        length (db_events db') = length (db_events db) + (if ar_fullyPaid r then 1 else 0) \<and> ledger_ok db'"
proof -
  have d: "distinct (map inv_id (db_invoices db))" using led by (simp add: ledger_ok_def)
  let ?cur = "i\<lparr>inv_updatedAt := ctx_now ctx\<rparr>" and ?s = "pay_spec (amount_cents (inv_total i) - paid_cents db (inv_id i))
      (map_option amount_cents (mi_amount input))"
  obtain db1 where cl: "claimPayableInvoice (ctx_now ctx) (inv_id i) db = (Some ?cur, db1)"
    using claim_payable [OF d i st] by blast
  note led1 = claim_keeps_ledger [OF led cl] and c1 = claim_Some(1) [OF cl d] and db1 = claim_db [OF cl]
  have paid1: "paid_cents db1 j = paid_cents db j" "payments_of db1 j = payments_of db j" for j
    by (simp_all add: paid_cents_def payments_of_def db1(1))
  let ?ai = "manual_apply input ?cur"
  have pre: "ai_invoice ?ai \<in> set (db_invoices db1)" "length (payments_of db1 (inv_id (ai_invoice ?ai))) \<le> 1000"
      "\<forall>a. ai_amount ?ai = Some a \<longrightarrow> amount_in_range a"
    using c1 cnt req paid1(2) by auto
  note fo = manual_fields_ok [OF fld(1), of ?cur]
  have fo2: "payment_fields_ok (ai_paymentFields ?ai)" using fld(2) by simp
  have "pay_method (payment_row ?ai a) = mi_method input" for a
    using fld(2) by (simp add: payment_row_def payment_fields_ok_def manual_apply_def)
  then have cr: "create_payment (payment_row ?ai a) (db_payments db1) = Inr (db_payments db1 @ [payment_row ?ai a])" for a
    using met by (intro create_payment_ok) simp
  have rd: "outbox_ready ext ctx db1 (inv_clientId (ai_invoice ?ai)) (inv_id (ai_invoice ?ai)) (ai_newPaymentId ?ai)"
    using rdy by (simp add: outbox_ready_def db1 manual_apply_def split: sum.splits)
  have src: "ai_source ?ai \<in> {''manual'', ''stripe_checkout''}" "four_digit_year (ai_paidAt ?ai)" using time by (simp_all add: manual_apply_def)
  have rec: "recordManualPayment ext agg ctx input db =
      (case applyInvoicePayment ext agg ctx ?ai db1 of Inl e \<Rightarrow> Inl e
       | Inr (result, db2) \<Rightarrow> Inr (Some (result, inv_stripeCheckoutSessionId i), db2))"
    by (simp add: recordManualPayment_def mi cl split: sum.splits)
  show ?thesis
    using payment_sum.apply_refines [OF sum led1 pre fo fo2 cr ext src rd] db1(2) paid1(1)
      manual_keeps_ledger [OF sum led _ req fld, of ext ctx] cnt mi
    by (cases ?s) (auto simp: rec)
qed

subsection \<open>Completed Checkout sessions\<close>

lemma checkout_apply_sel [simp]:
  "ai_invoice (checkout_apply c n e m cur) = cur"
  "ai_amount (checkout_apply c n e m cur) = Some (js_div_by (Fin (of_int m)) 100)"
  "ai_source (checkout_apply c n e m cur) = ''stripe_checkout''" "ai_method (checkout_apply c n e m cur) = ''STRIPE''"
  by (simp_all add: checkout_apply_def)

lemma checkout_fields_ok:
  "invoice_fields_ok (ai_invoiceFields (checkout_apply c n e m cur))"
  "payment_fields_ok (ai_paymentFields (checkout_apply c n e m cur))"
  by (simp_all add: checkout_apply_def invoice_fields_ok_def payment_fields_ok_def CLEARED_CHECKOUT_FIELDS_def)

lemma checkout_row:
  "pay_transactionId (payment_row (checkout_apply c n e m cur) a) = Some (transaction_id e)"
  "pay_method (payment_row (checkout_apply c n e m cur) a) = ''STRIPE''"
  "pay_invoiceId (payment_row (checkout_apply c n e m cur) a) = inv_id cur"
  by (simp_all add: payment_row_def checkout_apply_def)

lemma checkout_Settled:
  assumes "checkout_transaction ext agg ctx c n e invoiceId db = Inr (Settled b, db')"
  obtains found m cur db1 r db2 where
    "find_row (\<lambda>i. inv_id i = invoiceId) (db_invoices db) = Some found" "ce_paymentStatus e = ''paid''"
    "\<not> is_duplicate (transaction_id e) invoiceId db" "ce_amountTotal e = Some m" "0 < m"
    "claimPayableInvoice (ctx_now ctx) invoiceId db = (Some cur, db1)"
    "applyInvoicePayment ext agg ctx (checkout_apply c n e m cur) db1 = Inr (r, db2)"
    "b = ar_fullyPaid r" "db' = keep_session b e invoiceId db2"
proof -
  obtain found where f: "find_row (\<lambda>i. inv_id i = invoiceId) (db_invoices db) = Some found" "ce_paymentStatus e = ''paid''"
      "\<not> is_duplicate (transaction_id e) invoiceId db"
    using assms by (auto simp: checkout_transaction_def Let_def split: option.splits if_splits)
  obtain m where m: "ce_amountTotal e = Some m" "0 < m"
    using assms f by (auto simp: checkout_transaction_def Let_def split: option.splits if_splits)
  obtain cl db1 where cl: "claimPayableInvoice (ctx_now ctx) invoiceId db = (cl, db1)" by fastforce
  obtain cur where cur: "cl = Some cur"
    using assms f m cl
    by (cases cl) (auto simp: checkout_transaction_def Let_def split: option.splits if_splits)
  have "\<exists>r db2. applyInvoicePayment ext agg ctx (checkout_apply c n e m cur) db1 = Inr (r, db2) \<and>
      b = ar_fullyPaid r \<and> db' = keep_session b e invoiceId db2"
    using assms f m cl cur
    by (auto simp: checkout_transaction_def Let_def
        split: if_splits sum.splits pay_error.splits)
  then show ?thesis using that f m cl cur by blast
qed

lemma checkout_result:
  "recordCompletedCheckout ext agg ctx c n e db = Inr (Settled b, db') \<Longrightarrow>
   \<exists>iid. ce_invoiceId e = Some iid \<and> iid \<noteq> [] \<and> checkout_transaction ext agg ctx c n e iid db = Inr (Settled b, db')"
  by (auto simp: recordCompletedCheckout_def split: option.splits if_splits sum.splits pay_error.splits)

interpretation session: keyed_update inv_id "\<lambda>i. i\<lparr>inv_stripeCheckoutSessionId := s\<rparr>" for s
  by unfold_locales simp

lemma keep_session_db [simp]:
  "db_payments (keep_session b e i db) = db_payments db" "db_events (keep_session b e i db) = db_events db"
  "db_clients (keep_session b e i db) = db_clients db"
  "map inv_id (db_invoices (keep_session b e i db)) = map inv_id (db_invoices db)"
  by (simp_all add: keep_session_def session.keys_update)

lemma paid_keep_session [simp]:
  "paid_cents (keep_session b e i db) j = paid_cents db j"
  by (simp add: paid_cents_def payments_of_def)

lemma keep_session_ledger: "ledger_ok db \<Longrightarrow> ledger_ok (keep_session b e i db)"
proof -
  assume led: "ledger_ok db"
  have "invoice_ok (keep_session b e i db) j" if "j \<in> set (db_invoices (keep_session b e i db))" for j
    using that led unfolding keep_session_def
    by (auto simp: ledger_ok_def invoice_ok_def paid_cents_def payments_of_def elim!: in_update_rowsE split: if_splits)
  then show ?thesis using led by (auto simp: ledger_ok_def)
qed

lemma minor_units: "\<bar>m\<bar> \<le> 2 ^ 36 \<Longrightarrow> js_div_by (Fin (of_int m)) 100 = cents m"
proof -
  assume "\<bar>m\<bar> \<le> 2 ^ 36"
  then have "\<bar>of_int m / 100 :: rat\<bar> \<le> 2 ^ 100" using rat_bound by fastforce
  then show ?thesis by (simp add: cents_def js_of_rat_finite)
qed

lemma cents_in_range: "\<bar>m\<bar> \<le> 2 ^ 36 \<Longrightarrow> amount_in_range (cents m)"
proof -
  assume m: "\<bar>m\<bar> \<le> 2 ^ 36"
  then have "\<bar>m\<bar> \<le> 2 ^ 42" by simp
  then obtain x where x: "cents m = Fin x" "\<bar>x - of_int m / 100\<bar> \<le> 1 / 100000"
    by (rule cents_value)
  moreover have "(2 :: rat) ^ 60 = 1152921504606846976" by simp
  then have "\<bar>x\<bar> \<le> 2 ^ 60" using x(2) rat_bound [OF m] by linarith
  moreover have "to_cents x = m" using x(2) m by (intro to_cents_near) auto
  ultimately show ?thesis using m by (simp add: amount_in_range_def)
qed

lemma keys_apply:
  assumes "applyInvoicePayment ext agg ctx input db = Inr (r, db')" and "invoice_fields_ok (ai_invoiceFields input)"
  shows "map inv_id (db_invoices db') = map inv_id (db_invoices db)"
  using assms(1)
  by (rule apply_Inr) (simp add: update_rows_def settled_invoice_sel(1) [OF assms(2)])

lemma found_by_key:
  "map inv_id (db_invoices db') = map inv_id (db_invoices db) \<Longrightarrow>
   find_row (\<lambda>i. inv_id i = k) (db_invoices db) \<noteq> None \<Longrightarrow> find_row (\<lambda>i. inv_id i = k) (db_invoices db') \<noteq> None"
  unfolding find_row_None_iff by (metis (mono_tags, lifting) in_set_conv_nth length_map nth_map)

text \<open>C12: A Stripe session settles an invoice once. After a completed session was recorded, every later
  delivery for the same transaction and invoice reports a duplicate and changes nothing.\<close>

theorem checkout_settles_once:
  assumes "recordCompletedCheckout ext agg ctx c n e db = Inr (Settled b, db')"
    and "transaction_id e' = transaction_id e" and "ce_invoiceId e' = ce_invoiceId e"
    and "ce_paymentStatus e' = ''paid''"
  shows "recordCompletedCheckout ext agg ctx' c' n' e' db' = Inr (Duplicate, db')"
proof -
  obtain iid where iid: "ce_invoiceId e = Some iid" "iid \<noteq> []"
      "checkout_transaction ext agg ctx c n e iid db = Inr (Settled b, db')"
    using checkout_result [OF assms(1)] by blast
  obtain found m cur db1 r db2 where st:
      "find_row (\<lambda>i. inv_id i = iid) (db_invoices db) = Some found" "\<not> is_duplicate (transaction_id e) iid db"
      "claimPayableInvoice (ctx_now ctx) iid db = (Some cur, db1)"
      "applyInvoicePayment ext agg ctx (checkout_apply c n e m cur) db1 = Inr (r, db2)" "db' = keep_session b e iid db2"
    using iid(3) by (rule checkout_Settled)
  note db1 = claim_db [OF st(3)]
  have cur: "inv_id cur = iid"
    using st(3) find_row_SomeD by (fastforce simp: claimPayableInvoice_def Let_def split: if_splits)
  obtain a where pay: "db_payments db2 = db_payments db1 @ [payment_row (checkout_apply c n e m cur) a]"
      "create_payment (payment_row (checkout_apply c n e m cur) a) (db_payments db1) = Inr (db_payments db2)"
    using apply_create [OF st(4)] by blast
  have "stripe_payment (transaction_id e) (db_payments db1) = None"
    using pay by (auto simp: create_payment_def checkout_row stripe_payment_def find_row_None_iff list_ex_iff split: if_splits)
  then have "is_duplicate (transaction_id e) iid db'"
    using st(5) pay(1) cur by (simp add: is_duplicate_def stripe_payment_def find_row_append find_row_Cons checkout_row)
  moreover have "find_row (\<lambda>i. inv_id i = iid) (db_invoices db') \<noteq> None"
    using st(1,5) keys_apply [OF st(4) checkout_fields_ok(1)] claim.keys_update db1(4)
    by (intro found_by_key [of db' db]) simp_all
  ultimately show ?thesis
    using assms(2-4) iid(1,2) by (auto simp: recordCompletedCheckout_def checkout_transaction_def Let_def)
qed

lemma checkout_keeps_ledger:
  assumes sum: "payment_sum agg" and led: "ledger_ok db"
    and cnt: "length (payments_of db iid) \<le> 1000" and m: "\<forall>m. ce_amountTotal e = Some m \<longrightarrow> m \<le> 2 ^ 36"
    and ok: "checkout_transaction ext agg ctx c n e iid db = Inr (Settled b, db')"
  shows "ledger_ok db'"
proof -
  have d: "distinct (map inv_id (db_invoices db))" using led by (simp add: ledger_ok_def)
  obtain k cur db1 r db2 where st: "ce_amountTotal e = Some k" "0 < k"
      "claimPayableInvoice (ctx_now ctx) iid db = (Some cur, db1)"
      "applyInvoicePayment ext agg ctx (checkout_apply c n e k cur) db1 = Inr (r, db2)" "db' = keep_session b e iid db2"
    using ok by (rule checkout_Settled)
  note cur = claim_Some [OF st(3) d]
  have k: "\<bar>k\<bar> \<le> 2 ^ 36" using m st(1,2) by simp
  have "ledger_ok db2"
    by (rule payment_sum.apply_keeps_ledger [OF sum claim_keeps_ledger [OF led st(3)] _ _ _ checkout_fields_ok st(4)])
      (use cur cnt claim_db(1) [OF st(3)] cents_in_range [OF k] minor_units [OF k] in \<open>auto simp: payments_of_def\<close>)
  then show ?thesis using keep_session_ledger st(5) by simp
qed

text \<open>The session was paid and names this invoice, its currency and a positive whole amount.\<close>

definition session_matches :: "checkout_event \<Rightarrow> invoice \<Rightarrow> int \<Rightarrow> bool" where
  "session_matches e i m \<longleftrightarrow>
     ce_invoiceId e = Some (inv_id i) \<and> inv_id i \<noteq> [] \<and> ce_paymentStatus e = ''paid'' \<and>
     map_option js_lower (ce_currency e) =
       Some (js_lower (case inv_currency i of None \<Rightarrow> ''CAD'' | Some c \<Rightarrow> if c = [] then ''CAD'' else c)) \<and>
     ce_invoiceNumber e = Some (inv_invoiceNumber i) \<and> ce_amountTotal e = Some m \<and> 0 < m"

text \<open>What a matching session of \<open>m\<close> cents does to an invoice in status \<open>st\<close> that still owes \<open>due\<close> cents.\<close>

definition checkout_spec :: "string \<Rightarrow> int \<Rightarrow> int \<Rightarrow> pay_error + bool" where
  "checkout_spec st due m =
     (if st \<notin> set PAYABLE_INVOICE_STATUSES then
        Inl (StripeCheckoutRejectedError
               (if st = ''VOID'' then ''INVOICE_VOID''
                else if st = ''PAID'' then ''INVOICE_ALREADY_PAID'' else ''CHECKOUT_MISMATCH''))
      else if due < m then Inl (StripeCheckoutRejectedError ''CHECKOUT_BALANCE_CHANGED'')
      else Inr (m = due))"

lemma claim_closed:
  assumes "distinct (map inv_id (db_invoices db))" and "i \<in> set (db_invoices db)"
    and "inv_status i \<notin> set PAYABLE_INVOICE_STATUSES"
  shows "claimPayableInvoice now (inv_id i) db = (None, db)"
  using assms by (intro claim_not_payable) (metis distinct_map inj_onD)

lemma is_duplicate_None: "stripe_payment t (db_payments db) = None \<Longrightarrow> \<not> is_duplicate t j db"
  by (simp add: is_duplicate_def)

lemma checkout_against_open_invoice:
  assumes sum: "payment_sum agg" and led: "ledger_ok db" and i: "i \<in> set (db_invoices db)"
    and ses: "session_matches e i m" and m: "m \<le> 2 ^ 36" and cnt: "length (payments_of db (inv_id i)) \<le> 1000"
    and new: "stripe_payment (transaction_id e) (db_payments db) = None" and ext: "externals_ok ext"
    and time: "four_digit_year (ce_created e * 1000)" and rdy: "outbox_ready ext ctx db (inv_clientId i) (inv_id i) n"
  shows "case checkout_spec (inv_status i) (amount_cents (inv_total i) - paid_cents db (inv_id i)) m of
      Inl err \<Rightarrow> recordCompletedCheckout ext agg ctx c n e db = Inl err
    | Inr settled \<Rightarrow> \<exists>db'. recordCompletedCheckout ext agg ctx c n e db = Inr (Settled settled, db') \<and>
        ledger_ok db' \<and> paid_cents db' (inv_id i) = paid_cents db (inv_id i) + m \<and>
        length (db_events db') = length (db_events db) + (if settled then 1 else 0)"
proof -
  have d: "distinct (map inv_id (db_invoices db))" using led by (simp add: ledger_ok_def)
  have fr: "find_row (\<lambda>j. inv_id j = inv_id i) (db_invoices db) = Some i" by (rule find_row_distinct [OF d i])
  note nd = is_duplicate_None [OF new]
  have k: "0 < m" "\<bar>m\<bar> \<le> 2 ^ 36" using m ses by (simp_all add: session_matches_def)
  have tx: "checkout_transaction ext agg ctx c n e (inv_id i) db =
      (case claimPayableInvoice (ctx_now ctx) (inv_id i) db of
        (None, db1) \<Rightarrow> (case map_option inv_status (find_row (\<lambda>j. inv_id j = inv_id i) (db_invoices db1)) of
             Some st \<Rightarrow> (if st = ''VOID'' then Inl (StripeCheckoutRejectedError ''INVOICE_VOID'')
                            else if st = ''PAID'' then Inl (StripeCheckoutRejectedError ''INVOICE_ALREADY_PAID'')
                            else Inl (StripeCheckoutRejectedError ''CHECKOUT_MISMATCH''))
                       | None \<Rightarrow> Inl (StripeCheckoutRejectedError ''CHECKOUT_MISMATCH''))
      | (Some cur, db1) \<Rightarrow> (case applyInvoicePayment ext agg ctx (checkout_apply c n e m cur) db1 of
             Inl (InvoiceOverpaymentError _) \<Rightarrow> Inl (StripeCheckoutRejectedError ''CHECKOUT_BALANCE_CHANGED'')
           | Inl err \<Rightarrow> Inl err
           | Inr (r, db2) \<Rightarrow> Inr (Settled (ar_fullyPaid r), keep_session (ar_fullyPaid r) e (inv_id i) db2)))"
    using ses nd claim_db(1)
    by (auto simp: checkout_transaction_def Let_def fr session_matches_def is_duplicate_def split: prod.splits option.splits)
  have rc: "recordCompletedCheckout ext agg ctx c n e db =
      (case checkout_transaction ext agg ctx c n e (inv_id i) db of r \<Rightarrow> r)"
    if "checkout_transaction ext agg ctx c n e (inv_id i) db \<noteq> Inl UniqueViolation"
    using ses that
    by (auto simp: recordCompletedCheckout_def session_matches_def split: sum.splits pay_error.splits)
  show ?thesis
  proof (cases "inv_status i \<in> set PAYABLE_INVOICE_STATUSES")
    case False
    then show ?thesis using claim_closed [OF d i False] by (simp add: checkout_spec_def rc tx fr)
  next
    case True
    let ?cur = "i\<lparr>inv_updatedAt := ctx_now ctx\<rparr>" and ?due = "amount_cents (inv_total i) - paid_cents db (inv_id i)"
    obtain db1 where cl: "claimPayableInvoice (ctx_now ctx) (inv_id i) db = (Some ?cur, db1)"
      using claim_payable [OF d i True] by blast
    note led1 = claim_keeps_ledger [OF led cl] and c1 = claim_Some(1) [OF cl d] and db1 = claim_db [OF cl]
    let ?ai = "checkout_apply c n e m ?cur"
    have paid1: "paid_cents db1 j = paid_cents db j" "payments_of db1 j = payments_of db j" for j
      by (simp_all add: paid_cents_def payments_of_def db1(1))
    have pre: "ai_invoice ?ai \<in> set (db_invoices db1)" "length (payments_of db1 (inv_id (ai_invoice ?ai))) \<le> 1000"
        "\<forall>a. ai_amount ?ai = Some a \<longrightarrow> amount_in_range a"
      using c1 cnt paid1(2) cents_in_range [OF k(2)] minor_units [OF k(2)] by auto
    have cr: "create_payment (payment_row ?ai a) (db_payments db1) = Inr (db_payments db1 @ [payment_row ?ai a])" for a
      using new by (intro create_payment_ok) (simp add: checkout_row db1)
    have rd: "outbox_ready ext ctx db1 (inv_clientId (ai_invoice ?ai)) (inv_id (ai_invoice ?ai)) (ai_newPaymentId ?ai)"
      using rdy by (simp add: outbox_ready_def db1 checkout_apply_def split: sum.splits)
    have due: "0 \<le> ?due" using led i by (auto simp: ledger_ok_def invoice_ok_def)
    have src: "ai_source ?ai \<in> {''manual'', ''stripe_checkout''}" "four_digit_year (ai_paidAt ?ai)" using time by (simp_all add: checkout_apply_def)
    have am: "map_option amount_cents (ai_amount ?ai) = Some m"
      using minor_units [OF k(2)] amount_cents_cents [of m] k(2) by simp
    have sp: "pay_spec (amount_cents (inv_total (ai_invoice ?ai)) - paid_cents db1 (inv_id (ai_invoice ?ai)))
        (map_option amount_cents (ai_amount ?ai)) =
        (if ?due < m then Inl (InvoiceOverpaymentError (cents ?due)) else Inr m)"
      unfolding am using k(1) due by (simp add: paid1 pay_spec_def)
    note ref = payment_sum.apply_refines [OF sum led1 pre checkout_fields_ok cr ext src rd, unfolded sp]
    show ?thesis
    proof (cases "?due < m")
      case over: True
      then have "applyInvoicePayment ext agg ctx ?ai db1 = Inl (InvoiceOverpaymentError (cents ?due))"
        using ref by simp
      then show ?thesis using True over by (simp add: checkout_spec_def rc tx cl)
    next
      case False
      then obtain r db2 where "applyInvoicePayment ext agg ctx ?ai db1 = Inr (r, db2)"
          "paid_cents db2 (inv_id i) = paid_cents db (inv_id i) + m" "ar_fullyPaid r \<longleftrightarrow> m = ?due"
          "length (db_events db2) = length (db_events db) + (if ar_fullyPaid r then 1 else 0)"
        using ref by (auto simp: paid1 db1)
      moreover from this have "checkout_transaction ext agg ctx c n e (inv_id i) db =
          Inr (Settled (m = ?due), keep_session (m = ?due) e (inv_id i) db2)" by (simp add: tx cl)
      moreover have "\<forall>k. ce_amountTotal e = Some k \<longrightarrow> k \<le> 2 ^ 36" using ses m by (simp add: session_matches_def)
      ultimately show ?thesis using True False checkout_keeps_ledger [OF sum led cnt]
        by (simp add: checkout_spec_def rc)
    qed
  qed
qed

text \<open>C28: A completed Checkout session does what \<open>checkout_spec\<close> says: a session for more than the
  balance is refused, a VOID or PAID invoice is never settled, otherwise exactly the paid cents are
  recorded, the invoice is settled exactly when they cover the balance, and one event is written
  exactly then. (The session was created in the years 0 to 9999.)\<close>

theorem checkout_refines:
  assumes "payment_sum agg" and "ledger_ok db" and "i \<in> set (db_invoices db)"
    and "session_matches e i m" and "m \<le> 2 ^ 36" and "length (payments_of db (inv_id i)) \<le> 1000"
    and "stripe_payment (transaction_id e) (db_payments db) = None" and "externals_ok ext"
    and "four_digit_year (ce_created e * 1000)" and "outbox_ready ext ctx db (inv_clientId i) (inv_id i) n"
  shows "case checkout_spec (inv_status i) (amount_cents (inv_total i) - paid_cents db (inv_id i)) m of
      Inl err \<Rightarrow> recordCompletedCheckout ext agg ctx c n e db = Inl err
    | Inr settled \<Rightarrow> \<exists>db'. recordCompletedCheckout ext agg ctx c n e db = Inr (Settled settled, db') \<and>
        ledger_ok db' \<and> paid_cents db' (inv_id i) = paid_cents db (inv_id i) + m \<and>
        length (db_events db') = length (db_events db) + (if settled then 1 else 0)"
  using assms by (rule checkout_against_open_invoice)

subsection \<open>Every sequence of payments\<close>

text \<open>One committed settlement, within the bounds on amounts and on the number of payments.\<close>

inductive settlement_step :: "externals \<Rightarrow> aggregate \<Rightarrow> db \<Rightarrow> db \<Rightarrow> bool" for ext agg where
  manual: "recordManualPayment ext agg ctx input db = Inr (r, db') \<Longrightarrow>
     length (payments_of db (mi_invoiceId input)) \<le> 1000 \<Longrightarrow>
     (\<And>a. mi_amount input = Some a \<Longrightarrow> amount_in_range a) \<Longrightarrow>
     invoice_fields_ok (mi_invoiceFields input) \<Longrightarrow> payment_fields_ok (mi_paymentFields input) \<Longrightarrow>
     settlement_step ext agg db db'"
| checkout: "recordCompletedCheckout ext agg ctx c n e db = Inr (out, db') \<Longrightarrow>
     length (payments_of db (the (ce_invoiceId e))) \<le> 1000 \<Longrightarrow>
     (\<And>m. ce_amountTotal e = Some m \<Longrightarrow> m \<le> 2 ^ 36) \<Longrightarrow> settlement_step ext agg db db'"

lemma checkout_Duplicate:
  assumes "recordCompletedCheckout ext agg ctx c n e db = Inr (Duplicate, db')"
  shows "db' = db \<or> (\<exists>iid cl. claimPayableInvoice (ctx_now ctx) iid db = (cl, db'))"
  using assms
  by (fastforce simp: recordCompletedCheckout_def checkout_transaction_def Let_def
      split: option.splits if_splits sum.splits pay_error.splits prod.splits)

lemma step_keeps_ledger:
  assumes "settlement_step ext agg db db'" and "payment_sum agg" and "ledger_ok db"
  shows "ledger_ok db'"
  using assms(1)
proof cases
  case (manual ctx input r)
  then show ?thesis using manual_keeps_ledger [OF assms(2,3)] by blast
next
  case (checkout ctx c n e out)
  show ?thesis
  proof (cases out)
    case Duplicate
    then show ?thesis
      using checkout_Duplicate checkout(1) claim_keeps_ledger [OF assms(3)] assms(3) by blast
  next
    case (Settled b)
    then obtain iid where "ce_invoiceId e = Some iid" "checkout_transaction ext agg ctx c n e iid db = Inr (Settled b, db')"
      using checkout_result checkout(1) by blast
    moreover have "\<forall>m. ce_amountTotal e = Some m \<longrightarrow> m \<le> 2 ^ 36" using checkout(3) by blast
    ultimately show ?thesis using checkout_keeps_ledger [OF assms(2,3)] checkout(2) by simp
  qed
qed

text \<open>C2: Over any sequence of manual payments and completed Checkout sessions, in any order and with
  any redeliveries, every amount stays in non-negative whole cents, no invoice receives more than
  its total, and a PAID invoice has received exactly its total.\<close>

theorem settlements_keep_ledger:
  assumes "(settlement_step ext agg)\<^sup>*\<^sup>* db db'" and "payment_sum agg" and "ledger_ok db"
  shows "ledger_ok db'"
  using assms(1) by (induction rule: rtranclp_induct) (use step_keeps_ledger assms(2,3) in blast)+

subsection \<open>An example\<close>

definition sample_invoice :: invoice where
  "sample_invoice = \<lparr>inv_id = ''inv1'', inv_clientId = ''c1'', inv_invoiceNumber = ''2026-0001'', inv_status = ''SENT'',
     inv_currency = Some ''CAD'', inv_total = cents 10000, inv_paymentMethod = None, inv_paidAt = None,
     inv_updatedAt = 0, inv_stripePaymentLink = None, inv_stripeCheckoutSessionId = Some ''cs_1'',
     inv_stripeCheckoutAmountMinor = Some 10000, inv_stripeCheckoutCurrency = Some ''cad'',
     inv_stripeCheckoutExpiresAt = None, inv_stripeCheckoutAttempt = 0, inv_stripePaymentIntentId = None\<rparr>"

definition sample_db :: db where
  "sample_db = \<lparr>db_invoices = [sample_invoice], db_payments = [], db_events = [], db_clients = [(''c1'', ''org1'')]\<rparr>"

definition sample_manual :: manual_input where
  "sample_manual = \<lparr>mi_invoiceId = ''inv1'', mi_method = ''E_TRANSFER'', mi_amount = Some (cents 4000), mi_paidAt = 1000,
     mi_invoiceFields = (\<lambda>i. i), mi_paymentFields = (\<lambda>p. p), mi_correlationId = None, mi_newPaymentId = ''p1''\<rparr>"

definition sample_session :: checkout_event where
  "sample_session = \<lparr>ce_eventId = ''evt_1'', ce_created = 1, ce_sessionId = ''cs_1'', ce_paymentIntent = Some ''pi_1'',
     ce_invoiceId = Some ''inv1'', ce_invoiceNumber = Some ''2026-0001'', ce_paymentStatus = ''paid'',
     ce_currency = Some ''cad'', ce_amountTotal = Some 10000\<rparr>"

lemma sample_db_sel [simp]:
  "inv_total sample_invoice = cents 10000" "inv_id sample_invoice = ''inv1''" "inv_status sample_invoice = ''SENT''"
  "inv_clientId sample_invoice = ''c1''" "payments_of sample_db j = []" "db_payments sample_db = []"
  "db_invoices sample_db = [sample_invoice]" "db_events sample_db = []" "paid_cents sample_db j = 0"
  by (simp_all add: sample_invoice_def sample_db_def payments_of_def paid_cents_def)

lemma sample_ledger: "ledger_ok sample_db"
  by (simp add: ledger_ok_def invoice_ok_def whole_cents_def)

lemma sample_ready: "outbox_ready sample_externals sample_ctx sample_db ''c1'' ''inv1'' pid"
  by (simp add: outbox_ready_def owningOrganization_def sample_ctx_def)

lemma sample_times: "four_digit_year (mi_paidAt sample_manual)" "four_digit_year (ce_created sample_session * 1000)"
  by (simp_all add: four_digit_year_def sample_manual_def sample_session_def)

lemma sample_matches: "session_matches sample_session sample_invoice 10000"
  by (simp add: session_matches_def sample_session_def sample_invoice_def) code_simp

theorem manual_payment_refines_witness:
  "\<exists>r db'. recordManualPayment sample_externals loaded_sum sample_ctx sample_manual sample_db
             = Inr (Some (r, Some ''cs_1''), db') \<and>
           ar_amount r = cents 4000 \<and> paid_cents db' ''inv1'' = 4000 \<and> \<not> ar_fullyPaid r \<and>
           inv_status (ar_invoice r) = ''SENT'' \<and> db_events db' = []"
proof -
  have sel: "mi_invoiceId sample_manual = inv_id sample_invoice" "mi_amount sample_manual = Some (cents 4000)"
      "invoice_fields_ok (mi_invoiceFields sample_manual)" "payment_fields_ok (mi_paymentFields sample_manual)"
      "mi_method sample_manual \<noteq> ''STRIPE''"
    by (simp_all add: sample_manual_def invoice_fields_ok_def payment_fields_ok_def)
  have "\<forall>a. mi_amount sample_manual = Some a \<longrightarrow> amount_in_range a" using cents_in_range [of 4000] sel by simp
  moreover have "inv_stripeCheckoutSessionId sample_invoice = Some ''cs_1''" by (simp add: sample_invoice_def)
  moreover have "sample_invoice \<in> set (db_invoices sample_db)" "inv_status sample_invoice \<in> set PAYABLE_INVOICE_STATUSES"
    by (simp_all add: PAYABLE_INVOICE_STATUSES_def UNPAID_INVOICE_STATUSES_def)
  ultimately show ?thesis
    using manual_payment_refines [OF loaded.payment_sum_axioms sample_ledger _ _ sel(1) _ _ sel(3-5) sample_externals_ok,
        of sample_ctx] sample_ready sel(2) sample_times
    by (force simp: pay_spec_def)
qed

theorem checkout_refines_witness:
  "\<exists>db'. recordCompletedCheckout sample_externals loaded_sum sample_ctx None ''p2'' sample_session sample_db
       = Inr (Settled True, db') \<and> paid_cents db' ''inv1'' = 10000 \<and> length (db_events db') = 1"
  using checkout_refines [OF loaded.payment_sum_axioms sample_ledger _ sample_matches _ _ _ sample_externals_ok,
      of sample_ctx "''p2''" None] sample_ready sample_times
  by (simp add: checkout_spec_def stripe_payment_def PAYABLE_INVOICE_STATUSES_def UNPAID_INVOICE_STATUSES_def
      find_row_def) blast

lemma sample_settled:
  obtains db' where "recordCompletedCheckout sample_externals loaded_sum sample_ctx None ''p2'' sample_session sample_db
    = Inr (Settled True, db')" "paid_cents db' ''inv1'' = 10000"
  using checkout_against_open_invoice [OF loaded.payment_sum_axioms sample_ledger _ sample_matches _ _ _ sample_externals_ok,
      of sample_ctx "''p2''" None] sample_ready sample_times
  by (auto simp: checkout_spec_def stripe_payment_def PAYABLE_INVOICE_STATUSES_def UNPAID_INVOICE_STATUSES_def
      find_row_def)

theorem checkout_settles_once_witness:
  "\<exists>db'. recordCompletedCheckout sample_externals loaded_sum sample_ctx None ''p2'' sample_session sample_db
       = Inr (Settled True, db') \<and>
     recordCompletedCheckout sample_externals loaded_sum sample_ctx None ''p3'' (sample_session\<lparr>ce_eventId := ''evt_2''\<rparr>) db'
       = Inr (Duplicate, db')"
proof -
  obtain db' where ok: "recordCompletedCheckout sample_externals loaded_sum sample_ctx None ''p2'' sample_session sample_db
      = Inr (Settled True, db')" by (rule sample_settled)
  from checkout_settles_once [OF ok, of "sample_session\<lparr>ce_eventId := ''evt_2''\<rparr>"] ok show ?thesis
    by (simp add: sample_session_def transaction_id_def)
qed

theorem settlements_keep_ledger_witness:
  "\<exists>db'. (settlement_step sample_externals loaded_sum)\<^sup>*\<^sup>* sample_db db' \<and> ledger_ok db' \<and> paid_cents db' ''inv1'' = 10000"
proof -
  obtain db' where ok: "recordCompletedCheckout sample_externals loaded_sum sample_ctx None ''p2'' sample_session sample_db
      = Inr (Settled True, db')" "paid_cents db' ''inv1'' = 10000" by (rule sample_settled)
  have "settlement_step sample_externals loaded_sum sample_db db'"
    using ok(1) by (rule settlement_step.checkout) (simp_all add: sample_session_def)
  then have st: "(settlement_step sample_externals loaded_sum)\<^sup>*\<^sup>* sample_db db'" by blast
  from settlements_keep_ledger [OF st loaded.payment_sum_axioms sample_ledger] st ok(2) show ?thesis by blast
qed

end
