(* ===== verification/Outbox_Dispatch.thy ===== *)
theory Outbox_Dispatch
  imports Domain_Events "HOL-Library.Char_ord" "HOL-Library.List_Lexorder" "HOL-Library.Product_Lexorder"
    "HOL-Library.Multiset"
begin

section \<open>The outbox dispatcher\<close>

text \<open>
  Models \<^verbatim>\<open>src/services/domain-event-dispatcher.service.js\<close> and the tenant check of
  \<^verbatim>\<open>src/jobs/tenant-iteration.js\<close>: claiming due events, delivering them to the subscribers,
  settling the outcome, dead-lettering, replaying and discarding.

  The state is the event table and, beside it, every row a claim has handed to a dispatcher: those
  rows live on in the dispatchers' memory while the table changes. A function that runs several
  statements takes an environment that, before the \<open>k\<close>-th statement, may change the state in any
  way (\<open>de_others\<close>: the other dispatchers, the requests and the administrators) and supplies the
  clock, the random numbers, the claim tokens, the rows other transactions hold locked and the
  organizations at that moment. Subscribers are functions that take some time and may throw.
\<close>

record outbox =
  ob_rows :: "event list"
  ob_claims :: "event list"

subsection \<open>Constants\<close>

definition SETTLED_STATUSES :: "event_status list" where
  "SETTLED_STATUSES = [Published, Discarded]"

definition SUBSCRIBER_TIMEOUT_MS :: int where
  "SUBSCRIBER_TIMEOUT_MS = 60 * 1000"

definition MAX_REPLAYS_PER_EVENT :: nat where
  "MAX_REPLAYS_PER_EVENT = 5"

definition MAX_REPLAY_BATCH :: nat where
  "MAX_REPLAY_BATCH = 50"

definition MAX_ERROR_LENGTH :: nat where
  "MAX_ERROR_LENGTH = 300"

subsection \<open>Subscribers\<close>

text \<open>
  A thrown value: whether JavaScript counts it as true, the strings it has as \<open>name\<close>, \<open>code\<close> and
  \<open>message\<close>, and what \<open>String(err)\<close> gives.
\<close>

record thrown =
  th_truthy :: bool
  th_name :: "string option"
  th_code :: "string option"
  th_message :: "string option"
  th_text :: string

text \<open>A handler called at some moment with an event and the attempt number: how long it takes, and what it throws.\<close>

record subscriber =
  sub_name :: string
  sub_types :: "string list option"
  sub_handle :: "nat \<Rightarrow> event \<Rightarrow> nat \<Rightarrow> int \<times> thrown option"

datatype registry_error = SubscriberNeedsName | SubscriberAlreadyRegistered string

definition registerDomainEventSubscriber ::
  "subscriber \<Rightarrow> subscriber list \<Rightarrow> registry_error + subscriber list" where
  "registerDomainEventSubscriber s registry =
     (if sub_name s = [] then Inl SubscriberNeedsName
      else if list_ex (\<lambda>r. sub_name r = sub_name s) registry then Inl (SubscriberAlreadyRegistered (sub_name s))
      else Inr (registry @ [s]))"

definition unregisterDomainEventSubscriber :: "string \<Rightarrow> subscriber list \<Rightarrow> bool \<times> subscriber list" where
  "unregisterDomainEventSubscriber name registry =
     (list_ex (\<lambda>r. sub_name r = name) registry, filter (\<lambda>r. sub_name r \<noteq> name) registry)"

definition subscribersFor :: "string \<Rightarrow> subscriber list \<Rightarrow> subscriber list" where
  "subscribersFor type source =
     filter (\<lambda>s. case sub_types s of None \<Rightarrow> True | Some types \<Rightarrow> type \<in> set types) source"

text \<open>The built-in subscriber writes a log line.\<close>

definition journal :: subscriber where
  "journal = \<lparr>sub_name = ''journal'', sub_types = None, sub_handle = (\<lambda>_ _ _. (0, None))\<rparr>"

subsection \<open>Backoff and errors\<close>

definition computeBackoffMs :: "nat \<Rightarrow> int \<Rightarrow> int \<Rightarrow> rat \<Rightarrow> jsnum" where
  "computeBackoffMs attempts baseDelayMs maxDelayMs random =
     (let exponent = min (attempts - 1) 30;
          ceiling = math_min (Fin (of_int maxDelayMs)) (js_mul (Fin (of_int baseDelayMs)) (Fin (2 ^ exponent)));
          jitter = math_min (math_max (Fin random) (Fin 0)) (Fin 1)
      in math_round (js_add (js_div_by ceiling 2) (js_mul (js_div_by ceiling 2) jitter)))"

definition DomainEventSubscriberTimeoutError :: "string \<Rightarrow> thrown" where
  "DomainEventSubscriberTimeoutError ms =
     \<lparr>th_truthy = True, th_name = Some ''DomainEventSubscriberTimeoutError'', th_code = Some ''SUBSCRIBER_TIMEOUT'',
      th_message = Some (''Subscribers did not finish within '' @ ms @ ''ms''), th_text = []\<rparr>"

definition describeDispatchError :: "thrown \<Rightarrow> string" where
  "describeDispatchError err =
     (let name = (case th_name err of Some n \<Rightarrow> n | None \<Rightarrow> ''Error'');
          code = (case th_code err of Some c \<Rightarrow> '' ['' @ c @ '']'' | None \<Rightarrow> []);
          message = (case th_message err of Some t \<Rightarrow> t | None \<Rightarrow> th_text err)
      in take MAX_ERROR_LENGTH (name @ code @ '': '' @ message))"

subsection \<open>Claiming\<close>

definition abandoned :: "timestamp \<Rightarrow> nat \<Rightarrow> event \<Rightarrow> bool" where
  "abandoned now maxAttempts e \<longleftrightarrow>
     ev_status e = Dispatching \<and> (case ev_lockedUntil e of Some t \<Rightarrow> t < now | None \<Rightarrow> False) \<and>
     maxAttempts \<le> ev_attempts e"

definition deadLetterAbandonedClaims :: "timestamp \<Rightarrow> nat \<Rightarrow> outbox \<Rightarrow> nat \<times> outbox" where
  "deadLetterAbandonedClaims now maxAttempts ob =
     (count_rows (abandoned now maxAttempts) (ob_rows ob),
      ob\<lparr>ob_rows := update_rows (abandoned now maxAttempts)
           (\<lambda>e. e\<lparr>ev_status := Dead, ev_lockedUntil := None, ev_claimToken := None,
                  ev_lastError := Some ''LeaseExpired: the claim was abandoned on its final attempt (worker crash or hang)''\<rparr>)
           (ob_rows ob)\<rparr>)"

definition predecessor :: "event \<Rightarrow> event \<Rightarrow> bool" where
  "predecessor p e \<longleftrightarrow>
     ev_organizationId p = ev_organizationId e \<and> ev_aggregateType p = ev_aggregateType e \<and>
     ev_aggregateId p = ev_aggregateId e \<and> ev_sequence p < ev_sequence e"

definition claimable :: "timestamp \<Rightarrow> nat \<Rightarrow> event list \<Rightarrow> event \<Rightarrow> bool" where
  "claimable now maxAttempts rows e \<longleftrightarrow>
     (ev_status e = Pending \<and> ev_nextAttemptAt e \<le> now \<or>
      ev_status e = Dispatching \<and> (case ev_lockedUntil e of Some t \<Rightarrow> t < now | None \<Rightarrow> False) \<and>
      ev_attempts e < maxAttempts) \<and>
     \<not> list_ex (\<lambda>p. predecessor p e \<and> ev_status p \<notin> set SETTLED_STATUSES) rows"

definition candidates :: "(string \<Rightarrow> bool) \<Rightarrow> timestamp \<Rightarrow> nat \<Rightarrow> nat \<Rightarrow> event list \<Rightarrow> event list" where
  "candidates locked now limit maxAttempts rows =
     take limit (sort_key (\<lambda>e. (ev_occurredAt e, ev_sequence e, ev_id e))
                   (filter (\<lambda>e. claimable now maxAttempts rows e \<and> \<not> locked (ev_id e)) rows))"

definition take_claim :: "timestamp \<Rightarrow> int \<Rightarrow> string \<Rightarrow> event \<Rightarrow> event" where
  "take_claim now leaseMs claimToken e =
     e\<lparr>ev_status := Dispatching, ev_attempts := ev_attempts e + 1, ev_lastAttemptAt := Some now,
       ev_lockedUntil := Some (now + leaseMs), ev_claimToken := Some claimToken\<rparr>"

text \<open>The one statement that claims; SQL leaves the order of the returned rows open, here it is the table's.\<close>

definition claimDomainEvents ::
  "(string \<Rightarrow> bool) \<Rightarrow> timestamp \<Rightarrow> nat \<Rightarrow> int \<Rightarrow> nat \<Rightarrow> string \<Rightarrow> outbox \<Rightarrow> event list \<times> outbox" where
  "claimDomainEvents locked now limit leaseMs maxAttempts claimToken ob =
     (let ids = map ev_id (candidates locked now limit maxAttempts (ob_rows ob));
          rows = update_rows (\<lambda>e. ev_id e \<in> set ids) (take_claim now leaseMs claimToken) (ob_rows ob);
          claimed = filter (\<lambda>e. ev_id e \<in> set ids) rows
      in (claimed, \<lparr>ob_rows = rows, ob_claims = ob_claims ob @ claimed\<rparr>))"

text \<open>The condition under which a dispatcher still owns the claim it read.\<close>

definition holds_claim :: "event \<Rightarrow> event \<Rightarrow> bool" where
  "holds_claim event r \<longleftrightarrow>
     ev_id r = ev_id event \<and> ev_status r = Dispatching \<and> ev_claimToken r = ev_claimToken event"

definition settle :: "event \<Rightarrow> (event \<Rightarrow> event) \<Rightarrow> outbox \<Rightarrow> bool \<times> outbox" where
  "settle event data ob =
     (count_rows (holds_claim event) (ob_rows ob) = 1,
      ob\<lparr>ob_rows := update_rows (holds_claim event) data (ob_rows ob)\<rparr>)"

definition renewLease :: "event \<Rightarrow> timestamp \<Rightarrow> outbox \<Rightarrow> bool \<times> outbox" where
  "renewLease event lockedUntil ob =
     (count_rows (holds_claim event) (ob_rows ob) = 1,
      ob\<lparr>ob_rows := update_rows (holds_claim event) (\<lambda>r. r\<lparr>ev_lockedUntil := Some lockedUntil\<rparr>) (ob_rows ob)\<rparr>)"

definition to_published :: "timestamp \<Rightarrow> event \<Rightarrow> event" where
  "to_published settledAt r =
     r\<lparr>ev_status := Published, ev_publishedAt := Some settledAt, ev_lockedUntil := None,
       ev_claimToken := None, ev_lastError := None\<rparr>"

definition to_dead :: "string \<Rightarrow> event \<Rightarrow> event" where
  "to_dead err r =
     r\<lparr>ev_status := Dead, ev_lockedUntil := None, ev_claimToken := None, ev_lastError := Some err\<rparr>"

definition to_retry :: "timestamp \<Rightarrow> string \<Rightarrow> event \<Rightarrow> event" where
  "to_retry nextAttemptAt err r =
     r\<lparr>ev_status := Pending, ev_nextAttemptAt := nextAttemptAt, ev_lockedUntil := None,
       ev_claimToken := None, ev_lastError := Some err\<rparr>"

subsection \<open>Delivering\<close>

record dispatch_env =
  de_now :: "nat \<Rightarrow> timestamp"
  de_random :: "nat \<Rightarrow> rat"
  de_uuid :: "nat \<Rightarrow> string"
  de_others :: "nat \<Rightarrow> outbox \<Rightarrow> outbox"
  de_locked :: "nat \<Rightarrow> string \<Rightarrow> bool"
  de_organizations :: "nat \<Rightarrow> string list"
  de_show :: "int \<Rightarrow> string"

record dispatch_options =
  do_batchSize :: nat
  do_maxRounds :: nat
  do_leaseMs :: int
  do_subscriberTimeoutMs :: int
  do_maxAttempts :: nat
  do_baseDelayMs :: int
  do_maxDelayMs :: int
  do_subscribers :: "subscriber list"

definition DISPATCH_DEFAULTS :: dispatch_options where
  "DISPATCH_DEFAULTS =
     \<lparr>do_batchSize = 25, do_maxRounds = 10, do_leaseMs = 2 * 60 * 1000,
      do_subscriberTimeoutMs = SUBSCRIBER_TIMEOUT_MS, do_maxAttempts = 10, do_baseDelayMs = 10 * 1000,
      do_maxDelayMs = 60 * 60 * 1000, do_subscribers = [journal]\<rparr>"

record summary =
  sm_claimed :: nat
  sm_published :: nat
  sm_retried :: nat
  sm_dead :: nat
  sm_leaseLost :: nat
  sm_abandoned :: nat

type_synonym run = "nat \<times> outbox"

text \<open>One statement of a run, after whatever the others did since the last one.\<close>

definition statement :: "dispatch_env \<Rightarrow> (outbox \<Rightarrow> 'a \<times> outbox) \<Rightarrow> run \<Rightarrow> 'a \<times> run" where
  "statement env f r = (case f (de_others env (fst r) (snd r)) of (x, ob) \<Rightarrow> (x, (Suc (fst r), ob)))"

text \<open>Running the subscribers in order: the time taken and the first thrown value.\<close>

primrec run_subscribers :: "nat \<Rightarrow> event \<Rightarrow> subscriber list \<Rightarrow> int \<times> thrown option" where
  "run_subscribers k event [] = (0, None)"
| "run_subscribers k event (s # rest) =
     (case sub_handle s k event (ev_attempts event) of
        (d, Some err) \<Rightarrow> (d, Some err)
      | (d, None) \<Rightarrow> (case run_subscribers k event rest of (d', res) \<Rightarrow> (d + d', res)))"

definition runTenantJob :: "string list \<Rightarrow> string \<Rightarrow> (int \<times> thrown option) \<Rightarrow> int \<times> thrown option" where
  "runTenantJob organizations organizationId callback =
     (if organizationId \<noteq> [] \<and> organizationId \<notin> set organizations
      then (0, Some \<lparr>th_truthy = True, th_name = Some ''Error'', th_code = None,
                     th_message = Some (''Tenancy Error: unknown organization '' @ organizationId), th_text = []\<rparr>)
      else callback)"

definition withSubscriberTimeout :: "(int \<Rightarrow> string) \<Rightarrow> int \<times> thrown option \<Rightarrow> int \<Rightarrow> thrown option" where
  "withSubscriberTimeout show_int work timeoutMs =
     (if fst work < timeoutMs then snd work else Some (DomainEventSubscriberTimeoutError (show_int timeoutMs)))"

text \<open>\<open>if (!failure)\<close>: a thrown value that counts as false is no failure.\<close>

definition delivery_failure :: "dispatch_env \<Rightarrow> dispatch_options \<Rightarrow> nat \<Rightarrow> event \<Rightarrow> thrown option" where
  "delivery_failure env opts k event =
     (case withSubscriberTimeout (de_show env)
             (runTenantJob (de_organizations env k) (ev_organizationId event)
                (run_subscribers k event (subscribersFor (ev_type event) (do_subscribers opts))))
             (do_subscriberTimeoutMs opts) of
        None \<Rightarrow> None
      | Some err \<Rightarrow> if th_truthy err then Some err else None)"

definition to_ms :: "jsnum \<Rightarrow> int" where
  "to_ms x = (case x of Fin q \<Rightarrow> \<lfloor>q\<rfloor> | _ \<Rightarrow> 0)"

definition dispatch_event ::
  "dispatch_env \<Rightarrow> dispatch_options \<Rightarrow> event \<Rightarrow> summary \<times> run \<Rightarrow> summary \<times> run" where
  "dispatch_event env opts event st =
     (case st of (sm, r) \<Rightarrow>
      (case statement env (renewLease event (de_now env (fst r) + do_leaseMs opts)) r of
         (False, r1) \<Rightarrow> (sm\<lparr>sm_leaseLost := sm_leaseLost sm + 1\<rparr>, r1)
       | (True, r1) \<Rightarrow>
          (let settledAt = de_now env (fst r1)
           in case delivery_failure env opts (fst r1) event of
                None \<Rightarrow>
                  (case statement env (settle event (to_published settledAt)) r1 of (ok, r2) \<Rightarrow>
                     (if ok then sm\<lparr>sm_published := sm_published sm + 1\<rparr>
                      else sm\<lparr>sm_leaseLost := sm_leaseLost sm + 1\<rparr>, r2))
              | Some err \<Rightarrow>
                 (if do_maxAttempts opts \<le> ev_attempts event then
                    (case statement env (settle event (to_dead (describeDispatchError err))) r1 of (ok, r2) \<Rightarrow>
                       (if ok then sm\<lparr>sm_dead := sm_dead sm + 1\<rparr>
                        else sm\<lparr>sm_leaseLost := sm_leaseLost sm + 1\<rparr>, r2))
                  else
                    (let delay = to_ms (computeBackoffMs (ev_attempts event) (do_baseDelayMs opts)
                                          (do_maxDelayMs opts) (de_random env (fst r1)))
                     in case statement env (settle event
                               (to_retry (settledAt + delay) (describeDispatchError err))) r1 of (ok, r2) \<Rightarrow>
                          (if ok then sm\<lparr>sm_retried := sm_retried sm + 1\<rparr>
                           else sm\<lparr>sm_leaseLost := sm_leaseLost sm + 1\<rparr>, r2))))))"

primrec dispatch_batch ::
  "dispatch_env \<Rightarrow> dispatch_options \<Rightarrow> event list \<Rightarrow> summary \<times> run \<Rightarrow> summary \<times> run" where
  "dispatch_batch env opts [] st = st"
| "dispatch_batch env opts (e # es) st = dispatch_batch env opts es (dispatch_event env opts e st)"

text \<open>At most \<open>rounds\<close> more claims.\<close>

primrec dispatch_rounds :: "dispatch_env \<Rightarrow> dispatch_options \<Rightarrow> nat \<Rightarrow> summary \<times> run \<Rightarrow> summary \<times> run" where
  "dispatch_rounds env opts 0 st = st"
| "dispatch_rounds env opts (Suc rounds) st =
     (case st of (sm, r) \<Rightarrow>
      (case statement env (claimDomainEvents (de_locked env (fst r)) (de_now env (fst r)) (do_batchSize opts)
                             (do_leaseMs opts) (do_maxAttempts opts) (de_uuid env (fst r))) r of
         (claimed, r1) \<Rightarrow>
           if claimed = [] then (sm, r1)
           else dispatch_rounds env opts rounds
                  (dispatch_batch env opts claimed (sm\<lparr>sm_claimed := sm_claimed sm + length claimed\<rparr>, r1))))"

datatype dispatch_error = SubscriberTimeoutNotShorterThanLease

definition dispatchDomainEvents ::
  "dispatch_env \<Rightarrow> dispatch_options \<Rightarrow> outbox \<Rightarrow> dispatch_error + summary \<times> run" where
  "dispatchDomainEvents env opts ob =
     (if \<not> (0 < do_subscriberTimeoutMs opts \<and> do_subscriberTimeoutMs opts < do_leaseMs opts)
      then Inl SubscriberTimeoutNotShorterThanLease
      else (case statement env (deadLetterAbandonedClaims (de_now env 0) (do_maxAttempts opts)) (0, ob) of
              (n, r) \<Rightarrow> Inr (dispatch_rounds env opts (do_maxRounds opts)
                 (\<lparr>sm_claimed = 0, sm_published = 0, sm_retried = 0, sm_dead = 0, sm_leaseLost = 0, sm_abandoned = n\<rparr>, r))))"

subsection \<open>Replaying and discarding dead events\<close>

datatype skip_reason = NotFound | NotDead | ReplayLimit | Changed

datatype replay_error = ReplayBatchSize

definition is_dead_at :: "string \<Rightarrow> string \<Rightarrow> nat \<Rightarrow> event \<Rightarrow> bool" where
  "is_dead_at organizationId eventId replayCount r \<longleftrightarrow>
     ev_organizationId r = organizationId \<and> ev_id r = eventId \<and> ev_status r = Dead \<and> ev_replayCount r = replayCount"

definition to_replay :: "timestamp \<Rightarrow> event \<Rightarrow> event" where
  "to_replay now r =
     r\<lparr>ev_status := Pending, ev_attempts := 0, ev_nextAttemptAt := now, ev_replayCount := ev_replayCount r + 1\<rparr>"

definition to_discard :: "timestamp \<Rightarrow> event \<Rightarrow> event" where
  "to_discard now r = r\<lparr>ev_status := Discarded, ev_discardedAt := Some now\<rparr>"

text \<open>A conditional update of a dead row of the tenant; whether it changed one row.\<close>

definition update_dead :: "string \<Rightarrow> string \<Rightarrow> nat \<Rightarrow> (event \<Rightarrow> event) \<Rightarrow> outbox \<Rightarrow> bool \<times> outbox" where
  "update_dead organizationId eventId replayCount data ob =
     (count_rows (is_dead_at organizationId eventId replayCount) (ob_rows ob) = 1,
      ob\<lparr>ob_rows := update_rows (is_dead_at organizationId eventId replayCount) data (ob_rows ob)\<rparr>)"

type_synonym replay_result = "event list \<times> (string \<times> skip_reason) list"

primrec replay_loop ::
  "dispatch_env \<Rightarrow> string \<Rightarrow> timestamp \<Rightarrow> nat \<Rightarrow> event list \<Rightarrow> string list \<Rightarrow> replay_result \<times> run \<Rightarrow> replay_result \<times> run" where
  "replay_loop env org now maxReplays found [] st = st"
| "replay_loop env org now maxReplays found (i # ids) st =
     replay_loop env org now maxReplays found ids
       (case st of ((requeued, skipped), r) \<Rightarrow>
         (case find_row (\<lambda>e. ev_id e = i) found of
            None \<Rightarrow> ((requeued, skipped @ [(i, NotFound)]), r)
          | Some event \<Rightarrow>
              if ev_status event \<noteq> Dead then ((requeued, skipped @ [(i, NotDead)]), r)
              else if maxReplays \<le> ev_replayCount event then ((requeued, skipped @ [(i, ReplayLimit)]), r)
              else (case statement env (update_dead org i (ev_replayCount event) (to_replay now)) r of
                      (True, r1) \<Rightarrow>
                        ((requeued @ [event\<lparr>ev_status := Pending, ev_attempts := 0,
                                            ev_replayCount := ev_replayCount event + 1\<rparr>], skipped), r1)
                    | (False, r1) \<Rightarrow> ((requeued, skipped @ [(i, Changed)]), r1))))"

definition find_events :: "string \<Rightarrow> string list \<Rightarrow> outbox \<Rightarrow> event list \<times> outbox" where
  "find_events org ids ob =
     (filter (\<lambda>e. ev_organizationId e = org \<and> ev_id e \<in> set ids) (ob_rows ob), ob)"

text \<open>\<open>[...new Set(eventIds)]\<close>: the distinct ids, each at its first place.\<close>

definition distinct_ids :: "string list \<Rightarrow> string list" where
  "distinct_ids eventIds = rev (remdups (rev eventIds))"

definition replayDeadDomainEvents ::
  "dispatch_env \<Rightarrow> string \<Rightarrow> timestamp \<Rightarrow> nat \<Rightarrow> string list \<Rightarrow> outbox \<Rightarrow> replay_error + replay_result \<times> run" where
  "replayDeadDomainEvents env org now maxReplays eventIds ob =
     (let ids = distinct_ids eventIds
      in if length ids = 0 \<or> MAX_REPLAY_BATCH < length ids then Inl ReplayBatchSize
         else (case statement env (find_events org ids) (0, ob) of (found, r) \<Rightarrow>
                 Inr (replay_loop env org now maxReplays found ids (([], []), r))))"

primrec discard_loop ::
  "dispatch_env \<Rightarrow> string \<Rightarrow> timestamp \<Rightarrow> event list \<Rightarrow> string list \<Rightarrow> replay_result \<times> run \<Rightarrow> replay_result \<times> run" where
  "discard_loop env org now found [] st = st"
| "discard_loop env org now found (i # ids) st =
     discard_loop env org now found ids
       (case st of ((discarded, skipped), r) \<Rightarrow>
         (case find_row (\<lambda>e. ev_id e = i) found of
            None \<Rightarrow> ((discarded, skipped @ [(i, NotFound)]), r)
          | Some event \<Rightarrow>
              if ev_status event \<noteq> Dead then ((discarded, skipped @ [(i, NotDead)]), r)
              else (case statement env (update_dead org i (ev_replayCount event) (to_discard now)) r of
                      (True, r1) \<Rightarrow> ((discarded @ [event\<lparr>ev_status := Discarded\<rparr>], skipped), r1)
                    | (False, r1) \<Rightarrow> ((discarded, skipped @ [(i, Changed)]), r1))))"

definition discardDeadDomainEvents ::
  "dispatch_env \<Rightarrow> string \<Rightarrow> timestamp \<Rightarrow> string list \<Rightarrow> outbox \<Rightarrow> replay_error + replay_result \<times> run" where
  "discardDeadDomainEvents env org now eventIds ob =
     (let ids = distinct_ids eventIds
      in if length ids = 0 \<or> MAX_REPLAY_BATCH < length ids then Inl ReplayBatchSize
         else (case statement env (find_events org ids) (0, ob) of (found, r) \<Rightarrow>
                 Inr (discard_loop env org now found ids (([], []), r))))"

subsection \<open>The invariant of the outbox\<close>

definition ident :: "event \<Rightarrow> string \<times> string \<times> string \<times> string \<times> nat" where
  "ident e = (ev_id e, ev_organizationId e, ev_aggregateType e, ev_aggregateId e, ev_sequence e)"

definition settled :: "event \<Rightarrow> bool" where
  "settled e \<longleftrightarrow> ev_status e \<in> set SETTLED_STATUSES"

definition started :: "event \<Rightarrow> bool" where
  "started e \<longleftrightarrow> ev_status e \<noteq> Pending \<or> 0 < ev_attempts e \<or> 0 < ev_replayCount e"

text \<open>
  A row is leased exactly while it is being dispatched, has at most \<open>m\<close> attempts, an attempt left
  while it waits, and at most \<open>R\<close> replays.
\<close>

definition row_ok :: "nat \<Rightarrow> nat \<Rightarrow> event \<Rightarrow> bool" where
  "row_ok m R e \<longleftrightarrow>
     (ev_status e = Dispatching \<longleftrightarrow> ev_claimToken e \<noteq> None) \<and>
     (ev_status e = Dispatching \<longleftrightarrow> ev_lockedUntil e \<noteq> None) \<and>
     (ev_status e = Dispatching \<longrightarrow> 0 < ev_attempts e) \<and>
     (ev_status e = Pending \<longrightarrow> ev_attempts e < m) \<and>
     ev_attempts e \<le> m \<and> ev_replayCount e \<le> R"

text \<open>An event is taken up only when every earlier event of its aggregate is settled.\<close>

definition table_ok :: "nat \<Rightarrow> nat \<Rightarrow> event list \<Rightarrow> bool" where
  "table_ok m R rows \<longleftrightarrow>
     distinct (map ev_id rows) \<and> (\<forall>e \<in> set rows. row_ok m R e) \<and>
     (\<forall>e \<in> set rows. \<forall>p \<in> set rows. started e \<longrightarrow> predecessor p e \<longrightarrow> settled p)"

text \<open>A dispatched row was handed to a dispatcher, with the number of attempts it has now.\<close>

definition claims_ok :: "outbox \<Rightarrow> bool" where
  "claims_ok ob \<longleftrightarrow>
     (\<forall>r \<in> set (ob_rows ob). ev_status r = Dispatching \<longrightarrow>
        (\<exists>c \<in> set (ob_claims ob). ev_claimToken c = ev_claimToken r) \<and>
        (\<forall>c \<in> set (ob_claims ob). ev_id c = ev_id r \<longrightarrow> ev_claimToken c = ev_claimToken r \<longrightarrow> ev_attempts c = ev_attempts r))"

definition dispatch_ok :: "nat \<Rightarrow> nat \<Rightarrow> outbox \<Rightarrow> bool" where
  "dispatch_ok m R ob \<longleftrightarrow> table_ok m R (ob_rows ob) \<and> claims_ok ob"

lemma predecessor_ident: "ident p' = ident p \<Longrightarrow> ident e' = ident e \<Longrightarrow> predecessor p' e' \<longleftrightarrow> predecessor p e"
  by (simp add: ident_def predecessor_def)

lemma ident_id: "ident a = ident b \<Longrightarrow> ev_id a = ev_id b"
  by (simp add: ident_def)

lemma table_update:
  assumes ok: "table_ok m R rows" and id: "\<And>r. ident (f r) = ident r"
    and row: "\<And>r. r \<in> set rows \<Longrightarrow> P r \<Longrightarrow> row_ok m R r \<Longrightarrow> row_ok m R (f r)"
    and set: "\<And>r. r \<in> set rows \<Longrightarrow> P r \<Longrightarrow> settled r \<Longrightarrow> settled (f r)"
    and sta: "\<And>r. r \<in> set rows \<Longrightarrow> P r \<Longrightarrow> started (f r) \<Longrightarrow> started r \<or> (\<forall>p \<in> set rows. predecessor p r \<longrightarrow> settled p)"
  shows "table_ok m R (update_rows P f rows)"
proof -
  define g where "g r = (if P r then f r else r)" for r
  have rows: "update_rows P f rows = map g rows" by (simp add: update_rows_def g_def)
  have gid: "ident (g r) = ident r" for r by (simp add: g_def id)
  have "ev_id (g r) = ev_id r" for r by (rule ident_id [OF gid])
  then have "distinct (map ev_id (map g rows))" using ok by (simp add: table_ok_def comp_def)
  moreover have "row_ok m R (g r)" if "r \<in> set rows" for r
    using ok row that by (simp add: g_def table_ok_def)
  moreover have "settled (g p)" if "e \<in> set rows" "p \<in> set rows" "started (g e)" "predecessor (g p) (g e)" for e p
  proof -
    have "predecessor p e" using that(4) predecessor_ident [OF gid gid] by simp
    moreover have "started e \<or> (\<forall>p \<in> set rows. predecessor p e \<longrightarrow> settled p)"
      using that(1,3) sta by (auto simp: g_def split: if_splits)
    ultimately have "settled p" using ok that(1,2) by (auto simp: table_ok_def)
    then show ?thesis using set that(2) by (simp add: g_def)
  qed
  ultimately show ?thesis using ok unfolding rows table_ok_def by (simp add: comp_def)
qed

lemma claims_update:
  assumes ok: "claims_ok ob" and id: "\<And>r. ident (f r) = ident r"
    and lease: "\<And>r. r \<in> set (ob_rows ob) \<Longrightarrow> P r \<Longrightarrow> ev_status (f r) = Dispatching \<Longrightarrow>
      ev_status r = Dispatching \<and> ev_claimToken (f r) = ev_claimToken r \<and> ev_attempts (f r) = ev_attempts r"
  shows "claims_ok (ob\<lparr>ob_rows := update_rows P f (ob_rows ob)\<rparr>)"
  unfolding claims_ok_def
proof (intro ballI impI)
  fix r assume "r \<in> set (ob_rows (ob\<lparr>ob_rows := update_rows P f (ob_rows ob)\<rparr>))" and d: "ev_status r = Dispatching"
  then have "r \<in> set (update_rows P f (ob_rows ob))" by simp
  then obtain s where "s \<in> set (ob_rows ob)" "ev_status s = Dispatching" "ev_id s = ev_id r"
      "ev_claimToken s = ev_claimToken r" "ev_attempts s = ev_attempts r"
  proof (cases rule: in_update_rowsE)
    case (1 s)
    then show ?thesis using lease [of s] d ident_id [OF id] that by metis
  next
    case 2
    then show ?thesis using d that by blast
  qed
  then show "(\<exists>c \<in> set (ob_claims (ob\<lparr>ob_rows := update_rows P f (ob_rows ob)\<rparr>)). ev_claimToken c = ev_claimToken r) \<and>
      (\<forall>c \<in> set (ob_claims (ob\<lparr>ob_rows := update_rows P f (ob_rows ob)\<rparr>)). ev_id c = ev_id r \<longrightarrow>
         ev_claimToken c = ev_claimToken r \<longrightarrow> ev_attempts c = ev_attempts r)"
    using ok unfolding claims_ok_def by simp metis
qed

subsection \<open>Each statement keeps it\<close>

lemmas row_defs = row_ok_def settled_def started_def SETTLED_STATUSES_def ident_def

lemma sweep_ok:
  assumes "dispatch_ok m R ob" shows "dispatch_ok m R (snd (deadLetterAbandonedClaims now m ob))"
  unfolding dispatch_ok_def deadLetterAbandonedClaims_def snd_conv
proof
  show "claims_ok (ob\<lparr>ob_rows := update_rows (abandoned now m)
           (\<lambda>e. e\<lparr>ev_status := Dead, ev_lockedUntil := None, ev_claimToken := None,
                  ev_lastError := Some ''LeaseExpired: the claim was abandoned on its final attempt (worker crash or hang)''\<rparr>)
           (ob_rows ob)\<rparr>)"
    using assms by (intro claims_update) (auto simp: dispatch_ok_def ident_def)
qed (use assms in \<open>auto intro!: table_update simp: dispatch_ok_def row_defs abandoned_def\<close>)

lemma renew_ok:
  assumes "dispatch_ok m R ob" shows "dispatch_ok m R (snd (renewLease c t ob))"
  unfolding dispatch_ok_def renewLease_def snd_conv
proof
  show "claims_ok (ob\<lparr>ob_rows := update_rows (holds_claim c) (\<lambda>r. r\<lparr>ev_lockedUntil := Some t\<rparr>) (ob_rows ob)\<rparr>)"
    using assms by (intro claims_update) (auto simp: dispatch_ok_def ident_def)
qed (use assms in \<open>auto intro!: table_update simp: dispatch_ok_def row_defs holds_claim_def\<close>)

text \<open>Settling: the new row is no longer dispatched, and is retried only when an attempt is left.\<close>

lemma settle_ok:
  assumes ok: "dispatch_ok m R ob" and c: "c \<in> set (ob_claims ob)" and id: "\<And>r. ident (f r) = ident r"
    and row: "\<And>r. row_ok m R r \<Longrightarrow> ev_status r = Dispatching \<Longrightarrow> ev_attempts r = ev_attempts c \<Longrightarrow> row_ok m R (f r)"
    and out: "\<And>r. ev_status (f r) \<noteq> Dispatching"
  shows "dispatch_ok m R (snd (settle c f ob))"
  unfolding dispatch_ok_def settle_def snd_conv
proof
  show "claims_ok (ob\<lparr>ob_rows := update_rows (holds_claim c) f (ob_rows ob)\<rparr>)"
    using ok out by (intro claims_update [OF _ id]) (auto simp: dispatch_ok_def)
  have at: "ev_attempts r = ev_attempts c" if "r \<in> set (ob_rows ob)" "holds_claim c r" for r
    using ok c that by (auto simp: dispatch_ok_def claims_ok_def holds_claim_def)
  have "table_ok m R (update_rows (holds_claim c) f (ob_rows ob))"
    using ok row at
    by (intro table_update [OF _ id]) (auto simp: dispatch_ok_def holds_claim_def settled_def started_def SETTLED_STATUSES_def)
  then show "table_ok m R (ob_rows (ob\<lparr>ob_rows := update_rows (holds_claim c) f (ob_rows ob)\<rparr>))" by simp
qed

lemma publish_ok: "dispatch_ok m R ob \<Longrightarrow> c \<in> set (ob_claims ob) \<Longrightarrow> dispatch_ok m R (snd (settle c (to_published t) ob))"
  by (rule settle_ok) (auto simp: to_published_def ident_def row_ok_def)

lemma dead_ok: "dispatch_ok m R ob \<Longrightarrow> c \<in> set (ob_claims ob) \<Longrightarrow> dispatch_ok m R (snd (settle c (to_dead err) ob))"
  by (rule settle_ok) (auto simp: to_dead_def ident_def row_ok_def)

lemma retry_ok:
  "dispatch_ok m R ob \<Longrightarrow> c \<in> set (ob_claims ob) \<Longrightarrow> ev_attempts c < m \<Longrightarrow>
   dispatch_ok m R (snd (settle c (to_retry t err) ob))"
  by (rule settle_ok) (auto simp: to_retry_def ident_def row_ok_def)

lemma update_dead_ok:
  assumes "dispatch_ok m R ob" and id: "\<And>r. ident (f r) = ident r"
    and row: "\<And>r. row_ok m R r \<Longrightarrow> ev_status r = Dead \<Longrightarrow> ev_replayCount r = n \<Longrightarrow> row_ok m R (f r)"
    and out: "\<And>r. ev_status (f r) \<noteq> Dispatching"
  shows "dispatch_ok m R (snd (update_dead org i n f ob))"
  unfolding dispatch_ok_def update_dead_def snd_conv
proof
  show "claims_ok (ob\<lparr>ob_rows := update_rows (is_dead_at org i n) f (ob_rows ob)\<rparr>)"
    using assms(1) out by (intro claims_update [OF _ id]) (auto simp: dispatch_ok_def)
  have "table_ok m R (update_rows (is_dead_at org i n) f (ob_rows ob))"
    using assms(1) row
    by (intro table_update [OF _ id]) (auto simp: dispatch_ok_def is_dead_at_def settled_def started_def SETTLED_STATUSES_def)
  then show "table_ok m R (ob_rows (ob\<lparr>ob_rows := update_rows (is_dead_at org i n) f (ob_rows ob)\<rparr>))" by simp
qed

lemma replay_one_ok:
  "dispatch_ok m R ob \<Longrightarrow> 0 < m \<Longrightarrow> n < R \<Longrightarrow> dispatch_ok m R (snd (update_dead org i n (to_replay now) ob))"
  by (rule update_dead_ok) (auto simp: to_replay_def ident_def row_ok_def)

lemma discard_one_ok:
  "dispatch_ok m R ob \<Longrightarrow> dispatch_ok m R (snd (update_dead org i n (to_discard now) ob))"
  by (rule update_dead_ok) (auto simp: to_discard_def ident_def row_ok_def)

text \<open>Claiming: every candidate has only settled predecessors, and the token is new.\<close>

lemma candidates_claimable:
  "e \<in> set (candidates locked now n m rows) \<Longrightarrow> e \<in> set rows \<and> claimable now m rows e \<and> \<not> locked (ev_id e)"
  unfolding candidates_def by (drule in_set_takeD) simp

lemma claimed_row:
  assumes "distinct (map ev_id rows)" and "r \<in> set rows"
    and "ev_id r \<in> set (map ev_id (candidates locked now n m rows))"
  shows "claimable now m rows r"
proof -
  obtain e where e: "e \<in> set (candidates locked now n m rows)" "ev_id e = ev_id r" using assms(3) by auto
  then have "e \<in> set rows" "claimable now m rows e" using candidates_claimable by blast+
  moreover from this have "e = r" using assms(1,2) e(2) by (metis distinct_map inj_onD)
  ultimately show ?thesis by simp
qed

lemma claim_ok:
  assumes ok: "dispatch_ok m R ob" and fresh: "\<forall>c \<in> set (ob_claims ob). ev_claimToken c \<noteq> Some tok"
  shows "dispatch_ok m R (snd (claimDomainEvents locked now n lease m tok ob))"
proof -
  define ids where "ids = set (map ev_id (candidates locked now n m (ob_rows ob)))"
  define rows where "rows = update_rows (\<lambda>e. ev_id e \<in> ids) (take_claim now lease tok) (ob_rows ob)"
  define claimed where "claimed = filter (\<lambda>e. ev_id e \<in> ids) rows"
  have eq: "snd (claimDomainEvents locked now n lease m tok ob) = \<lparr>ob_rows = rows, ob_claims = ob_claims ob @ claimed\<rparr>"
    by (simp add: claimDomainEvents_def Let_def ids_def rows_def claimed_def)
  have tab: "table_ok m R (ob_rows ob)" and cl: "claims_ok ob" using ok by (auto simp: dispatch_ok_def)
  have cand: "claimable now m (ob_rows ob) r" if "r \<in> set (ob_rows ob)" "ev_id r \<in> ids" for r
    using tab that by (intro claimed_row) (auto simp: table_ok_def ids_def)
  have id: "ident (take_claim now lease tok r) = ident r" for r by (simp add: take_claim_def ident_def)
  have "table_ok m R rows"
    unfolding rows_def
  proof (rule table_update [OF tab id])
    fix r assume r: "r \<in> set (ob_rows ob)" "ev_id r \<in> ids"
    note c = cand [OF r]
    show "row_ok m R (take_claim now lease tok r)" if "row_ok m R r"
      using c that by (auto simp: claimable_def take_claim_def row_ok_def)
    show "settled (take_claim now lease tok r)" if "settled r"
      using c that by (auto simp: claimable_def settled_def SETTLED_STATUSES_def)
    show "started r \<or> (\<forall>p \<in> set (ob_rows ob). predecessor p r \<longrightarrow> settled p)"
      using c by (auto simp: claimable_def list_ex_iff settled_def)
  qed
  moreover have "claims_ok \<lparr>ob_rows = rows, ob_claims = ob_claims ob @ claimed\<rparr>"
    unfolding claims_ok_def
  proof (intro ballI impI)
    fix r assume "r \<in> set (ob_rows \<lparr>ob_rows = rows, ob_claims = ob_claims ob @ claimed\<rparr>)" and d: "ev_status r = Dispatching"
    then have r: "r \<in> set rows" by simp
    have dist: "distinct (map ev_id rows)" using calculation by (simp add: table_ok_def)
    have tok: "ev_claimToken c = Some tok" if "c \<in> set claimed" for c
      using that by (auto simp: claimed_def rows_def take_claim_def set_update_rows)
    show "(\<exists>c \<in> set (ob_claims \<lparr>ob_rows = rows, ob_claims = ob_claims ob @ claimed\<rparr>). ev_claimToken c = ev_claimToken r) \<and>
      (\<forall>c \<in> set (ob_claims \<lparr>ob_rows = rows, ob_claims = ob_claims ob @ claimed\<rparr>). ev_id c = ev_id r \<longrightarrow>
         ev_claimToken c = ev_claimToken r \<longrightarrow> ev_attempts c = ev_attempts r)"
    proof (cases "ev_id r \<in> ids")
      case True
      then have "r \<in> set claimed" using r by (simp add: claimed_def)
      moreover have "c = r" if "c \<in> set claimed" "ev_id c = ev_id r" for c
        using dist r that by (metis claimed_def distinct_map filter_is_subset inj_onD subsetD)
      moreover have "ev_claimToken c \<noteq> ev_claimToken r" if "c \<in> set (ob_claims ob)" for c
        using fresh that tok [OF \<open>r \<in> set claimed\<close>] by auto
      ultimately show ?thesis by auto
    next
      case False
      then have "r \<in> set (ob_rows ob)" using r id ident_id unfolding rows_def by (metis in_update_rowsE)
      moreover have "c \<notin> set claimed" if "ev_id c = ev_id r" for c using False that by (auto simp: claimed_def)
      ultimately show ?thesis using cl d unfolding claims_ok_def by simp blast
    qed
  qed
  ultimately show ?thesis by (simp add: eq dispatch_ok_def)
qed

text \<open>Recording a new event: it comes after every event of its aggregate.\<close>

lemma le_max_sequence: "e \<in> set es \<Longrightarrow> ev_sequence e \<le> max_sequence es"
  unfolding max_sequence_def by (metis List.finite_set Max.set_eq_fold Max_ge image_eqI insertI2 list.set_map list.simps(15))

lemma record_ok:
  assumes ok: "dispatch_ok m R ob" and m: "0 < m" and id: "ctx_newId ctx \<notin> ev_id ` set (ob_rows ob)"
    and rec: "recordDomainEvent ext ctx input (ob_rows ob) = Inr (e, dup, rows)"
  shows "dispatch_ok m R (ob\<lparr>ob_rows := rows\<rparr>)"
  using rec
proof (cases rule: record_cases)
  case (fresh spec payload org aggId key)
  have seq: "ev_sequence r < ev_sequence e" if "r \<in> set (ob_rows ob)" "ev_organizationId r = org"
      "ev_aggregateType r = spec_aggregateType spec" "ev_aggregateId r = aggId" for r
  proof -
    have "ev_sequence r \<le> max_sequence (filter (same_aggregate org (spec_aggregateType spec) aggId) (ob_rows ob))"
      using that by (intro le_max_sequence) (simp add: same_aggregate_def)
    then show ?thesis using fresh(3) by simp
  qed
  have e: "ev_organizationId e = org" "ev_aggregateType e = spec_aggregateType spec" "ev_aggregateId e = aggId"
    using fresh(3) by simp_all
  have no: "\<not> predecessor e r" if "r \<in> set (ob_rows ob)" for r
    using seq [OF that] e by (auto simp: predecessor_def)
  have st: "\<not> started e" "row_ok m R e" "ev_status e \<noteq> Dispatching" "ev_id e = ctx_newId ctx" "\<not> predecessor e e"
    using fresh(3) m by (simp_all add: started_def row_ok_def new_event_def predecessor_def)
  have "table_ok m R (ob_rows ob @ [e])"
    using ok st no id by (auto simp: dispatch_ok_def table_ok_def)
  moreover have "claims_ok (ob\<lparr>ob_rows := ob_rows ob @ [e]\<rparr>)"
    using ok st(3) by (auto simp: dispatch_ok_def claims_ok_def)
  ultimately show ?thesis using fresh(5) by (simp add: dispatch_ok_def)
next
  case duplicate
  then show ?thesis using ok by simp
qed

subsection \<open>Every interleaving of statements\<close>

text \<open>
  One statement of any process: a request records an event; a dispatcher sweeps, claims with a new
  token, renews or settles something it claimed at any time before; an administrator replays or
  discards a dead event.
\<close>

inductive outbox_step :: "nat \<Rightarrow> nat \<Rightarrow> outbox \<Rightarrow> outbox \<Rightarrow> bool" for m R where
  recorded: "recordDomainEvent ext ctx input (ob_rows ob) = Inr (e, dup, rows) \<Longrightarrow>
     ctx_newId ctx \<notin> ev_id ` set (ob_rows ob) \<Longrightarrow> outbox_step m R ob (ob\<lparr>ob_rows := rows\<rparr>)"
| swept: "outbox_step m R ob (snd (deadLetterAbandonedClaims now m ob))"
| claimed: "\<forall>c \<in> set (ob_claims ob). ev_claimToken c \<noteq> Some tok \<Longrightarrow>
     outbox_step m R ob (snd (claimDomainEvents locked now n lease m tok ob))"
| renewed: "c \<in> set (ob_claims ob) \<Longrightarrow> outbox_step m R ob (snd (renewLease c t ob))"
| published: "c \<in> set (ob_claims ob) \<Longrightarrow> outbox_step m R ob (snd (settle c (to_published t) ob))"
| dead: "c \<in> set (ob_claims ob) \<Longrightarrow> m \<le> ev_attempts c \<Longrightarrow> outbox_step m R ob (snd (settle c (to_dead err) ob))"
| retried: "c \<in> set (ob_claims ob) \<Longrightarrow> ev_attempts c < m \<Longrightarrow> outbox_step m R ob (snd (settle c (to_retry t err) ob))"
| replayed: "n < R \<Longrightarrow> outbox_step m R ob (snd (update_dead org i n (to_replay now) ob))"
| discarded: "outbox_step m R ob (snd (update_dead org i n (to_discard now) ob))"

lemma step_ok:
  assumes "outbox_step m R ob ob'" and "dispatch_ok m R ob" and "0 < m"
  shows "dispatch_ok m R ob'"
  using assms(1)
proof cases
  case recorded then show ?thesis using record_ok assms(2,3) by blast
next
  case swept then show ?thesis using sweep_ok assms(2) by blast
next
  case claimed then show ?thesis using claim_ok assms(2) by blast
next
  case renewed then show ?thesis using renew_ok assms(2) by blast
next
  case published then show ?thesis using publish_ok assms(2) by blast
next
  case dead then show ?thesis using dead_ok assms(2) by blast
next
  case retried then show ?thesis using retry_ok assms(2) by blast
next
  case replayed then show ?thesis using replay_one_ok assms(2,3) by blast
next
  case discarded then show ?thesis using discard_one_ok assms(2) by blast
qed

lemma steps_ok: "(outbox_step m R)\<^sup>*\<^sup>* ob ob' \<Longrightarrow> dispatch_ok m R ob \<Longrightarrow> 0 < m \<Longrightarrow> dispatch_ok m R ob'"
  by (induction rule: rtranclp_induct) (auto intro: step_ok)

lemma empty_outbox_ok: "dispatch_ok m R \<lparr>ob_rows = [], ob_claims = []\<rparr>"
  by (simp add: dispatch_ok_def table_ok_def claims_ok_def)

text \<open>Two in-flight events of one aggregate would each have to be settled before the other.\<close>

lemma one_in_flight:
  assumes "table_ok m R rows" and "e \<in> set rows" and "e' \<in> set rows"
    and "ev_status e = Dispatching" and "ev_status e' = Dispatching"
    and "ev_organizationId e' = ev_organizationId e" and "ev_aggregateType e' = ev_aggregateType e"
    and "ev_aggregateId e' = ev_aggregateId e"
  shows "ev_sequence e' = ev_sequence e"
proof (rule ccontr)
  assume "ev_sequence e' \<noteq> ev_sequence e"
  then have "predecessor e e' \<or> predecessor e' e" using assms by (auto simp: predecessor_def)
  moreover have "\<not> settled e" "\<not> settled e'" "started e" "started e'"
    using assms by (simp_all add: settled_def started_def SETTLED_STATUSES_def)
  ultimately show False using assms(1-3) by (auto simp: table_ok_def)
qed

text \<open>A dispatcher is handed an event only after its predecessors, and settled events stay settled.\<close>

definition handed_ok :: "outbox \<Rightarrow> bool" where
  "handed_ok ob \<longleftrightarrow>
     (\<forall>c \<in> set (ob_claims ob). ident c \<in> ident ` set (ob_rows ob) \<and> (\<forall>p \<in> set (ob_rows ob). predecessor p c \<longrightarrow> settled p))"

lemma handed_update:
  assumes "handed_ok ob" and id: "\<And>r. ident (f r) = ident r" and set: "\<And>r. r \<in> set (ob_rows ob) \<Longrightarrow> P r \<Longrightarrow> settled r \<Longrightarrow> settled (f r)"
  shows "handed_ok (ob\<lparr>ob_rows := update_rows P f (ob_rows ob)\<rparr>)"
proof -
  have same: "ident ` set (update_rows P f (ob_rows ob)) = ident ` set (ob_rows ob)"
    unfolding update_rows_def set_map image_image by (rule image_cong) (simp_all add: id)
  have "settled p" if c: "c \<in> set (ob_claims ob)" and p: "p \<in> set (update_rows P f (ob_rows ob))" and "predecessor p c" for c p
    using p
  proof (cases rule: in_update_rowsE)
    case (1 r)
    then have "predecessor r c" using that(3) predecessor_ident [OF id refl] by metis
    then show ?thesis using 1 assms(1) c set by (auto simp: handed_ok_def)
  next
    case 2
    then show ?thesis using assms(1) c that(3) by (simp add: handed_ok_def)
  qed
  then show ?thesis using assms(1) same by (simp add: handed_ok_def)
qed

lemma claim_handed:
  assumes ok: "dispatch_ok m R ob" and "handed_ok ob"
  shows "handed_ok (snd (claimDomainEvents locked now n lease m tok ob))"
proof -
  define ids where "ids = set (map ev_id (candidates locked now n m (ob_rows ob)))"
  define ob1 where "ob1 = ob\<lparr>ob_rows := update_rows (\<lambda>e. ev_id e \<in> ids) (take_claim now lease tok) (ob_rows ob)\<rparr>"
  define claimed where "claimed = filter (\<lambda>e. ev_id e \<in> ids) (ob_rows ob1)"
  have eq: "snd (claimDomainEvents locked now n lease m tok ob) = ob1\<lparr>ob_claims := ob_claims ob @ claimed\<rparr>"
    by (simp add: claimDomainEvents_def Let_def ids_def ob1_def claimed_def)
  have cand: "claimable now m (ob_rows ob) r" if "r \<in> set (ob_rows ob)" "ev_id r \<in> ids" for r
    using ok that by (intro claimed_row) (auto simp: dispatch_ok_def table_ok_def ids_def)
  have id: "ident (take_claim now lease tok r) = ident r" for r by (simp add: take_claim_def ident_def)
  have keep: "settled (take_claim now lease tok r)" if "r \<in> set (ob_rows ob)" "ev_id r \<in> ids" "settled r" for r
    using cand [OF that(1,2)] that(3) by (auto simp: claimable_def settled_def SETTLED_STATUSES_def)
  have h1: "handed_ok ob1" unfolding ob1_def using assms(2) by (rule handed_update [OF _ id keep])
  have "settled p" if c: "c \<in> set claimed" and p: "p \<in> set (ob_rows ob1)" "predecessor p c" for c p
  proof -
    obtain r where r: "r \<in> set (ob_rows ob)" "ev_id r \<in> ids" "c = take_claim now lease tok r"
      using c ident_id [OF id] unfolding claimed_def ob1_def by (auto simp: set_update_rows)
    have pred: "settled q" if "q \<in> set (ob_rows ob)" "predecessor q r" for q
      using cand [OF r(1,2)] that by (auto simp: claimable_def list_ex_iff settled_def)
    have "p \<in> set (update_rows (\<lambda>e. ev_id e \<in> ids) (take_claim now lease tok) (ob_rows ob))" using p(1) by (simp add: ob1_def)
    then show ?thesis
    proof (cases rule: in_update_rowsE)
      case (1 q)
      then have "predecessor q r" using p(2) r(3) predecessor_ident [OF id id] by metis
      then show ?thesis using 1 pred keep by blast
    next
      case 2
      then show ?thesis using p(2) r(3) pred predecessor_ident [OF refl id] by metis
    qed
  qed
  then show ?thesis using h1 by (auto simp: eq handed_ok_def claimed_def ob1_def)
qed

lemma record_handed:
  assumes "handed_ok ob" and "recordDomainEvent ext ctx input (ob_rows ob) = Inr (e, dup, rows)"
  shows "handed_ok (ob\<lparr>ob_rows := rows\<rparr>)"
  using assms(2)
proof (cases rule: record_cases)
  case (fresh spec payload org aggId key)
  have seq: "ev_sequence r < ev_sequence e" if "r \<in> set (ob_rows ob)" "ev_organizationId r = ev_organizationId e"
      "ev_aggregateType r = ev_aggregateType e" "ev_aggregateId r = ev_aggregateId e" for r
  proof -
    have "ev_sequence r \<le> max_sequence (filter (same_aggregate org (spec_aggregateType spec) aggId) (ob_rows ob))"
      using that fresh(3) by (intro le_max_sequence) (simp add: same_aggregate_def)
    then show ?thesis using fresh(3) by simp
  qed
  have "\<not> predecessor e c" if "c \<in> set (ob_claims ob)" for c
  proof -
    obtain r where "r \<in> set (ob_rows ob)" "ident c = ident r" using assms(1) \<open>c \<in> _\<close> unfolding handed_ok_def by blast
    then show ?thesis using seq [of r] by (auto simp: predecessor_def ident_def)
  qed
  then show ?thesis using assms(1) fresh(5) by (auto simp: handed_ok_def)
next
  case duplicate
  then show ?thesis using assms(1) by simp
qed

lemma step_handed:
  assumes "outbox_step m R ob ob'" and "dispatch_ok m R ob" and "handed_ok ob"
  shows "handed_ok ob'"
  using assms(1)
proof cases
  case recorded then show ?thesis using record_handed assms(3) by blast
next
  case claimed then show ?thesis using claim_handed assms(2,3) by blast
qed (use assms(3) in \<open>auto intro!: handed_update
      simp: deadLetterAbandonedClaims_def renewLease_def settle_def update_dead_def to_published_def to_dead_def to_retry_def to_replay_def
        to_discard_def abandoned_def holds_claim_def is_dead_at_def ident_def settled_def SETTLED_STATUSES_def\<close>)

lemma steps_handed:
  "(outbox_step m R)\<^sup>*\<^sup>* ob ob' \<Longrightarrow> dispatch_ok m R ob \<Longrightarrow> 0 < m \<Longrightarrow> handed_ok ob \<Longrightarrow> handed_ok ob'"
  by (induction rule: rtranclp_induct) (auto intro: step_handed steps_ok)

text \<open>C4: Order, under any interleaving of requests, dispatchers (also crashed or slow ones) and administrators,
  as the event table records it: an event that a dispatcher was ever handed, or that is marked as dispatching or
  published, has only predecessors (earlier events of its aggregate) that are marked as published or discarded, and
  no two events of an aggregate are marked as dispatching at once. It says nothing of when the handlers run: a
  dispatcher that has lost its lease may still run the handlers of an event whose successors are already published.\<close>

theorem events_published_in_order:
  assumes "(outbox_step m R)\<^sup>*\<^sup>* \<lparr>ob_rows = [], ob_claims = []\<rparr> ob" and "0 < m" and "p \<in> set (ob_rows ob)"
    and "e \<in> set (ob_claims ob) \<or> e \<in> set (ob_rows ob) \<and> ev_status e \<in> {Dispatching, Published}"
    and "ev_organizationId p = ev_organizationId e" and "ev_aggregateType p = ev_aggregateType e"
    and "ev_aggregateId p = ev_aggregateId e"
  shows "(ev_sequence p < ev_sequence e \<longrightarrow> ev_status p \<in> {Published, Discarded}) \<and>
         (e \<in> set (ob_rows ob) \<and> ev_status e = Dispatching \<and> ev_status p = Dispatching \<longrightarrow> ev_sequence p = ev_sequence e)"
proof -
  have tab: "table_ok m R (ob_rows ob)"
    using steps_ok [OF assms(1) empty_outbox_ok assms(2)] by (simp add: dispatch_ok_def)
  have handed: "handed_ok ob"
    by (rule steps_handed [OF assms(1) empty_outbox_ok assms(2)]) (simp add: handed_ok_def)
  have "ev_status p \<in> {Published, Discarded}" if "ev_sequence p < ev_sequence e"
  proof -
    have "predecessor p e" using that assms(5-7) by (simp add: predecessor_def)
    then have "settled p" using tab handed assms(3,4) by (auto simp: table_ok_def handed_ok_def started_def)
    then show ?thesis by (auto simp: settled_def SETTLED_STATUSES_def)
  qed
  moreover have "ev_sequence p = ev_sequence e" if "e \<in> set (ob_rows ob)" "ev_status e = Dispatching" "ev_status p = Dispatching"
    by (rule one_in_flight [OF tab that(1) assms(3) that(2,3) assms(5-7)])
  ultimately show ?thesis by blast
qed

text \<open>Attempts are bounded under any interleaving: no event is delivered more than \<open>m\<close> times between
  replays or replayed more than \<open>R\<close> times, a waiting event still has an attempt left, and a row is
  leased exactly while it is being delivered.\<close>

theorem attempts_bounded:
  assumes "(outbox_step m R)\<^sup>*\<^sup>* \<lparr>ob_rows = [], ob_claims = []\<rparr> ob" and "0 < m" and "e \<in> set (ob_rows ob)"
  shows "ev_attempts e \<le> m \<and> ev_replayCount e \<le> R \<and> (ev_status e = Pending \<longrightarrow> ev_attempts e < m) \<and>
         (ev_status e = Dispatching \<longleftrightarrow> ev_claimToken e \<noteq> None) \<and>
         (ev_status e = Dispatching \<longleftrightarrow> ev_lockedUntil e \<noteq> None)"
proof -
  have "row_ok m R e" using steps_ok [OF assms(1) empty_outbox_ok assms(2)] assms(3) by (simp add: dispatch_ok_def table_ok_def)
  then show ?thesis unfolding row_ok_def by blast
qed

lemma row_kept: "r \<in> set rows \<Longrightarrow> \<not> P r \<Longrightarrow> r \<in> set (update_rows P f rows)"
  by (simp add: set_update_rows)

text \<open>A settled event is final: no later statement of any process changes a published or discarded
  row, not even a dispatcher that lost its lease or an administrator's replay.\<close>

theorem settled_rows_final:
  assumes "outbox_step m R ob ob'" and "distinct (map ev_id (ob_rows ob))"
    and "r \<in> set (ob_rows ob)" and "ev_status r \<in> {Published, Discarded}"
  shows "r \<in> set (ob_rows ob')"
  using assms(1)
proof cases
  case (recorded ext ctx input e dup rows)
  then show ?thesis using assms(3) by (auto elim: record_cases)
next
  case (claimed tok locked now n lease)
  have "\<not> claimable now m (ob_rows ob) r" using assms(4) by (auto simp: claimable_def)
  then have "ev_id r \<notin> set (map ev_id (candidates locked now n m (ob_rows ob)))"
    using claimed_row [OF assms(2,3)] by blast
  then show ?thesis using claimed(1) row_kept [OF assms(3)] by (simp add: claimDomainEvents_def Let_def)
qed (use row_kept [OF assms(3)] assms(4) in \<open>auto simp: deadLetterAbandonedClaims_def abandoned_def renewLease_def settle_def
     holds_claim_def update_dead_def is_dead_at_def\<close>)

text \<open>A dispatcher that lost its lease changes nothing: once the row was claimed again, settled or
  dead-lettered, renewing and settling report failure and leave the table as it is.\<close>

theorem lost_lease_changes_nothing:
  assumes "\<forall>r \<in> set (ob_rows ob). ev_id r = ev_id c \<longrightarrow>
             ev_status r \<noteq> Dispatching \<or> ev_claimToken r \<noteq> ev_claimToken c"
  shows "renewLease c t ob = (False, ob) \<and> settle c data ob = (False, ob)"
proof -
  have no: "\<forall>r \<in> set (ob_rows ob). \<not> holds_claim c r" using assms by (auto simp: holds_claim_def)
  then have "count_rows (holds_claim c) (ob_rows ob) = 0" by (simp add: count_rows_0_iff)
  then show ?thesis using update_rows_none [OF no] by (simp add: renewLease_def settle_def)
qed

subsection \<open>A dispatcher run is a sequence of such statements\<close>

text \<open>
  What a run relies on: the other processes only take steps, no claim token is made twice, and the
  others do not make this dispatcher's tokens.
\<close>

definition env_ok :: "nat \<Rightarrow> nat \<Rightarrow> dispatch_env \<Rightarrow> bool" where
  "env_ok m R env \<longleftrightarrow>
     inj (de_uuid env) \<and>
     (\<forall>k ob. (outbox_step m R)\<^sup>*\<^sup>* ob (de_others env k ob) \<and>
        (\<forall>c \<in> set (ob_claims (de_others env k ob)). \<forall>j. ev_claimToken c = Some (de_uuid env j) \<longrightarrow> c \<in> set (ob_claims ob)))"

text \<open>No token of the run's future is in use.\<close>

definition fresh_run :: "dispatch_env \<Rightarrow> run \<Rightarrow> bool" where
  "fresh_run env r \<longleftrightarrow> (\<forall>c \<in> set (ob_claims (snd r)). \<forall>j \<ge> fst r. ev_claimToken c \<noteq> Some (de_uuid env j))"

definition runs_to :: "nat \<Rightarrow> nat \<Rightarrow> dispatch_env \<Rightarrow> run \<Rightarrow> run \<Rightarrow> bool" where
  "runs_to m R env r r' \<longleftrightarrow>
     (outbox_step m R)\<^sup>*\<^sup>* (snd r) (snd r') \<and> set (ob_claims (snd r)) \<subseteq> set (ob_claims (snd r')) \<and>
     (fresh_run env r \<longrightarrow> fresh_run env r')"

lemma runs_to_trans: "runs_to m R env r r1 \<Longrightarrow> runs_to m R env r1 r2 \<Longrightarrow> runs_to m R env r r2"
  unfolding runs_to_def by (auto intro: rtranclp_trans)

lemma runs_to_refl [simp]: "runs_to m R env r r"
  by (simp add: runs_to_def)

lemma step_claims: "outbox_step m R ob ob' \<Longrightarrow> set (ob_claims ob) \<subseteq> set (ob_claims ob')"
  by (erule outbox_step.cases)
    (auto simp: deadLetterAbandonedClaims_def claimDomainEvents_def renewLease_def settle_def update_dead_def Let_def)

lemma steps_claims: "(outbox_step m R)\<^sup>*\<^sup>* ob ob' \<Longrightarrow> set (ob_claims ob) \<subseteq> set (ob_claims ob')"
  by (induction rule: rtranclp_induct) (auto dest: step_claims)

lemma others_claims: "env_ok m R env \<Longrightarrow> c \<in> set (ob_claims ob) \<Longrightarrow> c \<in> set (ob_claims (de_others env k ob))"
  using steps_claims unfolding env_ok_def by blast

lemma statement_snd: "statement env f r = (x, r') \<Longrightarrow> snd r' = snd (f (de_others env (fst r) (snd r))) \<and> fst r' = Suc (fst r)"
  by (auto simp: statement_def split: prod.splits)

lemma statement_runs:
  assumes env: "env_ok m R env" and st: "statement env f r = (x, r')"
    and step: "outbox_step m R (de_others env (fst r) (snd r)) (snd (f (de_others env (fst r) (snd r))))"
    and keep: "ob_claims (snd (f (de_others env (fst r) (snd r)))) = ob_claims (de_others env (fst r) (snd r))"
  shows "runs_to m R env r r'"
proof -
  let ?ob = "de_others env (fst r) (snd r)"
  have "(outbox_step m R)\<^sup>*\<^sup>* (snd r) ?ob" using env by (simp add: env_ok_def)
  then have steps: "(outbox_step m R)\<^sup>*\<^sup>* (snd r) (snd r')"
    using step statement_snd [OF st] by (simp add: rtranclp.rtrancl_into_rtrancl)
  have "fresh_run env r'" if "fresh_run env r"
    unfolding fresh_run_def
  proof (intro ballI allI impI notI)
    fix c j assume c: "c \<in> set (ob_claims (snd r'))" "fst r' \<le> j" "ev_claimToken c = Some (de_uuid env j)"
    then have "c \<in> set (ob_claims ?ob)" using statement_snd [OF st] keep by simp
    then have "c \<in> set (ob_claims (snd r))" using env c(3) unfolding env_ok_def by blast
    then show False using that c(2,3) statement_snd [OF st] by (auto simp: fresh_run_def)
  qed
  then show ?thesis using steps steps_claims [OF steps] by (simp add: runs_to_def)
qed

lemma renew_runs:
  assumes "env_ok m R env" and "c \<in> set (ob_claims (snd r))" and "statement env (renewLease c t) r = (x, r')"
  shows "runs_to m R env r r'"
  using others_claims [OF assms(1,2)]
  by (intro statement_runs [OF assms(1,3)] outbox_step.renewed) (auto simp: renewLease_def)

lemma settle_runs:
  assumes "env_ok m R env" and "c \<in> set (ob_claims (snd r))" and "statement env (settle c f) r = (x, r')"
    and "\<And>ob. c \<in> set (ob_claims ob) \<Longrightarrow> outbox_step m R ob (snd (settle c f ob))"
  shows "runs_to m R env r r'"
  using others_claims [OF assms(1,2)]
  by (intro statement_runs [OF assms(1,3)] assms(4)) (auto simp: settle_def)

lemma dispatch_event_runs:
  assumes env: "env_ok m R env" and m: "do_maxAttempts opts = m" and c: "c \<in> set (ob_claims (snd r))"
  shows "runs_to m R env r (snd (dispatch_event env opts c (sm, r)))"
proof -
  obtain ok r1 where st: "statement env (renewLease c (de_now env (fst r) + do_leaseMs opts)) r = (ok, r1)" by (metis prod.exhaust)
  have r1: "runs_to m R env r r1" by (rule renew_runs [OF env c st])
  then have c1: "c \<in> set (ob_claims (snd r1))" using c by (auto simp: runs_to_def)
  have "runs_to m R env r1 r2" if "statement env (settle c (to_published t)) r1 = (b, r2)" for t b r2
    using settle_runs [OF env c1 that] outbox_step.published by blast
  moreover have "runs_to m R env r1 r2" if "statement env (settle c (to_dead err)) r1 = (b, r2)" "m \<le> ev_attempts c" for err b r2
    using settle_runs [OF env c1 that(1)] outbox_step.dead that(2) by blast
  moreover have "runs_to m R env r1 r2" if "statement env (settle c (to_retry t err)) r1 = (b, r2)" "ev_attempts c < m" for t err b r2
    using settle_runs [OF env c1 that(1)] outbox_step.retried that(2) by blast
  ultimately have "runs_to m R env r1 (snd (dispatch_event env opts c (sm, r)))"
    using m by (auto simp: dispatch_event_def st Let_def split: bool.splits option.splits prod.splits)
  then show ?thesis using r1 runs_to_trans by blast
qed

lemma dispatch_batch_runs:
  assumes env: "env_ok m R env" and m: "do_maxAttempts opts = m"
  shows "set es \<subseteq> set (ob_claims (snd r)) \<Longrightarrow> runs_to m R env r (snd (dispatch_batch env opts es (sm, r)))"
proof (induction es arbitrary: sm r)
  case (Cons e es)
  obtain sm1 r1 where d: "dispatch_event env opts e (sm, r) = (sm1, r1)" by (metis prod.exhaust)
  have r1: "runs_to m R env r r1" using dispatch_event_runs [OF env m, of e r sm] Cons.prems d by simp
  then have "set es \<subseteq> set (ob_claims (snd r1))" using Cons.prems by (auto simp: runs_to_def)
  then have "runs_to m R env r1 (snd (dispatch_batch env opts es (sm1, r1)))" by (rule Cons.IH)
  then show ?case using r1 runs_to_trans d by auto
qed simp

lemma claim_runs:
  assumes env: "env_ok m R env" and fresh: "fresh_run env r"
    and st: "statement env (claimDomainEvents locked now n lease m (de_uuid env (fst r))) r = (claimed, r1)"
  shows "runs_to m R env r r1" and "set claimed \<subseteq> set (ob_claims (snd r1))"
proof -
  let ?ob = "de_others env (fst r) (snd r)" and ?tok = "de_uuid env (fst r)"
  note s = statement_snd [OF st]
  have res: "ob_claims (snd r1) = ob_claims ?ob @ claimed"
    using s st by (auto simp: statement_def claimDomainEvents_def Let_def split: prod.splits)
  then show "set claimed \<subseteq> set (ob_claims (snd r1))" by simp
  have new: "\<forall>c \<in> set (ob_claims ?ob). ev_claimToken c \<noteq> Some ?tok"
    using env fresh unfolding env_ok_def fresh_run_def by blast
  have "(outbox_step m R)\<^sup>*\<^sup>* (snd r) ?ob" using env by (simp add: env_ok_def)
  then have steps: "(outbox_step m R)\<^sup>*\<^sup>* (snd r) (snd r1)"
    using outbox_step.claimed [OF new] s by (simp add: rtranclp.rtrancl_into_rtrancl)
  have tok: "ev_claimToken c = Some ?tok" if "c \<in> set claimed" for c
    using st that
    by (auto simp: statement_def claimDomainEvents_def Let_def take_claim_def set_update_rows split: prod.splits)
  have "fresh_run env r1"
    unfolding fresh_run_def
  proof (intro ballI allI impI notI)
    fix c j assume c: "c \<in> set (ob_claims (snd r1))" "fst r1 \<le> j" "ev_claimToken c = Some (de_uuid env j)"
    show False
    proof (cases "c \<in> set claimed")
      case True
      then have "de_uuid env j = ?tok" using c(3) tok by simp
      then show False using env c(2) s unfolding env_ok_def inj_def by fastforce
    next
      case False
      then have "c \<in> set (ob_claims ?ob)" using c(1) res by simp
      then have "c \<in> set (ob_claims (snd r))" using env c(3) unfolding env_ok_def by blast
      then show False using fresh c(2,3) s by (auto simp: fresh_run_def)
    qed
  qed
  then show "runs_to m R env r r1" using steps steps_claims [OF steps] by (simp add: runs_to_def)
qed

lemma dispatch_rounds_runs:
  assumes env: "env_ok m R env" and m: "do_maxAttempts opts = m"
  shows "fresh_run env r \<Longrightarrow> runs_to m R env r (snd (dispatch_rounds env opts n (sm, r)))"
proof (induction n arbitrary: sm r)
  case (Suc n)
  obtain claimed r1 where st: "statement env (claimDomainEvents (de_locked env (fst r)) (de_now env (fst r))
      (do_batchSize opts) (do_leaseMs opts) m (de_uuid env (fst r))) r = (claimed, r1)" by (metis prod.exhaust)
  note cl = claim_runs [OF env Suc.prems st]
  define sm1 where "sm1 = sm\<lparr>sm_claimed := sm_claimed sm + length claimed\<rparr>"
  obtain sm2 r2 where d: "dispatch_batch env opts claimed (sm1, r1) = (sm2, r2)" by (metis prod.exhaust)
  have b: "runs_to m R env r1 r2" using dispatch_batch_runs [OF env m cl(2), of sm1] d by simp
  then have "fresh_run env r2" using cl(1) Suc.prems by (auto simp: runs_to_def)
  then have "runs_to m R env r (snd (dispatch_rounds env opts n (sm2, r2)))"
    using Suc.IH cl(1) b runs_to_trans by blast
  then show ?case using cl(1) d by (simp add: m st sm1_def)
qed simp

lemma dispatch_run_steps:
  assumes env: "env_ok (do_maxAttempts opts) R env" and fresh: "fresh_run env (0, ob)"
    and run: "dispatchDomainEvents env opts ob = Inr (sm, r)"
  shows "(outbox_step (do_maxAttempts opts) R)\<^sup>*\<^sup>* ob (snd r)"
proof -
  let ?m = "do_maxAttempts opts"
  obtain n r1 where st: "statement env (deadLetterAbandonedClaims (de_now env 0) ?m) (0, ob) = (n, r1)"
    by (metis prod.exhaust)
  have sweep: "runs_to ?m R env (0, ob) r1"
    by (rule statement_runs [OF env st outbox_step.swept]) (simp add: deadLetterAbandonedClaims_def)
  from this have "fresh_run env r1" using fresh by (simp add: runs_to_def)
  moreover have "(sm, r) = dispatch_rounds env opts (do_maxRounds opts)
      (\<lparr>sm_claimed = 0, sm_published = 0, sm_retried = 0, sm_dead = 0, sm_leaseLost = 0, sm_abandoned = n\<rparr>, r1)"
    using run st by (auto simp: dispatchDomainEvents_def split: if_splits)
  ultimately have "runs_to ?m R env r1 r" using dispatch_rounds_runs [OF env refl] by (metis snd_conv)
  from runs_to_trans [OF sweep this] show ?thesis by (simp add: runs_to_def)
qed

text \<open>C25: A dispatcher run, whatever the subscribers do and whatever the other processes do between its
  statements, is a sequence of the statements above: the guarantees on order, attempts and leases
  hold at every moment of it.\<close>

theorem dispatch_is_steps:
  assumes "env_ok (do_maxAttempts opts) R env" and "fresh_run env (0, ob)"
    and "dispatchDomainEvents env opts ob = Inr (sm, r)"
  shows "(outbox_step (do_maxAttempts opts) R)\<^sup>*\<^sup>* ob (snd r)"
  using assms by (rule dispatch_run_steps)

subsection \<open>Accounting\<close>

definition outcomes :: "summary \<Rightarrow> nat" where
  "outcomes sm = sm_published sm + sm_retried sm + sm_dead sm + sm_leaseLost sm"

lemma dispatch_event_counts:
  "outcomes (fst (dispatch_event env opts e st)) = Suc (outcomes (fst st)) \<and>
   sm_claimed (fst (dispatch_event env opts e st)) = sm_claimed (fst st)"
  by (auto simp: dispatch_event_def outcomes_def Let_def split: prod.splits bool.splits option.splits)

lemma dispatch_batch_counts:
  "outcomes (fst (dispatch_batch env opts es st)) = outcomes (fst st) + length es \<and>
   sm_claimed (fst (dispatch_batch env opts es st)) = sm_claimed (fst st)"
  by (induction es arbitrary: st) (simp_all add: dispatch_event_counts)

lemma dispatch_rounds_counts:
  "outcomes (fst st) = sm_claimed (fst st) \<Longrightarrow>
   outcomes (fst (dispatch_rounds env opts n st)) = sm_claimed (fst (dispatch_rounds env opts n st))"
proof (induction n arbitrary: st)
  case (Suc n)
  obtain sm r where st: "st = (sm, r)" by (metis prod.exhaust)
  obtain claimed r1 where c: "statement env (claimDomainEvents (de_locked env (fst r)) (de_now env (fst r))
      (do_batchSize opts) (do_leaseMs opts) (do_maxAttempts opts) (de_uuid env (fst r))) r = (claimed, r1)"
    by (metis prod.exhaust)
  have "outcomes (fst (dispatch_batch env opts claimed (sm\<lparr>sm_claimed := sm_claimed sm + length claimed\<rparr>, r1)))
      = sm_claimed (fst (dispatch_batch env opts claimed (sm\<lparr>sm_claimed := sm_claimed sm + length claimed\<rparr>, r1)))"
    using Suc.prems dispatch_batch_counts [of env opts claimed "(sm\<lparr>sm_claimed := sm_claimed sm + length claimed\<rparr>, r1)"]
    by (simp add: st outcomes_def)
  from Suc.IH [OF this] show ?case using Suc.prems by (simp add: st c)
qed simp

text \<open>A run accounts for every event it claimed exactly once: published, retried, dead-lettered or
  lost to another dispatcher.\<close>

theorem dispatch_accounts:
  assumes "dispatchDomainEvents env opts ob = Inr (sm, r)"
  shows "sm_claimed sm = sm_published sm + sm_retried sm + sm_dead sm + sm_leaseLost sm"
proof -
  obtain n r1 where st: "statement env (deadLetterAbandonedClaims (de_now env 0) (do_maxAttempts opts)) (0, ob) = (n, r1)"
    by (metis prod.exhaust)
  let ?s0 = "\<lparr>sm_claimed = 0, sm_published = 0, sm_retried = 0, sm_dead = 0, sm_leaseLost = 0, sm_abandoned = n\<rparr>"
  have "(sm, r) = dispatch_rounds env opts (do_maxRounds opts) (?s0, r1)"
    using assms st by (auto simp: dispatchDomainEvents_def split: if_splits)
  moreover have "outcomes (fst (?s0, r1)) = sm_claimed (fst (?s0, r1))" by (simp add: outcomes_def)
  ultimately show ?thesis
    using dispatch_rounds_counts [of "(?s0, r1)" env opts "do_maxRounds opts"] by (metis fst_conv outcomes_def)
qed

subsection \<open>Backoff\<close>

text \<open>The delay before the next attempt in whole milliseconds, without jitter.\<close>

definition backoff_ceiling :: "nat \<Rightarrow> int \<Rightarrow> int \<Rightarrow> int" where
  "backoff_ceiling attempts base limit = min limit (base * 2 ^ min (attempts - 1) 30)"

lemma round_binary64_near:
  assumes "\<bar>q\<bar> \<le> 2 ^ 41" shows "\<bar>round_binary64 q - q\<bar> \<le> 1 / 2 ^ 11"
proof -
  have "\<bar>q\<bar> / 2 ^ 53 \<le> 2 ^ 41 / 2 ^ 53" using assms by (intro divide_right_mono) auto
  then show ?thesis using round_binary64_error [of q] by simp
qed

lemma jittered_value:
  fixes c :: int and j :: rat
  assumes "0 \<le> c" "c \<le> 2 ^ 40" "0 \<le> j" "j \<le> 1"
  obtains v where "js_add (js_div_by (Fin (of_int c)) 2) (js_mul (js_div_by (Fin (of_int c)) 2) (Fin j)) = Fin v"
    and "of_int c / 2 - 1 / 64 \<le> v" and "v \<le> of_int c + 1 / 64"
proof -
  define h where "h = round_binary64 (of_int c / 2)"
  define p where "p = round_binary64 (h * j)"
  have c: "0 \<le> (of_int c :: rat)" "(of_int c :: rat) \<le> 1099511627776"
    using assms(1,2) int_le_rat [of c "2 ^ 40"] by simp_all
  have big: "(2 :: rat) ^ 41 = 2199023255552" "(2 :: rat) ^ 100 = 1267650600228229401496703205376" "(2 :: rat) ^ 11 = 2048"
    by simp_all
  have h: "\<bar>h - of_int c / 2\<bar> \<le> 1 / 2048"
    using round_binary64_near [of "of_int c / 2"] c unfolding h_def big by simp
  have hj: "\<bar>h * j\<bar> \<le> \<bar>h\<bar>" using assms(3,4) by (simp add: abs_mult mult_left_le)
  have hb: "\<bar>h\<bar> \<le> 549755813888 + 1" using h c by linarith
  have p: "\<bar>p - h * j\<bar> \<le> 1 / 2048"
    using round_binary64_near [of "h * j"] hj hb unfolding p_def big by simp
  have lo: "- (1 / 2048) \<le> h * j"
  proof -
    have "(- (1 / 2048)) * 1 \<le> (- (1 / 2048)) * j" using assms(4) by (intro mult_left_mono_neg) auto
    also have "\<dots> \<le> h * j" using h c assms(3) by (intro mult_right_mono) linarith+
    finally show ?thesis by simp
  qed
  have hi: "h * j \<le> of_int c / 2 + 1 / 2048"
  proof -
    have "h * j \<le> (of_int c / 2 + 1 / 2048) * j" using h assms(3) by (intro mult_right_mono) linarith+
    also have "\<dots> \<le> (of_int c / 2 + 1 / 2048) * 1" using c assms(4) by (intro mult_left_mono) linarith+
    finally show ?thesis by simp
  qed
  have s: "\<bar>h + p\<bar> \<le> 2199023255552" using h p hj hb c by linarith
  have e1: "js_div_by (Fin (of_int c)) 2 = Fin h"
    unfolding h_def js_div_by.simps using c by (intro js_of_rat_finite) (simp add: big)
  have e2: "js_mul (Fin h) (Fin j) = Fin p"
    unfolding p_def js_mul.simps using hj hb by (intro js_of_rat_finite) (simp add: big)
  have e3: "js_add (Fin h) (Fin p) = Fin (round_binary64 (h + p))"
    unfolding js_add.simps using s by (intro js_of_rat_finite) (simp add: big)
  have "\<bar>round_binary64 (h + p) - (h + p)\<bar> \<le> 1 / 2048"
    using round_binary64_near [of "h + p"] s unfolding big by simp
  then show ?thesis
    using that [of "round_binary64 (h + p)"] e1 e2 e3 h p lo hi by (simp only: e1 e2 e3)
qed

lemma ceiling_value:
  assumes "0 \<le> base" "base \<le> 2 ^ 22"
  shows "math_min (Fin (of_int limit)) (js_mul (Fin (of_int base)) (Fin (2 ^ min (n - 1) 30))) =
         Fin (of_int (backoff_ceiling n base limit))"
proof -
  let ?k = "base * 2 ^ min (n - 1) 30"
  have "?k \<le> 2 ^ 22 * 2 ^ 30" using assms by (intro mult_mono power_increasing) auto
  then have k: "\<bar>?k\<bar> < 2 ^ 53" "0 \<le> ?k" using assms by simp_all
  have "(of_int \<bar>?k\<bar> :: rat) \<le> of_int (2 ^ 53)" using k by (intro int_le_rat) simp
  then have b: "\<bar>of_int ?k :: rat\<bar> \<le> 2 ^ 100" by simp
  have m: "js_mul (Fin (of_int base)) (Fin (2 ^ min (n - 1) 30)) = js_of_rat (of_int ?k)" by simp
  have "js_mul (Fin (of_int base)) (Fin (2 ^ min (n - 1) 30)) = Fin (of_int ?k)"
    unfolding m js_of_rat_finite [OF b] round_binary64_int [OF k(1)] ..
  moreover have "math_min (Fin (of_int limit)) (Fin (of_int k)) = Fin (of_int (min limit k))" for k
    by (auto simp: math_min_def min_def)
  ultimately show ?thesis by (simp only: backoff_ceiling_def)
qed

text \<open>Retry delays are bounded: the delay after attempt \<open>n\<close> is a whole number of milliseconds between
  half and all of \<open>min maxDelay (base * 2 ^ (n - 1))\<close>, whatever the random source returns.\<close>

theorem backoff_bounds:
  assumes "0 \<le> base" and "base \<le> 2 ^ 22" and "0 \<le> limit" and "limit \<le> 2 ^ 40"
  shows "\<exists>d. computeBackoffMs n base limit random = Fin (of_int d) \<and>
             backoff_ceiling n base limit div 2 \<le> d \<and> d \<le> backoff_ceiling n base limit"
proof -
  let ?c = "backoff_ceiling n base limit"
  define j where "j = min (max random 0) 1"
  have j: "math_min (math_max (Fin random) (Fin 0)) (Fin 1) = Fin j" "0 \<le> j" "j \<le> 1"
    by (simp_all add: math_min_def math_max_def j_def min_def max_def)
  have c: "0 \<le> ?c" "?c \<le> 2 ^ 40" using assms by (simp_all add: backoff_ceiling_def)
  obtain v where v: "js_add (js_div_by (Fin (of_int ?c)) 2) (js_mul (js_div_by (Fin (of_int ?c)) 2) (Fin j)) = Fin v"
      "of_int ?c / 2 - 1 / 64 \<le> v" "v \<le> of_int ?c + 1 / 64"
    by (rule jittered_value [OF c j(2,3)])
  have "computeBackoffMs n base limit random = Fin (of_int \<lfloor>v + 1 / 2\<rfloor>)"
    unfolding computeBackoffMs_def Let_def j(1) ceiling_value [OF assms(1,2)] v(1) by simp
  moreover have "(of_int (?c div 2) :: rat) \<le> of_int ?c / 2"
  proof -
    have "(of_int (2 * (?c div 2)) :: rat) \<le> of_int ?c" by (intro int_le_rat) simp
    then show ?thesis by simp
  qed
  then have "?c div 2 \<le> \<lfloor>v + 1 / 2\<rfloor>" using v(2) by (simp add: le_floor_iff)
  moreover have "\<lfloor>v + 1 / 2\<rfloor> \<le> ?c" using v(3) by (simp add: floor_le_iff)
  ultimately show ?thesis by blast
qed

subsection \<open>An undisturbed run with healthy subscribers publishes everything that is due\<close>















subsection \<open>Replaying\<close>

definition replay_names :: "replay_result \<Rightarrow> string list" where
  "replay_names res = map ev_id (fst res) @ map fst (snd res)"

lemma update_dead_runs:
  assumes "env_ok m R env" and "statement env (update_dead org i n f) r = (x, r')"
    and "\<And>ob. outbox_step m R ob (snd (update_dead org i n f ob))"
  shows "runs_to m R env r r'"
  by (rule statement_runs [OF assms(1,2) assms(3)]) (simp add: update_dead_def)

lemma replay_loop_runs:
  assumes env: "env_ok m R env"
  shows "\<forall>e \<in> set (fst res). ev_replayCount e \<le> R \<Longrightarrow>
    replay_loop env org now R found ids (res, r) = (res', r') \<Longrightarrow>
    runs_to m R env r r' \<and> mset (replay_names res') = mset (replay_names res) + mset ids \<and>
    (\<forall>e \<in> set (fst res'). ev_replayCount e \<le> R)"
proof (induction ids arbitrary: res r)
  case (Cons i ids)
  obtain requeued skipped where res: "res = (requeued, skipped)" by (metis prod.exhaust)
  define step where "step = (case find_row (\<lambda>e. ev_id e = i) found of
            None \<Rightarrow> ((requeued, skipped @ [(i, NotFound)]), r)
          | Some event \<Rightarrow>
              if ev_status event \<noteq> Dead then ((requeued, skipped @ [(i, NotDead)]), r)
              else if R \<le> ev_replayCount event then ((requeued, skipped @ [(i, ReplayLimit)]), r)
              else (case statement env (update_dead org i (ev_replayCount event) (to_replay now)) r of
                      (True, r1) \<Rightarrow>
                        ((requeued @ [event\<lparr>ev_status := Pending, ev_attempts := 0,
                                            ev_replayCount := ev_replayCount event + 1\<rparr>], skipped), r1)
                    | (False, r1) \<Rightarrow> ((requeued, skipped @ [(i, Changed)]), r1)))"
  obtain res1 r1 where s: "step = (res1, r1)" by (metis prod.exhaust)
  have "runs_to m R env r r' " if "statement env (update_dead org i n (to_replay now)) r = (b, r')" "n < R" for n b r'
    using update_dead_runs [OF env that(1)] outbox_step.replayed that(2) by blast
  moreover have "ev_id e = i" if "find_row (\<lambda>e. ev_id e = i) found = Some e" for e
    using find_row_SomeD [OF that] by simp
  ultimately have one: "runs_to m R env r r1" "mset (replay_names res1) = mset (replay_names res) + {#i#}"
      "\<forall>e \<in> set (fst res1). ev_replayCount e \<le> R"
    using s Cons.prems(1) unfolding step_def res
    by (auto simp: replay_names_def split: option.splits if_splits prod.splits bool.splits)
  have "replay_loop env org now R found (i # ids) (res, r) = replay_loop env org now R found ids (res1, r1)"
    using s by (simp add: step_def res)
  then have "replay_loop env org now R found ids (res1, r1) = (res', r')" using Cons.prems(2) by simp
  from Cons.IH [OF one(3) this] show ?case using one(1,2) runs_to_trans by auto
qed simp

text \<open>Replaying dead events: each requested id is either requeued or skipped with a reason, never both and
  none is lost; no event exceeds the replay limit; and the calls are steps like the others, also
  when dispatchers and other administrators run in between.\<close>

theorem replay_accounts:
  assumes env: "env_ok m R env"
    and run: "replayDeadDomainEvents env org now R eventIds ob = Inr ((requeued, skipped), r)"
  shows "mset (map ev_id requeued @ map fst skipped) = mset (distinct_ids eventIds) \<and>
         (\<forall>e \<in> set requeued. ev_replayCount e \<le> R) \<and> (outbox_step m R)\<^sup>*\<^sup>* ob (snd r)"
proof -
  let ?ids = "distinct_ids eventIds"
  obtain found r0 where st: "statement env (find_events org ?ids) (0, ob) = (found, r0)" by (metis prod.exhaust)
  have r0: "snd r0 = de_others env 0 ob" using statement_snd [OF st] by (simp add: find_events_def)
  have res: "replay_loop env org now R found ?ids (([], []), r0) = ((requeued, skipped), r)"
    using run st by (simp add: replayDeadDomainEvents_def Let_def split: if_splits)
  have "runs_to m R env r0 r \<and> mset (replay_names (requeued, skipped)) = mset ?ids \<and> (\<forall>e \<in> set requeued. ev_replayCount e \<le> R)"
    using replay_loop_runs [OF env _ res] by (simp add: replay_names_def)
  moreover have "(outbox_step m R)\<^sup>*\<^sup>* ob (snd r0)" using env r0 by (simp add: env_ok_def)
  ultimately show ?thesis by (auto simp: replay_names_def runs_to_def)
qed

subsection \<open>An example: two events of one run\<close>

definition sample_event2 :: event where
  "sample_event2 = sample_event\<lparr>ev_id := ''ev2'', ev_sequence := 2, ev_idempotencyKey := ''run:run1:2''\<rparr>"

lemma sample_record2:
  "recordDomainEvent sample_externals (sample_ctx\<lparr>ctx_newId := ''ev2''\<rparr>) (sample_input\<lparr>in_idempotencyKey := ''run:run1:2''\<rparr>)
     [sample_event] = Inr (sample_event2, False, [sample_event, sample_event2])"
  by code_simp

definition sample_outbox :: outbox where
  "sample_outbox = \<lparr>ob_rows = [sample_event, sample_event2], ob_claims = []\<rparr>"

definition sample_env :: dispatch_env where
  "sample_env = \<lparr>de_now = (\<lambda>k. 2000), de_random = (\<lambda>k. 1 / 2), de_uuid = (\<lambda>k. replicate k CHR ''t''),
     de_others = (\<lambda>k ob. ob), de_locked = (\<lambda>k i. False), de_organizations = (\<lambda>k. [''org1'']), de_show = (\<lambda>n. ''60000'')\<rparr>"

lemma sample_rows: "ob_rows sample_outbox = [sample_event, sample_event2]"
  "ev_status sample_event = Pending" "ev_status sample_event2 = Pending" "ev_id sample_event = ''ev1''" "ev_id sample_event2 = ''ev2''"
  "ev_nextAttemptAt sample_event = 1000" "ev_nextAttemptAt sample_event2 = 1000"
  "ev_organizationId sample_event = ''org1''" "ev_organizationId sample_event2 = ''org1''"
  by (simp_all add: sample_outbox_def sample_event2_def sample_event_def new_event_def sample_ctx_def)

lemma sample_env_ok: "env_ok m R sample_env"
proof -
  have "inj (\<lambda>k. replicate k CHR ''t'')" by (rule injI) (metis length_replicate)
  then show ?thesis by (simp add: env_ok_def sample_env_def)
qed

lemma sample_fresh: "fresh_run sample_env (0, sample_outbox)"
  by (simp add: fresh_run_def sample_outbox_def)

lemma sample_recorded: "(outbox_step m R)\<^sup>*\<^sup>* \<lparr>ob_rows = [], ob_claims = []\<rparr> sample_outbox"
proof -
  let ?o0 = "\<lparr>ob_rows = [], ob_claims = []\<rparr> :: outbox"
  have "outbox_step m R ?o0 (?o0\<lparr>ob_rows := [sample_event]\<rparr>)"
    using outbox_step.recorded [where ob = ?o0 and ext = sample_externals and ctx = sample_ctx and input = sample_input
        and dup = False] sample_record by simp
  moreover have "outbox_step m R (?o0\<lparr>ob_rows := [sample_event]\<rparr>) sample_outbox"
    using outbox_step.recorded [where ob = "?o0\<lparr>ob_rows := [sample_event]\<rparr>" and dup = False and e = sample_event2 and rows = "[sample_event, sample_event2]"
        and ext = sample_externals and ctx = "sample_ctx\<lparr>ctx_newId := ''ev2''\<rparr>" and input = "sample_input\<lparr>in_idempotencyKey := ''run:run1:2''\<rparr>"]
      sample_record2
    by (simp add: sample_outbox_def sample_rows)
  ultimately show ?thesis by (meson rtranclp.rtrancl_into_rtrancl rtranclp.rtrancl_refl)
qed

text \<open>The example run ends with both events published, and is reachable from the empty outbox.\<close>

lemma sample_reached:
  obtains sm r e1 e2 where "dispatchDomainEvents sample_env DISPATCH_DEFAULTS sample_outbox = Inr (sm, r)"
    "(outbox_step 10 R)\<^sup>*\<^sup>* \<lparr>ob_rows = [], ob_claims = []\<rparr> (snd r)" "ob_rows (snd r) = [e1, e2]"
    "ev_status e1 = Published" "ev_status e2 = Published" "ev_sequence e1 = 1" "ev_sequence e2 = 2"
    "ev_organizationId e1 = ev_organizationId e2" "ev_aggregateType e1 = ev_aggregateType e2"
    "ev_aggregateId e1 = ev_aggregateId e2" "sm_claimed sm = 2"
proof -
  have res: "case dispatchDomainEvents sample_env DISPATCH_DEFAULTS sample_outbox of Inl _ \<Rightarrow> False
      | Inr (sm, r) \<Rightarrow> sm_claimed sm = 2 \<and> map (\<lambda>e. (ev_status e, ev_sequence e, ev_organizationId e, ev_aggregateType e, ev_aggregateId e))
           (ob_rows (snd r)) = [(Published, 1, ''org1'', ''client_agent_run'', ''run1''), (Published, 2, ''org1'', ''client_agent_run'', ''run1'')]"
    by code_simp
  then obtain sm r where r: "dispatchDomainEvents sample_env DISPATCH_DEFAULTS sample_outbox = Inr (sm, r)"
    by (auto split: sum.splits prod.splits)
  have "(outbox_step 10 R)\<^sup>*\<^sup>* sample_outbox (snd r)"
    using dispatch_run_steps [OF sample_env_ok sample_fresh r, of R] by (simp add: DISPATCH_DEFAULTS_def)
  then have "(outbox_step 10 R)\<^sup>*\<^sup>* \<lparr>ob_rows = [], ob_claims = []\<rparr> (snd r)" using sample_recorded rtranclp_trans by metis
  moreover obtain e1 e2 where "ob_rows (snd r) = [e1, e2]" using res r by (auto simp: map_eq_Cons_conv)
  ultimately show ?thesis using res r by (intro that [of sm r e1 e2]) simp_all
qed

theorem events_published_in_order_witness:
  "\<exists>ob e p. (outbox_step 10 5)\<^sup>*\<^sup>* \<lparr>ob_rows = [], ob_claims = []\<rparr> ob \<and> ob_rows ob = [p, e] \<and>
     ev_sequence p < ev_sequence e \<and> ev_status e = Published \<and> ev_status p \<in> {Published, Discarded}"
proof -
  obtain r :: run and e1 e2 where s: "(outbox_step 10 5)\<^sup>*\<^sup>* \<lparr>ob_rows = [], ob_claims = []\<rparr> (snd r)" "ob_rows (snd r) = [e1, e2]"
    "ev_status e2 = Published" "ev_sequence e1 = 1" "ev_sequence e2 = 2"
    "ev_organizationId e1 = ev_organizationId e2" "ev_aggregateType e1 = ev_aggregateType e2"
    "ev_aggregateId e1 = ev_aggregateId e2" by (rule sample_reached [of 5])
  from events_published_in_order [OF s(1) _ _ _ s(6-8)] s show ?thesis by force
qed

theorem attempts_bounded_witness:
  "\<exists>ob e. (outbox_step 10 5)\<^sup>*\<^sup>* \<lparr>ob_rows = [], ob_claims = []\<rparr> ob \<and> e \<in> set (ob_rows ob) \<and> ev_attempts e \<le> 10 \<and> ev_claimToken e = None"
proof -
  obtain r :: run and e1 e2 where s: "(outbox_step 10 5)\<^sup>*\<^sup>* \<lparr>ob_rows = [], ob_claims = []\<rparr> (snd r)" "ob_rows (snd r) = [e1, e2]"
    "ev_status e2 = Published" by (rule sample_reached [of 5])
  then have "ev_attempts e2 \<le> 10 \<and> ev_claimToken e2 = None" using attempts_bounded [OF s(1), of e2] by simp
  then show ?thesis using s(1,2) by (intro exI [of _ "snd r"] exI [of _ e2]) simp
qed

text \<open>A table with a published row, which an administrator then tries to discard.\<close>

theorem settled_rows_final_witness:
  "sample_event\<lparr>ev_status := Published\<rparr> \<in> set (ob_rows (snd (update_dead ''org1'' (ev_id sample_event) 0 (to_discard 3000)
     \<lparr>ob_rows = [sample_event\<lparr>ev_status := Published\<rparr>], ob_claims = []\<rparr>)))"
  by (rule settled_rows_final [OF outbox_step.discarded]) simp_all

theorem lost_lease_changes_nothing_witness:
  "settle (sample_event\<lparr>ev_claimToken := Some ''t1''\<rparr>) (to_published 3000) sample_outbox = (False, sample_outbox)"
  using lost_lease_changes_nothing [of sample_outbox "sample_event\<lparr>ev_claimToken := Some ''t1''\<rparr>" 3000 "to_published 3000"]
  by (simp add: sample_outbox_def sample_event_def sample_event2_def new_event_def)

theorem dispatch_is_steps_witness:
  "\<exists>sm r. dispatchDomainEvents sample_env DISPATCH_DEFAULTS sample_outbox = Inr (sm, r) \<and>
     (outbox_step (do_maxAttempts DISPATCH_DEFAULTS) 5)\<^sup>*\<^sup>* sample_outbox (snd r)"
proof -
  obtain sm r where s: "dispatchDomainEvents sample_env DISPATCH_DEFAULTS sample_outbox = Inr (sm, r)" by (rule sample_reached)
  from dispatch_is_steps [OF sample_env_ok sample_fresh s] s show ?thesis by blast
qed

theorem dispatch_accounts_witness:
  "\<exists>sm r. dispatchDomainEvents sample_env DISPATCH_DEFAULTS sample_outbox = Inr (sm, r) \<and>
     2 = sm_published sm + sm_retried sm + sm_dead sm + sm_leaseLost sm"
proof -
  obtain sm r where s: "dispatchDomainEvents sample_env DISPATCH_DEFAULTS sample_outbox = Inr (sm, r)" "sm_claimed sm = 2"
    by (rule sample_reached)
  from dispatch_accounts [OF s(1)] s show ?thesis by auto
qed

theorem backoff_bounds_witness:
  "\<exists>d. computeBackoffMs 3 10000 3600000 (1 / 3) = Fin (of_int d) \<and> 20000 \<le> d \<and> d \<le> 40000"
  using backoff_bounds [of 10000 3600000 3 "1 / 3"] by (simp add: backoff_ceiling_def)



theorem replay_accounts_witness:
  "\<exists>requeued skipped r. replayDeadDomainEvents sample_env ''org1'' 2000 5 [''ev1'', ''ev9'', ''ev1''] sample_outbox
       = Inr ((requeued, skipped), r) \<and> mset (map ev_id requeued @ map fst skipped) = {#''ev1'', ''ev9''#}"
proof -
  have "case replayDeadDomainEvents sample_env ''org1'' 2000 5 [''ev1'', ''ev9'', ''ev1''] sample_outbox of
      Inl _ \<Rightarrow> False | Inr ((requeued, skipped), r) \<Rightarrow> True" by code_simp
  then obtain requeued skipped r where
    run: "replayDeadDomainEvents sample_env ''org1'' 2000 5 [''ev1'', ''ev9'', ''ev1''] sample_outbox = Inr ((requeued, skipped), r)"
    by (auto split: sum.splits prod.splits)
  from replay_accounts [OF sample_env_ok run, of 10] run show ?thesis by (simp add: distinct_ids_def)
qed

end
