(* ===== verification/TOTP.thy ===== *)
theory TOTP
  imports Prelude JS_Number "HOL-Library.Word"
begin

section \<open>One-time passwords\<close>

text \<open>
  Models \<^verbatim>\<open>src/auth/totp.js\<close>: base32 secrets, HOTP values, time steps and the check of a submitted
  code. Bytes are 8-bit words; the shift registers of the base32 loops are 32-bit words, as
  JavaScript's \<open><<\<close>, \<open>>>>\<close>, \<open>|\<close> and \<open>&\<close> work on 32 bits and drop what is shifted out. The keyed
  hash of \<^verbatim>\<open>node:crypto\<close> is the parameter \<open>hmac\<close> (key, message, digest).
\<close>

unbundle bit_operations_syntax

type_synonym byte = "8 word"

definition BASE32_ALPHABET :: string where
  "BASE32_ALPHABET = ''ABCDEFGHIJKLMNOPQRSTUVWXYZ234567''"

datatype totp_error = InvalidBase32Secret | CounterOutOfRange

subsection \<open>Base32\<close>

text \<open>The inner loop of the encoder: the characters written and the bits left.\<close>

function (sequential) emit_base32 :: "32 word \<Rightarrow> nat \<Rightarrow> string \<times> nat" where
  "emit_base32 v bits =
     (if 5 \<le> bits then
        (case emit_base32 v (bits - 5) of (out, rest) \<Rightarrow>
           (BASE32_ALPHABET ! unat (drop_bit (bits - 5) v AND 31) # out, rest))
      else ([], bits))"
  by pat_completeness auto

termination emit_base32
  by (relation "measure snd") auto

declare emit_base32.simps [simp del]

fun encode_bytes :: "byte list \<Rightarrow> 32 word \<Rightarrow> nat \<Rightarrow> string" where
  "encode_bytes [] v bits =
     (if 0 < bits then [BASE32_ALPHABET ! unat (push_bit (5 - bits) v AND 31)] else [])"
| "encode_bytes (b # bs) v bits =
     (let v' = push_bit 8 v OR ucast b
      in case emit_base32 v' (bits + 8) of (out, rest) \<Rightarrow> out @ encode_bytes bs v' rest)"

definition base32Encode :: "byte list \<Rightarrow> string" where
  "base32Encode buffer = encode_bytes buffer 0 0"

fun index_of :: "char \<Rightarrow> string \<Rightarrow> nat option" where
  "index_of c [] = None"
| "index_of c (x # xs) = (if x = c then Some 0 else map_option Suc (index_of c xs))"

fun decode_chars :: "string \<Rightarrow> 32 word \<Rightarrow> nat \<Rightarrow> totp_error + byte list" where
  "decode_chars [] v bits = Inr []"
| "decode_chars (c # cs) v bits =
     (case index_of c BASE32_ALPHABET of
        None \<Rightarrow> Inl InvalidBase32Secret
      | Some i \<Rightarrow>
         (let v' = push_bit 5 v OR of_nat i
          in if 8 \<le> bits + 5 then
               (case decode_chars cs v' (bits + 5 - 8) of
                  Inl e \<Rightarrow> Inl e
                | Inr bytes \<Rightarrow> Inr (ucast (drop_bit (bits + 5 - 8) v' AND 255) # bytes))
             else decode_chars cs v' (bits + 5)))"

definition base32Decode :: "string \<Rightarrow> totp_error + byte list" where
  "base32Decode input =
     decode_chars (filter (\<lambda>c. \<not> is_space c \<and> c \<noteq> CHR ''='' \<and> c \<noteq> CHR ''-'') (js_upper input)) 0 0"

definition generateTotpSecret :: "byte list \<Rightarrow> string" where
  "generateTotpSecret randomBytes = base32Encode randomBytes"

subsection \<open>HOTP and time steps\<close>

definition uint64_be :: "nat \<Rightarrow> totp_error + byte list" where
  "uint64_be counter =
     (if counter < 2 ^ 64 then Inr (map (\<lambda>i. of_nat (counter div 256 ^ i mod 256)) [7, 6, 5, 4, 3, 2, 1, 0])
      else Inl CounterOutOfRange)"

definition dynamic_truncation :: "byte list \<Rightarrow> nat" where
  "dynamic_truncation digest =
     (let offset = unat (last digest AND 15)
      in unat (push_bit 24 (ucast (digest ! offset) AND 127 :: 32 word) OR push_bit 16 (ucast (digest ! (offset + 1)))
               OR push_bit 8 (ucast (digest ! (offset + 2))) OR ucast (digest ! (offset + 3))))"

type_synonym hmac = "byte list \<Rightarrow> byte list \<Rightarrow> byte list"

definition hotp :: "hmac \<Rightarrow> nat \<Rightarrow> byte list \<Rightarrow> nat \<Rightarrow> totp_error + string" where
  "hotp hmac digits key counter =
     (case uint64_be counter of Inl e \<Rightarrow> Inl e
      | Inr message \<Rightarrow>
          Inr (padStart digits CHR ''0'' (nat_text (dynamic_truncation (hmac key message) mod 10 ^ digits))))"

definition math_floor :: "jsnum \<Rightarrow> jsnum" where
  "math_floor x = (case x of Fin q \<Rightarrow> Fin (of_int \<lfloor>q\<rfloor>) | _ \<Rightarrow> x)"

definition totpStep :: "int \<Rightarrow> nat \<Rightarrow> jsnum" where
  "totpStep timeMs period = math_floor (js_div_by (js_div_by (Fin (of_int timeMs)) 1000) (of_nat period))"

definition step_int :: "jsnum \<Rightarrow> int" where
  "step_int x = (case x of Fin q \<Rightarrow> \<lfloor>q\<rfloor> | _ \<Rightarrow> 0)"

definition totp :: "hmac \<Rightarrow> nat \<Rightarrow> nat \<Rightarrow> byte list \<Rightarrow> int \<Rightarrow> totp_error + string" where
  "totp hmac digits period key timeMs =
     (let step = step_int (totpStep timeMs period)
      in if step < 0 then Inl CounterOutOfRange else hotp hmac digits key (nat step))"

text \<open>The loop over the candidate steps: the first that matches, every one is compared.\<close>

fun match_steps :: "hmac \<Rightarrow> nat \<Rightarrow> byte list \<Rightarrow> string \<Rightarrow> int list \<Rightarrow> nat option \<Rightarrow> totp_error + nat option" where
  "match_steps hmac digits key submitted [] matched = Inr matched"
| "match_steps hmac digits key submitted (s # steps) matched =
     (if s < 0 then match_steps hmac digits key submitted steps matched
      else (case hotp hmac digits key (nat s) of Inl e \<Rightarrow> Inl e
            | Inr expected \<Rightarrow> match_steps hmac digits key submitted steps
                 (if expected = submitted \<and> matched = None then Some (nat s) else matched)))"

definition verifyTotp ::
  "hmac \<Rightarrow> nat \<Rightarrow> nat \<Rightarrow> nat \<Rightarrow> string \<Rightarrow> string \<Rightarrow> int \<Rightarrow> totp_error + nat option" where
  "verifyTotp hmac digits period window secret code timeMs =
     (let submitted = filter (\<lambda>c. \<not> is_space c) code
      in if \<not> (length submitted = digits \<and> all_in DIGITS submitted) then Inr None
         else (case base32Decode secret of Inl e \<Rightarrow> Inl e
               | Inr key \<Rightarrow>
                  (let current = step_int (totpStep timeMs period)
                   in match_steps hmac digits key submitted
                        [current - int window..current + int window] None)))"

subsection \<open>Base32 round trip\<close>

text \<open>The low \<open>n\<close> bits of a word, the highest first.\<close>

definition bits_of :: "nat \<Rightarrow> 'a::len word \<Rightarrow> bool list" where
  "bits_of n w = map (bit w) (rev [0..<n])"

lemma length_bits_of [simp]: "length (bits_of n w) = n"
  by (simp add: bits_of_def)

lemma bits_of_eq_iff: "bits_of n w = bits_of n w' \<longleftrightarrow> (\<forall>i < n. bit w i = bit w' i)"
  by (auto simp: bits_of_def)

lemma rev_upt_add: "rev [0..<m + n] = map (\<lambda>i. i + n) (rev [0..<m]) @ rev [0..<n]"
  by (induction m) auto

lemma bits_of_add: "bits_of (m + n) w = bits_of m (drop_bit n w) @ bits_of n w"
  by (simp add: bits_of_def rev_upt_add bit_drop_bit_eq comp_def add.commute del: rev_map)

text \<open>Shifting a new group of bits in.\<close>

lemma bits_of_push:
  fixes v :: "32 word" and x :: "32 word"
  assumes "m + n \<le> 32" and "\<And>i. n \<le> i \<Longrightarrow> \<not> bit x i"
  shows "bits_of (m + n) (push_bit n v OR x) = bits_of m v @ bits_of n x"
proof -
  have "bits_of m (drop_bit n (push_bit n v OR x)) = bits_of m v"
    using assms by (auto simp: bits_of_eq_iff bit_simps)
  moreover have "bits_of n (push_bit n v OR x) = bits_of n x"
    by (auto simp: bits_of_eq_iff bit_simps)
  ultimately show ?thesis by (simp add: bits_of_add)
qed

lemma bits_of_mask5: "bits_of 5 (w AND 31 :: 32 word) = bits_of 5 w"
proof -
  have m: "(31 :: 32 word) = mask 5" by (simp add: mask_eq_exp_minus_1)
  show ?thesis unfolding m by (auto simp: bits_of_eq_iff bit_simps)
qed

lemma bits_of_byte: "bits_of 8 (ucast (w AND 255) :: byte) = bits_of 8 (w :: 32 word)"
proof -
  have m: "(255 :: 32 word) = mask 8" by (simp add: mask_eq_exp_minus_1)
  show ?thesis unfolding m by (auto simp: bits_of_eq_iff bit_simps)
qed

lemma bits_of_ucast: "bits_of 8 (ucast (b :: byte) :: 32 word) = bits_of 8 b"
  by (auto simp: bits_of_eq_iff bit_simps)

lemma byte_high: "8 \<le> i \<Longrightarrow> \<not> bit (ucast (b :: byte) :: 32 word) i"
  using bit_imp_le_length [of b i] by (auto simp: bit_simps)

lemma byte_eqI: "bits_of 8 a = bits_of 8 b \<Longrightarrow> a = (b :: byte)"
  by (rule bit_word_eqI) (simp add: bits_of_eq_iff)

text \<open>The value of a base32 character.\<close>

definition group_bits :: "char \<Rightarrow> bool list" where
  "group_bits c = (case index_of c BASE32_ALPHABET of Some i \<Rightarrow> bits_of 5 (of_nat i :: 32 word) | None \<Rightarrow> [])"

lemma index_of_nth: "distinct s \<Longrightarrow> i < length s \<Longrightarrow> index_of (s ! i) s = Some i"
proof (induction s arbitrary: i)
  case (Cons x s)
  then show ?case by (cases i) auto
qed simp

lemma index_of_less: "index_of c s = Some i \<Longrightarrow> i < length s"
  by (induction s arbitrary: i) (auto split: if_splits)

lemma alphabet: "distinct BASE32_ALPHABET" "length BASE32_ALPHABET = 32"
  by (simp_all add: BASE32_ALPHABET_def)

lemma unat_mask5: "unat (w AND 31 :: 32 word) < 32"
proof -
  have "w AND 31 < 32" using and_mask_less' [of 5 w] by (simp add: mask_eq_exp_minus_1)
  then show ?thesis by (simp add: word_less_nat_alt)
qed

lemma char_index: "index_of (BASE32_ALPHABET ! unat (w AND 31 :: 32 word)) BASE32_ALPHABET = Some (unat (w AND 31))"
  using index_of_nth [OF alphabet(1)] unat_mask5 [of w] by (simp add: alphabet(2))

lemma char_group: "group_bits (BASE32_ALPHABET ! unat (w AND 31 :: 32 word)) = bits_of 5 w"
  by (simp add: group_bits_def char_index bits_of_mask5)

lemma emit_bits:
  assumes "emit_base32 v bits = (out, rest)"
  shows "concat (map group_bits out) @ bits_of rest v = bits_of bits v \<and> rest < 5 \<and> set out \<subseteq> set BASE32_ALPHABET"
  using assms
proof (induction v bits arbitrary: out rest rule: emit_base32.induct)
  case (1 v bits)
  show ?case
  proof (cases "5 \<le> bits")
    case True
    obtain out' where out': "emit_base32 v (bits - 5) = (out', rest)"
        "out = BASE32_ALPHABET ! unat (drop_bit (bits - 5) v AND 31) # out'"
      using 1(2) True by (auto simp: emit_base32.simps [of v bits] split: prod.splits)
    have "bits_of bits v = bits_of 5 (drop_bit (bits - 5) v) @ bits_of (bits - 5) v"
      using bits_of_add [of 5 "bits - 5" v] True by simp
    moreover have "BASE32_ALPHABET ! unat (drop_bit (bits - 5) v AND 31) \<in> set BASE32_ALPHABET"
      using unat_mask5 by (intro nth_mem) (simp add: alphabet(2))
    ultimately show ?thesis using 1(1) [OF True out'(1)] out'(2) char_group by simp
  next
    case False
    then show ?thesis using 1(2) by (simp add: emit_base32.simps)
  qed
qed

text \<open>The encoder writes the bits of its input, padded with zeros to a whole group.\<close>

lemma encode_bits:
  "bits < 5 \<Longrightarrow> \<exists>pad. concat (map group_bits (encode_bytes bs v bits)) = bits_of bits v @ concat (map (bits_of 8) bs) @ pad \<and>
     length pad < 5 \<and> set (encode_bytes bs v bits) \<subseteq> set BASE32_ALPHABET"
proof (induction bs arbitrary: v bits)
  case Nil
  show ?case
  proof (cases "bits = 0")
    case False
    let ?w = "push_bit (5 - bits) v"
    have "bits_of (bits + (5 - bits)) (?w OR 0) = bits_of bits v @ bits_of (5 - bits) (0 :: 32 word)"
      using Nil by (intro bits_of_push) auto
    then have "bits_of 5 ?w = bits_of bits v @ bits_of (5 - bits) (0 :: 32 word)" using Nil by simp
    moreover have "BASE32_ALPHABET ! unat (?w AND 31) \<in> set BASE32_ALPHABET"
      using unat_mask5 by (intro nth_mem) (simp add: alphabet(2))
    ultimately show ?thesis using Nil False char_group [of ?w]
      by (intro exI [of _ "bits_of (5 - bits) (0 :: 32 word)"]) simp
  qed (simp add: bits_of_def)
next
  case (Cons b bs)
  define w where "w = push_bit 8 v OR ucast b"
  obtain out rest where em: "emit_base32 w (bits + 8) = (out, rest)" by fastforce
  note e = emit_bits [OF em]
  have "bits_of (bits + 8) w = bits_of bits v @ bits_of 8 b"
    unfolding w_def using Cons.prems byte_high [of _ b] bits_of_push [of bits 8 "ucast b" v] bits_of_ucast [of b] by simp
  moreover obtain pad where "concat (map group_bits (encode_bytes bs w rest)) = bits_of rest w @ concat (map (bits_of 8) bs) @ pad"
      "length pad < 5" "set (encode_bytes bs w rest) \<subseteq> set BASE32_ALPHABET"
    using Cons.IH [of rest w] e by blast
  moreover have "concat (map group_bits out) @ bits_of rest w @ x = bits_of (bits + 8) w @ x" for x
    using e by (metis append_assoc)
  ultimately show ?case using e em by (intro exI [of _ pad]) (auto simp: w_def [symmetric] Let_def)
qed

text \<open>The decoder reads whole bytes and drops what is left.\<close>

lemma decode_bits:
  "bits < 8 \<Longrightarrow> set cs \<subseteq> set BASE32_ALPHABET \<Longrightarrow> \<exists>bytes rest. decode_chars cs v bits = Inr bytes \<and>
     bits_of bits v @ concat (map group_bits cs) = concat (map (bits_of 8) bytes) @ rest \<and> length rest < 8"
proof (induction cs arbitrary: v bits)
  case Nil
  then show ?case by (intro exI [of _ "[]"] exI [of _ "bits_of bits v"]) simp
next
  case (Cons c cs)
  obtain k where "k < 32" "c = BASE32_ALPHABET ! k" using Cons.prems(2) alphabet(2) by (auto simp: in_set_conv_nth)
  then have i: "index_of c BASE32_ALPHABET = Some k" using index_of_nth [OF alphabet(1)] alphabet(2) by simp
  define w where "w = push_bit 5 v OR of_nat k"
  have "\<not> bit (of_nat k :: 32 word) j" if "5 \<le> j" for j
  proof -
    have "(2 :: nat) ^ 5 \<le> 2 ^ j" using that by (intro power_increasing) auto
    then have "k div 2 ^ j = 0" using \<open>k < 32\<close> by simp
    then show ?thesis by (simp add: bit_simps bit_iff_odd [of k])
  qed
  then have w: "bits_of (bits + 5) w = bits_of bits v @ group_bits c"
    unfolding w_def group_bits_def i using Cons.prems(1) bits_of_push [of bits 5 "of_nat k" v] by simp
  show ?case
  proof (cases "8 \<le> bits + 5")
    case True
    let ?r = "bits + 5 - 8"
    have sp: "bits_of (bits + 5) w = bits_of 8 (drop_bit ?r w) @ bits_of ?r w"
      using bits_of_add [of 8 ?r w] True by (simp add: add.commute)
    moreover obtain bytes rest where "decode_chars cs w ?r = Inr bytes"
        "bits_of ?r w @ concat (map group_bits cs) = concat (map (bits_of 8) bytes) @ rest" "length rest < 8"
      using Cons.IH [of ?r w] Cons.prems by fastforce
    moreover from this have "bits_of bits v @ group_bits c @ concat (map group_bits cs) =
        bits_of 8 (drop_bit ?r w) @ concat (map (bits_of 8) bytes) @ rest"
      using w sp by (metis append_assoc)
    ultimately show ?thesis using True i bits_of_byte
      by (intro exI [of _ "ucast (drop_bit ?r w AND 255) # bytes"] exI [of _ rest]) (simp add: w_def [symmetric] Let_def)
  next
    case False
    then obtain bytes rest where "decode_chars cs w (bits + 5) = Inr bytes"
        "bits_of (bits + 5) w @ concat (map group_bits cs) = concat (map (bits_of 8) bytes) @ rest" "length rest < 8"
      using Cons.IH [of "bits + 5" w] Cons.prems by fastforce
    then show ?thesis using False i w by (intro exI [of _ bytes] exI [of _ rest]) (simp add: w_def [symmetric] Let_def)
  qed
qed

lemma length_concat_bits: "length (concat (map (bits_of 8) (xs :: byte list))) = 8 * length xs"
  by (induction xs) simp_all

lemma bytes_from_bits:
  assumes "concat (map (bits_of 8) (xs :: byte list)) @ p = concat (map (bits_of 8) ys) @ r" and "length p < 8" and "length r < 8"
  shows "xs = ys"
proof -
  have "8 * length xs + length p = 8 * length ys + length r"
    using arg_cong [OF assms(1), of length] by (simp only: length_append length_concat_bits)
  then have len: "length xs = length ys" using assms(2,3) by simp
  then have "concat (map (bits_of 8) xs) = concat (map (bits_of 8) ys)" using assms(1) by (simp add: append_eq_append_conv length_concat_bits)
  then show ?thesis using len
  proof (induction rule: list_induct2 [OF len])
    case (2 x xs y ys)
    then have "bits_of 8 x = bits_of 8 y" "concat (map (bits_of 8) xs) = concat (map (bits_of 8) ys)"
      by (auto simp: append_eq_append_conv)
    with 2 byte_eqI show ?case by auto
  qed simp
qed

lemma alphabet_upper: "set cs \<subseteq> set BASE32_ALPHABET \<Longrightarrow> js_upper cs = cs"
proof (induction cs)
  case (Cons c cs)
  have "\<forall>c \<in> set BASE32_ALPHABET. upper_char c = [c]" by code_simp
  then show ?case using Cons by (simp add: js_upper_def)
qed (simp add: js_upper_def)

lemma alphabet_plain: "set cs \<subseteq> set BASE32_ALPHABET \<Longrightarrow> filter (\<lambda>c. \<not> is_space c \<and> c \<noteq> CHR ''='' \<and> c \<noteq> CHR ''-'') cs = cs"
proof -
  have "\<forall>c \<in> set BASE32_ALPHABET. \<not> is_space c \<and> c \<noteq> CHR ''='' \<and> c \<noteq> CHR ''-''" by code_simp
  moreover assume "set cs \<subseteq> set BASE32_ALPHABET"
  ultimately show ?thesis by (auto intro: filter_True)
qed

lemma base32_decode_encode: "base32Decode (base32Encode bytes) = Inr bytes"
proof -
  let ?cs = "encode_bytes bytes 0 0"
  obtain pad where enc: "concat (map group_bits ?cs) = concat (map (bits_of 8) bytes) @ pad" "length pad < 5"
      "set ?cs \<subseteq> set BASE32_ALPHABET"
    using encode_bits [of 0 bytes 0] by (auto simp: bits_of_def)
  obtain out rest where dec: "decode_chars ?cs 0 0 = Inr out"
      "concat (map group_bits ?cs) = concat (map (bits_of 8) out) @ rest" "length rest < 8"
    using decode_bits [of 0 ?cs 0] enc(3) by (auto simp: bits_of_def)
  have "out = bytes"
    by (rule bytes_from_bits [of out rest bytes pad]) (use enc(1,2) dec(2,3) in simp_all)
  then show ?thesis
    using dec(1) by (simp add: base32Decode_def base32Encode_def alphabet_upper alphabet_plain enc(3))
qed

text \<open>C34: Base32 secrets round trip: decoding the encoding of any bytes gives the bytes back, although the
  32-bit shift registers of both loops lose the bits shifted out.\<close>

theorem base32_roundtrip: "base32Decode (base32Encode bytes) = Inr bytes"
  by (rule base32_decode_encode)

subsection \<open>Codes and time steps\<close>

lemma nat_text_length: "n < 10 ^ k \<Longrightarrow> 0 < k \<Longrightarrow> length (nat_text n) \<le> k"
proof (induction n arbitrary: k rule: nat_text.induct)
  case (1 n)
  show ?case
  proof (cases "n < 10")
    case True
    then show ?thesis using 1(3) by (simp add: nat_text.simps)
  next
    case False
    then obtain j where j: "k = Suc j" "0 < j" using 1(2,3) by (cases k; cases "k - 1") auto
    then have "n div 10 < 10 ^ j" using 1(2) by (simp add: less_mult_imp_div_less mult.commute)
    then show ?thesis using 1(1) [OF False _ j(2)] False j(1) by (simp add: nat_text.simps [of n])
  qed
qed

lemma nat_text_digits: "all_in DIGITS (nat_text n)"
proof (induction n rule: nat_text.induct)
  case (1 n)
  have "DIGITS ! k \<in> set DIGITS" if "k < 10" for k using that by (intro nth_mem) (simp add: DIGITS_def)
  then show ?case using 1 by (cases "n < 10") (simp_all add: nat_text.simps [of n] all_in_def)
qed

lemma hotp_format:
  assumes "hotp hmac digits key n = Inr code" and "0 < digits"
  shows "length code = digits" and "all_in DIGITS code"
proof -
  obtain x where code: "code = padStart digits CHR ''0'' (nat_text x)" and x: "x < 10 ^ digits"
    using assms(1) by (auto simp: hotp_def split: sum.splits)
  show "length code = digits" using nat_text_length [OF x assms(2)] by (simp add: code padStart_def)
  have "all_in DIGITS (replicate k CHR ''0'')" for k by (simp add: all_in_def DIGITS_def list_all_iff)
  then show "all_in DIGITS code" using nat_text_digits by (simp add: code padStart_def)
qed

lemma step_gap:
  assumes "\<not> 30000 dvd t" and "\<bar>y - of_int t / 30000\<bar> \<le> 1 / 60000"
  shows "\<lfloor>y :: rat\<rfloor> = t div 30000"
proof -
  let ?n = "t div 30000"
  have "0 < t mod 30000" using assms(1) by (metis dvd_eq_mod_eq_0 pos_mod_sign zero_less_numeral order_le_less)
  then have "30000 * ?n + 1 \<le> t" and "t + 1 \<le> 30000 * ?n + 30000"
    using mult_div_mod_eq [of 30000 t] pos_mod_bound [of 30000 t] by linarith+
  then have "(30000 * of_int ?n + 1 :: rat) \<le> of_int t" "(of_int t + 1 :: rat) \<le> 30000 * of_int ?n + 30000"
    using int_le_rat [of "30000 * ?n + 1" t] int_le_rat [of "t + 1" "30000 * ?n + 30000"] by simp_all
  then show ?thesis using assms(2) by (intro floor_unique) linarith+
qed

lemma totp_step_exact:
  assumes "0 \<le> t" and "t \<le> 2 ^ 48"
  shows "step_int (totpStep t 30) = t div 30000"
proof -
  have t: "0 \<le> (of_int t :: rat)" "(of_int t :: rat) \<le> 281474976710656" using assms int_le_rat [of t "2 ^ 48"] by simp_all
  have big: "(2 :: rat) ^ 100 = 1267650600228229401496703205376" "(2 :: rat) ^ 53 = 9007199254740992" by simp_all
  have tiny: "(1 :: rat) / 2 ^ 200 \<le> 1 / 10 ^ 20" by simp
  define x where "x = round_binary64 (of_int t / 1000)"
  define y where "y = round_binary64 (x / 30)"
  have x: "\<bar>x - of_int t / 1000\<bar> \<le> 1 / 10000"
    using round_binary64_error [of "of_int t / 1000"] t tiny unfolding x_def big by (simp add: abs_divide)
  have "\<bar>x\<bar> \<le> 281474976711" using x t by linarith
  then have xb: "\<bar>x / 30\<bar> \<le> 9382499224" by simp
  have y: "\<bar>y - x / 30\<bar> \<le> 1 / 100000"
    using round_binary64_error [of "x / 30"] xb tiny unfolding y_def big by simp
  have d1: "js_div_by (Fin (of_int t)) 1000 = Fin x"
    unfolding x_def js_div_by.simps using t by (intro js_of_rat_finite) (simp add: big)
  have d2: "js_div_by (Fin x) 30 = Fin y"
    unfolding y_def js_div_by.simps using xb by (intro js_of_rat_finite) (simp add: big)
  have val: "step_int (totpStep t 30) = \<lfloor>y\<rfloor>"
    unfolding totpStep_def d1 by (simp add: d2 math_floor_def step_int_def del: js_div_by.simps)
  show ?thesis
  proof (cases "30000 dvd t")
    case True
    then obtain n where n: "t = 30000 * n" by auto
    have b: "\<bar>30 * n\<bar> < 2 ^ 53" "\<bar>n\<bar> < 2 ^ 53" using assms n by auto
    have "x = of_int (30 * n)" using round_binary64_int [OF b(1)] by (simp add: x_def n)
    then have "y = of_int n" using round_binary64_int [OF b(2)] by (simp add: y_def)
    then show ?thesis using val n by simp
  next
    case False
    have "\<bar>y - of_int t / 30000\<bar> \<le> 1 / 60000" using x y by linarith
    then show ?thesis using val step_gap [OF False] by simp
  qed
qed

subsection \<open>Checking a code\<close>

definition key_step :: "hmac \<Rightarrow> nat \<Rightarrow> byte list \<Rightarrow> string \<Rightarrow> int \<Rightarrow> bool" where
  "key_step hmac digits key submitted s \<longleftrightarrow> 0 \<le> s \<and> hotp hmac digits key (nat s) = Inr submitted"

lemma match_steps_result:
  assumes "\<forall>s \<in> set steps. s < 2 ^ 64"
  shows "\<exists>r. match_steps hmac digits key submitted steps m = Inr r \<and>
    (case m of Some s \<Rightarrow> r = Some s
     | None \<Rightarrow> (case r of Some s \<Rightarrow> int s \<in> set steps \<and> key_step hmac digits key submitted (int s)
                | None \<Rightarrow> \<forall>s \<in> set steps. \<not> key_step hmac digits key submitted s))"
  using assms
proof (induction steps arbitrary: m)
  case Nil
  then show ?case by (cases m) auto
next
  case (Cons s steps)
  show ?case
  proof (cases "s < 0")
    case True
    then show ?thesis using Cons.IH [of m] Cons.prems by (auto simp: key_step_def split: option.splits)
  next
    case False
    then have "nat s < 2 ^ 64" using Cons.prems by (simp add: nat_less_iff)
    then obtain e where e: "hotp hmac digits key (nat s) = Inr e" by (auto simp: hotp_def uint64_be_def)
    define m' where "m' = (if e = submitted \<and> m = None then Some (nat s) else m)"
    obtain r where r: "match_steps hmac digits key submitted steps m' = Inr r"
      "case m' of Some s \<Rightarrow> r = Some s
       | None \<Rightarrow> (case r of Some s \<Rightarrow> int s \<in> set steps \<and> key_step hmac digits key submitted (int s)
                  | None \<Rightarrow> \<forall>s \<in> set steps. \<not> key_step hmac digits key submitted s)"
      using Cons.IH [of m'] Cons.prems by auto
    then show ?thesis
      using False e by (auto simp: m'_def key_step_def split: option.splits if_splits)
  qed
qed

text \<open>C35: A code is accepted exactly when it is the code of a time step within the window around now (30-second
  steps, computed exactly by the floating-point division until the year 10889), and then that step
  is reported; a code of any other shape is refused.\<close>

theorem verifyTotp_correct:
  assumes "0 \<le> t" and "t \<le> 2 ^ 48" and "0 < digits" and "window \<le> 1000"
  shows "\<exists>r. verifyTotp hmac digits 30 window (base32Encode key) code t = Inr r \<and>
    (case r of
       Some s \<Rightarrow> \<bar>int s - t div 30000\<bar> \<le> int window \<and> hotp hmac digits key s = Inr (filter (\<lambda>c. \<not> is_space c) code)
     | None \<Rightarrow> \<forall>s. \<bar>int s - t div 30000\<bar> \<le> int window \<longrightarrow> hotp hmac digits key s \<noteq> Inr (filter (\<lambda>c. \<not> is_space c) code))"
proof -
  let ?sub = "filter (\<lambda>c. \<not> is_space c) code" and ?n = "t div 30000"
  show ?thesis
  proof (cases "length ?sub = digits \<and> all_in DIGITS ?sub")
    case False
    then have "verifyTotp hmac digits 30 window (base32Encode key) code t = Inr None" by (auto simp: verifyTotp_def Let_def)
    moreover have "hotp hmac digits key s \<noteq> Inr ?sub" for s using False hotp_format assms(3) by blast
    ultimately show ?thesis by simp
  next
    case True
    have "?n \<le> 2 ^ 48" using assms(1,2) by linarith
    then have lim: "\<forall>s \<in> set [?n - int window..?n + int window]. s < 2 ^ 64" using assms(4) by auto
    obtain r where r: "match_steps hmac digits key ?sub [?n - int window..?n + int window] None = Inr r"
        "case r of Some s \<Rightarrow> int s \<in> set [?n - int window..?n + int window] \<and> key_step hmac digits key ?sub (int s)
         | None \<Rightarrow> \<forall>s \<in> set [?n - int window..?n + int window]. \<not> key_step hmac digits key ?sub s"
      using match_steps_result [OF lim, of hmac digits key ?sub None] by auto
    have "verifyTotp hmac digits 30 window (base32Encode key) code t = Inr r"
      using True r(1) by (simp add: verifyTotp_def Let_def base32_decode_encode totp_step_exact [OF assms(1,2)])
    moreover have "hotp hmac digits key s \<noteq> Inr ?sub" if "r = None" "\<bar>int s - ?n\<bar> \<le> int window" for s
      using r(2) that by (auto simp: key_step_def abs_le_iff dest!: bspec [of _ _ "int s"])
    moreover have "\<bar>int s - ?n\<bar> \<le> int window \<and> hotp hmac digits key s = Inr ?sub" if "r = Some s" for s
      using r(2) that by (auto simp: key_step_def abs_le_iff)
    ultimately show ?thesis by (auto split: option.splits)
  qed
qed

theorem verifyTotp_correct_witness:
  "\<exists>r. verifyTotp (\<lambda>k m. replicate 20 0) 6 30 1 (base32Encode [1, 2, 3]) ''000 000'' 59000 = Inr r \<and> r \<noteq> None"
proof -
  have zeros: "replicate 5 CHR ''0'' = ''00000''" by (simp add: eval_nat_numeral)
  have "hotp (\<lambda>k m. replicate 20 0) 6 [1, 2, 3] 1 = Inr (filter (\<lambda>c. \<not> is_space c) ''000 000'')"
    by (simp add: hotp_def uint64_be_def dynamic_truncation_def Let_def nat_text.simps padStart_def DIGITS_def is_space_def zeros)
  then show ?thesis
    using verifyTotp_correct [of 59000 6 1 "\<lambda>k m. replicate 20 0" "[1, 2, 3]" "''000 000''"]
    by (force split: option.splits)
qed

end
