(* ===== verification/MFA.thy ===== *)
theory MFA
  imports TOTP
begin

section \<open>Two-factor authentication of staff accounts\<close>

text \<open>
  Models \<^verbatim>\<open>src/auth/mfa.js\<close> (attempt budget, lockout, TOTP and recovery codes) and the handlers of
  \<^verbatim>\<open>src/routes/mfa.routes.js\<close> that change an account: enrolling, confirming, disabling, the second
  login step and the administrator's reset.

  The state is the users table, the rows requests have read (they live on in the requests while the
  table changes) and the history of what was decided about each account. A request runs several
  statements; before the \<open>k\<close>-th one the environment may change the state in any way (the other
  requests) and tells the time. Hashing, decryption, password hashing and the random recovery codes
  are parameters.
\<close>

record user =
  u_id :: string
  u_role :: string
  u_organizationId :: "string option"
  u_isActive :: bool
  u_sessionVersion :: int
  u_password :: string
  u_mfaEnabled :: bool
  u_mfaSecret :: "string option"
  u_mfaEnabledAt :: "timestamp option"
  u_mfaLastUsedStep :: "nat option"
  u_mfaRecoveryCodes :: "string list"
  u_mfaFailedAttempts :: nat
  u_mfaLockedUntil :: "timestamp option"

datatype mfa_event =
    Evaluated timestamp
  | LockedAt timestamp
  | TotpUsed nat
  | RecoveryUsed string
  | Succeeded
  | Enrolled
  | Confirmed "string list"
  | Cleared

record mfa_db =
  md_users :: "user list"
  md_snapshots :: "user list"
  md_log :: "(string \<times> mfa_event) list"

record crypto =
  cr_sha256 :: "string \<Rightarrow> string"
  cr_hmac :: hmac
  cr_decrypt :: "string \<Rightarrow> string option"
  cr_encrypt :: "string \<Rightarrow> string"
  cr_password_ok :: "string \<Rightarrow> string \<Rightarrow> bool"

subsection \<open>Constants and pure helpers\<close>

definition MFA_INELIGIBLE_ROLES :: "string list" where
  "MFA_INELIGIBLE_ROLES = [''CLIENT'', ''BOT'']"

definition MFA_CHALLENGE_TTL_SECONDS :: int where
  "MFA_CHALLENGE_TTL_SECONDS = 5 * 60"

definition MFA_MAX_FAILED_ATTEMPTS :: nat where
  "MFA_MAX_FAILED_ATTEMPTS = 5"

definition MFA_LOCKOUT_MS :: int where
  "MFA_LOCKOUT_MS = 15 * 60 * 1000"

definition RECOVERY_GROUPS :: nat where
  "RECOVERY_GROUPS = 4"

definition RECOVERY_GROUP_LENGTH :: nat where
  "RECOVERY_GROUP_LENGTH = 4"

definition RECOVERY_CODE_COUNT :: nat where
  "RECOVERY_CODE_COUNT = 10"

definition RECOVERY_ALPHABET :: string where
  "RECOVERY_ALPHABET = ''abcdefghjkmnpqrstuvwxyz23456789''"

definition isMfaEligible :: "user option \<Rightarrow> bool" where
  "isMfaEligible u = (case u of None \<Rightarrow> False | Some x \<Rightarrow> u_role x \<notin> set MFA_INELIGIBLE_ROLES)"

definition isMfaRequired :: "user option \<Rightarrow> bool" where
  "isMfaRequired u =
     (case u of None \<Rightarrow> False
      | Some x \<Rightarrow> u_mfaEnabled x \<and> (case u_mfaSecret x of None \<Rightarrow> False | Some s \<Rightarrow> s \<noteq> []))"

definition normalizeRecoveryCode :: "string \<Rightarrow> string" where
  "normalizeRecoveryCode code =
     filter (\<lambda>c. c \<in> set ''abcdefghijklmnopqrstuvwxyz0123456789'') (js_lower code)"

definition hashRecoveryCode :: "crypto \<Rightarrow> string \<Rightarrow> string" where
  "hashRecoveryCode cr code = cr_sha256 cr (''ashbi-mfa-recovery:'' @ normalizeRecoveryCode code)"

text \<open>\<open>crypto.randomInt\<close> for the \<open>n\<close>-th character of a set of codes.\<close>

definition recovery_code :: "(nat \<Rightarrow> nat) \<Rightarrow> nat \<Rightarrow> string" where
  "recovery_code random i =
     (let per = RECOVERY_GROUPS * RECOVERY_GROUP_LENGTH;
          group = (\<lambda>g. map (\<lambda>c. RECOVERY_ALPHABET ! (random (i * per + g * RECOVERY_GROUP_LENGTH + c) mod length RECOVERY_ALPHABET))
                         [0..<RECOVERY_GROUP_LENGTH])
      in tl (concat (map (\<lambda>g. CHR ''-'' # group g) [0..<RECOVERY_GROUPS])))"

definition generateRecoveryCodes :: "crypto \<Rightarrow> (nat \<Rightarrow> nat) \<Rightarrow> string list \<times> string list" where
  "generateRecoveryCodes cr random =
     (let codes = map (recovery_code random) [0..<RECOVERY_CODE_COUNT]
      in (codes, map (hashRecoveryCode cr) codes))"

definition safeEqual :: "crypto \<Rightarrow> string \<Rightarrow> string \<Rightarrow> bool" where
  "safeEqual cr a b \<longleftrightarrow> cr_sha256 cr a = cr_sha256 cr b"

definition findRecoveryCodeHash :: "crypto \<Rightarrow> string list \<Rightarrow> string \<Rightarrow> string option" where
  "findRecoveryCodeHash cr storedHashes code =
     (let normalized = normalizeRecoveryCode code
      in if length normalized \<noteq> RECOVERY_GROUPS * RECOVERY_GROUP_LENGTH then None
         else List.find (\<lambda>stored. safeEqual cr stored (hashRecoveryCode cr normalized)) storedHashes)"

definition isMfaLocked :: "user \<Rightarrow> timestamp \<Rightarrow> bool" where
  "isMfaLocked u nowMs = (case u_mfaLockedUntil u of None \<Rightarrow> False | Some t \<Rightarrow> nowMs < t)"

definition lastLockStartedAt :: "user \<Rightarrow> timestamp option" where
  "lastLockStartedAt u = map_option (\<lambda>t. t - MFA_LOCKOUT_MS) (u_mfaLockedUntil u)"

definition isChallengeRevokedByLockout :: "user \<Rightarrow> int \<Rightarrow> bool" where
  "isChallengeRevokedByLockout u iat =
     (case lastLockStartedAt u of None \<Rightarrow> False | Some lockStart \<Rightarrow> iat * 1000 \<le> lockStart)"

subsection \<open>Statements on the account\<close>

definition log_event :: "string \<Rightarrow> mfa_event \<Rightarrow> mfa_db \<Rightarrow> mfa_db" where
  "log_event uid e db = db\<lparr>md_log := md_log db @ [(uid, e)]\<rparr>"

definition not_locked :: "string \<Rightarrow> timestamp \<Rightarrow> user \<Rightarrow> bool" where
  "not_locked uid nowMs u \<longleftrightarrow>
     u_id u = uid \<and> (case u_mfaLockedUntil u of None \<Rightarrow> True | Some t \<Rightarrow> t \<le> nowMs)"

text \<open>The conditional increment: the attempt number, or nothing when the account is locked.\<close>

definition reserveAttempt :: "string \<Rightarrow> timestamp \<Rightarrow> mfa_db \<Rightarrow> nat option \<times> mfa_db" where
  "reserveAttempt uid nowMs db =
     (case find_row (not_locked uid nowMs) (md_users db) of
        None \<Rightarrow> (None, db)
      | Some u \<Rightarrow>
         (let attempt = u_mfaFailedAttempts u + 1;
              db' = db\<lparr>md_users := update_rows (not_locked uid nowMs)
                        (\<lambda>x. x\<lparr>u_mfaFailedAttempts := u_mfaFailedAttempts x + 1\<rparr>) (md_users db)\<rparr>
          in (Some attempt, db')))"

definition lockAccount :: "string \<Rightarrow> timestamp \<Rightarrow> mfa_db \<Rightarrow> unit \<times> mfa_db" where
  "lockAccount uid nowMs db =
     (let db' = db\<lparr>md_users := update_rows (not_locked uid nowMs)
                  (\<lambda>x. x\<lparr>u_mfaFailedAttempts := 0, u_mfaLockedUntil := Some (nowMs + MFA_LOCKOUT_MS)\<rparr>) (md_users db)\<rparr>
      in ((), if count_rows (not_locked uid nowMs) (md_users db) = 0 then db' else log_event uid (LockedAt nowMs) db'))"

definition claim_step :: "string \<Rightarrow> nat \<Rightarrow> mfa_db \<Rightarrow> bool \<times> mfa_db" where
  "claim_step uid step db =
     (let older = (\<lambda>u. u_id u = uid \<and> (case u_mfaLastUsedStep u of None \<Rightarrow> True | Some s \<Rightarrow> s < step));
          db' = db\<lparr>md_users := update_rows older (\<lambda>u. u\<lparr>u_mfaLastUsedStep := Some step\<rparr>) (md_users db)\<rparr>;
          ok = (count_rows older (md_users db) = 1)
      in (ok, if ok then log_event uid (TotpUsed step) db' else db'))"

definition reset_attempts :: "string \<Rightarrow> mfa_db \<Rightarrow> unit \<times> mfa_db" where
  "reset_attempts uid db =
     ((), log_event uid Succeeded
        (db\<lparr>md_users := update_rows (\<lambda>u. u_id u = uid) (\<lambda>u. u\<lparr>u_mfaFailedAttempts := 0\<rparr>) (md_users db)\<rparr>))"

definition consume_recovery :: "user \<Rightarrow> string \<Rightarrow> mfa_db \<Rightarrow> bool \<times> mfa_db" where
  "consume_recovery snap hash db =
     (let remaining = filter (\<lambda>stored. stored \<noteq> hash) (u_mfaRecoveryCodes snap);
          current = (\<lambda>u. u_id u = u_id snap \<and> u_sessionVersion u = u_sessionVersion snap \<and> hash \<in> set (u_mfaRecoveryCodes u));
          db' = db\<lparr>md_users := update_rows current
                    (\<lambda>u. u\<lparr>u_mfaRecoveryCodes := remaining, u_sessionVersion := u_sessionVersion u + 1,
                           u_mfaFailedAttempts := 0\<rparr>) (md_users db)\<rparr>;
          ok = (count_rows current (md_users db) = 1)
      in (ok, if ok then log_event (u_id snap) (RecoveryUsed hash) db' else db'))"

definition load_user :: "string \<Rightarrow> mfa_db \<Rightarrow> user option \<times> mfa_db" where
  "load_user uid db =
     (case find_row (\<lambda>u. u_id u = uid) (md_users db) of
        None \<Rightarrow> (None, db)
      | Some u \<Rightarrow> (Some u, db\<lparr>md_snapshots := md_snapshots db @ [u]\<rparr>))"

subsection \<open>Verifying a second factor\<close>

record mfa_env =
  me_now :: "nat \<Rightarrow> timestamp"
  me_others :: "nat \<Rightarrow> mfa_db \<Rightarrow> mfa_db"
  me_random :: "nat \<Rightarrow> nat"
  me_secret_bytes :: "byte list"

type_synonym mfa_run = "nat \<times> mfa_db"

definition request_statement :: "mfa_env \<Rightarrow> (mfa_db \<Rightarrow> 'a \<times> mfa_db) \<Rightarrow> mfa_run \<Rightarrow> 'a \<times> mfa_run" where
  "request_statement env f r = (case f (me_others env (fst r) (snd r)) of (x, db) \<Rightarrow> (x, (Suc (fst r), db)))"

datatype mfa_error = DecryptFailed | TotpFailed totp_error

datatype claim_result = ClaimOk | ClaimInvalid | ClaimReplayed

datatype fail_reason = Locked | Invalid | Replayed

datatype factor_result = FactorOk string nat int | FactorFail fail_reason

text \<open>
  \<open>None\<close>: the account is locked, no code is evaluated. The history notes \<open>Evaluated\<close> where the code lets
  the request through to evaluate its code (no statement runs there).
\<close>

definition admit :: "string \<Rightarrow> timestamp \<Rightarrow> mfa_run \<Rightarrow> mfa_run" where
  "admit uid nowMs r = (fst r, log_event uid (Evaluated nowMs) (snd r))"

definition reserveCodeAttempt :: "mfa_env \<Rightarrow> string \<Rightarrow> timestamp \<Rightarrow> mfa_run \<Rightarrow> nat option \<times> mfa_run" where
  "reserveCodeAttempt env uid nowMs r =
     (case request_statement env (reserveAttempt uid nowMs) r of
        (None, r1) \<Rightarrow> (None, r1)
      | (Some attempt, r1) \<Rightarrow>
          if MFA_MAX_FAILED_ATTEMPTS < attempt
          then (None, snd (request_statement env (lockAccount uid nowMs) r1))
          else (Some attempt, admit uid nowMs r1))"

definition fail_attempt :: "mfa_env \<Rightarrow> string \<Rightarrow> timestamp \<Rightarrow> nat \<Rightarrow> fail_reason \<Rightarrow> mfa_run \<Rightarrow> factor_result \<times> mfa_run" where
  "fail_attempt env uid nowMs attempt reason r =
     (if MFA_MAX_FAILED_ATTEMPTS \<le> attempt
      then (FactorFail Locked, snd (request_statement env (lockAccount uid nowMs) r))
      else (FactorFail reason, r))"

definition claimTotpCode ::
  "crypto \<Rightarrow> mfa_env \<Rightarrow> user \<Rightarrow> string \<Rightarrow> timestamp \<Rightarrow> mfa_run \<Rightarrow> (mfa_error + claim_result) \<times> mfa_run" where
  "claimTotpCode cr env u code nowMs r =
     (case u_mfaSecret u of
        None \<Rightarrow> (Inr ClaimInvalid, r)
      | Some enc \<Rightarrow>
         if enc = [] then (Inr ClaimInvalid, r)
         else (case cr_decrypt cr enc of
           None \<Rightarrow> (Inl DecryptFailed, r)
         | Some secret \<Rightarrow>
            (case verifyTotp (cr_hmac cr) 6 30 1 secret code nowMs of
               Inl e \<Rightarrow> (Inl (TotpFailed e), r)
             | Inr None \<Rightarrow> (Inr ClaimInvalid, r)
             | Inr (Some step) \<Rightarrow>
                (case request_statement env (claim_step (u_id u) step) r of (ok, r1) \<Rightarrow>
                   (Inr (if ok then ClaimOk else ClaimReplayed), r1)))))"

definition verifySecondFactor ::
  "crypto \<Rightarrow> mfa_env \<Rightarrow> user \<Rightarrow> string option \<Rightarrow> string option \<Rightarrow> mfa_run \<Rightarrow> (mfa_error + factor_result) \<times> mfa_run" where
  "verifySecondFactor cr env u code recoveryCode r =
     (let nowMs = me_now env (fst r)
      in case reserveCodeAttempt env (u_id u) nowMs r of
           (None, r1) \<Rightarrow> (Inr (FactorFail Locked), r1)
         | (Some attempt, r1) \<Rightarrow>
          if given recoveryCode then
            (case findRecoveryCodeHash cr (u_mfaRecoveryCodes u) (the recoveryCode) of
               None \<Rightarrow> (case fail_attempt env (u_id u) nowMs attempt Invalid r1 of (f, r2) \<Rightarrow> (Inr f, r2))
             | Some hash \<Rightarrow>
                (case request_statement env (consume_recovery u hash) r1 of
                   (True, r2) \<Rightarrow>
                     (Inr (FactorOk ''recovery_code'' (length (filter (\<lambda>s. s \<noteq> hash) (u_mfaRecoveryCodes u)))
                             (u_sessionVersion u + 1)), r2)
                 | (False, r2) \<Rightarrow>
                     (case fail_attempt env (u_id u) nowMs attempt Invalid r2 of (f, r3) \<Rightarrow> (Inr f, r3))))
          else if given code then
            (case claimTotpCode cr env u (the code) nowMs r1 of
               (Inl e, r2) \<Rightarrow> (Inl e, r2)
             | (Inr ClaimOk, r2) \<Rightarrow>
                 (Inr (FactorOk ''totp'' (length (u_mfaRecoveryCodes u)) (u_sessionVersion u)),
                  snd (request_statement env (reset_attempts (u_id u)) r2))
             | (Inr c, r2) \<Rightarrow>
                 (case fail_attempt env (u_id u) nowMs attempt (if c = ClaimReplayed then Replayed else Invalid) r2 of
                    (f, r3) \<Rightarrow> (Inr f, r3)))
          else (case fail_attempt env (u_id u) nowMs attempt Invalid r1 of (f, r2) \<Rightarrow> (Inr f, r2)))"

record mfa_status =
  st_eligible :: bool
  st_enabled :: bool
  st_enabledAt :: "timestamp option"
  st_pendingEnrollment :: bool
  st_recoveryCodesRemaining :: nat

definition mfaStatus :: "user \<Rightarrow> mfa_status" where
  "mfaStatus u =
     \<lparr>st_eligible = isMfaEligible (Some u), st_enabled = u_mfaEnabled u, st_enabledAt = u_mfaEnabledAt u,
      st_pendingEnrollment = (\<not> u_mfaEnabled u \<and> given (u_mfaSecret u)),
      st_recoveryCodesRemaining = (if u_mfaEnabled u then length (u_mfaRecoveryCodes u) else 0)\<rparr>"

subsection \<open>The handlers\<close>

text \<open>
  What a handler answers: a status and the reason. \<open>Session\<close> also issues a session cookie with the
  given session version; \<open>Failure\<close> is an exception (the generic 500 answer).
\<close>

datatype mfa_reply =
    Refused nat string
  | Answer string
  | Session int string
  | Failure mfa_error

definition verifyPassword :: "crypto \<Rightarrow> string \<Rightarrow> string \<Rightarrow> bool" where
  "verifyPassword cr password hash \<longleftrightarrow> take 2 hash = ''$2'' \<and> cr_password_ok cr password hash"

definition secondFactorFailure :: "fail_reason \<Rightarrow> nat \<Rightarrow> mfa_reply" where
  "secondFactorFailure reason invalidStatus =
     (case reason of Locked \<Rightarrow> Refused 429 ''locked''
      | Replayed \<Rightarrow> Refused invalidStatus ''replayed''
      | Invalid \<Rightarrow> Refused invalidStatus ''invalid'')"

definition loadStaffUser :: "mfa_env \<Rightarrow> string \<Rightarrow> mfa_run \<Rightarrow> (mfa_reply + user) \<times> mfa_run" where
  "loadStaffUser env uid r =
     (case request_statement env (load_user uid) r of (u, r1) \<Rightarrow>
       (case u of None \<Rightarrow> Inl (Refused 401 ''Unauthorized'')
        | Some x \<Rightarrow> if \<not> u_isActive x then Inl (Refused 401 ''Unauthorized'')
                    else if \<not> isMfaEligible u then Inl (Refused 403 ''staff only'') else Inr x, r1))"

definition enroll_update :: "string \<Rightarrow> string \<Rightarrow> mfa_db \<Rightarrow> unit \<times> mfa_db" where
  "enroll_update uid encryptedSecret db =
     ((), log_event uid Enrolled
        (db\<lparr>md_users := update_rows (\<lambda>u. u_id u = uid)
           (\<lambda>u. u\<lparr>u_mfaSecret := Some encryptedSecret, u_mfaLastUsedStep := None, u_mfaRecoveryCodes := []\<rparr>) (md_users db)\<rparr>))"

definition mfa_enroll :: "crypto \<Rightarrow> mfa_env \<Rightarrow> string \<Rightarrow> string \<Rightarrow> mfa_run \<Rightarrow> mfa_reply \<times> mfa_run" where
  "mfa_enroll cr env uid password r =
     (case loadStaffUser env uid r of
        (Inl reply, r1) \<Rightarrow> (reply, r1)
      | (Inr u, r1) \<Rightarrow>
          if u_mfaEnabled u then (Refused 409 ''already enabled'', r1)
          else if \<not> verifyPassword cr password (u_password u) then (Refused 400 ''password'', r1)
          else (let secret = generateTotpSecret (me_secret_bytes env)
                in (Answer secret, snd (request_statement env (enroll_update (u_id u) (cr_encrypt cr secret)) r1))))"

definition session_version :: "string \<Rightarrow> mfa_db \<Rightarrow> int" where
  "session_version uid db =
     (case find_row (\<lambda>u. u_id u = uid) (md_users db) of None \<Rightarrow> 0 | Some u \<Rightarrow> u_sessionVersion u)"

definition confirm_update :: "string \<Rightarrow> timestamp \<Rightarrow> string list \<Rightarrow> mfa_db \<Rightarrow> int \<times> mfa_db" where
  "confirm_update uid now hashes db =
     (let db' = db\<lparr>md_users := update_rows (\<lambda>u. u_id u = uid)
           (\<lambda>u. u\<lparr>u_mfaEnabled := True, u_mfaEnabledAt := Some now, u_mfaRecoveryCodes := hashes,
                  u_mfaFailedAttempts := 0, u_mfaLockedUntil := None, u_sessionVersion := u_sessionVersion u + 1\<rparr>) (md_users db)\<rparr>
      in (session_version uid db', log_event uid (Confirmed hashes) db'))"

definition mfa_confirm :: "crypto \<Rightarrow> mfa_env \<Rightarrow> string \<Rightarrow> string \<Rightarrow> mfa_run \<Rightarrow> mfa_reply \<times> mfa_run" where
  "mfa_confirm cr env uid code r =
     (case loadStaffUser env uid r of
        (Inl reply, r1) \<Rightarrow> (reply, r1)
      | (Inr u, r1) \<Rightarrow>
          if u_mfaEnabled u then (Refused 409 ''already enabled'', r1)
          else if \<not> given (u_mfaSecret u) then (Refused 400 ''not enrolling'', r1)
          else
         (let nowMs = me_now env (fst r1)
          in case reserveCodeAttempt env (u_id u) nowMs r1 of
               (None, r2) \<Rightarrow> (secondFactorFailure Locked 400, r2)
             | (Some attempt, r2) \<Rightarrow>
                (case claimTotpCode cr env u code (me_now env (fst r2)) r2 of
                   (Inl e, r3) \<Rightarrow> (Failure e, r3)
                 | (Inr ClaimOk, r3) \<Rightarrow>
                    (let (codes, hashes) = generateRecoveryCodes cr (me_random env)
                     in case request_statement env (confirm_update (u_id u) (me_now env (fst r3)) hashes) r3 of
                          (sv, r4) \<Rightarrow> (Session sv ''enabled'', r4))
                 | (Inr _, r3) \<Rightarrow>
                    (case fail_attempt env (u_id u) nowMs attempt Invalid r3 of (f, r4) \<Rightarrow>
                       (if f = FactorFail Locked then secondFactorFailure Locked 400
                        else Refused 400 ''code did not match'', r4)))))"

definition clear_update :: "string \<Rightarrow> mfa_db \<Rightarrow> int \<times> mfa_db" where
  "clear_update uid db =
     (let db' = db\<lparr>md_users := update_rows (\<lambda>u. u_id u = uid)
           (\<lambda>u. u\<lparr>u_mfaEnabled := False, u_mfaSecret := None, u_mfaEnabledAt := None, u_mfaLastUsedStep := None,
                  u_mfaRecoveryCodes := [], u_mfaFailedAttempts := 0, u_mfaLockedUntil := None,
                  u_sessionVersion := u_sessionVersion u + 1\<rparr>) (md_users db)\<rparr>
      in (session_version uid db', log_event uid Cleared db'))"

definition mfa_disable ::
  "crypto \<Rightarrow> mfa_env \<Rightarrow> string \<Rightarrow> string \<Rightarrow> string option \<Rightarrow> string option \<Rightarrow> mfa_run \<Rightarrow> mfa_reply \<times> mfa_run" where
  "mfa_disable cr env uid password code recoveryCode r =
     (case loadStaffUser env uid r of
        (Inl reply, r1) \<Rightarrow> (reply, r1)
      | (Inr u, r1) \<Rightarrow>
          if \<not> u_mfaEnabled u then (Refused 400 ''not enabled'', r1)
          else if \<not> verifyPassword cr password (u_password u) then (Refused 400 ''password'', r1)
          else (case verifySecondFactor cr env u code recoveryCode r1 of
                  (Inl e, r2) \<Rightarrow> (Failure e, r2)
                | (Inr (FactorFail reason), r2) \<Rightarrow> (secondFactorFailure reason 400, r2)
                | (Inr (FactorOk meth n sv), r2) \<Rightarrow>
                    (case request_statement env (clear_update (u_id u)) r2 of (sv', r3) \<Rightarrow> (Session sv' ''disabled'', r3))))"

text \<open>The second login step, for a challenge that verified (user id, session version, issue time).\<close>

definition login_mfa ::
  "crypto \<Rightarrow> mfa_env \<Rightarrow> (string \<times> int \<times> int) option \<Rightarrow> string option \<Rightarrow> string option \<Rightarrow> mfa_run \<Rightarrow> mfa_reply \<times> mfa_run" where
  "login_mfa cr env challenge code recoveryCode r =
     (case challenge of
        None \<Rightarrow> (Refused 401 ''MFA_CHALLENGE_EXPIRED'', r)
      | Some (uid, sv, iat) \<Rightarrow>
         (case request_statement env (load_user uid) r of
            (None, r1) \<Rightarrow> (Refused 401 ''MFA_CHALLENGE_EXPIRED'', r1)
          | (Some u, r1) \<Rightarrow>
              if \<not> u_isActive u \<or> u_sessionVersion u \<noteq> sv \<or> \<not> isMfaRequired (Some u) \<or> isChallengeRevokedByLockout u iat
              then (Refused 401 ''MFA_CHALLENGE_EXPIRED'', r1)
              else (case verifySecondFactor cr env u code recoveryCode r1 of
                      (Inl e, r2) \<Rightarrow> (Failure e, r2)
                    | (Inr (FactorFail reason), r2) \<Rightarrow> (secondFactorFailure reason 401, r2)
                    | (Inr (FactorOk meth n sv'), r2) \<Rightarrow> (Session sv' meth, r2))))"

definition mfa_admin_reset ::
  "crypto \<Rightarrow> mfa_env \<Rightarrow> string \<Rightarrow> string \<Rightarrow> string \<Rightarrow> string option \<Rightarrow> string option \<Rightarrow> mfa_run \<Rightarrow> mfa_reply \<times> mfa_run" where
  "mfa_admin_reset cr env adminId userId password code recoveryCode r =
     (case request_statement env (load_user adminId) r of
        (None, r1) \<Rightarrow> (Refused 401 ''Unauthorized'', r1)
      | (Some admin, r1) \<Rightarrow>
          if \<not> u_isActive admin then (Refused 401 ''Unauthorized'', r1)
          else if u_role admin \<noteq> ''ADMIN'' then (Refused 403 ''Admin access required'', r1)
          else if userId = u_id admin then (Refused 400 ''own account'', r1)
          else if \<not> verifyPassword cr password (u_password admin) then (Refused 400 ''password'', r1)
          else if isMfaRequired (Some admin) \<and> \<not> given code \<and> \<not> given recoveryCode
            then (Refused 400 ''MFA_CODE_REQUIRED'', r1)
          else
         (case (if isMfaRequired (Some admin) then verifySecondFactor cr env admin code recoveryCode r1
                else (Inr (FactorOk ''none'' 0 (u_sessionVersion admin)), r1)) of
            (Inl e, r2) \<Rightarrow> (Failure e, r2)
          | (Inr (FactorFail reason), r2) \<Rightarrow> (secondFactorFailure reason 400, r2)
          | (Inr (FactorOk meth n sv), r2) \<Rightarrow>
             (case request_statement env (load_user userId) r2 of
                (None, r3) \<Rightarrow> (Refused 404 ''User not found'', r3)
              | (Some target, r3) \<Rightarrow>
                  if \<not> given (u_organizationId admin) \<or> u_organizationId target \<noteq> u_organizationId admin
                  then (Refused 404 ''User not found'', r3)
                  else (case request_statement env (clear_update (u_id target)) r3 of (_, r4) \<Rightarrow> (Answer ''reset'', r4)))))"

subsection \<open>What the second factor promises\<close>

text \<open>
  The specification of one account: how many codes may still be evaluated before the lock, until
  when it is locked, the last TOTP step used and the recovery codes left.
\<close>

record mfa_spec =
  sp_guesses :: nat
  sp_lockedUntil :: "timestamp option"
  sp_lastStep :: "nat option"
  sp_codes :: "string list"

definition open_at :: "timestamp option \<Rightarrow> timestamp \<Rightarrow> bool" where
  "open_at locked t \<longleftrightarrow> (case locked of None \<Rightarrow> True | Some l \<Rightarrow> l \<le> t)"

fun spec_event :: "mfa_event \<Rightarrow> mfa_spec \<Rightarrow> mfa_spec option" where
  "spec_event (Evaluated t) s =
     (if sp_guesses s < 5 \<and> open_at (sp_lockedUntil s) t then Some (s\<lparr>sp_guesses := sp_guesses s + 1\<rparr>) else None)"
| "spec_event (LockedAt t) s =
     (if open_at (sp_lockedUntil s) t then Some (s\<lparr>sp_guesses := 0, sp_lockedUntil := Some (t + 15 * 60 * 1000)\<rparr>) else None)"
| "spec_event (TotpUsed n) s =
     (if (case sp_lastStep s of None \<Rightarrow> True | Some l \<Rightarrow> l < n) then Some (s\<lparr>sp_lastStep := Some n\<rparr>) else None)"
| "spec_event (RecoveryUsed h) s =
     (if h \<in> set (sp_codes s) then Some (s\<lparr>sp_codes := filter (\<lambda>c. c \<noteq> h) (sp_codes s), sp_guesses := 0\<rparr>) else None)"
| "spec_event Succeeded s = Some (s\<lparr>sp_guesses := 0\<rparr>)"
| "spec_event Enrolled s = Some (s\<lparr>sp_lastStep := None, sp_codes := []\<rparr>)"
| "spec_event (Confirmed hs) s = Some (s\<lparr>sp_codes := hs, sp_guesses := 0, sp_lockedUntil := None\<rparr>)"
| "spec_event Cleared s = Some \<lparr>sp_guesses = 0, sp_lockedUntil = None, sp_lastStep = None, sp_codes = []\<rparr>"

primrec spec_run :: "mfa_event list \<Rightarrow> mfa_spec \<Rightarrow> mfa_spec option" where
  "spec_run [] s = Some s"
| "spec_run (e # es) s = (case spec_event e s of None \<Rightarrow> None | Some s' \<Rightarrow> spec_run es s')"

lemma spec_run_append:
  "spec_run (es @ [e]) s = (case spec_run es s of None \<Rightarrow> None | Some s' \<Rightarrow> spec_event e s')"
  by (induction es arbitrary: s) (auto split: option.splits)

definition events_of :: "string \<Rightarrow> mfa_db \<Rightarrow> mfa_event list" where
  "events_of uid db = map snd (filter (\<lambda>e. fst e = uid) (md_log db))"

definition spec_of :: "user \<Rightarrow> mfa_spec" where
  "spec_of u = \<lparr>sp_guesses = u_mfaFailedAttempts u, sp_lockedUntil = u_mfaLockedUntil u,
     sp_lastStep = u_mfaLastUsedStep u, sp_codes = u_mfaRecoveryCodes u\<rparr>"

text \<open>The row keeps at least as many failed attempts as codes were evaluated, and the rest exactly.\<close>

definition matches :: "mfa_spec \<Rightarrow> user \<Rightarrow> bool" where
  "matches s u \<longleftrightarrow>
     sp_guesses s \<le> u_mfaFailedAttempts u \<and> sp_lockedUntil s = u_mfaLockedUntil u \<and>
     sp_lastStep s = u_mfaLastUsedStep u \<and> sp_codes s = u_mfaRecoveryCodes u"

text \<open>A row read before: an equal session version means the recovery codes are the same, or none are left.\<close>

definition snapshot_ok :: "user \<Rightarrow> user \<Rightarrow> bool" where
  "snapshot_ok s u \<longleftrightarrow>
     u_sessionVersion s \<le> u_sessionVersion u \<and>
     (u_sessionVersion s = u_sessionVersion u \<longrightarrow> u_mfaRecoveryCodes u \<in> {u_mfaRecoveryCodes s, []})"

definition tracked :: "string \<Rightarrow> mfa_spec \<Rightarrow> mfa_db \<Rightarrow> bool" where
  "tracked uid s0 db \<longleftrightarrow>
     distinct (map u_id (md_users db)) \<and>
     (\<exists>u s. find_row (\<lambda>x. u_id x = uid) (md_users db) = Some u \<and> spec_run (events_of uid db) s0 = Some s \<and> matches s u \<and>
            (\<forall>x \<in> set (md_snapshots db). u_id x = uid \<longrightarrow> snapshot_ok x u))"

lemma find_update_user:
  assumes "\<And>r. u_id (f r) = u_id r" and "find_row (\<lambda>x. u_id x = uid) rows = Some u"
  shows "find_row (\<lambda>x. u_id x = uid) (update_rows P f rows) = Some (if P u then f u else u)"
  using keyed_update.find_update [OF keyed_update.intro, of u_id f, OF assms(1)] assms(2) by simp

lemma snapshot_ok_trans: "snapshot_ok x u \<Longrightarrow> snapshot_ok u v \<Longrightarrow> snapshot_ok x v"
  unfolding snapshot_ok_def by auto

lemma tracked_step:
  assumes tr: "tracked uid s0 db" and us: "md_users db' = update_rows P f (md_users db)"
    and id: "\<And>r. u_id (f r) = u_id r" and P: "\<And>r. P r \<Longrightarrow> u_id r = k"
    and sn: "md_snapshots db' = md_snapshots db" and lg: "md_log db' = md_log db @ (if logged then [(k, e)] else [])"
    and own: "\<And>u s. k = uid \<Longrightarrow> find_row (\<lambda>x. u_id x = uid) (md_users db) = Some u \<Longrightarrow> matches s u \<Longrightarrow>
      (\<forall>x \<in> set (md_snapshots db). u_id x = uid \<longrightarrow> snapshot_ok x u) \<Longrightarrow>
      snapshot_ok u (if P u then f u else u) \<and>
      (if logged then \<exists>s'. spec_event e s = Some s' \<and> matches s' (if P u then f u else u) else matches s (if P u then f u else u))"
  shows "tracked uid s0 db'"
proof -
  obtain u s where u: "find_row (\<lambda>x. u_id x = uid) (md_users db) = Some u" "spec_run (events_of uid db) s0 = Some s" "matches s u"
      "\<forall>x \<in> set (md_snapshots db). u_id x = uid \<longrightarrow> snapshot_ok x u" and d: "distinct (map u_id (md_users db))"
    using tr by (auto simp: tracked_def)
  let ?u = "if P u then f u else u"
  have f: "find_row (\<lambda>x. u_id x = uid) (md_users db') = Some ?u"
    unfolding us using find_update_user [OF id u(1), of P] .
  have "map u_id (md_users db') = map u_id (md_users db)" by (simp add: us update_rows_def id)
  then have d': "distinct (map u_id (md_users db'))" using d by simp
  have uid: "u_id u = uid" using find_row_SomeD [OF u(1)] by simp
  show ?thesis
  proof (cases "k = uid")
    case True
    have ev: "events_of uid db' = events_of uid db @ (if logged then [e] else [])" using lg True by (simp add: events_of_def)
    note o = own [OF True u(1,3,4)]
    then have snap: "\<forall>x \<in> set (md_snapshots db'). u_id x = uid \<longrightarrow> snapshot_ok x ?u"
      using u(4) sn snapshot_ok_trans by metis
    obtain s' where "spec_run (events_of uid db') s0 = Some s'" "matches s' ?u"
      using o u(2) ev by (cases logged) (auto simp: spec_run_append)
    then show ?thesis using f d' snap unfolding tracked_def by blast
  next
    case False
    then have "\<not> P u" using P uid by blast
    moreover have "events_of uid db' = events_of uid db" using lg False by (simp add: events_of_def)
    ultimately show ?thesis using f d' u sn by (auto simp: tracked_def)
  qed
qed

lemma count_users:
  assumes "distinct (map u_id rows)" and "find_row (\<lambda>x. u_id x = uid) rows = Some u" and "\<And>r. P r \<Longrightarrow> u_id r = uid"
  shows "count_rows P rows = (if P u then 1 else 0)"
proof (cases "P u")
  case True
  have "count_rows P rows \<le> 1" using assms(1,3) by (rule count_by_key)
  moreover have "0 < count_rows P rows" using True find_row_SomeD [OF assms(2)] by (intro count_rows_pos) auto
  ultimately show ?thesis using True by simp
next
  case False
  have "r = u" if "r \<in> set rows" "u_id r = uid" for r
    using assms(1,2) that find_row_distinct [OF assms(1) that(1)] by simp
  then have "\<forall>r \<in> set rows. \<not> P r" using False assms(3) by blast
  then show ?thesis using False by (simp add: count_rows_0_iff)
qed

lemma tracked_distinct: "tracked uid s0 db \<Longrightarrow> distinct (map u_id (md_users db))"
  by (simp add: tracked_def)

lemma find_not_locked:
  assumes "distinct (map u_id rows)" and "find_row (\<lambda>x. u_id x = uid) rows = Some u"
  shows "find_row (not_locked uid t) rows = (if not_locked uid t u then Some u else None)"
proof -
  have u: "u \<in> set rows" "u_id u = uid" using find_row_SomeD [OF assms(2)] by auto
  have un: "r = u" if "r \<in> set rows" "u_id r = uid" for r
    using assms that find_row_distinct [OF assms(1) that(1)] by simp
  show ?thesis
  proof (cases "find_row (not_locked uid t) rows")
    case None
    then show ?thesis using u(1) by (auto simp: find_row_None_iff)
  next
    case (Some r)
    then have "r \<in> set rows" "not_locked uid t r" using find_row_SomeD by fastforce+
    then show ?thesis using un [of r] Some by (auto simp: not_locked_def)
  qed
qed

subsection \<open>Each statement follows the specification\<close>

lemma not_locked_open: "not_locked uid t u \<longleftrightarrow> u_id u = uid \<and> open_at (u_mfaLockedUntil u) t"
  by (simp add: not_locked_def open_at_def)

lemma reserve_tracked:
  assumes tr: "tracked uid s0 db" shows "tracked uid s0 (snd (reserveAttempt k t db))"
proof (cases "find_row (not_locked k t) (md_users db)")
  case None
  then show ?thesis using tr by (simp add: reserveAttempt_def)
next
  case (Some r)
  show ?thesis
    by (rule tracked_step [OF tr, where P = "not_locked k t" and k = k and logged = False
          and f = "\<lambda>x. x\<lparr>u_mfaFailedAttempts := u_mfaFailedAttempts x + 1\<rparr>"])
      (auto simp: reserveAttempt_def Some Let_def not_locked_def snapshot_ok_def matches_def)
qed

text \<open>An attempt within the budget whose code is evaluated.\<close>

lemma admit_tracked:
  assumes tr: "tracked uid s0 db" and a: "reserveAttempt k t db = (Some n, db')" and n: "n \<le> MFA_MAX_FAILED_ATTEMPTS"
  shows "tracked uid s0 (log_event k (Evaluated t) db')"
proof -
  obtain r where Some: "find_row (not_locked k t) (md_users db) = Some r" and r: "n = u_mfaFailedAttempts r + 1"
    using a by (auto simp: reserveAttempt_def Let_def split: option.splits)
  show ?thesis
  proof (rule tracked_step [OF tr, where P = "not_locked k t" and k = k and e = "Evaluated t" and logged = True
        and f = "\<lambda>x. x\<lparr>u_mfaFailedAttempts := u_mfaFailedAttempts x + 1\<rparr>"])
    fix u s assume k: "k = uid" and u: "find_row (\<lambda>x. u_id x = uid) (md_users db) = Some u" and m: "matches s u"
    have "r = u \<and> not_locked k t u"
      using find_not_locked [OF tracked_distinct [OF tr] u, of t] Some k by (auto split: if_splits)
    then show "snapshot_ok u (if not_locked k t u then u\<lparr>u_mfaFailedAttempts := u_mfaFailedAttempts u + 1\<rparr> else u) \<and>
        (if True then
           \<exists>s'. spec_event (Evaluated t) s = Some s' \<and>
             matches s' (if not_locked k t u then u\<lparr>u_mfaFailedAttempts := u_mfaFailedAttempts u + 1\<rparr> else u)
         else matches s (if not_locked k t u then u\<lparr>u_mfaFailedAttempts := u_mfaFailedAttempts u + 1\<rparr> else u))"
      using m n r by (auto simp: snapshot_ok_def matches_def not_locked_open MFA_MAX_FAILED_ATTEMPTS_def)
  qed (use a in \<open>auto simp: reserveAttempt_def Some Let_def log_event_def not_locked_def\<close>)
qed

lemma lock_tracked:
  assumes tr: "tracked uid s0 db" shows "tracked uid s0 (snd (lockAccount k t db))"
proof (rule tracked_step [OF tr, where P = "not_locked k t" and k = k and e = "LockedAt t"
      and logged = "count_rows (not_locked k t) (md_users db) \<noteq> 0"
      and f = "\<lambda>x. x\<lparr>u_mfaFailedAttempts := 0, u_mfaLockedUntil := Some (t + MFA_LOCKOUT_MS)\<rparr>"])
  fix u s assume k: "k = uid" and u: "find_row (\<lambda>x. u_id x = uid) (md_users db) = Some u" and m: "matches s u"
  have "count_rows (not_locked k t) (md_users db) = (if not_locked k t u then 1 else 0)"
    using k by (intro count_users [OF tracked_distinct [OF tr] u]) (simp add: not_locked_def)
  then show "snapshot_ok u (if not_locked k t u then u\<lparr>u_mfaFailedAttempts := 0, u_mfaLockedUntil := Some (t + MFA_LOCKOUT_MS)\<rparr> else u) \<and>
      (if count_rows (not_locked k t) (md_users db) \<noteq> 0 then
         \<exists>s'. spec_event (LockedAt t) s = Some s' \<and>
           matches s' (if not_locked k t u then u\<lparr>u_mfaFailedAttempts := 0, u_mfaLockedUntil := Some (t + MFA_LOCKOUT_MS)\<rparr> else u)
       else matches s (if not_locked k t u then u\<lparr>u_mfaFailedAttempts := 0, u_mfaLockedUntil := Some (t + MFA_LOCKOUT_MS)\<rparr> else u))"
    using m by (auto simp: snapshot_ok_def matches_def not_locked_open MFA_LOCKOUT_MS_def)
qed (auto simp: lockAccount_def Let_def log_event_def not_locked_def)

lemma claim_tracked:
  assumes tr: "tracked uid s0 db" shows "tracked uid s0 (snd (claim_step k n db))"
proof -
  define P where "P u \<longleftrightarrow> u_id u = k \<and> (case u_mfaLastUsedStep u of None \<Rightarrow> True | Some s \<Rightarrow> s < n)" for u :: user
  have eq: "claim_step k n db = (count_rows P (md_users db) = 1,
      (let db' = db\<lparr>md_users := update_rows P (\<lambda>u. u\<lparr>u_mfaLastUsedStep := Some n\<rparr>) (md_users db)\<rparr>
       in if count_rows P (md_users db) = 1 then log_event k (TotpUsed n) db' else db'))"
    unfolding claim_step_def Let_def P_def ..
  show ?thesis
  proof (rule tracked_step [OF tr, where P = P and k = k and e = "TotpUsed n"
        and logged = "count_rows P (md_users db) = 1" and f = "\<lambda>u. u\<lparr>u_mfaLastUsedStep := Some n\<rparr>"])
    fix u s assume k: "k = uid" and u: "find_row (\<lambda>x. u_id x = uid) (md_users db) = Some u" and m: "matches s u"
    have "count_rows P (md_users db) = (if P u then 1 else 0)"
      using k by (intro count_users [OF tracked_distinct [OF tr] u]) (simp add: P_def)
    then show "snapshot_ok u (if P u then u\<lparr>u_mfaLastUsedStep := Some n\<rparr> else u) \<and>
        (if count_rows P (md_users db) = 1 then \<exists>s'. spec_event (TotpUsed n) s = Some s' \<and> matches s' (if P u then u\<lparr>u_mfaLastUsedStep := Some n\<rparr> else u)
         else matches s (if P u then u\<lparr>u_mfaLastUsedStep := Some n\<rparr> else u))"
      using m by (auto simp: snapshot_ok_def matches_def P_def)
  qed (auto simp: eq Let_def log_event_def P_def)
qed

lemma consume_tracked:
  assumes tr: "tracked uid s0 db" and sn: "snap \<in> set (md_snapshots db)"
  shows "tracked uid s0 (snd (consume_recovery snap h db))"
proof -
  let ?k = "u_id snap"
  define P where "P u \<longleftrightarrow> u_id u = ?k \<and> u_sessionVersion u = u_sessionVersion snap \<and> h \<in> set (u_mfaRecoveryCodes u)" for u :: user
  define f where "f u = u\<lparr>u_mfaRecoveryCodes := filter (\<lambda>stored. stored \<noteq> h) (u_mfaRecoveryCodes snap),
      u_sessionVersion := u_sessionVersion u + 1, u_mfaFailedAttempts := 0\<rparr>" for u :: user
  have eq: "consume_recovery snap h db = (count_rows P (md_users db) = 1,
      (let db' = db\<lparr>md_users := update_rows P f (md_users db)\<rparr>
       in if count_rows P (md_users db) = 1 then log_event ?k (RecoveryUsed h) db' else db'))"
    unfolding consume_recovery_def Let_def P_def f_def ..
  show ?thesis
  proof (rule tracked_step [OF tr, where P = P and k = ?k and e = "RecoveryUsed h"
        and logged = "count_rows P (md_users db) = 1" and f = f])
    fix u s assume k: "?k = uid" and u: "find_row (\<lambda>x. u_id x = uid) (md_users db) = Some u" and m: "matches s u"
      and all: "\<forall>x \<in> set (md_snapshots db). u_id x = uid \<longrightarrow> snapshot_ok x u"
    have c: "count_rows P (md_users db) = (if P u then 1 else 0)"
      using k by (intro count_users [OF tracked_distinct [OF tr] u]) (simp add: P_def)
    have "u_mfaRecoveryCodes u = u_mfaRecoveryCodes snap" if "P u"
      using all sn k that by (auto simp: snapshot_ok_def P_def)
    then show "snapshot_ok u (if P u then f u else u) \<and>
        (if count_rows P (md_users db) = 1 then \<exists>s'. spec_event (RecoveryUsed h) s = Some s' \<and> matches s' (if P u then f u else u)
         else matches s (if P u then f u else u))"
      using m c by (auto simp: snapshot_ok_def matches_def P_def f_def)
  qed (auto simp: eq Let_def log_event_def P_def f_def)
qed

lemma own_update_tracked:
  assumes tr: "tracked uid s0 db" and us: "md_users db' = update_rows (\<lambda>u. u_id u = k) f (md_users db)"
    and id: "\<And>r. u_id (f r) = u_id r" and sn: "md_snapshots db' = md_snapshots db" and lg: "md_log db' = md_log db @ [(k, e)]"
    and own: "\<And>u s. matches s u \<Longrightarrow> snapshot_ok u (f u) \<and> (\<exists>s'. spec_event e s = Some s' \<and> matches s' (f u))"
  shows "tracked uid s0 db'"
proof (rule tracked_step [OF tr us id _ sn, where k = k and e = e and logged = True])
  fix u s assume "k = uid" and u: "find_row (\<lambda>x. u_id x = uid) (md_users db) = Some u" and m: "matches s u"
  then have "u_id u = k" using find_row_SomeD [OF u] by simp
  then show "snapshot_ok u (if u_id u = k then f u else u) \<and>
      (if True then \<exists>s'. spec_event e s = Some s' \<and> matches s' (if u_id u = k then f u else u)
       else matches s (if u_id u = k then f u else u))" using own [OF m] by simp
qed (simp_all add: lg)

lemma reset_tracked: "tracked uid s0 db \<Longrightarrow> tracked uid s0 (snd (reset_attempts k db))"
  by (rule own_update_tracked [where k = k and e = Succeeded and f = "\<lambda>u. u\<lparr>u_mfaFailedAttempts := 0\<rparr>"])
    (auto simp: reset_attempts_def log_event_def matches_def snapshot_ok_def)

lemma enroll_tracked: "tracked uid s0 db \<Longrightarrow> tracked uid s0 (snd (enroll_update k enc db))"
  by (rule own_update_tracked [where k = k and e = Enrolled
        and f = "\<lambda>u. u\<lparr>u_mfaSecret := Some enc, u_mfaLastUsedStep := None, u_mfaRecoveryCodes := []\<rparr>"])
    (auto simp: enroll_update_def log_event_def matches_def snapshot_ok_def)

lemma confirm_tracked: "tracked uid s0 db \<Longrightarrow> tracked uid s0 (snd (confirm_update k now hs db))"
  by (rule own_update_tracked [where k = k and e = "Confirmed hs"
        and f = "\<lambda>u. u\<lparr>u_mfaEnabled := True, u_mfaEnabledAt := Some now, u_mfaRecoveryCodes := hs,
                  u_mfaFailedAttempts := 0, u_mfaLockedUntil := None, u_sessionVersion := u_sessionVersion u + 1\<rparr>"])
    (auto simp: confirm_update_def Let_def log_event_def matches_def snapshot_ok_def)

lemma clear_tracked: "tracked uid s0 db \<Longrightarrow> tracked uid s0 (snd (clear_update k db))"
  by (rule own_update_tracked [where k = k and e = Cleared
        and f = "\<lambda>u. u\<lparr>u_mfaEnabled := False, u_mfaSecret := None, u_mfaEnabledAt := None, u_mfaLastUsedStep := None,
                  u_mfaRecoveryCodes := [], u_mfaFailedAttempts := 0, u_mfaLockedUntil := None,
                  u_sessionVersion := u_sessionVersion u + 1\<rparr>"])
    (auto simp: clear_update_def Let_def log_event_def matches_def snapshot_ok_def)

lemma load_tracked:
  assumes tr: "tracked uid s0 db" shows "tracked uid s0 (snd (load_user k db))"
proof (cases "find_row (\<lambda>u. u_id u = k) (md_users db)")
  case None
  then show ?thesis using tr by (simp add: load_user_def)
next
  case (Some x)
  have "snapshot_ok x u" if "find_row (\<lambda>u. u_id u = uid) (md_users db) = Some u" "u_id x = uid" for u
  proof -
    have "k = uid" using find_row_SomeD [OF Some] that(2) by simp
    then show ?thesis using Some that(1) by (simp add: snapshot_ok_def)
  qed
  then show ?thesis using tr Some by (auto simp: tracked_def load_user_def events_of_def)
qed

text \<open>
  One statement of any request (\<open>admitted\<close>: a reservation within the budget, after which the request
  evaluates its code), or a change of the account elsewhere that leaves the second factor
  alone and never lowers the session version.
\<close>

inductive mfa_step :: "mfa_db \<Rightarrow> mfa_db \<Rightarrow> bool" where
  loaded: "mfa_step db (snd (load_user k db))"
| reserved: "mfa_step db (snd (reserveAttempt k t db))"
| admitted: "reserveAttempt k t db = (Some n, db') \<Longrightarrow> n \<le> MFA_MAX_FAILED_ATTEMPTS \<Longrightarrow>
     mfa_step db (log_event k (Evaluated t) db')"
| locked: "mfa_step db (snd (lockAccount k t db))"
| claimed: "mfa_step db (snd (claim_step k n db))"
| reset: "mfa_step db (snd (reset_attempts k db))"
| consumed: "snap \<in> set (md_snapshots db) \<Longrightarrow> mfa_step db (snd (consume_recovery snap h db))"
| enrolled: "mfa_step db (snd (enroll_update k enc db))"
| confirmed: "mfa_step db (snd (confirm_update k now hs db))"
| cleared: "mfa_step db (snd (clear_update k db))"
| edited: "(\<And>u. u_id (f u) = u_id u \<and> spec_of (f u) = spec_of u \<and> u_sessionVersion u \<le> u_sessionVersion (f u)) \<Longrightarrow>
     mfa_step db (db\<lparr>md_users := update_rows (\<lambda>u. u_id u = k) f (md_users db)\<rparr>)"

lemma edit_tracked:
  assumes tr: "tracked uid s0 db"
    and f: "\<And>u. u_id (f u) = u_id u \<and> spec_of (f u) = spec_of u \<and> u_sessionVersion u \<le> u_sessionVersion (f u)"
  shows "tracked uid s0 (db\<lparr>md_users := update_rows (\<lambda>u. u_id u = k) f (md_users db)\<rparr>)"
proof (rule tracked_step [OF tr, where P = "\<lambda>u. u_id u = k" and k = k and f = f and logged = False])
  fix u s assume "matches s u"
  moreover have "matches s (f u)" "snapshot_ok u (f u)" if "matches s u"
    using that f [of u] by (auto simp: matches_def snapshot_ok_def spec_of_def)
  ultimately show "snapshot_ok u (if u_id u = k then f u else u) \<and> (if False then \<exists>s'. spec_event undefined s = Some s' \<and>
      matches s' (if u_id u = k then f u else u) else matches s (if u_id u = k then f u else u))"
    by (simp add: snapshot_ok_def)
qed (use f in auto)

lemma step_tracked: "mfa_step db db' \<Longrightarrow> tracked uid s0 db \<Longrightarrow> tracked uid s0 db'"
  by (induction rule: mfa_step.induct)
    (auto intro: load_tracked reserve_tracked admit_tracked lock_tracked claim_tracked reset_tracked consume_tracked
      enroll_tracked confirm_tracked clear_tracked edit_tracked)

lemma steps_tracked: "mfa_step\<^sup>*\<^sup>* db db' \<Longrightarrow> tracked uid s0 db \<Longrightarrow> tracked uid s0 db'"
  by (induction rule: rtranclp_induct) (auto intro: step_tracked)

lemma mfa_history:
  assumes "mfa_step\<^sup>*\<^sup>* \<lparr>md_users = users, md_snapshots = [], md_log = []\<rparr> db"
    and "distinct (map u_id users)" and "u \<in> set users"
  shows "spec_run (events_of (u_id u) db) (spec_of u) \<noteq> None"
proof -
  have "tracked (u_id u) (spec_of u) \<lparr>md_users = users, md_snapshots = [], md_log = []\<rparr>"
    using find_row_distinct [OF assms(2,3)] assms(2) by (auto simp: tracked_def events_of_def matches_def spec_of_def)
  from steps_tracked [OF assms(1) this] show ?thesis by (auto simp: tracked_def)
qed

text \<open>C22: The second factor keeps its promises under any interleaving of requests. The history of every
  account is one the specification allows: at most five codes are evaluated before the account
  locks (or a factor succeeds), none while it is locked, a lock lasts fifteen minutes, TOTP steps
  are used in increasing order and each recovery code once.\<close>

theorem mfa_refines:
  assumes "mfa_step\<^sup>*\<^sup>* \<lparr>md_users = users, md_snapshots = [], md_log = []\<rparr> db"
    and "distinct (map u_id users)" and "u \<in> set users"
  shows "spec_run (events_of (u_id u) db) (spec_of u) \<noteq> None"
  using assms by (rule mfa_history)

subsection \<open>What follows for an attacker\<close>


definition lock_times :: "mfa_event list \<Rightarrow> timestamp list" where
  "lock_times es = List.map_filter (\<lambda>e. case e of LockedAt t \<Rightarrow> Some t | _ \<Rightarrow> None) es"


lemma lock_times_simps [simp]:
  "lock_times [] = []" "lock_times (Evaluated t # es) = lock_times es" "lock_times (LockedAt t # es) = t # lock_times es"
  by (simp_all add: lock_times_def map_filter_simps)




lemma used_code_gone:
  "spec_run es s = Some s' \<Longrightarrow> \<forall>hs. Confirmed hs \<notin> set es \<Longrightarrow>
   count_list es (RecoveryUsed h) \<le> (if h \<in> set (sp_codes s) then 1 else 0)"
proof (induction es arbitrary: s)
  case (Cons e es)
  obtain s1 where s1: "spec_event e s = Some s1" "spec_run es s1 = Some s'"
    using Cons.prems(1) by (auto split: option.splits)
  have ih: "count_list es (RecoveryUsed h) \<le> (if h \<in> set (sp_codes s1) then 1 else 0)"
    using Cons.IH [OF s1(2)] Cons.prems(2) by simp
  show ?case using s1(1) ih Cons.prems(2) by (cases e) (auto split: if_splits)
qed simp

text \<open>A recovery code is accepted at most once, also by concurrent requests that read the account before
  it was used, until new codes are issued.\<close>

theorem recovery_code_once:
  assumes "mfa_step\<^sup>*\<^sup>* \<lparr>md_users = users, md_snapshots = [], md_log = []\<rparr> db"
    and "distinct (map u_id users)" and "u \<in> set users" and "\<forall>hs. Confirmed hs \<notin> set (events_of (u_id u) db)"
  shows "count_list (events_of (u_id u) db) (RecoveryUsed h) \<le> 1"
proof -
  obtain s where s: "spec_run (events_of (u_id u) db) (spec_of u) = Some s" using mfa_history [OF assms(1-3)] by auto
  show ?thesis using used_code_gone [OF s assms(4), of h] by (simp split: if_splits)
qed

subsection \<open>Requests are sequences of these statements\<close>

definition others_step :: "mfa_env \<Rightarrow> bool" where
  "others_step env \<longleftrightarrow> (\<forall>k db. mfa_step\<^sup>*\<^sup>* db (me_others env k db))"

lemma step_snapshots: "mfa_step db db' \<Longrightarrow> set (md_snapshots db) \<subseteq> set (md_snapshots db')"
  by (erule mfa_step.cases)
    (auto simp: load_user_def reserveAttempt_def lockAccount_def claim_step_def reset_attempts_def consume_recovery_def
      enroll_update_def confirm_update_def clear_update_def log_event_def Let_def split: option.splits)

lemma steps_snapshots: "mfa_step\<^sup>*\<^sup>* db db' \<Longrightarrow> set (md_snapshots db) \<subseteq> set (md_snapshots db')"
  by (induction rule: rtranclp_induct) (auto dest: step_snapshots)

lemma request_statement_steps:
  assumes "others_step env" and "request_statement env f r = (x, r')"
    and "\<And>db. set (md_snapshots (snd r)) \<subseteq> set (md_snapshots db) \<Longrightarrow> mfa_step db (snd (f db))"
  shows "mfa_step\<^sup>*\<^sup>* (snd r) (snd r')"
proof -
  let ?db = "me_others env (fst r) (snd r)"
  have o: "mfa_step\<^sup>*\<^sup>* (snd r) ?db" using assms(1) by (simp add: others_step_def)
  have "mfa_step ?db (snd (f ?db))" using steps_snapshots [OF o] by (rule assms(3))
  moreover have "snd r' = snd (f ?db)" using assms(2) by (auto simp: request_statement_def split: prod.splits)
  ultimately show ?thesis using o by (simp add: rtranclp.rtrancl_into_rtrancl)
qed

lemma simple_statement_steps:
  assumes "others_step env" and "\<And>db. mfa_step db (snd (f db))"
  shows "mfa_step\<^sup>*\<^sup>* (snd r) (snd (snd (request_statement env f r)))"
  by (rule request_statement_steps [OF assms(1) _ assms(2)]) (rule prod.collapse [symmetric])

lemma statement_steps:
  assumes "others_step env"
  shows "mfa_step\<^sup>*\<^sup>* (snd r) (snd (snd (request_statement env (reserveAttempt k t) r)))"
    and "mfa_step\<^sup>*\<^sup>* (snd r) (snd (snd (request_statement env (lockAccount k t) r)))"
    and "mfa_step\<^sup>*\<^sup>* (snd r) (snd (snd (request_statement env (claim_step k n) r)))"
    and "mfa_step\<^sup>*\<^sup>* (snd r) (snd (snd (request_statement env (reset_attempts k) r)))"
    and "mfa_step\<^sup>*\<^sup>* (snd r) (snd (snd (request_statement env (enroll_update k enc) r)))"
    and "mfa_step\<^sup>*\<^sup>* (snd r) (snd (snd (request_statement env (confirm_update k t hs) r)))"
    and "mfa_step\<^sup>*\<^sup>* (snd r) (snd (snd (request_statement env (clear_update k) r)))"
    and "mfa_step\<^sup>*\<^sup>* (snd r) (snd (snd (request_statement env (load_user k) r)))"
  by (rule simple_statement_steps [OF assms], rule mfa_step.intros)+

lemma reserveCodeAttempt_steps:
  assumes env: "others_step env"
  shows "mfa_step\<^sup>*\<^sup>* (snd r) (snd (snd (reserveCodeAttempt env uid t r)))"
proof -
  obtain a r1 where Pair: "request_statement env (reserveAttempt uid t) r = (a, r1)" by (metis prod.exhaust)
  let ?db = "me_others env (fst r) (snd r)"
  have r1: "reserveAttempt uid t ?db = (a, snd r1)" using Pair by (auto simp: request_statement_def split: prod.splits)
  have o: "mfa_step\<^sup>*\<^sup>* (snd r) ?db" using env by (simp add: others_step_def)
  have "mfa_step\<^sup>*\<^sup>* (snd r) (snd r1)" using statement_steps(1) [OF env, of r uid t] Pair by simp
  moreover have "mfa_step\<^sup>*\<^sup>* (snd r1) (snd (snd (request_statement env (lockAccount uid t) r1)))" by (rule statement_steps(2) [OF env])
  moreover have "mfa_step\<^sup>*\<^sup>* (snd r) (log_event uid (Evaluated t) (snd r1))" if "a = Some n" "n \<le> MFA_MAX_FAILED_ATTEMPTS" for n
    using rtranclp.rtrancl_into_rtrancl [OF o mfa_step.admitted] r1 that by blast
  ultimately show ?thesis by (auto simp: reserveCodeAttempt_def admit_def Pair split: option.splits)
qed

lemma fail_attempt_steps:
  "others_step env \<Longrightarrow> mfa_step\<^sup>*\<^sup>* (snd r) (snd (snd (fail_attempt env uid t a why r)))"
  by (simp add: fail_attempt_def statement_steps(2))

lemma claimTotpCode_steps:
  assumes env: "others_step env"
  shows "mfa_step\<^sup>*\<^sup>* (snd r) (snd (snd (claimTotpCode cr env u code t r)))"
proof -
  have "mfa_step\<^sup>*\<^sup>* (snd r) (snd r1)" if "request_statement env (claim_step (u_id u) n) r = (ok, r1)" for n ok r1
    using statement_steps(3) [OF env, of r "u_id u" n] that by simp
  then show ?thesis by (auto simp: claimTotpCode_def split: option.splits sum.splits prod.splits)
qed

lemma verifySecondFactor_steps:
  assumes env: "others_step env" and u: "u \<in> set (md_snapshots (snd r))"
  shows "mfa_step\<^sup>*\<^sup>* (snd r) (snd (snd (verifySecondFactor cr env u code rec r)))"
proof -
  let ?t = "me_now env (fst r)"
  obtain a r1 where r1: "reserveCodeAttempt env (u_id u) ?t r = (a, r1)" by (metis prod.exhaust)
  have s1: "mfa_step\<^sup>*\<^sup>* (snd r) (snd r1)" using reserveCodeAttempt_steps [OF env, of r "u_id u" ?t] r1 by simp
  have u1: "u \<in> set (md_snapshots (snd r1))" using u steps_snapshots [OF s1] by blast
  have fail: "mfa_step\<^sup>*\<^sup>* (snd x) (snd y)" if "fail_attempt env (u_id u) ?t n why x = (f, y)" for x y n why f
    using fail_attempt_steps [OF env, of x "u_id u" ?t n why] that by simp
  have rec: "mfa_step\<^sup>*\<^sup>* (snd r1) (snd y)" if "request_statement env (consume_recovery u h) r1 = (ok, y)" for h ok y
    using request_statement_steps [OF env that] mfa_step.consumed u1 by blast
  have cl: "mfa_step\<^sup>*\<^sup>* (snd r1) (snd y)" if "claimTotpCode cr env u c ?t r1 = (res, y)" for c res y
    using claimTotpCode_steps [OF env, of r1 cr u c ?t] that by simp
  have rs: "mfa_step\<^sup>*\<^sup>* (snd y) (snd (snd (request_statement env (reset_attempts (u_id u)) y)))" for y
    by (rule statement_steps(4) [OF env])
  have "mfa_step\<^sup>*\<^sup>* (snd r1) (snd (snd (verifySecondFactor cr env u code rec r)))"
    unfolding verifySecondFactor_def Let_def r1
    by (auto split: option.splits prod.splits bool.splits sum.splits claim_result.splits dest!: rec cl fail
        intro: rtranclp_trans [OF _ rs] rtranclp_trans)
  then show ?thesis using s1 rtranclp_trans by metis
qed

lemma load_snapshot:
  assumes "request_statement env (load_user k) r = (Some u, r1)"
  shows "u \<in> set (md_snapshots (snd r1)) \<and> u_id u = k"
  using assms find_row_SomeD
  by (fastforce simp: request_statement_def load_user_def split: option.splits)

lemma load_steps: "others_step env \<Longrightarrow> request_statement env (load_user k) r = (x, r1) \<Longrightarrow> mfa_step\<^sup>*\<^sup>* (snd r) (snd r1)"
  using statement_steps(8) [of env r k] by simp

lemma loadStaffUser_steps:
  assumes "others_step env" and "loadStaffUser env k r = (x, r1)"
  shows "mfa_step\<^sup>*\<^sup>* (snd r) (snd r1)" and "x = Inr u \<Longrightarrow> u \<in> set (md_snapshots (snd r1))"
  using assms load_steps [OF assms(1), of k r] load_snapshot [of env k r]
  by (auto simp: loadStaffUser_def split: prod.splits option.splits if_splits)

lemma enroll_steps:
  assumes env: "others_step env" shows "mfa_step\<^sup>*\<^sup>* (snd r) (snd (snd (mfa_enroll cr env uid pw r)))"
proof -
  obtain x r1 where l: "loadStaffUser env uid r = (x, r1)" by (metis prod.exhaust)
  note s = loadStaffUser_steps(1) [OF env l]
  show ?thesis
    using s rtranclp_trans [OF s statement_steps(5) [OF env]]
    by (auto simp: mfa_enroll_def l Let_def split: sum.splits)
qed

lemma confirm_steps:
  assumes env: "others_step env" shows "mfa_step\<^sup>*\<^sup>* (snd r) (snd (snd (mfa_confirm cr env uid code r)))"
proof -
  obtain x r1 where l: "loadStaffUser env uid r = (x, r1)" by (metis prod.exhaust)
  note s = loadStaffUser_steps(1) [OF env l]
  have res: "mfa_step\<^sup>*\<^sup>* (snd r1) (snd r2)" if "reserveCodeAttempt env k t r1 = (a, r2)" for k t a r2
    using reserveCodeAttempt_steps [OF env, of r1 k t] that by simp
  have cl: "mfa_step\<^sup>*\<^sup>* (snd r2) (snd r3)" if "claimTotpCode cr env u c t r2 = (y, r3)" for u c t y r2 r3
    using claimTotpCode_steps [OF env, of r2 cr u c t] that by simp
  have cf: "mfa_step\<^sup>*\<^sup>* (snd r3) (snd r4)" if "request_statement env (confirm_update k t hs) r3 = (y, r4)" for k t hs y r3 r4
    using statement_steps(6) [OF env, of r3 k t hs] that by simp
  have fl: "mfa_step\<^sup>*\<^sup>* (snd r3) (snd r4)" if "fail_attempt env k t n why r3 = (f, r4)" for r3 r4 k t n why f
    using fail_attempt_steps [OF env, of r3 k t n why] that by simp
  have "mfa_step\<^sup>*\<^sup>* (snd r1) (snd (snd (mfa_confirm cr env uid code r)))"
    unfolding mfa_confirm_def l Let_def
    by (auto split: option.splits prod.splits sum.splits claim_result.splits dest!: res cl cf fl intro: rtranclp_trans)
  then show ?thesis using s rtranclp_trans by metis
qed

lemma disable_steps:
  assumes env: "others_step env" shows "mfa_step\<^sup>*\<^sup>* (snd r) (snd (snd (mfa_disable cr env uid pw code rec r)))"
proof -
  obtain x r1 where l: "loadStaffUser env uid r = (x, r1)" by (metis prod.exhaust)
  note s = loadStaffUser_steps(1) [OF env l] and sn = loadStaffUser_steps(2) [OF env l]
  have vf: "mfa_step\<^sup>*\<^sup>* (snd r1) (snd r2)" if "verifySecondFactor cr env u code rec r1 = (y, r2)" "x = Inr u" for u y r2
    using verifySecondFactor_steps [OF env sn [OF that(2)], of cr code rec] that(1) by simp
  have cf: "mfa_step\<^sup>*\<^sup>* (snd r3) (snd r4)" if "request_statement env (clear_update k) r3 = (y, r4)" for k y r3 r4
    using statement_steps(7) [OF env, of r3 k] that by simp
  have "mfa_step\<^sup>*\<^sup>* (snd r1) (snd (snd (mfa_disable cr env uid pw code rec r)))"
    unfolding mfa_disable_def l
    by (auto split: option.splits prod.splits sum.splits factor_result.splits dest!: cf vf intro: rtranclp_trans)
  then show ?thesis using s rtranclp_trans by metis
qed

lemma login_steps:
  assumes env: "others_step env" shows "mfa_step\<^sup>*\<^sup>* (snd r) (snd (snd (login_mfa cr env ch code rec r)))"
proof (cases ch)
  case (Some c)
  obtain uid sv iat where c: "c = (uid, sv, iat)" by (metis prod_cases3)
  obtain x r1 where l: "request_statement env (load_user uid) r = (x, r1)" by (metis prod.exhaust)
  note s = load_steps [OF env l]
  have vf: "mfa_step\<^sup>*\<^sup>* (snd r1) (snd r2)" if "verifySecondFactor cr env u code rec r1 = (y, r2)" "x = Some u" for u y r2
    using verifySecondFactor_steps [OF env, of u r1 cr code rec] load_snapshot l that by simp
  have "mfa_step\<^sup>*\<^sup>* (snd r1) (snd (snd (login_mfa cr env ch code rec r)))"
    unfolding login_mfa_def Some c option.case prod.case l
    by (auto split: option.splits prod.splits sum.splits factor_result.splits dest!: vf)
  then show ?thesis using s rtranclp_trans by metis
qed (simp add: login_mfa_def)

lemma admin_reset_steps:
  assumes env: "others_step env" shows "mfa_step\<^sup>*\<^sup>* (snd r) (snd (snd (mfa_admin_reset cr env aid uid pw code rec r)))"
proof -
  obtain x r1 where l: "request_statement env (load_user aid) r = (x, r1)" by (metis prod.exhaust)
  note s = load_steps [OF env l]
  have vf: "mfa_step\<^sup>*\<^sup>* (snd r1) (snd r2)" if "verifySecondFactor cr env u code rec r1 = (y, r2)" "x = Some u" for u y r2
    using verifySecondFactor_steps [OF env, of u r1 cr code rec] load_snapshot l that by simp
  have cf: "mfa_step\<^sup>*\<^sup>* (snd r3) (snd r4)" if "request_statement env (clear_update k) r3 = (y, r4)" for k y r3 r4
    using statement_steps(7) [OF env, of r3 k] that by simp
  have "mfa_step\<^sup>*\<^sup>* (snd r1) (snd (snd (mfa_admin_reset cr env aid uid pw code rec r)))"
    unfolding mfa_admin_reset_def l
    by (auto split: option.splits prod.splits sum.splits factor_result.splits if_splits
        dest!: cf vf load_steps [OF env] intro: rtranclp_trans)
  then show ?thesis using s rtranclp_trans by metis
qed

text \<open>Every handler of the second factor (enroll, confirm, disable, second login step, administrator
  reset), with other requests running between its statements, is a sequence of the statements the
  guarantees above range over.\<close>

theorem mfa_requests_are_steps:
  assumes "others_step env"
  shows "mfa_step\<^sup>*\<^sup>* db (snd (snd (mfa_enroll cr env uid pw (k, db)))) \<and>
         mfa_step\<^sup>*\<^sup>* db (snd (snd (mfa_confirm cr env uid code (k, db)))) \<and>
         mfa_step\<^sup>*\<^sup>* db (snd (snd (mfa_disable cr env uid pw tot rec (k, db)))) \<and>
         mfa_step\<^sup>*\<^sup>* db (snd (snd (login_mfa cr env ch tot rec (k, db)))) \<and>
         mfa_step\<^sup>*\<^sup>* db (snd (snd (mfa_admin_reset cr env aid uid pw tot rec (k, db))))"
  using enroll_steps [OF assms, of "(k, db)"] confirm_steps [OF assms, of "(k, db)"] disable_steps [OF assms, of "(k, db)"]
    login_steps [OF assms, of "(k, db)"] admin_reset_steps [OF assms, of "(k, db)"] by simp


subsection \<open>An example account\<close>

definition sample_user :: user where
  "sample_user = \<lparr>u_id = ''u1'', u_role = ''ADMIN'', u_organizationId = Some ''org1'', u_isActive = True,
     u_sessionVersion = 3, u_password = ''$2b'', u_mfaEnabled = True, u_mfaSecret = Some ''enc'', u_mfaEnabledAt = Some 0,
     u_mfaLastUsedStep = None, u_mfaRecoveryCodes = [''h1'', ''h2''], u_mfaFailedAttempts = 0, u_mfaLockedUntil = None\<rparr>"

definition sample_users_db :: mfa_db where
  "sample_users_db = \<lparr>md_users = [sample_user], md_snapshots = [], md_log = []\<rparr>"

definition sample_mfa_env :: mfa_env where
  "sample_mfa_env = \<lparr>me_now = (\<lambda>k. 1000), me_others = (\<lambda>k db. db), me_random = (\<lambda>n. n), me_secret_bytes = [1, 2, 3]\<rparr>"

definition sample_crypto :: crypto where
  "sample_crypto = \<lparr>cr_sha256 = (\<lambda>s. s), cr_hmac = (\<lambda>k m. replicate 20 0), cr_decrypt = (\<lambda>s. Some ''AEBAG''),
     cr_encrypt = (\<lambda>s. ''enc''), cr_password_ok = (\<lambda>p h. True)\<rparr>"

lemma sample_users: "distinct (map u_id [sample_user])" "sample_user \<in> set [sample_user]"
  by simp_all

lemma sample_others: "others_step sample_mfa_env"
  by (simp add: others_step_def sample_mfa_env_def)

text \<open>A wrong code: one evaluation.\<close>

lemma sample_guess:
  "mfa_step\<^sup>*\<^sup>* \<lparr>md_users = [sample_user], md_snapshots = [], md_log = []\<rparr> (snd (reserveAttempt ''u1'' 1000 sample_users_db))"
  unfolding sample_users_db_def by (rule r_into_rtranclp, rule mfa_step.reserved)

theorem mfa_refines_witness:
  "spec_run (events_of (u_id sample_user) (snd (reserveAttempt ''u1'' 1000 sample_users_db))) (spec_of sample_user) \<noteq> None"
  by (rule mfa_refines [OF sample_guess sample_users])



text \<open>Two requests read the account and both present the same recovery code.\<close>

definition sample_two_uses :: mfa_db where
  "sample_two_uses =
     snd (consume_recovery sample_user ''h1'' (snd (consume_recovery sample_user ''h1'' (snd (load_user ''u1'' sample_users_db)))))"

lemma sample_two_uses_reached:
  "mfa_step\<^sup>*\<^sup>* \<lparr>md_users = [sample_user], md_snapshots = [], md_log = []\<rparr> sample_two_uses"
proof -
  have s: "sample_user \<in> set (md_snapshots (snd (load_user ''u1'' sample_users_db)))"
      "sample_user \<in> set (md_snapshots (snd (consume_recovery sample_user ''h1'' (snd (load_user ''u1'' sample_users_db)))))"
    by (simp_all add: load_user_def sample_users_db_def find_row_Cons sample_user_def consume_recovery_def Let_def log_event_def)
  note step = mfa_step.loaded [of sample_users_db "''u1''"] mfa_step.consumed [OF s(1), of "''h1''"]
    mfa_step.consumed [OF s(2), of "''h1''"]
  have "mfa_step\<^sup>*\<^sup>* sample_users_db sample_two_uses"
    unfolding sample_two_uses_def
    by (rule converse_rtranclp_into_rtranclp [OF step(1) converse_rtranclp_into_rtranclp [OF step(2) r_into_rtranclp [where r = mfa_step, OF step(3)]]])
  then show ?thesis by (simp add: sample_users_db_def)
qed

theorem recovery_code_once_witness:
  "events_of (u_id sample_user) sample_two_uses = [RecoveryUsed ''h1''] \<and>
   count_list (events_of (u_id sample_user) sample_two_uses) (RecoveryUsed ''h1'') \<le> 1"
proof -
  have ev: "events_of (u_id sample_user) sample_two_uses = [RecoveryUsed ''h1'']" by code_simp
  with recovery_code_once [OF sample_two_uses_reached sample_users, of "''h1''"] show ?thesis by simp
qed

theorem mfa_requests_are_steps_witness:
  "mfa_step\<^sup>*\<^sup>* sample_users_db (snd (snd (login_mfa sample_crypto sample_mfa_env (Some (''u1'', 3, 0)) (Some ''000000'') None (0, sample_users_db))))"
  using mfa_requests_are_steps [OF sample_others] by blast

text \<open>C36: The enrollment update does not check that two-factor is still off. Whoever enrolls with the right
  password, when another request confirms an enrollment of the account between the read and the
  write, is answered with a secret, and the account stays enabled with this unconfirmed secret and
  without recovery codes.\<close>

theorem enroll_race:
  assumes "find_row (\<lambda>u. u_id u = uid) (md_users (me_others env k db)) = Some u"
    and "u_isActive u" and "isMfaEligible (Some u)" and "\<not> u_mfaEnabled u" and "verifyPassword cr password (u_password u)"
    and "\<And>d. me_others env (Suc k) d = snd (confirm_update uid now hashes d)"
  shows "\<exists>secret r u'. mfa_enroll cr env uid password (k, db) = (Answer secret, r) \<and>
     find_row (\<lambda>u. u_id u = uid) (md_users (snd r)) = Some u' \<and>
     u_mfaEnabled u' \<and> u_mfaSecret u' = Some (cr_encrypt cr secret) \<and> u_mfaRecoveryCodes u' = []"
proof -
  let ?d = "(me_others env k db)\<lparr>md_snapshots := md_snapshots (me_others env k db) @ [u]\<rparr>"
  let ?secret = "generateTotpSecret (me_secret_bytes env)"
  let ?fin = "snd (enroll_update uid (cr_encrypt cr ?secret) (snd (confirm_update uid now hashes ?d)))"
  have uid: "u_id u = uid" using find_row_SomeD [OF assms(1)] by simp
  have run: "mfa_enroll cr env uid password (k, db) = (Answer ?secret, (Suc (Suc k), ?fin))"
    using assms by (simp add: mfa_enroll_def loadStaffUser_def request_statement_def load_user_def uid Let_def split: prod.splits)
  let ?c = "u\<lparr>u_mfaEnabled := True, u_mfaEnabledAt := Some now, u_mfaRecoveryCodes := hashes, u_mfaFailedAttempts := 0,
      u_mfaLockedUntil := None, u_sessionVersion := u_sessionVersion u + 1\<rparr>"
  have "find_row (\<lambda>u. u_id u = uid) (md_users (snd (confirm_update uid now hashes ?d))) = Some ?c"
    unfolding confirm_update_def Let_def log_event_def using assms(1) uid
    by (simp add: find_update_user [where uid = uid and u = u])
  then have "find_row (\<lambda>u. u_id u = uid) (md_users ?fin) =
      Some (?c\<lparr>u_mfaSecret := Some (cr_encrypt cr ?secret), u_mfaLastUsedStep := None, u_mfaRecoveryCodes := []\<rparr>)"
    unfolding enroll_update_def log_event_def using uid by (simp add: find_update_user [where uid = uid and u = ?c])
  with run show ?thesis by auto
qed

theorem enroll_race_witness:
  "\<exists>secret r u'. mfa_enroll sample_crypto
       (sample_mfa_env\<lparr>me_others := (\<lambda>k db. if k = 1 then snd (confirm_update ''u1'' 900 [''h1'', ''h2''] db) else db)\<rparr>)
       ''u1'' ''pw'' (0, \<lparr>md_users = [sample_user\<lparr>u_mfaEnabled := False, u_mfaRecoveryCodes := []\<rparr>],
                         md_snapshots = [], md_log = []\<rparr>) = (Answer secret, r) \<and>
     find_row (\<lambda>u. u_id u = ''u1'') (md_users (snd r)) = Some u' \<and>
     u_mfaEnabled u' \<and> u_mfaSecret u' = Some (cr_encrypt sample_crypto secret) \<and> u_mfaRecoveryCodes u' = []"
  by (rule enroll_race [where u = "sample_user\<lparr>u_mfaEnabled := False, u_mfaRecoveryCodes := []\<rparr>" and now = 900 and hashes = "[''h1'', ''h2'']"])
    (simp_all add: find_row_Cons sample_mfa_env_def sample_user_def verifyPassword_def sample_crypto_def isMfaEligible_def
      MFA_INELIGIBLE_ROLES_def)

end
