(* ===== verification/Token_Codec.thy ===== *)
theory Token_Codec
  imports Domain_Events TOTP "HOL-Library.AList"
begin

section \<open>The text of signed tokens: UTF-8, base64url, JSON\<close>

text \<open>
  The second-factor challenge, the re-authentication cookie and the support-view cookie are all
  JSON objects in base64url with an HMAC. This theory models the parts of the language they use:
  UTF-8 (\<open>Buffer.from(text)\<close>, \<open>toString('utf8')\<close>), base64url (\<open>toString('base64url')\<close>,
  \<open>Buffer.from(text, 'base64url')\<close>), \<open>String.split\<close>, \<open>JSON.stringify\<close> of a flat object of
  strings, integers below \<open>10 ^ 21\<close> and nulls, and \<open>JSON.parse\<close>. Text with characters outside
  Latin-1 is outside the model; the decoders refuse it. The last part shows that what
  \<open>JSON.stringify\<close> writes, \<open>JSON.parse\<close> reads back.
\<close>

subsection \<open>UTF-8 and base64url\<close>

definition utf8_char :: "char \<Rightarrow> byte list" where
  "utf8_char c =
     (let n = (of_char c :: nat)
      in if n < 128 then [of_nat n] else [of_nat (192 + n div 64), of_nat (128 + n mod 64)])"

definition utf8_encode :: "string \<Rightarrow> byte list" where
  "utf8_encode s = concat (map utf8_char s)"

fun utf8_decode :: "byte list \<Rightarrow> string option" where
  "utf8_decode [] = Some []"
| "utf8_decode (b # bs) =
     (if unat b < 128 then map_option (\<lambda>s. char_of (unat b) # s) (utf8_decode bs)
      else (case bs of [] \<Rightarrow> None
            | b' # bs' \<Rightarrow>
               if unat b \<in> {194, 195} \<and> 128 \<le> unat b' \<and> unat b' < 192
               then map_option (\<lambda>s. char_of ((unat b - 192) * 64 + (unat b' - 128)) # s) (utf8_decode bs')
               else None))"

definition BASE64URL :: string where
  "BASE64URL = ALPHA @ DIGITS @ ''-_''"

definition sextet :: "nat \<Rightarrow> char" where
  "sextet n = BASE64URL ! n"

fun base64url_encode :: "byte list \<Rightarrow> string" where
  "base64url_encode [] = []"
| "base64url_encode [a] = [sextet (unat a div 4), sextet (unat a mod 4 * 16)]"
| "base64url_encode [a, b] =
     [sextet (unat a div 4), sextet (unat a mod 4 * 16 + unat b div 16), sextet (unat b mod 16 * 4)]"
| "base64url_encode (a # b # c # bytes) =
     sextet (unat a div 4) # sextet (unat a mod 4 * 16 + unat b div 16)
     # sextet (unat b mod 16 * 4 + unat c div 64) # sextet (unat c mod 64) # base64url_encode bytes"

text \<open>Node accepts the characters of both base64 alphabets and skips every other one.\<close>

definition sextet_value :: "char \<Rightarrow> nat option" where
  "sextet_value c = (if c = CHR ''+'' then Some 62 else if c = CHR ''/'' then Some 63 else index_of c BASE64URL)"

fun sextets_decode :: "nat list \<Rightarrow> byte list" where
  "sextets_decode (w # x # y # z # rest) =
     of_nat (w * 4 + x div 16) # of_nat (x mod 16 * 16 + y div 4) # of_nat (y mod 4 * 64 + z) # sextets_decode rest"
| "sextets_decode [w, x, y] = [of_nat (w * 4 + x div 16), of_nat (x mod 16 * 16 + y div 4)]"
| "sextets_decode [w, x] = [of_nat (w * 4 + x div 16)]"
| "sextets_decode _ = []"

definition base64url_decode :: "string \<Rightarrow> byte list" where
  "base64url_decode s = sextets_decode (List.map_filter sextet_value s)"

subsection \<open>String.split\<close>

fun js_split :: "char \<Rightarrow> string \<Rightarrow> string list" where
  "js_split sep [] = [[]]"
| "js_split sep (c # s) =
     (if c = sep then [] # js_split sep s
      else (case js_split sep s of [] \<Rightarrow> [[c]] | p # ps \<Rightarrow> (c # p) # ps))"

subsection \<open>JSON.stringify\<close>

datatype claim = ClaimStr string | ClaimInt int | ClaimNull

definition json_escape :: "char \<Rightarrow> string" where
  "json_escape c =
     (let n = (of_char c :: nat)
      in if n = 34 \<or> n = 92 then [CHR 92, c]
         else if n = 8 then [CHR 92, CHR ''b''] else if n = 9 then [CHR 92, CHR ''t'']
         else if n = 10 then [CHR 92, CHR ''n''] else if n = 12 then [CHR 92, CHR ''f'']
         else if n = 13 then [CHR 92, CHR ''r'']
         else if n < 32 then [CHR 92, CHR ''u'', CHR ''0'', CHR ''0'', HEX ! (n div 16), HEX ! (n mod 16)]
         else [c])"

definition string_text :: "string \<Rightarrow> string" where
  "string_text s = CHR 34 # concat (map json_escape s) @ [CHR 34]"

fun claim_text :: "claim \<Rightarrow> string" where
  "claim_text (ClaimStr s) = string_text s"
| "claim_text (ClaimInt i) = int_text i"
| "claim_text ClaimNull = ''null''"

fun members_text :: "(string \<times> claim) list \<Rightarrow> string" where
  "members_text [] = []"
| "members_text [(k, v)] = string_text k @ CHR '':'' # claim_text v"
| "members_text ((k, v) # ms) = string_text k @ CHR '':'' # claim_text v @ CHR '','' # members_text ms"

definition claims_text :: "(string \<times> claim) list \<Rightarrow> string" where
  "claims_text ms = CHR ''{'' # members_text ms @ ''}''"

subsection \<open>JSON.parse\<close>

definition skip_ws :: "string \<Rightarrow> string" where
  "skip_ws s = dropWhile (\<lambda>c. of_char c \<in> {9, 10, 13, 32 :: nat}) s"

definition hex_value :: "char \<Rightarrow> nat option" where
  "hex_value c = index_of (lower_char c) HEX"

text \<open>An escape \<open>\u\<close> with four digits; above \<open>00ff\<close> the character is outside the model.\<close>

definition unicode_escape :: "char \<Rightarrow> char \<Rightarrow> char \<Rightarrow> char \<Rightarrow> char option" where
  "unicode_escape a b c d =
     (case (hex_value a, hex_value b, hex_value c, hex_value d) of
        (Some 0, Some 0, Some h, Some l) \<Rightarrow> Some (char_of (16 * h + l))
      | _ \<Rightarrow> None)"

definition ESCAPES :: "(char \<times> char) list" where
  "ESCAPES = [(CHR 34, CHR 34), (CHR 92, CHR 92), (CHR ''/'', CHR ''/''), (CHR ''b'', CHR 8), (CHR ''f'', CHR 12),
              (CHR ''n'', CHR 10), (CHR ''r'', CHR 13), (CHR ''t'', CHR 9)]"

text \<open>The characters of a string literal up to its closing quote, and the text after it.\<close>

fun json_chars :: "string \<Rightarrow> (string \<times> string) option" where
  "json_chars [] = None"
| "json_chars (c # s) =
     (if c = CHR 34 then Some ([], s)
      else if c = CHR 92 then
        (case s of
           [] \<Rightarrow> None
         | e # t \<Rightarrow>
            if e = CHR ''u'' then
              (case t of
                 h1 # h2 # h3 # h4 # r \<Rightarrow>
                   (case unicode_escape h1 h2 h3 h4 of
                      None \<Rightarrow> None | Some x \<Rightarrow> map_option (\<lambda>(cs, r'). (x # cs, r')) (json_chars r))
               | _ \<Rightarrow> None)
            else (case map_of ESCAPES e of
                    None \<Rightarrow> None | Some x \<Rightarrow> map_option (\<lambda>(cs, r'). (x # cs, r')) (json_chars t)))
      else if of_char c < (32 :: nat) then None
      else map_option (\<lambda>(cs, r'). (c # cs, r')) (json_chars s))"

fun digits_value :: "string \<Rightarrow> nat \<Rightarrow> nat" where
  "digits_value [] acc = acc"
| "digits_value (c # cs) acc = digits_value cs (acc * 10 + (of_char c - 48))"

definition span_digits :: "string \<Rightarrow> string \<times> string" where
  "span_digits s = (takeWhile (\<lambda>c. c \<in> set DIGITS) s, dropWhile (\<lambda>c. c \<in> set DIGITS) s)"

text \<open>The optional fraction and exponent of a number: its value, or \<open>None\<close> for a missing digit.\<close>

definition json_fraction :: "string \<Rightarrow> (rat \<times> string) option" where
  "json_fraction s =
     (case s of
        c # t \<Rightarrow>
          if c = CHR ''.'' then
            (case span_digits t of (ds, r) \<Rightarrow>
               if ds = [] then None else Some (of_nat (digits_value ds 0) / 10 ^ length ds, r))
          else Some (0, s)
      | [] \<Rightarrow> Some (0, s))"

definition json_exponent :: "string \<Rightarrow> (rat \<times> string) option" where
  "json_exponent s =
     (case s of
        c # t \<Rightarrow>
          if c = CHR ''e'' \<or> c = CHR ''E'' then
            (let (neg, t') = (case t of d # u \<Rightarrow> if d = CHR ''-'' then (True, u) else if d = CHR ''+'' then (False, u) else (False, t)
                              | [] \<Rightarrow> (False, t))
             in case span_digits t' of (ds, r) \<Rightarrow>
                  if ds = [] then None
                  else Some (if neg then 1 / 10 ^ digits_value ds 0 else 10 ^ digits_value ds 0, r))
          else Some (1, s)
      | [] \<Rightarrow> Some (1, s))"

definition json_number :: "string \<Rightarrow> (json \<times> string) option" where
  "json_number s =
     (let (neg, t) = (case s of c # u \<Rightarrow> if c = CHR ''-'' then (True, u) else (False, s) | [] \<Rightarrow> (False, s))
      in case span_digits t of (ds, r) \<Rightarrow>
           if ds = [] \<or> (hd ds = CHR ''0'' \<and> 1 < length ds) then None
           else (case json_fraction r of None \<Rightarrow> None
                 | Some (fpart, r1) \<Rightarrow>
                    (case json_exponent r1 of None \<Rightarrow> None
                     | Some (scale, r2) \<Rightarrow>
                        (let q = (of_nat (digits_value ds 0) + fpart) * scale
                         in Some (JNum (js_of_rat (if neg then - q else q)), r2)))))"

definition starts_with :: "string \<Rightarrow> string \<Rightarrow> bool" where
  "starts_with p s \<longleftrightarrow> take (length p) s = p"

text \<open>
  The recursive descent, with fuel: every call consumes a character, so the length of the text is
  enough. A repeated key replaces the earlier value and keeps its place. \<open>json_members\<close> and \<open>json_elems\<close> read what follows an opening bracket or a comma.
\<close>

fun json_value :: "nat \<Rightarrow> string \<Rightarrow> (json \<times> string) option"
  and json_members :: "nat \<Rightarrow> (string \<times> json) list \<Rightarrow> string \<Rightarrow> (json \<times> string) option"
  and json_elems :: "nat \<Rightarrow> json list \<Rightarrow> string \<Rightarrow> (json \<times> string) option" where
  "json_value 0 s = None"
| "json_value (Suc f) s =
     (case skip_ws s of
        [] \<Rightarrow> None
      | c # t \<Rightarrow>
         if c = CHR ''{'' then
           (case skip_ws t of
              d # u \<Rightarrow> if d = CHR ''}'' then Some (JObj [], u) else json_members f [] t
            | [] \<Rightarrow> None)
         else if c = CHR ''['' then
           (case skip_ws t of
              d # u \<Rightarrow> if d = CHR '']'' then Some (JArr [], u) else json_elems f [] t
            | [] \<Rightarrow> None)
         else if c = CHR 34 then map_option (\<lambda>(cs, r). (JStr cs, r)) (json_chars t)
         else if starts_with ''null'' (c # t) then Some (JNull, drop 4 (c # t))
         else if starts_with ''true'' (c # t) then Some (JBool True, drop 4 (c # t))
         else if starts_with ''false'' (c # t) then Some (JBool False, drop 5 (c # t))
         else json_number (c # t))"
| "json_members 0 acc s = None"
| "json_members (Suc f) acc s =
     (case skip_ws s of
        [] \<Rightarrow> None
      | q # t \<Rightarrow>
         if q \<noteq> CHR 34 then None
         else (case json_chars t of
                 None \<Rightarrow> None
               | Some (k, r) \<Rightarrow>
                  (case skip_ws r of
                     [] \<Rightarrow> None
                   | colon # u \<Rightarrow>
                      if colon \<noteq> CHR '':'' then None
                      else (case json_value f u of
                              None \<Rightarrow> None
                            | Some (v, w) \<Rightarrow>
                               (case skip_ws w of
                                  [] \<Rightarrow> None
                                | d # x \<Rightarrow>
                                   if d = CHR '','' then json_members f (AList.update k v acc) x
                                   else if d = CHR ''}'' then Some (JObj (AList.update k v acc), x)
                                   else None)))))"
| "json_elems 0 acc s = None"
| "json_elems (Suc f) acc s =
     (case json_value f s of
        None \<Rightarrow> None
      | Some (v, w) \<Rightarrow>
         (case skip_ws w of
            [] \<Rightarrow> None
          | d # x \<Rightarrow>
             if d = CHR '','' then json_elems f (acc @ [v]) x
             else if d = CHR '']'' then Some (JArr (acc @ [v]), x)
             else None))"

definition json_parse :: "string \<Rightarrow> json option" where
  "json_parse s =
     (case json_value (2 * length s + 1) s of
        None \<Rightarrow> None
      | Some (v, r) \<Rightarrow> if skip_ws r = [] then Some v else None)"

subsection \<open>Round trips\<close>

lemma unat_byte: "n < 256 \<Longrightarrow> unat (of_nat n :: byte) = n"
  by (simp add: unat_of_nat take_bit_eq_mod)

lemma of_nat_unat_byte: "of_nat (unat (b :: byte)) = b"
  by simp

lemma utf8_decode_char: "utf8_decode (utf8_char c @ bs) = map_option (\<lambda>s. c # s) (utf8_decode bs)"
proof -
  define n where "n = (of_char c :: nat)"
  have n: "n < 256" "char_of n = c" by (simp_all add: n_def)
  show ?thesis
  proof (cases "n < 128")
    case True
    then show ?thesis using n by (simp add: utf8_char_def n_def [symmetric] unat_byte)
  next
    case False
    define h l where "h = (of_nat (192 + n div 64) :: byte)" and "l = (of_nat (128 + n mod 64) :: byte)"
    have u: "unat h = 192 + n div 64" "unat l = 128 + n mod 64"
      unfolding h_def l_def using n by (intro unat_byte, simp)+
    have d: "n div 64 \<in> {2, 3}" using False n by auto
    have "utf8_char c = [h, l]"
      using False by (simp add: utf8_char_def n_def [symmetric] h_def l_def)
    moreover have "(unat h - 192) * 64 + (unat l - 128) = n" using u by simp
    ultimately show ?thesis using n d u by auto
  qed
qed

lemma utf8_roundtrip: "utf8_decode (utf8_encode s) = Some s"
  by (induction s) (simp_all add: utf8_encode_def utf8_decode_char)

lemma base64url_alphabet: "distinct BASE64URL" "length BASE64URL = 64"
    "CHR ''+'' \<notin> set BASE64URL" "CHR ''/'' \<notin> set BASE64URL" "CHR ''.'' \<notin> set BASE64URL"
  by (simp_all add: BASE64URL_def ALPHA_def DIGITS_def)

lemma sextet_in: "n < 64 \<Longrightarrow> sextet n \<in> set BASE64URL"
  by (simp add: sextet_def base64url_alphabet)

lemma sextet_value_sextet: "n < 64 \<Longrightarrow> sextet_value (sextet n) = Some n"
  using sextet_in [of n] base64url_alphabet index_of_nth [of BASE64URL n]
  by (metis sextet_def sextet_value_def)

lemma byte_less: "unat (b :: byte) < 256"
  using unsigned_less [of b] by simp

lemma base64url_encode_chars: "set (base64url_encode bytes) \<subseteq> set BASE64URL"
proof (induction bytes rule: base64url_encode.induct)
  case (2 a)
  then show ?case using byte_less [of a] by (auto intro!: sextet_in)
next
  case (3 a b)
  then show ?case using byte_less [of a] byte_less [of b] by (auto intro!: sextet_in)
next
  case (4 a b c bytes)
  then show ?case using byte_less [of a] byte_less [of b] byte_less [of c] by (auto intro!: sextet_in)
qed simp

lemma sextet_bounds:
  "unat (a :: byte) div 4 < 64" "unat a mod 4 * 16 < 64" "unat a mod 4 * 16 + unat (b :: byte) div 16 < 64"
  "unat b mod 16 * 4 < 64" "unat b mod 16 * 4 + unat (c :: byte) div 64 < 64" "unat c mod 64 < 64"
  using byte_less [of a] byte_less [of b] byte_less [of c] by auto

lemma sextet_joins:
  "(unat (a :: byte) div 4) * 4 + (unat a mod 4 * 16 + unat (b :: byte) div 16) div 16 = unat a"
  "(unat a div 4) * 4 + unat a mod 4 * 16 div 16 = unat a"
  "(unat a mod 4 * 16 + unat b div 16) mod 16 * 16 + (unat b mod 16 * 4 + unat (c :: byte) div 64) div 4 = unat b"
  "(unat a mod 4 * 16 + unat b div 16) mod 16 * 16 + unat b mod 16 * 4 div 4 = unat b"
  "(unat b mod 16 * 4 + unat c div 64) mod 4 * 64 + unat c mod 64 = unat c"
proof -
  have l: "unat a < 256" "unat b < 256" "unat c < 256" by (rule byte_less)+
  then have q: "unat b div 16 < 16" "unat c div 64 < 4" by auto
  then show "(unat a div 4) * 4 + (unat a mod 4 * 16 + unat b div 16) div 16 = unat a"
    by simp
  show "(unat a div 4) * 4 + unat a mod 4 * 16 div 16 = unat a" by simp
  have m: "(unat a mod 4 * 16 + unat b div 16) mod 16 = unat b div 16" using q by simp
  have "(unat b mod 16 * 4 + unat c div 64) div 4 = unat b mod 16" using q by simp
  with m show "(unat a mod 4 * 16 + unat b div 16) mod 16 * 16 + (unat b mod 16 * 4 + unat c div 64) div 4 = unat b"
    by simp
  from m show "(unat a mod 4 * 16 + unat b div 16) mod 16 * 16 + unat b mod 16 * 4 div 4 = unat b"
    by simp
  have "(unat b mod 16 * 4 + unat c div 64) mod 4 = unat c div 64" using q by simp
  then show "(unat b mod 16 * 4 + unat c div 64) mod 4 * 64 + unat c mod 64 = unat c" by simp
qed

lemmas sextet_facts = sextet_value_sextet [OF sextet_bounds(1)] sextet_value_sextet [OF sextet_bounds(2)]
  sextet_value_sextet [OF sextet_bounds(3)] sextet_value_sextet [OF sextet_bounds(4)]
  sextet_value_sextet [OF sextet_bounds(5)] sextet_value_sextet [OF sextet_bounds(6)]

lemma base64url_roundtrip: "base64url_decode (base64url_encode bytes) = bytes"
  unfolding base64url_decode_def
  by (induction bytes rule: base64url_encode.induct)
    (simp_all only: base64url_encode.simps List.map_filter_simps sextet_facts option.case sextets_decode.simps
       sextet_joins of_nat_unat_byte)

lemma js_split_none: "sep \<notin> set s \<Longrightarrow> js_split sep s = [s]"
  by (induction s) auto

lemma js_split_append: "sep \<notin> set s \<Longrightarrow> js_split sep (s @ sep # t) = s # js_split sep t"
  by (induction s) auto

lemma hex_digits: "\<forall>k < 16. hex_value (HEX ! k) = Some k"
  by (code_simp)

lemma json_chars_escape: "json_chars (json_escape c @ r) = map_option (\<lambda>(cs, r'). (c # cs, r')) (json_chars r)"
proof -
  define n where "n = (of_char c :: nat)"
  have n: "n < 256" "char_of n = c" by (simp_all add: n_def)
  have code: "n = 34 \<longleftrightarrow> c = CHR 34" "n = 92 \<longleftrightarrow> c = CHR 92" "n = 8 \<longleftrightarrow> c = CHR 8" "n = 9 \<longleftrightarrow> c = CHR 9"
      "n = 10 \<longleftrightarrow> c = CHR 10" "n = 12 \<longleftrightarrow> c = CHR 12" "n = 13 \<longleftrightarrow> c = CHR 13"
    using of_char_eq_iff [where 'a = nat, of c "CHR 34"] of_char_eq_iff [where 'a = nat, of c "CHR 92"]
      of_char_eq_iff [where 'a = nat, of c "CHR 8"] of_char_eq_iff [where 'a = nat, of c "CHR 9"]
      of_char_eq_iff [where 'a = nat, of c "CHR 10"] of_char_eq_iff [where 'a = nat, of c "CHR 12"]
      of_char_eq_iff [where 'a = nat, of c "CHR 13"] by (simp_all add: n_def)
  have z: "hex_value CHR ''0'' = Some 0" by code_simp
  consider "n = 34 \<or> n = 92 \<or> n = 8 \<or> n = 9 \<or> n = 10 \<or> n = 12 \<or> n = 13"
    | "n \<notin> {34, 92, 8, 9, 10, 12, 13}" "n < 32" | "n \<notin> {34, 92}" "\<not> n < 32" by auto
  then show ?thesis
  proof cases
    case 1
    then show ?thesis
      by (elim disjE) (simp_all add: code json_escape_def ESCAPES_def)
  next
    case 2
    have h: "hex_value (HEX ! (n div 16)) = Some (n div 16)" "hex_value (HEX ! (n mod 16)) = Some (n mod 16)"
      using 2 hex_digits by auto
    have "json_escape c = [CHR 92, CHR ''u'', CHR ''0'', CHR ''0'', HEX ! (n div 16), HEX ! (n mod 16)]"
      using 2 by (simp add: json_escape_def n_def [symmetric])
    moreover have "unicode_escape CHR ''0'' CHR ''0'' (HEX ! (n div 16)) (HEX ! (n mod 16)) = Some c"
      using n by (simp add: unicode_escape_def h z)
    ultimately show ?thesis by simp
  next
    case 3
    then have "json_escape c = [c]" "c \<noteq> CHR 34" "c \<noteq> CHR 92"
      using code by (auto simp: json_escape_def n_def [symmetric])
    then show ?thesis using 3 by (simp add: n_def [symmetric])
  qed
qed

lemma json_chars_text: "json_chars (concat (map json_escape s) @ CHR 34 # r) = Some (s, r)"
  by (induction s) (simp_all add: json_chars_escape)

lemma digits_value_append: "digits_value (xs @ ys) acc = digits_value ys (digits_value xs acc)"
  by (induction xs arbitrary: acc) simp_all

lemma digit_code: "\<forall>k < 10. of_char (DIGITS ! k) - 48 = k \<and> DIGITS ! k \<in> set DIGITS \<and> (DIGITS ! k = CHR ''0'' \<longrightarrow> k = 0)"
  by code_simp

lemma nat_text_value: "digits_value (nat_text n) 0 = n"
proof (induction n rule: nat_text.induct)
  case (1 n)
  then show ?case
    by (subst nat_text.simps) (use digit_code in \<open>simp add: digits_value_append\<close>)
qed

lemma nat_text_hd: "nat_text n \<noteq> [] \<and> (hd (nat_text n) = CHR ''0'' \<longrightarrow> n = 0)"
proof (induction n rule: nat_text.induct)
  case (1 n)
  then show ?case
    by (subst (1 2) nat_text.simps) (use digit_code in \<open>auto simp: div_eq_0_iff\<close>)
qed

lemma nat_text_0: "nat_text 0 = ''0''"
  by (simp add: nat_text.simps DIGITS_def)

definition closes :: "string \<Rightarrow> bool" where
  "closes r = (case r of [] \<Rightarrow> True | c # _ \<Rightarrow> c \<in> {CHR '','', CHR ''}'', CHR '']''})"

lemma span_digits_text:
  assumes "closes r" and "all_in DIGITS ds"
  shows "span_digits (ds @ r) = (ds, r)"
proof -
  have "\<forall>c \<in> set ds. c \<in> set DIGITS" using assms(2) by (simp add: all_in_def list_all_iff)
  moreover have "r = [] \<or> hd r \<notin> set DIGITS" using assms(1) by (cases r) (auto simp: closes_def DIGITS_def)
  ultimately show ?thesis
    by (cases r) (auto simp: span_digits_def takeWhile_append dropWhile_append)
qed

lemma closes_tail:
  assumes "closes r"
  shows "json_fraction r = Some (0, r)" and "json_exponent r = Some (1, r)"
  using assms by (auto simp: closes_def json_fraction_def json_exponent_def split: list.splits)

lemma safe_int: "\<bar>i\<bar> < 2 ^ 53 \<Longrightarrow> js_of_rat (of_int i) = Fin (of_int i)"
proof -
  assume i: "\<bar>i\<bar> < 2 ^ 53"
  then have "\<bar>i\<bar> \<le> 2 ^ 100" by simp
  then have "(of_int \<bar>i\<bar> :: rat) \<le> of_int (2 ^ 100)" by (simp only: of_int_le_iff)
  then have "\<bar>of_int i :: rat\<bar> \<le> 2 ^ 100" by simp
  then show ?thesis using round_binary64_int [OF i] by (simp add: js_of_rat_finite)
qed

lemma digits_not_minus: "CHR ''-'' \<notin> set DIGITS"
  by (simp add: DIGITS_def)

lemma nat_text_hd_digit: "hd (nat_text n) \<in> set DIGITS"
  using nat_text_digits [of n] nat_text_hd [of n] by (cases "nat_text n") (auto simp: all_in_def)

lemma json_number_text:
  assumes r: "closes r" and i: "\<bar>i\<bar> < 2 ^ 53"
  shows "json_number (int_text i @ r) = Some (JNum (Fin (of_int i)), r)"
proof -
  define n where "n = nat \<bar>i\<bar>"
  have hd0: "\<not> (hd (nat_text n) = CHR ''0'' \<and> 1 < length (nat_text n))"
    using nat_text_hd [of n] by (auto simp: nat_text_0)
  have sp: "span_digits (nat_text n @ r) = (nat_text n, r)"
    by (rule span_digits_text [OF r nat_text_digits])
  have "json_number (int_text i @ r) = Some (JNum (js_of_rat (of_int i)), r)"
  proof (cases "i < 0")
    case True
    then have "int_text i = CHR ''-'' # nat_text n" by (simp add: int_text_def n_def)
    moreover have "- (of_nat n :: rat) = of_int i" using True by (simp add: n_def)
    ultimately show ?thesis using sp hd0 nat_text_hd [of n] closes_tail [OF r]
      by (simp add: json_number_def nat_text_value)
  next
    case False
    then have t: "int_text i = nat_text n" by (simp add: int_text_def n_def)
    obtain c cs where c: "nat_text n = c # cs" "c \<in> set DIGITS"
      using nat_text_hd [of n] nat_text_hd_digit [of n] by (cases "nat_text n") auto
    then have "c \<noteq> CHR ''-''" using digits_not_minus by auto
    moreover have "(of_nat n :: rat) = of_int i" using False by (simp add: n_def)
    ultimately show ?thesis using sp hd0 closes_tail [OF r] nat_text_value [of n] c t
      by (simp add: json_number_def)
  qed
  then show ?thesis using safe_int [OF i] by simp
qed

fun claim_json :: "claim \<Rightarrow> json" where
  "claim_json (ClaimStr s) = JStr s"
| "claim_json (ClaimInt i) = JNum (Fin (of_int i))"
| "claim_json ClaimNull = JNull"

definition members_json :: "(string \<times> claim) list \<Rightarrow> (string \<times> json) list" where
  "members_json ms = map (\<lambda>(k, v). (k, claim_json v)) ms"

fun safe_claim :: "claim \<Rightarrow> bool" where
  "safe_claim (ClaimInt i) = (\<bar>i\<bar> < 2 ^ 53)"
| "safe_claim _ = True"

lemma int_text_start:
  obtains c cs where "int_text i = c # cs" and "c \<in> set DIGITS \<union> {CHR ''-''}"
proof (cases "i < 0")
  case True then show ?thesis using that by (simp add: int_text_def)
next
  case False
  then show ?thesis using that nat_text_hd [of "nat i"] nat_text_hd_digit [of "nat i"]
    by (cases "nat_text (nat i)") (auto simp: int_text_def)
qed

lemma json_value_int:
  assumes "closes r" and "\<bar>i\<bar> < 2 ^ 53"
  shows "json_value (Suc f) (int_text i @ r) = Some (JNum (Fin (of_int i)), r)"
proof -
  obtain c cs where c: "int_text i = c # cs" "c \<in> set DIGITS \<union> {CHR ''-''}" by (rule int_text_start)
  then have "skip_ws (c # cs @ r) = c # cs @ r" "c \<noteq> CHR ''{''" "c \<noteq> CHR ''[''" "c \<noteq> CHR 34"
      "c \<noteq> CHR ''n''" "c \<noteq> CHR ''t''" "c \<noteq> CHR ''f''"
    by (auto simp: DIGITS_def skip_ws_def)
  then show ?thesis using json_number_text [OF assms] c by (simp add: starts_with_def)
qed

lemma skip_ws_Cons: "of_char c \<notin> {9, 10, 13, 32 :: nat} \<Longrightarrow> skip_ws (c # s) = c # s"
  by (simp add: skip_ws_def)

lemma json_value_claim:
  assumes "closes r" and "safe_claim v"
  shows "json_value (Suc f) (claim_text v @ r) = Some (claim_json v, r)"
proof (cases v)
  case (ClaimInt i)
  then show ?thesis using json_value_int [of r i f] assms by simp
qed (simp_all add: skip_ws_Cons string_text_def json_chars_text starts_with_def)

lemma update_new: "k \<notin> fst ` set acc \<Longrightarrow> AList.update k v acc = acc @ [(k, v)]"
  by (induction acc) auto

lemma json_members_text:
  assumes "ms \<noteq> []" and "length ms < f" and "distinct (map fst ms)" and "fst ` set ms \<inter> fst ` set acc = {}"
    and "\<forall>m \<in> set ms. safe_claim (snd m)"
  shows "json_members f acc (members_text ms @ CHR ''}'' # r) = Some (JObj (acc @ members_json ms), r)"
  using assms
proof (induction ms arbitrary: f acc rule: members_text.induct)
  case (2 k v)
  then obtain f' where f: "f = Suc (Suc f')" by (cases f; cases "f - 1") auto
  have "json_value (Suc f') (claim_text v @ CHR ''}'' # r) = Some (claim_json v, CHR ''}'' # r)"
    using 2 by (intro json_value_claim) (auto simp: closes_def)
  then show ?case using 2
    by (simp add: f string_text_def skip_ws_Cons json_chars_text update_new members_json_def)
next
  case (3 k v m ms)
  then obtain f' where f: "f = Suc (Suc f')" by (cases f; cases "f - 1") auto
  have v: "json_value (Suc f') (claim_text v @ CHR '','' # s) = Some (claim_json v, CHR '','' # s)" for s
    using 3 by (intro json_value_claim) (auto simp: closes_def)
  have "json_members (Suc f') (acc @ [(k, claim_json v)]) (members_text (m # ms) @ CHR ''}'' # r)
        = Some (JObj ((acc @ [(k, claim_json v)]) @ members_json (m # ms)), r)"
    using 3 f by (intro 3(1)) auto
  then show ?case using 3 v
    by (simp add: f string_text_def skip_ws_Cons json_chars_text update_new members_json_def)
qed simp

lemma members_text_length: "length ms \<le> length (members_text ms)"
  by (induction ms rule: members_text.induct) (auto simp: string_text_def)

lemma json_roundtrip:
  assumes "ms \<noteq> []" and "distinct (map fst ms)" and "\<forall>m \<in> set ms. safe_claim (snd m)"
  shows "json_parse (claims_text ms) = Some (JObj (members_json ms))"
proof -
  obtain f where f: "2 * length (claims_text ms) + 1 = Suc f" "length ms < f"
    using members_text_length [of ms] by (simp add: claims_text_def)
  obtain t where t: "members_text ms = CHR 34 # t"
    using assms(1) by (cases ms rule: members_text.cases) (auto simp: string_text_def)
  have "json_members f [] (members_text ms @ CHR ''}'' # []) = Some (JObj ([] @ members_json ms), [])"
    using assms f by (intro json_members_text) auto
  then show ?thesis unfolding json_parse_def f(1)
    by (simp add: claims_text_def t skip_ws_Cons) (simp add: skip_ws_def)
qed

end
