(* ===== verification/Audit_Log.thy ===== *)
theory Audit_Log
  imports Token_Codec
begin

section \<open>The audit log\<close>

text \<open>
  Models \<^verbatim>\<open>src/services/audit-event.service.js\<close>: the closed catalog of actions with the metadata fields
  each may carry, the reduction of addresses to their network, the sanitizing of metadata, the
  attribution of events written while an administrator views as another person, and the append.

  An event's metadata is an arbitrary object; its values are the primitive ones, dates (\<open>None\<close> an
  invalid date) or anything else. The write itself may fail (\<open>write_ok\<close>), which the recorder
  swallows. \<open>net.isIP\<close> and \<open>toISOString\<close> are parameters.
\<close>

datatype meta_value =
    MNull | MBool bool | MNum jsnum | MDate "timestamp option" | MStr string | MOther

type_synonym metadata = "(string \<times> meta_value) list"

record audit_externals = externals +
  isIP :: "string \<Rightarrow> nat"

subsection \<open>The catalog\<close>

definition AUDIT_ACTOR_TYPES :: "string list" where
  "AUDIT_ACTOR_TYPES = [''USER'', ''CLIENT'', ''SYSTEM'', ''WEBHOOK'', ''BOT'']"

definition AUDIT_EVENT_CATALOG :: "(string \<times> string \<times> string list) list" where
  "AUDIT_EVENT_CATALOG =
     [(''portal_assistant.configured'', (''portal_assistant_config'', [''clientId'', ''projectId'', ''status'', ''revision''])),
      (''portal_assistant.requested'', (''portal_assistant_run'', [''clientId'', ''projectId'', ''status'', ''revision''])),
      (''portal_assistant.dispatched'', (''portal_assistant_run'', [''clientId'', ''projectId'', ''status'', ''revision''])),
      (''portal_assistant.terminated'', (''portal_assistant_run'', [''clientId'', ''projectId'', ''status'', ''revision''])),
      (''portal_assistant.settled'', (''portal_assistant_run'', [''clientId'', ''projectId'', ''status'', ''revision''])),
      (''portal_handoff.requested'', (''portal_handoff_request'', [''projectId'', ''clientId'', ''status'', ''revision''])),
      (''portal_handoff.claimed'', (''portal_handoff_request'', [''projectId'', ''clientId'', ''status'', ''revision''])),
      (''portal_handoff.resolved'', (''portal_handoff_request'', [''projectId'', ''clientId'', ''status'', ''revision''])),
      (''portal_handoff.requeued'', (''portal_handoff_request'', [''projectId'', ''clientId'', ''status'', ''revision'', ''reason''])),
      (''workspace_agent.installed'', (''workspace_account_manager_binding'', [''channelId'', ''clientId'', ''profileId''])),
      (''workspace_agent.updated'', (''workspace_account_manager_binding'', [''channelId'', ''enabled''])),
      (''workspace_agent.requested'', (''workspace_account_manager_invocation'', [''channelId'', ''sourceMessageId'', ''runId''])),
      (''workspace_agent.delivered'', (''client_agent_run'', [''channelId'', ''runId'', ''status''])),
      (''workspace_agent.suppressed'', (''client_agent_run'', [''channelId'', ''runId'', ''status''])),
      (''client_service_project.created'', (''client_service_project'', [''clientId'', ''revision'', ''enabled''])),
      (''client_service_project.updated'', (''client_service_project'', [''clientId'', ''revision'', ''enabled''])),
      (''client_service_project.refreshed'', (''client_service_project'', [''clientId'', ''revision'', ''outcome'', ''reportCount'', ''partial''])),
      (''client_service_project.published'', (''client_service_project'', [''clientId'', ''revision'', ''outcome'', ''reportCount'', ''complete''])),
      (''client_agent_conversation.created'', (''client_agent_conversation'', [''clientId'', ''revision''])),
      (''client_agent_conversation.archived'', (''client_agent_conversation'', [''clientId'', ''revision''])),
      (''client_agent_run.requested'', (''client_agent_run'', [''clientId'', ''conversationId'', ''runId''])),
      (''client_agent_run.cancelled'', (''client_agent_run'', [''clientId'', ''conversationId'', ''runId''])),
      (''client_agent_run.reviewed'', (''client_agent_run'', [''clientId'', ''conversationId'', ''runId''])),
      (''gmail_send.claimed'', (''gmail_send_receipt'', [''status'', ''hubThreadId'', ''responseId''])),
      (''gmail_send.accepted'', (''gmail_send_receipt'', [''status'', ''hubThreadId'', ''responseId''])),
      (''gmail_send.completed'', (''gmail_send_receipt'', [''status'', ''hubThreadId'', ''responseId''])),
      (''gmail_send.rejected'', (''gmail_send_receipt'', [''status'', ''hubThreadId'', ''responseId''])),
      (''gmail_send.unknown'', (''gmail_send_receipt'', [''status'', ''hubThreadId'', ''responseId''])),
      (''client_agent_profile.created'', (''client_agent_profile'', [''revision'', ''clientId'', ''enabled'', ''pluginIds''])),
      (''client_agent_profile.updated'', (''client_agent_profile'', [''revision'', ''clientId'', ''enabled'', ''pluginIds''])),
      (''workspace_chat.channel_created'', (''workspace_chat_channel'', [''kind'', ''memberCount'', ''clientId'', ''projectId''])),
      (''workspace_chat.message_created'', (''workspace_chat_message'', [''channelId'', ''parentId'', ''attentionCount''])),
      (''workspace_chat.attention_acknowledged'', (''workspace_chat_attention'', [''channelId'', ''messageId''])),
      (''workspace_chat.membership_changed'', (''workspace_chat_channel'', [''channelId'', ''memberUserId'', ''active''])),
      (''workspace_collection.created'', (''workspace_collection'', [''revision'', ''schemaRevision''])),
      (''workspace_collection.updated'', (''workspace_collection'', [''revision'', ''schemaRevision'', ''archived''])),
      (''workspace_record.created'', (''workspace_record'', [''revision'', ''collectionId''])),
      (''workspace_record.updated'', (''workspace_record'', [''revision'', ''collectionId'', ''archived''])),
      (''workspace_record_form.created'', (''workspace_record_form'', [''revision'', ''collectionId''])),
      (''workspace_record_form.updated'', (''workspace_record_form'', [''revision'', ''collectionId'', ''archived''])),
      (''workspace_record_form.submitted'', (''workspace_record'', [''revision'', ''collectionId'', ''formId'', ''formRevision''])),
      (''invoice.created_from_unbilled'', (''invoice'', [''clientId'', ''projectId'', ''timeCount'', ''expenseCount'', ''total'', ''currency''])),
      (''invoice.sources_released'', (''invoice'', [''timeCount'', ''expenseCount'', ''total'', ''currency''])),
      (''note.access_changed'', (''note'', [''fromMode'', ''toMode'', ''memberCount''])),
      (''workspace_page.access_changed'', (''workspace_page'', [''fromMode'', ''toMode'', ''revision'', ''memberCount''])),
      (''workspace_page.created'', (''workspace_page'', [''revision'', ''parentId''])),
      (''workspace_page.updated'', (''workspace_page'', [''revision'', ''parentId''])),
      (''workspace_page.revision_restored'', (''workspace_page'', [''sourceRevision'', ''previousRevision'', ''revision''])),
      (''note.revision_restored'', (''note'', [''sourceRevision'', ''previousRevision'', ''revision''])),
      (''workspace_page.archived'', (''workspace_page'', [''revision'', ''parentId''])),
      (''workspace_page.restored'', (''workspace_page'', [''revision'', ''parentId''])),
      (''invoice.sent'', (''invoice'', [''fromStatus'', ''toStatus'', ''deliveryAccepted'', ''paymentLinkAttached'', ''total'', ''currency'', ''bulk''])),
      (''invoice.paid'', (''invoice'', [''fromStatus'', ''toStatus'', ''method'', ''bulk'', ''total'', ''currency'', ''stripeEventId''])),
      (''invoice.voided'', (''invoice'', [''fromStatus'', ''toStatus'', ''total'', ''currency'', ''bulk''])),
      (''payment.refused'', (''invoice'', [''code'', ''amount'', ''currency'', ''stripeEventId'', ''transactionId''])),
      (''payment.recorded'', (''invoice_payment'', [''invoiceId'', ''amount'', ''method'', ''source'', ''bulk'', ''currency'', ''stripeEventId''])),
      (''proposal.approved'', (''proposal'', [''fromStatus'', ''toStatus'', ''total'', ''via''])),
      (''contract.signed'', (''contract'', [''fromStatus'', ''toStatus'', ''signingMethod'', ''documentHash'', ''via''])),
      (''user.role_changed'', (''user'', [''fromRole'', ''toRole''])),
      (''user.created'', (''user'', [''role'', ''via''])),
      (''user.deactivated'', (''user'', [''fromActive'', ''toActive''])),
      (''user.reactivated'', (''user'', [''fromActive'', ''toActive''])),
      (''auth.login_failed'', (''user'', [''portal'', ''accountActive''])),
      (''auth.password_changed'', (''user'', [''method'', ''sessionsRevoked'', ''apiKeysRevoked''])),
      (''auth.mfa_enabled'', (''user'', [''recoveryCodesIssued''])),
      (''auth.mfa_disabled'', (''user'', [''method''])),
      (''auth.mfa_reset'', (''user'', [''wasEnabled''])),
      (''auth.mfa_recovery_code_used'', (''user'', [''remaining''])),
      (''auth.mfa_failed'', (''user'', [''reason''])),
      (''auth.reauthenticated'', (''user'', [''method''])),
      (''auth.reauth_failed'', (''user'', [''reason''])),
      (''organization.mfa_requirement_changed'', (''organization'', [''fromRequired'', ''toRequired'', ''staffWithoutMfa''])),
      (''api_key.created'', (''api_key'', [''ownerUserId'', ''expires'', ''expiresAt'', ''scopes''])),
      (''api_key.revoked'', (''api_key'', [''ownerUserId''])),
      (''settings.ai_provider_changed'', (''settings'', [''fromProvider'', ''toProvider'', ''fromModel'', ''toModel''])),
      (''client_portal.document_deleted'', (''attachment'', [''projectId'', ''clientId'', ''mimeType'', ''size'', ''storedFilename'', ''fileRetained''])),
      (''client_portal.revision_responded'', (''revision_round'', [''projectId'', ''clientId'', ''contactId'', ''response'', ''roundNumber'', ''activityId''])),
      (''client_portal.feedback_submitted'', (''project'', [''clientId'', ''contactId'', ''activityId'', ''messageLength''])),
      (''attachment.client_visibility_changed'', (''attachment'', [''projectId'', ''fromVisible'', ''toVisible'', ''bulk''])),
      (''upload.rejected'', (''attachment'', [''surface'', ''reason'', ''mimeType'', ''size'', ''extension'', ''projectId''])),
      (''ai.connection_connected'', (''ai_provider_connection'', [''keyLast4'', ''baseUrlHost'', ''defaultModel'', ''allowedModelCount'', ''monthlyBudgetCents'', ''replacedStatus''])),
      (''ai.connection_validated'', (''ai_provider_connection'', [''keyLast4'', ''baseUrlHost'', ''result'', ''errorType'', ''fromStatus'', ''toStatus''])),
      (''ai.connection_rotated'', (''ai_provider_connection'', [''keyLast4'', ''previousKeyLast4'', ''baseUrlHost''])),
      (''ai.connection_revoked'', (''ai_provider_connection'', [''keyLast4'', ''baseUrlHost'', ''fromStatus''])),
      (''ai.connection_settings_changed'', (''ai_provider_connection'', [''fromDefaultModel'', ''toDefaultModel'', ''fromMonthlyBudgetCents'', ''toMonthlyBudgetCents'', ''allowedModelCount''])),
      (''ai.disabled'', (''organization'', [''scope''])),
      (''ai.enabled'', (''organization'', [''scope''])),
      (''ai.budget_alert'', (''ai_provider_connection'', [''month'', ''spentCents'', ''budgetCents'', ''thresholdPercent''])),
      (''ai.budget_exceeded'', (''ai_provider_connection'', [''month'', ''spentCents'', ''budgetCents''])),
      (''ai.tool_prepared'', (''ai_action'', [''tool'', ''toolClass'', ''source'', ''inputHash'', ''correlationId''])),
      (''ai.tool_approved'', (''ai_action'', [''tool'', ''toolClass'', ''source'', ''requesterUserId'', ''correlationId'', ''method'', ''reauthenticated'', ''requesterApproved''])),
      (''ai.tool_rejected'', (''ai_action'', [''tool'', ''toolClass'', ''source'', ''requesterUserId'', ''correlationId'', ''reason''])),
      (''ai.tool_executed'', (''ai_action'', [''tool'', ''toolClass'', ''source'', ''requesterUserId'', ''correlationId'', ''outcome'', ''approverUserId''])),
      (''ai.tool_failed'', (''ai_action'', [''tool'', ''toolClass'', ''source'', ''requesterUserId'', ''correlationId'', ''errorCode'', ''outcome''])),
      (''ai.tool_expired'', (''ai_action'', [''tool'', ''toolClass'', ''source'', ''requesterUserId'', ''correlationId''])),
      (''ai.tool_denied'', (''ai_action'', [''tool'', ''reason'', ''source'', ''correlationId''])),
      (''ai.tool_session_run'', (''ai_session'', [''turns'', ''toolCalls'', ''readCount'', ''pendingCount'', ''deniedCount'', ''stoppedReason'', ''answered'', ''correlationId''])),
      (''migration_import.applied'', (''import_run'', [''source'', ''created'', ''unchanged'', ''alreadyPresent'', ''channels'', ''skipped'', ''projectId'', ''sessionsCreated'', ''commentsCreated'', ''commentsUnchanged''])),
      (''migration_import.rolled_back'', (''import_run'', [''source'', ''deletedRecords'', ''deletedMessages'', ''deletedAttachments'', ''deletedSessions'', ''deletedComments''])),
      (''review.session_created'', (''review_session'', [''projectId'', ''attachmentId'', ''version'', ''previousSessionId'', ''mediaKind'', ''sourceHost'', ''captureViewport'', ''captureTruncated''])),
      (''review.decision_recorded'', (''review_session'', [''decisionId'', ''decision'', ''fromStatus'', ''toStatus'', ''via'', ''shareLinkId''])),
      (''review.share_link_created'', (''review_share_link'', [''sessionId'', ''expiresAt'', ''expiresInDays'', ''allowDecision''])),
      (''review.share_link_revoked'', (''review_share_link'', [''sessionId'', ''wasExpired''])),
      (''review.client_access_changed'', (''review_session'', [''sharedWithClient'', ''clientCanDecide'', ''fromSharedWithClient'', ''fromClientCanDecide''])),
      (''review.evidence_exported'', (''review_session'', [''versionCount'', ''annotationCount'', ''decisionCount'', ''shareLinkCount'', ''auditEventCount'', ''evidenceSha256''])),
      (''estimate.approved'', (''estimate'', [''fromStatus'', ''toStatus'', ''via'', ''total''])),
      (''estimate.declined'', (''estimate'', [''fromStatus'', ''toStatus'', ''via'', ''total''])),
      (''estimate.link_revoked'', (''estimate'', [''alreadyRevoked''])),
      (''estimate.link_reissued'', (''estimate'', [''expiresAt''])),
      (''domain_event.replayed'', (''domain_event'', [''type'', ''aggregateType'', ''aggregateId'', ''sequence'', ''fromStatus'', ''toStatus'', ''replayCount'', ''previousAttempts''])),
      (''domain_event.discarded'', (''domain_event'', [''type'', ''aggregateType'', ''aggregateId'', ''sequence'', ''fromStatus'', ''toStatus'', ''reason'', ''replayCount'', ''previousAttempts''])),
      (''impersonation.started'', (''impersonation_session'', [''subjectUserId'', ''subjectRole'', ''expiresAt'', ''ttlSeconds'', ''readOnly''])),
      (''impersonation.ended'', (''impersonation_session'', [''reason'', ''subjectUserId'', ''durationSeconds''])),
      (''break_glass.granted'', (''break_glass_grant'', [''targetUserId'', ''operatorId'', ''expiresAt'', ''promoteToAdmin'', ''osUser'', ''host''])),
      (''break_glass.redeemed'', (''break_glass_grant'', [''targetUserId'', ''operatorId'', ''promoted'', ''reactivated'', ''mfaReset'', ''apiKeysRevoked''])),
      (''break_glass.revoked'', (''break_glass_grant'', [''targetUserId'', ''operatorId'', ''osUser'', ''host'']))]"

definition AUDIT_UNIVERSAL_METADATA :: "string list" where
  "AUDIT_UNIVERSAL_METADATA = [''impersonatedUserId'', ''impersonationSessionId'']"

text \<open>
  \<open>AUDIT_ACTIONS[action]\<close> on an ordinary object: a name that the object does not have itself but
  inherits from \<open>Object.prototype\<close> gives a value that is not a string.
\<close>

definition OBJECT_PROTOTYPE_KEYS :: "string list" where
  "OBJECT_PROTOTYPE_KEYS =
     [''constructor'', ''__defineGetter__'', ''__defineSetter__'', ''hasOwnProperty'', ''__lookupGetter__'',
      ''__lookupSetter__'', ''isPrototypeOf'', ''propertyIsEnumerable'', ''toString'', ''valueOf'', ''__proto__'',
      ''toLocaleString'']"

datatype action_lookup = NoAction | Inherited | Catalogued string

definition AUDIT_ACTIONS :: "string \<Rightarrow> action_lookup" where
  "AUDIT_ACTIONS action =
     (case map_of AUDIT_EVENT_CATALOG action of
        Some (entityType, _) \<Rightarrow> Catalogued entityType
      | None \<Rightarrow> if action \<in> set OBJECT_PROTOTYPE_KEYS then Inherited else NoAction)"

definition MAX_ID_LENGTH :: nat where
  "MAX_ID_LENGTH = 191"

definition MAX_METADATA_STRING :: nat where
  "MAX_METADATA_STRING = 128"

definition METADATA_CHARS :: string where
  "METADATA_CHARS = ALPHA @ DIGITS @ ''_.:/@+-''"

definition boundedString :: "nat \<Rightarrow> string option \<Rightarrow> string option" where
  "boundedString max_length v =
     (case v of None \<Rightarrow> None | Some text \<Rightarrow> if 0 < length text then Some (take max_length text) else None)"

subsection \<open>Addresses\<close>

text \<open>\<open>String.split\<close> with the separator \<open>::\<close>.\<close>

fun split_colons :: "string \<Rightarrow> string list" where
  "split_colons (c # d # s) =
     (if c = CHR '':'' \<and> d = CHR '':'' then [] # split_colons s
      else (case split_colons (d # s) of [] \<Rightarrow> [[c]] | p # ps \<Rightarrow> (c # p) # ps))"
| "split_colons s = [s]"

text \<open>\<open>replace(/^0+(?=.)/, '')\<close>: leading zeros, but never the last character.\<close>

definition strip_zeros :: "string \<Rightarrow> string" where
  "strip_zeros s =
     (if s = [] then [] else if dropWhile (\<lambda>c. c = CHR ''0'') s = [] then [last s] else dropWhile (\<lambda>c. c = CHR ''0'') s)"

definition expandIpv6 :: "string \<Rightarrow> string list" where
  "expandIpv6 address =
     (let pieces = split_colons address;
          compressed = (1 < length pieces);
          head = hd pieces;
          tail = (if compressed then pieces ! 1 else []);
          headParts = (if head = [] then [] else js_split CHR '':'' head);
          tailParts = (if compressed \<and> tail \<noteq> [] then js_split CHR '':'' tail else []);
          parts = (if compressed
                   then headParts @ replicate (8 - length headParts - length tailParts) ''0'' @ tailParts
                   else headParts)
      in map (\<lambda>part. strip_zeros (js_lower part)) parts)"

text \<open>A missing element of a destructured array prints as \<open>undefined\<close>.\<close>

definition part_text :: "string list \<Rightarrow> nat \<Rightarrow> string" where
  "part_text parts i = (if i < length parts then parts ! i else ''undefined'')"

definition dotted_quad :: "string \<Rightarrow> bool" where
  "dotted_quad s \<longleftrightarrow> (let parts = js_split CHR ''.'' s in length parts = 4 \<and> list_all (\<lambda>p. p \<noteq> [] \<and> all_in DIGITS p) parts)"

definition unmapped :: "string \<Rightarrow> string" where
  "unmapped address =
     (if js_lower (take 7 address) = ''::ffff:'' \<and> dotted_quad (drop 7 address) then drop 7 address else address)"

definition truncateIp :: "audit_externals \<Rightarrow> string option \<Rightarrow> string option" where
  "truncateIp ext ip =
     (case ip of
        None \<Rightarrow> None
      | Some text \<Rightarrow>
         (let address = unmapped (js_trim text); version = isIP ext address
          in if version = 4 then
               (let p = js_split CHR ''.'' address
                in Some (part_text p 0 @ ''.'' @ part_text p 1 @ ''.'' @ part_text p 2 @ ''.0/24''))
             else if version = 6 then
               (let p = expandIpv6 (hd (js_split CHR ''%'' address))
                in Some (part_text p 0 @ '':'' @ part_text p 1 @ '':'' @ part_text p 2 @ ''::/48''))
             else None))"

subsection \<open>Metadata\<close>

definition clean_value :: "audit_externals \<Rightarrow> meta_value \<Rightarrow> meta_value option" where
  "clean_value ext v =
     (case v of
        MNull \<Rightarrow> Some MNull
      | MBool b \<Rightarrow> Some (MBool b)
      | MNum n \<Rightarrow> if is_finite n then Some (MNum n) else None
      | MDate (Some t) \<Rightarrow> Some (MStr (toISOString ext t))
      | MDate None \<Rightarrow> None
      | MStr s \<Rightarrow> if length s \<le> MAX_METADATA_STRING \<and> all_in METADATA_CHARS s then Some (MStr s) else None
      | MOther \<Rightarrow> None)"

fun clean_fields :: "audit_externals \<Rightarrow> metadata \<Rightarrow> string list \<Rightarrow> metadata" where
  "clean_fields ext source [] = []"
| "clean_fields ext source (key # keys) =
     (case Option.bind (map_of source key) (clean_value ext) of
        None \<Rightarrow> clean_fields ext source keys
      | Some v \<Rightarrow> (key, v) # clean_fields ext source keys)"

text \<open>\<open>None\<close>: the metadata is not an object.\<close>

definition sanitizeAuditMetadata :: "audit_externals \<Rightarrow> metadata option \<Rightarrow> string \<Rightarrow> metadata" where
  "sanitizeAuditMetadata ext metadata action =
     (case map_of AUDIT_EVENT_CATALOG action of
        None \<Rightarrow> []
      | Some (_, actionFields) \<Rightarrow>
         (case metadata of None \<Rightarrow> []
          | Some source \<Rightarrow> clean_fields ext source (actionFields @ AUDIT_UNIVERSAL_METADATA)))"

subsection \<open>Recording\<close>

record audit_event =
  ev_organizationId :: "string option"
  ev_ownerClientId :: "string option"
  ev_ownerInvoiceId :: "string option"
  ev_actorUserId :: "string option"
  ev_actorType :: string
  ev_action :: string
  ev_entityType :: "string option"
  ev_entityId :: "string option"
  ev_requestId :: "string option"
  ev_ip :: "string option"
  ev_metadata :: "metadata option"

record audit_row =
  ar_organizationId :: string
  ar_actorUserId :: "string option"
  ar_actorType :: string
  ar_action :: string
  ar_entityType :: string
  ar_entityId :: "string option"
  ar_requestId :: "string option"
  ar_ip :: "string option"
  ar_metadata :: metadata
  ar_createdAt :: timestamp

record audit_db =
  ad_clients :: "(string \<times> string option) list"
  ad_invoices :: "(string \<times> string) list"
  ad_events :: "audit_row list"

text \<open>The support view of the running request, from the request context.\<close>

record impersonation_ctx =
  ic_organizationId :: string
  ic_actorUserId :: string
  ic_subjectUserId :: string
  ic_sessionId :: string

definition actorTypeForRole :: "string option \<Rightarrow> string" where
  "actorTypeForRole role =
     (if role = Some ''CLIENT'' then ''CLIENT'' else if role = Some ''BOT'' then ''BOT'' else ''USER'')"

definition resolveOrganizationId :: "audit_db \<Rightarrow> audit_event \<Rightarrow> string option" where
  "resolveOrganizationId db event =
     (if given (ev_organizationId event) then ev_organizationId event
      else if given (ev_ownerClientId event) then
        Option.bind (map_of (ad_clients db) (the (ev_ownerClientId event))) (\<lambda>org. org)
      else if given (ev_ownerInvoiceId event) then
        Option.bind (map_of (ad_invoices db) (the (ev_ownerInvoiceId event)))
          (\<lambda>client. Option.bind (map_of (ad_clients db) client) (\<lambda>org. org))
      else None)"

text \<open>Who the event names: during a support view the administrator, never the viewed person.\<close>

definition attribute_event ::
  "impersonation_ctx option \<Rightarrow> string \<Rightarrow> audit_event \<Rightarrow> string option \<times> string \<times> metadata option" where
  "attribute_event imp organizationId event =
     (case imp of
        None \<Rightarrow> (ev_actorUserId event, ev_actorType event, ev_metadata event)
      | Some i \<Rightarrow>
         if ic_organizationId i \<noteq> organizationId
         then (ev_actorUserId event, ev_actorType event, ev_metadata event)
         else
           (let swap = (\<not> given (ev_actorUserId event) \<or> ev_actorUserId event = Some (ic_subjectUserId i));
                base = (case ev_metadata event of None \<Rightarrow> [] | Some m \<Rightarrow> m)
            in (if swap then Some (ic_actorUserId i) else ev_actorUserId event,
                if swap then ''USER'' else ev_actorType event,
                Some (AList.update ''impersonationSessionId'' (MStr (ic_sessionId i))
                        (AList.update ''impersonatedUserId'' (MStr (ic_subjectUserId i)) base)))))"

definition recordAuditEvent ::
  "audit_externals \<Rightarrow> impersonation_ctx option \<Rightarrow> bool \<Rightarrow> timestamp \<Rightarrow> audit_event \<Rightarrow> audit_db \<Rightarrow> audit_row option \<times> audit_db" where
  "recordAuditEvent ext imp write_ok nowMs event db =
     (if AUDIT_ACTIONS (ev_action event) = NoAction then (None, db)
      else if ev_actorType event \<notin> set AUDIT_ACTOR_TYPES then (None, db)
      else (case resolveOrganizationId db event of
        None \<Rightarrow> (None, db)
      | Some organizationId \<Rightarrow>
         if organizationId = [] then (None, db)
         else
           (case attribute_event imp organizationId event of (actorUserId, actorType, metadata) \<Rightarrow>
             (case (case ev_entityType event of
                      Some t \<Rightarrow> Some t
                    | None \<Rightarrow> (case AUDIT_ACTIONS (ev_action event) of Catalogued t \<Rightarrow> Some t | _ \<Rightarrow> None)) of
                None \<Rightarrow> (None, db)
              | Some entityType \<Rightarrow>
                 if \<not> write_ok then (None, db)
                 else
                   (let row = \<lparr>ar_organizationId = organizationId,
                               ar_actorUserId = boundedString MAX_ID_LENGTH actorUserId,
                               ar_actorType = actorType, ar_action = ev_action event, ar_entityType = entityType,
                               ar_entityId = boundedString MAX_ID_LENGTH (ev_entityId event),
                               ar_requestId = boundedString 100 (ev_requestId event),
                               ar_ip = truncateIp ext (ev_ip event),
                               ar_metadata = sanitizeAuditMetadata ext metadata (ev_action event),
                               ar_createdAt = nowMs\<rparr>
                    in (Some row, db\<lparr>ad_events := ad_events db @ [row]\<rparr>))))))"

subsection \<open>Events of a request\<close>

record audit_request =
  rq_userId :: "string option"
  rq_userRole :: "string option"
  rq_userOrganizationId :: "string option"
  rq_impersonation :: "impersonation_ctx option"
  rq_id :: "string option"
  rq_ip :: "string option"

text \<open>The fields a caller passes; the outer \<open>None\<close> is \<open>undefined\<close>, \<open>Some None\<close> is \<open>null\<close>.\<close>

record audit_fields =
  af_organizationId :: "string option option"
  af_ownerClientId :: "string option option"
  af_ownerInvoiceId :: "string option option"
  af_actorUserId :: "string option option"
  af_actorType :: "string option"
  af_action :: string
  af_entityType :: "string option option"
  af_entityId :: "string option option"
  af_requestId :: "string option option"
  af_ip :: "string option option"
  af_metadata :: "metadata option"

definition field_or :: "'f option \<Rightarrow> 'f \<Rightarrow> 'f" where
  "field_or field otherwise = (case field of None \<Rightarrow> otherwise | Some v \<Rightarrow> v)"

definition auditContextFromRequest :: "audit_request \<Rightarrow> audit_fields \<Rightarrow> audit_event" where
  "auditContextFromRequest request overrides =
     \<lparr>ev_organizationId = rq_userOrganizationId request, ev_ownerClientId = None, ev_ownerInvoiceId = None,
      ev_actorUserId = field_or (af_actorUserId overrides)
        (case rq_impersonation request of Some i \<Rightarrow> Some (ic_actorUserId i) | None \<Rightarrow> rq_userId request),
      ev_actorType = field_or (af_actorType overrides)
        (case rq_impersonation request of Some _ \<Rightarrow> ''USER'' | None \<Rightarrow> actorTypeForRole (rq_userRole request)),
      ev_action = af_action overrides, ev_entityType = None, ev_entityId = None,
      ev_requestId = rq_id request, ev_ip = rq_ip request, ev_metadata = None\<rparr>"

definition merge_fields :: "audit_event \<Rightarrow> audit_fields \<Rightarrow> audit_event" where
  "merge_fields ctx event =
     ctx\<lparr>ev_organizationId := field_or (af_organizationId event) (ev_organizationId ctx),
         ev_ownerClientId := field_or (af_ownerClientId event) None,
         ev_ownerInvoiceId := field_or (af_ownerInvoiceId event) None,
         ev_entityType := field_or (af_entityType event) None,
         ev_entityId := field_or (af_entityId event) None,
         ev_requestId := field_or (af_requestId event) (ev_requestId ctx),
         ev_ip := field_or (af_ip event) (ev_ip ctx),
         ev_metadata := af_metadata event\<rparr>"

definition recordRequestAuditEvent ::
  "audit_externals \<Rightarrow> bool \<Rightarrow> timestamp \<Rightarrow> audit_request \<Rightarrow> audit_fields \<Rightarrow> audit_db \<Rightarrow> audit_row option \<times> audit_db" where
  "recordRequestAuditEvent ext write_ok nowMs request event db =
     recordAuditEvent ext (rq_impersonation request) write_ok nowMs
       (merge_fields (auditContextFromRequest request event) event) db"

subsection \<open>What every row of the log satisfies\<close>

text \<open>The documented form of \<open>toISOString\<close>: at most 27 characters of the metadata alphabet.\<close>

definition iso_ok :: "audit_externals \<Rightarrow> bool" where
  "iso_ok ext \<longleftrightarrow> (\<forall>t. length (toISOString ext t) \<le> 27 \<and> all_in METADATA_CHARS (toISOString ext t))"

definition bounded_id :: "nat \<Rightarrow> string option \<Rightarrow> bool" where
  "bounded_id n v = (case v of None \<Rightarrow> True | Some s \<Rightarrow> s \<noteq> [] \<and> length s \<le> n)"

definition value_ok :: "meta_value \<Rightarrow> bool" where
  "value_ok v =
     (case v of MNull \<Rightarrow> True | MBool _ \<Rightarrow> True | MNum n \<Rightarrow> is_finite n
      | MStr s \<Rightarrow> length s \<le> MAX_METADATA_STRING \<and> all_in METADATA_CHARS s | _ \<Rightarrow> False)"

definition allowed_fields :: "string \<Rightarrow> string list" where
  "allowed_fields action =
     (case map_of AUDIT_EVENT_CATALOG action of None \<Rightarrow> [] | Some (_, actionFields) \<Rightarrow> actionFields @ AUDIT_UNIVERSAL_METADATA)"

definition audit_row_ok :: "audit_row \<Rightarrow> bool" where
  "audit_row_ok row \<longleftrightarrow>
     ar_organizationId row \<noteq> [] \<and> ar_actorType row \<in> set AUDIT_ACTOR_TYPES \<and>
     AUDIT_ACTIONS (ar_action row) \<noteq> NoAction \<and>
     bounded_id MAX_ID_LENGTH (ar_actorUserId row) \<and> bounded_id MAX_ID_LENGTH (ar_entityId row) \<and>
     bounded_id 100 (ar_requestId row) \<and>
     (\<forall>(k, v) \<in> set (ar_metadata row). k \<in> set (allowed_fields (ar_action row)) \<and> value_ok v)"

definition audit_log_ok :: "audit_db \<Rightarrow> bool" where
  "audit_log_ok db \<longleftrightarrow> list_all audit_row_ok (ad_events db)"

lemma bounded_boundedString: "0 < n \<Longrightarrow> bounded_id n (boundedString n v)"
  by (auto simp: bounded_id_def boundedString_def split: option.splits)

lemma clean_value_ok: "iso_ok ext \<Longrightarrow> clean_value ext v = Some w \<Longrightarrow> value_ok w"
  by (auto simp: clean_value_def value_ok_def iso_ok_def MAX_METADATA_STRING_def intro: order_trans
      split: meta_value.splits option.splits if_splits)

lemma clean_fields_ok:
  assumes "iso_ok ext" and "(k, v) \<in> set (clean_fields ext source keys)"
  shows "k \<in> set keys \<and> value_ok v"
  using assms(2)
  by (induction keys) (auto split: option.splits bind_splits dest: clean_value_ok [OF assms(1)])

lemma sanitize_ok:
  assumes "iso_ok ext" and "(k, v) \<in> set (sanitizeAuditMetadata ext metadata action)"
  shows "k \<in> set (allowed_fields action) \<and> value_ok v"
  using assms clean_fields_ok [OF assms(1)]
  by (fastforce simp: sanitizeAuditMetadata_def allowed_fields_def split: option.splits prod.splits)

lemma attribute_actor_type:
  "attribute_event imp org event = (actor, actorType, m) \<Longrightarrow> ev_actorType event \<in> set AUDIT_ACTOR_TYPES \<Longrightarrow>
   actorType \<in> set AUDIT_ACTOR_TYPES"
  by (auto simp: attribute_event_def AUDIT_ACTOR_TYPES_def Let_def split: option.splits if_splits)

text \<open>What a recorded row is made of.\<close>

lemma record_row:
  assumes "recordAuditEvent ext imp write_ok nowMs event db = (r, db')"
  shows "(r = None \<and> db' = db) \<or>
     (\<exists>org actor actorType m t. resolveOrganizationId db event = Some org \<and> org \<noteq> [] \<and>
        AUDIT_ACTIONS (ev_action event) \<noteq> NoAction \<and> ev_actorType event \<in> set AUDIT_ACTOR_TYPES \<and>
        attribute_event imp org event = (actor, actorType, m) \<and>
        r = Some \<lparr>ar_organizationId = org, ar_actorUserId = boundedString MAX_ID_LENGTH actor, ar_actorType = actorType,
                  ar_action = ev_action event, ar_entityType = t, ar_entityId = boundedString MAX_ID_LENGTH (ev_entityId event),
                  ar_requestId = boundedString 100 (ev_requestId event), ar_ip = truncateIp ext (ev_ip event),
                  ar_metadata = sanitizeAuditMetadata ext m (ev_action event), ar_createdAt = nowMs\<rparr> \<and>
        db' = db\<lparr>ad_events := ad_events db @ [the r]\<rparr>)"
  using assms unfolding recordAuditEvent_def Let_def
  by (auto split: if_splits option.splits prod.splits)

lemma record_keeps_ok:
  assumes iso: "iso_ok ext" and rec: "recordAuditEvent ext imp write_ok nowMs event db = (r, db')"
  shows "(\<forall>row. r = Some row \<longrightarrow> audit_row_ok row) \<and>
    db' = db\<lparr>ad_events := ad_events db @ (case r of None \<Rightarrow> [] | Some row \<Rightarrow> [row])\<rparr>"
  using record_row [OF rec]
proof (elim disjE exE conjE)
  fix org actor actorType m t
  assume r: "r = Some \<lparr>ar_organizationId = org, ar_actorUserId = boundedString MAX_ID_LENGTH actor, ar_actorType = actorType,
                  ar_action = ev_action event, ar_entityType = t, ar_entityId = boundedString MAX_ID_LENGTH (ev_entityId event),
                  ar_requestId = boundedString 100 (ev_requestId event), ar_ip = truncateIp ext (ev_ip event),
                  ar_metadata = sanitizeAuditMetadata ext m (ev_action event), ar_createdAt = nowMs\<rparr>" (is "r = Some ?row")
    and org: "org \<noteq> []" and act: "AUDIT_ACTIONS (ev_action event) \<noteq> NoAction"
    and ty: "ev_actorType event \<in> set AUDIT_ACTOR_TYPES" "attribute_event imp org event = (actor, actorType, m)"
    and db: "db' = db\<lparr>ad_events := ad_events db @ [the r]\<rparr>"
  have "audit_row_ok ?row"
    using org act attribute_actor_type [OF ty(2,1)] sanitize_ok [OF iso]
    by (auto simp: audit_row_ok_def bounded_boundedString MAX_ID_LENGTH_def)
  with r db show ?thesis by simp
qed simp

text \<open>C29: Every write of the audit log, whatever the caller passes, appends at most one row and changes no other, and
  every row has an owning organization, a known actor type and action, identifiers of bounded length, and only the
  metadata fields of its action's catalog entry, with finite numbers, booleans, nulls and strings of at most 128
  characters of the identifier alphabet (so no free text); the write never fails towards the caller.\<close>

theorem audit_log_well_formed:
  assumes "iso_ok ext" and "audit_log_ok db" and "recordAuditEvent ext imp write_ok nowMs event db = (r, db')"
  shows "audit_log_ok db' \<and> db' = db\<lparr>ad_events := ad_events db @ (case r of None \<Rightarrow> [] | Some row \<Rightarrow> [row])\<rparr>"
  using record_keeps_ok [OF assms(1,3)] assms(2) by (auto simp: audit_log_ok_def split: option.splits)

subsection \<open>Attribution during a support view\<close>

lemma clean_fields_lookup:
  "map_of (clean_fields ext source keys) k =
     (if k \<in> set keys then Option.bind (map_of source k) (clean_value ext) else None)"
proof (induction keys)
  case (Cons key keys)
  then show ?case by (cases "Option.bind (map_of source key) (clean_value ext)") auto
qed simp

definition plain_id :: "string \<Rightarrow> bool" where
  "plain_id s \<longleftrightarrow> s \<noteq> [] \<and> length s \<le> MAX_METADATA_STRING \<and> all_in METADATA_CHARS s"

lemma clean_plain_id: "plain_id s \<Longrightarrow> clean_value ext (MStr s) = Some (MStr s)"
  by (simp add: plain_id_def clean_value_def)

lemma bounded_not_plain:
  "plain_id s \<Longrightarrow> v \<noteq> Some s \<Longrightarrow> boundedString MAX_ID_LENGTH v \<noteq> Some s"
  by (auto simp: boundedString_def plain_id_def MAX_ID_LENGTH_def MAX_METADATA_STRING_def split: option.splits)

lemma record_attributed:
  assumes rec: "recordAuditEvent ext (Some i) write_ok nowMs event db = (Some row, db')"
    and org: "ar_organizationId row = ic_organizationId i"
    and ids: "plain_id (ic_subjectUserId i)" "plain_id (ic_sessionId i)" "ic_actorUserId i \<noteq> ic_subjectUserId i"
    and cat: "AUDIT_ACTIONS (ev_action event) = Catalogued t"
  shows "ar_actorUserId row \<noteq> Some (ic_subjectUserId i) \<and>
    map_of (ar_metadata row) ''impersonatedUserId'' = Some (MStr (ic_subjectUserId i)) \<and>
    map_of (ar_metadata row) ''impersonationSessionId'' = Some (MStr (ic_sessionId i))"
proof -
  obtain actor actorType m where a: "attribute_event (Some i) (ic_organizationId i) event = (actor, actorType, m)"
    and row: "ar_actorUserId row = boundedString MAX_ID_LENGTH actor"
      "ar_metadata row = sanitizeAuditMetadata ext m (ev_action event)"
    using record_row [OF rec] org by auto
  obtain base where m: "m = Some (AList.update ''impersonationSessionId'' (MStr (ic_sessionId i))
      (AList.update ''impersonatedUserId'' (MStr (ic_subjectUserId i)) base))"
    and actor: "actor \<noteq> Some (ic_subjectUserId i)"
    using a ids(3) by (auto simp: attribute_event_def Let_def split: if_splits)
  obtain fs where c: "map_of AUDIT_EVENT_CATALOG (ev_action event) = Some (t, fs)"
    using cat by (auto simp: AUDIT_ACTIONS_def split: option.splits if_splits prod.splits)
  show ?thesis
    unfolding row
    using bounded_not_plain [OF ids(1) actor] ids(1,2) clean_plain_id
    by (simp add: sanitizeAuditMetadata_def c m clean_fields_lookup AUDIT_UNIVERSAL_METADATA_def AList.update_conv')
qed

text \<open>An event written while an administrator views as another person, in that person's organization, never names
  the viewed person as its actor, and always carries the viewed person and the support view in its metadata, whatever
  actor and metadata the caller passed.\<close>

theorem impersonated_event_attributed:
  assumes "recordAuditEvent ext (Some i) write_ok nowMs event db = (Some row, db')"
    and "ar_organizationId row = ic_organizationId i"
    and "plain_id (ic_subjectUserId i)" and "plain_id (ic_sessionId i)" and "ic_actorUserId i \<noteq> ic_subjectUserId i"
    and "AUDIT_ACTIONS (ev_action event) = Catalogued t"
  shows "ar_actorUserId row \<noteq> Some (ic_subjectUserId i) \<and>
    map_of (ar_metadata row) ''impersonatedUserId'' = Some (MStr (ic_subjectUserId i)) \<and>
    map_of (ar_metadata row) ''impersonationSessionId'' = Some (MStr (ic_sessionId i))"
  using assms by (rule record_attributed)

subsection \<open>Witnesses\<close>

definition sample_audit_ext :: audit_externals where
  "sample_audit_ext = \<lparr>sha256 = (\<lambda>s. replicate 64 CHR ''0''), toISOString = (\<lambda>t. ''2026-01-01T00:00:00.000Z''),
     zodDateTime = (\<lambda>s. True), isIP = (\<lambda>s. if dotted_quad s then 4 else 0)\<rparr>"

definition sample_audit_event :: audit_event where
  "sample_audit_event = \<lparr>ev_organizationId = Some ''org1'', ev_ownerClientId = None, ev_ownerInvoiceId = None,
     ev_actorUserId = Some ''u2'', ev_actorType = ''CLIENT'', ev_action = ''estimate.approved'', ev_entityType = None,
     ev_entityId = Some ''est1'', ev_requestId = Some ''req-1'', ev_ip = Some ''203.0.113.7'',
     ev_metadata = Some [(''via'', MStr ''portal''), (''note'', MStr ''call me''), (''total'', MNum (Fin 120))]\<rparr>"

definition sample_audit_db :: audit_db where
  "sample_audit_db = \<lparr>ad_clients = [], ad_invoices = [], ad_events = []\<rparr>"

definition sample_view :: impersonation_ctx where
  "sample_view = \<lparr>ic_organizationId = ''org1'', ic_actorUserId = ''u1'', ic_subjectUserId = ''u2'', ic_sessionId = ''view1''\<rparr>"

definition sample_audit_row :: audit_row where
  "sample_audit_row = \<lparr>ar_organizationId = ''org1'', ar_actorUserId = Some ''u1'', ar_actorType = ''USER'',
     ar_action = ''estimate.approved'', ar_entityType = ''estimate'', ar_entityId = Some ''est1'',
     ar_requestId = Some ''req-1'', ar_ip = Some ''203.0.113.0/24'',
     ar_metadata = [(''via'', MStr ''portal''), (''total'', MNum (Fin 120)), (''impersonatedUserId'', MStr ''u2''),
                    (''impersonationSessionId'', MStr ''view1'')], ar_createdAt = 5\<rparr>"

lemma sample_iso: "iso_ok sample_audit_ext"
  by (simp add: iso_ok_def sample_audit_ext_def METADATA_CHARS_def ALPHA_def DIGITS_def all_in_def)

lemma sample_event_recorded:
  "recordAuditEvent sample_audit_ext (Some sample_view) True 5 sample_audit_event sample_audit_db =
     (Some sample_audit_row, sample_audit_db\<lparr>ad_events := [sample_audit_row]\<rparr>)"
  by code_simp

lemma sample_log_ok: "audit_log_ok sample_audit_db"
  by (simp add: audit_log_ok_def sample_audit_db_def)

theorem audit_log_well_formed_witness:
  "audit_log_ok (sample_audit_db\<lparr>ad_events := [sample_audit_row]\<rparr>)"
  using audit_log_well_formed [OF sample_iso sample_log_ok sample_event_recorded] by blast

theorem impersonated_event_attributed_witness: "ar_actorUserId sample_audit_row \<noteq> Some ''u2''"
proof -
  have "AUDIT_ACTIONS (ev_action sample_audit_event) = Catalogued ''estimate''"
    by code_simp
  moreover have "plain_id ''u2''" "plain_id ''view1''"
    by (simp_all add: plain_id_def MAX_METADATA_STRING_def METADATA_CHARS_def ALPHA_def DIGITS_def all_in_def)
  ultimately show ?thesis
    using impersonated_event_attributed [OF sample_event_recorded] by (simp add: sample_view_def sample_audit_row_def)
qed

end
