(* ===== verification/Request_Paths.thy ===== *)
theory Request_Paths
  imports Token_Codec
begin

section \<open>Request URLs and the paths security decisions look at\<close>

text \<open>
  Models \<^verbatim>\<open>src/config/http.js\<close> (the request timeout, the canonical form of a request URL, the path a
  security decision looks at) and the path helpers of \<^verbatim>\<open>src/auth/impersonation.js\<close>. The main result is
  that rewriting a URL to its canonical form never changes the path it is normalized to.

  \<open>decodeURIComponent\<close> is modelled for characters up to Latin-1; an escaped character above that is
  treated like a malformed escape.
\<close>

record route_options =
  ro_url :: "string option"
  ro_public :: bool
  ro_actsForStaff :: bool
  ro_sideEffectingGet :: bool

record http_request =
  hr_method :: string
  hr_url :: string
  hr_route :: route_options

subsection \<open>The request timeout\<close>

definition DEFAULT_REQUEST_TIMEOUT_MS :: rat where
  "DEFAULT_REQUEST_TIMEOUT_MS = 120000"

definition MIN_REQUEST_TIMEOUT_MS :: rat where
  "MIN_REQUEST_TIMEOUT_MS = 10000"

definition MAX_REQUEST_TIMEOUT_MS :: rat where
  "MAX_REQUEST_TIMEOUT_MS = 15 * 60000"

text \<open>\<open>Number.parseInt(text, 10)\<close>: leading white space, a sign, then as many digits as there are.\<close>

definition parse_int :: "string \<Rightarrow> jsnum" where
  "parse_int text =
     (let s = dropWhile is_space text;
          negative = (s \<noteq> [] \<and> hd s = CHR ''-'');
          t = (if s \<noteq> [] \<and> hd s \<in> {CHR ''-'', CHR ''+''} then tl s else s);
          digits = fst (span_digits t)
      in if digits = [] then NaN
         else js_of_rat (if negative then - of_nat (digits_value digits 0) else of_nat (digits_value digits 0)))"

definition is_integer :: "jsnum \<Rightarrow> bool" where
  "is_integer n = (case n of Fin q \<Rightarrow> q = of_int \<lfloor>q\<rfloor> | _ \<Rightarrow> False)"

definition requestTimeoutMs :: "string option \<Rightarrow> jsnum" where
  "requestTimeoutMs setting =
     (let parsed = parse_int (case setting of None \<Rightarrow> [] | Some s \<Rightarrow> s)
      in if \<not> is_integer parsed \<or> js_le parsed (Fin 0) then Fin DEFAULT_REQUEST_TIMEOUT_MS
         else math_min (math_max parsed (Fin MIN_REQUEST_TIMEOUT_MS)) (Fin MAX_REQUEST_TIMEOUT_MS))"

subsection \<open>Canonical URLs\<close>

definition UNRESERVED :: string where
  "UNRESERVED = ALPHA @ DIGITS @ ''-._~''"

definition HEX_DIGITS :: string where
  "HEX_DIGITS = ''0123456789ABCDEFabcdef''"

definition is_hex :: "char \<Rightarrow> bool" where
  "is_hex c \<longleftrightarrow> c \<in> set HEX_DIGITS"

definition hex_pair :: "char \<Rightarrow> char \<Rightarrow> nat" where
  "hex_pair a b = 16 * the (hex_value a) + the (hex_value b)"

text \<open>A percent sign not followed by two hexadecimal digits.\<close>

fun malformed_escape :: "string \<Rightarrow> bool" where
  "malformed_escape [] = False"
| "malformed_escape (c # s) =
     ((c = CHR ''%'' \<and> (case s of a # b # _ \<Rightarrow> \<not> (is_hex a \<and> is_hex b) | _ \<Rightarrow> True)) \<or> malformed_escape s)"

text \<open>\<open>escape.toUpperCase()\<close> of a hexadecimal digit.\<close>

definition upper_hex :: "char \<Rightarrow> char" where
  "upper_hex c = hd (upper_char c)"

fun canonical_path :: "string \<Rightarrow> string" where
  "canonical_path (p # a # b # s) =
     (if p = CHR ''%'' \<and> is_hex a \<and> is_hex b then
        (if char_of (hex_pair a b) \<in> set UNRESERVED then char_of (hex_pair a b) # canonical_path s
         else p # upper_hex a # upper_hex b # canonical_path s)
      else p # canonical_path (a # b # s))"
| "canonical_path s = s"

text \<open>An absolute-form target without its scheme and host: from the first slash after the scheme.\<close>

definition absolute_rest :: "string \<Rightarrow> string option" where
  "absolute_rest url =
     (let after = (if take 7 url = ''http://'' then Some (drop 7 url)
                   else if take 8 url = ''https://'' then Some (drop 8 url) else None)
      in case after of None \<Rightarrow> None
         | Some s \<Rightarrow>
            (case dropWhile (\<lambda>c. c \<noteq> CHR ''/'' \<and> c \<noteq> CHR 10 \<and> c \<noteq> CHR 13) s of
               [] \<Rightarrow> None
             | c # r \<Rightarrow> if c = CHR ''/'' then Some (c # r) else None))"

definition canonicalRequestUrl :: "string \<Rightarrow> string" where
  "canonicalRequestUrl url =
     (let target = (if take 1 url = ''/'' then url else (case absolute_rest url of None \<Rightarrow> url | Some r \<Rightarrow> r))
      in if CHR ''%'' \<notin> set target then target
         else
           (let path = takeWhile (\<lambda>c. c \<noteq> CHR ''?'') target; rest = dropWhile (\<lambda>c. c \<noteq> CHR ''?'') target
            in if malformed_escape path then target else canonical_path path @ rest))"

definition requestPath :: "http_request \<Rightarrow> string" where
  "requestPath request =
     (if (case ro_url (hr_route request) of None \<Rightarrow> False | Some route \<Rightarrow> take 1 route = ''/'')
      then the (ro_url (hr_route request))
      else
        (let url = canonicalRequestUrl (hr_url request);
             path = takeWhile (\<lambda>c. c \<noteq> CHR ''?'' \<and> c \<noteq> CHR ''#'') url
         in if take 1 path = ''/'' then path else ''/''))"

subsection \<open>Normalized paths\<close>

definition pathOf :: "string \<Rightarrow> string" where
  "pathOf url = takeWhile (\<lambda>c. c \<noteq> CHR ''?'') url"

fun decodeURIComponent :: "string \<Rightarrow> string option" where
  "decodeURIComponent [] = Some []"
| "decodeURIComponent (c # s) =
     (if c \<noteq> CHR ''%'' then map_option (\<lambda>t. c # t) (decodeURIComponent s)
      else (case s of
        a # b # r \<Rightarrow>
          if \<not> (is_hex a \<and> is_hex b) then None
          else if hex_pair a b < 128 then map_option (\<lambda>t. char_of (hex_pair a b) # t) (decodeURIComponent r)
          else (case r of
            p # a' # b' # r' \<Rightarrow>
              if p = CHR ''%'' \<and> is_hex a' \<and> is_hex b' \<and> hex_pair a b \<in> {194, 195}
                 \<and> 128 \<le> hex_pair a' b' \<and> hex_pair a' b' < 192
              then map_option (\<lambda>t. char_of ((hex_pair a b - 192) * 64 + (hex_pair a' b' - 128)) # t) (decodeURIComponent r')
              else None
          | _ \<Rightarrow> None)
      | _ \<Rightarrow> None))"

fun collapse_slashes :: "string \<Rightarrow> string" where
  "collapse_slashes (c # d # s) =
     (if c = CHR ''/'' \<and> d = CHR ''/'' then collapse_slashes (d # s) else c # collapse_slashes (d # s))"
| "collapse_slashes s = s"

definition normalizedPath :: "string \<Rightarrow> string" where
  "normalizedPath url =
     (let raw = pathOf url;
          decoded = (case decodeURIComponent raw of None \<Rightarrow> raw | Some t \<Rightarrow> t);
          path = collapse_slashes decoded
      in if 1 < length path then rev (dropWhile (\<lambda>c. c = CHR ''/'') (rev path)) else path)"

definition matchesPrefix :: "string \<Rightarrow> string \<Rightarrow> bool" where
  "matchesPrefix path prefix \<longleftrightarrow> path = prefix \<or> starts_with (prefix @ ''/'') path"

subsection \<open>The timeout stays in its range\<close>

lemma request_timeout_bounds:
  "\<exists>q. requestTimeoutMs setting = Fin q \<and> MIN_REQUEST_TIMEOUT_MS \<le> q \<and> q \<le> MAX_REQUEST_TIMEOUT_MS"
  by (auto simp: requestTimeoutMs_def Let_def math_min_def math_max_def is_integer_def DEFAULT_REQUEST_TIMEOUT_MS_def
      MIN_REQUEST_TIMEOUT_MS_def MAX_REQUEST_TIMEOUT_MS_def split: jsnum.splits)

subsection \<open>The canonical form keeps the path\<close>

lemma hex_digit_facts:
  "list_all (\<lambda>c. upper_hex c \<in> set HEX_DIGITS \<and> hex_value (upper_hex c) = hex_value c \<and> the (hex_value c) < 16
     \<and> upper_hex (upper_hex c) = upper_hex c \<and> upper_hex c \<noteq> CHR ''?'' \<and> c \<noteq> CHR ''%'') HEX_DIGITS"
  by code_simp

lemma is_hexD:
  assumes "is_hex c"
  shows "is_hex (upper_hex c)" and "hex_value (upper_hex c) = hex_value c" and "the (hex_value c) < 16"
    and "upper_hex (upper_hex c) = upper_hex c" and "upper_hex c \<noteq> CHR ''?''" and "c \<noteq> CHR ''%''"
  using assms hex_digit_facts by (auto simp: is_hex_def list_all_iff)

lemma hex_pair_upper: "is_hex a \<Longrightarrow> is_hex b \<Longrightarrow> hex_pair (upper_hex a) (upper_hex b) = hex_pair a b"
  by (simp add: hex_pair_def is_hexD)

lemma hex_pair_less: "is_hex a \<Longrightarrow> is_hex b \<Longrightarrow> hex_pair a b < 256"
  using is_hexD(3) [of a] is_hexD(3) [of b] by (simp add: hex_pair_def)

lemma unreserved_facts:
  "list_all (\<lambda>c. of_char c < (128 :: nat) \<and> c \<noteq> CHR ''%'' \<and> c \<noteq> CHR ''?'') UNRESERVED"
  by code_simp

lemma unreservedD: "c \<in> set UNRESERVED \<Longrightarrow> of_char c < (128 :: nat) \<and> c \<noteq> CHR ''%'' \<and> c \<noteq> CHR ''?''"
  using unreserved_facts by (simp add: list_all_iff)

lemma hex_pair_unreserved:
  "is_hex a \<Longrightarrow> is_hex b \<Longrightarrow> char_of (hex_pair a b) \<in> set UNRESERVED \<Longrightarrow> hex_pair a b < 128"
  using unreservedD [of "char_of (hex_pair a b)"] hex_pair_less [of a b] by simp

lemma canonical_plain: "c \<noteq> CHR ''%'' \<Longrightarrow> canonical_path (c # s) = c # canonical_path s"
  by (cases s rule: canonical_path.cases) auto

text \<open>The shapes of a path without malformed escapes and of its canonical form.\<close>

lemma canonical_cases:
  assumes "\<not> malformed_escape s"
  obtains "s = []"
    | c t where "s = c # t" and "c \<noteq> CHR ''%''" and "canonical_path s = c # canonical_path t" and "\<not> malformed_escape t"
    | a b r where "s = CHR ''%'' # a # b # r" and "is_hex a" and "is_hex b" and "\<not> malformed_escape r"
        and "char_of (hex_pair a b) \<in> set UNRESERVED" and "canonical_path s = char_of (hex_pair a b) # canonical_path r"
    | a b r where "s = CHR ''%'' # a # b # r" and "is_hex a" and "is_hex b" and "\<not> malformed_escape r"
        and "char_of (hex_pair a b) \<notin> set UNRESERVED"
        and "canonical_path s = CHR ''%'' # upper_hex a # upper_hex b # canonical_path r"
proof (cases s)
  case (Cons c t)
  show ?thesis
  proof (cases "c = CHR ''%''")
    case True
    then obtain a b r where "t = a # b # r" "is_hex a" "is_hex b" "\<not> malformed_escape r"
      using assms Cons by (auto split: list.splits)
    then show ?thesis using that(3,4) Cons True by (cases "char_of (hex_pair a b) \<in> set UNRESERVED") auto
  qed (use that(2) Cons assms in \<open>auto simp: canonical_plain\<close>)
qed (use that(1) in simp)

lemma decode_plain: "c \<noteq> CHR ''%'' \<Longrightarrow> decodeURIComponent (c # s) = map_option (\<lambda>t. c # t) (decodeURIComponent s)"
  by simp

lemma decode_escape:
  "is_hex a \<Longrightarrow> is_hex b \<Longrightarrow> decodeURIComponent (CHR ''%'' # a # b # r) =
     (if hex_pair a b < 128 then map_option (\<lambda>t. char_of (hex_pair a b) # t) (decodeURIComponent r)
      else (case r of
            p # a' # b' # r' \<Rightarrow>
              if p = CHR ''%'' \<and> is_hex a' \<and> is_hex b' \<and> hex_pair a b \<in> {194, 195}
                 \<and> 128 \<le> hex_pair a' b' \<and> hex_pair a' b' < 192
              then map_option (\<lambda>t. char_of ((hex_pair a b - 192) * 64 + (hex_pair a' b' - 128)) # t) (decodeURIComponent r')
              else None
          | _ \<Rightarrow> None))"
  by simp

lemma decode_two_bytes:
  assumes "\<not> malformed_escape r" and hex: "is_hex a" "is_hex b" "128 \<le> hex_pair a b"
    and IH: "\<And>r'. length r' < length r \<Longrightarrow> \<not> malformed_escape r' \<Longrightarrow>
               decodeURIComponent (canonical_path r') = decodeURIComponent r'"
  shows "decodeURIComponent (CHR ''%'' # a # b # canonical_path r) = decodeURIComponent (CHR ''%'' # a # b # r)"
  using assms(1)
proof (cases r rule: canonical_cases)
  case (2 c t)
  then show ?thesis using hex by (auto simp: decode_escape split: list.splits)
next
  case (3 a' b' r')
  then show ?thesis using hex unreservedD [of "char_of (hex_pair a' b')"] hex_pair_unreserved [of a' b']
    by (auto simp: decode_escape split: list.splits)
next
  case (4 a' b' r')
  then have "decodeURIComponent (canonical_path r') = decodeURIComponent r'" by (intro IH) auto
  with 4 show ?thesis using hex by (auto simp: decode_escape hex_pair_upper is_hexD)
qed simp

lemma decode_canonical: "\<not> malformed_escape s \<Longrightarrow> decodeURIComponent (canonical_path s) = decodeURIComponent s"
proof (induction "length s" arbitrary: s rule: less_induct)
  case less
  show ?case using less.prems
  proof (cases s rule: canonical_cases)
    case (2 c t)
    then show ?thesis using less by simp
  next
    case (3 a b r)
    then show ?thesis using less hex_pair_unreserved unreservedD [of "char_of (hex_pair a b)"] by simp
  next
    case (4 a b r)
    have IH: "decodeURIComponent (canonical_path r) = decodeURIComponent r" using less 4 by simp
    have "decodeURIComponent (canonical_path s) = decodeURIComponent (CHR ''%'' # upper_hex a # upper_hex b # r)"
    proof (cases "hex_pair a b < 128")
      case True
      then show ?thesis using 4 IH by (simp only: decode_escape is_hexD hex_pair_upper if_True)
    next
      case False
      then show ?thesis unfolding 4(6)
        by (intro decode_two_bytes) (use less 4 in \<open>auto simp: hex_pair_upper is_hexD\<close>)
    qed
    also have "\<dots> = decodeURIComponent s"
      using 4 by (simp only: decode_escape is_hexD hex_pair_upper)
    finally show ?thesis .
  qed simp
qed

lemma canonical_no_query: "\<not> malformed_escape s \<Longrightarrow> CHR ''?'' \<notin> set s \<Longrightarrow> CHR ''?'' \<notin> set (canonical_path s)"
proof (induction "length s" arbitrary: s rule: less_induct)
  case less
  show ?case using less.prems(1)
  proof (cases s rule: canonical_cases)
    case (3 a b r)
    then show ?thesis using less unreservedD [of "char_of (hex_pair a b)"] by auto
  next
    case (4 a b r)
    then show ?thesis using less is_hexD(5) [of a] is_hexD(5) [of b] by auto
  qed (use less in auto)
qed

lemma canonical_idem:
  "\<not> malformed_escape s \<Longrightarrow> \<not> malformed_escape (canonical_path s) \<and> canonical_path (canonical_path s) = canonical_path s"
proof (induction "length s" arbitrary: s rule: less_induct)
  case less
  show ?case using less.prems(1)
  proof (cases s rule: canonical_cases)
    case (2 c t)
    then show ?thesis using less by (auto simp: canonical_plain)
  next
    case (3 a b r)
    then show ?thesis using less unreservedD [of "char_of (hex_pair a b)"] by (auto simp: canonical_plain)
  next
    case (4 a b r)
    then show ?thesis using less is_hexD(6) [of "upper_hex a"] is_hexD(6) [of "upper_hex b"]
      by (auto simp: is_hexD hex_pair_upper)
  qed simp
qed

subsection \<open>Origin-form targets\<close>

definition query_of :: "string \<Rightarrow> string" where
  "query_of url = dropWhile (\<lambda>c. c \<noteq> CHR ''?'') url"

lemma path_query: "pathOf url @ query_of url = url"
  by (simp add: pathOf_def query_of_def)

lemma path_query_append:
  assumes "CHR ''?'' \<notin> set p"
  shows "pathOf (p @ query_of url) = p" and "query_of (p @ query_of url) = query_of url"
proof -
  have p: "\<forall>c \<in> set p. c \<noteq> CHR ''?''" using assms by auto
  have "pathOf (p @ query_of url) = p \<and> query_of (p @ query_of url) = query_of url"
  proof (cases "query_of url")
    case Nil
    then have "p @ query_of url = p" by simp
    then show ?thesis using p Nil by (simp only: pathOf_def) (simp add: query_of_def)
  next
    case (Cons c q)
    then have "c = CHR ''?''" unfolding query_of_def by (metis (full_types) dropWhile_eq_Cons_conv)
    then show ?thesis using p Cons by (simp add: pathOf_def query_of_def takeWhile_append2 dropWhile_append2)
  qed
  then show "pathOf (p @ query_of url) = p" "query_of (p @ query_of url) = query_of url" by blast+
qed

lemma path_no_query: "CHR ''?'' \<notin> set (pathOf url)"
  by (auto simp: pathOf_def dest: set_takeWhileD)

lemma canonical_origin:
  assumes "take 1 url = ''/''"
  shows "canonicalRequestUrl url =
    (if CHR ''%'' \<notin> set url \<or> malformed_escape (pathOf url) then url else canonical_path (pathOf url) @ query_of url)"
  using assms by (simp add: canonicalRequestUrl_def pathOf_def query_of_def Let_def)

lemma canonical_starts:
  assumes "take 1 url = ''/''"
  shows "take 1 (canonical_path (pathOf url) @ query_of url) = ''/''"
proof -
  obtain t where "url = CHR ''/'' # t" using assms by (cases url) auto
  then have "pathOf url = CHR ''/'' # pathOf t" by (simp add: pathOf_def)
  then show ?thesis by (simp add: canonical_plain)
qed

lemma canonical_same_path:
  assumes origin: "take 1 url = ''/''" and ok: "decodeURIComponent (pathOf url) \<noteq> None"
  shows "normalizedPath (canonicalRequestUrl url) = normalizedPath url"
proof (cases "CHR ''%'' \<notin> set url \<or> malformed_escape (pathOf url)")
  case False
  then have wf: "\<not> malformed_escape (pathOf url)" by simp
  have path: "pathOf (canonicalRequestUrl url) = canonical_path (pathOf url)"
    using canonical_origin [OF origin] False path_query_append(1) [OF canonical_no_query [OF wf path_no_query]] by simp
  obtain t where "decodeURIComponent (pathOf url) = Some t" using ok by auto
  then show ?thesis by (simp add: normalizedPath_def path decode_canonical [OF wf])
next
  case True
  then show ?thesis using canonical_origin [OF origin] by presburger
qed

lemma canonical_url_idem:
  assumes origin: "take 1 url = ''/''"
  shows "canonicalRequestUrl (canonicalRequestUrl url) = canonicalRequestUrl url"
proof (cases "CHR ''%'' \<notin> set url \<or> malformed_escape (pathOf url)")
  case False
  then have wf: "\<not> malformed_escape (pathOf url)" by simp
  define url' where "url' = canonical_path (pathOf url) @ query_of url"
  have split: "pathOf url' = canonical_path (pathOf url)" "query_of url' = query_of url"
    unfolding url'_def using path_query_append [OF canonical_no_query [OF wf path_no_query]] by blast+
  have "canonicalRequestUrl url' = url'"
    using canonical_origin [of url'] canonical_starts [OF origin] canonical_idem [OF wf] split
    by (simp add: url'_def)
  then show ?thesis using canonical_origin [OF origin] False by (simp add: url'_def)
next
  case True
  then show ?thesis using canonical_origin [OF origin] by presburger
qed

text \<open>The canonical form: every escape in upper case, and none of an unreserved character.\<close>

fun canonical_form :: "string \<Rightarrow> bool" where
  "canonical_form (p # a # b # s) =
     (if p = CHR ''%'' then
        a \<in> set ''0123456789ABCDEF'' \<and> b \<in> set ''0123456789ABCDEF'' \<and>
        char_of (hex_pair a b) \<notin> set UNRESERVED \<and> canonical_form s
      else canonical_form (a # b # s))"
| "canonical_form s \<longleftrightarrow> CHR ''%'' \<notin> set s"

lemma canonical_form_plain: "c \<noteq> CHR ''%'' \<Longrightarrow> canonical_form (c # s) = canonical_form s"
  by (cases s rule: canonical_form.cases) auto

lemma no_escape_canonical_form: "CHR ''%'' \<notin> set s \<Longrightarrow> canonical_form s"
  by (induction s) (auto simp: canonical_form_plain)

lemma upper_hex_digit: "is_hex c \<Longrightarrow> upper_hex c \<in> set ''0123456789ABCDEF''"
proof -
  have "list_all (\<lambda>c. upper_hex c \<in> set ''0123456789ABCDEF'') HEX_DIGITS" by code_simp
  then show "is_hex c \<Longrightarrow> upper_hex c \<in> set ''0123456789ABCDEF''" unfolding is_hex_def list_all_iff by blast
qed

lemma canonical_path_form: "\<not> malformed_escape s \<Longrightarrow> canonical_form (canonical_path s)"
proof (induction "length s" arbitrary: s rule: less_induct)
  case less
  show ?case using less.prems(1)
  proof (cases s rule: canonical_cases)
    case (2 c t)
    then show ?thesis using less by (simp add: canonical_form_plain)
  next
    case (3 a b r)
    then show ?thesis using less unreservedD [of "char_of (hex_pair a b)"] by (simp add: canonical_form_plain)
  next
    case (4 a b r)
    have "canonical_form (canonical_path r)" using less 4 by simp
    then show ?thesis
      using 4 upper_hex_digit [of a] upper_hex_digit [of b] by (simp only: canonical_form.simps hex_pair_upper if_True simp_thms)
  qed simp
qed

lemma malformed_decode: "malformed_escape s \<Longrightarrow> decodeURIComponent s = None"
proof (induction "length s" arbitrary: s rule: less_induct)
  case less
  have ih: "decodeURIComponent r = None" if "length r < length s" "malformed_escape r" for r using less.hyps that by blast
  obtain c t where s: "s = c # t" using less.prems by (cases s) auto
  consider (plain) "c \<noteq> CHR ''%''" | (bad) "c = CHR ''%''" "\<forall>a b r. t = a # b # r \<longrightarrow> \<not> (is_hex a \<and> is_hex b)"
    | (escape) a b r where "c = CHR ''%''" "t = a # b # r" "is_hex a" "is_hex b" by blast
  then show ?case
  proof cases
    case plain
    then show ?thesis using ih [of t] less.prems s by simp
  next
    case bad
    then show ?thesis using s by (simp split: list.split)
  next
    case escape
    have "a \<noteq> CHR ''%''" "b \<noteq> CHR ''%''" using escape is_hexD(6) by blast+
    then have r: "malformed_escape r" using less.prems s escape by simp
    have two: "decodeURIComponent r' = None" if "r = CHR ''%'' # a' # b' # r'" "is_hex a'" "is_hex b'" for a' b' r'
    proof -
      have "a' \<noteq> CHR ''%''" "b' \<noteq> CHR ''%''" using that is_hexD(6) by blast+
      then have "malformed_escape r'" using r that by simp
      then show ?thesis using ih [of r'] s escape that by simp
    qed
    have "decodeURIComponent r = None" using ih [of r] r s escape by simp
    then show ?thesis unfolding s escape(1,2) decode_escape [OF escape(3,4)] using two by (simp split: list.split)
  qed
qed

lemma decodes_well_formed: "decodeURIComponent s \<noteq> None \<Longrightarrow> \<not> malformed_escape s"
  by (rule notI) (simp add: malformed_decode)

lemma canonical_url_path:
  assumes origin: "take 1 url = ''/''" and wf: "\<not> malformed_escape (pathOf url)"
  shows "pathOf (canonicalRequestUrl url) = (if CHR ''%'' \<notin> set url then pathOf url else canonical_path (pathOf url))"
    and "query_of (canonicalRequestUrl url) = query_of url"
  using canonical_origin [OF origin] wf path_query_append [OF canonical_no_query [OF wf path_no_query]] by simp_all

text \<open>C33: Rewriting an origin-form request URL whose path decodes gives its canonical form: every escape of the path is in
  upper case and no unreserved character is escaped. The query stays as it is, character by character; the path
  normalizes to the same path as before, on which the access decisions are made, so decoding escaped unreserved
  characters never turns one path into another; and rewriting again changes nothing.\<close>

theorem canonical_url_same_path:
  assumes "take 1 url = ''/''" and "decodeURIComponent (pathOf url) \<noteq> None"
  shows "canonical_form (pathOf (canonicalRequestUrl url)) \<and> query_of (canonicalRequestUrl url) = query_of url \<and>
    normalizedPath (canonicalRequestUrl url) = normalizedPath url \<and>
    canonicalRequestUrl (canonicalRequestUrl url) = canonicalRequestUrl url"
proof -
  have wf: "\<not> malformed_escape (pathOf url)" using assms(2) by (rule decodes_well_formed)
  have "CHR ''%'' \<notin> set (pathOf url)" if "CHR ''%'' \<notin> set url"
    using that by (auto simp: pathOf_def dest: set_takeWhileD)
  then have "canonical_form (pathOf (canonicalRequestUrl url))"
    unfolding canonical_url_path(1) [OF assms(1) wf]
    using canonical_path_form [OF wf] no_escape_canonical_form by (simp split: if_split)
  then show ?thesis
    using canonical_url_path(2) [OF assms(1) wf] canonical_same_path [OF assms] canonical_url_idem [OF assms(1)] by blast
qed

theorem canonical_url_same_path_witness:
  "normalizedPath (canonicalRequestUrl ''/api//api-%6beys/%2f?x=%61'') = ''/api/api-keys'' \<and>
   query_of (canonicalRequestUrl ''/api//api-%6beys/%2f?x=%61'') = ''?x=%61'' \<and>
   canonicalRequestUrl ''/api//api-%6beys/%2f?x=%61'' = ''/api//api-keys/%2F?x=%61''"
proof -
  have "normalizedPath ''/api//api-%6beys/%2f?x=%61'' = ''/api/api-keys''" by code_simp
  moreover have "decodeURIComponent (pathOf ''/api//api-%6beys/%2f?x=%61'') \<noteq> None" by code_simp
  moreover have "query_of ''/api//api-%6beys/%2f?x=%61'' = ''?x=%61''" by code_simp
  moreover have "canonicalRequestUrl ''/api//api-%6beys/%2f?x=%61'' = ''/api//api-keys/%2F?x=%61''" by code_simp
  ultimately show ?thesis using canonical_url_same_path [of "''/api//api-%6beys/%2f?x=%61''"] by simp
qed

end
