(* ===== verification/Sessions.thy ===== *)
theory Sessions
  imports MFA Audit_Log Request_Paths
begin

section \<open>Sessions, step-up re-authentication and API keys\<close>

text \<open>
  Models \<^verbatim>\<open>src/auth/session.js\<close> (session payloads, cookies, revocation), \<^verbatim>\<open>src/auth/reauth.js\<close> (the
  re-authentication cookie and the guard of privileged routes), the challenge token of
  \<^verbatim>\<open>src/auth/mfa.js\<close>, the step-up handler of \<^verbatim>\<open>src/routes/mfa.routes.js\<close> and
  \<^verbatim>\<open>src/auth/api-key-scopes.js\<close>.

  HMAC-SHA-256 and the signing of session tokens are parameters. A verified session token is its JSON
  payload; \<open>read_session\<close> is what the server uses of a payload it accepted.
\<close>

subsection \<open>JSON payloads\<close>

definition str_field :: "json \<Rightarrow> string \<Rightarrow> string option" where
  "str_field v k = (case jfield v k of Some (JStr s) \<Rightarrow> Some s | _ \<Rightarrow> None)"

definition int_field :: "json \<Rightarrow> string \<Rightarrow> int option" where
  "int_field v k = (case jfield v k of Some (JNum (Fin q)) \<Rightarrow> if q = of_int \<lfloor>q\<rfloor> then Some \<lfloor>q\<rfloor> else None | _ \<Rightarrow> None)"

subsection \<open>Sessions\<close>

record account = user +
  u_email :: string
  u_name :: string
  u_clientId :: "string option"
  u_resetToken :: "string option"
  u_resetTokenExpiresAt :: "timestamp option"

datatype session_error = BadExpiresIn | MissingSecret | UserNotFound | UnknownScope

definition SESSION_TOKEN_TYPE :: string where
  "SESSION_TOKEN_TYPE = ''session''"

definition CLIENT_SESSION_TOKEN_TYPE :: string where
  "CLIENT_SESSION_TOKEN_TYPE = ''client_session''"

definition USER_SESSION_TOKEN_TYPES :: "string list" where
  "USER_SESSION_TOKEN_TYPES = [SESSION_TOKEN_TYPE, CLIENT_SESSION_TOKEN_TYPE]"

definition sessionTokenTypeFor :: "string option \<Rightarrow> string" where
  "sessionTokenTypeFor role = (if role = Some ''CLIENT'' then CLIENT_SESSION_TOKEN_TYPE else SESSION_TOKEN_TYPE)"

definition seconds_per :: "char \<Rightarrow> rat option" where
  "seconds_per unit =
     map_of [(CHR ''s'', 1), (CHR ''m'', 60), (CHR ''h'', 3600), (CHR ''d'', 86400)] unit"

definition sessionCookieMaxAge :: "string \<Rightarrow> session_error + jsnum" where
  "sessionCookieMaxAge setting =
     (case span_digits setting of
        (digits, [unit]) \<Rightarrow>
          (case seconds_per unit of
             None \<Rightarrow> Inl BadExpiresIn
           | Some k \<Rightarrow>
              if digits = [] then Inl BadExpiresIn
              else Inr (js_mul (js_of_rat (of_nat (digits_value digits 0))) (Fin k)))
      | _ \<Rightarrow> Inl BadExpiresIn)"

record cookie_options =
  co_path :: string
  co_httpOnly :: bool
  co_secure :: bool
  co_sameSite :: string
  co_maxAge :: "jsnum option"

definition sessionCookieOptions :: "string \<Rightarrow> bool \<Rightarrow> bool \<Rightarrow> session_error + cookie_options" where
  "sessionCookieOptions jwtExpiresIn isProduction includeMaxAge =
     (let cookie = \<lparr>co_path = ''/'', co_httpOnly = True, co_secure = isProduction,
                    co_sameSite = (if isProduction then ''strict'' else ''lax''), co_maxAge = None\<rparr>
      in if includeMaxAge then
           (case sessionCookieMaxAge jwtExpiresIn of
              Inl e \<Rightarrow> Inl e | Inr age \<Rightarrow> Inr (cookie\<lparr>co_maxAge := Some age\<rparr>))
         else Inr cookie)"

definition nullable :: "string option \<Rightarrow> json" where
  "nullable s = (case s of None \<Rightarrow> JNull | Some t \<Rightarrow> JStr t)"

text \<open>The payload of a session token; the signing library adds \<open>iat\<close> and \<open>exp\<close>.\<close>

definition session_payload :: "account \<Rightarrow> (string \<times> json) list \<Rightarrow> json" where
  "session_payload u extraClaims =
     JObj (AList.update ''typ'' (JStr (sessionTokenTypeFor (Some (u_role u))))
       (fold (\<lambda>(k, v). AList.update k v) extraClaims
         [(''id'', JStr (u_id u)), (''email'', JStr (u_email u)), (''name'', JStr (u_name u)), (''role'', JStr (u_role u)),
          (''clientId'', nullable (u_clientId u)), (''organizationId'', nullable (u_organizationId u)),
          (''sessionVersion'', JNum (Fin (of_int (u_sessionVersion u))))]))"

definition signUserSession :: "(json \<Rightarrow> string) \<Rightarrow> account \<Rightarrow> (string \<times> json) list \<Rightarrow> string" where
  "signUserSession jwt_sign u extraClaims = jwt_sign (session_payload u extraClaims)"

definition isUserSessionPayload :: "string list \<Rightarrow> json \<Rightarrow> bool" where
  "isUserSessionPayload types payload =
     (case str_field payload ''typ'' of
        None \<Rightarrow> False
      | Some typ \<Rightarrow>
         typ \<in> set types \<and> typ = sessionTokenTypeFor (str_field payload ''role'') \<and>
         given (str_field payload ''id'') \<and> int_field payload ''sessionVersion'' \<noteq> None)"

definition isCurrentUserSession :: "string list \<Rightarrow> ('a user_scheme) list \<Rightarrow> json \<Rightarrow> bool" where
  "isCurrentUserSession types users payload =
     (isUserSessionPayload types payload \<and>
      (case find_row (\<lambda>u. u_id u = the (str_field payload ''id'')) users of
         None \<Rightarrow> False
       | Some u \<Rightarrow> u_isActive u \<and> int_field payload ''sessionVersion'' = Some (u_sessionVersion u)))"

text \<open>\<open>update\<close> of a row that does not exist throws.\<close>

definition revokeUserSessions :: "string \<Rightarrow> ('a user_scheme) list \<Rightarrow> session_error + ('a user_scheme) list" where
  "revokeUserSessions userId users =
     (if count_rows (\<lambda>u. u_id u = userId) users = 0 then Inl UserNotFound
      else Inr (update_rows (\<lambda>u. u_id u = userId) (\<lambda>u. u\<lparr>u_sessionVersion := u_sessionVersion u + 1\<rparr>) users))"

record session =
  ss_id :: string
  ss_role :: "string option"
  ss_organizationId :: "string option"
  ss_sessionVersion :: int
  ss_jti :: "string option"
  ss_iat :: "int option"

definition read_session :: "string list \<Rightarrow> json \<Rightarrow> session option" where
  "read_session types payload =
     (if isUserSessionPayload types payload then
        Some \<lparr>ss_id = the (str_field payload ''id''), ss_role = str_field payload ''role'',
              ss_organizationId = str_field payload ''organizationId'',
              ss_sessionVersion = the (int_field payload ''sessionVersion''),
              ss_jti = str_field payload ''jti'', ss_iat = int_field payload ''iat''\<rparr>
      else None)"

subsection \<open>Signed tokens\<close>

record token_keys =
  tk_secret :: "string option"
  tk_hmac :: hmac

text \<open>The HMAC, in base64url, under the key derived from the secret for one purpose.\<close>

definition token_hmac :: "token_keys \<Rightarrow> string \<Rightarrow> string \<Rightarrow> session_error + string" where
  "token_hmac ky purpose input =
     (if \<not> given (tk_secret ky) then Inl MissingSecret
      else Inr (base64url_encode
             (tk_hmac ky (tk_hmac ky (utf8_encode (the (tk_secret ky))) (utf8_encode purpose)) (utf8_encode input))))"

definition base64UrlJson :: "(string \<times> claim) list \<Rightarrow> string" where
  "base64UrlJson claims = base64url_encode (utf8_encode (claims_text claims))"

definition read_json :: "string \<Rightarrow> json option" where
  "read_json payload = Option.bind (utf8_decode (base64url_decode payload)) json_parse"

definition JWT_HEADER :: string where
  "JWT_HEADER = base64UrlJson [(''alg'', ClaimStr ''HS256''), (''typ'', ClaimStr ''JWT'')]"

definition now_seconds :: "timestamp \<Rightarrow> int" where
  "now_seconds nowMs = step_int (math_floor (js_div_by (Fin (of_int nowMs)) 1000))"

definition unexpired :: "json \<Rightarrow> timestamp \<Rightarrow> bool" where
  "unexpired claims nowMs = (case int_field claims ''exp'' of None \<Rightarrow> False | Some e \<Rightarrow> now_seconds nowMs < e)"

subsection \<open>The re-authentication cookie\<close>

definition REAUTH_TTL_SECONDS :: int where
  "REAUTH_TTL_SECONDS = 10 * 60"

definition reauth_hmac :: "token_keys \<Rightarrow> string \<Rightarrow> session_error + string" where
  "reauth_hmac ky input = token_hmac ky ''ashbi:reauth:v1'' input"

definition sessionBinding :: "session \<Rightarrow> string option" where
  "sessionBinding s =
     (if given (ss_jti s) then Some (''jti:'' @ the (ss_jti s))
      else (case ss_iat s of Some iat \<Rightarrow> Some (''iat:'' @ int_text iat) | None \<Rightarrow> None))"

definition claim_of :: "string option \<Rightarrow> claim" where
  "claim_of s = (case s of None \<Rightarrow> ClaimNull | Some t \<Rightarrow> ClaimStr t)"

definition reauth_claims :: "session \<Rightarrow> timestamp \<Rightarrow> int \<Rightarrow> (string \<times> claim) list" where
  "reauth_claims s nowMs ttlSeconds =
     (let iat = now_seconds nowMs
      in [(''typ'', ClaimStr ''reauth''), (''sub'', ClaimStr (ss_id s)), (''sv'', ClaimInt (ss_sessionVersion s)),
          (''sid'', claim_of (sessionBinding s)), (''iat'', ClaimInt iat), (''exp'', ClaimInt (iat + ttlSeconds))])"

definition signReauthToken :: "token_keys \<Rightarrow> session \<Rightarrow> timestamp \<Rightarrow> int \<Rightarrow> session_error + string" where
  "signReauthToken ky s nowMs ttlSeconds =
     (let payload = base64UrlJson (reauth_claims s nowMs ttlSeconds)
      in case reauth_hmac ky (JWT_HEADER @ ''.'' @ payload) of
           Inl e \<Rightarrow> Inl e
         | Inr signature \<Rightarrow> Inr (JWT_HEADER @ ''.'' @ payload @ ''.'' @ signature))"

definition verifyReauthToken :: "crypto \<Rightarrow> token_keys \<Rightarrow> string \<Rightarrow> timestamp \<Rightarrow> session_error + json option" where
  "verifyReauthToken cr ky token nowMs =
     (if 1024 < length token then Inr None
      else (case js_split CHR ''.'' token of
        [header, payload, signature] \<Rightarrow>
          (case reauth_hmac ky (header @ ''.'' @ payload) of
             Inl e \<Rightarrow> Inl e
           | Inr expected \<Rightarrow>
              if \<not> safeEqual cr signature expected then Inr None
              else (case read_json payload of
                 None \<Rightarrow> Inr None
               | Some claims \<Rightarrow>
                  if str_field claims ''typ'' \<noteq> Some ''reauth'' \<or> str_field claims ''sub'' = None then Inr None
                  else if \<not> unexpired claims nowMs then Inr None
                  else Inr (Some claims)))
      | _ \<Rightarrow> Inr None))"

definition reauthCookieOptions :: "bool \<Rightarrow> cookie_options" where
  "reauthCookieOptions isProduction =
     \<lparr>co_path = ''/'', co_httpOnly = True, co_secure = isProduction, co_sameSite = ''strict'',
      co_maxAge = Some (Fin (of_int REAUTH_TTL_SECONDS))\<rparr>"

definition clearReauthCookieOptions :: "bool \<Rightarrow> cookie_options" where
  "clearReauthCookieOptions isProduction = (reauthCookieOptions isProduction)\<lparr>co_maxAge := None\<rparr>"

datatype reauth_problem = Missing | InvalidToken | OtherUser | Stale

definition recentAuthProblem ::
  "crypto \<Rightarrow> token_keys \<Rightarrow> string option \<Rightarrow> session \<Rightarrow> timestamp \<Rightarrow> reauth_problem option" where
  "recentAuthProblem cr ky cookie s nowMs =
     (if \<not> given cookie then Some Missing
      else (case verifyReauthToken cr ky (the cookie) nowMs of
        Inl _ \<Rightarrow> Some InvalidToken
      | Inr None \<Rightarrow> Some InvalidToken
      | Inr (Some claims) \<Rightarrow>
          if ss_id s = [] \<or> str_field claims ''sub'' \<noteq> Some (ss_id s) then Some OtherUser
          else if int_field claims ''sv'' \<noteq> Some (ss_sessionVersion s) then Some Stale
          else if sessionBinding s = None \<or> str_field claims ''sid'' \<noteq> sessionBinding s then Some Stale
          else None))"

text \<open>The guard of privileged routes: \<open>None\<close> lets the request through.\<close>

definition requireRecentAuth ::
  "crypto \<Rightarrow> token_keys \<Rightarrow> bool \<Rightarrow> string option \<Rightarrow> session \<Rightarrow> timestamp \<Rightarrow> (nat \<times> string) option" where
  "requireRecentAuth cr ky impersonating cookie s nowMs =
     (if impersonating then Some (403, ''IMPERSONATION_BLOCKED'')
      else if recentAuthProblem cr ky cookie s nowMs \<noteq> None then Some (403, ''REAUTH_REQUIRED'')
      else None)"

subsection \<open>The failed re-authentication audit\<close>

definition REAUTH_FAILURE_AUDIT_WINDOW_MS :: int where
  "REAUTH_FAILURE_AUDIT_WINDOW_MS = 60000"

definition REAUTH_FAILURE_MEMORY_LIMIT :: nat where
  "REAUTH_FAILURE_MEMORY_LIMIT = 10000"

type_synonym throttle = "(string \<times> timestamp) list"

definition reauth_failed_event :: "string \<Rightarrow> string \<Rightarrow> string option \<Rightarrow> string option \<Rightarrow> string \<Rightarrow> audit_event" where
  "reauth_failed_event organizationId userId requestId ip reason =
     \<lparr>ev_organizationId = Some organizationId, ev_ownerClientId = None, ev_ownerInvoiceId = None,
      ev_actorUserId = Some userId, ev_actorType = ''USER'', ev_action = ''auth.reauth_failed'', ev_entityType = None,
      ev_entityId = Some userId, ev_requestId = requestId, ev_ip = ip, ev_metadata = Some [(''reason'', MStr reason)]\<rparr>"

definition auditReauthFailure ::
  "audit_externals \<Rightarrow> bool \<Rightarrow> timestamp \<Rightarrow> audit_request \<Rightarrow> user \<Rightarrow> string \<Rightarrow> throttle \<Rightarrow> audit_db
    \<Rightarrow> audit_row option \<times> throttle \<times> audit_db" where
  "auditReauthFailure ext write_ok nowMs request u reason seen db =
     (if \<not> given (u_organizationId u) then (None, seen, db)
      else if (case map_of seen (u_id u) of None \<Rightarrow> False | Some prev \<Rightarrow> nowMs - prev < REAUTH_FAILURE_AUDIT_WINDOW_MS)
      then (None, seen, db)
      else
        (let kept = (if REAUTH_FAILURE_MEMORY_LIMIT \<le> length seen then [] else seen);
             seen' = AList.update (u_id u) nowMs kept;
             recent = find_row (\<lambda>row. Some (ar_organizationId row) = u_organizationId u \<and> ar_action row = ''auth.reauth_failed''
                        \<and> ar_entityType row = ''user'' \<and> ar_entityId row = Some (u_id u)
                        \<and> nowMs - REAUTH_FAILURE_AUDIT_WINDOW_MS \<le> ar_createdAt row) (ad_events db)
         in if recent \<noteq> None then (None, seen', db)
            else (case recordAuditEvent ext (rq_impersonation request) write_ok nowMs
                    (reauth_failed_event (the (u_organizationId u)) (u_id u) (rq_id request) (rq_ip request) reason) db of
                    (row, db') \<Rightarrow> (row, seen', db'))))"

subsection \<open>The second-factor challenge\<close>

definition challenge_hmac :: "token_keys \<Rightarrow> string \<Rightarrow> session_error + string" where
  "challenge_hmac ky encoded = token_hmac ky ''ashbi:mfa-challenge:v1'' encoded"

definition challenge_claims :: "('a user_scheme) \<Rightarrow> byte list \<Rightarrow> timestamp \<Rightarrow> int \<Rightarrow> (string \<times> claim) list" where
  "challenge_claims u randomBytes nowMs ttlSeconds =
     (let iat = now_seconds nowMs
      in [(''typ'', ClaimStr ''mfa_challenge''), (''uid'', ClaimStr (u_id u)), (''sv'', ClaimInt (u_sessionVersion u)),
          (''iat'', ClaimInt iat), (''exp'', ClaimInt (iat + ttlSeconds)),
          (''nonce'', ClaimStr (base64url_encode randomBytes))])"

definition createMfaChallenge ::
  "token_keys \<Rightarrow> ('a user_scheme) \<Rightarrow> byte list \<Rightarrow> timestamp \<Rightarrow> int \<Rightarrow> session_error + string" where
  "createMfaChallenge ky u randomBytes nowMs ttlSeconds =
     (let encoded = base64UrlJson (challenge_claims u randomBytes nowMs ttlSeconds)
      in case challenge_hmac ky encoded of
           Inl e \<Rightarrow> Inl e | Inr signature \<Rightarrow> Inr (''mfa.'' @ encoded @ ''.'' @ signature))"

definition verifyMfaChallenge :: "crypto \<Rightarrow> token_keys \<Rightarrow> string \<Rightarrow> timestamp \<Rightarrow> session_error + json option" where
  "verifyMfaChallenge cr ky token nowMs =
     (if 1024 < length token then Inr None
      else (case js_split CHR ''.'' token of
        [prefix, encoded, signature] \<Rightarrow>
          if prefix \<noteq> ''mfa'' then Inr None
          else (case challenge_hmac ky encoded of
             Inl e \<Rightarrow> Inl e
           | Inr expected \<Rightarrow>
              if \<not> safeEqual cr signature expected then Inr None
              else (case read_json encoded of
                 None \<Rightarrow> Inr None
               | Some payload \<Rightarrow>
                  if str_field payload ''typ'' \<noteq> Some ''mfa_challenge'' \<or> str_field payload ''uid'' = None then Inr None
                  else if \<not> unexpired payload nowMs then Inr None
                  else Inr (Some payload)))
      | _ \<Rightarrow> Inr None))"

subsection \<open>The step-up handler\<close>

definition REAUTH_PASSWORD_MAX_FAILURES :: nat where
  "REAUTH_PASSWORD_MAX_FAILURES = 10"

definition REAUTH_PASSWORD_WINDOW_MS :: int where
  "REAUTH_PASSWORD_WINDOW_MS = 15 * 60 * 1000"

text \<open>The failed password attempts in process memory: count and end of the window per account.\<close>

type_synonym failures = "(string \<times> nat \<times> timestamp) list"

definition live_entry :: "failures \<Rightarrow> string \<Rightarrow> timestamp \<Rightarrow> (nat \<times> timestamp) option" where
  "live_entry fs userId nowMs =
     (case map_of fs userId of None \<Rightarrow> None | Some (n, resetAt) \<Rightarrow> if resetAt \<le> nowMs then None else Some (n, resetAt))"

definition reauthPasswordBudgetExceeded :: "failures \<Rightarrow> string \<Rightarrow> timestamp \<Rightarrow> bool" where
  "reauthPasswordBudgetExceeded fs userId nowMs =
     (case live_entry fs userId nowMs of None \<Rightarrow> False | Some (n, _) \<Rightarrow> REAUTH_PASSWORD_MAX_FAILURES \<le> n)"

definition recordReauthPasswordFailure :: "string \<Rightarrow> timestamp \<Rightarrow> failures \<Rightarrow> failures" where
  "recordReauthPasswordFailure userId nowMs fs =
     (case live_entry fs userId nowMs of
        None \<Rightarrow> AList.update userId (1, nowMs + REAUTH_PASSWORD_WINDOW_MS) fs
      | Some (n, resetAt) \<Rightarrow> AList.update userId (n + 1, resetAt) fs)"

definition looks_like_totp :: "string \<Rightarrow> bool" where
  "looks_like_totp code \<longleftrightarrow>
     (length code = 6 \<and> all_in DIGITS code) \<or>
     (length code = 7 \<and> all_in DIGITS (take 3 code) \<and> is_space (code ! 3) \<and> all_in DIGITS (drop 4 code))"

datatype reauth_reply =
    ReauthRefused nat string
  | ReauthError mfa_error
  | ReauthKeyError session_error
  | Reauthenticated string string "int option"

definition refusal :: "mfa_reply \<Rightarrow> reauth_reply" where
  "refusal reply = (case reply of Refused status reason \<Rightarrow> ReauthRefused status reason | Failure e \<Rightarrow> ReauthError e
                    | _ \<Rightarrow> ReauthRefused 500 ''unexpected'')"

text \<open>Sets the cookie; \<open>reissued\<close> is the session version of a replacement session cookie.\<close>

definition grant_reauth ::
  "token_keys \<Rightarrow> user \<Rightarrow> session \<Rightarrow> string \<Rightarrow> int option \<Rightarrow> timestamp \<Rightarrow> reauth_reply" where
  "grant_reauth ky u s meth reissued nowMs =
     (case signReauthToken ky (s\<lparr>ss_id := u_id u\<rparr>) nowMs REAUTH_TTL_SECONDS of
        Inl e \<Rightarrow> ReauthKeyError e | Inr token \<Rightarrow> Reauthenticated meth token reissued)"

text \<open>The session of a token signed by \<open>reissueSession\<close>: the signing library sets \<open>iat\<close>.\<close>

definition reissued_session :: "user \<Rightarrow> int \<Rightarrow> timestamp \<Rightarrow> session" where
  "reissued_session u sessionVersion nowMs =
     \<lparr>ss_id = u_id u, ss_role = Some (u_role u), ss_organizationId = u_organizationId u,
      ss_sessionVersion = sessionVersion, ss_jti = None, ss_iat = Some (now_seconds nowMs)\<rparr>"

definition mfa_reauth ::
  "crypto \<Rightarrow> token_keys \<Rightarrow> mfa_env \<Rightarrow> session \<Rightarrow> string option \<Rightarrow> string option \<Rightarrow> failures \<Rightarrow> mfa_run
    \<Rightarrow> reauth_reply \<times> failures \<times> mfa_run" where
  "mfa_reauth cr ky env s password code fs r =
     (case request_statement env (load_user (ss_id s)) r of
        (None, r1) \<Rightarrow> (ReauthRefused 401 ''Unauthorized'', fs, r1)
      | (Some u, r1) \<Rightarrow>
         if \<not> u_isActive u then (ReauthRefused 401 ''Unauthorized'', fs, r1)
         else if isMfaRequired (Some u) then
           if \<not> given code then (ReauthRefused 400 ''MFA_CODE_REQUIRED'', fs, r1)
           else
             (case (if looks_like_totp (the code) then verifySecondFactor cr env u code None r1
                    else verifySecondFactor cr env u None code r1) of
                (Inl e, r2) \<Rightarrow> (ReauthError e, fs, r2)
              | (Inr (FactorFail reason), r2) \<Rightarrow> (refusal (secondFactorFailure reason 400), fs, r2)
              | (Inr (FactorOk meth _ sv), r2) \<Rightarrow>
                  if sv = u_sessionVersion u then (grant_reauth ky u s meth None (me_now env (fst r2)), fs, r2)
                  else (grant_reauth ky u (reissued_session u sv (me_now env (fst r2))) meth (Some sv) (me_now env (fst r2)), fs, r2))
         else if \<not> given password then (ReauthRefused 400 ''password required'', fs, r1)
         else if reauthPasswordBudgetExceeded fs (u_id u) (me_now env (fst r1)) then (ReauthRefused 429 ''REAUTH_LOCKED'', fs, r1)
         else if \<not> verifyPassword cr (the password) (u_password u) then
           (ReauthRefused 400 ''password'', recordReauthPasswordFailure (u_id u) (me_now env (fst r1)) fs, r1)
         else (grant_reauth ky u s ''password'' None (me_now env (fst r1)), AList.delete (u_id u) fs, r1))"

subsection \<open>API keys\<close>

definition API_KEY_SCOPES :: "string list" where
  "API_KEY_SCOPES = [''workspace:read'', ''workspace:actions'', ''ai_bridge:read'', ''ai_bridge:actions'']"

definition API_KEY_DEFAULT_EXPIRY_DAYS :: int where
  "API_KEY_DEFAULT_EXPIRY_DAYS = 90"

definition API_KEY_MAX_EXPIRY_DAYS :: int where
  "API_KEY_MAX_EXPIRY_DAYS = 365"

definition DAY_MS :: int where
  "DAY_MS = 24 * 60 * 60 * 1000"

datatype expiry_error = ExpiryNotInFuture | ExpiryTooLong

text \<open>\<open>dateValue\<close> is the time value of \<open>new Date(text)\<close>, \<open>None\<close> for an invalid date.\<close>

definition resolveApiKeyExpiry ::
  "(string \<Rightarrow> timestamp option) \<Rightarrow> jsnum option \<Rightarrow> string option \<Rightarrow> timestamp \<Rightarrow> expiry_error + timestamp" where
  "resolveApiKeyExpiry dateValue expiresInDays expiresAt nowMs =
     (let latest = nowMs + API_KEY_MAX_EXPIRY_DAYS * DAY_MS
      in if given expiresAt then
           (case dateValue (the expiresAt) of
              None \<Rightarrow> Inl ExpiryNotInFuture
            | Some t \<Rightarrow> if t \<le> nowMs then Inl ExpiryNotInFuture else if latest < t then Inl ExpiryTooLong else Inr t)
         else
           (case (case expiresInDays of None \<Rightarrow> Fin (of_int API_KEY_DEFAULT_EXPIRY_DAYS) | Some d \<Rightarrow> d) of
              Fin days \<Rightarrow>
                if days \<noteq> of_int \<lfloor>days\<rfloor> \<or> days < 1 \<or> of_int API_KEY_MAX_EXPIRY_DAYS < days then Inl ExpiryTooLong
                else Inr (nowMs + \<lfloor>days\<rfloor> * DAY_MS)
            | _ \<Rightarrow> Inl ExpiryTooLong))"

fun join_plus :: "string list \<Rightarrow> string" where
  "join_plus [] = []"
| "join_plus [s] = s"
| "join_plus (s # ss) = s @ CHR ''+'' # join_plus ss"

definition scopesForAudit :: "string list \<Rightarrow> string" where
  "scopesForAudit scopes = join_plus (sort (filter (\<lambda>s. s \<in> set API_KEY_SCOPES) (remdups scopes)))"

definition requireApiKeyScope :: "string \<Rightarrow> session_error + (string list \<Rightarrow> (nat \<times> string) option)" where
  "requireApiKeyScope scope =
     (if scope \<notin> set API_KEY_SCOPES then Inl UnknownScope
      else Inr (\<lambda>granted. if scope \<notin> set granted then Some (403, ''INSUFFICIENT_SCOPE'') else None))"

subsection \<open>Times and signed payloads\<close>

lemma second_gap:
  assumes "\<not> 1000 dvd t" and "\<bar>y - of_int t / 1000\<bar> < 1 / 1000"
  shows "\<lfloor>y :: rat\<rfloor> = t div 1000"
proof -
  let ?n = "t div 1000"
  have "0 < t mod 1000" using assms(1) by (metis dvd_eq_mod_eq_0 pos_mod_sign zero_less_numeral order_le_less)
  then have "1000 * ?n + 1 \<le> t" and "t + 1 \<le> 1000 * ?n + 1000"
    using mult_div_mod_eq [of 1000 t] pos_mod_bound [of 1000 t] by linarith+
  then have "(1000 * of_int ?n + 1 :: rat) \<le> of_int t" "(of_int t + 1 :: rat) \<le> 1000 * of_int ?n + 1000"
    using int_le_rat [of "1000 * ?n + 1" t] int_le_rat [of "t + 1" "1000 * ?n + 1000"] by simp_all
  then show ?thesis using assms(2) by (intro floor_unique) linarith+
qed

lemma now_seconds_exact:
  assumes "0 \<le> t" and "t \<le> 2 ^ 48"
  shows "now_seconds t = t div 1000"
proof -
  have t: "0 \<le> (of_int t :: rat)" "(of_int t :: rat) \<le> 281474976710656" using assms int_le_rat [of t "2 ^ 48"] by simp_all
  have big: "(2 :: rat) ^ 100 = 1267650600228229401496703205376" "(2 :: rat) ^ 53 = 9007199254740992" by simp_all
  have tiny: "(1 :: rat) / 2 ^ 200 \<le> 1 / 10 ^ 20" by simp
  define x where "x = round_binary64 (of_int t / 1000)"
  have x: "\<bar>x - of_int t / 1000\<bar> < 1 / 1000"
    using round_binary64_error [of "of_int t / 1000"] t tiny unfolding x_def big by (simp add: abs_divide)
  have "js_div_by (Fin (of_int t)) 1000 = Fin x"
    unfolding x_def js_div_by.simps using t by (intro js_of_rat_finite) (simp add: big)
  then have val: "now_seconds t = \<lfloor>x\<rfloor>"
    by (simp add: now_seconds_def math_floor_def step_int_def del: js_div_by.simps)
  show ?thesis
  proof (cases "1000 dvd t")
    case True
    then obtain n where n: "t = 1000 * n" by auto
    have "\<bar>n\<bar> < 2 ^ 53" using assms n by auto
    then have "x = of_int n" using round_binary64_int [of n] by (simp add: x_def n)
    then show ?thesis using val n by simp
  next
    case False
    then show ?thesis using val second_gap [OF False x] by simp
  qed
qed

lemma read_json_signed:
  assumes "ms \<noteq> []" and "distinct (map fst ms)" and "\<forall>m \<in> set ms. safe_claim (snd m)"
  shows "read_json (base64UrlJson ms) = Some (JObj (members_json ms))"
  using json_roundtrip [OF assms] by (simp add: read_json_def base64UrlJson_def base64url_roundtrip utf8_roundtrip)

lemma no_dot: "CHR ''.'' \<notin> set (base64url_encode bytes)"
  using base64url_encode_chars [of bytes] base64url_alphabet(5) by auto

lemma no_dot_json: "CHR ''.'' \<notin> set (base64UrlJson ms)"
  by (simp add: base64UrlJson_def no_dot)

lemma no_dot_header: "CHR ''.'' \<notin> set JWT_HEADER"
  by (simp add: JWT_HEADER_def no_dot_json)

lemma no_dot_hmac: "token_hmac ky purpose input = Inr signature \<Longrightarrow> CHR ''.'' \<notin> set signature"
  by (auto simp: token_hmac_def no_dot split: if_splits)

lemma split_three:
  assumes "CHR ''.'' \<notin> set a" and "CHR ''.'' \<notin> set b" and "CHR ''.'' \<notin> set c"
  shows "js_split CHR ''.'' (a @ CHR ''.'' # b @ CHR ''.'' # c) = [a, b, c]"
  using assms by (simp add: js_split_append js_split_none)

lemma js_split_cons:
  "js_split sep s = p # ps \<Longrightarrow>
   sep \<notin> set p \<and> (if ps = [] then s = p else \<exists>t. s = p @ sep # t \<and> js_split sep t = ps)"
proof (induction s arbitrary: p ps)
  case (Cons c s)
  show ?case
  proof (cases "c = sep")
    case True
    then show ?thesis using Cons.prems by (cases s) (auto split: list.splits if_splits)
  next
    case False
    obtain q qs where q: "js_split sep s = q # qs" "p = c # q" "qs = ps"
      using Cons.prems False by (cases "js_split sep s") (cases s; auto split: list.splits if_splits)+
    then show ?thesis using Cons.IH [OF q(1)] False by auto
  qed
qed simp

lemma js_split_three:
  assumes "js_split sep s = [a, b, c]"
  shows "s = a @ sep # b @ sep # c" and "sep \<notin> set a" and "sep \<notin> set b" and "sep \<notin> set c"
proof -
  obtain t where t: "s = a @ sep # t" "js_split sep t = [b, c]" "sep \<notin> set a" using js_split_cons [OF assms] by auto
  obtain u where u: "t = b @ sep # u" "js_split sep u = [c]" "sep \<notin> set b" using js_split_cons [OF t(2)] by auto
  show "s = a @ sep # b @ sep # c" and "sep \<notin> set a" and "sep \<notin> set b" and "sep \<notin> set c"
    using t u js_split_cons [OF u(2)] by auto
qed
lemma safeEqual_refl [simp]: "safeEqual cr s s"
  by (simp add: safeEqual_def)

lemma int_field_of_int: "jfield v k = Some (JNum (Fin (of_int i))) \<Longrightarrow> int_field v k = Some i"
  by (simp add: int_field_def)

subsection \<open>The re-authentication cookie opens for its session only\<close>

lemma reauth_claims_fields:
  assumes claims_def: "claims = JObj (members_json (reauth_claims s t0 ttl))"
  shows "str_field claims ''typ'' = Some ''reauth''" and "str_field claims ''sub'' = Some (ss_id s)"
    and "int_field claims ''sv'' = Some (ss_sessionVersion s)" and "str_field claims ''sid'' = sessionBinding s"
    and "int_field claims ''exp'' = Some (now_seconds t0 + ttl)"
  unfolding claims_def
  by (simp_all add: str_field_def int_field_def jfield_def members_json_def reauth_claims_def Let_def claim_of_def
      split: option.splits)

lemma verify_signed:
  assumes sign: "signReauthToken ky s t0 ttl = Inr token" and len: "length token \<le> 1024"
    and safe: "\<bar>ss_sessionVersion s\<bar> < 2 ^ 53" "\<bar>now_seconds t0\<bar> < 2 ^ 53" "\<bar>now_seconds t0 + ttl\<bar> < 2 ^ 53"
  shows "verifyReauthToken cr ky token t =
    Inr (if now_seconds t < now_seconds t0 + ttl then Some (JObj (members_json (reauth_claims s t0 ttl))) else None)"
proof -
  define payload where "payload = base64UrlJson (reauth_claims s t0 ttl)"
  obtain signature where sig: "reauth_hmac ky (JWT_HEADER @ ''.'' @ payload) = Inr signature"
    and token: "token = JWT_HEADER @ CHR ''.'' # payload @ CHR ''.'' # signature"
    using sign by (auto simp: signReauthToken_def payload_def Let_def split: sum.splits)
  have "js_split CHR ''.'' token = [JWT_HEADER, payload, signature]"
    unfolding token using no_dot_hmac sig [unfolded reauth_hmac_def]
    by (intro split_three) (auto simp: no_dot_header payload_def no_dot_json)
  moreover have "read_json payload = Some (JObj (members_json (reauth_claims s t0 ttl)))"
    unfolding payload_def using safe
    by (intro read_json_signed) (auto simp: reauth_claims_def Let_def claim_of_def split: option.splits)
  ultimately show ?thesis using len sig reauth_claims_fields [OF refl, of s t0 ttl]
    by (simp add: verifyReauthToken_def unexpired_def)
qed

lemma signed_nonempty: "signReauthToken ky s t0 ttl = Inr token \<Longrightarrow> given (Some token)"
  by (auto simp: signReauthToken_def given_def Let_def split: sum.splits)

lemma reauth_iff:
  assumes "signReauthToken ky s t0 REAUTH_TTL_SECONDS = Inr token" and "length token \<le> 1024"
    and "\<bar>ss_sessionVersion s\<bar> < 2 ^ 53" and "0 \<le> t0" "t0 \<le> 2 ^ 48" "0 \<le> t" "t \<le> 2 ^ 48"
  shows "recentAuthProblem cr ky (Some token) s' t = None \<longleftrightarrow>
    t div 1000 < t0 div 1000 + 600 \<and> ss_id s' = ss_id s \<and> ss_id s \<noteq> [] \<and>
    ss_sessionVersion s' = ss_sessionVersion s \<and> sessionBinding s' = sessionBinding s \<and> sessionBinding s \<noteq> None"
proof -
  have sec: "now_seconds t0 = t0 div 1000" "now_seconds t = t div 1000" using assms now_seconds_exact by auto
  have "\<bar>t0 div 1000\<bar> < 2 ^ 53" "\<bar>t0 div 1000 + 600\<bar> < 2 ^ 53" using assms by auto
  then have v: "verifyReauthToken cr ky token t =
      Inr (if t div 1000 < t0 div 1000 + 600 then Some (JObj (members_json (reauth_claims s t0 600))) else None)"
    using verify_signed [OF assms(1,2), of cr t] assms(3) sec by (simp add: REAUTH_TTL_SECONDS_def)
  show ?thesis
    using signed_nonempty [OF assms(1)] v reauth_claims_fields [OF refl, of s t0 600]
    by (auto simp: recentAuthProblem_def)
qed

text \<open>What any cookie needs: the three parts, the MAC of the first two and claims that name the session.\<close>

definition reauth_mac :: "token_keys \<Rightarrow> string \<Rightarrow> string" where
  "reauth_mac ky input = base64url_encode (tk_hmac ky
     (tk_hmac ky (utf8_encode (the (tk_secret ky))) (utf8_encode ''ashbi:reauth:v1'')) (utf8_encode input))"

definition reauth_claims_for :: "session \<Rightarrow> timestamp \<Rightarrow> json \<Rightarrow> bool" where
  "reauth_claims_for s t claims \<longleftrightarrow>
     str_field claims ''typ'' = Some ''reauth'' \<and> ss_id s \<noteq> [] \<and> str_field claims ''sub'' = Some (ss_id s) \<and>
     int_field claims ''sv'' = Some (ss_sessionVersion s) \<and>
     sessionBinding s \<noteq> None \<and> str_field claims ''sid'' = sessionBinding s \<and>
     (\<exists>e. int_field claims ''exp'' = Some e \<and> t div 1000 < e)"

definition genuine_reauth :: "crypto \<Rightarrow> token_keys \<Rightarrow> string \<Rightarrow> session \<Rightarrow> timestamp \<Rightarrow> bool" where
  "genuine_reauth cr ky cookie s t \<longleftrightarrow>
     length cookie \<le> 1024 \<and> given (tk_secret ky) \<and>
     (\<exists>header payload signature claims.
        cookie = header @ CHR ''.'' # payload @ CHR ''.'' # signature \<and>
        CHR ''.'' \<notin> set header \<union> set payload \<union> set signature \<and>
        cr_sha256 cr signature = cr_sha256 cr (reauth_mac ky (header @ ''.'' @ payload)) \<and>
        read_json payload = Some claims \<and> reauth_claims_for s t claims)"

lemma reauth_hmac_mac:
  "reauth_hmac ky input = (if given (tk_secret ky) then Inr (reauth_mac ky input) else Inl MissingSecret)"
  by (simp add: reauth_hmac_def token_hmac_def reauth_mac_def)

lemma verified_parts:
  "verifyReauthToken cr ky cookie t = Inr (Some claims) \<longleftrightarrow>
   length cookie \<le> 1024 \<and> given (tk_secret ky) \<and>
   (\<exists>header payload signature. js_split CHR ''.'' cookie = [header, payload, signature] \<and>
      cr_sha256 cr signature = cr_sha256 cr (reauth_mac ky (header @ ''.'' @ payload)) \<and>
      read_json payload = Some claims) \<and>
   str_field claims ''typ'' = Some ''reauth'' \<and> str_field claims ''sub'' \<noteq> None \<and> unexpired claims t"
  by (auto simp: verifyReauthToken_def reauth_hmac_mac safeEqual_def split: list.splits option.splits)

lemma split_parts:
  "js_split CHR ''.'' cookie = [header, payload, signature] \<longleftrightarrow>
   cookie = header @ CHR ''.'' # payload @ CHR ''.'' # signature \<and>
   CHR ''.'' \<notin> set header \<union> set payload \<union> set signature"
  using js_split_three [of "CHR ''.''" cookie header payload signature] split_three [of header payload signature] by auto

lemma accepted_genuine:
  assumes "0 \<le> t" and "t \<le> 2 ^ 48"
  shows "recentAuthProblem cr ky (Some cookie) s t = None \<longleftrightarrow> genuine_reauth cr ky cookie s t"
proof -
  have u: "unexpired claims t \<longleftrightarrow> (\<exists>e. int_field claims ''exp'' = Some e \<and> t div 1000 < e)" for claims
    using now_seconds_exact [OF assms] by (simp add: unexpired_def split: option.split)
  have "recentAuthProblem cr ky (Some cookie) s t = None \<longleftrightarrow>
      cookie \<noteq> [] \<and> (\<exists>claims. verifyReauthToken cr ky cookie t = Inr (Some claims) \<and> ss_id s \<noteq> [] \<and>
        str_field claims ''sub'' = Some (ss_id s) \<and> int_field claims ''sv'' = Some (ss_sessionVersion s) \<and>
        sessionBinding s \<noteq> None \<and> str_field claims ''sid'' = sessionBinding s)"
    by (auto simp: recentAuthProblem_def given_def split: sum.splits option.splits)
  also have "\<dots> \<longleftrightarrow> genuine_reauth cr ky cookie s t"
    unfolding verified_parts split_parts genuine_reauth_def reauth_claims_for_def u by (rule iffI; fastforce)
  finally show ?thesis .
qed

text \<open>C11: A privileged route accepts a re-authentication cookie, whoever made it, exactly when it is at most 1024
  characters in three parts, its signature is the MAC of the first two under the server's derived key (compared by
  SHA-256), and its payload names this user, this session version and this session binding and has not expired. A
  cookie the server signed for a session is accepted exactly within its ten minutes (in whole seconds) and for that
  same user, version and binding, so never for another person, another session or after a revocation.\<close>

theorem reauth_accepted_iff:
  assumes "0 \<le> t" and "t \<le> 2 ^ 48"
  shows "(recentAuthProblem cr ky (Some cookie) s' t = None \<longleftrightarrow> genuine_reauth cr ky cookie s' t) \<and>
    (signReauthToken ky s t0 REAUTH_TTL_SECONDS = Inr token \<and> length token \<le> 1024 \<and>
     \<bar>ss_sessionVersion s\<bar> < 2 ^ 53 \<and> 0 \<le> t0 \<and> t0 \<le> 2 ^ 48 \<longrightarrow>
     (recentAuthProblem cr ky (Some token) s' t = None \<longleftrightarrow>
      t div 1000 < t0 div 1000 + 600 \<and> ss_id s' = ss_id s \<and> ss_id s \<noteq> [] \<and>
      ss_sessionVersion s' = ss_sessionVersion s \<and> sessionBinding s' = sessionBinding s \<and> sessionBinding s \<noteq> None))"
  using accepted_genuine [OF assms] reauth_iff [OF _ _ _ _ _ assms, of ky s t0 token cr s'] by blast

lemma no_key_no_reauth: "\<not> given (tk_secret ky) \<Longrightarrow> recentAuthProblem cr ky cookie s t \<noteq> None"
proof
  assume "\<not> given (tk_secret ky)" and "recentAuthProblem cr ky cookie s t = None"
  moreover from this obtain token where "cookie = Some token"
    by (auto simp: recentAuthProblem_def given_def split: option.splits if_splits)
  ultimately obtain claims where "verifyReauthToken cr ky token t = Inr (Some claims)"
    by (auto simp: recentAuthProblem_def split: if_splits sum.splits option.splits)
  with \<open>\<not> given (tk_secret ky)\<close> show False by (simp add: verified_parts)
qed

subsection \<open>The challenge token\<close>

lemma challenge_roundtrip:
  assumes sign: "createMfaChallenge ky u bytes t0 ttl = Inr token" and len: "length token \<le> 1024"
    and safe: "\<bar>u_sessionVersion u\<bar> < 2 ^ 53" "\<bar>now_seconds t0\<bar> < 2 ^ 53" "\<bar>now_seconds t0 + ttl\<bar> < 2 ^ 53"
  shows "verifyMfaChallenge cr ky token t =
    Inr (if now_seconds t < now_seconds t0 + ttl then Some (JObj (members_json (challenge_claims u bytes t0 ttl))) else None)"
proof -
  define payload where "payload = base64UrlJson (challenge_claims u bytes t0 ttl)"
  obtain signature where sig: "challenge_hmac ky payload = Inr signature"
    and token: "token = ''mfa'' @ CHR ''.'' # payload @ CHR ''.'' # signature"
    using sign by (auto simp: createMfaChallenge_def payload_def Let_def split: sum.splits)
  have "js_split CHR ''.'' token = [''mfa'', payload, signature]"
    unfolding token using no_dot_hmac sig [unfolded challenge_hmac_def]
    by (intro split_three) (auto simp: payload_def no_dot_json)
  moreover have "read_json payload = Some (JObj (members_json (challenge_claims u bytes t0 ttl)))"
    unfolding payload_def using safe
    by (intro read_json_signed) (auto simp: challenge_claims_def Let_def)
  moreover have "str_field (JObj (members_json (challenge_claims u bytes t0 ttl))) ''typ'' = Some ''mfa_challenge''"
    "str_field (JObj (members_json (challenge_claims u bytes t0 ttl))) ''uid'' = Some (u_id u)"
    "int_field (JObj (members_json (challenge_claims u bytes t0 ttl))) ''exp'' = Some (now_seconds t0 + ttl)"
    by (simp_all add: str_field_def int_field_def jfield_def members_json_def challenge_claims_def Let_def)
  ultimately show ?thesis using len sig by (simp add: verifyMfaChallenge_def unexpired_def)
qed

subsection \<open>Revocation\<close>

text \<open>
  Every credential below the account password carries the session version of its account and is
  accepted only while that version is the account's. Raising the version ends them all.
\<close>

locale versioned_credential =
  fixes accepts :: "'c \<Rightarrow> int \<Rightarrow> bool" and version :: "'c \<Rightarrow> int option"
  assumes accepts_version: "accepts c v \<Longrightarrow> version c = Some v"
begin

lemma same_version: "accepts c v \<Longrightarrow> accepts c v' \<Longrightarrow> v = v'"
  by (metis accepts_version option.inject)

lemma revoked: "accepts c v \<Longrightarrow> v < v' \<Longrightarrow> \<not> accepts c v'"
  by (metis same_version less_irrefl)

end

interpretation session_cred: versioned_credential
  "\<lambda>payload v. isUserSessionPayload types payload \<and> int_field payload ''sessionVersion'' = Some v"
  "\<lambda>payload. int_field payload ''sessionVersion''"
  for types
  by unfold_locales simp

interpretation reauth_cred: versioned_credential
  "\<lambda>cookie v. recentAuthProblem cr ky (Some cookie) (s\<lparr>ss_sessionVersion := v\<rparr>) t = None"
  "\<lambda>cookie. case verifyReauthToken cr ky cookie t of Inr (Some claims) \<Rightarrow> int_field claims ''sv'' | _ \<Rightarrow> None"
  for cr ky s t
  by unfold_locales (auto simp: recentAuthProblem_def split: if_splits sum.splits option.splits)

definition versions_grow :: "('a user_scheme) list \<Rightarrow> ('a user_scheme) list \<Rightarrow> bool" where
  "versions_grow users users' \<longleftrightarrow>
     (\<forall>u \<in> set users. \<forall>u' \<in> set users'. u_id u = u_id u' \<longrightarrow> u_sessionVersion u \<le> u_sessionVersion u')"

lemma current_row:
  assumes "isCurrentUserSession types users payload" and "read_session types payload = Some s"
  shows "\<exists>u \<in> set users. u_id u = ss_id s \<and> u_isActive u \<and> u_sessionVersion u = ss_sessionVersion s"
  using assms
  by (auto simp: isCurrentUserSession_def read_session_def split: option.splits if_splits dest!: find_row_SomeD)

lemma revoke_row:
  assumes "revokeUserSessions uid users = Inr users'"
  shows "\<exists>u \<in> set users. u_id u = uid \<and> (\<exists>u' \<in> set users'. u_id u' = uid \<and> u_sessionVersion u' = u_sessionVersion u + 1)"
proof -
  obtain u where u: "u \<in> set users" "u_id u = uid"
    using assms by (auto simp: revokeUserSessions_def count_rows_0_iff split: if_splits)
  let ?u' = "u\<lparr>u_sessionVersion := u_sessionVersion u + 1\<rparr>"
  have "?u' \<in> set users'"
    using assms u by (auto simp: revokeUserSessions_def set_update_rows split: if_splits)
  with u show ?thesis by (intro bexI [of _ u] conjI bexI [of _ ?u']) auto
qed

lemma revoked_version:
  assumes "isCurrentUserSession types users payload" and "read_session types payload = Some s"
    and "versions_grow users u1" and "revokeUserSessions (ss_id s) u1 = Inr u2" and "versions_grow u2 u3"
    and "u \<in> set u3" and "u_id u = ss_id s"
  shows "ss_sessionVersion s < u_sessionVersion u"
proof -
  obtain a where a: "a \<in> set users" "u_id a = ss_id s" "u_sessionVersion a = ss_sessionVersion s"
    using current_row [OF assms(1,2)] by blast
  obtain b c where "b \<in> set u1" "u_id b = ss_id s" "c \<in> set u2" "u_id c = ss_id s" "u_sessionVersion c = u_sessionVersion b + 1"
    using revoke_row [OF assms(4)] by blast
  with a assms(3,5,6,7) show ?thesis unfolding versions_grow_def by fastforce
qed

lemma read_session_payload:
  "isUserSessionPayload types payload \<Longrightarrow> \<exists>s. read_session types payload = Some s"
  by (simp add: read_session_def)

lemma dead_after_revocation:
  assumes cur: "isCurrentUserSession types users payload" "read_session types payload = Some s"
    and hist: "versions_grow users u1" "revokeUserSessions (ss_id s) u1 = Inr u2" "versions_grow u2 u3"
  shows "\<not> isCurrentUserSession types u3 payload"
proof
  assume "isCurrentUserSession types u3 payload"
  then obtain u where "u \<in> set u3" "u_id u = ss_id s" "u_sessionVersion u = ss_sessionVersion s"
    using current_row cur(2) by blast
  then show False using revoked_version [OF cur hist] by fastforce
qed

lemma reauth_dead_after_revocation:
  assumes cur: "isCurrentUserSession types users payload" "read_session types payload = Some s"
    and hist: "versions_grow users u1" "revokeUserSessions (ss_id s) u1 = Inr u2" "versions_grow u2 u3"
    and token: "signReauthToken ky s t0 REAUTH_TTL_SECONDS = Inr token" "length token \<le> 1024"
    and range: "\<bar>ss_sessionVersion s\<bar> < 2 ^ 53" "0 \<le> t0" "t0 \<le> 2 ^ 48" "0 \<le> t" "t \<le> 2 ^ 48"
    and cur': "isCurrentUserSession types' u3 payload'" "read_session types' payload' = Some s'"
  shows "recentAuthProblem cr ky (Some token) s' t \<noteq> None"
proof
  assume "recentAuthProblem cr ky (Some token) s' t = None"
  then have same: "ss_id s' = ss_id s" "ss_sessionVersion s' = ss_sessionVersion s"
    using reauth_iff [OF token range, of cr s'] by auto
  obtain u where "u \<in> set u3" "u_id u = ss_id s'" "u_sessionVersion u = ss_sessionVersion s'"
    using current_row [OF cur'] by blast
  then show False using revoked_version [OF cur hist] same by fastforce
qed

text \<open>C19: Once the sessions of an account are revoked, a session that was current before is never current again, however
  the accounts change afterwards as long as session versions only grow; and a re-authentication cookie issued in that
  session opens no privileged route for any session that is current later.\<close>

theorem revocation_is_final:
  assumes "isCurrentUserSession types users payload" and "read_session types payload = Some s"
    and "versions_grow users u1" and "revokeUserSessions (ss_id s) u1 = Inr u2" and "versions_grow u2 u3"
    and "signReauthToken ky s t0 REAUTH_TTL_SECONDS = Inr token" and "length token \<le> 1024"
    and "\<bar>ss_sessionVersion s\<bar> < 2 ^ 53" and "0 \<le> t0" and "t0 \<le> 2 ^ 48" and "0 \<le> t" and "t \<le> 2 ^ 48"
    and "isCurrentUserSession types' u3 payload'" and "read_session types' payload' = Some s'"
  shows "\<not> isCurrentUserSession types u3 payload \<and> requireRecentAuth cr ky impersonating (Some token) s' t \<noteq> None"
  using dead_after_revocation [OF assms(1-5)] reauth_dead_after_revocation [OF assms(1-14), of cr]
  by (simp add: requireRecentAuth_def)

subsection \<open>Session payloads, API keys, password budget\<close>

lemma lookup_update: "map_of (AList.update k v kvs) k' = (if k' = k then Some v else map_of kvs k')"
  by (simp add: AList.update_conv')

lemma lookup_fold_update:
  "k \<notin> fst ` set extras \<Longrightarrow> map_of (fold (\<lambda>(k, v). AList.update k v) extras kvs) k = map_of kvs k"
  by (induction extras arbitrary: kvs) (auto simp: lookup_update)

text \<open>Whatever extra claims a caller adds, a session token has the type of its account's role.\<close>

lemma session_payload_typ:
  "str_field (session_payload u extras) ''typ'' = Some (sessionTokenTypeFor (Some (u_role u)))"
  by (simp add: session_payload_def str_field_def jfield_def lookup_update)

lemma signed_session_current:
  assumes "{''id'', ''role'', ''sessionVersion''} \<inter> fst ` set extras = {}"
    and "find_row (\<lambda>x. u_id x = u_id u) users = Some u" and "u_isActive u" and "u_id u \<noteq> []"
  shows "isCurrentUserSession USER_SESSION_TOKEN_TYPES users (session_payload u extras)"
  using assms session_payload_typ [of u extras]
  by (auto simp: isCurrentUserSession_def isUserSessionPayload_def session_payload_def str_field_def int_field_def
      jfield_def lookup_update lookup_fold_update given_def USER_SESSION_TOKEN_TYPES_def sessionTokenTypeFor_def)

lemma api_key_expiry_bounds:
  assumes "resolveApiKeyExpiry dateValue days expiresAt nowMs = Inr t"
  shows "nowMs < t \<and> t \<le> nowMs + 365 * DAY_MS"
proof -
  have "\<lfloor>d\<rfloor> \<le> 365 \<and> 1 \<le> \<lfloor>d\<rfloor>" if "1 \<le> d" "d \<le> 365" for d :: rat
    using that floor_mono [of d 365] floor_mono [of 1 d] by simp
  then show ?thesis using assms
    by (auto simp: resolveApiKeyExpiry_def Let_def API_KEY_MAX_EXPIRY_DAYS_def API_KEY_DEFAULT_EXPIRY_DAYS_def DAY_MS_def
        split: if_splits option.splits jsnum.splits)
qed

text \<open>A password step-up needs the right password and an unexhausted budget.\<close>

lemma reauth_by_password:
  assumes "mfa_reauth cr ky env s password code fs r = (Reauthenticated meth token reissued, fs', r')"
    and "request_statement env (load_user (ss_id s)) r = (Some u, r1)" and "\<not> isMfaRequired (Some u)"
  shows "u_isActive u \<and> given password \<and> verifyPassword cr (the password) (u_password u) \<and>
    \<not> reauthPasswordBudgetExceeded fs (u_id u) (me_now env (fst r1)) \<and> meth = ''password''"
  using assms by (auto simp: mfa_reauth_def grant_reauth_def split: if_splits sum.splits)

lemma budget_counts:
  assumes "live_entry fs uid nowMs = Some (n, resetAt)" and "nowMs' < resetAt"
  shows "live_entry (recordReauthPasswordFailure uid nowMs fs) uid nowMs' = Some (n + 1, resetAt)"
  using assms by (simp add: recordReauthPasswordFailure_def live_entry_def lookup_update)

subsection \<open>Witnesses\<close>

definition sample_keys :: token_keys where
  "sample_keys = \<lparr>tk_secret = Some ''secret'', tk_hmac = (\<lambda>k m. [1, 2, 3])\<rparr>"

definition sample_session :: session where
  "sample_session = \<lparr>ss_id = ''u1'', ss_role = Some ''ADMIN'', ss_organizationId = Some ''org1'', ss_sessionVersion = 1,
     ss_jti = None, ss_iat = Some 5\<rparr>"

definition sample_payload :: json where
  "sample_payload = JObj [(''typ'', JStr ''session''), (''id'', JStr ''u1''), (''role'', JStr ''ADMIN''),
     (''organizationId'', JStr ''org1''), (''sessionVersion'', JNum (Fin 1)), (''iat'', JNum (Fin 5))]"

definition later_payload :: json where
  "later_payload = JObj [(''typ'', JStr ''session''), (''id'', JStr ''u1''), (''role'', JStr ''ADMIN''),
     (''sessionVersion'', JNum (Fin 2)), (''iat'', JNum (Fin 7))]"

definition sample_reauth :: string where
  "sample_reauth = (case signReauthToken sample_keys sample_session 5000 REAUTH_TTL_SECONDS of Inr t \<Rightarrow> t | Inl _ \<Rightarrow> [])"

lemma sample_signed: "signReauthToken sample_keys sample_session 5000 REAUTH_TTL_SECONDS = Inr sample_reauth"
  by (simp add: sample_reauth_def signReauthToken_def reauth_hmac_def token_hmac_def sample_keys_def given_def Let_def)

lemma base64url_length: "length (base64url_encode bytes) \<le> 2 * length bytes"
  by (induction bytes rule: base64url_encode.induct) auto

lemma utf8_length: "length (utf8_encode s) \<le> 2 * length s"
  by (induction s) (auto simp: utf8_encode_def utf8_char_def Let_def)

lemma base64UrlJson_length: "length (base64UrlJson ms) \<le> 4 * length (claims_text ms)"
  using base64url_length [of "utf8_encode (claims_text ms)"] utf8_length [of "claims_text ms"]
  by (simp add: base64UrlJson_def)

lemma sample_claims_length: "length (claims_text (reauth_claims sample_session 5000 REAUTH_TTL_SECONDS)) \<le> 200"
proof -
  have "reauth_claims sample_session 5000 REAUTH_TTL_SECONDS =
      [(''typ'', ClaimStr ''reauth''), (''sub'', ClaimStr ''u1''), (''sv'', ClaimInt 1), (''sid'', ClaimStr ''iat:5''),
       (''iat'', ClaimInt 5), (''exp'', ClaimInt 605)]"
    by (simp add: reauth_claims_def sample_session_def sessionBinding_def given_def claim_of_def REAUTH_TTL_SECONDS_def
        now_seconds_exact int_text_def nat_text.simps DIGITS_def)
  then show ?thesis by (simp only:) code_simp
qed

lemma jwt_header_length: "length JWT_HEADER = 36"
  by code_simp

lemma sample_reauth_length: "length sample_reauth \<le> 1024"
  using base64UrlJson_length [of "reauth_claims sample_session 5000 REAUTH_TTL_SECONDS"] sample_claims_length
  by (simp add: sample_reauth_def signReauthToken_def reauth_hmac_def token_hmac_def sample_keys_def given_def Let_def
      jwt_header_length)

lemma sample_range: "\<bar>ss_sessionVersion sample_session\<bar> < 2 ^ 53" "0 \<le> (5000 :: int)" "(5000 :: int) \<le> 2 ^ 48"
  by (simp_all add: sample_session_def)

theorem reauth_accepted_iff_witness:
  "recentAuthProblem sample_crypto sample_keys (Some sample_reauth) sample_session 5000 = None"
  using reauth_accepted_iff [OF sample_range(2,3), of sample_crypto sample_keys sample_reauth sample_session sample_session 5000 sample_reauth]
    sample_signed sample_reauth_length sample_range
  by (simp add: sample_session_def sessionBinding_def given_def)

definition sample_members :: "user list" where
  "sample_members = [sample_user\<lparr>u_sessionVersion := 1\<rparr>]"

definition later_members :: "user list" where
  "later_members = [sample_user\<lparr>u_sessionVersion := 2\<rparr>]"

theorem revocation_is_final_witness: "\<not> isCurrentUserSession USER_SESSION_TOKEN_TYPES later_members sample_payload"
proof -
  have cur: "isCurrentUserSession USER_SESSION_TOKEN_TYPES sample_members sample_payload"
    "read_session USER_SESSION_TOKEN_TYPES sample_payload = Some sample_session"
    "isCurrentUserSession USER_SESSION_TOKEN_TYPES later_members later_payload"
    by code_simp+
  obtain s' where s': "read_session USER_SESSION_TOKEN_TYPES later_payload = Some s'"
    using cur(3) read_session_payload by (auto simp: isCurrentUserSession_def)
  have grow: "versions_grow sample_members sample_members" "versions_grow later_members later_members"
    by (simp_all add: versions_grow_def sample_members_def later_members_def)
  have "revokeUserSessions (ss_id sample_session) sample_members = Inr later_members"
    by (simp add: revokeUserSessions_def sample_members_def later_members_def sample_session_def sample_user_def count_rows_def)
  then show ?thesis
    using revocation_is_final [OF cur(1,2) grow(1) _ grow(2) sample_signed sample_reauth_length sample_range sample_range(2,3) cur(3) s']
    by simp
qed

end
