(* ===== verification/Impersonation.thy ===== *)
theory Impersonation
  imports Sessions
begin

section \<open>Support views: an administrator views as another person\<close>

text \<open>
  Models \<^verbatim>\<open>src/auth/impersonation.js\<close> (the view cookie, the request policy, resolving and ending views,
  the global request hook, the realtime checks), \<^verbatim>\<open>src/utils/insensitive-equals.js\<close> and the start and
  stop handlers of \<^verbatim>\<open>src/routes/privileged-access.routes.js\<close>.

  The state is the part of the database the views live in. A request runs several statements; before
  the \<open>k\<close>-th one the environment may change the state in any way (the other requests), tells the time
  and decides whether the statement fails. A failed statement is an exception, which the code catches
  or lets through as written. Timers, sockets and Redis are outside the model.
\<close>

subsection \<open>Case-insensitive filters\<close>

definition escapeLikePattern :: "string \<Rightarrow> string" where
  "escapeLikePattern text = concat (map (\<lambda>c. if c \<in> {CHR 92, CHR ''%'', CHR ''_''} then [CHR 92, c] else [c]) text)"

text \<open>PostgreSQL's \<open>ILIKE\<close>: a backslash takes the next character literally, percent any text, underscore any character.\<close>

function (sequential) ilike :: "string \<Rightarrow> string \<Rightarrow> bool" where
  "ilike [] s = (s = [])"
| "ilike (p # ps) s =
     (if p = CHR 92 then
        (case ps of [] \<Rightarrow> False
         | q # qs \<Rightarrow> (case s of [] \<Rightarrow> False | c # cs \<Rightarrow> lower_char c = lower_char q \<and> ilike qs cs))
      else if p = CHR ''%'' then ilike ps s \<or> (case s of [] \<Rightarrow> False | c # cs \<Rightarrow> ilike (p # ps) cs)
      else (case s of [] \<Rightarrow> False | c # cs \<Rightarrow> (p = CHR ''_'' \<or> lower_char c = lower_char p) \<and> ilike ps cs))"
  by pat_completeness auto

termination ilike
  by (relation "measure (\<lambda>(p, s). length p + length s)") auto

definition insensitiveEquals :: "string \<Rightarrow> string \<Rightarrow> bool" where
  "insensitiveEquals filter_value column = ilike (escapeLikePattern filter_value) column"

subsection \<open>State\<close>

record view =
  iv_id :: string
  iv_organizationId :: string
  iv_actorUserId :: string
  iv_subjectUserId :: string
  iv_subjectRole :: string
  iv_reason :: string
  iv_startedAt :: timestamp
  iv_expiresAt :: timestamp
  iv_endedAt :: "timestamp option"
  iv_endReason :: "string option"
  iv_endedById :: "string option"

record contact =
  ct_id :: string
  ct_clientId :: string
  ct_email :: string

record access_db =
  ax_users :: "account list"
  ax_contacts :: "contact list"
  ax_views :: "view list"
  ax_audit :: audit_db

record access_env =
  ae_now :: "nat \<Rightarrow> timestamp"
  ae_others :: "nat \<Rightarrow> access_db \<Rightarrow> access_db"
  ae_db_ok :: "nat \<Rightarrow> bool"
  ae_ext :: audit_externals

type_synonym access_run = "nat \<times> access_db"

text \<open>One statement: the other requests act, then it runs or throws (\<open>None\<close>).\<close>

definition access_statement :: "access_env \<Rightarrow> (access_db \<Rightarrow> 'r \<times> access_db) \<Rightarrow> access_run \<Rightarrow> 'r option \<times> access_run" where
  "access_statement env f r =
     (let db = ae_others env (fst r) (snd r)
      in if ae_db_ok env (fst r) then (case f db of (x, db') \<Rightarrow> (Some x, (Suc (fst r), db')))
         else (None, (Suc (fst r), db)))"

definition read_db :: "(access_db \<Rightarrow> 'r) \<Rightarrow> access_db \<Rightarrow> 'r \<times> access_db" where
  "read_db q db = (q db, db)"

definition run_now :: "access_env \<Rightarrow> access_run \<Rightarrow> timestamp" where
  "run_now env r = ae_now env (fst r)"

subsection \<open>The view cookie\<close>

definition IMPERSONATION_TTL_SECONDS :: int where
  "IMPERSONATION_TTL_SECONDS = 30 * 60"

definition IMPERSONATABLE_ROLES :: "string list" where
  "IMPERSONATABLE_ROLES = [''TEAM'', ''STAFF'', ''CLIENT'']"

definition IMPERSONATION_END_REASONS :: "string list" where
  "IMPERSONATION_END_REASONS =
     [''stopped'', ''expired'', ''superseded'', ''signed_out'', ''revoked_password_reset'', ''revoked_role_change'',
      ''revoked_deactivated'', ''revoked_password_change'', ''start_failed'']"

definition impersonation_hmac :: "token_keys \<Rightarrow> string \<Rightarrow> session_error + string" where
  "impersonation_hmac ky input = token_hmac ky ''ashbi:impersonation:v1'' input"

definition impersonation_claims :: "string \<Rightarrow> session \<Rightarrow> string \<Rightarrow> timestamp \<Rightarrow> timestamp \<Rightarrow> (string \<times> claim) list" where
  "impersonation_claims sessionId actor subjectUserId expiresAt nowMs =
     [(''typ'', ClaimStr ''impersonation''), (''sid'', ClaimStr sessionId), (''act'', ClaimStr (ss_id actor)),
      (''sub'', ClaimStr subjectUserId), (''org'', claim_of (ss_organizationId actor)),
      (''asv'', ClaimInt (ss_sessionVersion actor)), (''abind'', claim_of (sessionBinding actor)),
      (''iat'', ClaimInt (now_seconds nowMs)), (''exp'', ClaimInt (now_seconds expiresAt))]"

definition signImpersonationToken ::
  "token_keys \<Rightarrow> string \<Rightarrow> session \<Rightarrow> string \<Rightarrow> timestamp \<Rightarrow> timestamp \<Rightarrow> session_error + string" where
  "signImpersonationToken ky sessionId actor subjectUserId expiresAt nowMs =
     (let payload = base64UrlJson (impersonation_claims sessionId actor subjectUserId expiresAt nowMs)
      in case impersonation_hmac ky (JWT_HEADER @ ''.'' @ payload) of
           Inl e \<Rightarrow> Inl e
         | Inr signature \<Rightarrow> Inr (JWT_HEADER @ ''.'' @ payload @ ''.'' @ signature))"

text \<open>The claims and whether they are expired; \<open>None\<close> for a forged or malformed token.\<close>

definition verifyImpersonationToken :: "crypto \<Rightarrow> token_keys \<Rightarrow> string \<Rightarrow> timestamp \<Rightarrow> (json \<times> bool) option" where
  "verifyImpersonationToken cr ky token nowMs =
     (if 2048 < length token then None
      else (case js_split CHR ''.'' token of
        [header, payload, signature] \<Rightarrow>
          (case impersonation_hmac ky (header @ ''.'' @ payload) of
             Inl _ \<Rightarrow> None
           | Inr expected \<Rightarrow>
              if \<not> safeEqual cr signature expected then None
              else (case read_json payload of
                 None \<Rightarrow> None
               | Some claims \<Rightarrow>
                  if str_field claims ''typ'' \<noteq> Some ''impersonation'' then None
                  else if \<not> list_all (\<lambda>field. given (str_field claims field)) [''sid'', ''act'', ''sub'', ''org''] then None
                  else (case (int_field claims ''exp'', int_field claims ''asv'') of
                     (Some e, Some _) \<Rightarrow> Some (claims, e \<le> now_seconds nowMs)
                   | _ \<Rightarrow> None)))
      | _ \<Rightarrow> None))"

definition impersonationCookieOptions :: "bool \<Rightarrow> rat \<Rightarrow> cookie_options" where
  "impersonationCookieOptions isProduction maxAgeSeconds =
     \<lparr>co_path = ''/'', co_httpOnly = True, co_secure = isProduction, co_sameSite = ''strict'',
      co_maxAge = Some (math_max (Fin 0) (math_floor (Fin maxAgeSeconds)))\<rparr>"

definition clearImpersonationCookieOptions :: "bool \<Rightarrow> cookie_options" where
  "clearImpersonationCookieOptions isProduction =
     (impersonationCookieOptions isProduction (of_int IMPERSONATION_TTL_SECONDS))\<lparr>co_maxAge := None\<rparr>"

subsection \<open>Request policy while viewing\<close>

definition SAFE_METHODS :: "string list" where
  "SAFE_METHODS = [''GET'', ''HEAD'', ''OPTIONS'']"

definition ALLOWED_MUTATIONS :: "string list" where
  "ALLOWED_MUTATIONS = [''POST /api/auth/impersonation/stop'', ''POST /api/auth/logout'']"

definition IMPERSONATION_BLOCKED_PREFIXES :: "string list" where
  "IMPERSONATION_BLOCKED_PREFIXES =
     [''/api/auth/mfa'', ''/api/auth/reauth'', ''/api/auth/change-password'', ''/api/auth/register'',
      ''/api/auth/break-glass'', ''/api/api-keys'', ''/api/credentials'', ''/api/ai-connections'',
      ''/api/ai-tools/approvals'', ''/api/settings/ai-provider'', ''/api/settings/ai-kill-switch'',
      ''/api/audit-events'', ''/api/push'', ''/api/google-calendar/oauth'', ''/api/mcp-oauth/consent'',
      ''/api/slack/oauth'']"

text \<open>The paths a request is judged by: its own and, when one matched, the route pattern; empty ones are dropped.\<close>

definition judged_paths :: "string \<Rightarrow> string option \<Rightarrow> string list" where
  "judged_paths url routeUrl =
     filter (\<lambda>p. p \<noteq> []) (normalizedPath url # (if given routeUrl then [normalizedPath (the routeUrl)] else []))"

definition verb_of :: "string \<Rightarrow> string" where
  "verb_of m = js_upper (if m = [] then ''GET'' else m)"

definition mayProceedAfterViewEnded :: "string \<Rightarrow> string \<Rightarrow> string option \<Rightarrow> bool" where
  "mayProceedAfterViewEnded m url routeUrl =
     (let verb = verb_of m; paths = judged_paths url routeUrl
      in ((verb = ''GET'' \<or> verb = ''HEAD'') \<and> list_all (\<lambda>p. p = ''/api/auth/impersonation'') paths) \<or>
         list_all (\<lambda>p. verb @ '' '' @ p \<in> set ALLOWED_MUTATIONS) paths)"

datatype denial = Blocked | ReadOnly

definition impersonationDenial :: "string \<Rightarrow> string \<Rightarrow> string option \<Rightarrow> bool \<Rightarrow> denial option" where
  "impersonationDenial m url routeUrl sideEffectingGet =
     (let verb = verb_of m; paths = judged_paths url routeUrl
      in if verb = ''POST'' \<and> ''/api/auth/impersonation'' \<in> set paths then Some Blocked
         else if list_ex (\<lambda>p. list_ex (matchesPrefix p) IMPERSONATION_BLOCKED_PREFIXES) paths then Some Blocked
         else if verb \<in> set SAFE_METHODS then (if sideEffectingGet then Some ReadOnly else None)
         else if list_all (\<lambda>p. verb @ '' '' @ p \<in> set ALLOWED_MUTATIONS) paths then None
         else Some ReadOnly)"

subsection \<open>Realtime\<close>

definition socketHandshakeDuringView :: "string option \<Rightarrow> bool" where
  "socketHandshakeDuringView cookie = given cookie"

definition open_view :: "timestamp \<Rightarrow> view \<Rightarrow> bool" where
  "open_view nowMs v \<longleftrightarrow> iv_endedAt v = None \<and> nowMs < iv_expiresAt v"

definition actorHasOpenView :: "access_env \<Rightarrow> string option \<Rightarrow> string option \<Rightarrow> timestamp \<Rightarrow> access_run \<Rightarrow> bool option \<times> access_run" where
  "actorHasOpenView env actorId organizationId nowMs r =
     (if \<not> given actorId \<or> \<not> given organizationId then (Some False, r)
      else access_statement env (read_db (\<lambda>db.
        find_row (\<lambda>v. iv_organizationId v = the organizationId \<and> iv_actorUserId v = the actorId \<and> open_view nowMs v)
          (ax_views db) \<noteq> None)) r)"

definition viewSocketRooms :: "string \<Rightarrow> string list" where
  "viewSocketRooms userId = [''user:'' @ userId, ''pending-user:'' @ userId]"

text \<open>Sockets are their user and organization; the result are the sockets to disconnect.\<close>

definition sweepSocketsDuringViews ::
  "access_env \<Rightarrow> (string option \<times> string option) list \<Rightarrow> timestamp \<Rightarrow> access_run
    \<Rightarrow> (string option \<times> string option) list option \<times> access_run" where
  "sweepSocketsDuringViews env sockets nowMs r =
     (let candidates = filter (\<lambda>(u, org). given u \<and> given org) sockets
      in if candidates = [] then (Some [], r)
         else (case access_statement env (read_db (\<lambda>db.
                  filter (\<lambda>v. Some (iv_actorUserId v) \<in> fst ` set candidates \<and> open_view nowMs v) (ax_views db))) r of
                 (None, r1) \<Rightarrow> (None, r1)
               | (Some rows, r1) \<Rightarrow>
                   (Some (filter (\<lambda>(u, org). list_ex (\<lambda>v. iv_organizationId v @ '':'' @ iv_actorUserId v = the org @ '':'' @ the u) rows)
                      candidates), r1)))"

subsection \<open>Starting a view: who may view whom\<close>

definition impersonationStartProblem :: "string list \<Rightarrow> account option \<Rightarrow> account option \<Rightarrow> (nat \<times> string) option" where
  "impersonationStartProblem platformOperatorUserIds actor subject =
     (case actor of
        None \<Rightarrow> Some (403, ''IMPERSONATION_NOT_ALLOWED'')
      | Some a \<Rightarrow>
         if u_role a \<noteq> ''ADMIN'' \<or> \<not> u_isActive a then Some (403, ''IMPERSONATION_NOT_ALLOWED'')
         else (case subject of
            None \<Rightarrow> Some (404, ''IMPERSONATION_TARGET_NOT_FOUND'')
          | Some s \<Rightarrow>
             if u_organizationId s \<noteq> u_organizationId a then Some (404, ''IMPERSONATION_TARGET_NOT_FOUND'')
             else if u_id s = u_id a then Some (400, ''IMPERSONATION_SELF'')
             else if u_role s \<notin> set IMPERSONATABLE_ROLES then Some (403, ''IMPERSONATION_TARGET_FORBIDDEN'')
             else if u_id s \<in> set platformOperatorUserIds then Some (403, ''IMPERSONATION_TARGET_FORBIDDEN'')
             else if \<not> u_isActive s then Some (409, ''IMPERSONATION_TARGET_INACTIVE'')
             else None))"

definition findPortalContact :: "account \<Rightarrow> access_db \<Rightarrow> contact option" where
  "findPortalContact subject db =
     (if u_role subject \<noteq> ''CLIENT'' \<or> \<not> given (u_clientId subject) then None
      else find_row (\<lambda>c. Some (ct_clientId c) = u_clientId subject \<and> insensitiveEquals (u_email subject) (ct_email c))
             (ax_contacts db))"

subsection \<open>Resolving the cookie of a request\<close>

record view_link =
  vl_sessionId :: string
  vl_actorUserId :: string
  vl_expiresAt :: timestamp

record subject_claims =
  sc_typ :: string
  sc_id :: string
  sc_email :: string
  sc_name :: string
  sc_role :: string
  sc_clientId :: "string option"
  sc_organizationId :: "string option"
  sc_sessionVersion :: int
  sc_contactId :: "string option"
  sc_impersonation :: view_link

record view_context =
  vc_sessionId :: string
  vc_organizationId :: string
  vc_actorUserId :: string
  vc_actorName :: string
  vc_subjectUserId :: string
  vc_subjectName :: string
  vc_subjectRole :: string
  vc_startedAt :: timestamp
  vc_expiresAt :: timestamp
  vc_reason :: string
  vc_user :: subject_claims

datatype view_status = VNone | VInvalid | VExpired string | VActive view_context

definition subjectClaims :: "account \<Rightarrow> view \<Rightarrow> string option \<Rightarrow> subject_claims" where
  "subjectClaims subject row contactId =
     \<lparr>sc_typ = sessionTokenTypeFor (Some (u_role subject)), sc_id = u_id subject, sc_email = u_email subject,
      sc_name = u_name subject, sc_role = u_role subject, sc_clientId = u_clientId subject,
      sc_organizationId = u_organizationId subject, sc_sessionVersion = u_sessionVersion subject,
      sc_contactId = (if given contactId then contactId else None),
      sc_impersonation = \<lparr>vl_sessionId = iv_id row, vl_actorUserId = iv_actorUserId row, vl_expiresAt = iv_expiresAt row\<rparr>\<rparr>"

definition member_query :: "string \<Rightarrow> string \<Rightarrow> access_db \<Rightarrow> account option" where
  "member_query uid org db = find_row (\<lambda>u. u_id u = uid \<and> u_organizationId u = Some org) (ax_users db)"

definition view_context_of :: "view \<Rightarrow> account \<Rightarrow> account \<Rightarrow> string option \<Rightarrow> view_context" where
  "view_context_of row actor subject contactId =
     \<lparr>vc_sessionId = iv_id row, vc_organizationId = iv_organizationId row, vc_actorUserId = iv_actorUserId row,
      vc_actorName = u_name actor, vc_subjectUserId = u_id subject, vc_subjectName = u_name subject,
      vc_subjectRole = u_role subject, vc_startedAt = iv_startedAt row, vc_expiresAt = iv_expiresAt row,
      vc_reason = iv_reason row, vc_user = subjectClaims subject row contactId\<rparr>"

text \<open>The part after the row was found open: the subject and the actor are read again.\<close>

definition resolve_people :: "access_env \<Rightarrow> view \<Rightarrow> access_run \<Rightarrow> view_status option \<times> access_run" where
  "resolve_people env row r =
     (case access_statement env (read_db (member_query (iv_subjectUserId row) (iv_organizationId row))) r of
        (None, r1) \<Rightarrow> (None, r1)
      | (Some subject, r1) \<Rightarrow>
         (case access_statement env (read_db (member_query (iv_actorUserId row) (iv_organizationId row))) r1 of
            (None, r2) \<Rightarrow> (None, r2)
          | (Some actor, r2) \<Rightarrow>
             (case (actor, subject) of
                (Some a, Some s) \<Rightarrow>
                  if u_role a \<noteq> ''ADMIN'' \<or> \<not> u_isActive a then (Some VInvalid, r2)
                  else if \<not> u_isActive s \<or> u_role s \<noteq> iv_subjectRole row \<or> u_role s \<notin> set IMPERSONATABLE_ROLES
                  then (Some VInvalid, r2)
                  else if u_role s = ''CLIENT'' then
                    (case access_statement env (read_db (findPortalContact s)) r2 of
                       (None, r3) \<Rightarrow> (None, r3)
                     | (Some contact, r3) \<Rightarrow> (Some (VActive (view_context_of row a s (map_option ct_id contact))), r3))
                  else (Some (VActive (view_context_of row a s None)), r2)
              | _ \<Rightarrow> (Some VInvalid, r2))))"

definition resolveImpersonation ::
  "crypto \<Rightarrow> token_keys \<Rightarrow> access_env \<Rightarrow> string option \<Rightarrow> session \<Rightarrow> access_run \<Rightarrow> view_status option \<times> access_run" where
  "resolveImpersonation cr ky env cookie admin r =
     (let nowMs = run_now env r
      in if \<not> given cookie then (Some VNone, r)
         else (case verifyImpersonationToken cr ky (the cookie) nowMs of
           None \<Rightarrow> (Some VInvalid, r)
         | Some (claims, expired) \<Rightarrow>
            if ss_id admin = [] \<or> str_field claims ''act'' \<noteq> Some (ss_id admin) \<or>
               str_field claims ''org'' \<noteq> ss_organizationId admin \<or> ss_role admin \<noteq> Some ''ADMIN'' then (Some VInvalid, r)
            else if int_field claims ''asv'' \<noteq> Some (ss_sessionVersion admin) \<or>
               jfield claims ''abind'' \<noteq> Some (nullable (sessionBinding admin)) then (Some VInvalid, r)
            else (case access_statement env (read_db (\<lambda>db. find_row (\<lambda>v.
                    Some (iv_id v) = str_field claims ''sid'' \<and> Some (iv_organizationId v) = str_field claims ''org'' \<and>
                    Some (iv_actorUserId v) = str_field claims ''act'' \<and> Some (iv_subjectUserId v) = str_field claims ''sub'')
                    (ax_views db))) r of
              (None, r1) \<Rightarrow> (None, r1)
            | (Some None, r1) \<Rightarrow> (Some VInvalid, r1)
            | (Some (Some row), r1) \<Rightarrow>
                if iv_endedAt row \<noteq> None then (Some VInvalid, r1)
                else if expired \<or> iv_expiresAt row \<le> nowMs then (Some (VExpired (iv_id row)), r1)
                else resolve_people env row r1)))"

record view_description =
  dv_sessionId :: string
  dv_actor :: "string \<times> string"
  dv_subject :: "string \<times> string \<times> string"
  dv_startedAt :: timestamp
  dv_expiresAt :: timestamp

definition describeImpersonation :: "view_context option \<Rightarrow> view_description option" where
  "describeImpersonation ctx =
     map_option (\<lambda>c. \<lparr>dv_sessionId = vc_sessionId c, dv_actor = (vc_actorUserId c, vc_actorName c),
       dv_subject = (vc_subjectUserId c, vc_subjectName c, vc_subjectRole c), dv_startedAt = vc_startedAt c,
       dv_expiresAt = vc_expiresAt c\<rparr>) ctx"

subsection \<open>Ending views\<close>

record end_options =
  eo_organizationId :: "string option"
  eo_where :: "view \<Rightarrow> bool"
  eo_reason :: string
  eo_endedById :: "string option"
  eo_requestId :: "string option"
  eo_ip :: "string option"
  eo_actorUserId :: "string option"
  eo_actorType :: string
  eo_nowMs :: timestamp

definition effective_reason :: "end_options \<Rightarrow> view \<Rightarrow> string" where
  "effective_reason opts row = (if eo_reason opts = ''expired'' \<or> iv_expiresAt row \<le> eo_nowMs opts then ''expired'' else eo_reason opts)"

text \<open>The guarded update of one row: ends it unless someone else did, and counts the rows changed.\<close>

definition end_view_update :: "string \<Rightarrow> string \<Rightarrow> timestamp \<Rightarrow> string \<Rightarrow> string option \<Rightarrow> access_db \<Rightarrow> nat \<times> access_db" where
  "end_view_update org vid endedAt reason endedById db =
     (let still_open = (\<lambda>v. iv_id v = vid \<and> iv_organizationId v = org \<and> iv_endedAt v = None)
      in (count_rows still_open (ax_views db),
          db\<lparr>ax_views := update_rows still_open
                (\<lambda>v. v\<lparr>iv_endedAt := Some endedAt, iv_endReason := Some reason, iv_endedById := endedById\<rparr>) (ax_views db)\<rparr>))"

definition audit_write :: "audit_externals \<Rightarrow> timestamp \<Rightarrow> audit_event \<Rightarrow> access_db \<Rightarrow> unit \<times> access_db" where
  "audit_write ext nowMs event db =
     ((), db\<lparr>ax_audit := snd (recordAuditEvent ext None True nowMs event (ax_audit db))\<rparr>)"

definition ended_event :: "end_options \<Rightarrow> string \<Rightarrow> view \<Rightarrow> timestamp \<Rightarrow> audit_event" where
  "ended_event opts org row endedAt =
     (let reason = effective_reason opts row; expired = (reason = ''expired'')
      in \<lparr>ev_organizationId = Some org, ev_ownerClientId = None, ev_ownerInvoiceId = None,
          ev_actorUserId = (if expired then Some (iv_actorUserId row)
                            else case eo_actorUserId opts of Some a \<Rightarrow> Some a
                                 | None \<Rightarrow> (case eo_endedById opts of Some b \<Rightarrow> Some b | None \<Rightarrow> Some (iv_actorUserId row))),
          ev_actorType = (if expired then ''SYSTEM'' else eo_actorType opts), ev_action = ''impersonation.ended'',
          ev_entityType = None, ev_entityId = Some (iv_id row), ev_requestId = eo_requestId opts, ev_ip = eo_ip opts,
          ev_metadata = Some [(''reason'', MStr reason), (''subjectUserId'', MStr (iv_subjectUserId row)),
            (''impersonatedUserId'', MStr (iv_subjectUserId row)), (''impersonationSessionId'', MStr (iv_id row)),
            (''durationSeconds'', MNum (math_max (Fin 0) (math_round (js_div_by (Fin (of_int (endedAt - iv_startedAt row))) 1000))))]\<rparr>)"

fun end_rows :: "access_env \<Rightarrow> end_options \<Rightarrow> string \<Rightarrow> view list \<Rightarrow> nat \<Rightarrow> access_run \<Rightarrow> nat option \<times> access_run" where
  "end_rows env opts org [] ended r = (Some ended, r)"
| "end_rows env opts org (row # rows) ended r =
     (let endedAt = min (eo_nowMs opts) (iv_expiresAt row); reason = effective_reason opts row
      in case access_statement env (end_view_update org (iv_id row) endedAt reason
                (if reason = ''expired'' then None else eo_endedById opts)) r of
           (None, r1) \<Rightarrow> (None, r1)
         | (Some n, r1) \<Rightarrow>
             if n \<noteq> 1 then end_rows env opts org rows ended r1
             else (case access_statement env (audit_write (ae_ext env) (run_now env r1) (ended_event opts org row endedAt)) r1 of
                     (_, r2) \<Rightarrow> end_rows env opts org rows (ended + 1) r2))"

definition endImpersonationSessions :: "access_env \<Rightarrow> end_options \<Rightarrow> access_run \<Rightarrow> nat \<times> access_run" where
  "endImpersonationSessions env opts r =
     (if \<not> given (eo_organizationId opts) \<or> eo_reason opts \<notin> set IMPERSONATION_END_REASONS then (0, r)
      else
        (let org = the (eo_organizationId opts)
         in case access_statement env (read_db (\<lambda>db. filter (\<lambda>v. eo_where opts v \<and> iv_organizationId v = org \<and> iv_endedAt v = None)
                   (ax_views db))) r of
              (None, r1) \<Rightarrow> (0, r1)
            | (Some rows, r1) \<Rightarrow>
               (case end_rows env opts org rows 0 r1 of (None, r2) \<Rightarrow> (0, r2) | (Some n, r2) \<Rightarrow> (n, r2))))"

definition revokeImpersonationsForUser ::
  "access_env \<Rightarrow> audit_request \<Rightarrow> string \<Rightarrow> string \<Rightarrow> access_run \<Rightarrow> nat \<times> access_run" where
  "revokeImpersonationsForUser env request userId reason r =
     endImpersonationSessions env
       \<lparr>eo_organizationId = rq_userOrganizationId request,
        eo_where = (\<lambda>v. iv_actorUserId v = userId \<or> iv_subjectUserId v = userId), eo_reason = reason,
        eo_endedById = (case rq_impersonation request of Some i \<Rightarrow> Some (ic_actorUserId i) | None \<Rightarrow> rq_userId request),
        eo_requestId = rq_id request, eo_ip = rq_ip request, eo_actorUserId = None, eo_actorType = ''USER'',
        eo_nowMs = run_now env r\<rparr> r"

subsection \<open>The request hook\<close>

record view_request =
  vr_http :: http_request
  vr_cookie :: "string option"
  vr_jwt :: "json option"
  vr_id :: "string option"
  vr_ip :: "string option"

text \<open>
  What the hook does to a request: nothing; no user and the cookie cleared; an answer; on as the
  administrator with the dead cookie cleared (and why the view ended); on as the viewed person.
\<close>

datatype hook_outcome =
    Untouched
  | SignedOut
  | HookReply nat string
  | AsAdmin session string
  | AsSubject view_context

definition denial_code :: "denial \<Rightarrow> string" where
  "denial_code d = (case d of Blocked \<Rightarrow> ''IMPERSONATION_BLOCKED'' | ReadOnly \<Rightarrow> ''IMPERSONATION_READ_ONLY'')"

definition route_url :: "view_request \<Rightarrow> string option" where
  "route_url vr = ro_url (hr_route (vr_http vr))"

definition expire_options :: "session \<Rightarrow> view_request \<Rightarrow> string \<Rightarrow> timestamp \<Rightarrow> end_options" where
  "expire_options admin vr vid nowMs =
     \<lparr>eo_organizationId = ss_organizationId admin, eo_where = (\<lambda>v. iv_id v = vid), eo_reason = ''expired'',
      eo_endedById = None, eo_requestId = vr_id vr, eo_ip = vr_ip vr, eo_actorUserId = None, eo_actorType = ''USER'',
      eo_nowMs = nowMs\<rparr>"

definition after_view_ended :: "view_request \<Rightarrow> session \<Rightarrow> string \<Rightarrow> hook_outcome" where
  "after_view_ended vr admin ended =
     (if mayProceedAfterViewEnded (hr_method (vr_http vr)) (hr_url (vr_http vr)) (route_url vr) then AsAdmin admin ended
      else HookReply 409 ''IMPERSONATION_ENDED'')"

definition apply_view :: "crypto \<Rightarrow> token_keys \<Rightarrow> access_env \<Rightarrow> view_request \<Rightarrow> session \<Rightarrow> access_run \<Rightarrow> hook_outcome \<times> access_run" where
  "apply_view cr ky env vr admin r =
     (case resolveImpersonation cr ky env (vr_cookie vr) admin r of
        (None, r1) \<Rightarrow> (HookReply 503 ''lookup failed'', r1)
      | (Some (VExpired vid), r1) \<Rightarrow>
          (after_view_ended vr admin ''expired'',
           snd (endImpersonationSessions env (expire_options admin vr vid (run_now env r1)) r1))
      | (Some (VActive ctx), r1) \<Rightarrow>
          (case impersonationDenial (hr_method (vr_http vr)) (hr_url (vr_http vr)) (route_url vr)
                  (ro_sideEffectingGet (hr_route (vr_http vr))) of
             Some d \<Rightarrow> (HookReply 403 (denial_code d), r1)
           | None \<Rightarrow> (AsSubject ctx, r1))
      | (Some _, r1) \<Rightarrow> (after_view_ended vr admin ''invalid'', r1))"

definition impersonationHook :: "crypto \<Rightarrow> token_keys \<Rightarrow> access_env \<Rightarrow> view_request \<Rightarrow> access_run \<Rightarrow> hook_outcome \<times> access_run" where
  "impersonationHook cr ky env vr r =
     (if \<not> starts_with ''/api/'' (normalizedPath (requestPath (vr_http vr))) then (Untouched, r)
      else if \<not> given (vr_cookie vr) then (Untouched, r)
      else (case Option.bind (vr_jwt vr) (read_session USER_SESSION_TOKEN_TYPES) of
        None \<Rightarrow> (SignedOut, r)
      | Some admin \<Rightarrow>
         (case access_statement env (read_db (\<lambda>db. isCurrentUserSession USER_SESSION_TOKEN_TYPES (ax_users db) (the (vr_jwt vr)))) r of
            (Some True, r1) \<Rightarrow> apply_view cr ky env vr admin r1
          | (_, r1) \<Rightarrow> (SignedOut, r1))))"

subsection \<open>The start and stop handlers\<close>

definition tx_env :: "access_env \<Rightarrow> timestamp \<Rightarrow> access_env" where
  "tx_env env nowMs = env\<lparr>ae_now := (\<lambda>_. nowMs), ae_others := (\<lambda>_ db. db), ae_db_ok := (\<lambda>_. True)\<rparr>"

definition supersede_options :: "string option \<Rightarrow> account \<Rightarrow> audit_request \<Rightarrow> timestamp \<Rightarrow> end_options" where
  "supersede_options organizationId actor request nowMs =
     \<lparr>eo_organizationId = organizationId, eo_where = (\<lambda>v. iv_actorUserId v = u_id actor), eo_reason = ''superseded'',
      eo_endedById = Some (u_id actor), eo_requestId = rq_id request, eo_ip = rq_ip request, eo_actorUserId = None,
      eo_actorType = ''USER'', eo_nowMs = nowMs\<rparr>"

definition started_fields :: "view \<Rightarrow> audit_fields" where
  "started_fields row =
     \<lparr>af_organizationId = None, af_ownerClientId = None, af_ownerInvoiceId = None, af_actorUserId = None, af_actorType = None,
      af_action = ''impersonation.started'', af_entityType = None, af_entityId = Some (Some (iv_id row)),
      af_requestId = None, af_ip = None,
      af_metadata = Some [(''subjectUserId'', MStr (iv_subjectUserId row)), (''subjectRole'', MStr (iv_subjectRole row)),
        (''expiresAt'', MDate (Some (iv_expiresAt row))), (''ttlSeconds'', MNum (Fin (of_int IMPERSONATION_TTL_SECONDS))),
        (''readOnly'', MBool True), (''impersonatedUserId'', MStr (iv_subjectUserId row)),
        (''impersonationSessionId'', MStr (iv_id row))]\<rparr>"

text \<open>
  The transaction of a start. The per-administrator lock keeps every other start of the same
  administrator out, and ending a view is guarded row by row, so it acts in one step. Creating a row
  whose id exists throws, and the transaction is undone.
\<close>

definition start_transaction ::
  "access_env \<Rightarrow> audit_request \<Rightarrow> string \<Rightarrow> account \<Rightarrow> account \<Rightarrow> string \<Rightarrow> string \<Rightarrow> timestamp \<Rightarrow> access_db
    \<Rightarrow> view option \<times> access_db" where
  "start_transaction env request organizationId actor subject reason newId nowMs db =
     (let db1 = snd (snd (endImpersonationSessions (tx_env env nowMs)
                  (supersede_options (Some organizationId) actor request nowMs) (0, db)));
          row = \<lparr>iv_id = newId, iv_organizationId = organizationId, iv_actorUserId = u_id actor, iv_subjectUserId = u_id subject,
                 iv_subjectRole = u_role subject, iv_reason = reason, iv_startedAt = nowMs,
                 iv_expiresAt = nowMs + IMPERSONATION_TTL_SECONDS * 1000, iv_endedAt = None, iv_endReason = None,
                 iv_endedById = None\<rparr>
      in if newId \<in> iv_id ` set (ax_views db1) then (None, db)
         else (Some row,
               db1\<lparr>ax_views := ax_views db1 @ [row],
                   ax_audit := snd (recordRequestAuditEvent (ae_ext env) True nowMs request (started_fields row) (ax_audit db1))\<rparr>))"

datatype start_reply = StartRefused nat string | StartThrew | Started view string

definition start_failed_options :: "string \<Rightarrow> account \<Rightarrow> audit_request \<Rightarrow> string \<Rightarrow> timestamp \<Rightarrow> end_options" where
  "start_failed_options organizationId actor request vid nowMs =
     (supersede_options (Some organizationId) actor request nowMs)\<lparr>eo_where := (\<lambda>v. iv_id v = vid), eo_reason := ''start_failed''\<rparr>"

text \<open>After the checks passed: the transaction, dropping the sockets (\<open>revoke_ok\<close>), the cookie.\<close>

definition open_new_view ::
  "token_keys \<Rightarrow> access_env \<Rightarrow> audit_request \<Rightarrow> session \<Rightarrow> account \<Rightarrow> account \<Rightarrow> string \<Rightarrow> string \<Rightarrow> bool \<Rightarrow> access_run
    \<Rightarrow> start_reply \<times> access_run" where
  "open_new_view ky env request s actor subject reason newId revoke_ok r =
     (let organizationId = the (ss_organizationId s); nowMs = run_now env r
      in case access_statement env (start_transaction env request organizationId actor subject reason newId nowMs) r of
           (Some (Some row), r1) \<Rightarrow>
             if \<not> revoke_ok then
               (StartRefused 503 ''IMPERSONATION_START_FAILED'',
                snd (endImpersonationSessions env (start_failed_options organizationId actor request (iv_id row) (run_now env r1)) r1))
             else (case signImpersonationToken ky (iv_id row) (s\<lparr>ss_sessionVersion := u_sessionVersion actor\<rparr>) (u_id subject)
                          (iv_expiresAt row) nowMs of
                     Inl _ \<Rightarrow> (StartThrew, r1)
                   | Inr token \<Rightarrow> (Started row token, r1))
         | (_, r1) \<Rightarrow> (StartThrew, r1))"

definition start_view ::
  "token_keys \<Rightarrow> access_env \<Rightarrow> string list \<Rightarrow> audit_request \<Rightarrow> session \<Rightarrow> string \<Rightarrow> string \<Rightarrow> string \<Rightarrow> bool \<Rightarrow> access_run
    \<Rightarrow> start_reply \<times> access_run" where
  "start_view ky env operators request s userId reason newId revoke_ok r =
     (let org = the (ss_organizationId s)
      in case access_statement env (read_db (member_query (ss_id s) org)) r of
           (None, r1) \<Rightarrow> (StartThrew, r1)
         | (Some actor, r1) \<Rightarrow>
            (case access_statement env (read_db (member_query userId org)) r1 of
               (None, r2) \<Rightarrow> (StartThrew, r2)
             | (Some subject, r2) \<Rightarrow>
                (case impersonationStartProblem operators actor subject of
                   Some (status, code) \<Rightarrow> (StartRefused status code, r2)
                 | None \<Rightarrow>
                    if u_role (the subject) = ''CLIENT'' then
                      (case access_statement env (read_db (findPortalContact (the subject))) r2 of
                         (None, r3) \<Rightarrow> (StartThrew, r3)
                       | (Some None, r3) \<Rightarrow> (StartRefused 409 ''IMPERSONATION_TARGET_NO_PORTAL'', r3)
                       | (Some (Some _), r3) \<Rightarrow> open_new_view ky env request s (the actor) (the subject) reason newId revoke_ok r3)
                    else open_new_view ky env request s (the actor) (the subject) reason newId revoke_ok r2)))"

definition stop_options :: "audit_request \<Rightarrow> string option \<Rightarrow> string option \<Rightarrow> (view \<Rightarrow> bool) \<Rightarrow> timestamp \<Rightarrow> end_options" where
  "stop_options request org endedById which nowMs =
     \<lparr>eo_organizationId = org, eo_where = which, eo_reason = ''stopped'', eo_endedById = endedById,
      eo_requestId = rq_id request, eo_ip = rq_ip request, eo_actorUserId = None, eo_actorType = ''USER'', eo_nowMs = nowMs\<rparr>"

definition stop_view :: "access_env \<Rightarrow> audit_request \<Rightarrow> view_context option \<Rightarrow> access_run \<Rightarrow> nat \<times> access_run" where
  "stop_view env request ctx r =
     (case ctx of
        Some c \<Rightarrow> endImpersonationSessions env (stop_options request (Some (vc_organizationId c)) (Some (vc_actorUserId c))
                   (\<lambda>v. iv_id v = vc_sessionId c) (run_now env r)) r
      | None \<Rightarrow>
         if rq_userRole request = Some ''ADMIN'' \<and> given (rq_userOrganizationId request)
         then endImpersonationSessions env (stop_options request (rq_userOrganizationId request) (rq_userId request)
                (\<lambda>v. Some (iv_actorUserId v) = rq_userId request) (run_now env r)) r
         else (0, r))"

subsection \<open>Filters and cookies\<close>

lemma escapeLikePattern_Cons:
  "escapeLikePattern (c # s) = (if c \<in> {CHR 92, CHR ''%'', CHR ''_''} then [CHR 92, c] else [c]) @ escapeLikePattern s"
  by (simp add: escapeLikePattern_def)

lemma ilike_escape: "ilike (escapeLikePattern v) s \<longleftrightarrow> js_lower s = js_lower v"
proof (induction v arbitrary: s)
  case Nil
  then show ?case by (simp add: escapeLikePattern_def js_lower_def)
next
  case (Cons c v)
  then show ?case by (cases s) (auto simp: escapeLikePattern_Cons js_lower_def)
qed

text \<open>The filter is an exact comparison that ignores case: no character of the value acts as a wildcard.\<close>

lemma insensitiveEquals_exact: "insensitiveEquals v s \<longleftrightarrow> js_lower s = js_lower v"
  by (simp add: insensitiveEquals_def ilike_escape)

subsection \<open>What an administrator's view lets through\<close>

text \<open>The state the \<open>n\<close>-th statement of a run sees, as long as the statements before it only read.\<close>

fun seen :: "access_env \<Rightarrow> access_run \<Rightarrow> nat \<Rightarrow> access_db" where
  "seen env r 0 = ae_others env (fst r) (snd r)"
| "seen env r (Suc n) = ae_others env (fst r + Suc n) (seen env r n)"

lemma read_statement:
  assumes "access_statement env (read_db q) r = (Some x, r1)"
  shows "x = q (seen env r 0)" and "r1 = (Suc (fst r), seen env r 0)"
  using assms by (auto simp: access_statement_def read_db_def Let_def split: if_splits)

lemma seen_next: "r1 = (Suc (fst r), seen env r 0) \<Longrightarrow> seen env r1 n = seen env r (Suc n)"
  by (induction n) auto

definition may_pass_in_view :: "http_request \<Rightarrow> bool" where
  "may_pass_in_view rq \<longleftrightarrow>
     (let verb = verb_of (hr_method rq); paths = judged_paths (hr_url rq) (ro_url (hr_route rq))
      in (verb \<in> set SAFE_METHODS \<and> \<not> ro_sideEffectingGet (hr_route rq) \<or>
          (\<forall>p \<in> set paths. verb @ '' '' @ p \<in> set ALLOWED_MUTATIONS)) \<and>
         (\<forall>p \<in> set paths. \<forall>prefix \<in> set IMPERSONATION_BLOCKED_PREFIXES. \<not> matchesPrefix p prefix) \<and>
         \<not> (verb = ''POST'' \<and> ''/api/auth/impersonation'' \<in> set paths))"

lemma denial_none_iff:
  "impersonationDenial (hr_method rq) (hr_url rq) (ro_url (hr_route rq)) (ro_sideEffectingGet (hr_route rq)) = None
     \<Longrightarrow> may_pass_in_view rq"
  by (auto simp: impersonationDenial_def may_pass_in_view_def Let_def list_ex_iff list_all_iff split: if_splits)

text \<open>What must hold of the people and the row, in the states the request saw, for it to run as the viewed person.\<close>

definition view_authorized :: "access_env \<Rightarrow> view_request \<Rightarrow> access_run \<Rightarrow> view_context \<Rightarrow> bool" where
  "view_authorized env vr r ctx \<longleftrightarrow>
     (\<exists>payload admin row actor subject.
        vr_jwt vr = Some payload \<and> read_session USER_SESSION_TOKEN_TYPES payload = Some admin \<and>
        isCurrentUserSession USER_SESSION_TOKEN_TYPES (ax_users (seen env r 0)) payload \<and> ss_role admin = Some ''ADMIN'' \<and>
        row \<in> set (ax_views (seen env r 1)) \<and> iv_actorUserId row = ss_id admin \<and>
        Some (iv_organizationId row) = ss_organizationId admin \<and> open_view (ae_now env (Suc (fst r))) row \<and>
        subject \<in> set (ax_users (seen env r 2)) \<and> u_id subject = iv_subjectUserId row \<and>
        u_organizationId subject = ss_organizationId admin \<and> u_isActive subject \<and> u_role subject \<in> set IMPERSONATABLE_ROLES \<and>
        actor \<in> set (ax_users (seen env r 3)) \<and> u_id actor = ss_id admin \<and> u_role actor = ''ADMIN'' \<and> u_isActive actor \<and>
        vc_actorUserId ctx = ss_id admin \<and> vc_sessionId ctx = iv_id row \<and> sc_id (vc_user ctx) = u_id subject \<and>
        sc_role (vc_user ctx) = u_role subject \<and> sc_organizationId (vc_user ctx) = ss_organizationId admin)"

definition hook_safe :: "access_env \<Rightarrow> view_request \<Rightarrow> access_run \<Rightarrow> hook_outcome \<Rightarrow> bool" where
  "hook_safe env vr r outcome =
     (case outcome of
        AsSubject ctx \<Rightarrow> view_authorized env vr r ctx \<and> may_pass_in_view (vr_http vr)
      | AsAdmin admin ended \<Rightarrow>
          mayProceedAfterViewEnded (hr_method (vr_http vr)) (hr_url (vr_http vr)) (route_url vr)
      | Untouched \<Rightarrow> \<not> given (vr_cookie vr) \<or> \<not> starts_with ''/api/'' (normalizedPath (requestPath (vr_http vr)))
      | _ \<Rightarrow> True)"

lemma member_queryD:
  "member_query uid org db = Some u \<Longrightarrow> u \<in> set (ax_users db) \<and> u_id u = uid \<and> u_organizationId u = Some org"
  by (auto simp: member_query_def dest: find_row_SomeD)

lemma resolve_people_active:
  assumes "resolve_people env row r = (Some (VActive ctx), r')"
  shows "\<exists>subject actor contact. subject \<in> set (ax_users (seen env r 0)) \<and> u_id subject = iv_subjectUserId row \<and>
    u_organizationId subject = Some (iv_organizationId row) \<and> u_isActive subject \<and> u_role subject \<in> set IMPERSONATABLE_ROLES \<and>
    actor \<in> set (ax_users (seen env r 1)) \<and> u_id actor = iv_actorUserId row \<and> u_role actor = ''ADMIN'' \<and> u_isActive actor \<and>
    ctx = view_context_of row actor subject contact"
proof -
  obtain subject r1 where s: "access_statement env (read_db (member_query (iv_subjectUserId row) (iv_organizationId row))) r = (Some subject, r1)"
    using assms by (auto simp: resolve_people_def split: prod.splits option.splits)
  obtain actor r2 where a: "access_statement env (read_db (member_query (iv_actorUserId row) (iv_organizationId row))) r1 = (Some actor, r2)"
    using assms s by (auto simp: resolve_people_def split: prod.splits option.splits)
  note ss = read_statement [OF s] and aa = read_statement [OF a]
  obtain sv av where p: "subject = Some sv" "actor = Some av"
    using assms s a by (cases subject; cases actor) (auto simp: resolve_people_def split: prod.splits option.splits)
  have "\<exists>contact. ctx = view_context_of row av sv contact" and r: "u_role av = ''ADMIN''" "u_isActive av" "u_isActive sv"
      "u_role sv \<in> set IMPERSONATABLE_ROLES"
    using assms s a p by (auto simp: resolve_people_def split: prod.splits option.splits if_splits)
  moreover have "sv \<in> set (ax_users (seen env r 0))" "u_id sv = iv_subjectUserId row" "u_organizationId sv = Some (iv_organizationId row)"
    using ss p by (auto dest!: sym [of "Some sv"] member_queryD)
  moreover have "av \<in> set (ax_users (seen env r 1))" "u_id av = iv_actorUserId row"
    using aa p seen_next [OF ss(2), of 0] by (auto dest!: sym [of "Some av"] member_queryD)
  ultimately show ?thesis by blast
qed

lemma resolve_active:
  assumes "resolveImpersonation cr ky env cookie admin r = (Some (VActive ctx), r')"
  shows "\<exists>row r1. row \<in> set (ax_views (seen env r 0)) \<and> iv_actorUserId row = ss_id admin \<and>
    Some (iv_organizationId row) = ss_organizationId admin \<and> open_view (run_now env r) row \<and> ss_role admin = Some ''ADMIN'' \<and>
    r1 = (Suc (fst r), seen env r 0) \<and> resolve_people env row r1 = (Some (VActive ctx), r')"
proof -
  obtain claims expired where c: "verifyImpersonationToken cr ky (the cookie) (run_now env r) = Some (claims, expired)"
    and adm: "str_field claims ''act'' = Some (ss_id admin)" "str_field claims ''org'' = ss_organizationId admin"
      "ss_role admin = Some ''ADMIN''"
    using assms by (auto simp: resolveImpersonation_def Let_def split: if_splits option.splits prod.splits)
  let ?q = "\<lambda>db. find_row (\<lambda>v. Some (iv_id v) = str_field claims ''sid'' \<and> Some (iv_organizationId v) = str_field claims ''org'' \<and>
                    Some (iv_actorUserId v) = str_field claims ''act'' \<and> Some (iv_subjectUserId v) = str_field claims ''sub'')
                    (ax_views db)"
  obtain row r1 where q: "access_statement env (read_db ?q) r = (Some (Some row), r1)"
    and row: "iv_endedAt row = None" "run_now env r < iv_expiresAt row"
    and people: "resolve_people env row r1 = (Some (VActive ctx), r')"
    using assms c by (auto simp: resolveImpersonation_def Let_def split: if_splits option.splits prod.splits)
  note rd = read_statement [OF q]
  have "row \<in> set (ax_views (seen env r 0))" "Some (iv_organizationId row) = ss_organizationId admin" "iv_actorUserId row = ss_id admin"
    using find_row_SomeD [OF rd(1) [symmetric]] adm by auto
  then show ?thesis using row people rd(2) adm(3) by (auto simp: open_view_def)
qed

lemma hook_as_subject:
  assumes "impersonationHook cr ky env vr r = (AsSubject ctx, r')"
  shows "view_authorized env vr r ctx \<and> may_pass_in_view (vr_http vr)"
proof -
  obtain payload admin where adm: "vr_jwt vr = Some payload" "read_session USER_SESSION_TOKEN_TYPES payload = Some admin"
    using assms by (auto simp: impersonationHook_def split: if_splits option.splits bind_splits)
  let ?q = "\<lambda>db. isCurrentUserSession USER_SESSION_TOKEN_TYPES (ax_users db) payload"
  obtain r1 where q: "access_statement env (read_db ?q) r = (Some True, r1)" and ap: "apply_view cr ky env vr admin r1 = (AsSubject ctx, r')"
    using assms adm by (auto simp: impersonationHook_def split: if_splits option.splits prod.splits bool.splits)
  note rd = read_statement [OF q]
  obtain r2 where res: "resolveImpersonation cr ky env (vr_cookie vr) admin r1 = (Some (VActive ctx), r2)"
    and pass: "may_pass_in_view (vr_http vr)"
    using ap denial_none_iff [of "vr_http vr"]
    by (auto simp: apply_view_def after_view_ended_def route_url_def split: prod.splits option.splits view_status.splits if_splits)
  obtain row rr where row: "row \<in> set (ax_views (seen env r1 0))" "iv_actorUserId row = ss_id admin"
      "Some (iv_organizationId row) = ss_organizationId admin" "open_view (run_now env r1) row" "ss_role admin = Some ''ADMIN''"
    and rr: "rr = (Suc (fst r1), seen env r1 0)" and people: "resolve_people env row rr = (Some (VActive ctx), r2)"
    using resolve_active [OF res] by blast
  obtain subject actor contact where p: "subject \<in> set (ax_users (seen env rr 0))" "u_id subject = iv_subjectUserId row"
      "u_organizationId subject = Some (iv_organizationId row)" "u_isActive subject" "u_role subject \<in> set IMPERSONATABLE_ROLES"
      "actor \<in> set (ax_users (seen env rr 1))" "u_id actor = iv_actorUserId row" "u_role actor = ''ADMIN''" "u_isActive actor"
      "ctx = view_context_of row actor subject contact"
    using resolve_people_active [OF people] by blast
  have s: "seen env r1 0 = seen env r 1" "seen env rr 0 = seen env r 2" "seen env rr 1 = seen env r 3"
    by (simp_all only: seen_next [OF rd(2)] seen_next [OF rr] One_nat_def numeral_2_eq_2 numeral_3_eq_3)
  have "view_authorized env vr r ctx"
    unfolding view_authorized_def using adm rd row p s
    by (intro exI [of _ payload] exI [of _ admin] exI [of _ row] exI [of _ actor] exI [of _ subject])
      (auto simp: view_context_of_def subjectClaims_def run_now_def)
  with pass show ?thesis by blast
qed

lemma apply_view_outcome:
  assumes "apply_view cr ky env vr admin r = (outcome, r')"
  shows "outcome \<noteq> Untouched \<and>
    (\<forall>a e. outcome = AsAdmin a e \<longrightarrow> mayProceedAfterViewEnded (hr_method (vr_http vr)) (hr_url (vr_http vr)) (route_url vr))"
proof -
  obtain st r1 where "resolveImpersonation cr ky env (vr_cookie vr) admin r = (st, r1)" by (metis prod.exhaust)
  then show ?thesis using assms
    by (cases st) (auto simp: apply_view_def after_view_ended_def split: view_status.splits option.splits if_splits)
qed

lemma hook_safe_holds:
  assumes "impersonationHook cr ky env vr r = (outcome, r')"
  shows "hook_safe env vr r outcome"
proof (cases "\<exists>ctx. outcome = AsSubject ctx")
  case True
  then obtain ctx where "outcome = AsSubject ctx" by blast
  then show ?thesis using assms hook_as_subject [of cr ky env vr r ctx r'] by (simp add: hook_safe_def)
next
  case False
  then show ?thesis using assms
    by (auto simp: hook_safe_def impersonationHook_def split: if_splits option.splits prod.splits bool.splits hook_outcome.splits
        dest: apply_view_outcome)
qed

text \<open>C6: Whatever other requests do meanwhile and whichever statements fail: a request that carries a view cookie runs as
  the viewed person only if, in the states it read, the administrator's own session was current, the view was the
  administrator's, open and unexpired, and both people were active with the right roles in the one organization, and
  only for a read of an area that is not blocked or for ending the view; once the view is over it runs as the
  administrator only to ask for the view's status, stop it or sign out.\<close>

theorem impersonation_hook_safe:
  assumes "impersonationHook cr ky env vr r = (outcome, r')"
  shows "hook_safe env vr r outcome"
  using assms by (rule hook_safe_holds)

subsection \<open>Views as a state machine\<close>

definition allowed_pair :: "account \<Rightarrow> account \<Rightarrow> bool" where
  "allowed_pair actor subject \<longleftrightarrow> u_id subject \<noteq> u_id actor \<and> u_role subject \<in> set IMPERSONATABLE_ROLES"

text \<open>Closing a view, and everything that leaves the views alone.\<close>

inductive close_step :: "access_db \<Rightarrow> access_db \<Rightarrow> bool" where
  ended: "(\<And>v. v \<in> set (ax_views db) \<Longrightarrow> iv_id v = vid \<Longrightarrow> endedAt \<le> iv_expiresAt v) \<Longrightarrow>
    close_step db (snd (end_view_update org vid endedAt reason endedBy db))"
| edited: "ax_views db' = ax_views db \<Longrightarrow> close_step db db'"

inductive view_step :: "access_db \<Rightarrow> access_db \<Rightarrow> bool" where
  closed: "close_step db db' \<Longrightarrow> view_step db db'"
| started: "allowed_pair actor subject \<Longrightarrow> org \<noteq> [] \<Longrightarrow>
    view_step db (snd (start_transaction env request org actor subject reason newId nowMs db))"

definition view_row_ok :: "view \<Rightarrow> bool" where
  "view_row_ok v \<longleftrightarrow>
     (\<forall>t. iv_endedAt v = Some t \<longrightarrow> t \<le> iv_expiresAt v) \<and> iv_expiresAt v = iv_startedAt v + 1800000 \<and>
     iv_subjectUserId v \<noteq> iv_actorUserId v \<and> iv_subjectRole v \<in> set IMPERSONATABLE_ROLES"

definition view_inv :: "access_db \<Rightarrow> bool" where
  "view_inv db \<longleftrightarrow>
     distinct (map iv_id (ax_views db)) \<and> (\<forall>v \<in> set (ax_views db). view_row_ok v) \<and>
     (\<forall>v \<in> set (ax_views db). \<forall>w \<in> set (ax_views db).
        iv_endedAt v = None \<longrightarrow> iv_endedAt w = None \<longrightarrow> iv_organizationId v = iv_organizationId w \<longrightarrow>
        iv_actorUserId v = iv_actorUserId w \<longrightarrow> v = w)"

text \<open>What the views of a later state are to those of an earlier one: a closed view is kept as it is.\<close>

definition views_kept :: "access_db \<Rightarrow> access_db \<Rightarrow> bool" where
  "views_kept db db' \<longleftrightarrow>
     (\<forall>v \<in> set (ax_views db). \<exists>v' \<in> set (ax_views db'). iv_id v' = iv_id v \<and> iv_expiresAt v' = iv_expiresAt v \<and>
        (iv_endedAt v \<noteq> None \<longrightarrow> v' = v))"

definition mark_ended :: "timestamp \<Rightarrow> string \<Rightarrow> string option \<Rightarrow> view \<Rightarrow> view" where
  "mark_ended endedAt reason endedBy v = v\<lparr>iv_endedAt := Some endedAt, iv_endReason := Some reason, iv_endedById := endedBy\<rparr>"

interpretation view_end: keyed_update iv_id "mark_ended endedAt reason endedBy"
  for endedAt reason endedBy
  by unfold_locales (simp add: mark_ended_def)

lemma end_view_views:
  "ax_views (snd (end_view_update org vid endedAt reason endedBy db)) =
     update_rows (\<lambda>v. iv_id v = vid \<and> iv_organizationId v = org \<and> iv_endedAt v = None) (mark_ended endedAt reason endedBy) (ax_views db)"
  by (simp add: end_view_update_def Let_def mark_ended_def [abs_def])

lemma end_view_inv:
  assumes inv: "view_inv db" and t: "\<And>v. v \<in> set (ax_views db) \<Longrightarrow> iv_id v = vid \<Longrightarrow> endedAt \<le> iv_expiresAt v"
  shows "view_inv (snd (end_view_update org vid endedAt reason endedBy db))"
    and "views_kept db (snd (end_view_update org vid endedAt reason endedBy db))"
proof -
  let ?db = "snd (end_view_update org vid endedAt reason endedBy db)"
  have "distinct (map iv_id (ax_views ?db))"
    unfolding end_view_views by (intro view_end.distinct_update) (use inv in \<open>simp add: view_inv_def\<close>)
  moreover have "view_row_ok v" if "v \<in> set (ax_views ?db)" for v
    using that inv t unfolding end_view_views
    by (auto simp: set_update_rows view_inv_def view_row_ok_def mark_ended_def)
  moreover have "v = w" if "v \<in> set (ax_views ?db)" "w \<in> set (ax_views ?db)" "iv_endedAt v = None" "iv_endedAt w = None"
      "iv_organizationId v = iv_organizationId w" "iv_actorUserId v = iv_actorUserId w" for v w
    using that inv unfolding end_view_views by (auto simp: set_update_rows view_inv_def mark_ended_def)
  ultimately show "view_inv ?db" unfolding view_inv_def by blast
  let ?P = "\<lambda>v. iv_id v = vid \<and> iv_organizationId v = org \<and> iv_endedAt v = None"
  have "(if ?P v then mark_ended endedAt reason endedBy v else v) \<in> set (ax_views ?db)" if "v \<in> set (ax_views db)" for v
    using that unfolding end_view_views by (simp add: update_rows_def)
  then show "views_kept db ?db"
    unfolding views_kept_def
  proof (intro ballI)
    fix v assume "v \<in> set (ax_views db)"
    then have "(if ?P v then mark_ended endedAt reason endedBy v else v) \<in> set (ax_views ?db)"
      using \<open>\<And>v. v \<in> set (ax_views db) \<Longrightarrow> (if ?P v then mark_ended endedAt reason endedBy v else v) \<in> set (ax_views ?db)\<close> by blast
    then show "\<exists>v' \<in> set (ax_views ?db). iv_id v' = iv_id v \<and> iv_expiresAt v' = iv_expiresAt v \<and> (iv_endedAt v \<noteq> None \<longrightarrow> v' = v)"
      by (rule bexI [rotated]) (auto simp: mark_ended_def)
  qed
qed

lemma views_kept_refl: "views_kept db db"
  by (auto simp: views_kept_def)

lemma views_kept_trans: "views_kept a b \<Longrightarrow> views_kept b c \<Longrightarrow> views_kept a c"
  unfolding views_kept_def by (metis (no_types, opaque_lifting))

lemma close_step_keeps:
  assumes "close_step a b" and "view_inv a"
  shows "view_inv b \<and> views_kept a b"
  using assms
proof cases
  case (ended vid endedAt org reason endedBy)
  then show ?thesis using end_view_inv [OF assms(2)] by blast
next
  case edited
  then show ?thesis using assms(2) by (auto simp: view_inv_def views_kept_def)
qed

text \<open>Rows a request has read: with the ids unique, the rows of that id have the same expiry in every later state.\<close>

definition snapshot_ok :: "view list \<Rightarrow> access_db \<Rightarrow> bool" where
  "snapshot_ok rows db \<longleftrightarrow>
     (\<forall>row \<in> set rows. \<exists>v \<in> set (ax_views db). iv_id v = iv_id row \<and> iv_expiresAt v = iv_expiresAt row)"

lemma snapshot_kept: "snapshot_ok rows a \<Longrightarrow> views_kept a b \<Longrightarrow> snapshot_ok rows b"
  unfolding snapshot_ok_def views_kept_def by metis

lemma snapshot_expiry:
  assumes "snapshot_ok rows db" and "view_inv db" and "row \<in> set rows" and "v \<in> set (ax_views db)" and "iv_id v = iv_id row"
  shows "iv_expiresAt v = iv_expiresAt row"
proof -
  obtain w where "w \<in> set (ax_views db)" "iv_id w = iv_id row" "iv_expiresAt w = iv_expiresAt row"
    using assms(1,3) unfolding snapshot_ok_def by blast
  then show ?thesis using assms(2,4,5) unfolding view_inv_def by (metis (no_types, lifting) distinct_map inj_on_eq_iff)
qed

text \<open>The other requests only take steps of a relation.\<close>

definition others_follow :: "(access_db \<Rightarrow> access_db \<Rightarrow> bool) \<Rightarrow> access_env \<Rightarrow> bool" where
  "others_follow step env \<longleftrightarrow> (\<forall>k db. step\<^sup>*\<^sup>* db (ae_others env k db))"

text \<open>
  A relation between states that contains the closing steps and keeps the invariant: ending views
  under its interference is a sequence of its steps.
\<close>

locale view_steps =
  fixes step :: "access_db \<Rightarrow> access_db \<Rightarrow> bool"
  assumes closing: "close_step a b \<Longrightarrow> step a b"
    and keeps: "step a b \<Longrightarrow> view_inv a \<Longrightarrow> view_inv b \<and> views_kept a b"
begin

lemma steps_keep: "step\<^sup>*\<^sup>* a b \<Longrightarrow> view_inv a \<Longrightarrow> view_inv b \<and> views_kept a b"
  by (induction rule: rtranclp_induct) (auto simp: views_kept_refl dest: keeps intro: views_kept_trans)

lemma stmt_steps:
  assumes "others_follow step env" and "access_statement env f r = (x, r1)" and "\<And>db. step\<^sup>*\<^sup>* (snd r) db \<Longrightarrow> step db (snd (f db))"
  shows "step\<^sup>*\<^sup>* (snd r) (snd r1)"
proof -
  define db where "db = ae_others env (fst r) (snd r)"
  have s: "step\<^sup>*\<^sup>* (snd r) db" using assms(1) by (simp add: others_follow_def db_def)
  then have "step\<^sup>*\<^sup>* (snd r) (snd (f db))" using assms(3) [OF s] by simp
  then show ?thesis using assms(2) s
    by (cases "f db") (auto simp: access_statement_def db_def [symmetric] Let_def split: if_splits)
qed

lemma read_steps:
  assumes "others_follow step env" and "access_statement env (read_db q) r = (x, r1)"
  shows "step\<^sup>*\<^sup>* (snd r) (snd r1)"
  using assms by (rule stmt_steps) (simp add: read_db_def closing close_step.edited)

lemma audit_steps:
  assumes "others_follow step env" and "access_statement env (audit_write ext t e) r = (x, r1)"
  shows "step\<^sup>*\<^sup>* (snd r) (snd r1)"
  using assms by (rule stmt_steps) (simp add: audit_write_def closing close_step.edited)

lemma end_update_steps:
  assumes env: "others_follow step env" and inv: "view_inv (snd r)" and snap: "snapshot_ok rows (snd r)" and row: "row \<in> set rows"
    and st: "access_statement env (end_view_update org (iv_id row) (min t (iv_expiresAt row)) reason endedBy) r = (x, r1)"
  shows "step\<^sup>*\<^sup>* (snd r) (snd r1)"
  using env st
proof (rule stmt_steps)
  fix db assume "step\<^sup>*\<^sup>* (snd r) db"
  then have k: "view_inv db" "snapshot_ok rows db" using steps_keep [OF _ inv] snapshot_kept [OF snap] by blast+
  show "step db (snd (end_view_update org (iv_id row) (min t (iv_expiresAt row)) reason endedBy db))"
    using snapshot_expiry [OF k(2,1) row] by (intro closing close_step.ended) simp
qed

lemma end_rows_steps:
  assumes "others_follow step env" and "view_inv (snd r)" and "snapshot_ok rows (snd r)" and "end_rows env opts org rows n r = (x, r1)"
  shows "step\<^sup>*\<^sup>* (snd r) (snd r1)"
  using assms
proof (induction rows arbitrary: n r)
  case (Cons row rows)
  let ?upd = "end_view_update org (iv_id row) (min (eo_nowMs opts) (iv_expiresAt row)) (effective_reason opts row)
                (if effective_reason opts row = ''expired'' then None else eo_endedById opts)"
  obtain c r2 where s: "access_statement env ?upd r = (c, r2)" by (metis prod.exhaust)
  have st: "step\<^sup>*\<^sup>* (snd r) (snd r2)"
    by (rule end_update_steps [OF Cons.prems(1-3) _ s]) simp
  note k = steps_keep [OF st Cons.prems(2)]
  have snap: "snapshot_ok rows (snd r2)"
    using Cons.prems(3) k snapshot_kept by (auto simp: snapshot_ok_def)
  obtain y r3 where a: "access_statement env (audit_write (ae_ext env) (run_now env r2)
      (ended_event opts org row (min (eo_nowMs opts) (iv_expiresAt row)))) r2 = (y, r3)" by (metis prod.exhaust)
  note st3 = audit_steps [OF Cons.prems(1) a]
  note k3 = steps_keep [OF st3]
  have later: "step\<^sup>*\<^sup>* (snd r2) (snd r1)" if "end_rows env opts org rows m r2 = (x, r1)" for m
    using Cons.IH [OF Cons.prems(1) _ snap that] k by blast
  have last: "step\<^sup>*\<^sup>* (snd r3) (snd r1)" if "end_rows env opts org rows m r3 = (x, r1)" for m
    using Cons.IH [OF Cons.prems(1) _ _ that] k k3 snapshot_kept [OF snap] by blast
  have "r1 = r2 \<or> (\<exists>m. end_rows env opts org rows m r2 = (x, r1)) \<or> (\<exists>m. end_rows env opts org rows m r3 = (x, r1))"
    using Cons.prems(4) s a by (auto simp: Let_def split: option.splits if_splits)
  then have "step\<^sup>*\<^sup>* (snd r2) (snd r1)"
    using later last rtranclp_trans [OF st3] by blast
  then show ?case using rtranclp_trans [OF st] by blast
qed simp

lemma end_sessions_steps:
  assumes env: "others_follow step env" and inv: "view_inv (snd r)" and e: "endImpersonationSessions env opts r = (n, r')"
  shows "step\<^sup>*\<^sup>* (snd r) (snd r')"
proof (cases "\<not> given (eo_organizationId opts) \<or> eo_reason opts \<notin> set IMPERSONATION_END_REASONS")
  case False
  let ?q = "\<lambda>db. filter (\<lambda>v. eo_where opts v \<and> iv_organizationId v = the (eo_organizationId opts) \<and> iv_endedAt v = None) (ax_views db)"
  obtain x r1 where q: "access_statement env (read_db ?q) r = (x, r1)" by (cases "access_statement env (read_db ?q) r") simp
  note st = read_steps [OF env q]
  show ?thesis
  proof (cases x)
    case None
    then show ?thesis using e q False st by (simp add: endImpersonationSessions_def Let_def)
  next
    case (Some rows)
    have "rows = ?q (snd r1)" using q Some by (auto simp: access_statement_def read_db_def Let_def split: if_splits)
    then have snap: "snapshot_ok rows (snd r1)" by (auto simp: snapshot_ok_def)
    obtain m r2 where "end_rows env opts (the (eo_organizationId opts)) rows 0 r1 = (m, r2)" by (metis prod.exhaust)
    moreover from this have "r' = r2" using e q False Some
      by (auto simp: endImpersonationSessions_def Let_def split: option.splits)
    ultimately show ?thesis
      using end_rows_steps [OF env _ snap] steps_keep [OF st inv] st by (meson rtranclp_trans)
  qed
qed (use e in \<open>auto simp: endImpersonationSessions_def\<close>)

end

interpretation close: view_steps close_step
  by unfold_locales (use close_step_keeps in auto)

subsection \<open>Starting a view closes the administrator's others\<close>

text \<open>No view that is open afterwards is new: it was open, with the same contents, before.\<close>

definition no_new_open :: "access_db \<Rightarrow> access_db \<Rightarrow> bool" where
  "no_new_open db db' \<longleftrightarrow> (\<forall>v \<in> set (ax_views db'). iv_endedAt v = None \<longrightarrow> v \<in> set (ax_views db))"

lemma no_new_open_trans: "no_new_open a b \<Longrightarrow> no_new_open b c \<Longrightarrow> no_new_open a c"
  by (auto simp: no_new_open_def)

lemma close_no_new_open: "close_step a b \<Longrightarrow> no_new_open a b"
  by (induction rule: close_step.induct) (auto simp: no_new_open_def end_view_views set_update_rows mark_ended_def)

lemma closes_no_new_open: "close_step\<^sup>*\<^sup>* a b \<Longrightarrow> no_new_open a b"
  by (induction rule: rtranclp_induct) (auto simp: no_new_open_def dest: close_no_new_open [unfolded no_new_open_def])

lemma tx_statement: "access_statement (tx_env env t) f (k, db) = (Some (fst (f db)), (Suc k, snd (f db)))"
  by (simp add: access_statement_def tx_env_def split: prod.splits)

lemma tx_follows: "others_follow close_step (tx_env env t)"
  by (simp add: others_follow_def tx_env_def)

lemma end_update_closes:
  "v \<in> set (ax_views (snd (end_view_update org vid t reason endedBy db))) \<Longrightarrow> iv_id v = vid \<Longrightarrow> iv_organizationId v = org \<Longrightarrow>
   iv_endedAt v \<noteq> None"
  unfolding end_view_views by (elim in_update_rowsE) (simp_all add: mark_ended_def)

text \<open>Without interference every row of the loop is closed at its end.\<close>

lemma end_rows_closes:
  assumes "end_rows (tx_env env t) opts org rows n (k, db) = (x, r1)" and "view_inv db" and "snapshot_ok rows db"
    and "v \<in> set (ax_views (snd r1))" and "iv_id v \<in> iv_id ` set rows" and "iv_organizationId v = org"
  shows "iv_endedAt v \<noteq> None"
  using assms
proof (induction rows arbitrary: n k db)
  case (Cons row rows)
  define upd where "upd = end_view_update org (iv_id row) (min (eo_nowMs opts) (iv_expiresAt row)) (effective_reason opts row)
                (if effective_reason opts row = ''expired'' then None else eo_endedById opts)"
  define db1 where "db1 = snd (upd db)"
  define db2 where "db2 = snd (audit_write (ae_ext (tx_env env t)) (run_now (tx_env env t) (Suc k, db1))
      (ended_event opts org row (min (eo_nowMs opts) (iv_expiresAt row))) db1)"
  have views: "ax_views db2 = ax_views db1" by (simp add: db2_def audit_write_def)
  have st: "close_step db db1"
    unfolding db1_def upd_def
    using snapshot_expiry [OF Cons.prems(3,2), of row] by (intro close_step.ended) simp
  have k1: "view_inv db1" "snapshot_ok rows db1"
    using close_step_keeps [OF st Cons.prems(2)] snapshot_kept [OF Cons.prems(3)] by (auto simp: snapshot_ok_def)
  then have k2: "view_inv db2" "snapshot_ok rows db2" by (simp_all add: view_inv_def snapshot_ok_def views)
  have rest: "\<exists>m j d. end_rows (tx_env env t) opts org rows m (j, d) = (x, r1) \<and> (d = db1 \<or> d = db2)"
    using Cons.prems(1) unfolding end_rows.simps Let_def tx_statement upd_def [symmetric] db1_def [symmetric]
    by (auto simp: tx_statement db2_def split: if_splits)
  then obtain m j d where d: "end_rows (tx_env env t) opts org rows m (j, d) = (x, r1)" "d = db1 \<or> d = db2" by blast
  have dk: "view_inv d" "snapshot_ok rows d" "ax_views d = ax_views db1" using d(2) k1 k2 views by auto
  show ?case
  proof (cases "iv_id v = iv_id row")
    case True
    have "close_step\<^sup>*\<^sup>* d (snd r1)"
      using close.end_rows_steps [OF tx_follows, of "(j, d)"] dk d(1) by simp
    then have "iv_endedAt v = None \<Longrightarrow> v \<in> set (ax_views db1)"
      using closes_no_new_open [of d "snd r1"] Cons.prems(4) dk(3) by (simp add: no_new_open_def)
    then show ?thesis
      using end_update_closes True Cons.prems(6) unfolding db1_def upd_def by blast
  next
    case False
    then show ?thesis using Cons.IH [OF d(1) dk(1,2) Cons.prems(4) _ Cons.prems(6)] Cons.prems(5) by auto
  qed
qed simp

lemma superseded_in_reasons: "''superseded'' \<in> set IMPERSONATION_END_REASONS"
  by (simp add: IMPERSONATION_END_REASONS_def)

lemma supersede_closes:
  assumes inv: "view_inv db" and org: "org \<noteq> []"
    and e: "endImpersonationSessions (tx_env env t) (supersede_options (Some org) actor request t) (0, db) = (n, r1)"
  shows "close_step\<^sup>*\<^sup>* db (snd r1) \<and>
    (\<forall>v \<in> set (ax_views (snd r1)). iv_organizationId v = org \<longrightarrow> iv_actorUserId v = u_id actor \<longrightarrow> iv_endedAt v \<noteq> None)"
proof -
  let ?opts = "supersede_options (Some org) actor request t"
  define rows where "rows = filter (\<lambda>v. iv_actorUserId v = u_id actor \<and> iv_organizationId v = org \<and> iv_endedAt v = None) (ax_views db)"
  have steps: "close_step\<^sup>*\<^sup>* db (snd r1)"
    using close.end_sessions_steps [OF tx_follows, of "(0, db)"] inv e by simp
  have snap: "snapshot_ok rows db" by (auto simp: snapshot_ok_def rows_def)
  have given_org: "given (Some org)" using org by (simp add: given_def)
  obtain m where er: "end_rows (tx_env env t) ?opts org rows 0 (Suc 0, db) = (m, r1)"
  proof -
    obtain m r2 where er: "end_rows (tx_env env t) ?opts org rows 0 (Suc 0, db) = (m, r2)" by (metis prod.exhaust)
    have "r1 = r2"
      using e er given_org superseded_in_reasons
      by (auto simp: endImpersonationSessions_def supersede_options_def tx_statement read_db_def rows_def [symmetric]
          split: option.splits)
    with er that show ?thesis by blast
  qed
  have "iv_endedAt v \<noteq> None" if "v \<in> set (ax_views (snd r1))" "iv_organizationId v = org" "iv_actorUserId v = u_id actor" for v
  proof
    assume o: "iv_endedAt v = None"
    then have "v \<in> set (ax_views db)" using closes_no_new_open [OF steps] that(1) by (auto simp: no_new_open_def)
    then have "v \<in> set rows" using that o by (simp add: rows_def)
    then show False using end_rows_closes [OF er inv snap that(1) _ that(2)] o by blast
  qed
  with steps show ?thesis by blast
qed

lemma start_keeps:
  assumes inv: "view_inv db" and pair: "allowed_pair actor subject" and org: "org \<noteq> []"
    and st: "start_transaction env request org actor subject reason newId t db = (x, db')"
  shows "view_inv db' \<and> views_kept db db'"
proof (cases x)
  case None
  then show ?thesis using st inv by (auto simp: start_transaction_def Let_def views_kept_refl split: if_splits)
next
  case (Some row)
  obtain n r1 where e: "endImpersonationSessions (tx_env env t) (supersede_options (Some org) actor request t) (0, db) = (n, r1)"
    by (metis prod.exhaust)
  note s = supersede_closes [OF inv org e]
  have k: "view_inv (snd r1)" "views_kept db (snd r1)" using close.steps_keep s inv by blast+
  have row: "row = \<lparr>iv_id = newId, iv_organizationId = org, iv_actorUserId = u_id actor, iv_subjectUserId = u_id subject,
                 iv_subjectRole = u_role subject, iv_reason = reason, iv_startedAt = t,
                 iv_expiresAt = t + IMPERSONATION_TTL_SECONDS * 1000, iv_endedAt = None, iv_endReason = None, iv_endedById = None\<rparr>"
    and views: "ax_views db' = ax_views (snd r1) @ [row]" and new: "newId \<notin> iv_id ` set (ax_views (snd r1))"
    using st e Some by (auto simp: start_transaction_def Let_def split: if_splits)
  have "view_row_ok row" using pair by (simp add: row view_row_ok_def allowed_pair_def IMPERSONATION_TTL_SECONDS_def)
  then have "view_inv db'"
    using k(1) s new unfolding view_inv_def views by (auto simp: row)
  moreover have "views_kept db db'" using k(2) unfolding views_kept_def views by fastforce
  ultimately show ?thesis by blast
qed

lemma view_step_keeps:
  assumes "view_step a b" and "view_inv a"
  shows "view_inv b \<and> views_kept a b"
  using assms
proof cases
  case closed
  then show ?thesis using close_step_keeps assms(2) by blast
next
  case (started actor subject org env request reason newId nowMs)
  then show ?thesis using start_keeps [OF assms(2) started(2,3)] by (metis prod.collapse)
qed

interpretation vs: view_steps view_step
  by unfold_locales (use view_step_keeps in \<open>auto intro: view_step.closed\<close>)

subsection \<open>Every request is a sequence of these steps\<close>

lemma hook_steps:
  assumes env: "others_follow view_step env" and inv: "view_inv (snd r)" and h: "impersonationHook cr ky env vr r = (outcome, r')"
  shows "view_step\<^sup>*\<^sup>* (snd r) (snd r')"
proof -
  have people: "view_step\<^sup>*\<^sup>* (snd r0) (snd r1)" if "resolve_people env row r0 = (st, r1)" for row r0 st r1
    using that by (auto simp: resolve_people_def split: prod.splits option.splits if_splits dest!: vs.read_steps [OF env])
  have resolve: "view_step\<^sup>*\<^sup>* (snd r0) (snd r1)" if "resolveImpersonation cr ky env c admin r0 = (st, r1)" for c admin r0 st r1
    using that by (auto simp: resolveImpersonation_def Let_def split: prod.splits option.splits if_splits
        dest!: vs.read_steps [OF env] people intro: rtranclp_trans)
  have apply_v: "view_step\<^sup>*\<^sup>* (snd r0) (snd r1)" if "apply_view cr ky env vr admin r0 = (out, r1)" and i: "view_inv (snd r0)"
    for admin r0 out r1
  proof -
    obtain st r2 where res: "resolveImpersonation cr ky env (vr_cookie vr) admin r0 = (st, r2)" by (metis prod.exhaust)
    note s = resolve [OF res]
    have i2: "view_inv (snd r2)" using vs.steps_keep [OF s i] by blast
    have "view_step\<^sup>*\<^sup>* (snd r2) (snd (snd (endImpersonationSessions env opts r2)))" for opts
      using vs.end_sessions_steps [OF env i2, of opts] by (metis prod.collapse)
    then have "view_step\<^sup>*\<^sup>* (snd r2) (snd r1)"
      using that(1) res by (cases st) (auto simp: apply_view_def split: view_status.splits option.splits)
    then show ?thesis using s by (rule rtranclp_trans [rotated])
  qed
  let ?q = "\<lambda>db. isCurrentUserSession USER_SESSION_TOKEN_TYPES (ax_users db) (the (vr_jwt vr))"
  obtain x r1 where q: "access_statement env (read_db ?q) r = (x, r1)" by (cases "access_statement env (read_db ?q) r") simp
  note s = vs.read_steps [OF env q]
  have i1: "view_inv (snd r1)" using vs.steps_keep [OF s inv] by blast
  have "r' = r \<or> r' = r1 \<or> (\<exists>admin. apply_view cr ky env vr admin r1 = (outcome, r'))"
    using h q by (auto simp: impersonationHook_def split: if_splits option.splits bool.splits)
  then show ?thesis using s apply_v [OF _ i1] rtranclp_trans [OF s] by blast
qed

lemma open_new_view_steps:
  assumes env: "others_follow view_step env" and inv: "view_inv (snd r)" and pair: "allowed_pair actor subject"
    and org: "the (ss_organizationId s) \<noteq> []"
    and o: "open_new_view ky env request s actor subject reason newId revoke_ok r = (reply, r')"
  shows "view_step\<^sup>*\<^sup>* (snd r) (snd r')"
proof -
  define tx where "tx = start_transaction env request (the (ss_organizationId s)) actor subject reason newId (run_now env r)"
  obtain x r1 where t: "access_statement env tx r = (x, r1)" by (metis prod.exhaust)
  have s: "view_step\<^sup>*\<^sup>* (snd r) (snd r1)"
    using env t by (rule vs.stmt_steps) (simp add: tx_def view_step.started pair org)
  have i1: "view_inv (snd r1)" using vs.steps_keep [OF s inv] by blast
  have "view_step\<^sup>*\<^sup>* (snd r1) (snd (snd (endImpersonationSessions env opts r1)))" for opts
    using vs.end_sessions_steps [OF env i1, of opts] by (metis prod.collapse)
  then have "view_step\<^sup>*\<^sup>* (snd r1) (snd r')"
    using o t unfolding open_new_view_def Let_def tx_def [symmetric]
    by (auto split: option.splits if_splits sum.splits)
  then show ?thesis using s by (rule rtranclp_trans [rotated])
qed

lemma start_problem_pair:
  "impersonationStartProblem operators (Some a) (Some s) = None \<Longrightarrow> allowed_pair a s"
  by (auto simp: impersonationStartProblem_def allowed_pair_def split: if_splits)

lemma start_problem_some:
  "impersonationStartProblem operators actor subject = None \<Longrightarrow> actor \<noteq> None \<and> subject \<noteq> None"
  by (auto simp: impersonationStartProblem_def split: option.splits if_splits)

lemma start_view_steps:
  assumes env: "others_follow view_step env" and inv: "view_inv (snd r)" and org: "the (ss_organizationId s) \<noteq> []"
    and st: "start_view ky env operators request s userId reason newId revoke_ok r = (reply, r')"
  shows "view_step\<^sup>*\<^sup>* (snd r) (snd r')"
proof -
  let ?org = "the (ss_organizationId s)"
  obtain x r1 where a: "access_statement env (read_db (member_query (ss_id s) ?org)) r = (x, r1)" by (metis prod.exhaust)
  obtain y r2 where b: "access_statement env (read_db (member_query userId ?org)) r1 = (y, r2)" by (metis prod.exhaust)
  have s2: "view_step\<^sup>*\<^sup>* (snd r) (snd r2)" using vs.read_steps [OF env a] vs.read_steps [OF env b] by (rule rtranclp_trans)
  have i2: "view_inv (snd r2)" using vs.steps_keep [OF s2 inv] by blast
  have opened: "view_step\<^sup>*\<^sup>* (snd r0) (snd r')"
    if "open_new_view ky env request s actor subject reason newId revoke_ok r0 = (reply, r')"
      "impersonationStartProblem operators (Some actor) (Some subject) = None" "view_inv (snd r0)" for actor subject r0
    using open_new_view_steps [OF env that(3) start_problem_pair [OF that(2)] org that(1)] .
  have "r' = r1 \<or> view_step\<^sup>*\<^sup>* (snd r2) (snd r')"
  proof (cases "x = None \<or> y = None \<or> impersonationStartProblem operators (the x) (the y) \<noteq> None")
    case True
    then show ?thesis using st a b by (auto simp: start_view_def Let_def split: option.splits)
  next
    case False
    then obtain actor subject where xy: "x = Some (Some actor)" "y = Some (Some subject)"
      "impersonationStartProblem operators (Some actor) (Some subject) = None"
      using start_problem_some by (metis not_None_eq option.sel)
    obtain z r3 where c: "access_statement env (read_db (findPortalContact subject)) r2 = (z, r3)" by (metis prod.exhaust)
    note s3 = vs.read_steps [OF env c]
    have "r' = r3 \<or> open_new_view ky env request s actor subject reason newId revoke_ok r3 = (reply, r') \<or>
        open_new_view ky env request s actor subject reason newId revoke_ok r2 = (reply, r')"
      using st a b c xy by (auto simp: start_view_def Let_def split: option.splits if_splits)
    then show ?thesis using s3 opened [OF _ xy(3) i2] opened [OF _ xy(3)] vs.steps_keep [OF s3 i2]
      by (meson rtranclp_trans)
  qed
  then show ?thesis using s2 vs.read_steps [OF env a] by (meson rtranclp_trans)
qed

text \<open>The requests that touch views, as the routes and the hook serve them.\<close>

datatype access_request =
    HookRequest view_request
  | StartRequest audit_request session string string string bool
  | StopRequest audit_request "view_context option"
  | RevokeRequest audit_request string string

fun serve :: "crypto \<Rightarrow> token_keys \<Rightarrow> access_env \<Rightarrow> string list \<Rightarrow> access_request \<Rightarrow> access_run \<Rightarrow> access_run" where
  "serve cr ky env operators (HookRequest vr) r = snd (impersonationHook cr ky env vr r)"
| "serve cr ky env operators (StartRequest request s userId reason newId revoke_ok) r =
     snd (start_view ky env operators request s userId reason newId revoke_ok r)"
| "serve cr ky env operators (StopRequest request ctx) r = snd (stop_view env request ctx r)"
| "serve cr ky env operators (RevokeRequest request userId reason) r = snd (revokeImpersonationsForUser env request userId reason r)"

fun request_ok :: "access_request \<Rightarrow> bool" where
  "request_ok (StartRequest request s userId reason newId revoke_ok) = given (ss_organizationId s)"
| "request_ok _ = True"

lemma end_steps_snd:
  assumes "others_follow view_step env" and "view_inv (snd r)"
  shows "view_step\<^sup>*\<^sup>* (snd r) (snd (snd (endImpersonationSessions env opts r)))"
  using vs.end_sessions_steps [OF assms, of opts] by (metis prod.collapse)

lemma serve_steps:
  assumes env: "others_follow view_step env" and inv: "view_inv (snd r)" and ok: "request_ok req"
  shows "view_step\<^sup>*\<^sup>* (snd r) (snd (serve cr ky env operators req r))"
proof (cases req)
  case (HookRequest vr)
  then show ?thesis using hook_steps [OF env inv] by (metis prod.collapse serve.simps(1))
next
  case (StartRequest request s userId reason newId revoke_ok)
  moreover from this ok have "the (ss_organizationId s) \<noteq> []" by (auto simp: given_def split: option.splits)
  ultimately show ?thesis using start_view_steps [OF env inv] by (metis prod.collapse serve.simps(2))
next
  case (StopRequest request ctx)
  then show ?thesis using end_steps_snd [OF env inv] by (auto simp: stop_view_def split: option.splits)
next
  case (RevokeRequest request userId reason)
  then show ?thesis using end_steps_snd [OF env inv] by (simp add: revokeImpersonationsForUser_def)
qed

text \<open>C18: Whatever the requests that start, stop, expire and revoke views do at the same time, the views stay consistent:
  ids are unique, an administrator has at most one open view per organization, nobody views themselves or another
  administrator, a view lasts exactly thirty minutes and ends no later than its expiry, and a view once ended is never
  reopened or changed.\<close>

theorem views_stay_consistent:
  assumes "others_follow view_step env" and "view_inv (snd r)" and "request_ok req"
  shows "view_inv (snd (serve cr ky env operators req r)) \<and> views_kept (snd r) (snd (serve cr ky env operators req r))"
  using vs.steps_keep [OF serve_steps [OF assms] assms(2)] by simp

subsection \<open>The view cookie opens\<close>

lemma impersonation_roundtrip:
  assumes sign: "signImpersonationToken ky sid actor sub expiresAt t0 = Inr token" and len: "length token \<le> 2048"
    and ids: "sid \<noteq> []" "ss_id actor \<noteq> []" "sub \<noteq> []" "given (ss_organizationId actor)"
    and safe: "\<bar>ss_sessionVersion actor\<bar> < 2 ^ 53" "\<bar>now_seconds t0\<bar> < 2 ^ 53" "\<bar>now_seconds expiresAt\<bar> < 2 ^ 53"
  shows "verifyImpersonationToken cr ky token t =
    Some (JObj (members_json (impersonation_claims sid actor sub expiresAt t0)), now_seconds expiresAt \<le> now_seconds t)"
proof -
  define payload where "payload = base64UrlJson (impersonation_claims sid actor sub expiresAt t0)"
  obtain signature where sig: "impersonation_hmac ky (JWT_HEADER @ ''.'' @ payload) = Inr signature"
    and token: "token = JWT_HEADER @ CHR ''.'' # payload @ CHR ''.'' # signature"
    using sign by (auto simp: signImpersonationToken_def payload_def Let_def split: sum.splits)
  obtain org where org: "ss_organizationId actor = Some org" "org \<noteq> []" using ids(4) by (auto simp: given_def split: option.splits)
  have "js_split CHR ''.'' token = [JWT_HEADER, payload, signature]"
    unfolding token using no_dot_hmac sig [unfolded impersonation_hmac_def]
    by (intro split_three) (auto simp: no_dot_header payload_def no_dot_json)
  moreover have "read_json payload = Some (JObj (members_json (impersonation_claims sid actor sub expiresAt t0)))"
    unfolding payload_def using safe
    by (intro read_json_signed) (auto simp: impersonation_claims_def claim_of_def split: option.splits)
  moreover have "str_field (JObj (members_json (impersonation_claims sid actor sub expiresAt t0))) ''typ'' = Some ''impersonation''"
    "list_all (\<lambda>field. given (str_field (JObj (members_json (impersonation_claims sid actor sub expiresAt t0))) field))
       [''sid'', ''act'', ''sub'', ''org'']"
    "int_field (JObj (members_json (impersonation_claims sid actor sub expiresAt t0))) ''exp'' = Some (now_seconds expiresAt)"
    "int_field (JObj (members_json (impersonation_claims sid actor sub expiresAt t0))) ''asv'' = Some (ss_sessionVersion actor)"
    using ids org
    by (simp_all add: str_field_def int_field_def jfield_def members_json_def impersonation_claims_def claim_of_def given_def)
  ultimately show ?thesis using len sig by (simp add: verifyImpersonationToken_def)
qed

subsection \<open>Witnesses\<close>

definition sample_account :: "string \<Rightarrow> string \<Rightarrow> account" where
  "sample_account uid role =
     \<lparr>u_id = uid, u_role = role, u_organizationId = Some ''org1'', u_isActive = True, u_sessionVersion = 1, u_password = [],
      u_mfaEnabled = False, u_mfaSecret = None, u_mfaEnabledAt = None, u_mfaLastUsedStep = None, u_mfaRecoveryCodes = [],
      u_mfaFailedAttempts = 0, u_mfaLockedUntil = None, u_email = [], u_name = uid, u_clientId = None,
      u_resetToken = None, u_resetTokenExpiresAt = None\<rparr>"

definition sample_row :: view where
  "sample_row = \<lparr>iv_id = ''v1'', iv_organizationId = ''org1'', iv_actorUserId = ''u1'', iv_subjectUserId = ''u2'',
     iv_subjectRole = ''TEAM'', iv_reason = ''support request'', iv_startedAt = 5000, iv_expiresAt = 1805000, iv_endedAt = None,
     iv_endReason = None, iv_endedById = None\<rparr>"

definition sample_access :: access_db where
  "sample_access = \<lparr>ax_users = [sample_account ''u1'' ''ADMIN'', sample_account ''u2'' ''TEAM''], ax_contacts = [],
     ax_views = [sample_row], ax_audit = sample_audit_db\<rparr>"

definition quiet_env :: access_env where
  "quiet_env = \<lparr>ae_now = (\<lambda>_. 6000), ae_others = (\<lambda>_ db. db), ae_db_ok = (\<lambda>_. True), ae_ext = sample_audit_ext\<rparr>"

definition sample_cookie :: string where
  "sample_cookie = (case signImpersonationToken sample_keys ''v1'' sample_session ''u2'' 1805000 5000 of Inr t \<Rightarrow> t | Inl _ \<Rightarrow> [])"

definition sample_http :: "string \<Rightarrow> string \<Rightarrow> http_request" where
  "sample_http m url = \<lparr>hr_method = m, hr_url = url,
     hr_route = \<lparr>ro_url = Some url, ro_public = False, ro_actsForStaff = False, ro_sideEffectingGet = False\<rparr>\<rparr>"

definition sample_view_request :: view_request where
  "sample_view_request = \<lparr>vr_http = sample_http ''GET'' ''/api/projects'', vr_cookie = Some sample_cookie,
     vr_jwt = Some sample_payload, vr_id = None, vr_ip = None\<rparr>"

definition sample_context :: view_context where
  "sample_context = view_context_of sample_row (sample_account ''u1'' ''ADMIN'') (sample_account ''u2'' ''TEAM'') None"

lemma sample_cookie_signed: "signImpersonationToken sample_keys ''v1'' sample_session ''u2'' 1805000 5000 = Inr sample_cookie"
  by (simp add: sample_cookie_def signImpersonationToken_def impersonation_hmac_def token_hmac_def sample_keys_def given_def Let_def)

lemma sample_view_claims:
  "impersonation_claims ''v1'' sample_session ''u2'' 1805000 5000 =
     [(''typ'', ClaimStr ''impersonation''), (''sid'', ClaimStr ''v1''), (''act'', ClaimStr ''u1''), (''sub'', ClaimStr ''u2''),
      (''org'', ClaimStr ''org1''), (''asv'', ClaimInt 1), (''abind'', ClaimStr ''iat:5''), (''iat'', ClaimInt 5), (''exp'', ClaimInt 1805)]"
  by (simp add: impersonation_claims_def sample_session_def sessionBinding_def given_def claim_of_def now_seconds_exact
      int_text_def nat_text.simps DIGITS_def)

lemma sample_cookie_length: "length sample_cookie \<le> 2048"
proof -
  have "length (claims_text (impersonation_claims ''v1'' sample_session ''u2'' 1805000 5000)) \<le> 200"
    unfolding sample_view_claims by code_simp
  then show ?thesis
    using base64UrlJson_length [of "impersonation_claims ''v1'' sample_session ''u2'' 1805000 5000"]
    by (simp add: sample_cookie_def signImpersonationToken_def impersonation_hmac_def token_hmac_def sample_keys_def given_def Let_def
        jwt_header_length)
qed

lemma sample_cookie_opens:
  "verifyImpersonationToken sample_crypto sample_keys sample_cookie 6000 =
     Some (JObj (members_json (impersonation_claims ''v1'' sample_session ''u2'' 1805000 5000)), False)"
  using impersonation_roundtrip [OF sample_cookie_signed sample_cookie_length, of sample_crypto 6000]
  by (simp add: sample_session_def given_def now_seconds_exact)

lemma quiet_read: "access_statement quiet_env (read_db q) (k, db) = (Some (q db), (Suc k, db))"
  by (simp add: access_statement_def quiet_env_def read_db_def)

lemma sample_session_read:
  "read_session USER_SESSION_TOKEN_TYPES sample_payload = Some sample_session"
  "isCurrentUserSession USER_SESSION_TOKEN_TYPES (ax_users sample_access) sample_payload"
  by code_simp+

lemma sample_resolved:
  "resolveImpersonation sample_crypto sample_keys quiet_env (Some sample_cookie) sample_session (1, sample_access) =
     (Some (VActive sample_context), (4, sample_access))"
proof -
  have g: "given (Some sample_cookie)" using sample_cookie_signed
    by (auto simp: signImpersonationToken_def given_def Let_def split: sum.splits)
  have now: "run_now quiet_env (1, sample_access) = 6000" by (simp add: run_now_def quiet_env_def)
  have people: "resolve_people quiet_env sample_row (2, sample_access) = (Some (VActive sample_context), (4, sample_access))"
    by (simp add: resolve_people_def quiet_read member_query_def sample_row_def sample_access_def sample_account_def find_row_def
        IMPERSONATABLE_ROLES_def sample_context_def)
  define cl where "cl = JObj (members_json (impersonation_claims ''v1'' sample_session ''u2'' 1805000 5000))"
  have f: "str_field cl ''sid'' = Some ''v1''" "str_field cl ''act'' = Some ''u1''" "str_field cl ''sub'' = Some ''u2''"
    "str_field cl ''org'' = Some ''org1''" "int_field cl ''asv'' = Some 1" "jfield cl ''abind'' = Some (JStr ''iat:5'')"
    unfolding cl_def sample_view_claims by (simp_all add: members_json_def str_field_def int_field_def jfield_def)
  have adm: "ss_id sample_session = ''u1''" "ss_organizationId sample_session = Some ''org1''" "ss_role sample_session = Some ''ADMIN''"
    "ss_sessionVersion sample_session = 1" "nullable (sessionBinding sample_session) = JStr ''iat:5''"
    by (simp_all add: sample_session_def sessionBinding_def given_def nullable_def int_text_def nat_text.simps DIGITS_def)
  have v: "verifyImpersonationToken sample_crypto sample_keys sample_cookie 6000 = Some (cl, False)"
    using sample_cookie_opens by (simp add: cl_def)
  have row: "find_row (\<lambda>v. Some (iv_id v) = Some ''v1'' \<and> Some (iv_organizationId v) = Some ''org1'' \<and>
      Some (iv_actorUserId v) = Some ''u1'' \<and> Some (iv_subjectUserId v) = Some ''u2'') (ax_views sample_access) = Some sample_row"
    "iv_endedAt sample_row = None" "\<not> iv_expiresAt sample_row \<le> 6000"
    by (simp_all add: sample_access_def sample_row_def find_row_def)
  show ?thesis
    unfolding resolveImpersonation_def Let_def now option.sel v f adm
    using g row people by (simp add: quiet_read f adm numeral_2_eq_2)
qed

lemma sample_hook:
  "impersonationHook sample_crypto sample_keys quiet_env sample_view_request (0, sample_access) =
     (AsSubject sample_context, (4, sample_access))"
proof -
  have g: "given (Some sample_cookie)" using sample_cookie_signed
    by (auto simp: signImpersonationToken_def given_def Let_def split: sum.splits)
  have "starts_with ''/api/'' (normalizedPath (requestPath (vr_http sample_view_request)))"
    by (simp add: sample_view_request_def sample_http_def) code_simp
  moreover have "impersonationDenial ''GET'' ''/api/projects'' (Some ''/api/projects'') False = None"
    by code_simp
  ultimately show ?thesis
    using sample_session_read sample_resolved g
    by (simp add: impersonationHook_def apply_view_def quiet_read sample_view_request_def sample_http_def route_url_def)
qed

theorem impersonation_hook_safe_witness:
  "may_pass_in_view (sample_http ''GET'' ''/api/projects'') \<and>
   view_authorized quiet_env sample_view_request (0, sample_access) sample_context"
  using impersonation_hook_safe [OF sample_hook]
  by (simp add: hook_safe_def) (simp add: sample_view_request_def)

lemma quiet_follows: "others_follow view_step quiet_env"
  by (simp add: others_follow_def quiet_env_def)

lemma sample_access_inv: "view_inv sample_access"
  by (simp add: view_inv_def sample_access_def sample_row_def view_row_ok_def IMPERSONATABLE_ROLES_def)

definition sample_start :: access_request where
  "sample_start = StartRequest \<lparr>rq_userId = Some ''u1'', rq_userRole = Some ''ADMIN'', rq_userOrganizationId = Some ''org1'',
     rq_impersonation = None, rq_id = None, rq_ip = None\<rparr> sample_session ''u2'' ''support request'' ''v2'' True"

theorem views_stay_consistent_witness:
  "view_inv (snd (serve sample_crypto sample_keys quiet_env [] sample_start (0, sample_access)))"
  using views_stay_consistent [OF quiet_follows, of "(0, sample_access)" sample_start] sample_access_inv
  by (simp add: sample_start_def sample_session_def given_def)

end
