(* ===== verification/Break_Glass.thy ===== *)
theory Break_Glass
  imports Impersonation
begin

section \<open>Break-glass recovery of administrator access\<close>

text \<open>
  Models \<^verbatim>\<open>src/auth/break-glass.js\<close>: issuing, revoking and redeeming single-use recovery grants.

  The state is the accounts and support views, the organizations, the grants, the API keys and the
  notifications. As before, a request is a sequence of statements between which the other requests act
  and each of which may fail. The two transactions hold a lock (per target, per organization) and guard
  their updates by conditions on the rows, so each acts in one step; what a failing statement of a
  transaction did is undone. (An administrator whom another route activates between the check and the
  claim of a redemption is not part of this model: that route takes no such lock.) Password and token hashing are parameters.
\<close>

record grant =
  gr_id :: string
  gr_organizationId :: string
  gr_targetUserId :: string
  gr_operatorId :: string
  gr_reason :: string
  gr_promoteToAdmin :: bool
  gr_tokenHash :: string
  gr_issuedByOsUser :: string
  gr_issuedFromHost :: string
  gr_createdAt :: timestamp
  gr_expiresAt :: timestamp
  gr_redeemedAt :: "timestamp option"
  gr_revokedAt :: "timestamp option"

record api_key =
  ak_id :: string
  ak_userId :: string
  ak_isActive :: bool
  ak_revokedAt :: "timestamp option"

record glass_db =
  gl_access :: access_db
  gl_organizations :: "(string \<times> string) list"
  gl_grants :: "grant list"
  gl_apiKeys :: "api_key list"
  gl_notifications :: "(string \<times> string) list"

record glass_env =
  ge_now :: "nat \<Rightarrow> timestamp"
  ge_others :: "nat \<Rightarrow> glass_db \<Rightarrow> glass_db"
  ge_db_ok :: "nat \<Rightarrow> bool"
  ge_ext :: audit_externals
  ge_sha256 :: "string \<Rightarrow> string"
  ge_bcrypt :: "string \<Rightarrow> string"

record glass_config =
  gc_enabled :: "string option"
  gc_operators :: "string option"

type_synonym glass_run = "nat \<times> glass_db"

datatype glass_error =
    GlassDisabled | ReasonRequired | NotOperator | OrgNotFound | TargetNotFound | TargetForbidden | TargetNotAdmin
  | AdminExists | GrantNotFound | GrantClosed | InvalidGrant | DatabaseError

definition glass_statement :: "glass_env \<Rightarrow> (glass_db \<Rightarrow> 'r \<times> glass_db) \<Rightarrow> glass_run \<Rightarrow> 'r option \<times> glass_run" where
  "glass_statement env f r =
     (let db = ge_others env (fst r) (snd r)
      in if ge_db_ok env (fst r) then (case f db of (x, db') \<Rightarrow> (Some x, (Suc (fst r), db')))
         else (None, (Suc (fst r), db)))"

definition glass_read :: "(glass_db \<Rightarrow> 'r) \<Rightarrow> glass_db \<Rightarrow> 'r \<times> glass_db" where
  "glass_read q db = (q db, db)"

definition gl_users :: "glass_db \<Rightarrow> account list" where
  "gl_users db = ax_users (gl_access db)"

subsection \<open>Settings and checks\<close>

definition BREAK_GLASS_TTL_SECONDS :: int where
  "BREAK_GLASS_TTL_SECONDS = 30 * 60"

definition BREAK_GLASS_REASON_MIN :: nat where
  "BREAK_GLASS_REASON_MIN = 10"

definition BREAK_GLASS_REASON_MAX :: nat where
  "BREAK_GLASS_REASON_MAX = 500"

definition PROVENANCE_MAX :: nat where
  "PROVENANCE_MAX = 128"

definition text_or_empty :: "string option \<Rightarrow> string" where
  "text_or_empty s = (case s of None \<Rightarrow> [] | Some t \<Rightarrow> t)"

definition provenanceValue :: "string option \<Rightarrow> string" where
  "provenanceValue v =
     (let cleaned = take PROVENANCE_MAX (map (\<lambda>c. if c \<in> set METADATA_CHARS then c else CHR ''_'') (js_trim (text_or_empty v)))
      in if cleaned = [] then ''unknown'' else cleaned)"

definition isBreakGlassEnabled :: "glass_config \<Rightarrow> bool" where
  "isBreakGlassEnabled cfg \<longleftrightarrow> js_lower (js_trim (text_or_empty (gc_enabled cfg))) = ''true''"

definition operatorIds :: "glass_config \<Rightarrow> string list" where
  "operatorIds cfg = filter (\<lambda>s. s \<noteq> []) (map js_trim (js_split CHR '','' (text_or_empty (gc_operators cfg))))"

definition hashBreakGlassToken :: "glass_env \<Rightarrow> string \<Rightarrow> string" where
  "hashBreakGlassToken env token = ge_sha256 env token"

definition normalizeReason :: "string option \<Rightarrow> glass_error + string" where
  "normalizeReason reason =
     (let t = js_trim (text_or_empty reason)
      in if length t < BREAK_GLASS_REASON_MIN \<or> BREAK_GLASS_REASON_MAX < length t then Inl ReasonRequired else Inr t)"

definition find_user :: "string \<Rightarrow> glass_db \<Rightarrow> account option" where
  "find_user uid db = find_row (\<lambda>u. u_id u = uid) (gl_users db)"

definition assertOperator ::
  "glass_env \<Rightarrow> glass_config \<Rightarrow> string \<Rightarrow> glass_run \<Rightarrow> (glass_error + account) \<times> glass_run" where
  "assertOperator env cfg operatorId r =
     (if operatorId = [] \<or> operatorId \<notin> set (operatorIds cfg) then (Inl NotOperator, r)
      else (case glass_statement env (glass_read (find_user operatorId)) r of
        (None, r1) \<Rightarrow> (Inl DatabaseError, r1)
      | (Some None, r1) \<Rightarrow> (Inl NotOperator, r1)
      | (Some (Some op), r1) \<Rightarrow>
          if u_role op \<noteq> ''ADMIN'' \<or> \<not> u_isActive op then (Inl NotOperator, r1) else (Inr op, r1)))"

definition activeAdminIds :: "string \<Rightarrow> glass_db \<Rightarrow> string list" where
  "activeAdminIds org db =
     map u_id (filter (\<lambda>u. u_organizationId u = Some org \<and> u_role u = ''ADMIN'' \<and> u_isActive u) (gl_users db))"

text \<open>One notification per distinct user; a failed write is skipped.\<close>

fun notify_each :: "glass_env \<Rightarrow> string list \<Rightarrow> string \<Rightarrow> glass_run \<Rightarrow> glass_run" where
  "notify_each env [] kind r = r"
| "notify_each env (u # us) kind r =
     notify_each env us kind (snd (glass_statement env
        (\<lambda>db. ((), db\<lparr>gl_notifications := gl_notifications db @ [(u, kind)]\<rparr>)) r))"

definition notifyUsers :: "glass_env \<Rightarrow> string list \<Rightarrow> string \<Rightarrow> glass_run \<Rightarrow> glass_run" where
  "notifyUsers env userIds kind r = notify_each env (rev (remdups (rev userIds))) kind r"

subsection \<open>Audit events\<close>

definition glass_event ::
  "string \<Rightarrow> string \<Rightarrow> string \<Rightarrow> string \<Rightarrow> string option \<Rightarrow> string option \<Rightarrow> metadata \<Rightarrow> audit_event" where
  "glass_event org actorUserId action entityId requestId ip meta =
     \<lparr>ev_organizationId = Some org, ev_ownerClientId = None, ev_ownerInvoiceId = None, ev_actorUserId = Some actorUserId,
      ev_actorType = ''USER'', ev_action = action, ev_entityType = None, ev_entityId = Some entityId,
      ev_requestId = requestId, ev_ip = ip, ev_metadata = Some meta\<rparr>"

definition glass_audit :: "audit_externals \<Rightarrow> timestamp \<Rightarrow> audit_event \<Rightarrow> glass_db \<Rightarrow> glass_db" where
  "glass_audit ext nowMs event db = db\<lparr>gl_access := snd (audit_write ext nowMs event (gl_access db))\<rparr>"

text \<open>Outside a transaction a failed audit write is swallowed.\<close>

definition audit_statement :: "glass_env \<Rightarrow> audit_event \<Rightarrow> glass_run \<Rightarrow> glass_run" where
  "audit_statement env event r =
     snd (glass_statement env (\<lambda>db. ((), glass_audit (ge_ext env) (ge_now env (fst r)) event db)) r)"

subsection \<open>Issuing\<close>

definition unused :: "grant \<Rightarrow> bool" where
  "unused g \<longleftrightarrow> gr_redeemedAt g = None \<and> gr_revokedAt g = None"

definition revoke_update :: "string \<Rightarrow> string \<Rightarrow> timestamp \<Rightarrow> glass_db \<Rightarrow> nat \<times> glass_db" where
  "revoke_update grantId org t db =
     (let guard = (\<lambda>g. gr_id g = grantId \<and> gr_organizationId g = org \<and> unused g)
      in (count_rows guard (gl_grants db),
          db\<lparr>gl_grants := update_rows guard (\<lambda>g. g\<lparr>gr_revokedAt := Some t\<rparr>) (gl_grants db)\<rparr>))"

definition revoked_event :: "string \<Rightarrow> string \<Rightarrow> string \<Rightarrow> string \<Rightarrow> string \<Rightarrow> string \<Rightarrow> audit_event" where
  "revoked_event grantId org operatorId targetUserId osUser host =
     glass_event org operatorId ''break_glass.revoked'' grantId None None
       [(''targetUserId'', MStr targetUserId), (''operatorId'', MStr operatorId), (''osUser'', MStr osUser), (''host'', MStr host)]"

text \<open>\<open>revokeGrantRow\<close> inside the transaction of an issue.\<close>

definition revoke_in_tx ::
  "glass_env \<Rightarrow> string \<Rightarrow> string \<Rightarrow> string \<Rightarrow> string \<Rightarrow> string \<Rightarrow> timestamp \<Rightarrow> string \<Rightarrow> glass_db \<Rightarrow> glass_db" where
  "revoke_in_tx env org operatorId targetUserId osUser host t grantId db =
     (case revoke_update grantId org t db of (n, db1) \<Rightarrow>
        if n \<noteq> 1 then db1
        else glass_audit (ge_ext env) t (revoked_event grantId org operatorId targetUserId osUser host) db1)"

record issue_input =
  in_organizationId :: string
  in_targetEmail :: "string option"
  in_targetUserId :: "string option"
  in_operatorId :: string
  in_reason :: "string option"
  in_promoteToAdmin :: bool
  in_osUser :: "string option"
  in_host :: "string option"

definition find_targets :: "issue_input \<Rightarrow> glass_db \<Rightarrow> account list" where
  "find_targets input db =
     take 2 (filter (\<lambda>u. u_organizationId u = Some (in_organizationId input) \<and>
        (if given (in_targetUserId input) then u_id u = the (in_targetUserId input)
         else insensitiveEquals (js_trim (text_or_empty (in_targetEmail input))) (u_email u))) (gl_users db))"

definition new_grant ::
  "glass_env \<Rightarrow> issue_input \<Rightarrow> string \<Rightarrow> account \<Rightarrow> string \<Rightarrow> string \<Rightarrow> string \<Rightarrow> timestamp \<Rightarrow> grant" where
  "new_grant env input operatorId target reason newId token t =
     \<lparr>gr_id = newId, gr_organizationId = in_organizationId input, gr_targetUserId = u_id target, gr_operatorId = operatorId,
      gr_reason = reason, gr_promoteToAdmin = in_promoteToAdmin input, gr_tokenHash = hashBreakGlassToken env token,
      gr_issuedByOsUser = provenanceValue (in_osUser input), gr_issuedFromHost = provenanceValue (in_host input),
      gr_createdAt = t, gr_expiresAt = t + BREAK_GLASS_TTL_SECONDS * 1000, gr_redeemedAt = None, gr_revokedAt = None\<rparr>"

definition granted_event :: "grant \<Rightarrow> audit_event" where
  "granted_event g =
     glass_event (gr_organizationId g) (gr_operatorId g) ''break_glass.granted'' (gr_id g) None None
       [(''targetUserId'', MStr (gr_targetUserId g)), (''operatorId'', MStr (gr_operatorId g)),
        (''expiresAt'', MDate (Some (gr_expiresAt g))), (''promoteToAdmin'', MBool (gr_promoteToAdmin g)),
        (''osUser'', MStr (gr_issuedByOsUser g)), (''host'', MStr (gr_issuedFromHost g))]"

definition issue_transaction :: "glass_env \<Rightarrow> grant \<Rightarrow> glass_db \<Rightarrow> grant option \<times> glass_db" where
  "issue_transaction env g db =
     (let superseded = map gr_id (filter (\<lambda>old. gr_organizationId old = gr_organizationId g \<and>
            gr_targetUserId old = gr_targetUserId g \<and> unused old \<and> gr_createdAt g < gr_expiresAt old) (gl_grants db));
          db1 = fold (revoke_in_tx env (gr_organizationId g) (gr_operatorId g) (gr_targetUserId g) (gr_issuedByOsUser g)
                  (gr_issuedFromHost g) (gr_createdAt g)) superseded db
      in if gr_id g \<in> gr_id ` set (gl_grants db1) \<or> gr_tokenHash g \<in> gr_tokenHash ` set (gl_grants db1) then (None, db)
         else (Some g, glass_audit (ge_ext env) (gr_createdAt g) (granted_event g) (db1\<lparr>gl_grants := gl_grants db1 @ [g]\<rparr>)))"

definition target_problem :: "issue_input \<Rightarrow> account list \<Rightarrow> bool \<Rightarrow> glass_error option" where
  "target_problem input targets admin_exists =
     (case targets of
        [target] \<Rightarrow>
          if u_role target = ''CLIENT'' \<or> u_role target = ''BOT'' then Some TargetForbidden
          else if u_role target \<noteq> ''ADMIN'' \<and> \<not> in_promoteToAdmin input then Some TargetNotAdmin
          else if u_role target \<noteq> ''ADMIN'' \<and> in_promoteToAdmin input \<and> admin_exists then Some AdminExists
          else None
      | _ \<Rightarrow> Some TargetNotFound)"

definition issue_for_target ::
  "glass_env \<Rightarrow> issue_input \<Rightarrow> account \<Rightarrow> account \<Rightarrow> string \<Rightarrow> string \<Rightarrow> string \<Rightarrow> timestamp \<Rightarrow> glass_run
    \<Rightarrow> (glass_error + grant \<times> string) \<times> glass_run" where
  "issue_for_target env input operator target reason newId token nowMs r =
     (case glass_statement env (issue_transaction env (new_grant env input (u_id operator) target reason newId token nowMs)) r of
        (Some (Some g), r1) \<Rightarrow>
          (case glass_statement env (glass_read (activeAdminIds (in_organizationId input))) r1 of
             (None, r2) \<Rightarrow> (Inl DatabaseError, r2)
           | (Some admins, r2) \<Rightarrow>
               (Inr (g, token), notifyUsers env (admins @ [u_id target]) ''security.break_glass_granted'' r2))
      | (_, r1) \<Rightarrow> (Inl DatabaseError, r1))"

definition issueBreakGlassGrant ::
  "glass_env \<Rightarrow> glass_config \<Rightarrow> issue_input \<Rightarrow> string \<Rightarrow> string \<Rightarrow> glass_run \<Rightarrow> (glass_error + grant \<times> string) \<times> glass_run" where
  "issueBreakGlassGrant env cfg input newId token r =
     (let nowMs = ge_now env (fst r)
      in if \<not> isBreakGlassEnabled cfg then (Inl GlassDisabled, r)
         else (case normalizeReason (in_reason input) of
           Inl e \<Rightarrow> (Inl e, r)
         | Inr reason \<Rightarrow>
            (case assertOperator env cfg (in_operatorId input) r of
               (Inl e, r1) \<Rightarrow> (Inl e, r1)
             | (Inr operator, r1) \<Rightarrow>
                (case glass_statement env (glass_read (\<lambda>db. map_of (gl_organizations db) (in_organizationId input))) r1 of
                   (None, r2) \<Rightarrow> (Inl DatabaseError, r2)
                 | (Some None, r2) \<Rightarrow> (Inl OrgNotFound, r2)
                 | (Some (Some _), r2) \<Rightarrow>
                    (case glass_statement env (glass_read (find_targets input)) r2 of
                       (None, r3) \<Rightarrow> (Inl DatabaseError, r3)
                     | (Some targets, r3) \<Rightarrow>
                        (case target_problem input targets False of
                           Some e \<Rightarrow> (Inl e, r3)
                         | None \<Rightarrow>
                            if u_role (hd targets) = ''ADMIN''
                            then issue_for_target env input operator (hd targets) reason newId token nowMs r3
                            else (case glass_statement env (glass_read (activeAdminIds (in_organizationId input))) r3 of
                               (None, r4) \<Rightarrow> (Inl DatabaseError, r4)
                             | (Some admins, r4) \<Rightarrow>
                                (case target_problem input targets (admins \<noteq> []) of
                                   Some e \<Rightarrow> (Inl e, r4)
                                 | None \<Rightarrow> issue_for_target env input operator (hd targets) reason newId token nowMs r4))))))))"

subsection \<open>Revoking\<close>

definition revokeGrantRow ::
  "glass_env \<Rightarrow> string \<Rightarrow> string \<Rightarrow> string \<Rightarrow> string \<Rightarrow> timestamp \<Rightarrow> string \<Rightarrow> string \<Rightarrow> glass_run \<Rightarrow> (glass_error + bool) \<times> glass_run" where
  "revokeGrantRow env grantId org operatorId targetUserId t osUser host r =
     (case glass_statement env (revoke_update grantId org t) r of
        (None, r1) \<Rightarrow> (Inl DatabaseError, r1)
      | (Some n, r1) \<Rightarrow>
          if n \<noteq> 1 then (Inr False, r1)
          else (Inr True, audit_statement env (revoked_event grantId org operatorId targetUserId osUser host) r1))"

definition revokeBreakGlassGrant ::
  "glass_env \<Rightarrow> glass_config \<Rightarrow> string \<Rightarrow> string \<Rightarrow> string option \<Rightarrow> string option \<Rightarrow> glass_run \<Rightarrow> (glass_error + string) \<times> glass_run" where
  "revokeBreakGlassGrant env cfg grantId operatorId osUser host r =
     (let nowMs = ge_now env (fst r)
      in case assertOperator env cfg operatorId r of
           (Inl e, r1) \<Rightarrow> (Inl e, r1)
         | (Inr operator, r1) \<Rightarrow>
            (case glass_statement env (glass_read (\<lambda>db. find_row (\<lambda>g. gr_id g = grantId) (gl_grants db))) r1 of
               (None, r2) \<Rightarrow> (Inl DatabaseError, r2)
             | (Some None, r2) \<Rightarrow> (Inl GrantNotFound, r2)
             | (Some (Some g), r2) \<Rightarrow>
                (case revokeGrantRow env (gr_id g) (gr_organizationId g) (u_id operator) (gr_targetUserId g) nowMs
                        (provenanceValue osUser) (provenanceValue host) r2 of
                   (Inl e, r3) \<Rightarrow> (Inl e, r3)
                 | (Inr revoked, r3) \<Rightarrow> (if revoked then Inr (gr_id g) else Inl GrantClosed, r3))))"

subsection \<open>Redeeming\<close>

definition restore_account :: "string \<Rightarrow> bool \<Rightarrow> account \<Rightarrow> account" where
  "restore_account passwordHash promoted u =
     u\<lparr>u_password := passwordHash, u_isActive := True, u_role := (if promoted then ''ADMIN'' else u_role u),
       u_mfaEnabled := False, u_mfaSecret := None, u_mfaEnabledAt := None, u_mfaLastUsedStep := None, u_mfaRecoveryCodes := [],
       u_mfaFailedAttempts := 0, u_mfaLockedUntil := None, u_sessionVersion := u_sessionVersion u + 1,
       u_resetToken := None, u_resetTokenExpiresAt := None\<rparr>"

definition redeemable :: "string \<Rightarrow> timestamp \<Rightarrow> grant \<Rightarrow> bool" where
  "redeemable grantId t g \<longleftrightarrow> gr_id g = grantId \<and> unused g \<and> t < gr_expiresAt g"

datatype redeem_outcome = RedeemThrew | RedeemLost | RedeemDone nat

text \<open>
  The transaction, under the organization's lock: the promotion is checked again, the grant claimed, the
  account restored and its API keys revoked. Updating an account that is gone throws.
\<close>

definition redeem_transaction :: "grant \<Rightarrow> string \<Rightarrow> bool \<Rightarrow> string \<Rightarrow> timestamp \<Rightarrow> glass_db \<Rightarrow> redeem_outcome \<times> glass_db" where
  "redeem_transaction g targetId promoted passwordHash t db =
     (if promoted \<and> activeAdminIds (gr_organizationId g) db \<noteq> [] then (RedeemLost, db)
      else if count_rows (redeemable (gr_id g) t) (gl_grants db) \<noteq> 1 then (RedeemLost, db)
      else if count_rows (\<lambda>u. u_id u = targetId) (gl_users db) = 0 then (RedeemThrew, db)
      else
        (let keys = (\<lambda>k. ak_userId k = targetId \<and> ak_isActive k)
         in (RedeemDone (count_rows keys (gl_apiKeys db)),
             db\<lparr>gl_grants := update_rows (redeemable (gr_id g) t) (\<lambda>x. x\<lparr>gr_redeemedAt := Some t\<rparr>) (gl_grants db),
                gl_access := (gl_access db)\<lparr>ax_users :=
                   update_rows (\<lambda>u. u_id u = targetId) (restore_account passwordHash promoted) (gl_users db)\<rparr>,
                gl_apiKeys := update_rows keys (\<lambda>k. k\<lparr>ak_isActive := False, ak_revokedAt := Some t\<rparr>) (gl_apiKeys db)\<rparr>)))"

text \<open>The support views by and of the account end; the clean-up after the commit runs as one statement.\<close>

definition redeemed_end_options :: "grant \<Rightarrow> string \<Rightarrow> string option \<Rightarrow> string option \<Rightarrow> timestamp \<Rightarrow> end_options" where
  "redeemed_end_options g targetId requestId ip nowMs =
     \<lparr>eo_organizationId = Some (gr_organizationId g),
      eo_where = (\<lambda>v. iv_actorUserId v = targetId \<or> iv_subjectUserId v = targetId), eo_reason = ''revoked_password_reset'',
      eo_endedById = None, eo_requestId = requestId, eo_ip = ip, eo_actorUserId = None, eo_actorType = ''SYSTEM'', eo_nowMs = nowMs\<rparr>"

definition end_target_views :: "glass_env \<Rightarrow> end_options \<Rightarrow> glass_db \<Rightarrow> unit \<times> glass_db" where
  "end_target_views env opts db =
     ((), db\<lparr>gl_access := snd (snd (endImpersonationSessions
        \<lparr>ae_now = (\<lambda>_. eo_nowMs opts), ae_others = (\<lambda>_ d. d), ae_db_ok = (\<lambda>_. True), ae_ext = ge_ext env\<rparr> opts (0, gl_access db)))\<rparr>)"

definition redeemed_events :: "grant \<Rightarrow> account \<Rightarrow> bool \<Rightarrow> bool \<Rightarrow> nat \<Rightarrow> string option \<Rightarrow> string option \<Rightarrow> audit_event list" where
  "redeemed_events g target promoted reactivated apiKeysRevoked requestId ip =
     (let ev = (\<lambda>action entityId meta. glass_event (gr_organizationId g) (u_id target) action entityId requestId ip meta);
          keys = MNum (Fin (of_nat apiKeysRevoked))
      in [ev ''break_glass.redeemed'' (gr_id g)
            [(''targetUserId'', MStr (u_id target)), (''operatorId'', MStr (gr_operatorId g)), (''promoted'', MBool promoted),
             (''reactivated'', MBool reactivated), (''mfaReset'', MBool (u_mfaEnabled target)), (''apiKeysRevoked'', keys)],
          ev ''auth.password_changed'' (u_id target)
            [(''method'', MStr ''break_glass''), (''sessionsRevoked'', MBool True), (''apiKeysRevoked'', keys)]]
         @ (if u_mfaEnabled target then [ev ''auth.mfa_reset'' (u_id target) [(''wasEnabled'', MBool True)]] else [])
         @ (if promoted then [ev ''user.role_changed'' (u_id target)
                                [(''fromRole'', MStr (u_role target)), (''toRole'', MStr ''ADMIN'')]] else [])
         @ (if reactivated then [ev ''user.reactivated'' (u_id target)
                                [(''fromActive'', MBool False), (''toActive'', MBool True)]] else []))"

record redeemed =
  rd_promoted :: bool
  rd_reactivated :: bool
  rd_mfaReset :: bool

definition finish_redemption ::
  "glass_env \<Rightarrow> grant \<Rightarrow> account \<Rightarrow> bool \<Rightarrow> bool \<Rightarrow> nat \<Rightarrow> string option \<Rightarrow> string option \<Rightarrow> timestamp \<Rightarrow> glass_run
    \<Rightarrow> (glass_error + redeemed) \<times> glass_run" where
  "finish_redemption env g target promoted reactivated apiKeysRevoked requestId ip nowMs r =
     (let r1 = snd (glass_statement env (end_target_views env (redeemed_end_options g (u_id target) requestId ip nowMs)) r);
          r2 = fold (audit_statement env) (redeemed_events g target promoted reactivated apiKeysRevoked requestId ip) r1
      in case glass_statement env (glass_read (activeAdminIds (gr_organizationId g))) r2 of
           (None, r3) \<Rightarrow> (Inl DatabaseError, r3)
         | (Some admins, r3) \<Rightarrow>
             (Inr \<lparr>rd_promoted = promoted, rd_reactivated = reactivated, rd_mfaReset = u_mfaEnabled target\<rparr>,
              notifyUsers env admins ''security.break_glass_redeemed'' r3))"

definition redeem_for ::
  "glass_env \<Rightarrow> grant \<Rightarrow> account \<Rightarrow> string \<Rightarrow> string option \<Rightarrow> string option \<Rightarrow> timestamp \<Rightarrow> glass_run
    \<Rightarrow> (glass_error + redeemed) \<times> glass_run" where
  "redeem_for env g target newPassword requestId ip nowMs r =
     (let promoted = (u_role target \<noteq> ''ADMIN'' \<and> gr_promoteToAdmin g); reactivated = (\<not> u_isActive target)
      in case glass_statement env (redeem_transaction g (u_id target) promoted (ge_bcrypt env newPassword) nowMs) r of
           (Some (RedeemDone n), r1) \<Rightarrow> finish_redemption env g target promoted reactivated n requestId ip nowMs r1
         | (Some RedeemLost, r1) \<Rightarrow> (Inl InvalidGrant, r1)
         | (_, r1) \<Rightarrow> (Inl DatabaseError, r1))"

definition redeemBreakGlassGrant ::
  "glass_env \<Rightarrow> glass_config \<Rightarrow> string \<Rightarrow> string \<Rightarrow> string option \<Rightarrow> string option \<Rightarrow> glass_run
    \<Rightarrow> (glass_error + redeemed) \<times> glass_run" where
  "redeemBreakGlassGrant env cfg token newPassword requestId ip r =
     (let nowMs = ge_now env (fst r)
      in if \<not> isBreakGlassEnabled cfg then (Inl GlassDisabled, r)
         else if length token < 20 \<or> 200 < length token then (Inl InvalidGrant, r)
         else (case glass_statement env (glass_read (\<lambda>db. find_row (\<lambda>g. gr_tokenHash g = hashBreakGlassToken env token) (gl_grants db))) r of
           (None, r1) \<Rightarrow> (Inl DatabaseError, r1)
         | (Some None, r1) \<Rightarrow> (Inl InvalidGrant, r1)
         | (Some (Some g), r1) \<Rightarrow>
            if gr_redeemedAt g \<noteq> None \<or> gr_revokedAt g \<noteq> None \<or> gr_expiresAt g \<le> nowMs then (Inl InvalidGrant, r1)
            else (case glass_statement env (glass_read (\<lambda>db. member_query (gr_targetUserId g) (gr_organizationId g) (gl_access db))) r1 of
              (None, r2) \<Rightarrow> (Inl DatabaseError, r2)
            | (Some None, r2) \<Rightarrow> (Inl InvalidGrant, r2)
            | (Some (Some target), r2) \<Rightarrow>
                if u_role target = ''CLIENT'' \<or> u_role target = ''BOT'' then (Inl InvalidGrant, r2)
                else if u_role target \<noteq> ''ADMIN'' \<and> \<not> gr_promoteToAdmin g then (Inl InvalidGrant, r2)
                else if u_role target = ''ADMIN'' then redeem_for env g target newPassword requestId ip nowMs r2
                else (case glass_statement env (glass_read (activeAdminIds (gr_organizationId g))) r2 of
                  (None, r3) \<Rightarrow> (Inl DatabaseError, r3)
                | (Some admins, r3) \<Rightarrow>
                    if admins \<noteq> [] then (Inl InvalidGrant, r3)
                    else redeem_for env g target newPassword requestId ip nowMs r3))))"

text \<open>\<open>orderBy createdAt desc, take 20\<close>, without the token hashes.\<close>

definition without_hash :: "grant \<Rightarrow> grant" where
  "without_hash g = g\<lparr>gr_tokenHash := []\<rparr>"

definition newest_first :: "grant list \<Rightarrow> grant list" where
  "newest_first gs = rev (sort_key gr_createdAt (rev gs))"

definition listBreakGlassGrants ::
  "glass_env \<Rightarrow> glass_config \<Rightarrow> string \<Rightarrow> string \<Rightarrow> glass_run \<Rightarrow> (glass_error + grant list) \<times> glass_run" where
  "listBreakGlassGrants env cfg organizationId operatorId r =
     (case assertOperator env cfg operatorId r of
        (Inl e, r1) \<Rightarrow> (Inl e, r1)
      | (Inr _, r1) \<Rightarrow>
         (case glass_statement env (glass_read (\<lambda>db. map without_hash (take 20 (newest_first
                 (filter (\<lambda>g. gr_organizationId g = organizationId) (gl_grants db)))))) r1 of
            (None, r2) \<Rightarrow> (Inl DatabaseError, r2)
          | (Some gs, r2) \<Rightarrow> (Inr gs, r2)))"

subsection \<open>Provenance survives the audit log\<close>

lemma provenance_ok: "plain_id (provenanceValue v)"
proof -
  have m: "all_in METADATA_CHARS (map (\<lambda>c. if c \<in> set METADATA_CHARS then c else CHR ''_'') s)" for s
    by (induction s) (auto simp: all_in_def METADATA_CHARS_def)
  have "all_in METADATA_CHARS ''unknown''" by (simp add: all_in_def METADATA_CHARS_def ALPHA_def)
  then show ?thesis
    using all_in_take [OF m]
    by (simp add: plain_id_def provenanceValue_def Let_def PROVENANCE_MAX_def MAX_METADATA_STRING_def)
qed

text \<open>The operating-system user and host of an issue are always kept by the sanitizer.\<close>

lemma provenance_kept: "clean_value ext (MStr (provenanceValue v)) = Some (MStr (provenanceValue v))"
  by (rule clean_plain_id [OF provenance_ok])

subsection \<open>Grants as a state machine\<close>

definition fresh_grant :: "grant \<Rightarrow> bool" where
  "fresh_grant g \<longleftrightarrow> unused g \<and> gr_expiresAt g = gr_createdAt g + 1800000"

inductive glass_step :: "glass_db \<Rightarrow> glass_db \<Rightarrow> bool" where
  issued: "fresh_grant g \<Longrightarrow> glass_step db (snd (issue_transaction env g db))"
| revoked: "glass_step db (snd (revoke_update grantId org t db))"
| redeemed: "glass_step db (snd (redeem_transaction g targetId promoted passwordHash t db))"
| edited: "gl_grants db' = gl_grants db \<Longrightarrow> glass_step db db'"

definition grant_ok :: "grant \<Rightarrow> bool" where
  "grant_ok g \<longleftrightarrow> gr_expiresAt g = gr_createdAt g + 1800000 \<and> (gr_redeemedAt g = None \<or> gr_revokedAt g = None) \<and>
     (\<forall>t. gr_redeemedAt g = Some t \<longrightarrow> t < gr_expiresAt g)"

definition same_target :: "grant \<Rightarrow> grant \<Rightarrow> bool" where
  "same_target g h \<longleftrightarrow> gr_organizationId g = gr_organizationId h \<and> gr_targetUserId g = gr_targetUserId h"

text \<open>Two unused grants of one target: their validity intervals do not overlap.\<close>

definition glass_inv :: "glass_db \<Rightarrow> bool" where
  "glass_inv db \<longleftrightarrow>
     distinct (map gr_id (gl_grants db)) \<and> distinct (map gr_tokenHash (gl_grants db)) \<and> (\<forall>g \<in> set (gl_grants db). grant_ok g) \<and>
     (\<forall>g \<in> set (gl_grants db). \<forall>h \<in> set (gl_grants db).
        g \<noteq> h \<longrightarrow> same_target g h \<longrightarrow> unused g \<longrightarrow> unused h \<longrightarrow>
        gr_expiresAt g \<le> gr_createdAt h \<or> gr_expiresAt h \<le> gr_createdAt g)"

definition grants_kept :: "glass_db \<Rightarrow> glass_db \<Rightarrow> bool" where
  "grants_kept db db' \<longleftrightarrow>
     (\<forall>g \<in> set (gl_grants db). \<exists>g' \<in> set (gl_grants db'). gr_id g' = gr_id g \<and> gr_tokenHash g' = gr_tokenHash g \<and>
        same_target g' g \<and> gr_expiresAt g' = gr_expiresAt g \<and> (\<not> unused g \<longrightarrow> g' = g))"

lemma grants_kept_refl: "grants_kept db db"
  by (auto simp: grants_kept_def same_target_def)

lemma grants_kept_trans: "grants_kept a b \<Longrightarrow> grants_kept b c \<Longrightarrow> grants_kept a c"
  unfolding grants_kept_def same_target_def by (metis (no_types, opaque_lifting))

text \<open>Using up unused grants (by revoking or redeeming) keeps the invariant.\<close>

locale grant_closing =
  fixes P :: "grant \<Rightarrow> bool" and f :: "grant \<Rightarrow> grant"
  assumes only_unused: "P g \<Longrightarrow> unused g" and closes: "P g \<Longrightarrow> \<not> unused (f g)"
    and keeps_row: "gr_id (f g) = gr_id g" "gr_tokenHash (f g) = gr_tokenHash g" "same_target (f g) g"
      "gr_expiresAt (f g) = gr_expiresAt g" "gr_createdAt (f g) = gr_createdAt g"
    and keeps_ok: "P g \<Longrightarrow> grant_ok g \<Longrightarrow> grant_ok (f g)"
begin

lemma updated_inv:
  assumes inv: "glass_inv db" and upd: "gl_grants db' = update_rows P f (gl_grants db)"
  shows "glass_inv db'"
proof -
  have keys: "map gr_id (gl_grants db') = map gr_id (gl_grants db)" "map gr_tokenHash (gl_grants db') = map gr_tokenHash (gl_grants db)"
    using keeps_row by (simp_all add: upd update_rows_def)
  have "g' \<in> set (gl_grants db) \<and> \<not> P g'" if "g' \<in> set (gl_grants db')" "unused g'" for g'
    using that closes unfolding upd by (elim in_update_rowsE) auto
  moreover have "grant_ok g'" if "g' \<in> set (gl_grants db')" for g'
    using that inv keeps_ok unfolding upd glass_inv_def by (elim in_update_rowsE) auto
  ultimately show ?thesis using inv keys unfolding glass_inv_def by (metis (no_types, lifting))
qed

lemma updated_kept:
  assumes upd: "gl_grants db' = update_rows P f (gl_grants db)"
  shows "grants_kept db db'"
  unfolding grants_kept_def
proof (intro ballI)
  fix g assume "g \<in> set (gl_grants db)"
  then have "(if P g then f g else g) \<in> set (gl_grants db')" by (simp add: upd update_rows_def)
  then show "\<exists>g' \<in> set (gl_grants db'). gr_id g' = gr_id g \<and> gr_tokenHash g' = gr_tokenHash g \<and> same_target g' g \<and>
      gr_expiresAt g' = gr_expiresAt g \<and> (\<not> unused g \<longrightarrow> g' = g)"
    using keeps_row only_unused by (intro bexI [rotated]) (auto simp: same_target_def)
qed

end

interpretation revoking: grant_closing "\<lambda>g. gr_id g = grantId \<and> gr_organizationId g = org \<and> unused g" "\<lambda>g. g\<lparr>gr_revokedAt := Some t\<rparr>"
  for grantId org t
  by unfold_locales (auto simp: unused_def same_target_def grant_ok_def)

interpretation redeeming: grant_closing "redeemable grantId t" "\<lambda>g. g\<lparr>gr_redeemedAt := Some t\<rparr>"
  for grantId t
  by unfold_locales (auto simp: unused_def redeemable_def same_target_def grant_ok_def)

lemma revoke_update_grants:
  "gl_grants (snd (revoke_update grantId org t db)) =
     update_rows (\<lambda>g. gr_id g = grantId \<and> gr_organizationId g = org \<and> unused g) (\<lambda>g. g\<lparr>gr_revokedAt := Some t\<rparr>) (gl_grants db)"
  by (simp add: revoke_update_def Let_def)

lemma revoke_keeps:
  "glass_inv db \<Longrightarrow> glass_inv (snd (revoke_update grantId org t db)) \<and> grants_kept db (snd (revoke_update grantId org t db))"
  using revoking.updated_inv [OF _ revoke_update_grants] revoking.updated_kept [OF revoke_update_grants] by blast

lemma redeem_keeps:
  assumes "glass_inv db"
  shows "glass_inv (snd (redeem_transaction g targetId promoted passwordHash t db)) \<and>
    grants_kept db (snd (redeem_transaction g targetId promoted passwordHash t db))"
proof -
  let ?db = "snd (redeem_transaction g targetId promoted passwordHash t db)"
  have "?db = db \<or> gl_grants ?db = update_rows (redeemable (gr_id g) t) (\<lambda>x. x\<lparr>gr_redeemedAt := Some t\<rparr>) (gl_grants db)"
    by (auto simp: redeem_transaction_def Let_def)
  then show ?thesis
    using assms redeeming.updated_inv [OF assms, of ?db] redeeming.updated_kept [of ?db] grants_kept_refl by metis
qed

lemma audit_grants [simp]: "gl_grants (glass_audit ext t e db) = gl_grants db"
  by (simp add: glass_audit_def)

lemma inv_cong: "gl_grants a = gl_grants b \<Longrightarrow> glass_inv a = glass_inv b"
  by (simp add: glass_inv_def)

lemma revoke_in_tx_grants:
  "gl_grants (revoke_in_tx env org op target os host t gid db) = gl_grants (snd (revoke_update gid org t db))"
  by (simp add: revoke_in_tx_def split: prod.splits)

lemma revoked_unused:
  assumes "g \<in> set (gl_grants (snd (revoke_update gid org t db)))" and "unused g"
  shows "g \<in> set (gl_grants db) \<and> (gr_id g = gid \<longrightarrow> gr_organizationId g \<noteq> org)"
  using assms unfolding revoke_update_grants by (elim in_update_rowsE) (auto simp: unused_def)

lemma fold_revokes:
  assumes "glass_inv db"
  shows "glass_inv (fold (revoke_in_tx env org op target os host t) ids db) \<and>
    grants_kept db (fold (revoke_in_tx env org op target os host t) ids db) \<and>
    (\<forall>g \<in> set (gl_grants (fold (revoke_in_tx env org op target os host t) ids db)).
       unused g \<longrightarrow> g \<in> set (gl_grants db) \<and> (gr_id g \<in> set ids \<longrightarrow> gr_organizationId g \<noteq> org))"
  using assms
proof (induction ids arbitrary: db)
  case (Cons gid ids)
  let ?db = "revoke_in_tx env org op target os host t gid db"
  have k: "glass_inv ?db" "grants_kept db ?db"
    using revoke_keeps [OF Cons.prems, of gid org t] inv_cong [OF revoke_in_tx_grants]
    by (simp_all add: grants_kept_def revoke_in_tx_grants)
  show ?case
    using Cons.IH [OF k(1)] grants_kept_trans [OF k(2)] revoked_unused [of _ gid org t db]
    by (auto simp: revoke_in_tx_grants)
qed (simp add: grants_kept_refl)

lemma issue_keeps:
  assumes inv: "glass_inv db" and fresh: "fresh_grant g"
  shows "glass_inv (snd (issue_transaction env g db)) \<and> grants_kept db (snd (issue_transaction env g db))"
proof -
  let ?ids = "map gr_id (filter (\<lambda>old. gr_organizationId old = gr_organizationId g \<and>
            gr_targetUserId old = gr_targetUserId g \<and> unused old \<and> gr_createdAt g < gr_expiresAt old) (gl_grants db))"
  let ?db1 = "fold (revoke_in_tx env (gr_organizationId g) (gr_operatorId g) (gr_targetUserId g) (gr_issuedByOsUser g)
                  (gr_issuedFromHost g) (gr_createdAt g)) ?ids db"
  define db1 where "db1 = ?db1"
  have k: "glass_inv db1" "grants_kept db db1"
    "\<And>h. h \<in> set (gl_grants db1) \<Longrightarrow> unused h \<Longrightarrow>
       h \<in> set (gl_grants db) \<and> (gr_id h \<in> set ?ids \<longrightarrow> gr_organizationId h \<noteq> gr_organizationId g)"
    unfolding db1_def using fold_revokes [OF inv] by blast+
  show ?thesis
  proof (cases "gr_id g \<in> gr_id ` set (gl_grants db1) \<or> gr_tokenHash g \<in> gr_tokenHash ` set (gl_grants db1)")
    case True
    then have "snd (issue_transaction env g db) = db" by (simp add: issue_transaction_def Let_def db1_def)
    then show ?thesis using inv grants_kept_refl by simp
  next
    case False
    then have grants: "gl_grants (snd (issue_transaction env g db)) = gl_grants db1 @ [g]"
      by (simp add: issue_transaction_def Let_def db1_def)
    have old: "gr_expiresAt h \<le> gr_createdAt g" if "h \<in> set (gl_grants db1)" "unused h" "same_target h g" for h
      using k(3) [OF that(1,2)] that(2,3) by (fastforce simp: same_target_def)
    have sym: "same_target g h \<longleftrightarrow> same_target h g" for h by (auto simp: same_target_def)
    have ok: "grant_ok g" using fresh by (auto simp: fresh_grant_def grant_ok_def unused_def)
    have apart: "gr_expiresAt a \<le> gr_createdAt b \<or> gr_expiresAt b \<le> gr_createdAt a"
      if "a \<in> set (gl_grants db1 @ [g])" "b \<in> set (gl_grants db1 @ [g])" "a \<noteq> b" "same_target a b" "unused a" "unused b" for a b
    proof (cases "a = g \<or> b = g")
      case True
      then show ?thesis using that old [of a] old [of b] sym by auto
    next
      case False
      then show ?thesis using that k(1) unfolding glass_inv_def by simp
    qed
    have "glass_inv (snd (issue_transaction env g db))"
      unfolding glass_inv_def grants
      using k(1) False ok apart by (intro conjI) (simp_all add: glass_inv_def)
    moreover have "grants_kept db (snd (issue_transaction env g db))"
      using k(2) unfolding grants_kept_def grants by fastforce
    ultimately show ?thesis by blast
  qed
qed

lemma glass_step_keeps:
  assumes "glass_step a b" and "glass_inv a"
  shows "glass_inv b \<and> grants_kept a b"
  using assms
proof cases
  case edited
  then show ?thesis using assms(2) inv_cong [OF edited] grants_kept_refl [of a] by (simp add: grants_kept_def)
qed (use assms(2) issue_keeps revoke_keeps redeem_keeps in blast)+

lemma glass_steps_keep: "glass_step\<^sup>*\<^sup>* a b \<Longrightarrow> glass_inv a \<Longrightarrow> glass_inv b \<and> grants_kept a b"
  by (induction rule: rtranclp_induct) (auto simp: grants_kept_refl dest: glass_step_keeps intro: grants_kept_trans)

subsection \<open>Every request is a sequence of these steps\<close>

definition glass_follow :: "glass_env \<Rightarrow> bool" where
  "glass_follow env \<longleftrightarrow> (\<forall>k db. glass_step\<^sup>*\<^sup>* db (ge_others env k db))"

lemma glass_statement_steps:
  assumes "glass_follow env" and "glass_statement env f r = (x, r1)" and "\<And>db. glass_step db (snd (f db))"
  shows "glass_step\<^sup>*\<^sup>* (snd r) (snd r1)"
proof -
  define db where "db = ge_others env (fst r) (snd r)"
  have s: "glass_step\<^sup>*\<^sup>* (snd r) db" using assms(1) by (simp add: glass_follow_def db_def)
  then have "glass_step\<^sup>*\<^sup>* (snd r) (snd (f db))" using assms(3) by (simp add: rtranclp.rtrancl_into_rtrancl)
  then show ?thesis using assms(2) s
    by (cases "f db") (auto simp: glass_statement_def db_def [symmetric] Let_def split: if_splits)
qed

lemma glass_read_steps:
  assumes "glass_follow env" and "glass_statement env (glass_read q) r = (x, r1)"
  shows "glass_step\<^sup>*\<^sup>* (snd r) (snd r1)"
  using assms by (rule glass_statement_steps) (simp add: glass_read_def glass_step.edited)

lemma audit_statement_steps: "glass_follow env \<Longrightarrow> glass_step\<^sup>*\<^sup>* (snd r) (snd (audit_statement env e r))"
  unfolding audit_statement_def
  by (rule glass_statement_steps [OF _ prod.collapse [symmetric]]) (simp_all add: glass_step.edited)

lemma audits_steps: "glass_follow env \<Longrightarrow> glass_step\<^sup>*\<^sup>* (snd r) (snd (fold (audit_statement env) es r))"
proof (induction es arbitrary: r)
  case (Cons e es)
  have "glass_step\<^sup>*\<^sup>* (snd (audit_statement env e r)) (snd (fold (audit_statement env) es (audit_statement env e r)))"
    by (rule Cons.IH [OF Cons.prems])
  then show ?case using audit_statement_steps [OF Cons.prems, of r e] by (auto simp only: fold_simps intro: rtranclp_trans)
qed simp

lemma notify_steps: "glass_follow env \<Longrightarrow> glass_step\<^sup>*\<^sup>* (snd r) (snd (notifyUsers env us kind r))"
proof -
  assume env: "glass_follow env"
  have "glass_step\<^sup>*\<^sup>* (snd r0) (snd (notify_each env vs kind r0))" for vs r0
  proof (induction vs arbitrary: r0)
    case (Cons v vs)
    have "glass_step\<^sup>*\<^sup>* (snd r0) (snd (snd (glass_statement env (\<lambda>db. ((), db\<lparr>gl_notifications := gl_notifications db @ [(v, kind)]\<rparr>)) r0)))"
      by (rule glass_statement_steps [OF env prod.collapse [symmetric]]) (simp add: glass_step.edited)
    then show ?case unfolding notify_each.simps by (rule rtranclp_trans [OF _ Cons.IH])
  qed simp
  then show ?thesis by (simp add: notifyUsers_def)
qed

lemma operator_steps:
  "glass_follow env \<Longrightarrow> assertOperator env cfg op r = (x, r1) \<Longrightarrow> glass_step\<^sup>*\<^sup>* (snd r) (snd r1)"
  by (auto simp: assertOperator_def split: if_splits prod.splits option.splits dest!: glass_read_steps)

lemma issue_for_target_steps:
  assumes env: "glass_follow env" and i: "issue_for_target env input operator target reason newId token t r = (x, r')"
  shows "glass_step\<^sup>*\<^sup>* (snd r) (snd r')"
proof -
  let ?g = "new_grant env input (u_id operator) target reason newId token t"
  obtain y r1 where tx: "glass_statement env (issue_transaction env ?g) r = (y, r1)" by (metis prod.exhaust)
  have "fresh_grant ?g" by (simp add: fresh_grant_def new_grant_def unused_def BREAK_GLASS_TTL_SECONDS_def)
  then have s1: "glass_step\<^sup>*\<^sup>* (snd r) (snd r1)"
    by (intro glass_statement_steps [OF env tx] glass_step.issued)
  obtain z r2 where q: "glass_statement env (glass_read (activeAdminIds (in_organizationId input))) r1 = (z, r2)" by (metis prod.exhaust)
  note s2 = glass_read_steps [OF env q]
  have "r' = r1 \<or> r' = r2 \<or> (\<exists>us kind. r' = notifyUsers env us kind r2)"
    using i tx q by (auto simp: issue_for_target_def split: option.splits)
  then show ?thesis using s1 s2 notify_steps [OF env, of r2] by (metis rtranclp_trans)
qed

lemma issue_steps:
  assumes env: "glass_follow env" and i: "issueBreakGlassGrant env cfg input newId token r = (x, r')"
  shows "glass_step\<^sup>*\<^sup>* (snd r) (snd r')"
proof -
  note read = glass_read_steps [OF env] and issue = issue_for_target_steps [OF env] and op = operator_steps [OF env]
  show ?thesis using i unfolding issueBreakGlassGrant_def Let_def
    by (auto split: if_splits sum.splits prod.splits option.splits dest!: read issue op intro: rtranclp_trans)
qed

lemma revoke_request_steps:
  assumes env: "glass_follow env" and i: "revokeBreakGlassGrant env cfg grantId operatorId osUser host r = (x, r')"
  shows "glass_step\<^sup>*\<^sup>* (snd r) (snd r')"
proof -
  have row: "glass_step\<^sup>*\<^sup>* (snd r0) (snd r1)" if rv: "revokeGrantRow env gid org opid target t os h r0 = (y, r1)"
    for gid org opid target t os h r0 y r1
  proof -
    obtain n r2 where u: "glass_statement env (revoke_update gid org t) r0 = (n, r2)" by (metis prod.exhaust)
    have s: "glass_step\<^sup>*\<^sup>* (snd r0) (snd r2)" by (rule glass_statement_steps [OF env u]) (rule glass_step.revoked)
    have "r1 = r2 \<or> (\<exists>e. r1 = audit_statement env e r2)"
      using rv u by (auto simp: revokeGrantRow_def split: option.splits if_splits)
    then show ?thesis using s audit_statement_steps [OF env, of r2] by (metis rtranclp_trans)
  qed
  show ?thesis using i unfolding revokeBreakGlassGrant_def Let_def
    by (auto split: if_splits sum.splits prod.splits option.splits dest!: glass_read_steps [OF env] row operator_steps [OF env]
        intro: rtranclp_trans)
qed

lemma finish_steps:
  assumes env: "glass_follow env" and f: "finish_redemption env g target p a n rid ip t r = (x, r')"
  shows "glass_step\<^sup>*\<^sup>* (snd r) (snd r')"
proof -
  define r1 where "r1 = snd (glass_statement env (end_target_views env (redeemed_end_options g (u_id target) rid ip t)) r)"
  define r2 where "r2 = fold (audit_statement env) (redeemed_events g target p a n rid ip) r1"
  have s1: "glass_step\<^sup>*\<^sup>* (snd r) (snd r1)"
    unfolding r1_def by (rule glass_statement_steps [OF env prod.collapse [symmetric]]) (simp add: end_target_views_def glass_step.edited)
  have s2: "glass_step\<^sup>*\<^sup>* (snd r1) (snd r2)" unfolding r2_def by (rule audits_steps [OF env])
  obtain y r3 where q: "glass_statement env (glass_read (activeAdminIds (gr_organizationId g))) r2 = (y, r3)" by (metis prod.exhaust)
  note s3 = glass_read_steps [OF env q]
  have "r' = r3 \<or> (\<exists>us kind. r' = notifyUsers env us kind r3)"
    using f q unfolding finish_redemption_def Let_def r1_def [symmetric] r2_def [symmetric] by (auto split: option.splits)
  then have "glass_step\<^sup>*\<^sup>* (snd r3) (snd r')" using notify_steps [OF env, of r3] by auto
  with s1 s2 s3 show ?thesis by (meson rtranclp_trans)
qed

lemma redeem_for_steps:
  assumes env: "glass_follow env" and d: "redeem_for env g target pw rid ip t r = (x, r')"
  shows "glass_step\<^sup>*\<^sup>* (snd r) (snd r')"
proof -
  define p where "p = (u_role target \<noteq> ''ADMIN'' \<and> gr_promoteToAdmin g)"
  obtain y r1 where tx: "glass_statement env (redeem_transaction g (u_id target) p (ge_bcrypt env pw) t) r = (y, r1)" by (metis prod.exhaust)
  have s: "glass_step\<^sup>*\<^sup>* (snd r) (snd r1)" by (rule glass_statement_steps [OF env tx]) (rule glass_step.redeemed)
  have "r' = r1 \<or> (\<exists>a n z. finish_redemption env g target p a n rid ip t r1 = (z, r'))"
    using d tx by (auto simp: redeem_for_def p_def [symmetric] Let_def split: option.splits redeem_outcome.splits)
  then show ?thesis using s finish_steps [OF env] by (meson rtranclp_trans)
qed

lemma redeem_steps:
  assumes env: "glass_follow env" and i: "redeemBreakGlassGrant env cfg token pw rid ip r = (x, r')"
  shows "glass_step\<^sup>*\<^sup>* (snd r) (snd r')"
  using i unfolding redeemBreakGlassGrant_def Let_def
  by (auto split: if_splits prod.splits option.splits dest!: glass_read_steps [OF env] redeem_for_steps [OF env]
      intro: rtranclp_trans)

datatype glass_request =
    IssueRequest issue_input string string
  | RevokeGrant string string "string option" "string option"
  | RedeemRequest string string "string option" "string option"

fun serve_glass :: "glass_env \<Rightarrow> glass_config \<Rightarrow> glass_request \<Rightarrow> glass_run \<Rightarrow> glass_run" where
  "serve_glass env cfg (IssueRequest input newId token) r = snd (issueBreakGlassGrant env cfg input newId token r)"
| "serve_glass env cfg (RevokeGrant grantId operatorId osUser host) r = snd (revokeBreakGlassGrant env cfg grantId operatorId osUser host r)"
| "serve_glass env cfg (RedeemRequest token newPassword requestId ip) r =
     snd (redeemBreakGlassGrant env cfg token newPassword requestId ip r)"

lemma serve_glass_steps:
  assumes "glass_follow env"
  shows "glass_step\<^sup>*\<^sup>* (snd r) (snd (serve_glass env cfg req r))"
  using issue_steps [OF assms] revoke_request_steps [OF assms] redeem_steps [OF assms]
  by (cases req) (metis prod.collapse serve_glass.simps)+

text \<open>C17: Whatever issues, revocations and redemptions run at the same time, a grant is used at most once: it is never both
  redeemed and revoked, is redeemed only before its thirty minutes are over, and once used never changes again; ids and
  token hashes stay unique; and the unused grants of one target never overlap in time, so at most one is outstanding.\<close>

theorem grants_stay_single_use:
  assumes "glass_follow env" and "glass_inv (snd r)"
  shows "glass_inv (snd (serve_glass env cfg req r)) \<and> grants_kept (snd r) (snd (serve_glass env cfg req r))"
  using glass_steps_keep [OF serve_glass_steps [OF assms(1)] assms(2)] .

subsection \<open>What a redemption does\<close>

fun gseen :: "glass_env \<Rightarrow> glass_run \<Rightarrow> nat \<Rightarrow> glass_db" where
  "gseen env r 0 = ge_others env (fst r) (snd r)"
| "gseen env r (Suc n) = ge_others env (fst r + Suc n) (gseen env r n)"

lemma glass_read_statement:
  assumes "glass_statement env (glass_read q) r = (Some x, r1)"
  shows "x = q (gseen env r 0)" and "r1 = (Suc (fst r), gseen env r 0)"
  using assms by (auto simp: glass_statement_def glass_read_def Let_def split: if_splits)

lemma gseen_next: "r1 = (Suc (fst r), gseen env r 0) \<Longrightarrow> gseen env r1 n = gseen env r (Suc n)"
  by (induction n) auto

definition redeemed_effect :: "string \<Rightarrow> string \<Rightarrow> bool \<Rightarrow> glass_db \<Rightarrow> glass_db \<Rightarrow> bool" where
  "redeemed_effect uid passwordHash promoted db db' \<longleftrightarrow>
     (\<forall>u \<in> set (gl_users db'). u_id u = uid \<longrightarrow>
        u_password u = passwordHash \<and> u_isActive u \<and> \<not> u_mfaEnabled u \<and> u_mfaSecret u = None \<and> u_mfaRecoveryCodes u = [] \<and>
        u_resetToken u = None \<and> (promoted \<longrightarrow> u_role u = ''ADMIN'')) \<and>
     (\<forall>u. u_id u \<noteq> uid \<longrightarrow> u \<in> set (gl_users db') \<longleftrightarrow> u \<in> set (gl_users db)) \<and>
     (\<forall>k \<in> set (gl_apiKeys db'). ak_userId k = uid \<longrightarrow> \<not> ak_isActive k) \<and>
     (\<forall>types payload. isCurrentUserSession types (gl_users db) payload \<longrightarrow> str_field payload ''id'' = Some uid \<longrightarrow>
        \<not> isCurrentUserSession types (gl_users db') payload)"

interpretation restore: keyed_update u_id "restore_account passwordHash promoted"
  for passwordHash promoted
  by unfold_locales (simp add: restore_account_def)

lemma redeem_done:
  assumes "redeem_transaction g uid promoted passwordHash t db = (RedeemDone n, db')"
  shows "(promoted \<longrightarrow> activeAdminIds (gr_organizationId g) db = []) \<and>
    (\<exists>h \<in> set (gl_grants db). redeemable (gr_id g) t h) \<and> redeemed_effect uid passwordHash promoted db db'"
proof -
  let ?keys = "\<lambda>k. ak_userId k = uid \<and> ak_isActive k"
  have guards: "promoted \<longrightarrow> activeAdminIds (gr_organizationId g) db = []" "count_rows (redeemable (gr_id g) t) (gl_grants db) = 1"
    and users: "gl_users db' = update_rows (\<lambda>u. u_id u = uid) (restore_account passwordHash promoted) (gl_users db)"
    and keys: "gl_apiKeys db' = update_rows ?keys (\<lambda>k. k\<lparr>ak_isActive := False, ak_revokedAt := Some t\<rparr>) (gl_apiKeys db)"
    using assms by (auto simp: redeem_transaction_def gl_users_def Let_def split: if_splits)
  have "\<exists>h \<in> set (gl_grants db). redeemable (gr_id g) t h"
    using guards(2) count_rows_0_iff [of "redeemable (gr_id g) t" "gl_grants db"] by auto
  moreover have "\<not> ak_isActive k" if "k \<in> set (gl_apiKeys db')" "ak_userId k = uid" for k
    using that unfolding keys by (elim in_update_rowsE) auto
  moreover have "\<not> isCurrentUserSession types (gl_users db') payload"
    if "isCurrentUserSession types (gl_users db) payload" "str_field payload ''id'' = Some uid" for types payload
    using that restore.find_update [of uid "\<lambda>u. u_id u = uid" passwordHash promoted "gl_users db"]
    by (auto simp: isCurrentUserSession_def users restore_account_def split: option.splits dest: find_row_SomeD)
  moreover have "u_password u = passwordHash \<and> u_isActive u \<and> \<not> u_mfaEnabled u \<and> u_mfaSecret u = None \<and> u_mfaRecoveryCodes u = [] \<and>
        u_resetToken u = None \<and> (promoted \<longrightarrow> u_role u = ''ADMIN'')" if "u \<in> set (gl_users db')" "u_id u = uid" for u
    using that unfolding users by (elim in_update_rowsE) (auto simp: restore_account_def)
  moreover have "u \<in> set (gl_users db') \<longleftrightarrow> u \<in> set (gl_users db)" if "u_id u \<noteq> uid" for u
    using that unfolding users set_update_rows by (auto simp: restore_account_def)
  ultimately show ?thesis using guards(1) unfolding redeemed_effect_def by blast
qed

lemma redeem_for_done:
  assumes "redeem_for env g target pw rid ip t r = (Inr res, r')"
  shows "\<exists>n db'. redeem_transaction g (u_id target) (u_role target \<noteq> ''ADMIN'' \<and> gr_promoteToAdmin g) (ge_bcrypt env pw) t (gseen env r 0)
      = (RedeemDone n, db') \<and> rd_promoted res = (u_role target \<noteq> ''ADMIN'' \<and> gr_promoteToAdmin g) \<and>
    finish_redemption env g target (rd_promoted res) (\<not> u_isActive target) n rid ip t (Suc (fst r), db') = (Inr res, r')"
proof -
  define p where "p = (u_role target \<noteq> ''ADMIN'' \<and> gr_promoteToAdmin g)"
  obtain y r1 where y: "glass_statement env (redeem_transaction g (u_id target) p (ge_bcrypt env pw) t) r = (y, r1)" by (metis prod.exhaust)
  have d: "(case (y, r1) of (Some (RedeemDone n), r1) \<Rightarrow> finish_redemption env g target p (\<not> u_isActive target) n rid ip t r1
         | (Some RedeemLost, r1) \<Rightarrow> (Inl InvalidGrant, r1) | (_, r1) \<Rightarrow> (Inl DatabaseError, r1)) = (Inr res, r')"
    using assms unfolding redeem_for_def Let_def p_def [symmetric] y .
  then obtain n where n: "y = Some (RedeemDone n)" by (auto split: option.splits redeem_outcome.splits)
  note tx = y [unfolded n]
  have fin: "finish_redemption env g target p (\<not> u_isActive target) n rid ip t r1 = (Inr res, r')" using d n by simp
  have p: "rd_promoted res = p" using fin by (auto simp: finish_redemption_def Let_def split: option.splits prod.splits)
  have txd: "redeem_transaction g (u_id target) p (ge_bcrypt env pw) t (gseen env r 0) = (RedeemDone n, snd r1)"
    "r1 = (Suc (fst r), snd r1)"
    using tx by (auto simp: glass_statement_def Let_def split: if_splits prod.splits)
  have "finish_redemption env g target (rd_promoted res) (\<not> u_isActive target) n rid ip t (Suc (fst r), snd r1) = (Inr res, r')"
    using fin unfolding p txd(2) [symmetric] .
  with txd(1) p show ?thesis unfolding p_def [symmetric] by (intro exI conjI)
qed

text \<open>What must have held for a redemption to succeed, and its effect, in the states it went through.\<close>

definition redemption_sound ::
  "glass_env \<Rightarrow> string \<Rightarrow> string \<Rightarrow> glass_run \<Rightarrow> redeemed \<Rightarrow> grant \<Rightarrow> account \<Rightarrow> glass_db \<Rightarrow> glass_db \<Rightarrow> bool" where
  "redemption_sound env token newPassword r res g target db db' \<longleftrightarrow>
     g \<in> set (gl_grants (gseen env r 0)) \<and> gr_tokenHash g = hashBreakGlassToken env token \<and>
     (\<exists>h \<in> set (gl_grants db). redeemable (gr_id g) (ge_now env (fst r)) h) \<and>
     target \<in> set (gl_users (gseen env r 1)) \<and> u_id target = gr_targetUserId g \<and>
     u_organizationId target = Some (gr_organizationId g) \<and> u_role target \<noteq> ''CLIENT'' \<and> u_role target \<noteq> ''BOT'' \<and>
     (u_role target = ''ADMIN'' \<or> rd_promoted res) \<and>
     (rd_promoted res \<longrightarrow> gr_promoteToAdmin g \<and> activeAdminIds (gr_organizationId g) db = []) \<and>
     redeemed_effect (gr_targetUserId g) (ge_bcrypt env newPassword) (rd_promoted res) db db'"

lemma redeem_sound:
  assumes "redeemBreakGlassGrant env cfg token newPassword rid ip r = (Inr res, r')"
  shows "isBreakGlassEnabled cfg \<and> (\<exists>n g target k db'. n \<in> {2, 3} \<and>
     redemption_sound env token newPassword r res g target (gseen env r n) db' \<and>
     finish_redemption env g target (rd_promoted res) (\<not> u_isActive target) k rid ip (ge_now env (fst r)) (Suc (fst r + n), db')
       = (Inr res, r'))"
proof -
  let ?t = "ge_now env (fst r)"
  let ?q = "\<lambda>db. find_row (\<lambda>g. gr_tokenHash g = hashBreakGlassToken env token) (gl_grants db)"
  obtain g r1 where q1: "glass_statement env (glass_read ?q) r = (Some (Some g), r1)" and en: "isBreakGlassEnabled cfg"
    using assms by (auto simp: redeemBreakGlassGrant_def Let_def split: if_splits option.splits prod.splits)
  note d1 = glass_read_statement [OF q1]
  let ?m = "\<lambda>db. member_query (gr_targetUserId g) (gr_organizationId g) (gl_access db)"
  obtain target r2 where q2: "glass_statement env (glass_read ?m) r1 = (Some (Some target), r2)"
    and role: "u_role target \<noteq> ''CLIENT''" "u_role target \<noteq> ''BOT''" "u_role target = ''ADMIN'' \<or> gr_promoteToAdmin g"
    using assms q1 by (auto simp: redeemBreakGlassGrant_def Let_def split: if_splits option.splits prod.splits)
  note d2 = glass_read_statement [OF q2]
  have grant: "g \<in> set (gl_grants (gseen env r 0))" "gr_tokenHash g = hashBreakGlassToken env token"
    using find_row_SomeD [OF d1(1) [symmetric]] by auto
  have tgt: "target \<in> set (gl_users (gseen env r 1))" "u_id target = gr_targetUserId g" "u_organizationId target = Some (gr_organizationId g)"
    using member_queryD [OF d2(1) [symmetric]] gseen_next [OF d1(2), of 0] by (auto simp: gl_users_def)
  obtain r3 where fin: "redeem_for env g target newPassword rid ip ?t r3 = (Inr res, r')" and "r3 = r2 \<or> r3 = (Suc (fst r2), gseen env r2 0)"
    using assms q1 q2 by (auto simp: redeemBreakGlassGrant_def Let_def split: if_splits option.splits prod.splits
        dest: glass_read_statement)
  then obtain n where n: "n \<in> {2, 3}" "gseen env r3 0 = gseen env r n" "fst r3 = fst r + n"
  proof (elim disjE)
    assume "r3 = r2"
    then have "gseen env r3 0 = gseen env r 2" "fst r3 = fst r + 2"
      using gseen_next [OF d2(2), of 0] gseen_next [OF d1(2), of 1] d1(2) d2(2) by (simp_all add: numeral_2_eq_2)
    with that [of 2] show ?thesis by simp
  next
    assume r3: "r3 = (Suc (fst r2), gseen env r2 0)"
    then have "gseen env r3 0 = gseen env r 3" "fst r3 = fst r + 3"
      using gseen_next [OF r3, of 0] gseen_next [OF d2(2), of 1] gseen_next [OF d1(2), of 2] d1(2) d2(2) by (simp_all add: numeral_2_eq_2 numeral_3_eq_3)
    with that [of 3] show ?thesis by simp
  qed
  obtain k db' where tx: "redeem_transaction g (u_id target) (u_role target \<noteq> ''ADMIN'' \<and> gr_promoteToAdmin g)
        (ge_bcrypt env newPassword) ?t (gseen env r n) = (RedeemDone k, db')"
    and p: "rd_promoted res = (u_role target \<noteq> ''ADMIN'' \<and> gr_promoteToAdmin g)"
    and f: "finish_redemption env g target (rd_promoted res) (\<not> u_isActive target) k rid ip ?t (Suc (fst r + n), db') = (Inr res, r')"
    using redeem_for_done [OF fin] unfolding n(2,3) by blast
  have "redemption_sound env token newPassword r res g target (gseen env r n) db'"
    unfolding redemption_sound_def using grant tgt role p redeem_done [OF tx] by auto
  then show ?thesis using en n(1) f by blast
qed

text \<open>C7: A break-glass redemption succeeds only with the feature on, for a grant with the token's hash that was unused and
  unexpired when it was claimed, and a staff member of the grant's organization; it promotes only when the grant says so
  and the organization has no active administrator in the very state it commits on; and it sets the password, activates
  the account, clears two-factor, revokes every API key and ends every session the account had, touching nobody else.\<close>

theorem break_glass_redemption_sound:
  assumes "redeemBreakGlassGrant env cfg token newPassword rid ip r = (Inr res, r')"
  shows "isBreakGlassEnabled cfg \<and> (\<exists>n g target k db'. n \<in> {2, 3} \<and>
     redemption_sound env token newPassword r res g target (gseen env r n) db' \<and>
     finish_redemption env g target (rd_promoted res) (\<not> u_isActive target) k rid ip (ge_now env (fst r)) (Suc (fst r + n), db')
       = (Inr res, r'))"
  using assms by (rule redeem_sound)

subsection \<open>Witnesses\<close>

definition sample_grant :: grant where
  "sample_grant = \<lparr>gr_id = ''g1'', gr_organizationId = ''org1'', gr_targetUserId = ''u2'', gr_operatorId = ''u9'',
     gr_reason = ''all admins locked out'', gr_promoteToAdmin = True, gr_tokenHash = ''token-token-token-token'',
     gr_issuedByOsUser = ''ops'', gr_issuedFromHost = ''host'', gr_createdAt = 0, gr_expiresAt = 1800000,
     gr_redeemedAt = None, gr_revokedAt = None\<rparr>"

definition sample_glass :: glass_db where
  "sample_glass = \<lparr>gl_access = \<lparr>ax_users = [sample_account ''u2'' ''TEAM''], ax_contacts = [], ax_views = [], ax_audit = sample_audit_db\<rparr>,
     gl_organizations = [(''org1'', ''Acme'')], gl_grants = [sample_grant],
     gl_apiKeys = [\<lparr>ak_id = ''k1'', ak_userId = ''u2'', ak_isActive = True, ak_revokedAt = None\<rparr>], gl_notifications = []\<rparr>"

definition sample_glass_env :: glass_env where
  "sample_glass_env = \<lparr>ge_now = (\<lambda>_. 6), ge_others = (\<lambda>_ db. db), ge_db_ok = (\<lambda>_. True), ge_ext = sample_audit_ext,
     ge_sha256 = (\<lambda>s. s), ge_bcrypt = (\<lambda>s. ''$2b$'' @ s)\<rparr>"

definition sample_config :: glass_config where
  "sample_config = \<lparr>gc_enabled = Some '' TRUE '', gc_operators = Some ''u9, u8''\<rparr>"

lemma finish_always:
  assumes "\<And>k. ge_db_ok env k"
  shows "fst (finish_redemption env g target p a n rid ip t r) =
     Inr \<lparr>rd_promoted = p, rd_reactivated = a, rd_mfaReset = u_mfaEnabled target\<rparr>"
  using assms by (simp add: finish_redemption_def glass_statement_def glass_read_def Let_def split: prod.splits)

lemma sample_glass_quiet:
  "glass_statement sample_glass_env f (k, db) = (case f db of (x, db') \<Rightarrow> (Some x, (Suc k, db')))"
  by (simp add: glass_statement_def sample_glass_env_def)

lemma sample_redeemed:
  "fst (redeemBreakGlassGrant sample_glass_env sample_config ''token-token-token-token'' ''pw'' None None (0, sample_glass)) =
     Inr \<lparr>rd_promoted = True, rd_reactivated = False, rd_mfaReset = False\<rparr>"
proof -
  let ?u = "sample_account ''u2'' ''TEAM''"
  have tx: "fst (redeem_transaction sample_grant ''u2'' True h 6 sample_glass) = RedeemDone 1" for h
    by (simp add: redeem_transaction_def sample_glass_def sample_grant_def sample_account_def gl_users_def activeAdminIds_def
        redeemable_def unused_def count_rows_def Let_def)
  define D where "D h = snd (redeem_transaction sample_grant ''u2'' True h 6 sample_glass)" for h
  have db: "redeem_transaction sample_grant ''u2'' True h 6 sample_glass = (RedeemDone 1, D h)" for h
    by (simp add: prod_eq_iff tx D_def)
  have "isBreakGlassEnabled sample_config" by code_simp
  moreover have "find_row (\<lambda>g. gr_tokenHash g = hashBreakGlassToken sample_glass_env ''token-token-token-token'') (gl_grants sample_glass) = Some sample_grant"
    by (simp add: sample_glass_def sample_grant_def hashBreakGlassToken_def sample_glass_env_def find_row_def)
  moreover have "member_query ''u2'' ''org1'' (gl_access sample_glass) = Some ?u"
    by (simp add: member_query_def sample_glass_def sample_account_def find_row_def)
  moreover have "activeAdminIds ''org1'' sample_glass = []"
    by (simp add: activeAdminIds_def sample_glass_def sample_account_def gl_users_def)
  moreover have "ge_db_ok sample_glass_env k" "ge_now sample_glass_env k = 6" for k by (simp_all add: sample_glass_env_def)
  moreover have "u_id ?u = ''u2''" "u_role ?u = ''TEAM''" "u_isActive ?u" "\<not> u_mfaEnabled ?u" by (simp_all add: sample_account_def)
  moreover have "gr_targetUserId sample_grant = ''u2''" "gr_organizationId sample_grant = ''org1''" "gr_promoteToAdmin sample_grant"
    "gr_redeemedAt sample_grant = None" "gr_revokedAt sample_grant = None" "gr_expiresAt sample_grant = 1800000"
    by (simp_all add: sample_grant_def)
  ultimately show ?thesis
    by (simp add: redeemBreakGlassGrant_def redeem_for_def sample_glass_quiet glass_read_def db finish_always Let_def)
qed

theorem break_glass_redemption_sound_witness:
  "\<exists>n g target db'. redemption_sound sample_glass_env ''token-token-token-token'' ''pw'' (0, sample_glass)
     \<lparr>rd_promoted = True, rd_reactivated = False, rd_mfaReset = False\<rparr> g target (gseen sample_glass_env (0, sample_glass) n) db'"
  using break_glass_redemption_sound [of sample_glass_env sample_config "''token-token-token-token''" "''pw''" None None "(0, sample_glass)"]
    sample_redeemed by (metis prod.collapse)

lemma sample_glass_follow: "glass_follow sample_glass_env"
  by (simp add: glass_follow_def sample_glass_env_def)

lemma sample_glass_inv: "glass_inv sample_glass"
  by (simp add: glass_inv_def sample_glass_def sample_grant_def grant_ok_def unused_def)

theorem grants_stay_single_use_witness:
  "glass_inv (snd (serve_glass sample_glass_env sample_config (RedeemRequest ''token-token-token-token'' ''pw'' None None) (0, sample_glass)))"
  using grants_stay_single_use [OF sample_glass_follow, of "(0, sample_glass)" sample_config
      "RedeemRequest ''token-token-token-token'' ''pw'' None None"] sample_glass_inv by (simp del: serve_glass.simps)

end
