(* ===== verification/MFA_Enforcement.thy ===== *)
theory MFA_Enforcement
  imports Impersonation
begin

section \<open>The organization's two-factor requirement\<close>

text \<open>
  Models \<^verbatim>\<open>src/auth/mfa-enforcement.js\<close> (the hook that holds staff who must enroll to the enrollment
  routes) and \<^verbatim>\<open>src/services/organization-mfa-policy.service.js\<close> (reading and changing the requirement).

  The database is the accounts and audit log of the support views with the requirement of each
  organization. Verifying a session token belongs to the JWT library: \<open>verify\<close> gives the payload of a
  token, or \<open>None\<close> when it throws.
\<close>

record policy_db =
  po_access :: access_db
  po_mfaRequired :: "(string \<times> bool) list"

record policy_env =
  pe_now :: "nat \<Rightarrow> timestamp"
  pe_others :: "nat \<Rightarrow> policy_db \<Rightarrow> policy_db"
  pe_db_ok :: "nat \<Rightarrow> bool"
  pe_ext :: audit_externals

type_synonym policy_run = "nat \<times> policy_db"

definition policy_statement :: "policy_env \<Rightarrow> (policy_db \<Rightarrow> 'r \<times> policy_db) \<Rightarrow> policy_run \<Rightarrow> 'r option \<times> policy_run" where
  "policy_statement env = db_statement (pe_others env) (pe_db_ok env)"

definition po_users :: "policy_db \<Rightarrow> account list" where
  "po_users db = ax_users (po_access db)"

record mfa_request =
  mr_http :: http_request
  mr_impersonation :: "view_context option"
  mr_userId :: "string option"
  mr_authorization :: "string option"
  mr_cookie :: "string option"

subsection \<open>Which routes and whose enrollment\<close>

definition MFA_ENROLLMENT_ALLOWED_ROUTES :: "string list" where
  "MFA_ENROLLMENT_ALLOWED_ROUTES =
     [''GET /api/auth/me'', ''POST /api/auth/logout'', ''POST /api/auth/impersonation/stop'',
      ''GET /api/auth/mfa'', ''POST /api/auth/mfa/enroll'', ''POST /api/auth/mfa/confirm'',
      ''POST /api/auth/login'', ''POST /api/auth/login/mfa'', ''POST /api/auth/forgot-password'', ''POST /api/auth/reset-password'',
      ''POST /api/auth/client/login'', ''POST /api/auth/client/signup'', ''POST /api/auth/break-glass/redeem'',
      ''GET /api/live'', ''GET /api/health'']"

definition isMfaEnrollmentAllowedRoute :: "string \<Rightarrow> string \<Rightarrow> bool" where
  "isMfaEnrollmentAllowedRoute meth routeUrl \<longleftrightarrow>
     (let verb = (if js_upper meth = ''HEAD'' then ''GET'' else js_upper meth)
      in verb @ '' '' @ routeUrl \<in> set MFA_ENROLLMENT_ALLOWED_ROUTES)"

text \<open>\<open>required\<close> is the joined organization's flag, \<open>None\<close> without an organization.\<close>

definition mustEnrollMfa :: "account option \<Rightarrow> bool option \<Rightarrow> bool" where
  "mustEnrollMfa user required =
     (case user of None \<Rightarrow> False
      | Some u \<Rightarrow> isMfaEligible (Some (user.truncate u)) \<and> required = Some True \<and> \<not> isMfaRequired (Some (user.truncate u)))"

definition isPublicRoute :: "mfa_request \<Rightarrow> bool" where
  "isPublicRoute rq \<longleftrightarrow> ro_public (hr_route (mr_http rq)) \<and> \<not> ro_actsForStaff (hr_route (mr_http rq))"

definition org_required :: "policy_db \<Rightarrow> account \<Rightarrow> bool option" where
  "org_required db u = Option.bind (u_organizationId u) (map_of (po_mfaRequired db))"

definition must_enroll :: "policy_db \<Rightarrow> string \<Rightarrow> bool" where
  "must_enroll db uid =
     (let user = find_row (\<lambda>u. u_id u = uid) (po_users db) in mustEnrollMfa user (Option.bind user (org_required db)))"

definition isMfaEnrollmentRequired :: "policy_env \<Rightarrow> string option \<Rightarrow> policy_run \<Rightarrow> bool option \<times> policy_run" where
  "isMfaEnrollmentRequired env userId r =
     (if \<not> given userId then (Some False, r)
      else policy_statement env (db_read (\<lambda>db. must_enroll db (the userId))) r)"

definition bearerToken :: "string option \<Rightarrow> string option" where
  "bearerToken authorization =
     (case authorization of None \<Rightarrow> None
      | Some header \<Rightarrow>
         if \<not> (js_lower (take 6 header) = ''bearer'' \<and> 6 < length header \<and> is_space (header ! 6)) then None
         else (case js_split CHR '' '' header of [_, token] \<Rightarrow> if token = [] then None else Some token | _ \<Rightarrow> None))"

definition own_principal :: "(string \<Rightarrow> json option) \<Rightarrow> mfa_request \<Rightarrow> string option" where
  "own_principal verify rq =
     (if given (mr_userId rq) then mr_userId rq
      else (case ro_url (hr_route (mr_http rq)) of
        None \<Rightarrow> None
      | Some routeUrl \<Rightarrow>
         if \<not> starts_with ''/api/auth/'' routeUrl then None
         else
           (let token = (if bearerToken (mr_authorization rq) \<noteq> None then bearerToken (mr_authorization rq) else mr_cookie rq)
            in if \<not> given token then None
               else (case verify (the token) of
                 None \<Rightarrow> None
               | Some payload \<Rightarrow>
                  if isUserSessionPayload USER_SESSION_TOKEN_TYPES payload then str_field payload ''id'' else None))))"

definition requestPrincipalId :: "(string \<Rightarrow> json option) \<Rightarrow> mfa_request \<Rightarrow> string option" where
  "requestPrincipalId verify rq =
     (case mr_impersonation rq of
        Some ctx \<Rightarrow> if vc_actorUserId ctx \<noteq> [] then Some (vc_actorUserId ctx) else own_principal verify rq
      | None \<Rightarrow> own_principal verify rq)"

subsection \<open>The hook\<close>

datatype enforcement = Proceed | EnrollmentRequired | Unverified

definition mfaEnforcementHook ::
  "(string \<Rightarrow> json option) \<Rightarrow> policy_env \<Rightarrow> mfa_request \<Rightarrow> policy_run \<Rightarrow> enforcement \<times> policy_run" where
  "mfaEnforcementHook verify env rq r =
     (let path = normalizedPath (requestPath (mr_http rq)); routeUrl = ro_url (hr_route (mr_http rq));
          principalId = requestPrincipalId verify rq
      in if \<not> starts_with ''/api/'' path then (Proceed, r)
         else if \<not> given routeUrl then (Proceed, r)
         else if isMfaEnrollmentAllowedRoute (hr_method (mr_http rq)) (the routeUrl) \<and> the routeUrl = path then (Proceed, r)
         else if isPublicRoute rq then (Proceed, r)
         else if \<not> given principalId then (Proceed, r)
         else (case isMfaEnrollmentRequired env principalId r of
           (None, r1) \<Rightarrow> (Unverified, r1)
         | (Some True, r1) \<Rightarrow> (EnrollmentRequired, r1)
         | (Some False, r1) \<Rightarrow> (Proceed, r1)))"

text \<open>\<open>revoked\<close> says for which users publishing the disconnect succeeds; the sockets of all are dropped locally.\<close>

definition disconnectUserSockets :: "(string \<Rightarrow> bool) \<Rightarrow> string list \<Rightarrow> nat \<times> nat" where
  "disconnectUserSockets revoked userIds =
     (let ids = remdups (filter (\<lambda>s. s \<noteq> []) userIds) in (length ids, length (filter (\<lambda>i. \<not> revoked i) ids)))"

subsection \<open>Reading and changing the requirement\<close>

datatype policy_error = SelfEnrollmentRequired | PolicyDatabaseError

definition staffWithoutMfaWhere :: "string \<Rightarrow> account \<Rightarrow> bool" where
  "staffWithoutMfaWhere organizationId u \<longleftrightarrow>
     u_organizationId u = Some organizationId \<and> u_isActive u \<and> u_role u \<notin> set MFA_INELIGIBLE_ROLES \<and>
     (\<not> u_mfaEnabled u \<or> u_mfaSecret u = None)"

definition countStaffWithoutMfa :: "string \<Rightarrow> policy_db \<Rightarrow> nat" where
  "countStaffWithoutMfa organizationId db = count_rows (staffWithoutMfaWhere organizationId) (po_users db)"

definition listStaffIdsWithoutMfa :: "string \<Rightarrow> policy_db \<Rightarrow> string list" where
  "listStaffIdsWithoutMfa organizationId db = map u_id (filter (staffWithoutMfaWhere organizationId) (po_users db))"

definition loadActor :: "string \<Rightarrow> policy_db \<Rightarrow> account option" where
  "loadActor userId db = find_row (\<lambda>u. u_id u = userId) (po_users db)"

definition enrolled :: "account option \<Rightarrow> bool" where
  "enrolled u = isMfaRequired (map_option user.truncate u)"

record policy =
  pl_required :: bool
  pl_staffWithoutMfa :: nat
  pl_actorMfaEnabled :: bool

definition getOrganizationMfaPolicy ::
  "policy_env \<Rightarrow> string \<Rightarrow> string \<Rightarrow> policy_run \<Rightarrow> (policy_error + policy) \<times> policy_run" where
  "getOrganizationMfaPolicy env organizationId actorUserId r =
     (case policy_statement env (db_read (\<lambda>db. map_of (po_mfaRequired db) organizationId)) r of
        (None, r1) \<Rightarrow> (Inl PolicyDatabaseError, r1)
      | (Some required, r1) \<Rightarrow>
         (case policy_statement env (db_read (countStaffWithoutMfa organizationId)) r1 of
            (None, r2) \<Rightarrow> (Inl PolicyDatabaseError, r2)
          | (Some n, r2) \<Rightarrow>
             (case policy_statement env (db_read (loadActor actorUserId)) r2 of
                (None, r3) \<Rightarrow> (Inl PolicyDatabaseError, r3)
              | (Some actor, r3) \<Rightarrow>
                  (Inr \<lparr>pl_required = (required = Some True), pl_staffWithoutMfa = n, pl_actorMfaEnabled = enrolled actor\<rparr>, r3))))"

definition requirement_update :: "string \<Rightarrow> bool \<Rightarrow> policy_db \<Rightarrow> nat \<times> policy_db" where
  "requirement_update organizationId required db =
     (let old = (\<lambda>(org, flag). org = organizationId \<and> flag = (\<not> required))
      in (count_rows old (po_mfaRequired db),
          db\<lparr>po_mfaRequired := update_rows old (\<lambda>(org, _). (org, required)) (po_mfaRequired db)\<rparr>))"

definition requirement_changed_fields :: "string \<Rightarrow> string \<Rightarrow> bool \<Rightarrow> nat \<Rightarrow> audit_fields" where
  "requirement_changed_fields organizationId actorUserId required n =
     \<lparr>af_organizationId = Some (Some organizationId), af_ownerClientId = None, af_ownerInvoiceId = None,
      af_actorUserId = Some (Some actorUserId), af_actorType = Some ''USER'',
      af_action = ''organization.mfa_requirement_changed'', af_entityType = None, af_entityId = Some (Some organizationId),
      af_requestId = None, af_ip = None,
      af_metadata = Some [(''fromRequired'', MBool (\<not> required)), (''toRequired'', MBool required),
        (''staffWithoutMfa'', MNum (Fin (of_nat n)))]\<rparr>"

definition audit_requirement :: "policy_env \<Rightarrow> audit_request \<Rightarrow> audit_fields \<Rightarrow> policy_run \<Rightarrow> policy_run" where
  "audit_requirement env request event r =
     snd (policy_statement env (\<lambda>db. ((), db\<lparr>po_access := (po_access db)\<lparr>ax_audit :=
        snd (recordRequestAuditEvent (pe_ext env) True (pe_now env (fst r)) request event (ax_audit (po_access db)))\<rparr>\<rparr>)) r)"

definition change_requirement ::
  "policy_env \<Rightarrow> audit_request \<Rightarrow> string \<Rightarrow> string \<Rightarrow> bool \<Rightarrow> policy_run \<Rightarrow> (policy_error + policy \<times> bool) \<times> policy_run" where
  "change_requirement env request organizationId actorUserId required r =
     (case policy_statement env (requirement_update organizationId required) r of
        (None, r1) \<Rightarrow> (Inl PolicyDatabaseError, r1)
      | (Some n, r1) \<Rightarrow>
         (case getOrganizationMfaPolicy env organizationId actorUserId r1 of
            (Inl e, r2) \<Rightarrow> (Inl e, r2)
          | (Inr p, r2) \<Rightarrow>
              (Inr (p, n = 1),
               if n = 1 then audit_requirement env request
                 (requirement_changed_fields organizationId actorUserId required (pl_staffWithoutMfa p)) r2
               else r2)))"

definition setOrganizationMfaRequirement ::
  "policy_env \<Rightarrow> audit_request \<Rightarrow> string \<Rightarrow> string \<Rightarrow> bool \<Rightarrow> policy_run \<Rightarrow> (policy_error + policy \<times> bool) \<times> policy_run" where
  "setOrganizationMfaRequirement env request organizationId actorUserId required r =
     (if \<not> required then change_requirement env request organizationId actorUserId required r
      else (case policy_statement env (db_read (loadActor actorUserId)) r of
        (None, r1) \<Rightarrow> (Inl PolicyDatabaseError, r1)
      | (Some actor, r1) \<Rightarrow>
          if \<not> enrolled actor then (Inl SelfEnrollmentRequired, r1)
          else change_requirement env request organizationId actorUserId required r1))"

subsection \<open>The requirement and support views\<close>

text \<open>The request after the support-view hook, as the two-factor hook sees it.\<close>

definition viewed_request :: "view_request \<Rightarrow> view_context \<Rightarrow> mfa_request" where
  "viewed_request vr ctx =
     \<lparr>mr_http = vr_http vr, mr_impersonation = Some ctx, mr_userId = Some (sc_id (vc_user ctx)), mr_authorization = None,
      mr_cookie = None\<rparr>"

definition protected :: "mfa_request \<Rightarrow> bool" where
  "protected rq \<longleftrightarrow>
     (let path = normalizedPath (requestPath (mr_http rq)); routeUrl = ro_url (hr_route (mr_http rq))
      in starts_with ''/api/'' path \<and> given routeUrl \<and>
         \<not> (isMfaEnrollmentAllowedRoute (hr_method (mr_http rq)) (the routeUrl) \<and> the routeUrl = path) \<and> \<not> isPublicRoute rq)"

lemma hook_protected:
  assumes "protected rq" and "requestPrincipalId verify rq = Some uid" and "uid \<noteq> []"
  shows "fst (mfaEnforcementHook verify env rq r) =
    (if \<not> pe_db_ok env (fst r) then Unverified
     else if must_enroll (pe_others env (fst r) (snd r)) uid then EnrollmentRequired else Proceed)"
proof -
  have "fst (case isMfaEnrollmentRequired env (Some uid) r of
           (None, r1) \<Rightarrow> (Unverified, r1) | (Some True, r1) \<Rightarrow> (EnrollmentRequired, r1) | (Some False, r1) \<Rightarrow> (Proceed, r1)) =
    (if \<not> pe_db_ok env (fst r) then Unverified
     else if must_enroll (pe_others env (fst r) (snd r)) uid then EnrollmentRequired else Proceed)"
    using assms(3) by (simp add: isMfaEnrollmentRequired_def policy_statement_def db_read_statement given_def split: bool.splits)
  then show ?thesis using assms by (auto simp: mfaEnforcementHook_def protected_def given_def Let_def)
qed

lemma read_session_id: "read_session types payload = Some s \<Longrightarrow> ss_id s \<noteq> []"
  by (auto simp: read_session_def isUserSessionPayload_def given_def split: if_splits option.splits)

lemma view_principal:
  assumes "impersonationHook cr ky env vr r = (AsSubject ctx, r')"
  shows "\<exists>payload admin. vr_jwt vr = Some payload \<and> read_session USER_SESSION_TOKEN_TYPES payload = Some admin \<and>
    requestPrincipalId verify (viewed_request vr ctx) = Some (ss_id admin) \<and> ss_id admin \<noteq> []"
  using hook_safe_holds [OF assms] read_session_id
  by (fastforce simp: hook_safe_def view_authorized_def requestPrincipalId_def viewed_request_def)

text \<open>A support view cannot be used to escape the administrator's own two-factor requirement: a request that runs as
  the viewed person passes the enrollment hook on a protected route only if the administrator who opened the view,
  read from the session cookie, does not have to enroll in the state the hook reads; a failed lookup never passes.\<close>

theorem view_does_not_escape_enrollment:
  assumes "impersonationHook cr ky aenv vr r = (AsSubject ctx, r')" and "protected (viewed_request vr ctx)"
    and "fst (mfaEnforcementHook verify env (viewed_request vr ctx) q) = Proceed"
  shows "\<exists>payload admin. vr_jwt vr = Some payload \<and> read_session USER_SESSION_TOKEN_TYPES payload = Some admin \<and>
    pe_db_ok env (fst q) \<and> \<not> must_enroll (pe_others env (fst q) (snd q)) (ss_id admin) \<and> may_pass_in_view (vr_http vr)"
proof -
  obtain payload admin where p: "vr_jwt vr = Some payload" "read_session USER_SESSION_TOKEN_TYPES payload = Some admin"
      "requestPrincipalId verify (viewed_request vr ctx) = Some (ss_id admin)" "ss_id admin \<noteq> []"
    using view_principal [OF assms(1)] by blast
  have "may_pass_in_view (vr_http vr)" using hook_safe_holds [OF assms(1)] by (simp add: hook_safe_def)
  then show ?thesis
    using p assms(3) hook_protected [OF assms(2) p(3,4), of env q] by (auto split: if_splits)
qed

subsection \<open>Turning the requirement on\<close>

definition accounts_ok :: "policy_db \<Rightarrow> bool" where
  "accounts_ok db \<longleftrightarrow> distinct (map u_id (po_users db)) \<and>
     (\<forall>u \<in> set (po_users db). u_id u \<noteq> [] \<and> u_mfaSecret u \<noteq> Some []) \<and> distinct (map fst (po_mfaRequired db))"

lemma enrolled_iff:
  "u_mfaSecret u \<noteq> Some [] \<Longrightarrow> isMfaRequired (Some (user.truncate u)) \<longleftrightarrow> u_mfaEnabled u \<and> u_mfaSecret u \<noteq> None"
  by (auto simp: isMfaRequired_def user.defs split: option.splits)

lemma eligible_iff: "isMfaEligible (Some (user.truncate u)) \<longleftrightarrow> u_role u \<notin> set MFA_INELIGIBLE_ROLES"
  by (simp add: isMfaEligible_def user.defs)

text \<open>The accounts the service lists are the active accounts of the organization the hook restricts.\<close>

lemma must_enroll_iff:
  assumes "accounts_ok db" and "u \<in> set (po_users db)" and "u_organizationId u = Some org" and "map_of (po_mfaRequired db) org = Some True"
    and "u_isActive u"
  shows "must_enroll db (u_id u) \<longleftrightarrow> staffWithoutMfaWhere org u"
proof -
  have "find_row (\<lambda>x. u_id x = u_id u) (po_users db) = Some u"
    using assms(1,2) by (intro find_row_distinct) (auto simp: accounts_ok_def)
  moreover have "u_mfaSecret u \<noteq> Some []" using assms(1,2) by (auto simp: accounts_ok_def)
  ultimately show ?thesis
    using assms(3-5) by (auto simp: must_enroll_def mustEnrollMfa_def org_required_def enrolled_iff eligible_iff
        staffWithoutMfaWhere_def)
qed

lemma requirement_update_on:
  assumes "distinct (map fst flags)" and "org \<in> fst ` set flags"
  shows "map_of (update_rows (\<lambda>(x, flag). x = org \<and> flag = (\<not> b)) (\<lambda>(x, _). (x, b)) flags) org = Some b"
  using assms by (induction flags) (auto split: if_splits)

lemma requirement_update_others:
  "x \<noteq> org \<Longrightarrow> map_of (update_rows (\<lambda>(y, flag). y = org \<and> flag = (\<not> b)) (\<lambda>(y, _). (y, b)) flags) x = map_of flags x"
  by (induction flags) (auto split: if_splits)

lemma requirement_update_count:
  assumes "distinct (map fst flags)" and "org \<in> fst ` set flags"
  shows "count_rows (\<lambda>(x, flag). x = org \<and> flag = (\<not> b)) flags = 1 \<longleftrightarrow> map_of flags org = Some (\<not> b)"
proof -
  have none: "org \<notin> fst ` set fs \<Longrightarrow> filter (\<lambda>(x, flag). x = org \<and> flag = (\<not> b)) fs = []" for fs
    by (induction fs) (auto simp: image_iff)
  show ?thesis using assms
  proof (induction flags)
    case (Cons a flags)
    then show ?case using none [of flags] by (cases "fst a = org") (auto simp: count_rows_def)
  qed simp
qed

definition settings_kept :: "policy_env \<Rightarrow> bool" where
  "settings_kept env \<longleftrightarrow> (\<forall>k db. po_users (pe_others env k db) = po_users db \<and> po_mfaRequired (pe_others env k db) = po_mfaRequired db)"

definition same_settings :: "policy_db \<Rightarrow> policy_db \<Rightarrow> bool" where
  "same_settings a b \<longleftrightarrow> po_users a = po_users b \<and> po_mfaRequired a = po_mfaRequired b"

lemma others_same: "settings_kept env \<Longrightarrow> same_settings (pe_others env k db) db"
  by (simp add: settings_kept_def same_settings_def)

lemma policy_read:
  assumes "settings_kept env" and "policy_statement env (db_read q) r = (Some x, r1)"
  shows "same_settings (snd r1) (snd r) \<and> (\<exists>db. x = q db \<and> same_settings db (snd r))"
  using assms others_same [OF assms(1)] by (auto simp: policy_statement_def db_read_statement split: if_splits)

lemma same_settings_trans: "same_settings a b \<Longrightarrow> same_settings b c \<Longrightarrow> same_settings a c"
  by (simp add: same_settings_def)

lemma must_enroll_cong: "same_settings a b \<Longrightarrow> must_enroll a uid = must_enroll b uid"
  by (simp add: must_enroll_def same_settings_def org_required_def [abs_def] Let_def)

lemma policy_kept:
  assumes env: "settings_kept env" and p: "getOrganizationMfaPolicy env org actor r = (Inr p, r')"
  shows "same_settings (snd r') (snd r) \<and> (pl_required p \<longleftrightarrow> map_of (po_mfaRequired (snd r)) org = Some True) \<and>
    pl_staffWithoutMfa p = countStaffWithoutMfa org (snd r)"
proof -
  let ?q1 = "\<lambda>db. map_of (po_mfaRequired db) org"
  obtain req r1 where s1: "policy_statement env (db_read ?q1) r = (Some req, r1)"
    using p by (auto simp: getOrganizationMfaPolicy_def split: option.splits prod.splits)
  obtain n r2 where s2: "policy_statement env (db_read (countStaffWithoutMfa org)) r1 = (Some n, r2)"
    using p s1 by (auto simp: getOrganizationMfaPolicy_def split: option.splits prod.splits)
  obtain a where s3: "policy_statement env (db_read (loadActor actor)) r2 = (Some a, r')"
    and res: "p = \<lparr>pl_required = (req = Some True), pl_staffWithoutMfa = n, pl_actorMfaEnabled = enrolled a\<rparr>"
    using p s1 s2 by (auto simp: getOrganizationMfaPolicy_def split: option.splits prod.splits)
  show ?thesis
    using policy_read [OF env s1] policy_read [OF env s2] policy_read [OF env s3] res
    by (auto simp: same_settings_def countStaffWithoutMfa_def)
qed

lemma change_effect:
  assumes env: "settings_kept env" and ok: "accounts_ok (snd r)" and org: "org \<in> fst ` set (po_mfaRequired (snd r))"
    and c: "change_requirement env request org actor required r = (Inr (p, changed), r')"
  shows "map_of (po_mfaRequired (snd r')) org = Some required \<and>
    (\<forall>x. x \<noteq> org \<longrightarrow> map_of (po_mfaRequired (snd r')) x = map_of (po_mfaRequired (snd r)) x) \<and> po_users (snd r') = po_users (snd r) \<and> accounts_ok (snd r') \<and>
    pl_required p = required \<and> pl_staffWithoutMfa p = length (listStaffIdsWithoutMfa org (snd r)) \<and>
    (changed \<longleftrightarrow> map_of (po_mfaRequired (snd r)) org = Some (\<not> required))"
proof -
  let ?P = "\<lambda>(x, flag). x = org \<and> flag = (\<not> required)" and ?f = "\<lambda>(x, _ :: bool). (x, required)"
  let ?flags = "po_mfaRequired (snd r)"
  obtain n r1 where u: "policy_statement env (requirement_update org required) r = (Some n, r1)"
    using c by (auto simp: change_requirement_def split: option.splits prod.splits)
  obtain r2 where g: "getOrganizationMfaPolicy env org actor r1 = (Inr p, r2)" and ch: "changed \<longleftrightarrow> n = 1"
    and r': "r' = r2 \<or> (\<exists>e. r' = audit_requirement env request e r2)"
    using c u by (auto simp: change_requirement_def split: sum.splits prod.splits if_splits)
  have n: "n = count_rows ?P ?flags" and flags: "po_mfaRequired (snd r1) = update_rows ?P ?f ?flags"
    and users: "po_users (snd r1) = po_users (snd r)"
    using u env by (auto simp: policy_statement_def db_statement_def requirement_update_def settings_kept_def po_users_def Let_def
        split: if_splits)
  have "po_users (snd (audit_requirement env request e r2)) = po_users (snd r2) \<and>
      po_mfaRequired (snd (audit_requirement env request e r2)) = po_mfaRequired (snd r2)" for e
    using env by (simp add: audit_requirement_def policy_statement_def db_statement_def settings_kept_def po_users_def Let_def)
  then have same: "same_settings (snd r') (snd r1)"
    using r' policy_kept [OF env g] by (auto simp: same_settings_def)
  have d: "distinct (map fst ?flags)" using ok by (simp add: accounts_ok_def)
  have "map_of (po_mfaRequired (snd r1)) org = Some required"
    unfolding flags using d org by (rule requirement_update_on)
  moreover have "\<forall>x. x \<noteq> org \<longrightarrow> map_of (po_mfaRequired (snd r1)) x = map_of ?flags x"
    unfolding flags by (simp add: requirement_update_others)
  moreover have "map fst (po_mfaRequired (snd r1)) = map fst ?flags"
    unfolding flags by (auto simp: update_rows_def)
  moreover have "count_rows ?P ?flags = 1 \<longleftrightarrow> map_of ?flags org = Some (\<not> required)"
    using d org by (rule requirement_update_count)
  ultimately show ?thesis
    using same policy_kept [OF env g] ok ch n users
    by (auto simp: same_settings_def accounts_ok_def listStaffIdsWithoutMfa_def countStaffWithoutMfa_def count_rows_def)
qed

lemma must_enroll_other:
  assumes "\<forall>x. x \<noteq> org \<longrightarrow> map_of (po_mfaRequired b) x = map_of (po_mfaRequired a) x" and "po_users b = po_users a"
    and "distinct (map u_id (po_users a))" and "u \<in> set (po_users a)" and "u_organizationId u \<noteq> Some org"
  shows "must_enroll b (u_id u) = must_enroll a (u_id u)"
proof -
  have "find_row (\<lambda>x. u_id x = u_id u) (po_users a) = Some u" using assms(3,4) by (intro find_row_distinct) auto
  moreover have "org_required b u = org_required a u"
    using assms(1,5) by (cases "u_organizationId u") (simp_all add: org_required_def)
  ultimately show ?thesis using assms(2) by (simp add: must_enroll_def)
qed

lemma listed_iff:
  assumes "distinct (map u_id (po_users db))" and "u \<in> set (po_users db)"
  shows "u_id u \<in> set (listStaffIdsWithoutMfa org db) \<longleftrightarrow> staffWithoutMfaWhere org u"
proof -
  have "v = u" if "v \<in> set (po_users db)" "u_id v = u_id u" for v
    using assms that by (metis find_row_distinct option.inject)
  then show ?thesis using assms(2) by (auto simp: listStaffIdsWithoutMfa_def)
qed

text \<open>What a successful change does, before any request is considered.\<close>

lemma requirement_set:
  assumes env: "settings_kept env" and ok: "accounts_ok (snd r)" and org: "org \<in> fst ` set (po_mfaRequired (snd r))"
    and s: "setOrganizationMfaRequirement env request org actor True r = (Inr (p, changed), r')"
  shows "map_of (po_mfaRequired (snd r')) org = Some True \<and>
    (\<forall>x. x \<noteq> org \<longrightarrow> map_of (po_mfaRequired (snd r')) x = map_of (po_mfaRequired (snd r)) x) \<and>
    po_users (snd r') = po_users (snd r) \<and> accounts_ok (snd r') \<and> enrolled (loadActor actor (snd r)) \<and>
    pl_required p \<and> pl_staffWithoutMfa p = length (listStaffIdsWithoutMfa org (snd r)) \<and>
    (changed \<longleftrightarrow> map_of (po_mfaRequired (snd r)) org = Some False)"
proof -
  obtain a r1 where s1: "policy_statement env (db_read (loadActor actor)) r = (Some a, r1)" and en: "enrolled a"
    and c: "change_requirement env request org actor True r1 = (Inr (p, changed), r')"
    using s by (simp add: setOrganizationMfaRequirement_def split: option.splits prod.splits if_splits)
  obtain db where a: "a = loadActor actor db" and k: "same_settings (snd r1) (snd r)" "same_settings db (snd r)"
    using policy_read [OF env s1] by auto
  have r1: "accounts_ok (snd r1)" "org \<in> fst ` set (po_mfaRequired (snd r1))" "po_users (snd r1) = po_users (snd r)"
      "po_mfaRequired (snd r1) = po_mfaRequired (snd r)" "listStaffIdsWithoutMfa org (snd r1) = listStaffIdsWithoutMfa org (snd r)"
    using ok org k(1) by (simp_all add: same_settings_def accounts_ok_def listStaffIdsWithoutMfa_def)
  show ?thesis
    using change_effect [OF env r1(1,2) c] en a k(2) unfolding r1(3-5) by (simp add: loadActor_def same_settings_def)
qed

text \<open>C32: Turning the two-factor requirement on takes effect at once on exactly the listed staff, and is safe for the
  administrator who does it. While no one else changes accounts or requirements, when the change succeeds: the reported
  number is the number of listed staff without two-factor, and a change is reported exactly when the flag was off. From
  then on a protected request of an active account of the organization is refused for enrollment when the account is
  listed and proceeds when it is not (clients, bots and enrolled staff are not; a failed lookup refuses both); whether
  an account of another organization must enroll is unchanged; and no request of the administrator is refused for
  enrollment.\<close>

theorem requirement_takes_effect:
  assumes env: "settings_kept env" and ok: "accounts_ok (snd r)" and org: "org \<in> fst ` set (po_mfaRequired (snd r))"
    and s: "setOrganizationMfaRequirement env request org actor True r = (Inr (p, changed), r')"
    and rq: "protected rq" "requestPrincipalId verify rq = Some uid"
    and u: "u \<in> set (po_users (snd r))" "u_id u = uid" "u_isActive u"
  shows "pl_required p \<and> pl_staffWithoutMfa p = length (listStaffIdsWithoutMfa org (snd r)) \<and>
    (changed \<longleftrightarrow> map_of (po_mfaRequired (snd r)) org = Some False) \<and>
    (u_organizationId u = Some org \<longrightarrow> fst (mfaEnforcementHook verify env rq r') =
       (if \<not> pe_db_ok env (fst r') then Unverified
        else if uid \<in> set (listStaffIdsWithoutMfa org (snd r)) then EnrollmentRequired else Proceed)) \<and>
    (u_organizationId u \<noteq> Some org \<longrightarrow> must_enroll (snd r') uid = must_enroll (snd r) uid) \<and>
    (uid = actor \<longrightarrow> fst (mfaEnforcementHook verify env rq r') \<noteq> EnrollmentRequired)"
proof -
  note eff = requirement_set [OF env ok org s]
  have ne: "uid \<noteq> []" and d: "distinct (map u_id (po_users (snd r)))" using ok u by (auto simp: accounts_ok_def)
  note hook = hook_protected [OF rq ne, of env r', unfolded must_enroll_cong [OF others_same [OF env]]]
  have "must_enroll (snd r') uid \<longleftrightarrow> uid \<in> set (listStaffIdsWithoutMfa org (snd r))" if "u_organizationId u = Some org"
    using must_enroll_iff [of "snd r'" u org] listed_iff [OF d u(1), of org] eff u that by simp
  moreover have "must_enroll (snd r') uid = must_enroll (snd r) uid" if "u_organizationId u \<noteq> Some org"
    using must_enroll_other [of org "snd r'" "snd r" u] eff d u that by simp
  moreover have "\<not> must_enroll (snd r') uid" if "uid = actor"
    using eff that by (auto simp: must_enroll_def mustEnrollMfa_def enrolled_def loadActor_def isMfaRequired_def
        split: option.splits)
  ultimately show ?thesis using eff hook by simp
qed

subsection \<open>Witnesses\<close>

definition enrolled_account :: "string \<Rightarrow> account" where
  "enrolled_account uid = (sample_account uid ''ADMIN'')\<lparr>u_mfaEnabled := True, u_mfaSecret := Some ''secret''\<rparr>"

definition sample_policy :: policy_db where
  "sample_policy = \<lparr>po_access = \<lparr>ax_users = [enrolled_account ''u1'', sample_account ''u2'' ''TEAM''], ax_contacts = [], ax_views = [],
     ax_audit = sample_audit_db\<rparr>, po_mfaRequired = [(''org1'', False)]\<rparr>"

definition sample_policy_env :: policy_env where
  "sample_policy_env = \<lparr>pe_now = (\<lambda>_. 6), pe_others = (\<lambda>_ db. db), pe_db_ok = (\<lambda>_. True), pe_ext = sample_audit_ext\<rparr>"

definition sample_audit_request :: audit_request where
  "sample_audit_request = \<lparr>rq_userId = Some ''u1'', rq_userRole = Some ''ADMIN'', rq_userOrganizationId = Some ''org1'',
     rq_impersonation = None, rq_id = None, rq_ip = None\<rparr>"

definition sample_mfa_request :: "string \<Rightarrow> mfa_request" where
  "sample_mfa_request uid = \<lparr>mr_http = sample_http ''GET'' ''/api/projects'', mr_impersonation = None, mr_userId = Some uid,
     mr_authorization = None, mr_cookie = None\<rparr>"

lemma sample_policy_statement:
  "policy_statement sample_policy_env f (k, db) = (case f db of (x, db') \<Rightarrow> (Some x, Suc k, db'))"
  by (simp add: policy_statement_def db_statement_def sample_policy_env_def)

lemma sample_requirement_set:
  "fst (setOrganizationMfaRequirement sample_policy_env sample_audit_request ''org1'' ''u1'' True (0, sample_policy)) =
     Inr (\<lparr>pl_required = True, pl_staffWithoutMfa = 1, pl_actorMfaEnabled = True\<rparr>, True)"
  by (simp add: setOrganizationMfaRequirement_def change_requirement_def getOrganizationMfaPolicy_def sample_policy_statement db_read_def
      requirement_update_def sample_policy_def enrolled_account_def sample_account_def loadActor_def po_users_def enrolled_def
      isMfaRequired_def find_row_def count_rows_def countStaffWithoutMfa_def staffWithoutMfaWhere_def MFA_INELIGIBLE_ROLES_def user.defs)

lemma sample_accounts_ok: "accounts_ok sample_policy"
  by (simp add: accounts_ok_def sample_policy_def po_users_def enrolled_account_def sample_account_def)

lemma projects_protected:
  "starts_with ''/api/'' (normalizedPath (requestPath (sample_http ''GET'' ''/api/projects'')))"
  "\<not> isMfaEnrollmentAllowedRoute ''GET'' ''/api/projects''"
  by (simp add: sample_http_def, code_simp) code_simp

lemma sample_mfa_protected: "protected (sample_mfa_request uid)"
  using projects_protected
  by (auto simp: protected_def sample_mfa_request_def isPublicRoute_def sample_http_def given_def Let_def)

theorem requirement_takes_effect_witness:
  "fst (mfaEnforcementHook (\<lambda>_. None) sample_policy_env (sample_mfa_request ''u2'')
     (snd (setOrganizationMfaRequirement sample_policy_env sample_audit_request ''org1'' ''u1'' True (0, sample_policy)))) = EnrollmentRequired"
proof -
  let ?u = "sample_account ''u2'' ''TEAM''"
  have l: "''u2'' \<in> set (listStaffIdsWithoutMfa ''org1'' sample_policy)"
    by (simp add: listStaffIdsWithoutMfa_def sample_policy_def po_users_def sample_account_def enrolled_account_def
        staffWithoutMfaWhere_def MFA_INELIGIBLE_ROLES_def)
  have i: "requestPrincipalId (\<lambda>_. None) (sample_mfa_request ''u2'') = Some ''u2''"
    by (simp add: requestPrincipalId_def own_principal_def sample_mfa_request_def given_def)
  have k: "settings_kept sample_policy_env" by (simp add: settings_kept_def sample_policy_env_def)
  have o: "''org1'' \<in> fst ` set (po_mfaRequired (snd (0 :: nat, sample_policy)))" by (simp add: sample_policy_def)
  have u: "?u \<in> set (po_users (snd (0 :: nat, sample_policy)))" "u_id ?u = ''u2''" "u_isActive ?u" "u_organizationId ?u = Some ''org1''"
    by (simp_all add: sample_policy_def po_users_def sample_account_def)
  have a: "accounts_ok (snd (0 :: nat, sample_policy))" using sample_accounts_ok by simp
  have s: "setOrganizationMfaRequirement sample_policy_env sample_audit_request ''org1'' ''u1'' True (0, sample_policy) =
      (Inr (\<lparr>pl_required = True, pl_staffWithoutMfa = 1, pl_actorMfaEnabled = True\<rparr>, True),
       snd (setOrganizationMfaRequirement sample_policy_env sample_audit_request ''org1'' ''u1'' True (0, sample_policy)))"
    using sample_requirement_set by (metis prod.collapse)
  show ?thesis
    using requirement_takes_effect [OF k a o s sample_mfa_protected i u(1-3)] u(4) l by (simp add: sample_policy_env_def)
qed

theorem view_does_not_escape_enrollment_witness:
  "\<exists>payload admin. vr_jwt sample_view_request = Some payload \<and> read_session USER_SESSION_TOKEN_TYPES payload = Some admin \<and>
     \<not> must_enroll sample_policy (ss_id admin)"
proof -
  have p: "protected (viewed_request sample_view_request sample_context)"
    using projects_protected
    by (auto simp: protected_def viewed_request_def sample_view_request_def isPublicRoute_def sample_http_def given_def Let_def)
  have i: "requestPrincipalId (\<lambda>_. None) (viewed_request sample_view_request sample_context) = Some ''u1''"
    by (simp add: requestPrincipalId_def viewed_request_def sample_context_def view_context_of_def sample_row_def)
  have "\<not> must_enroll sample_policy ''u1''"
    by (simp add: must_enroll_def mustEnrollMfa_def sample_policy_def po_users_def enrolled_account_def sample_account_def find_row_def
        isMfaRequired_def user.defs)
  then have "fst (mfaEnforcementHook (\<lambda>_. None) sample_policy_env (viewed_request sample_view_request sample_context) (0, sample_policy)) = Proceed"
    using hook_protected [OF p i, of sample_policy_env "(0, sample_policy)"] by (simp add: sample_policy_env_def)
  then show ?thesis
    using view_does_not_escape_enrollment [OF sample_hook p, of "\<lambda>_. None" sample_policy_env "(0, sample_policy)"]
    by (auto simp: sample_policy_env_def)
qed

end
