(* ===== verification/Calendar.thy ===== *)
theory Calendar
  imports Prelude
begin

section \<open>Calendar dates: the Gregorian calendar, UTC parts of a time, ISO texts\<close>

text \<open>
  What the components share of JavaScript dates. A \<open>Date\<close> is its time value, an \<open>int\<close> of milliseconds
  since 1970-01-01T00:00:00Z (the range limit of time values, about \<open>\<plusminus>275000\<close> years, is outside the
  model); its UTC parts, \<open>setUTCDate\<close>, \<open>setUTCMonth\<close> and \<open>Date.UTC\<close> follow the standard's \<open>MakeDay\<close>: a month
  or a day out of range moves the date. A calendar date is also its text, \<^verbatim>\<open>YYYY-MM-DD\<close>; the code compares
  such texts with \<open><\<close> of strings, the order of \<open>List_Lexorder\<close> here, and it is shown that this is the
  order of the days.
\<close>

subsection \<open>The Gregorian calendar\<close>

definition leap_year :: "int \<Rightarrow> bool" where
  "leap_year y \<longleftrightarrow> y mod 4 = 0 \<and> (y mod 100 \<noteq> 0 \<or> y mod 400 = 0)"

definition month_lengths :: "int \<Rightarrow> int list" where
  "month_lengths y = [31, if leap_year y then 29 else 28, 31, 30, 31, 30, 31, 31, 30, 31, 30, 31]"

text \<open>Days since 1970-01-01.\<close>

definition day_number :: "int \<Rightarrow> int \<Rightarrow> int \<Rightarrow> int" where
  "day_number y m d =
     365 * y + (y + 3) div 4 - (y + 99) div 100 + (y + 399) div 400 + sum_list (take (nat (m - 1)) (month_lengths y)) + d - 1 - 719528"

definition valid_parts :: "int \<Rightarrow> int \<Rightarrow> int \<Rightarrow> bool" where
  "valid_parts y m d \<longleftrightarrow> 1 \<le> m \<and> m \<le> 12 \<and> 1 \<le> d \<and> d \<le> month_lengths y ! nat (m - 1)"

definition year_start :: "int \<Rightarrow> int" where
  "year_start y = day_number y 1 1"

definition year_of_day :: "int \<Rightarrow> int" where
  "year_of_day n =
     (let y = 1970 + (400 * n) div 146097
      in if year_start (y + 1) \<le> n then y + 1 else if n < year_start y then y - 1 else y)"

fun month_split :: "int list \<Rightarrow> int \<Rightarrow> int \<times> int" where
  "month_split [] d = (0, d)"
| "month_split (l # ls) d = (if d < l then (0, d) else (case month_split ls (d - l) of (m, r) \<Rightarrow> (m + 1, r)))"

text \<open>Year, month (1 to 12) and day of the month of a day number.\<close>

definition civil :: "int \<Rightarrow> int \<times> int \<times> int" where
  "civil n =
     (let y = year_of_day n
      in case month_split (month_lengths y) (n - year_start y) of (m, r) \<Rightarrow> (y, m + 1, r + 1))"

lemma year_start_eq: "year_start y = 365 * y + (y + 3) div 4 - (y + 99) div 100 + (y + 399) div 400 - 719528"
  by (simp add: year_start_def day_number_def)

lemma day_number_start: "day_number y m d = year_start y + sum_list (take (nat (m - 1)) (month_lengths y)) + d - 1"
  by (simp add: year_start_def day_number_def)

lemma year_length: "year_start (y + 1) = year_start y + sum_list (month_lengths y)"
proof -
  have step: "(y + k) div k = (y + j) div k + (if y mod k = 0 then 1 else 0)" if "0 < k" "j = k - 1" for j k :: int
  proof (cases "y mod k = 0")
    case True
    then obtain q where "y = q * k" by (metis mod_0_imp_dvd dvd_div_mult_self)
    moreover have "(q * k + (k - 1)) div k = q" using that by (simp add: div_pos_pos_trivial)
    ultimately show ?thesis using that by simp
  next
    case False
    have b: "0 \<le> y mod k - 1" "y mod k - 1 < k" using that False pos_mod_bound [of k y] pos_mod_sign [of k y] by linarith+
    have "y + k - 1 = (y mod k - 1) + (y div k + 1) * k" using div_mult_mod_eq [of y k] by (simp add: algebra_simps)
    then have "(y + k - 1) div k = y div k + 1" using that b by (simp only: div_mult_self1 [OF less_imp_neq [symmetric]]) (simp add: div_pos_pos_trivial)
    then have "(y + j) div k = y div k + 1" using that(2) by (simp add: add_diff_eq)
    moreover have "(y + k) div k = y div k + 1" using that div_add_self2 [of k y] by simp
    ultimately show ?thesis using False by simp
  qed
  have d: "y mod 400 = 0 \<Longrightarrow> y mod 100 = 0" "y mod 100 = 0 \<Longrightarrow> y mod 4 = 0"
    using dvd_trans [of "100" 400 y] dvd_trans [of "4" 100 y] by (simp_all add: dvd_eq_mod_eq_0 [symmetric])
  have e: "year_start (y + 1) = 365 * y + 365 + (y + 4) div 4 - (y + 100) div 100 + (y + 400) div 400 - 719528"
    by (simp add: year_start_eq algebra_simps)
  have l: "sum_list (month_lengths y) = 365 + (if leap_year y then 1 else 0)" by (simp add: month_lengths_def)
  have k: "(y + 4) div 4 = (y + 3) div 4 + (if y mod 4 = 0 then 1 else 0)"
    "(y + 100) div 100 = (y + 99) div 100 + (if y mod 100 = 0 then 1 else 0)"
    "(y + 400) div 400 = (y + 399) div 400 + (if y mod 400 = 0 then 1 else 0)"
    by (rule step; simp)+
  have "year_start (y + 1) - year_start y - sum_list (month_lengths y) =
      (if y mod 4 = 0 then 1 else 0) - (if y mod 100 = 0 then 1 else 0) + (if y mod 400 = 0 then 1 else 0) - (if leap_year y then 1 else 0)"
    unfolding e l k year_start_eq [of y] by (simp split del: if_split)
  moreover have "\<dots> = 0" using d unfolding leap_year_def by (cases "y mod 4 = 0"; cases "y mod 100 = 0"; cases "y mod 400 = 0") simp_all
  ultimately show ?thesis by (simp only: diff_eq_eq add_0)
qed

lemma month_lengths_pos: "l \<in> set (month_lengths y) \<Longrightarrow> 28 \<le> l \<and> l \<le> 31"
  by (auto simp: month_lengths_def split: if_splits)

lemma length_month_lengths [simp]: "length (month_lengths y) = 12"
  by (simp add: month_lengths_def)

lemma sum_month_lengths: "365 \<le> sum_list (month_lengths y) \<and> sum_list (month_lengths y) \<le> 366"
  by (simp add: month_lengths_def)

lemma year_start_less: "y < z \<Longrightarrow> year_start (y + 1) \<le> year_start z"
proof (induction "nat (z - y - 1)" arbitrary: z)
  case 0
  then have "z = y + 1" by simp
  then show ?case by simp
next
  case (Suc k)
  then have "year_start (y + 1) \<le> year_start (z - 1)" by simp
  then show ?case using year_length [of "z - 1"] sum_month_lengths [of "z - 1"] by simp
qed

lemma year_start_linear:
  "400 * year_start y \<le> 146097 * (y - 1970) + 589 \<and> 146097 * (y - 1970) - 506 \<le> 400 * year_start y"
proof -
  have "4 * ((y + 3) div 4) \<le> y + 3 \<and> y \<le> 4 * ((y + 3) div 4)"
    and "100 * ((y + 99) div 100) \<le> y + 99 \<and> y \<le> 100 * ((y + 99) div 100)"
    and "400 * ((y + 399) div 400) \<le> y + 399 \<and> y \<le> 400 * ((y + 399) div 400)"
    by linarith+
  then show ?thesis unfolding year_start_eq by (simp add: algebra_simps)
qed

lemma year_of_day: "year_start (year_of_day n) \<le> n" "n < year_start (year_of_day n + 1)"
proof -
  define y where "y = 1970 + (400 * n) div 146097"
  have y: "146097 * (y - 1970) \<le> 400 * n \<and> 400 * n < 146097 * (y - 1970) + 146097"
    unfolding y_def by simp linarith
  have "year_start (y - 1) \<le> n" using year_start_linear [THEN conjunct1, of "y - 1"] conjunct1 [OF y] by (simp add: algebra_simps)
  moreover have "n < year_start (y + 1 + 1)" using year_start_linear [THEN conjunct2, of "y + 1 + 1"] conjunct2 [OF y] by (simp add: algebra_simps)
  ultimately show "year_start (year_of_day n) \<le> n" "n < year_start (year_of_day n + 1)"
    unfolding year_of_day_def y_def [symmetric] Let_def by auto
qed

lemma year_of_day_unique:
  assumes "year_start y \<le> n" and "n < year_start (y + 1)"
  shows "year_of_day n = y"
proof (rule ccontr)
  assume "year_of_day n \<noteq> y"
  then consider "year_of_day n < y" | "y < year_of_day n" by linarith
  then show False using year_of_day [of n] assms year_start_less by cases fastforce+
qed

lemma month_split:
  assumes "\<And>l. l \<in> set ls \<Longrightarrow> 0 < l" and "0 \<le> d" and "d < sum_list ls" and "month_split ls d = (m, r)"
  shows "0 \<le> m \<and> m < int (length ls) \<and> 0 \<le> r \<and> r < ls ! nat m \<and> d = sum_list (take (nat m) ls) + r"
  using assms
proof (induction ls arbitrary: d m)
  case (Cons l ls)
  show ?case
  proof (cases "d < l")
    case False
    then obtain m' where m': "month_split ls (d - l) = (m', r)" "m = m' + 1"
      using Cons.prems(4) by (auto split: prod.splits)
    have "0 \<le> m' \<and> m' < int (length ls) \<and> 0 \<le> r \<and> r < ls ! nat m' \<and> d - l = sum_list (take (nat m') ls) + r"
      using Cons.prems False m' by (intro Cons.IH) auto
    moreover from this have "nat m = Suc (nat m')" using m'(2) nat_add_distrib [of m' 1] by simp
    ultimately show ?thesis using m'(2) by simp
  qed (use Cons.prems in auto)
qed simp

lemma month_split_at:
  assumes "\<And>l. l \<in> set ls \<Longrightarrow> 0 < l" and "m < length ls" and "0 \<le> r" and "r < ls ! m"
  shows "month_split ls (sum_list (take m ls) + r) = (int m, r)"
  using assms
proof (induction ls arbitrary: m)
  case (Cons l ls)
  show ?case
  proof (cases m)
    case (Suc k)
    have "0 \<le> sum_list (take k ls)" using Cons.prems(1) by (intro sum_list_nonneg) (auto dest!: in_set_takeD intro: less_imp_le)
    then show ?thesis using Cons Suc by auto
  qed (use Cons.prems in auto)
qed simp

lemma civil_valid:
  assumes "civil n = (y, m, d)"
  shows "valid_parts y m d" and "day_number y m d = n"
proof -
  obtain m' r where m: "month_split (month_lengths (year_of_day n)) (n - year_start (year_of_day n)) = (m', r)"
    by (cases "month_split (month_lengths (year_of_day n)) (n - year_start (year_of_day n))")
  have c: "y = year_of_day n" "m = m' + 1" "d = r + 1" using assms m by (auto simp: civil_def Let_def)
  have "0 \<le> m' \<and> m' < int (length (month_lengths y)) \<and> 0 \<le> r \<and> r < month_lengths y ! nat m' \<and>
      n - year_start y = sum_list (take (nat m') (month_lengths y)) + r"
    using m c(1) year_of_day [of n] year_length [of y] month_lengths_pos
    by (intro month_split) (auto, fastforce)
  then show "valid_parts y m d" "day_number y m d = n"
    using c by (auto simp: valid_parts_def day_number_start)
qed

lemma month_sum_bound:
  assumes "valid_parts y m d"
  shows "0 \<le> sum_list (take (nat (m - 1)) (month_lengths y))"
    and "sum_list (take (nat (m - 1)) (month_lengths y)) + month_lengths y ! nat (m - 1) \<le> sum_list (month_lengths y)"
proof -
  have m: "nat (m - 1) < length (month_lengths y)" using assms by (auto simp: valid_parts_def)
  have "sum_list (month_lengths y) =
      sum_list (take (nat (m - 1)) (month_lengths y)) + month_lengths y ! nat (m - 1) + sum_list (drop (Suc (nat (m - 1))) (month_lengths y))"
    using id_take_nth_drop [OF m] by (metis (no_types, lifting) add.assoc sum_list.Cons sum_list_append)
  moreover have "0 \<le> sum_list (drop (Suc (nat (m - 1))) (month_lengths y))"
    by (rule sum_list_nonneg) (auto dest!: in_set_dropD month_lengths_pos)
  moreover show "0 \<le> sum_list (take (nat (m - 1)) (month_lengths y))"
    by (rule sum_list_nonneg) (auto dest!: in_set_takeD month_lengths_pos)
  ultimately show "sum_list (take (nat (m - 1)) (month_lengths y)) + month_lengths y ! nat (m - 1) \<le> sum_list (month_lengths y)"
    by linarith
qed

lemma civil_day_number:
  assumes "valid_parts y m d"
  shows "civil (day_number y m d) = (y, m, d)"
proof -
  let ?S = "sum_list (take (nat (m - 1)) (month_lengths y))"
  have d: "1 \<le> d" "d \<le> month_lengths y ! nat (m - 1)" "1 \<le> m" "m \<le> 12" using assms by (auto simp: valid_parts_def)
  have y: "year_of_day (day_number y m d) = y"
    using month_sum_bound [OF assms] d by (intro year_of_day_unique) (auto simp: day_number_start year_length)
  have "month_split (month_lengths y) (?S + (d - 1)) = (int (nat (m - 1)), d - 1)"
    using d by (intro month_split_at) (auto dest: month_lengths_pos)
  then show ?thesis using d by (simp add: civil_def y Let_def) (simp add: day_number_start algebra_simps)
qed

text \<open>The order of the days is the order of year, month and day.\<close>

lemma day_number_less:
  assumes "valid_parts y m d" and "valid_parts y' m' d'"
    and "y < y' \<or> y = y' \<and> (m < m' \<or> m = m' \<and> d < d')"
  shows "day_number y m d < day_number y' m' d'"
proof -
  have d: "1 \<le> d" "d \<le> month_lengths y ! nat (m - 1)" "1 \<le> m" "m \<le> 12" "1 \<le> d'"
    using assms(1,2) by (auto simp: valid_parts_def)
  have b: "day_number y m d < year_start (y + 1)"
    using month_sum_bound [OF assms(1)] d by (simp add: day_number_start year_length)
  consider "y < y'" | "y = y'" "m < m'" | "y = y'" "m = m'" "d < d'" using assms(3) by blast
  then show ?thesis
  proof cases
    case 1
    then show ?thesis using b year_start_less [OF 1] month_sum_bound [OF assms(2)] d by (simp add: day_number_start)
  next
    case 2
    have t: "take (nat (m' - 1)) (month_lengths y) =
        take (nat (m - 1)) (month_lengths y) @ take (nat (m' - 1) - nat (m - 1)) (drop (nat (m - 1)) (month_lengths y))"
      using 2 by (metis le_add_diff_inverse nat_mono take_add diff_right_mono less_imp_le)
    have "drop (nat (m - 1)) (month_lengths y) = month_lengths y ! nat (m - 1) # drop (Suc (nat (m - 1))) (month_lengths y)"
      using d by (intro Cons_nth_drop_Suc [symmetric]) simp
    moreover obtain k where "nat (m' - 1) - nat (m - 1) = Suc k" using 2 d that [of "nat (m' - 1) - nat (m - 1) - 1"] by simp
    moreover have "0 \<le> sum_list (take k (drop (Suc (nat (m - 1))) (month_lengths y)))"
      by (rule sum_list_nonneg) (auto dest!: in_set_takeD in_set_dropD month_lengths_pos)
    ultimately show ?thesis using t 2 d by (simp add: day_number_start)
  qed (simp add: day_number_start)
qed

subsection \<open>UTC parts of a time\<close>

definition day_ms :: int where
  "day_ms = 86400000"

definition utc_day :: "timestamp \<Rightarrow> int" where
  "utc_day t = t div day_ms"

definition getUTCFullYear :: "timestamp \<Rightarrow> int" where
  "getUTCFullYear t = fst (civil (utc_day t))"

definition getUTCMonth :: "timestamp \<Rightarrow> int" where
  "getUTCMonth t = fst (snd (civil (utc_day t))) - 1"

definition getUTCDate :: "timestamp \<Rightarrow> int" where
  "getUTCDate t = snd (snd (civil (utc_day t)))"

text \<open>\<open>MakeDay\<close>: month 0 is January; a month outside 0 to 11 or a day outside the month moves the date.\<close>

definition make_day :: "int \<Rightarrow> int \<Rightarrow> int \<Rightarrow> int" where
  "make_day y m d = day_number (y + m div 12) (m mod 12 + 1) d"

definition Date_UTC :: "int \<Rightarrow> int \<Rightarrow> int \<Rightarrow> timestamp" where
  "Date_UTC y m d = make_day y m d * day_ms"

definition setUTCDate :: "timestamp \<Rightarrow> int \<Rightarrow> timestamp" where
  "setUTCDate t d = make_day (getUTCFullYear t) (getUTCMonth t) d * day_ms + t mod day_ms"

definition setUTCMonth :: "timestamp \<Rightarrow> int \<Rightarrow> timestamp" where
  "setUTCMonth t m = make_day (getUTCFullYear t) m (getUTCDate t) * day_ms + t mod day_ms"

lemma day_ms_pos [simp]: "0 < day_ms" "day_ms \<noteq> 0"
  by (simp_all add: day_ms_def)

lemma utc_day_ms [simp]: "utc_day (n * day_ms + t mod day_ms) = n" "utc_day (n * day_ms) = n"
  by (simp_all add: utc_day_def)

lemma ms_in_day [simp]: "(n * day_ms + t mod day_ms) mod day_ms = t mod day_ms" "(n * day_ms) mod day_ms = 0"
  by simp_all

lemma utc_day_split: "t = utc_day t * day_ms + t mod day_ms"
  by (simp add: utc_day_def)

lemma utc_day_less: "utc_day a < utc_day b \<Longrightarrow> a < b"
  unfolding utc_day_def by (metis linorder_not_less zdiv_mono1 day_ms_pos(1))

lemma utc_parts: "civil (utc_day t) = (getUTCFullYear t, getUTCMonth t + 1, getUTCDate t)"
  by (simp add: getUTCFullYear_def getUTCMonth_def getUTCDate_def)

lemmas utc_parts_valid = civil_valid [OF utc_parts]

lemma getUTCMonth_range: "0 \<le> getUTCMonth t" "getUTCMonth t \<le> 11"
  using utc_parts_valid(1) [of t] by (simp_all add: valid_parts_def)

lemma utc_of_parts:
  assumes "valid_parts y (m + 1) d"
  shows "civil (utc_day (day_number y (m + 1) d * day_ms + t mod day_ms)) = (y, m + 1, d)"
  using assms by (simp add: civil_day_number)

lemma day_number_days: "day_number y m (d + k) = day_number y m d + k"
  by (simp add: day_number_def)

lemma utc_day_setUTCDate: "utc_day (setUTCDate t d) = utc_day t + (d - getUTCDate t)"
proof -
  have "make_day (getUTCFullYear t) (getUTCMonth t) d = day_number (getUTCFullYear t) (getUTCMonth t + 1) (getUTCDate t + (d - getUTCDate t))"
    using getUTCMonth_range [of t] by (simp add: make_day_def)
  then show ?thesis unfolding setUTCDate_def day_number_days utc_parts_valid(2) by simp
qed

lemma setUTCDate_shift: "setUTCDate t (getUTCDate t + k) = t + k * day_ms"
proof -
  have "make_day (getUTCFullYear t) (getUTCMonth t) (getUTCDate t + k) = utc_day t + k"
    using utc_day_setUTCDate [of t "getUTCDate t + k"] by (simp add: setUTCDate_def)
  then show ?thesis using utc_day_split [of t] by (simp add: setUTCDate_def algebra_simps)
qed

text \<open>Months counted from year 0: a month and the length of a month.\<close>

definition month_index :: "timestamp \<Rightarrow> int" where
  "month_index t = 12 * getUTCFullYear t + getUTCMonth t"

definition month_length :: "int \<Rightarrow> int" where
  "month_length i = month_lengths (i div 12) ! nat (i mod 12)"

lemma month_length_bounds: "28 \<le> month_length i" "month_length i \<le> 31"
proof -
  have "month_length i \<in> set (month_lengths (i div 12))" unfolding month_length_def
    by (rule nth_mem) (simp add: nat_less_iff)
  then show "28 \<le> month_length i" "month_length i \<le> 31" using month_lengths_pos by blast+
qed

lemma valid_parts_index: "valid_parts (i div 12) (i mod 12 + 1) d \<longleftrightarrow> 1 \<le> d \<and> d \<le> month_length i"
proof -
  have "i mod 12 \<le> 11" using pos_mod_bound [of 12 i] by linarith
  then show ?thesis by (simp add: valid_parts_def month_length_def)
qed

lemma month_index_less: "month_index a < month_index b \<Longrightarrow> utc_day a < utc_day b"
proof -
  assume "month_index a < month_index b"
  then have "getUTCFullYear a < getUTCFullYear b \<or> getUTCFullYear a = getUTCFullYear b \<and> getUTCMonth a < getUTCMonth b"
    using getUTCMonth_range [of a] getUTCMonth_range [of b] by (auto simp: month_index_def)
  then have "day_number (getUTCFullYear a) (getUTCMonth a + 1) (getUTCDate a) < day_number (getUTCFullYear b) (getUTCMonth b + 1) (getUTCDate b)"
    by (intro day_number_less utc_parts_valid(1)) auto
  then show ?thesis unfolding utc_parts_valid(2) .
qed

text \<open>
  A date moved by \<open>k\<close> months and clamped to the last day of the month: the steps \<open>setUTCDate(1)\<close>,
  \<open>setUTCMonth\<close>, the last day by \<open>Date.UTC(y, m + 1, 0)\<close>, \<open>setUTCDate(min day last)\<close> of the code.
\<close>

definition clamped_month :: "timestamp \<Rightarrow> int \<Rightarrow> timestamp" where
  "clamped_month t k =
     (let i = month_index t + k
      in day_number (i div 12) (i mod 12 + 1) (min (getUTCDate t) (month_length i)) * day_ms + t mod day_ms)"

lemma clamped_month_parts:
  fixes t k
  defines "i \<equiv> month_index t + k"
  shows "getUTCFullYear (clamped_month t k) = i div 12" "getUTCMonth (clamped_month t k) = i mod 12"
    "getUTCDate (clamped_month t k) = min (getUTCDate t) (month_length i)"
    "month_index (clamped_month t k) = i" "clamped_month t k mod day_ms = t mod day_ms"
proof -
  have "1 \<le> getUTCDate t" using utc_parts_valid(1) [of t] by (simp add: valid_parts_def)
  then have v: "valid_parts (i div 12) (i mod 12 + 1) (min (getUTCDate t) (month_length i))"
    using month_length_bounds(1) [of i] by (simp add: valid_parts_index)
  show p: "getUTCFullYear (clamped_month t k) = i div 12" "getUTCMonth (clamped_month t k) = i mod 12"
    "getUTCDate (clamped_month t k) = min (getUTCDate t) (month_length i)"
    using utc_of_parts [OF v] unfolding clamped_month_def i_def [symmetric] Let_def
    by (simp_all add: getUTCFullYear_def getUTCMonth_def getUTCDate_def)
  show "month_index (clamped_month t k) = i" unfolding month_index_def p by simp
  show "clamped_month t k mod day_ms = t mod day_ms" by (simp add: clamped_month_def Let_def)
qed

lemma clamped_month_mono: "j < k \<Longrightarrow> clamped_month t j < clamped_month t k"
  by (rule utc_day_less, rule month_index_less) (simp add: clamped_month_parts)

lemma month_end:
  "day_number ((i + 1) div 12) ((i + 1) mod 12 + 1) 0 = day_number (i div 12) (i mod 12 + 1) (month_length i)"
proof (cases "i mod 12 = 11")
  case True
  then have "i + 1 = 12 * (i div 12 + 1) + 0" using div_mult_mod_eq [of i 12] by simp
  then have "(i + 1) div 12 = i div 12 + 1" "(i + 1) mod 12 = 0"
    using int_div_pos_eq [of "i + 1" 12 "i div 12 + 1" 0] int_mod_pos_eq [of "i + 1" 12 "i div 12 + 1" 0] by simp_all
  moreover have "sum_list (month_lengths y) = sum_list (take 11 (month_lengths y)) + month_lengths y ! 11" for y
    by (simp add: month_lengths_def)
  ultimately show ?thesis using True by (simp add: day_number_start year_length month_length_def)
next
  case False
  then have r: "0 \<le> i mod 12 + 1" "i mod 12 + 1 < 12" using pos_mod_bound [of 12 i] pos_mod_sign [of 12 i] by linarith+
  have s: "i + 1 = 12 * (i div 12) + (i mod 12 + 1)" using div_mult_mod_eq [of i 12] by simp
  have "(i + 1) div 12 = i div 12" "(i + 1) mod 12 = i mod 12 + 1"
    using int_div_pos_eq [OF s r] int_mod_pos_eq [OF s r] by simp_all
  moreover have "nat (1 + i mod 12) = Suc (nat (i mod 12))" using pos_mod_sign [of 12 i] nat_add_distrib [of 1 "i mod 12"] by simp
  moreover have "nat (i mod 12) < 12" by (simp add: nat_less_iff)
  ultimately show ?thesis by (simp add: day_number_start month_length_def take_Suc_conv_app_nth add.commute [of _ 1])
qed

lemma clamped_month_steps:
  "(let first = setUTCDate t 1;
        next = setUTCMonth first (getUTCMonth first + k);
        last_day = getUTCDate (Date_UTC (getUTCFullYear next) (getUTCMonth next + 1) 0)
    in setUTCDate next (min (getUTCDate t) last_day)) = clamped_month t k"
proof -
  define first where "first = setUTCDate t 1"
  define i where "i = month_index t + k"
  have v1: "valid_parts (getUTCFullYear t) (getUTCMonth t + 1) 1"
    using getUTCMonth_range [of t] month_lengths_pos [of "month_lengths (getUTCFullYear t) ! nat (getUTCMonth t)" "getUTCFullYear t"]
    by (auto simp: valid_parts_def intro: order_trans [of 1 28])
  have first: "getUTCFullYear first = getUTCFullYear t" "getUTCMonth first = getUTCMonth t" "getUTCDate first = 1" "first mod day_ms = t mod day_ms"
    using utc_of_parts [OF v1, of t] getUTCMonth_range [of t] utc_parts [of first]
    by (simp_all add: first_def setUTCDate_def make_day_def)
  define nxt where "nxt = setUTCMonth first (getUTCMonth first + k)"
  have i: "getUTCFullYear t + (getUTCMonth t + k) div 12 = i div 12" "(getUTCMonth t + k) mod 12 = i mod 12"
    by (simp_all add: i_def month_index_def add.assoc)
  have v2: "valid_parts (i div 12) (i mod 12 + 1) 1" using month_length_bounds(1) [of i] by (simp add: valid_parts_index)
  have nxt: "getUTCFullYear nxt = i div 12" "getUTCMonth nxt = i mod 12" "nxt mod day_ms = t mod day_ms"
    using utc_of_parts [OF v2, of first] utc_parts [of nxt] first
    by (simp_all add: nxt_def setUTCMonth_def make_day_def i)
  have l: "getUTCDate (Date_UTC (getUTCFullYear nxt) (getUTCMonth nxt + 1) 0) = month_length i"
  proof -
    have n: "day_number ((i + 1) div 12) ((i + 1) mod 12 + 1) 0 = day_number (i div 12) (i mod 12 + 1) (month_length i)"
      by (rule month_end)
    have "make_day (i div 12) (i mod 12 + 1) 0 = day_number ((i + 1) div 12) ((i + 1) mod 12 + 1) 0"
    proof -
      have "i div 12 + (i mod 12 + 1) div 12 = (i + 1) div 12" "(i mod 12 + 1) mod 12 = (i + 1) mod 12"
        by (simp add: div_add1_eq [of i 1 12], simp add: mod_add_left_eq)
      then show ?thesis by (simp add: make_day_def)
    qed
    moreover have "valid_parts (i div 12) (i mod 12 + 1) (month_length i)"
      using month_length_bounds(1) [of i] by (simp add: valid_parts_index)
    ultimately show ?thesis using n by (simp add: nxt Date_UTC_def getUTCDate_def civil_day_number)
  qed
  show ?thesis
    unfolding Let_def first_def [symmetric] nxt_def [symmetric] l
    by (simp add: setUTCDate_def nxt make_day_def clamped_month_def Let_def i_def [symmetric] pos_mod_bound)
qed

subsection \<open>Decimal numbers and ISO texts\<close>

definition digit_char :: "nat \<Rightarrow> char" where
  "digit_char n = char_of (48 + n)"

definition digits_int :: "string \<Rightarrow> int" where
  "digits_int s = foldl (\<lambda>a c. 10 * a + (of_char c - 48)) 0 s"

text \<open>The text of a date, \<open>toISOString().slice(0, 10)\<close>: a year outside 0 to 9999 has a sign and six digits.\<close>

definition date_text :: "int \<Rightarrow> int \<Rightarrow> int \<Rightarrow> string" where
  "date_text y m d =
     take 10 ((if 0 \<le> y \<and> y \<le> 9999 then padStart 4 CHR ''0'' (nat_text (nat y))
               else (if y < 0 then CHR ''-'' else CHR ''+'') # padStart 6 CHR ''0'' (nat_text (nat \<bar>y\<bar>)))
              @ ''-'' @ padStart 2 CHR ''0'' (nat_text (nat m)) @ ''-'' @ padStart 2 CHR ''0'' (nat_text (nat d)))"

definition iso_date :: "timestamp \<Rightarrow> string" where
  "iso_date t = date_text (getUTCFullYear t) (getUTCMonth t + 1) (getUTCDate t)"

definition date_parts :: "string \<Rightarrow> (int \<times> int \<times> int) option" where
  "date_parts s =
     (if length s = 10 \<and> all_in DIGITS (take 4 s) \<and> s ! 4 = CHR ''-'' \<and> all_in DIGITS (take 2 (drop 5 s)) \<and> s ! 7 = CHR ''-'' \<and>
         all_in DIGITS (drop 8 s)
      then Some (digits_int (take 4 s), digits_int (take 2 (drop 5 s)), digits_int (drop 8 s)) else None)"

text \<open>\<open>n\<close> with exactly \<open>k\<close> digits.\<close>

fun fixed_digits :: "nat \<Rightarrow> nat \<Rightarrow> string" where
  "fixed_digits 0 n = []"
| "fixed_digits (Suc k) n = fixed_digits k (n div 10) @ [digit_char (n mod 10)]"

lemma length_fixed_digits [simp]: "length (fixed_digits k n) = k"
  by (induction k arbitrary: n) simp_all

lemma of_digit_char: "n < 10 \<Longrightarrow> (of_char (digit_char n) :: nat) = 48 + n"
  by (simp add: digit_char_def)

lemma digit_set: "set DIGITS = digit_char ` {..<10}"
  unfolding DIGITS_def by (simp add: digit_char_def lessThan_Suc numeral_eq_Suc) (code_simp; blast)

lemma DIGITS_nth: "n < 10 \<Longrightarrow> DIGITS ! n = digit_char n"
proof -
  have "list_all (\<lambda>n. DIGITS ! n = digit_char n) [0..<10]" by code_simp
  then show "n < 10 \<Longrightarrow> DIGITS ! n = digit_char n" by (simp only: list_all_iff set_upt atLeastLessThan_iff) simp
qed

lemma digit_in: "n < 10 \<Longrightarrow> digit_char n \<in> set DIGITS"
  by (simp add: digit_set)

lemma fixed_digits_all [simp]: "all_in DIGITS (fixed_digits k n)"
  by (induction k arbitrary: n) (simp_all add: all_in_def digit_in)

lemma digit_char_0: "digit_char 0 = CHR ''0''"
  by code_simp

lemma fixed_digits_0: "fixed_digits k 0 = replicate k CHR ''0''"
  by (induction k) (simp_all add: digit_char_0 replicate_append_same)

lemma nat_text_fixed: "\<exists>k. 0 < k \<and> length (nat_text n) = k \<and> nat_text n = fixed_digits k n \<and> n < 10 ^ k \<and> (n = 0 \<or> 10 ^ (k - 1) \<le> n)"
proof (induction n rule: nat_text.induct)
  case (1 n)
  show ?case
  proof (cases "n < 10")
    case True
    then show ?thesis by (intro exI [of _ 1]) (simp add: nat_text.simps DIGITS_nth, linarith)
  next
    case False
    obtain k where k: "0 < k" "length (nat_text (n div 10)) = k" "nat_text (n div 10) = fixed_digits k (n div 10)"
      "n div 10 < 10 ^ k" "n div 10 = 0 \<or> 10 ^ (k - 1) \<le> n div 10"
      using 1 False by blast
    have "n div 10 \<noteq> 0" using False by simp
    then have "10 ^ (k - 1) * 10 \<le> n" using k(5) by (simp add: less_eq_div_iff_mult_less_eq)
    moreover have "10 ^ (k - 1) * 10 = (10 ^ k :: nat)" using k(1) by (cases k) simp_all
    moreover have "n < 10 ^ k * 10" using k(4) by (simp add: div_less_iff_less_mult)
    ultimately show ?thesis using k False by (intro exI [of _ "Suc k"]) (simp add: nat_text.simps [of n] DIGITS_nth)
  qed
qed

lemma fixed_digits_more: "n < 10 ^ k \<Longrightarrow> fixed_digits (j + k) n = replicate j CHR ''0'' @ fixed_digits k n"
proof (induction k arbitrary: n)
  case 0
  then show ?case by (simp add: fixed_digits_0)
next
  case (Suc k)
  then have "n div 10 < 10 ^ k" by (simp add: div_less_iff_less_mult mult.commute)
  then show ?case using Suc.IH by simp
qed

lemma padStart_nat_text: "0 < k \<Longrightarrow> n < 10 ^ k \<Longrightarrow> padStart k CHR ''0'' (nat_text n) = fixed_digits k n"
proof -
  assume k: "0 < k" "n < 10 ^ k"
  obtain j where j: "0 < j" "length (nat_text n) = j" "nat_text n = fixed_digits j n" "n < 10 ^ j" "n = 0 \<or> 10 ^ (j - 1) \<le> n"
    using nat_text_fixed by blast
  have "j \<le> k"
  proof (rule ccontr)
    assume "\<not> j \<le> k"
    then have "k \<le> j - 1" by simp
    then have "(10::nat) ^ k \<le> 10 ^ (j - 1)" by (intro power_increasing) simp_all
    then have n: "n = 0" using j(5) k(2) by linarith
    then have "nat_text n = [digit_char 0]" by (simp add: nat_text.simps DIGITS_nth)
    then show False using j(2) \<open>\<not> j \<le> k\<close> k(1) by simp
  qed
  then show ?thesis using fixed_digits_more [OF j(4), of "k - j"] j by (simp add: padStart_def)
qed

lemma digits_int_snoc: "digits_int (s @ [c]) = 10 * digits_int s + (of_char c - 48)"
  by (simp add: digits_int_def)

lemma digits_int_fixed: "n < 10 ^ k \<Longrightarrow> digits_int (fixed_digits k n) = int n"
proof (induction k arbitrary: n)
  case 0
  then show ?case by (simp add: digits_int_def)
next
  case (Suc k)
  then have "n div 10 < 10 ^ k" by (simp add: div_less_iff_less_mult mult.commute)
  moreover have "(of_char (digit_char (n mod 10)) :: int) = 48 + int (n mod 10)"
    using of_digit_char [of "n mod 10"] by (metis of_nat_add of_nat_numeral of_nat_of_char mod_less_divisor zero_less_numeral)
  moreover have "10 * int (n div 10) + int (n mod 10) = int n" by (simp add: zdiv_int zmod_int)
  ultimately show ?case using Suc.IH by (simp add: digits_int_snoc)
qed

lemma fixed_digits_int: "all_in DIGITS s \<Longrightarrow> \<exists>n. s = fixed_digits (length s) n \<and> n < 10 ^ length s"
proof (induction s rule: rev_induct)
  case (snoc c s)
  then obtain n where n: "s = fixed_digits (length s) n" "n < 10 ^ length s" by auto
  obtain d where d: "c = digit_char d" "d < 10" using snoc.prems by (auto simp: all_in_def digit_set)
  have "s @ [c] = fixed_digits (length (s @ [c])) (10 * n + d)" using n(1) d by simp
  moreover have "10 * n + d < 10 ^ length (s @ [c])" using n(2) d(2) by simp
  ultimately show ?case by blast
qed simp

lemma append_less:
  "length xs = length ys \<Longrightarrow> xs @ us < ys @ vs \<longleftrightarrow> xs < ys \<or> xs = ys \<and> us < (vs :: 'a :: linorder list)"
  by (induction xs ys rule: list_induct2) auto

text \<open>Digit strings of one length are ordered as strings the way their numbers are.\<close>

lemma digit_char_less: "m < 10 \<Longrightarrow> n < 10 \<Longrightarrow> digit_char m < digit_char n \<longleftrightarrow> m < n"
  by (simp add: less_char_def of_digit_char)

lemma fixed_digits_eq: "m < 10 ^ k \<Longrightarrow> n < 10 ^ k \<Longrightarrow> fixed_digits k m = fixed_digits k n \<longleftrightarrow> m = n"
  by (metis digits_int_fixed of_nat_eq_iff)

lemma fixed_digits_less:
  "m < 10 ^ k \<Longrightarrow> n < 10 ^ k \<Longrightarrow> fixed_digits k m < fixed_digits k n \<longleftrightarrow> m < n"
proof (induction k arbitrary: m n)
  case (Suc k)
  have d: "m div 10 < 10 ^ k" "n div 10 < 10 ^ k" using Suc.prems by (simp_all add: div_less_iff_less_mult mult.commute)
  have e: "fixed_digits k (m div 10) = fixed_digits k (n div 10) \<longleftrightarrow> m div 10 = n div 10"
    by (rule fixed_digits_eq [OF d])
  have "fixed_digits (Suc k) m < fixed_digits (Suc k) n \<longleftrightarrow>
      m div 10 < n div 10 \<or> m div 10 = n div 10 \<and> m mod 10 < n mod 10"
    by (simp add: append_less Suc.IH [OF d] e digit_char_less)
  also have "\<dots> \<longleftrightarrow> m < n"
  proof -
    have "(a < b \<or> a = b \<and> r < t) = (10 * a + r < 10 * b + t)" if "r < 10" "t < 10" for a b r t :: nat
      using that by linarith
    from this [of "m mod 10" "n mod 10" "m div 10" "n div 10"] show ?thesis by simp
  qed
  finally show ?case .
qed simp

text \<open>A text \<^verbatim>\<open>YYYY-MM-DD\<close> and its three numbers determine each other.\<close>

definition date_block :: "nat \<Rightarrow> nat \<Rightarrow> nat \<Rightarrow> string" where
  "date_block y m d = fixed_digits 4 y @ ''-'' @ fixed_digits 2 m @ ''-'' @ fixed_digits 2 d"

lemma date_text_block:
  assumes "y < 10000" and "m < 100" and "d < 100"
  shows "date_text (int y) (int m) (int d) = date_block y m d"
  using assms padStart_nat_text [of 4 y] padStart_nat_text [of 2 m] padStart_nat_text [of 2 d]
  by (simp add: date_text_def date_block_def)

lemma date_parts_block:
  assumes "y < 10000" and "m < 100" and "d < 100"
  shows "date_parts (date_block y m d) = Some (int y, int m, int d)"
  using assms digits_int_fixed [of y 4] digits_int_fixed [of m 2] digits_int_fixed [of d 2]
  by (simp add: date_parts_def date_block_def nth_append del: fixed_digits.simps)

lemma date_parts_text:
  assumes "0 \<le> y" "y \<le> 9999" "0 \<le> m" "m \<le> 99" "0 \<le> d" "d \<le> 99"
  shows "date_parts (date_text y m d) = Some (y, m, d)"
proof -
  obtain a b c where "y = int a" "m = int b" "d = int c" using assms by (metis nonneg_eq_int)
  then show ?thesis using assms date_text_block [of a b c] date_parts_block [of a b c] by simp
qed

lemma date_text_parts:
  assumes "date_parts s = Some (y, m, d)"
  shows "s = date_text y m d" and "0 \<le> y" "y \<le> 9999" "0 \<le> m" "m \<le> 99" "0 \<le> d" "d \<le> 99"
proof -
  have l: "length s = 10" and s4: "s ! 4 = CHR ''-''" and s7: "s ! 7 = CHR ''-''"
    and p: "digits_int (take 4 s) = y" "digits_int (take 2 (drop 5 s)) = m" "digits_int (drop 8 s) = d"
    and all: "all_in DIGITS (take 4 s)" "all_in DIGITS (take 2 (drop 5 s))" "all_in DIGITS (drop 8 s)"
    using assms by (auto simp: date_parts_def split: if_splits)
  obtain a where a: "take 4 s = fixed_digits 4 a" "a < 10000" using fixed_digits_int [OF all(1)] l by auto
  obtain b where b: "take 2 (drop 5 s) = fixed_digits 2 b" "b < 100" using fixed_digits_int [OF all(2)] l by auto
  obtain c where c: "drop 8 s = fixed_digits 2 c" "c < 100" using fixed_digits_int [OF all(3)] l by auto
  have y: "y = int a" "m = int b" "d = int c"
    using p a b c digits_int_fixed [of a 4] digits_int_fixed [of b 2] digits_int_fixed [of c 2] by simp_all
  have "s = take 4 s @ [s ! 4] @ take 2 (drop 5 s) @ [s ! 7] @ drop 8 s"
  proof -
    have "drop 4 s = s ! 4 # drop 5 s" "drop 7 s = s ! 7 # drop 8 s"
      using l Cons_nth_drop_Suc [of 4 s] Cons_nth_drop_Suc [of 7 s] by simp_all
    moreover have "drop 5 s = take 2 (drop 5 s) @ drop 7 s"
      using append_take_drop_id [of 2 "drop 5 s"] by simp
    ultimately show ?thesis using append_take_drop_id [of 4 s] by (metis append_Cons append_Nil)
  qed
  then have "s = date_block a b c" unfolding a(1) b(1) c(1) s4 s7 by (simp add: date_block_def)
  then show "s = date_text y m d" using a b c y date_text_block by simp
  show "0 \<le> y" "y \<le> 9999" "0 \<le> m" "m \<le> 99" "0 \<le> d" "d \<le> 99" using y a(2) b(2) c(2) by simp_all
qed

lemma date_block_less:
  assumes "y < 10000" "m < 100" "d < 100" "y' < 10000" "m' < 100" "d' < 100"
  shows "date_block y m d < date_block y' m' d' \<longleftrightarrow> y < y' \<or> y = y' \<and> (m < m' \<or> m = m' \<and> d < d')"
proof -
  have "fixed_digits 4 y < fixed_digits 4 y' \<longleftrightarrow> y < y'" "fixed_digits 4 y = fixed_digits 4 y' \<longleftrightarrow> y = y'"
    "fixed_digits 2 m < fixed_digits 2 m' \<longleftrightarrow> m < m'" "fixed_digits 2 m = fixed_digits 2 m' \<longleftrightarrow> m = m'"
    "fixed_digits 2 d < fixed_digits 2 d' \<longleftrightarrow> d < d'"
    using assms by (intro fixed_digits_less fixed_digits_eq; simp)+
  then show ?thesis by (simp add: date_block_def append_less)
qed

text \<open>The texts of existing dates, and the day of one.\<close>

definition valid_text :: "string \<Rightarrow> bool" where
  "valid_text s = (case date_parts s of None \<Rightarrow> False | Some (y, m, d) \<Rightarrow> valid_parts y m d)"

definition text_day :: "string \<Rightarrow> int" where
  "text_day s = (case date_parts s of None \<Rightarrow> 0 | Some (y, m, d) \<Rightarrow> day_number y m d)"

lemma valid_textE:
  assumes "valid_text s"
  obtains y m d where "date_parts s = Some (y, m, d)" "valid_parts y m d" "s = date_text y m d" "text_day s = day_number y m d" "0 \<le> y" "y \<le> 9999"
  using assms date_text_parts unfolding valid_text_def text_day_def by (fastforce split: option.splits prod.splits)

lemma valid_parts_small: "valid_parts y m d \<Longrightarrow> 0 \<le> m \<and> m \<le> 99 \<and> 0 \<le> d \<and> d \<le> 99"
  using month_lengths_pos [of "month_lengths y ! nat (m - 1)" y] by (auto simp: valid_parts_def)

lemma date_parts_valid_text:
  "valid_parts y m d \<Longrightarrow> 0 \<le> y \<Longrightarrow> y \<le> 9999 \<Longrightarrow> date_parts (date_text y m d) = Some (y, m, d)"
  using valid_parts_small [of y m d] by (intro date_parts_text) simp_all

lemma iso_date_valid:
  assumes "0 \<le> getUTCFullYear t" and "getUTCFullYear t \<le> 9999"
  shows "valid_text (iso_date t)" and "text_day (iso_date t) = utc_day t"
  using date_parts_valid_text [OF utc_parts_valid(1) [of t] assms] utc_parts_valid [of t]
  by (simp_all add: valid_text_def text_day_def iso_date_def)

lemma iso_date_of_text:
  assumes "valid_text s"
  shows "iso_date (text_day s * day_ms) = s"
proof -
  obtain y m d where p: "valid_parts y m d" "s = date_text y m d" "text_day s = day_number y m d" using assms by (rule valid_textE)
  then show ?thesis using civil_day_number [OF p(1)] by (simp add: iso_date_def getUTCFullYear_def getUTCMonth_def getUTCDate_def)
qed

lemma day_number_le_iff:
  assumes "valid_parts y m d" and "valid_parts y' m' d'"
  shows "day_number y m d < day_number y' m' d' \<longleftrightarrow> y < y' \<or> y = y' \<and> (m < m' \<or> m = m' \<and> d < d')"
  using day_number_less [OF assms] day_number_less [OF assms(2,1)] by (metis less_asym linorder_neqE less_irrefl)

lemma text_less_iff:
  assumes "valid_text s" and "valid_text t"
  shows "s < t \<longleftrightarrow> text_day s < text_day t"
proof -
  obtain y m d where p: "valid_parts y m d" "s = date_text y m d" "text_day s = day_number y m d" "0 \<le> y" "y \<le> 9999"
    using assms(1) by (rule valid_textE)
  obtain y' m' d' where q: "valid_parts y' m' d'" "t = date_text y' m' d'" "text_day t = day_number y' m' d'" "0 \<le> y'" "y' \<le> 9999"
    using assms(2) by (rule valid_textE)
  obtain a b c where i: "y = int a" "m = int b" "d = int c" "a < 10000" "b < 100" "c < 100"
    using p(4,5) valid_parts_small [OF p(1)] that [of "nat y" "nat m" "nat d"] by (simp add: nat_less_iff)
  obtain a' b' c' where i': "y' = int a'" "m' = int b'" "d' = int c'" "a' < 10000" "b' < 100" "c' < 100"
    using q(4,5) valid_parts_small [OF q(1)] that [of "nat y'" "nat m'" "nat d'"] by (simp add: nat_less_iff)
  show ?thesis
    using date_block_less [OF i(4-6) i'(4-6)] day_number_le_iff [OF p(1) q(1)]
    unfolding p(3) q(3) unfolding p(2) q(2) i i' date_text_block [OF i(4-6)] date_text_block [OF i'(4-6)] by simp
qed

lemma text_eq_iff: "valid_text s \<Longrightarrow> valid_text t \<Longrightarrow> s = t \<longleftrightarrow> text_day s = text_day t"
  by (metis iso_date_of_text)

lemma in_year: "year_start (getUTCFullYear t) \<le> utc_day t" "utc_day t < year_start (getUTCFullYear t + 1)"
  using utc_parts_valid [of t] month_sum_bound [OF utc_parts_valid(1) [of t]] by (simp_all add: day_number_start year_length valid_parts_def)

lemma year_before: "utc_day t < year_start (y + 1) \<Longrightarrow> getUTCFullYear t \<le> y"
proof (rule ccontr)
  assume a: "utc_day t < year_start (y + 1)" and "\<not> getUTCFullYear t \<le> y"
  then have "year_start (y + 1) \<le> year_start (getUTCFullYear t)" using year_start_less [of y "getUTCFullYear t"] by simp
  then show False using a in_year(1) [of t] by simp
qed

lemma year_from: "year_start y \<le> utc_day t \<Longrightarrow> y \<le> getUTCFullYear t"
proof (rule ccontr)
  assume a: "year_start y \<le> utc_day t" and "\<not> y \<le> getUTCFullYear t"
  then have "year_start (getUTCFullYear t + 1) \<le> year_start y" using year_start_less [of "getUTCFullYear t" y] by simp
  then show False using a in_year(2) [of t] by simp
qed

end
