(* ===== verification/Record_Calculations.thy ===== *)
theory Record_Calculations
  imports Domain_Events Calendar "HOL-Library.AList"
begin

section \<open>Record fields: formulas and rollups\<close>

text \<open>
  Models \<^verbatim>\<open>src/shared/record-calculations.js\<close>: the definitions of a collection's fields with their typed
  formulas and rollups (\<open>validateRecordDefinitions\<close>) and the evaluation of a record
  (\<open>calculateRecordFields\<close>).

  Definitions, values and related records are JSON values. Every violation of the validation is the same
  error (status 400), here \<open>None\<close>. The evaluation throws calculation errors with a code; what JavaScript
  would do with operands of a wrong type is not described, such an operation is \<open>Stuck\<close>, and it is shown
  that it never happens for validated definitions. The evaluation recurses through references between
  fields without a bound of its own; here it takes fuel, one unit per reference, and it is shown that the
  number of fields is enough.
\<close>

subsection \<open>Field definitions\<close>

datatype ftype =
    TText | TNumber | TBoolean | TDate | TUrl | TSelect | TMultiSelect | TRelation | TFormula | TRollup | TList

definition TYPES :: "string \<Rightarrow> ftype option" where
  "TYPES t = map_of [(''TEXT'', TText), (''NUMBER'', TNumber), (''BOOLEAN'', TBoolean), (''DATE'', TDate), (''URL'', TUrl),
     (''SELECT'', TSelect), (''MULTI_SELECT'', TMultiSelect), (''RELATION'', TRelation), (''FORMULA'', TFormula), (''ROLLUP'', TRollup)] t"

text \<open>Objects of related collections, by id: the caller supplies the stored definitions.\<close>

type_synonym catalog = "(string \<times> json) list"

record rfield =
  rf_key :: string
  rf_name :: string
  rf_type :: ftype
  rf_archived :: bool
  rf_required :: bool
  rf_options :: "string list"
  rf_collectionId :: "string option"
  rf_target :: "string option"
  rf_expression :: "json option"
  rf_relationKey :: "json option"
  rf_targetKey :: "json option"
  rf_aggregate :: "json option"

definition RESERVED :: "string list" where
  "RESERVED = [''__proto__'', ''prototype'', ''constructor'']"

definition LETTERS :: string where
  "LETTERS = ''abcdefghijklmnopqrstuvwxyzABCDEFGHIJKLMNOPQRSTUVWXYZ''"

definition safeKey :: "string \<Rightarrow> bool" where
  "safeKey key \<longleftrightarrow> key \<noteq> [] \<and> hd key \<in> set LETTERS \<and> length key \<le> 80 \<and> all_in (LETTERS @ DIGITS @ ''_-'') (tl key) \<and>
     key \<notin> set RESERVED"

definition exact :: "json \<Rightarrow> string list \<Rightarrow> bool" where
  "exact v keys = (case v of JObj kvs \<Rightarrow> list_all (\<lambda>(k, _). k \<in> set keys) kvs | _ \<Rightarrow> False)"

definition scalarType :: "ftype \<Rightarrow> ftype" where
  "scalarType t = (case t of TUrl \<Rightarrow> TText | TSelect \<Rightarrow> TText | _ \<Rightarrow> t)"

text \<open>A boolean member that may be missing.\<close>

definition flag_member :: "json \<Rightarrow> string \<Rightarrow> bool option" where
  "flag_member v k = (case jfield v k of None \<Rightarrow> Some False | Some (JBool b) \<Rightarrow> Some b | _ \<Rightarrow> None)"

fun str_list :: "json list \<Rightarrow> string list option" where
  "str_list [] = Some []"
| "str_list (JStr s # vs) = map_option (\<lambda>ss. s # ss) (str_list vs)"
| "str_list (_ # vs) = None"

definition is_array :: "json option \<Rightarrow> bool" where
  "is_array v = (case v of Some (JArr _) \<Rightarrow> True | _ \<Rightarrow> False)"

definition allowed_keys :: "ftype \<Rightarrow> string list" where
  "allowed_keys t = [''key'', ''name'', ''type'', ''archived'', ''required''] @
     (if t \<in> {TSelect, TMultiSelect} then [''options''] else if t = TRelation then [''collectionId'', ''target'']
      else if t = TFormula then [''expression''] else if t = TRollup then [''relationKey'', ''targetKey'', ''aggregate''] else [])"

definition read_options :: "ftype \<Rightarrow> json \<Rightarrow> string list option" where
  "read_options t v =
     (if t \<notin> {TSelect, TMultiSelect} then Some []
      else (case jfield v ''options'' of
        Some (JArr vs) \<Rightarrow>
          (case str_list vs of
             None \<Rightarrow> None
           | Some opts \<Rightarrow>
              if opts = [] \<or> 30 < length opts \<or> list_ex (\<lambda>s. js_trim s = [] \<or> 80 < length s) opts \<or> \<not> distinct opts
              then None else Some opts)
      | _ \<Rightarrow> None))"

definition read_relation :: "catalog \<Rightarrow> ftype \<Rightarrow> json \<Rightarrow> (string option \<times> string option) option" where
  "read_relation cat t v =
     (if t \<noteq> TRelation then Some (None, None)
      else (case jfield v ''target'' of
        Some (JStr target) \<Rightarrow>
          if target \<in> set [''TASK'', ''PROJECT'', ''CLIENT'', ''PERSON''] \<and> jfield v ''collectionId'' = None
          then Some (None, Some target) else None
      | Some _ \<Rightarrow> None
      | None \<Rightarrow>
          (case jfield v ''collectionId'' of
             Some (JStr cid) \<Rightarrow>
               if cid \<noteq> [] \<and> length cid \<le> 80 \<and> is_array (map_of cat cid) then Some (Some cid, None) else None
           | _ \<Rightarrow> None)))"

text \<open>The checks of one definition, apart from the uniqueness of keys and names.\<close>

definition read_field :: "catalog \<Rightarrow> json \<Rightarrow> rfield option" where
  "read_field cat v =
     (case (jfield v ''key'', jfield v ''name'', jfield v ''type'') of
        (Some (JStr key), Some (JStr name), Some (JStr ty)) \<Rightarrow>
          (case (TYPES ty, flag_member v ''archived'', flag_member v ''required'') of
             (Some t, Some archived, Some required) \<Rightarrow>
               (case (read_options t v, read_relation cat t v) of
                  (Some opts, Some (cid, target)) \<Rightarrow>
                    if \<not> safeKey key \<or> js_trim name = [] \<or> 80 < length name \<or> \<not> exact v (allowed_keys t) \<or>
                       (t \<in> {TFormula, TRollup} \<and> required)
                    then None
                    else Some \<lparr>rf_key = key, rf_name = name, rf_type = t, rf_archived = archived, rf_required = required,
                           rf_options = opts, rf_collectionId = cid, rf_target = target, rf_expression = jfield v ''expression'',
                           rf_relationKey = jfield v ''relationKey'', rf_targetKey = jfield v ''targetKey'',
                           rf_aggregate = jfield v ''aggregate''\<rparr>
                | _ \<Rightarrow> None)
           | _ \<Rightarrow> None)
      | _ \<Rightarrow> None)"

fun read_fields :: "catalog \<Rightarrow> string list \<Rightarrow> string list \<Rightarrow> json list \<Rightarrow> rfield list option" where
  "read_fields cat byKey names [] = Some []"
| "read_fields cat byKey names (v # vs) =
     (case read_field cat v of
        None \<Rightarrow> None
      | Some f \<Rightarrow>
         if js_lower (rf_key f) \<in> set byKey \<or> js_lower (js_trim (rf_name f)) \<in> set names then None
         else map_option (\<lambda>fs. f # fs)
                (read_fields cat (js_lower (rf_key f) # byKey) (js_lower (js_trim (rf_name f)) # names) vs))"

definition lookup_field :: "rfield list \<Rightarrow> string \<Rightarrow> rfield option" where
  "lookup_field fs key = find_row (\<lambda>f. rf_key f = key) fs"

subsection \<open>Typing formulas\<close>

datatype fop =
    Add | Subtract | Multiply | Divide | RoundTo | Equal | Greater | Less | AndOp | OrOp | NotOp | Concat | IfOp | Coalesce | DaysBetween

definition op_of :: "string \<Rightarrow> fop option" where
  "op_of s = map_of [(''add'', Add), (''subtract'', Subtract), (''multiply'', Multiply), (''divide'', Divide), (''round'', RoundTo),
     (''equal'', Equal), (''greater'', Greater), (''less'', Less), (''and'', AndOp), (''or'', OrOp), (''not'', NotOp), (''concat'', Concat),
     (''if'', IfOp), (''coalesce'', Coalesce), (''daysBetween'', DaysBetween)] s"

fun arities :: "fop \<Rightarrow> nat \<times> nat" where
  "arities Add = (2, 8)" | "arities Subtract = (2, 2)" | "arities Multiply = (2, 8)" | "arities Divide = (2, 2)"
| "arities RoundTo = (1, 2)" | "arities Equal = (2, 2)" | "arities Greater = (2, 2)" | "arities Less = (2, 2)"
| "arities AndOp = (2, 8)" | "arities OrOp = (2, 8)" | "arities NotOp = (1, 1)" | "arities Concat = (2, 8)"
| "arities IfOp = (3, 3)" | "arities Coalesce = (2, 8)" | "arities DaysBetween = (2, 2)"

definition literal_type :: "json \<Rightarrow> ftype option" where
  "literal_type v =
     (case v of JStr s \<Rightarrow> if length s \<le> 2000 then Some TText else None
      | JNum n \<Rightarrow> if is_finite n then Some TNumber else None
      | JBool _ \<Rightarrow> Some TBoolean | _ \<Rightarrow> None)"

text \<open>What an expression is, after the checks of its shape: a literal, a field, an operation, or none of them.\<close>

datatype eview = VLit json ftype | VRef string | VOp fop "json list" | VBad

definition expr_view :: "json \<Rightarrow> eview" where
  "expr_view e =
     (case jfield e ''literal'' of
        Some v \<Rightarrow> (case literal_type v of Some t \<Rightarrow> if exact e [''literal''] then VLit v t else VBad | None \<Rightarrow> VBad)
      | None \<Rightarrow>
         (case jfield e ''field'' of
            Some (JStr k) \<Rightarrow> if exact e [''field''] \<and> safeKey k then VRef k else VBad
          | Some _ \<Rightarrow> VBad
          | None \<Rightarrow>
             (case (jfield e ''op'', jfield e ''args'') of
                (Some (JStr s), Some (JArr es)) \<Rightarrow>
                  (case op_of s of
                     None \<Rightarrow> VBad
                   | Some op \<Rightarrow>
                      if exact e [''op'', ''args''] \<and> fst (arities op) \<le> length es \<and> length es \<le> snd (arities op) then VOp op es else VBad)
              | _ \<Rightarrow> VBad)))"

definition op_type :: "fop \<Rightarrow> ftype list \<Rightarrow> ftype option" where
  "op_type op ts =
     (let same = list_all (\<lambda>t. t = hd ts) ts; every = (\<lambda>t. list_all (\<lambda>x. x = t) ts)
      in if op \<in> {Add, Subtract, Multiply, Divide, RoundTo} then (if every TNumber then Some TNumber else None)
         else if op \<in> {Greater, Less} then (if same \<and> hd ts \<in> {TNumber, TDate} then Some TBoolean else None)
         else if op = Equal then (if same \<and> hd ts \<in> {TNumber, TText, TBoolean, TDate} then Some TBoolean else None)
         else if op \<in> {AndOp, OrOp, NotOp} then (if every TBoolean then Some TBoolean else None)
         else if op = Concat then (if every TText then Some TText else None)
         else if op = IfOp then (if ts ! 0 = TBoolean \<and> ts ! 1 = ts ! 2 then Some (ts ! 1) else None)
         else if op = Coalesce then (if same then Some (hd ts) else None)
         else (if every TDate then Some TNumber else None))"

datatype aggregate = AggCount | AggSum | AggAverage | AggMin | AggMax | AggUnique

definition aggregate_of :: "json option \<Rightarrow> aggregate option" where
  "aggregate_of v =
     (case v of
        Some (JStr s) \<Rightarrow> map_of [(''COUNT'', AggCount), (''SUM'', AggSum), (''AVERAGE'', AggAverage), (''MIN'', AggMin), (''MAX'', AggMax),
          (''UNIQUE'', AggUnique)] s
      | _ \<Rightarrow> None)"

definition relation_items :: "catalog \<Rightarrow> rfield \<Rightarrow> json list" where
  "relation_items cat relation =
     (case Option.bind (rf_collectionId relation) (map_of cat) of Some (JArr items) \<Rightarrow> items | _ \<Rightarrow> [])"

definition rollup_relation :: "rfield list \<Rightarrow> rfield \<Rightarrow> rfield option" where
  "rollup_relation fs f = (case rf_relationKey f of Some (JStr k) \<Rightarrow> lookup_field fs k | _ \<Rightarrow> None)"

definition rollupType :: "rfield list \<Rightarrow> catalog \<Rightarrow> rfield \<Rightarrow> ftype option" where
  "rollupType fs cat f =
     (case (rollup_relation fs f, aggregate_of (rf_aggregate f)) of
        (Some relation, Some agg) \<Rightarrow>
          if rf_archived relation \<or> rf_type relation \<noteq> TRelation \<or> rf_target relation \<noteq> None then None
          else if agg = AggCount then (if rf_targetKey f = None then Some TNumber else None)
          else (case find_row (\<lambda>item. jfield item ''key'' = rf_targetKey f \<and> \<not> truthy (jfield item ''archived'')) (relation_items cat relation) of
             None \<Rightarrow> None
           | Some target \<Rightarrow>
              if jfield target ''type'' \<notin> Some ` set (map JStr [''NUMBER'', ''TEXT'', ''SELECT'', ''BOOLEAN'', ''DATE'']) then None
              else if agg = AggUnique then Some TList
              else if jfield target ''type'' = Some (JStr ''NUMBER'') then Some TNumber else None)
      | _ \<Rightarrow> None)"

lemma expr_view_size: "expr_view e = VOp op es \<Longrightarrow> size_list size es < size e"
proof -
  assume "expr_view e = VOp op es"
  then have a: "jfield e ''args'' = Some (JArr es)"
    by (auto simp: expr_view_def split: option.splits json.splits if_splits)
  then obtain kvs where e: "e = JObj kvs" "map_of kvs ''args'' = Some (JArr es)" by (auto simp: jfield_def split: json.splits)
  have "size_list size es < size_list (size_prod (\<lambda>_. 0) size) kvs" if "map_of kvs k = Some (JArr es)" for k
    using that by (induction kvs) (auto split: if_splits)
  then show ?thesis using e by fastforce
qed

lemma expr_view_ref_size: "expr_view e = VRef k \<Longrightarrow> 0 < size e"
  by (cases e) (auto simp: expr_view_def jfield_def)

text \<open>
  The types found so far are threaded through, with the number of nodes of the formula; \<open>vis\<close> are the
  fields under way. A formula may refer to a field, whose formula is then typed first.
\<close>

type_synonym types = "(string \<times> ftype) list"

definition unvisited :: "rfield list \<Rightarrow> string list \<Rightarrow> nat" where
  "unvisited fs vis = card (rf_key ` set fs - set vis)"

lemma unvisited_less:
  "lookup_field fs key = Some f \<Longrightarrow> key \<notin> set vis \<Longrightarrow> unvisited fs (key # vis) < unvisited fs vis"
  unfolding unvisited_def lookup_field_def by (rule psubset_card_mono) (auto dest!: find_row_SomeD)

function (sequential) fieldType :: "rfield list \<Rightarrow> catalog \<Rightarrow> string list \<Rightarrow> types \<Rightarrow> string \<Rightarrow> (ftype \<times> types) option"
  and expressionType :: "rfield list \<Rightarrow> catalog \<Rightarrow> string list \<Rightarrow> nat \<Rightarrow> json \<Rightarrow> types \<times> nat \<Rightarrow> (ftype \<times> types \<times> nat) option"
  and argTypes :: "rfield list \<Rightarrow> catalog \<Rightarrow> string list \<Rightarrow> nat \<Rightarrow> json list \<Rightarrow> types \<times> nat \<Rightarrow> (ftype list \<times> types \<times> nat) option" where
  "fieldType fs cat vis types key =
     (case lookup_field fs key of
        None \<Rightarrow> None
      | Some f \<Rightarrow>
         if rf_archived f then None
         else (case map_of types key of
           Some t \<Rightarrow> Some (t, types)
         | None \<Rightarrow>
            if key \<in> set vis then None
            else if rf_type f = TFormula then
              (case rf_expression f of
                 None \<Rightarrow> None
               | Some e \<Rightarrow>
                  (case expressionType fs cat (key # vis) 0 e (types, 0) of
                     None \<Rightarrow> None
                   | Some (t, types1, _) \<Rightarrow>
                      if t \<in> {TNumber, TText, TBoolean, TDate} then Some (t, types1 @ [(key, t)]) else None))
            else if rf_type f = TRollup then map_option (\<lambda>t. (t, types @ [(key, t)])) (rollupType fs cat f)
            else Some (scalarType (rf_type f), types @ [(key, scalarType (rf_type f))])))"
| "expressionType fs cat vis depth e (types, nodes) =
     (if 100 < nodes + 1 \<or> 12 < depth then None
      else (case expr_view e of
        VLit v t \<Rightarrow> Some (t, types, nodes + 1)
      | VRef k \<Rightarrow> map_option (\<lambda>(t, types1). (t, types1, nodes + 1)) (fieldType fs cat vis types k)
      | VOp op es \<Rightarrow>
          (case argTypes fs cat vis (depth + 1) es (types, nodes + 1) of
             None \<Rightarrow> None
           | Some (ts, types1, nodes1) \<Rightarrow> map_option (\<lambda>t. (t, types1, nodes1)) (op_type op ts))
      | VBad \<Rightarrow> None))"
| "argTypes fs cat vis depth [] (types, nodes) = Some ([], types, nodes)"
| "argTypes fs cat vis depth (e # es) (types, nodes) =
     (case expressionType fs cat vis depth e (types, nodes) of
        None \<Rightarrow> None
      | Some (t, types1, nodes1) \<Rightarrow>
          map_option (\<lambda>(ts, types2, nodes2). (t # ts, types2, nodes2)) (argTypes fs cat vis depth es (types1, nodes1)))"
  by pat_completeness auto

termination
proof (relation "inv_image (less_than <*lex*> less_than) (\<lambda>x. case x of
      Inl (fs, cat, vis, types, key) \<Rightarrow> (unvisited fs vis, 0)
    | Inr (Inl (fs, cat, vis, depth, e, st)) \<Rightarrow> (unvisited fs vis, size e)
    | Inr (Inr (fs, cat, vis, depth, es, st)) \<Rightarrow> (unvisited fs vis, size_list size es))", goal_cases)
  case (4 fs cat vis depth e types nodes op es)
  then show ?case by (simp add: expr_view_size)
qed (auto simp: unvisited_less expr_view_ref_size)

fun check_fields :: "rfield list \<Rightarrow> catalog \<Rightarrow> string list \<Rightarrow> types \<Rightarrow> types option" where
  "check_fields fs cat [] types = Some types"
| "check_fields fs cat (k # ks) types =
     (case fieldType fs cat [] types k of None \<Rightarrow> None | Some (_, types1) \<Rightarrow> check_fields fs cat ks types1)"

definition read_definitions :: "json \<Rightarrow> catalog \<Rightarrow> rfield list option" where
  "read_definitions defs cat =
     (case defs of JArr vs \<Rightarrow> if 40 < length vs then None else read_fields cat [] [] vs | _ \<Rightarrow> None)"

definition active_keys :: "rfield list \<Rightarrow> string list" where
  "active_keys fs = map rf_key (filter (\<lambda>f. \<not> rf_archived f) fs)"

definition validateRecordDefinitions :: "json \<Rightarrow> catalog \<Rightarrow> types option" where
  "validateRecordDefinitions defs cat =
     (case read_definitions defs cat of None \<Rightarrow> None | Some fs \<Rightarrow> check_fields fs cat (active_keys fs) [])"

subsection \<open>Calendar dates\<close>

definition validDate :: "string \<Rightarrow> bool" where
  "validDate s =
     (case date_parts s of
        None \<Rightarrow> False
      | Some (y, m, d) \<Rightarrow> 1 \<le> m \<and> m \<le> 12 \<and> 1 \<le> d \<and> d \<le> month_lengths y ! nat (m - 1))"

text \<open>\<open>Date.parse\<close> of a date (midnight UTC).\<close>

definition date_parse :: "string \<Rightarrow> jsnum" where
  "date_parse s =
     (if validDate s then (case date_parts s of Some (y, m, d) \<Rightarrow> Fin (of_int (86400000 * day_number y m d)) | None \<Rightarrow> NaN) else NaN)"

subsection \<open>Evaluating operations\<close>

datatype calc_error =
    NON_FINITE | TEXT_LIMIT | DEPENDENCY_ERROR | UNAVAILABLE_FIELD | INVALID_INPUT | DIVISION_BY_ZERO | ROUND_PRECISION
  | INVALID_RELATION | INCOMPLETE_RELATION | INVALID_RELATED_INPUT

datatype 'r outcome = Val 'r | Throw calc_error | Stuck | NoFuel

definition finite_num :: "jsnum \<Rightarrow> json outcome" where
  "finite_num x = (if is_finite x then Val (JNum x) else Throw NON_FINITE)"

fun nums :: "json list \<Rightarrow> jsnum list option" where
  "nums [] = Some []"
| "nums (JNum x # vs) = map_option (\<lambda>xs. x # xs) (nums vs)"
| "nums (_ # vs) = None"

fun bools :: "json list \<Rightarrow> bool list option" where
  "bools [] = Some []"
| "bools (JBool b # vs) = map_option (\<lambda>bs. b # bs) (bools vs)"
| "bools (_ # vs) = None"

definition with_operands :: "'v list option \<Rightarrow> ('v list \<Rightarrow> json outcome) \<Rightarrow> json outcome" where
  "with_operands vs f = (case vs of None \<Rightarrow> Stuck | Some xs \<Rightarrow> f xs)"

definition round_to :: "jsnum \<Rightarrow> jsnum \<Rightarrow> json outcome" where
  "round_to x places =
     (case places of
        Fin q \<Rightarrow>
          if q \<noteq> of_int \<lfloor>q\<rfloor> \<or> q < 0 \<or> 8 < q then Throw ROUND_PRECISION
          else
            (let scale = 10 ^ nat \<lfloor>q\<rfloor>; scaled = js_mul x (Fin scale)
             in if is_finite scaled then finite_num (js_div_by (math_round scaled) scale) else Throw NON_FINITE)
      | _ \<Rightarrow> Throw ROUND_PRECISION)"

definition strict_equal :: "json \<Rightarrow> json \<Rightarrow> bool" where
  "strict_equal a b = (case (a, b) of (JNum x, JNum y) \<Rightarrow> js_eq x y | _ \<Rightarrow> a = b)"

definition json_less :: "json \<Rightarrow> json \<Rightarrow> json outcome" where
  "json_less a b =
     (case (a, b) of (JNum x, JNum y) \<Rightarrow> Val (JBool (js_less x y)) | (JStr s, JStr t) \<Rightarrow> Val (JBool (s < t)) | _ \<Rightarrow> Stuck)"

fun apply_op :: "fop \<Rightarrow> json list \<Rightarrow> json outcome" where
  "apply_op Add vs = with_operands (nums vs) (\<lambda>xs. finite_num (foldl js_add (Fin 0) xs))"
| "apply_op Subtract vs = with_operands (nums vs) (\<lambda>xs. finite_num (js_sub (xs ! 0) (xs ! 1)))"
| "apply_op Multiply vs = with_operands (nums vs) (\<lambda>xs. finite_num (foldl js_mul (Fin 1) xs))"
| "apply_op Divide vs = with_operands (nums vs) (\<lambda>xs.
     case xs ! 1 of Fin c \<Rightarrow> if c = 0 then Throw DIVISION_BY_ZERO else finite_num (js_div_by (xs ! 0) c) | _ \<Rightarrow> Stuck)"
| "apply_op RoundTo vs = with_operands (nums vs) (\<lambda>xs. round_to (xs ! 0) (if length xs < 2 then Fin 0 else xs ! 1))"
| "apply_op Equal vs = Val (JBool (strict_equal (vs ! 0) (vs ! 1)))"
| "apply_op Greater vs = json_less (vs ! 1) (vs ! 0)"
| "apply_op Less vs = json_less (vs ! 0) (vs ! 1)"
| "apply_op AndOp vs = with_operands (bools vs) (\<lambda>bs. Val (JBool (list_all (\<lambda>b. b) bs)))"
| "apply_op OrOp vs = with_operands (bools vs) (\<lambda>bs. Val (JBool (list_ex (\<lambda>b. b) bs)))"
| "apply_op NotOp vs = with_operands (bools vs) (\<lambda>bs. Val (JBool (\<not> bs ! 0)))"
| "apply_op Concat vs = with_operands (str_list vs) (\<lambda>ss. if 2000 < length (concat ss) then Throw TEXT_LIMIT else Val (JStr (concat ss)))"
| "apply_op DaysBetween vs = with_operands (str_list vs) (\<lambda>ss. Val (JNum (js_div_by (js_sub (date_parse (ss ! 1)) (date_parse (ss ! 0))) 86400000)))"
| "apply_op _ vs = Stuck"

subsection \<open>Evaluating a record\<close>

text \<open>The context of a calculation: fields, values of the record, related records, catalog.\<close>

record calc_ctx =
  cx_fields :: "rfield list"
  cx_values :: "(string \<times> json) list"
  cx_relations :: "(string \<times> json) list"
  cx_catalog :: catalog

type_synonym results = "(string \<times> json \<times> calc_error option) list"

definition input_ok :: "rfield \<Rightarrow> json \<Rightarrow> bool" where
  "input_ok f v =
     ((case scalarType (rf_type f) of
         TNumber \<Rightarrow> (case v of JNum n \<Rightarrow> is_finite n | _ \<Rightarrow> False)
       | TBoolean \<Rightarrow> (case v of JBool _ \<Rightarrow> True | _ \<Rightarrow> False)
       | TText \<Rightarrow> (case v of JStr s \<Rightarrow> length s \<le> (if rf_type f = TUrl then 2048 else 2000) | _ \<Rightarrow> False)
       | TDate \<Rightarrow> (case v of JStr s \<Rightarrow> validDate s | _ \<Rightarrow> False)
       | _ \<Rightarrow> True) \<and>
      (rf_type f = TSelect \<longrightarrow> v \<in> JStr ` set (rf_options f)))"

definition input_value :: "calc_ctx \<Rightarrow> rfield \<Rightarrow> json outcome" where
  "input_value cx f =
     (case map_of (cx_values cx) (rf_key f) of
        None \<Rightarrow> Val JNull
      | Some v \<Rightarrow> if v = JNull \<or> input_ok f v then Val v else Throw INVALID_INPUT)"

definition selected_ids :: "json option \<Rightarrow> json list option" where
  "selected_ids v =
     (case v of
        None \<Rightarrow> Some [] | Some JNull \<Rightarrow> Some []
      | Some (JArr ids) \<Rightarrow>
          if length ids \<le> 100 \<and> list_all (\<lambda>i. case i of JStr s \<Rightarrow> s \<noteq> [] \<and> length s \<le> 80 | _ \<Rightarrow> False) ids \<and> distinct ids
          then Some ids else None
      | _ \<Rightarrow> None)"

definition is_object :: "json option \<Rightarrow> bool" where
  "is_object v = (case v of Some (JObj _) \<Rightarrow> True | _ \<Rightarrow> False)"

definition resolved_items :: "json option \<Rightarrow> json list \<Rightarrow> json list option" where
  "resolved_items resolved selected =
     (case resolved of
        None \<Rightarrow> None
      | Some r \<Rightarrow>
         (case jfield r ''items'' of
            Some (JArr items) \<Rightarrow>
              if jfield r ''complete'' = Some (JBool True) \<and> length items = length selected \<and>
                 list_all (\<lambda>i. is_object (jfield i ''values'') \<and> jfield i ''id'' \<in> Some ` set selected) items \<and>
                 distinct (map (\<lambda>i. jfield i ''id'') items)
              then Some items else None
          | _ \<Rightarrow> None))"

definition related_ok :: "json \<Rightarrow> json \<Rightarrow> bool" where
  "related_ok target v =
     (if jfield target ''type'' = Some (JStr ''NUMBER'') then (case v of JNum n \<Rightarrow> is_finite n | _ \<Rightarrow> False)
      else if jfield target ''type'' = Some (JStr ''BOOLEAN'') then (case v of JBool _ \<Rightarrow> True | _ \<Rightarrow> False)
      else if jfield target ''type'' = Some (JStr ''DATE'') then (case v of JStr s \<Rightarrow> validDate s | _ \<Rightarrow> False)
      else (case v of JStr s \<Rightarrow> length s \<le> 2000 | _ \<Rightarrow> False) \<and>
           (jfield target ''type'' = Some (JStr ''SELECT'') \<longrightarrow>
              (case jfield target ''options'' of Some (JArr os) \<Rightarrow> v \<in> set os | _ \<Rightarrow> False)))"

definition aggregate_nums :: "aggregate \<Rightarrow> jsnum list \<Rightarrow> json outcome" where
  "aggregate_nums agg xs =
     (if xs = [] then Val (if agg = AggSum then JNum (Fin 0) else JNull)
      else if agg = AggSum then finite_num (foldl js_add (Fin 0) xs)
      else if agg = AggAverage then finite_num (js_div_by (foldl js_add (Fin 0) xs) (of_nat (length xs)))
      else if agg = AggMin then Val (JNum (foldl math_min PosInf xs))
      else if agg = AggMax then Val (JNum (foldl math_max NegInf xs))
      else Stuck)"

definition related_values :: "string \<Rightarrow> json list \<Rightarrow> json list" where
  "related_values targetKey items =
     filter (\<lambda>v. v \<noteq> JNull) (map (\<lambda>i. case Option.bind (jfield i ''values'') (\<lambda>vs. jfield vs targetKey) of None \<Rightarrow> JNull | Some v \<Rightarrow> v) items)"

definition rollup_items :: "calc_ctx \<Rightarrow> rfield \<Rightarrow> rfield \<Rightarrow> aggregate \<Rightarrow> json list \<Rightarrow> json outcome" where
  "rollup_items cx f relation agg items =
     (if agg = AggCount then Val (JNum (Fin (of_nat (length items))))
      else (case (find_row (\<lambda>item. jfield item ''key'' = rf_targetKey f) (relation_items (cx_catalog cx) relation), rf_targetKey f) of
        (Some target, Some (JStr targetKey)) \<Rightarrow>
          (let inputs = related_values targetKey items
           in if \<not> list_all (related_ok target) inputs then Throw INVALID_RELATED_INPUT
              else if agg = AggUnique then Val (JArr (rev (remdups (rev inputs))))
              else with_operands (nums inputs) (aggregate_nums agg))
      | _ \<Rightarrow> Stuck))"

definition rollup :: "calc_ctx \<Rightarrow> rfield \<Rightarrow> json outcome" where
  "rollup cx f =
     (case (rollup_relation (cx_fields cx) f, aggregate_of (rf_aggregate f)) of
        (Some relation, Some agg) \<Rightarrow>
          (case selected_ids (map_of (cx_values cx) (rf_key relation)) of
             None \<Rightarrow> Throw INVALID_RELATION
           | Some selected \<Rightarrow>
              if selected = [] then Val (if agg = AggUnique then JArr [] else if agg \<in> {AggSum, AggCount} then JNum (Fin 0) else JNull)
              else (case resolved_items (map_of (cx_relations cx) (rf_key relation)) selected of
                 None \<Rightarrow> Throw INCOMPLETE_RELATION
               | Some items \<Rightarrow> rollup_items cx f relation agg items))
      | _ \<Rightarrow> Stuck)"

definition is_computed :: "rfield list \<Rightarrow> string \<Rightarrow> bool" where
  "is_computed fs key = (case lookup_field fs key of None \<Rightarrow> False | Some f \<Rightarrow> rf_type f \<in> {TFormula, TRollup})"

definition store_result :: "string \<Rightarrow> json outcome \<Rightarrow> results \<Rightarrow> results" where
  "store_result key out rs =
     (case out of Val v \<Rightarrow> AList.update key (v, None) rs | Throw c \<Rightarrow> AList.update key (JNull, Some c) rs | _ \<Rightarrow> rs)"

text \<open>
  \<open>computed\<close> remembers its result, also an error: asked again, a failed field is a failed dependency. The
  branches of a conditional and of \<open>coalesce\<close> are evaluated only when they are needed.
\<close>

function (sequential) computed :: "calc_ctx \<Rightarrow> nat \<Rightarrow> string \<Rightarrow> results \<Rightarrow> json outcome \<times> results"
  and evaluate :: "calc_ctx \<Rightarrow> nat \<Rightarrow> json \<Rightarrow> results \<Rightarrow> json outcome \<times> results"
  and evaluate_all :: "calc_ctx \<Rightarrow> nat \<Rightarrow> json list \<Rightarrow> results \<Rightarrow> json list outcome \<times> results"
  and evaluate_first :: "calc_ctx \<Rightarrow> nat \<Rightarrow> json list \<Rightarrow> results \<Rightarrow> json outcome \<times> results" where
  "computed cx n key rs =
     (case map_of rs key of
        Some (v, err) \<Rightarrow> (if err = None then Val v else Throw DEPENDENCY_ERROR, rs)
      | None \<Rightarrow>
         (case lookup_field (cx_fields cx) key of
            None \<Rightarrow> (Throw UNAVAILABLE_FIELD, rs)
          | Some f \<Rightarrow>
             if rf_archived f then (Throw UNAVAILABLE_FIELD, rs)
             else if rf_type f = TFormula then
               (case n of
                  0 \<Rightarrow> (NoFuel, rs)
                | Suc m \<Rightarrow>
                   (case rf_expression f of
                      None \<Rightarrow> (Stuck, rs)
                    | Some e \<Rightarrow> (case evaluate cx m e rs of (out, rs1) \<Rightarrow> (out, store_result key out rs1))))
             else if rf_type f = TRollup then (rollup cx f, store_result key (rollup cx f) rs)
             else (input_value cx f, store_result key (input_value cx f) rs)))"
| "evaluate cx n e rs =
     (case expr_view e of
        VLit v t \<Rightarrow> (Val v, rs)
      | VRef k \<Rightarrow>
          (case computed cx n k rs of
             (Throw c, rs1) \<Rightarrow> (Throw (if is_computed (cx_fields cx) k then DEPENDENCY_ERROR else c), rs1)
           | (out, rs1) \<Rightarrow> (out, rs1))
      | VOp op es \<Rightarrow>
          (if op = IfOp then
             (case es of
                [c, a, b] \<Rightarrow>
                  (case evaluate cx n c rs of
                     (Val v, rs1) \<Rightarrow>
                       (case v of JNull \<Rightarrow> (Val JNull, rs1) | JBool w \<Rightarrow> if w then evaluate cx n a rs1 else evaluate cx n b rs1 | _ \<Rightarrow> (Stuck, rs1))
                   | (out, rs1) \<Rightarrow> (out, rs1))
              | _ \<Rightarrow> (Stuck, rs))
           else if op = Coalesce then evaluate_first cx n es rs
           else (case evaluate_all cx n es rs of
             (Val vs, rs1) \<Rightarrow> (if JNull \<in> set vs then Val JNull else apply_op op vs, rs1)
           | (Throw c, rs1) \<Rightarrow> (Throw c, rs1)
           | (Stuck, rs1) \<Rightarrow> (Stuck, rs1)
           | (NoFuel, rs1) \<Rightarrow> (NoFuel, rs1)))
      | VBad \<Rightarrow> (Stuck, rs))"
| "evaluate_all cx n [] rs = (Val [], rs)"
| "evaluate_all cx n (e # es) rs =
     (case evaluate cx n e rs of
        (Val v, rs1) \<Rightarrow>
          (case evaluate_all cx n es rs1 of
             (Val vs, rs2) \<Rightarrow> (Val (v # vs), rs2)
           | (out, rs2) \<Rightarrow> (out, rs2))
      | (Throw c, rs1) \<Rightarrow> (Throw c, rs1)
      | (Stuck, rs1) \<Rightarrow> (Stuck, rs1)
      | (NoFuel, rs1) \<Rightarrow> (NoFuel, rs1))"
| "evaluate_first cx n [] rs = (Val JNull, rs)"
| "evaluate_first cx n (e # es) rs =
     (case evaluate cx n e rs of
        (Val v, rs1) \<Rightarrow> if v \<noteq> JNull then (Val v, rs1) else evaluate_first cx n es rs1
      | (out, rs1) \<Rightarrow> (out, rs1))"
  by pat_completeness auto

termination
proof (relation "inv_image (less_than <*lex*> less_than) (\<lambda>x. case x of
      Inl (Inl (cx, n, key, rs)) \<Rightarrow> (n, 0)
    | Inl (Inr (cx, n, e, rs)) \<Rightarrow> (n, size e)
    | Inr (Inl (cx, n, es, rs)) \<Rightarrow> (n, size_list size es)
    | Inr (Inr (cx, n, es, rs)) \<Rightarrow> (n, size_list size es))")
qed (auto simp: expr_view_ref_size dest: expr_view_size)

fun calculate_all :: "calc_ctx \<Rightarrow> nat \<Rightarrow> string list \<Rightarrow> results \<Rightarrow> results outcome" where
  "calculate_all cx n [] rs = Val rs"
| "calculate_all cx n (k # ks) rs =
     (case computed cx n k rs of
        (Stuck, _) \<Rightarrow> Stuck
      | (NoFuel, _) \<Rightarrow> NoFuel
      | (_, rs1) \<Rightarrow> calculate_all cx n ks rs1)"

definition computed_keys :: "rfield list \<Rightarrow> string list" where
  "computed_keys fs = map rf_key (filter (\<lambda>f. \<not> rf_archived f \<and> rf_type f \<in> {TFormula, TRollup}) fs)"

text \<open>The output of a field: its key, value, error and type.\<close>

type_synonym calc_output = "string \<times> json \<times> calc_error option \<times> ftype"

definition calculateRecordFields :: "nat \<Rightarrow> json \<Rightarrow> json \<Rightarrow> json \<Rightarrow> catalog \<Rightarrow> calc_output list outcome option" where
  "calculateRecordFields n defs vals rels cat =
     (case (read_definitions defs cat, validateRecordDefinitions defs cat, vals, rels) of
        (Some fs, Some types, JObj vs, JObj rvs) \<Rightarrow>
          Some (case calculate_all \<lparr>cx_fields = fs, cx_values = vs, cx_relations = rvs, cx_catalog = cat\<rparr> n (computed_keys fs) [] of
             Val rs \<Rightarrow> Val (map (\<lambda>k. (k, fst (the (map_of rs k)), snd (the (map_of rs k)), the (map_of types k))) (computed_keys fs))
           | Throw c \<Rightarrow> Throw c | Stuck \<Rightarrow> Stuck | NoFuel \<Rightarrow> NoFuel)
      | _ \<Rightarrow> None)"

subsection \<open>What validated definitions satisfy\<close>

text \<open>A declarative typing of expressions over the types of the fields they refer to.\<close>

inductive typed :: "(string \<Rightarrow> ftype option) \<Rightarrow> json \<Rightarrow> ftype \<Rightarrow> bool" for G where
  typed_lit: "expr_view e = VLit v t \<Longrightarrow> typed G e t"
| typed_ref: "expr_view e = VRef k \<Longrightarrow> G k = Some t \<Longrightarrow> typed G e t"
| typed_op: "expr_view e = VOp op es \<Longrightarrow> list_all2 (typed G) es ts \<Longrightarrow> op_type op ts = Some t \<Longrightarrow> typed G e t"

lemma typed_mono:
  assumes "typed G e t" and "G \<subseteq>\<^sub>m G'"
  shows "typed G' e t"
  using assms(1)
proof induction
  case (typed_ref e k t)
  then show ?case using assms(2) by (intro typed.typed_ref) (auto simp: map_le_def dom_def)
next
  case (typed_op e op es ts t)
  then show ?case by (intro typed.typed_op) (auto elim: list_all2_mono)
qed (rule typed.typed_lit)

definition field_typed :: "rfield list \<Rightarrow> catalog \<Rightarrow> (string \<Rightarrow> ftype option) \<Rightarrow> string \<Rightarrow> ftype \<Rightarrow> bool" where
  "field_typed fs cat G key t \<longleftrightarrow>
     (\<exists>f. lookup_field fs key = Some f \<and> \<not> rf_archived f \<and>
        (if rf_type f = TFormula then \<exists>e. rf_expression f = Some e \<and> typed G e t \<and> t \<in> {TNumber, TText, TBoolean, TDate}
         else if rf_type f = TRollup then rollupType fs cat f = Some t else t = scalarType (rf_type f)))"

text \<open>The types in the order they were found: a field only refers to fields before it, so there is no cycle.\<close>

inductive types_ok :: "rfield list \<Rightarrow> catalog \<Rightarrow> types \<Rightarrow> bool" for fs cat where
  types_none: "types_ok fs cat []"
| types_next: "types_ok fs cat G \<Longrightarrow> key \<notin> fst ` set G \<Longrightarrow> field_typed fs cat (map_of G) key t \<Longrightarrow> types_ok fs cat (G @ [(key, t)])"

definition extends :: "string list \<Rightarrow> types \<Rightarrow> types \<Rightarrow> bool" where
  "extends vis G G' \<longleftrightarrow> (\<exists>added. G' = G @ added \<and> fst ` set added \<inter> set vis = {})"

lemma extends_refl [simp]: "extends vis G G"
  by (simp add: extends_def)

lemma extends_trans: "extends vis a b \<Longrightarrow> extends vis b c \<Longrightarrow> extends vis a c"
  by (fastforce simp: extends_def)

lemma extends_le: "extends vis a b \<Longrightarrow> map_of a \<subseteq>\<^sub>m map_of b"
  by (auto simp: extends_def map_of_append)

lemma extends_typed: "extends vis a b \<Longrightarrow> typed (map_of a) e t \<Longrightarrow> typed (map_of b) e t"
  using typed_mono extends_le by blast

lemma new_type:
  assumes "types_ok fs cat G" and "extends (key # vis) G G1" and "types_ok fs cat G1" and "map_of G key = None" and "key \<notin> set vis"
    and "field_typed fs cat (map_of G1) key t"
  shows "types_ok fs cat (G1 @ [(key, t)]) \<and> extends vis G (G1 @ [(key, t)]) \<and> map_of (G1 @ [(key, t)]) key = Some t"
proof -
  have "key \<notin> fst ` set G1" using assms(2,4) by (auto simp: extends_def map_of_eq_None_iff simp del: image_iff) (metis fst_conv image_eqI)+
  moreover then have "map_of G1 key = None" by (simp add: map_of_eq_None_iff)
  ultimately show ?thesis using assms types_next by (auto simp: extends_def map_add_def)
qed

lemma typing_sound:
  "types_ok fs cat types \<Longrightarrow> fieldType fs cat vis types key = Some (t, types') \<Longrightarrow>
     types_ok fs cat types' \<and> extends vis types types' \<and> map_of types' key = Some t"
  "types_ok fs cat (fst st) \<Longrightarrow> expressionType fs cat vis depth e st = Some (t, types', nodes') \<Longrightarrow>
     types_ok fs cat types' \<and> extends vis (fst st) types' \<and> typed (map_of types') e t"
  "types_ok fs cat (fst st) \<Longrightarrow> argTypes fs cat vis depth es st = Some (ts, types', nodes') \<Longrightarrow>
     types_ok fs cat types' \<and> extends vis (fst st) types' \<and> list_all2 (typed (map_of types')) es ts"
proof (induction fs cat vis types key and fs cat vis depth e st and fs cat vis depth es st
    arbitrary: t types' and t types' nodes' and ts types' nodes' rule: fieldType_expressionType_argTypes.induct)
  case (1 fs cat vis types key)
  obtain f where f: "lookup_field fs key = Some f" "\<not> rf_archived f" using "1.prems"(2) by (auto split: option.splits if_splits)
  show ?case
  proof (cases "map_of types key")
    case (Some t0)
    then show ?thesis using 1 f by simp
  next
    case None
    then have k: "key \<notin> set vis" using "1.prems"(2) f by (auto split: if_splits)
    show ?thesis
    proof (cases "rf_type f = TFormula")
      case True
      then obtain e types1 n1 where e: "rf_expression f = Some e" "expressionType fs cat (key # vis) 0 e (types, 0) = Some (t, types1, n1)"
        "t \<in> {TNumber, TText, TBoolean, TDate}" "types' = types1 @ [(key, t)]"
        using "1.prems"(2) f None k by (auto split: option.splits if_splits)
      have ih: "types_ok fs cat types1 \<and> extends (key # vis) types types1 \<and> typed (map_of types1) e t"
        using "1.IH" [OF f None k True e(1), of t types1 n1] "1.prems"(1) e(2) by simp
      then have "field_typed fs cat (map_of types1) key t" using f True e by (simp add: field_typed_def)
      then show ?thesis using new_type [of fs cat types key vis types1 t] "1.prems"(1) ih None k e(4) by simp
    next
      case False
      then have "types' = types @ [(key, t)] \<and> field_typed fs cat (map_of types) key t"
        using "1.prems"(2) f None k by (auto simp: field_typed_def split: option.splits if_splits)
      then show ?thesis using new_type [of fs cat types key vis types t] "1.prems"(1) None k by simp
    qed
  qed
next
  case (2 fs cat vis depth e types nodes)
  show ?case
  proof (cases "expr_view e")
    case (VLit v t0)
    then show ?thesis using "2.prems" by (auto intro: typed.typed_lit split: if_splits)
  next
    case (VRef k)
    then have "fieldType fs cat vis types k = Some (t, types')" using "2.prems"(2) by (auto split: if_splits)
    then show ?thesis using "2.IH"(1) [OF _ VRef] "2.prems" VRef by (auto intro: typed.typed_ref split: if_splits)
  next
    case (VOp op es)
    then obtain ts where a: "argTypes fs cat vis (depth + 1) es (types, nodes + 1) = Some (ts, types', nodes')" "op_type op ts = Some t"
      using "2.prems"(2) by (auto split: if_splits option.splits)
    then show ?thesis using "2.IH"(2) [OF _ VOp] "2.prems" VOp by (auto intro: typed.typed_op split: if_splits)
  next
    case VBad
    then show ?thesis using "2.prems" by (simp split: if_splits)
  qed
next
  case (3 fs cat vis depth types nodes)
  then show ?case by simp
next
  case (4 fs cat vis depth e es types nodes)
  obtain t types1 n1 ts' where a: "expressionType fs cat vis depth e (types, nodes) = Some (t, types1, n1)"
    "argTypes fs cat vis depth es (types1, n1) = Some (ts', types', nodes')" "ts = t # ts'"
    using "4.prems"(2) by (auto split: option.splits)
  have i1: "types_ok fs cat types1 \<and> extends vis types types1 \<and> typed (map_of types1) e t" using "4.IH"(1) [of t types1 n1] "4.prems"(1) a(1) by simp
  have i2: "types_ok fs cat types' \<and> extends vis types1 types' \<and> list_all2 (typed (map_of types')) es ts'"
    using "4.IH"(2) [OF a(1) refl refl, of ts' types' nodes'] i1 a(2) by simp
  then show ?case using i1 a(3) extends_trans [of vis types types1 types'] extends_typed by fastforce
qed

lemma check_fields_sound:
  "types_ok fs cat types \<Longrightarrow> check_fields fs cat ks types = Some G \<Longrightarrow>
     types_ok fs cat G \<and> extends [] types G \<and> set ks \<subseteq> dom (map_of G)"
proof (induction ks arbitrary: types)
  case (Cons k ks)
  obtain t types1 where f: "fieldType fs cat [] types k = Some (t, types1)" and c: "check_fields fs cat ks types1 = Some G"
    using Cons.prems(2) by (auto split: option.splits)
  note s = typing_sound(1) [OF Cons.prems(1) f]
  have ih: "types_ok fs cat G \<and> extends [] types1 G \<and> set ks \<subseteq> dom (map_of G)" using Cons.IH c s by blast
  then have "map_of G k = Some t" using s extends_le [of "[]" types1 G] by (metis domI map_le_def)
  then show ?case using ih s extends_trans [of "[]" types types1 G] by (auto simp: dom_def)
qed simp

subsection \<open>Values of a type\<close>

definition fits :: "json \<Rightarrow> ftype \<Rightarrow> bool" where
  "fits v t \<longleftrightarrow> v = JNull \<or>
     (case t of
        TNumber \<Rightarrow> \<exists>x. v = JNum x \<and> is_finite x
      | TText \<Rightarrow> \<exists>s. v = JStr s \<and> length s \<le> 2048
      | TBoolean \<Rightarrow> \<exists>b. v = JBool b
      | TDate \<Rightarrow> \<exists>s. v = JStr s \<and> validDate s
      | TList \<Rightarrow> \<exists>vs. v = JArr vs
      | _ \<Rightarrow> True)"

fun sound :: "ftype \<Rightarrow> json outcome \<Rightarrow> bool" where
  "sound t (Val v) = fits v t"
| "sound t (Throw c) = True"
| "sound t _ = False"

lemma fits_null [simp]: "fits JNull t"
  by (simp add: fits_def)

lemma finite_num_sound [simp]: "sound TNumber (finite_num x)"
  by (simp add: finite_num_def fits_def)

lemma nums_of:
  "list_all2 fits vs ts \<Longrightarrow> list_all (\<lambda>t. t = TNumber) ts \<Longrightarrow> JNull \<notin> set vs \<Longrightarrow>
     \<exists>xs. nums vs = Some xs \<and> length xs = length vs \<and> list_all is_finite xs"
  by (induction rule: list_all2_induct) (auto simp: fits_def)

lemma bools_of:
  "list_all2 fits vs ts \<Longrightarrow> list_all (\<lambda>t. t = TBoolean) ts \<Longrightarrow> JNull \<notin> set vs \<Longrightarrow> \<exists>bs. bools vs = Some bs"
  by (induction rule: list_all2_induct) (auto simp: fits_def)

lemma texts_of:
  "list_all2 fits vs ts \<Longrightarrow> list_all (\<lambda>t. t = TText) ts \<Longrightarrow> JNull \<notin> set vs \<Longrightarrow> \<exists>ss. str_list vs = Some ss"
  by (induction rule: list_all2_induct) (auto simp: fits_def)

lemma dates_of:
  "list_all2 fits vs ts \<Longrightarrow> list_all (\<lambda>t. t = TDate) ts \<Longrightarrow> JNull \<notin> set vs \<Longrightarrow>
     \<exists>ss. str_list vs = Some ss \<and> length ss = length vs \<and> list_all validDate ss"
  by (induction rule: list_all2_induct) (auto simp: fits_def)

subsection \<open>The difference of two dates is a finite number\<close>

lemma digit_bounds: "c \<in> set DIGITS \<Longrightarrow> 48 \<le> (of_char c :: int) \<and> (of_char c :: int) \<le> 57"
  by (auto simp: DIGITS_def)

lemma digits_int_bounds:
  assumes "all_in DIGITS s"
  shows "0 \<le> digits_int s \<and> digits_int s < 10 ^ length s"
proof -
  have "all_in DIGITS s \<Longrightarrow> 0 \<le> digits_int s \<and> digits_int s < 10 ^ length s" for s
  proof (induction s rule: rev_induct)
    case (snoc c s)
    then show ?case using digit_bounds [of c] by (auto simp: digits_int_def all_in_def)
  qed (simp add: digits_int_def)
  then show ?thesis using assms by blast
qed

lemma day_number_bounds:
  assumes "date_parts s = Some (y, m, d)" and "validDate s"
  shows "\<bar>day_number y m d\<bar> \<le> 4000000"
proof -
  have y: "0 \<le> y" "y < 10000" and m: "1 \<le> m" "m \<le> 12" and d: "1 \<le> d" "d < 100"
    using assms digits_int_bounds [of "take 4 s"] digits_int_bounds [of "drop 8 s"]
    by (auto simp: date_parts_def validDate_def split: if_splits)
  have "0 \<le> sum_list (take n (month_lengths y)) \<and> sum_list (take n (month_lengths y)) \<le> 366" for n
  proof -
    have "0 \<le> sum_list (drop n (month_lengths y))"
      by (rule sum_list_nonneg) (auto simp: month_lengths_def dest!: in_set_dropD)
    moreover have "sum_list (take n (month_lengths y)) + sum_list (drop n (month_lengths y)) = sum_list (month_lengths y)"
      by (metis append_take_drop_id sum_list_append)
    moreover have "sum_list (month_lengths y) \<le> 366" by (simp add: month_lengths_def)
    moreover have "0 \<le> sum_list (take n (month_lengths y))"
      by (rule sum_list_nonneg) (auto simp: month_lengths_def dest!: in_set_takeD)
    ultimately show ?thesis by simp
  qed
  from this [of "nat (m - 1)"] show ?thesis
    using y d unfolding day_number_def by linarith
qed

lemma days_between_finite:
  assumes "validDate a" and "validDate b"
  shows "is_finite (js_div_by (js_sub (date_parse b) (date_parse a)) 86400000)"
proof -
  have parse: "\<exists>n. date_parse s = Fin (of_int (86400000 * n)) \<and> \<bar>n\<bar> \<le> 4000000" if v: "validDate s" for s
  proof -
    obtain y m d where p: "date_parts s = Some (y, m, d)" using v by (auto simp: validDate_def split: option.splits)
    then show ?thesis using v day_number_bounds [OF p v] by (auto simp: date_parse_def)
  qed
  obtain i j where ij: "date_parse b = Fin (of_int (86400000 * i))" "date_parse a = Fin (of_int (86400000 * j))"
    "\<bar>i\<bar> \<le> 4000000" "\<bar>j\<bar> \<le> 4000000" using parse [OF assms(1)] parse [OF assms(2)] by blast
  let ?k = "86400000 * (i - j)"
  have k: "\<bar>?k\<bar> < 2 ^ 53" using ij(3,4) by simp
  have q: "\<bar>of_int ?k :: rat\<bar> < 2 ^ 53" using k by (simp only: of_int_abs [symmetric] of_int_less_numeral_power_cancel_iff)
  have e: "(of_int ?k :: rat) / 86400000 = of_int (i - j)" by (simp only: of_int_mult of_int_numeral) simp
  have "js_sub (date_parse b) (date_parse a) = js_of_rat (of_int ?k)" by (simp add: ij js_sub_def algebra_simps)
  also have "\<dots> = Fin (of_int ?k)" using js_of_rat_finite [of "of_int ?k"] round_binary64_int [OF k] q by simp
  finally have "js_div_by (js_sub (date_parse b) (date_parse a)) 86400000 = js_of_rat (of_int (i - j))"
    by (simp only: js_div_by.simps e)
  also have "\<dots> = Fin (round_binary64 (of_int (i - j)))" using ij(3,4) by (intro js_of_rat_finite) (simp add: abs_le_iff)
  finally show ?thesis by (simp add: is_finite_def)
qed

subsection \<open>Operations keep the types\<close>

lemma round_to_sound: "sound TNumber (round_to x p)"
  by (auto simp: round_to_def Let_def split: jsnum.splits)

lemma json_less_sound:
  assumes "fits a t" and "fits b t" and "a \<noteq> JNull" and "b \<noteq> JNull" and "t \<in> {TNumber, TDate}"
  shows "sound TBoolean (json_less a b)"
  using assms by (auto simp: fits_def json_less_def)

lemma apply_op_sound:
  assumes t: "op_type op ts = Some t" and vs: "list_all2 fits vs ts" and nn: "JNull \<notin> set vs"
    and len: "fst (arities op) \<le> length vs" "length vs \<le> snd (arities op)" and op: "op \<noteq> IfOp" "op \<noteq> Coalesce"
  shows "sound t (apply_op op vs)"
proof -
  have n: "\<exists>xs. nums vs = Some xs \<and> length xs = length vs \<and> list_all is_finite xs" if "list_all (\<lambda>t. t = TNumber) ts"
    using nums_of [OF vs that nn] .
  have two: "\<exists>a b. vs = [a, b] \<and> (\<exists>u v. ts = [u, v] \<and> fits a u \<and> fits b v) \<and> a \<noteq> JNull \<and> b \<noteq> JNull" if "length vs = 2"
  proof -
    obtain a b where "vs = [a, b]" using \<open>length vs = 2\<close> by (auto simp: numeral_2_eq_2 length_Suc_conv)
    then show ?thesis using vs nn by (auto simp: list_all2_Cons1)
  qed
  show ?thesis
  proof (cases op)
    case Divide
    then have "\<exists>xs. nums vs = Some xs \<and> length xs = length vs \<and> list_all is_finite xs" using t n by (auto simp: op_type_def Let_def split: if_splits)
    then obtain xs where xs: "nums vs = Some xs" "length xs = 2" "list_all is_finite xs" using len Divide by auto
    then have "is_finite (xs ! 1)" by (simp add: list_all_length)
    then obtain c where "xs ! 1 = Fin c" by (auto simp: is_finite_def split: jsnum.splits)
    then show ?thesis using Divide t xs by (auto simp: with_operands_def op_type_def Let_def split: if_splits)
  next
    case Greater
    then show ?thesis using two t len json_less_sound by (fastforce simp: op_type_def Let_def split: if_splits)
  next
    case Less
    then show ?thesis using two t len json_less_sound by (fastforce simp: op_type_def Let_def split: if_splits)
  next
    case DaysBetween
    then have d: "list_all (\<lambda>t. t = TDate) ts" and tn: "t = TNumber" using t by (auto simp: op_type_def Let_def split: if_splits)
    obtain ss where ss: "str_list vs = Some ss" "length ss = 2" "list_all validDate ss"
      using dates_of [OF vs d nn] len DaysBetween by auto
    then have "validDate (ss ! 0)" "validDate (ss ! 1)" by (simp_all add: list_all_length)
    then show ?thesis using DaysBetween ss tn days_between_finite by (simp add: with_operands_def fits_def)
  next
    case Concat
    then have "list_all (\<lambda>t. t = TText) ts" "t = TText" using t by (auto simp: op_type_def Let_def split: if_splits)
    then show ?thesis using Concat texts_of [OF vs _ nn] by (auto simp: with_operands_def fits_def)
  qed (use t n bools_of [OF vs _ nn] op round_to_sound in
      \<open>auto simp: op_type_def Let_def with_operands_def fits_def split: if_splits option.splits\<close>)
qed

subsection \<open>Rollups keep the types\<close>

text \<open>The definitions the caller supplies: every item has a key, unique in its collection.\<close>

definition catalog_ok :: "catalog \<Rightarrow> bool" where
  "catalog_ok cat \<longleftrightarrow>
     (\<forall>cid items. map_of cat cid = Some (JArr items) \<longrightarrow>
        distinct (map (\<lambda>i. jfield i ''key'') items) \<and> (\<forall>i \<in> set items. \<exists>k. jfield i ''key'' = Some (JStr k)))"

lemma find_row_unique:
  assumes "find_row (\<lambda>i. g i = k \<and> P i) xs = Some x" and "distinct (map g xs)"
  shows "find_row (\<lambda>i. g i = k) xs = Some x"
  using assms find_row_distinct [OF assms(2), of x] by (auto dest: find_row_SomeD)

lemma foldl_min_finite: "is_finite x \<Longrightarrow> list_all is_finite xs \<Longrightarrow> is_finite (foldl math_min x xs)"
  by (induction xs arbitrary: x) (auto simp: math_min_def is_finite_def split: jsnum.splits)

lemma foldl_max_finite: "is_finite x \<Longrightarrow> list_all is_finite xs \<Longrightarrow> is_finite (foldl math_max x xs)"
  by (induction xs arbitrary: x) (auto simp: math_max_def is_finite_def split: jsnum.splits)

lemma aggregate_sound:
  assumes "list_all is_finite xs" and "agg \<in> {AggSum, AggAverage, AggMin, AggMax}"
  shows "sound TNumber (aggregate_nums agg xs)"
proof (cases xs)
  case Nil
  then show ?thesis by (simp add: aggregate_nums_def fits_def is_finite_def)
next
  case (Cons x ys)
  have "math_min PosInf x = x" "math_max NegInf x = x"
    using assms(1) Cons by (auto simp: math_min_def math_max_def is_finite_def split: jsnum.splits)
  then show ?thesis
    using assms Cons foldl_min_finite [of x ys] foldl_max_finite [of x ys] by (auto simp: aggregate_nums_def fits_def)
qed

lemma related_nums:
  assumes "list_all (related_ok target) vs" and "jfield target ''type'' = Some (JStr ''NUMBER'')"
  shows "\<exists>xs. nums vs = Some xs \<and> list_all is_finite xs"
  using assms(1) by (induction vs) (auto simp: related_ok_def assms(2) split: json.splits)

lemma rollup_items_sound:
  assumes t: "rollupType (cx_fields cx) (cx_catalog cx) f = Some t" and cat: "catalog_ok (cx_catalog cx)"
    and rel: "rollup_relation (cx_fields cx) f = Some relation" "aggregate_of (rf_aggregate f) = Some agg"
  shows "sound t (rollup_items cx f relation agg items)"
proof (cases "agg = AggCount")
  case True
  then show ?thesis using t rel by (auto simp: rollup_items_def rollupType_def fits_def is_finite_def split: if_splits)
next
  case False
  let ?items = "relation_items (cx_catalog cx) relation"
  obtain target where target: "find_row (\<lambda>item. jfield item ''key'' = rf_targetKey f \<and> \<not> truthy (jfield item ''archived'')) ?items = Some target"
    and ty: "if agg = AggUnique then t = TList else t = TNumber \<and> jfield target ''type'' = Some (JStr ''NUMBER'')"
    using t rel False unfolding rollupType_def by (simp split: option.splits if_splits)
  have d: "distinct (map (\<lambda>i. jfield i ''key'') ?items) \<and> (\<forall>i \<in> set ?items. \<exists>k. jfield i ''key'' = Some (JStr k))"
    using cat by (auto simp: relation_items_def catalog_ok_def bind_eq_Some_conv split: option.splits json.splits)
  have f: "find_row (\<lambda>item. jfield item ''key'' = rf_targetKey f) ?items = Some target"
    using find_row_unique [OF target] d by blast
  obtain k where k: "rf_targetKey f = Some (JStr k)" using find_row_SomeD [OF target] d by metis
  show ?thesis
  proof (cases "agg = AggUnique")
    case True
    then show ?thesis using f k ty by (simp add: rollup_items_def Let_def fits_def)
  next
    case nu: False
    then have a: "agg \<in> {AggSum, AggAverage, AggMin, AggMax}" using False by (cases agg) auto
    show ?thesis
    proof (cases "list_all (related_ok target) (related_values k items)")
      case True
      then show ?thesis using f k ty nu False related_nums [OF True] aggregate_sound [OF _ a]
        by (auto simp: rollup_items_def Let_def with_operands_def)
    qed (use f k nu False in \<open>simp add: rollup_items_def Let_def\<close>)
  qed
qed

lemma rollup_sound:
  assumes t: "rollupType (cx_fields cx) (cx_catalog cx) f = Some t" and cat: "catalog_ok (cx_catalog cx)"
  shows "sound t (rollup cx f)"
proof -
  obtain relation agg where rel: "rollup_relation (cx_fields cx) f = Some relation" "aggregate_of (rf_aggregate f) = Some agg"
    and ty: "t = (if agg = AggUnique then TList else TNumber)"
    using t unfolding rollupType_def by (auto split: option.splits if_splits)
  show ?thesis
    using rollup_items_sound [OF t cat rel] rel ty by (cases agg) (auto simp: rollup_def fits_def is_finite_def split: option.splits)
qed

lemma input_value_sound: "rf_type f \<notin> {TFormula, TRollup, TList} \<Longrightarrow> sound (scalarType (rf_type f)) (input_value cx f)"
  by (cases "rf_type f") (simp_all add: input_value_def input_ok_def fits_def scalarType_def split: option.splits json.splits)

subsection \<open>Evaluation keeps the types\<close>

definition results_ok :: "types \<Rightarrow> results \<Rightarrow> bool" where
  "results_ok G rs \<longleftrightarrow> (\<forall>k v err. map_of rs k = Some (v, err) \<longrightarrow> (err \<noteq> None \<longrightarrow> v = JNull) \<and> (\<forall>t. map_of G k = Some t \<longrightarrow> fits v t))"

definition good :: "types \<Rightarrow> ftype \<Rightarrow> json outcome \<times> results \<Rightarrow> bool" where
  "good G t x \<longleftrightarrow> sound t (fst x) \<and> results_ok G (snd x)"

lemma store_ok: "results_ok G rs \<Longrightarrow> map_of G k = Some t \<Longrightarrow> sound t out \<Longrightarrow> results_ok G (store_result k out rs)"
  by (cases out) (auto simp: results_ok_def store_result_def update_conv')

definition all_good :: "types \<Rightarrow> ftype list \<Rightarrow> json list outcome \<times> results \<Rightarrow> bool" where
  "all_good G ts x \<longleftrightarrow> (case fst x of Val vs \<Rightarrow> list_all2 fits vs ts | Throw c \<Rightarrow> True | _ \<Rightarrow> False) \<and> results_ok G (snd x)"

definition good_arg :: "calc_ctx \<Rightarrow> nat \<Rightarrow> types \<Rightarrow> json \<Rightarrow> ftype \<Rightarrow> bool" where
  "good_arg cx n G e t \<longleftrightarrow> (\<forall>rs. results_ok G rs \<longrightarrow> good G t (evaluate cx n e rs))"

lemma evaluate_all_good: "list_all2 (good_arg cx n G) es ts \<Longrightarrow> results_ok G rs \<Longrightarrow> all_good G ts (evaluate_all cx n es rs)"
proof (induction es ts arbitrary: rs rule: list_all2_induct)
  case (Cons e es t ts)
  obtain out rs1 where e: "evaluate cx n e rs = (out, rs1)" by fastforce
  have g: "sound t out" "results_ok G rs1" using Cons.hyps(1) Cons.prems e by (auto simp: good_arg_def good_def dest!: spec [of _ rs])
  show ?case using Cons.IH [OF g(2)] g e by (cases out) (auto simp: all_good_def split: outcome.splits prod.splits)
qed (simp add: all_good_def)

lemma evaluate_first_good:
  "list_all2 (good_arg cx n G) es ts \<Longrightarrow> list_all (\<lambda>x. x = t) ts \<Longrightarrow> results_ok G rs \<Longrightarrow> good G t (evaluate_first cx n es rs)"
proof (induction es ts arbitrary: rs rule: list_all2_induct)
  case (Cons e es u ts)
  obtain out rs1 where e: "evaluate cx n e rs = (out, rs1)" by fastforce
  have g: "sound t out" "results_ok G rs1"
    using Cons.hyps(1) Cons.prems e by (auto simp: good_arg_def good_def dest!: spec [of _ rs])
  show ?case using Cons.IH [OF _ g(2)] Cons.prems g e by (cases out) (auto simp: good_def)
qed (simp add: good_def)

lemma expr_view_arity: "expr_view e = VOp op es \<Longrightarrow> fst (arities op) \<le> length es \<and> length es \<le> snd (arities op)"
  by (auto simp: expr_view_def split: option.splits json.splits if_splits)

lemma literal_fits: "expr_view e = VLit v t \<Longrightarrow> fits v t"
  by (auto simp: expr_view_def literal_type_def fits_def split: option.splits json.splits if_splits)

lemma evaluate_good:
  assumes fields: "\<And>k t rs. map_of H k = Some t \<Longrightarrow> results_ok G rs \<Longrightarrow> good G t (computed cx n k rs)"
    and "typed (map_of H) e t"
  shows "good_arg cx n G e t"
  using assms(2)
proof induction
  case (typed_lit e v t)
  then show ?case by (simp add: good_arg_def good_def literal_fits)
next
  case (typed_ref e k t)
  show ?case unfolding good_arg_def
  proof (intro allI impI)
    fix rs assume "results_ok G rs"
    then have g: "good G t (computed cx n k rs)" by (rule fields [OF typed_ref(2)])
    obtain out rs1 where c: "computed cx n k rs = (out, rs1)" by fastforce
    show "good G t (evaluate cx n e rs)" using g typed_ref(1) c by (cases out) (auto simp: good_def)
  qed
next
  case (typed_op e op es ts t)
  have args: "list_all2 (good_arg cx n G) es ts" using typed_op.IH by (rule list_all2_mono) simp
  note len = expr_view_arity [OF typed_op.hyps(1)]
  show ?case unfolding good_arg_def
  proof (intro allI impI)
    fix rs assume rs: "results_ok G rs"
    consider "op = IfOp" | "op = Coalesce" | "op \<noteq> IfOp" "op \<noteq> Coalesce" by blast
    then show "good G t (evaluate cx n e rs)"
    proof cases
      case 1
      then have "length es = 3" using len by simp
      then obtain c a b where es: "es = [c, a, b]" by (auto simp: numeral_3_eq_3 length_Suc_conv)
      then obtain u v w where ts: "ts = [u, v, w]" "good_arg cx n G c u" "good_arg cx n G a v" "good_arg cx n G b w"
        using args by (auto simp: list_all2_Cons1)
      then have uv: "u = TBoolean" "v = t" "w = t" using typed_op.hyps(2) 1 by (auto simp: op_type_def Let_def split: if_splits)
      obtain out rs1 where ev: "evaluate cx n c rs = (out, rs1)" by fastforce
      have o: "sound TBoolean out" "results_ok G rs1" using ts(2) rs ev uv by (auto simp: good_arg_def good_def dest!: spec [of _ rs])
      then show ?thesis using ev typed_op.hyps(1) 1 es ts uv
        by (cases out) (auto simp: good_def good_arg_def fits_def split: json.splits)
    next
      case 2
      then have "list_all (\<lambda>x. x = t) ts" using typed_op.hyps(2) by (auto simp: op_type_def Let_def split: if_splits)
      then show ?thesis using evaluate_first_good [OF args _ rs] typed_op.hyps(1) 2 by simp
    next
      case 3
      obtain out rs1 where ev: "evaluate_all cx n es rs = (out, rs1)" by fastforce
      then have g: "all_good G ts (out, rs1)" using evaluate_all_good [OF args rs] by simp
      show ?thesis
      proof (cases out)
        case (Val vs)
        have "list_all2 fits vs ts" using g Val by (simp add: all_good_def)
        moreover then have "length vs = length es" using args by (auto dest!: list_all2_lengthD)
        ultimately have "JNull \<in> set vs \<or> sound t (apply_op op vs)" using apply_op_sound [OF typed_op.hyps(2), of vs] len 3 by (cases "JNull \<in> set vs") auto
        then show ?thesis using ev Val g typed_op.hyps(1) 3 by (auto simp: good_def all_good_def)
      qed (use ev g typed_op.hyps(1) 3 in \<open>auto simp: good_def all_good_def\<close>)
    qed
  qed
qed

definition no_list_fields :: "rfield list \<Rightarrow> bool" where
  "no_list_fields fs \<longleftrightarrow> (\<forall>f \<in> set fs. rf_type f \<noteq> TList)"

text \<open>The fields before a field are its only dependencies, so as many units of fuel as there are fields before it suffice.\<close>

lemma computed_good:
  assumes fs: "no_list_fields (cx_fields cx)" and cat: "catalog_ok (cx_catalog cx)"
    and "types_ok (cx_fields cx) (cx_catalog cx) H" and "extends [] H G" and "length H \<le> n" and "map_of H k = Some t" and "results_ok G rs"
  shows "good G t (computed cx n k rs)"
  using assms(3-)
proof (induction arbitrary: n k t rs)
  case types_none
  then show ?case by simp
next
  case (types_next H key u)
  have H: "extends [] H G" "length H \<le> n" using types_next.prems(1,2) by (auto simp: extends_def)
  show ?case
  proof (cases "k = key")
    case False
    then have "map_of H k = Some t" using types_next.prems(3) by (auto simp: map_add_Some_iff)
    then show ?thesis using types_next.IH [OF H] types_next.prems(4) by blast
  next
    case True
    have "map_of H key = None" using types_next.hyps(2) by (simp add: map_of_eq_None_iff)
    then have t: "t = u" using types_next.prems(3) True by (simp add: map_add_def)
    have g: "map_of G k = Some t"
      using extends_le [OF types_next.prems(1)] types_next.prems(3) by (metis domI map_le_def)
    obtain f where f: "lookup_field (cx_fields cx) key = Some f" "\<not> rf_archived f"
      "if rf_type f = TFormula then \<exists>e. rf_expression f = Some e \<and> typed (map_of H) e u \<and> u \<in> {TNumber, TText, TBoolean, TDate}
       else if rf_type f = TRollup then rollupType (cx_fields cx) (cx_catalog cx) f = Some u else u = scalarType (rf_type f)"
      using types_next.hyps(3) unfolding field_typed_def by blast
    have nl: "rf_type f \<noteq> TList" using fs f(1) by (auto simp: no_list_fields_def lookup_field_def dest!: find_row_SomeD)
    show ?thesis
    proof (cases "map_of rs key")
      case (Some x)
      then show ?thesis using types_next.prems(4) g True by (cases x) (auto simp: good_def results_ok_def)
    next
      case None
      consider "rf_type f = TFormula" | "rf_type f = TRollup" | "rf_type f \<notin> {TFormula, TRollup}" by blast
      then show ?thesis
      proof cases
        case 1
        then obtain e where e: "rf_expression f = Some e" "typed (map_of H) e u" using f(3) by auto
        obtain m where m: "n = Suc m" "length H \<le> m" using types_next.prems(2) by (cases n) auto
        have "good G u (evaluate cx m e rs)"
          using evaluate_good [OF types_next.IH [OF H(1) m(2)] e(2)] types_next.prems(4) by (auto simp: good_arg_def)
        then show ?thesis using None f 1 e m t g True store_ok [of G] by (auto simp: good_def split: prod.splits)
      next
        case 2
        then have "sound u (rollup cx f)" using rollup_sound cat f(3) by simp
        then show ?thesis using None f 2 t g True store_ok [of G rs key u] types_next.prems(4) by (auto simp: good_def)
      next
        case 3
        then have "sound u (input_value cx f)" using input_value_sound f(3) nl by auto
        then show ?thesis using None f 3 t g True store_ok [of G rs key u] types_next.prems(4) by (auto simp: good_def)
      qed
    qed
  qed
qed

subsection \<open>Invariants of an evaluation\<close>

text \<open>
  What is shown of the steps that store results or throw errors holds of every evaluation: \<open>R\<close> relates the
  results before and after, \<open>Q\<close> holds of the errors thrown.
\<close>

definition throws :: "(calc_error \<Rightarrow> bool) \<Rightarrow> 'r outcome \<Rightarrow> bool" where
  "throws Q out = (case out of Throw c \<Rightarrow> Q c | _ \<Rightarrow> True)"

definition passes :: "(results \<Rightarrow> results \<Rightarrow> bool) \<Rightarrow> (calc_error \<Rightarrow> bool) \<Rightarrow> results \<Rightarrow> 'r outcome \<times> results \<Rightarrow> bool" where
  "passes R Q rs x \<longleftrightarrow> R rs (snd x) \<and> throws Q (fst x)"

lemma throws_simps [simp]: "throws Q (Throw c) = Q c" "throws Q (Val v)" "throws Q Stuck" "throws Q NoFuel"
  by (simp_all add: throws_def)

declare computed.simps [simp del] evaluate.simps [simp del]

locale evaluation =
  fixes cx :: calc_ctx and R :: "results \<Rightarrow> results \<Rightarrow> bool" and Q :: "calc_error \<Rightarrow> bool"
  assumes related_refl: "R rs rs"
    and related_trans: "R rs rs1 \<Longrightarrow> R rs1 rs2 \<Longrightarrow> R rs rs2"
    and related_store: "throws Q out \<Longrightarrow> R rs (store_result key out rs)"
    and dependency: "Q DEPENDENCY_ERROR" "Q UNAVAILABLE_FIELD"
    and operations: "throws Q (apply_op op vs)"
    and fields: "f \<in> set (cx_fields cx) \<Longrightarrow> \<not> rf_archived f \<Longrightarrow> rf_type f \<noteq> TFormula \<Longrightarrow>
      throws Q (if rf_type f = TRollup then rollup cx f else input_value cx f)"
begin

lemma evaluation_passes:
  "cx' = cx \<Longrightarrow> passes R Q rs (computed cx' n k rs)"
  "cx' = cx \<Longrightarrow> passes R Q rs (evaluate cx' n e rs)"
  "cx' = cx \<Longrightarrow> passes R Q rs (evaluate_all cx' n es rs)"
  "cx' = cx \<Longrightarrow> passes R Q rs (evaluate_first cx' n es rs)"
proof (induction cx' n k rs and cx' n e rs and cx' n es rs and cx' n es rs
    rule: computed_evaluate_evaluate_all_evaluate_first.induct)
  case (1 cx' n key rs)
  show ?case
  proof (cases "\<exists>f. map_of rs key = None \<and> lookup_field (cx_fields cx) key = Some f \<and> \<not> rf_archived f")
    case True
    then obtain f where f: "map_of rs key = None" "lookup_field (cx_fields cx) key = Some f" "\<not> rf_archived f" by blast
    show ?thesis
    proof (cases "rf_type f = TFormula")
      case True
      consider "n = 0" | "rf_expression f = None" | m e where "n = Suc m" "rf_expression f = Some e" by (cases n; cases "rf_expression f") auto
      then show ?thesis
      proof cases
        case (3 m e)
        obtain out rs1 where ev: "evaluate cx m e rs = (out, rs1)" by fastforce
        then have "R rs rs1" "throws Q out" using "1.IH" [OF f(1) _ f(3) True 3] f(2) "1.prems" by (auto simp: passes_def)
        then show ?thesis using f True 3 ev "1.prems" related_trans related_store by (auto simp: computed.simps passes_def)
      qed (use f True "1.prems" related_refl in \<open>auto simp: computed.simps passes_def split: nat.splits\<close>)
    next
      case False
      have "f \<in> set (cx_fields cx)" using f(2) by (auto simp: lookup_field_def dest!: find_row_SomeD)
      then show ?thesis
        using f False "1.prems" fields [of f] related_store by (cases "rf_type f = TRollup") (auto simp: computed.simps passes_def)
    qed
  next
    case False
    then show ?thesis using "1.prems" related_refl dependency
      by (cases "map_of rs key") (auto simp: computed.simps passes_def split: option.splits)
  qed
next
  case (2 cx' n e rs)
  note ev_simp = evaluate.simps [of cx n e rs]
  show ?case
  proof (cases "expr_view e")
    case (VRef k)
    obtain out rs1 where c: "computed cx n k rs = (out, rs1)" by fastforce
    then show ?thesis using "2.IH"(1) [OF VRef] "2.prems" VRef dependency by (cases out) (auto simp: ev_simp passes_def)
  next
    case (VOp op es)
    consider c a b where "op = IfOp" "es = [c, a, b]" | "op = IfOp" "\<nexists>c a b. es = [c, a, b]" | "op = Coalesce" | "op \<noteq> IfOp" "op \<noteq> Coalesce" by blast
    then show ?thesis
    proof cases
      case 1
      obtain out rs1 where ev: "evaluate cx n c rs = (out, rs1)" by fastforce
      then have d: "R rs rs1" "throws Q out" using "2.IH"(2) [OF VOp 1(1,2) refl refl refl "2.prems"] "2.prems" by (auto simp: passes_def)
      show ?thesis
      proof (cases "\<exists>w. out = Val (JBool w)")
        case True
        then obtain w where w: "out = Val (JBool w)" by blast
        have "passes R Q rs1 (evaluate cx n (if w then a else b) rs1)"
          using "2.IH"(3,4) [OF VOp 1(1,2) refl refl refl _ w refl _ "2.prems"] ev "2.prems" by (cases w) auto
        then show ?thesis using VOp 1 ev w d "2.prems" by (auto intro: related_trans simp: ev_simp passes_def)
      next
        case False
        then show ?thesis using VOp 1 ev d "2.prems" by (auto simp: ev_simp passes_def split: outcome.splits json.splits)
      qed
    next
      case 2
      then show ?thesis using VOp related_refl "2.prems" by (auto simp: ev_simp passes_def split: list.splits)
    next
      case 3
      then show ?thesis using VOp "2.IH"(5) [OF VOp] "2.prems" by (simp add: ev_simp)
    next
      case 4
      obtain out rs1 where ev: "evaluate_all cx n es rs = (out, rs1)" by fastforce
      then show ?thesis using VOp 4 "2.IH"(6) [OF VOp] "2.prems" operations by (cases out) (auto simp: ev_simp passes_def)
    qed
  qed (use "2.prems" in \<open>auto simp: ev_simp passes_def related_refl\<close>)
next
  case (4 cx' n e es rs)
  obtain out rs1 where ev: "evaluate cx n e rs = (out, rs1)" by fastforce
  then have d: "R rs rs1" "throws Q out" using "4.IH"(1) "4.prems" by (auto simp: passes_def)
  show ?case
  proof (cases out)
    case (Val v)
    obtain out2 rs2 where e2: "evaluate_all cx n es rs1 = (out2, rs2)" by fastforce
    then have "R rs1 rs2" "throws Q out2" using "4.IH"(2) [OF _ Val "4.prems"] ev "4.prems" by (auto simp: passes_def)
    then show ?thesis using d ev e2 Val "4.prems" by (cases out2) (auto intro: related_trans simp: passes_def)
  qed (use d ev "4.prems" in \<open>auto simp: passes_def\<close>)
next
  case (6 cx' n e es rs)
  obtain out rs1 where ev: "evaluate cx n e rs = (out, rs1)" by fastforce
  then have d: "R rs rs1" "throws Q out" using "6.IH"(1) "6.prems" by (auto simp: passes_def)
  show ?case
  proof (cases out)
    case (Val v)
    have "passes R Q rs1 (evaluate_first cx n es rs1)" if "v = JNull"
      using "6.IH"(2) [OF _ Val _ "6.prems"] that ev "6.prems" by simp
    then show ?thesis using d ev Val "6.prems" by (auto intro: related_trans simp: passes_def)
  qed (use d ev "6.prems" in \<open>auto simp: passes_def\<close>)
qed (auto simp: passes_def related_refl)

lemma computed_passes: "R rs (snd (computed cx n k rs))"
  using evaluation_passes(1) [OF refl] by (simp add: passes_def)

end

text \<open>Results are only added.\<close>

definition kept :: "results \<Rightarrow> results \<Rightarrow> bool" where
  "kept rs rs' \<longleftrightarrow> dom (map_of rs) \<subseteq> dom (map_of rs')"

interpretation results_kept: evaluation cx kept "\<lambda>_. True" for cx
proof
  show "kept rs (store_result key out rs)" for rs key out
    by (cases out) (auto simp: kept_def store_result_def update_conv')
qed (auto simp: kept_def throws_def split: outcome.splits)

text \<open>An error about stored values has its cause in a value.\<close>

definition caused :: "calc_ctx \<Rightarrow> calc_error \<Rightarrow> bool" where
  "caused cx c \<longleftrightarrow>
     (c = INVALID_INPUT \<longrightarrow> (\<exists>f \<in> set (cx_fields cx). \<not> rf_archived f \<and> rf_type f \<notin> {TFormula, TRollup} \<and> input_value cx f = Throw INVALID_INPUT)) \<and>
     (c = INVALID_RELATION \<longrightarrow> (\<exists>f \<in> set (cx_fields cx). \<not> rf_archived f \<and> rf_type f = TRollup \<and> rollup cx f = Throw INVALID_RELATION))"

definition errors_caused :: "calc_ctx \<Rightarrow> results \<Rightarrow> bool" where
  "errors_caused cx rs \<longleftrightarrow> (\<forall>k v c. map_of rs k = Some (v, Some c) \<longrightarrow> caused cx c)"

definition keeps_causes :: "calc_ctx \<Rightarrow> results \<Rightarrow> results \<Rightarrow> bool" where
  "keeps_causes cx rs rs' \<longleftrightarrow> (errors_caused cx rs \<longrightarrow> errors_caused cx rs')"

lemma apply_op_throws: "apply_op op vs = Throw c \<Longrightarrow> c \<notin> {INVALID_INPUT, INVALID_RELATION}"
  by (cases op) (auto simp: with_operands_def finite_num_def round_to_def json_less_def Let_def split: option.splits if_splits jsnum.splits json.splits)

lemma input_value_throws: "input_value cx f = Throw c \<Longrightarrow> c = INVALID_INPUT"
  by (auto simp: input_value_def split: option.splits if_splits)

lemma rollup_throws: "rollup cx f = Throw c \<Longrightarrow> c \<noteq> INVALID_INPUT"
  by (auto simp: rollup_def rollup_items_def with_operands_def aggregate_nums_def finite_num_def Let_def
      split: option.splits if_splits json.splits)

interpretation results_caused: evaluation cx "keeps_causes cx" "caused cx" for cx
proof
  show "keeps_causes cx rs (store_result key out rs)" if "throws (caused cx) out" for rs key out
    using that by (cases out) (auto simp: keeps_causes_def errors_caused_def store_result_def update_conv')
  show "throws (caused cx) (apply_op op vs)" for op vs
    using apply_op_throws [of op vs] by (auto simp: throws_def caused_def split: outcome.splits)
  show "throws (caused cx) (if rf_type f = TRollup then rollup cx f else input_value cx f)"
    if "f \<in> set (cx_fields cx)" "\<not> rf_archived f" "rf_type f \<noteq> TFormula" for f
    using that input_value_throws [of cx f] rollup_throws [of cx f] by (auto simp: throws_def caused_def split: outcome.splits)
qed (auto simp: keeps_causes_def caused_def)

lemma types_ok_distinct: "types_ok fs cat G \<Longrightarrow> distinct (map fst G) \<and> fst ` set G \<subseteq> rf_key ` set fs"
  by (induction rule: types_ok.induct)
     (auto simp: field_typed_def lookup_field_def dest!: find_row_SomeD)

lemma types_ok_length: "types_ok fs cat G \<Longrightarrow> length G \<le> length fs"
proof -
  assume "types_ok fs cat G"
  then have d: "distinct (map fst G)" and sub: "set (map fst G) \<subseteq> rf_key ` set fs" using types_ok_distinct by auto
  have "length G = card (set (map fst G))" using distinct_card [OF d] by simp
  also have "\<dots> \<le> card (rf_key ` set fs)" by (rule card_mono [OF _ sub]) simp
  also have "\<dots> \<le> length fs" by (metis card_image_le card_length dual_order.trans finite_set)
  finally show ?thesis .
qed

lemma types_ok_active: "types_ok fs cat G \<Longrightarrow> map_of G k = Some t \<Longrightarrow> \<exists>f. lookup_field fs k = Some f \<and> \<not> rf_archived f"
  by (induction rule: types_ok.induct) (auto simp: field_typed_def map_add_Some_iff split: if_splits)

lemma TYPES_not_list: "TYPES s \<noteq> Some TList"
  by (auto simp: TYPES_def dest!: map_of_SomeD)

lemma read_field_type: "read_field cat v = Some f \<Longrightarrow> rf_type f \<noteq> TList"
  using TYPES_not_list unfolding read_field_def by (fastforce split: option.splits json.splits prod.splits if_splits)

lemma read_fields_ok: "read_fields cat byKey names vs = Some fs \<Longrightarrow> length fs = length vs \<and> no_list_fields fs"
  by (induction vs arbitrary: byKey names fs)
     (fastforce simp: no_list_fields_def dest: read_field_type split: option.splits if_splits)+

lemma read_definitions_ok: "read_definitions defs cat = Some fs \<Longrightarrow> length fs \<le> 40 \<and> no_list_fields fs"
  unfolding read_definitions_def by (auto split: json.splits if_splits dest!: read_fields_ok)

lemma computed_stores:
  assumes "computed cx n k rs = (out, rs1)" and "sound t out" and "lookup_field (cx_fields cx) k = Some f" and "\<not> rf_archived f"
  shows "k \<in> dom (map_of rs1)"
proof -
  have st: "k \<in> dom (map_of (store_result k out rs'))" for rs' using assms(2) by (cases out) (auto simp: store_result_def update_conv')
  show ?thesis
    using assms st unfolding computed.simps [of cx n k rs]
    by (cases "map_of rs k") (auto split: option.splits nat.splits if_splits prod.splits)
qed

lemma calculate_all_ok:
  assumes fs: "no_list_fields (cx_fields cx)" and cat: "catalog_ok (cx_catalog cx)"
    and G: "types_ok (cx_fields cx) (cx_catalog cx) G" "length G \<le> n" and "results_ok G rs" and "set ks \<subseteq> dom (map_of G)"
  shows "\<exists>rs'. calculate_all cx n ks rs = Val rs' \<and> results_ok G rs' \<and> set ks \<subseteq> dom (map_of rs') \<and> kept rs rs'"
  using assms(5,6)
proof (induction ks arbitrary: rs)
  case (Cons k ks)
  obtain t where t: "map_of G k = Some t" using Cons.prems(2) by auto
  obtain out rs1 where c: "computed cx n k rs = (out, rs1)" by fastforce
  then have g: "sound t out" "results_ok G rs1"
    using computed_good [OF fs cat G(1) extends_refl G(2) t Cons.prems(1)] by (auto simp: good_def)
  obtain f where f: "lookup_field (cx_fields cx) k = Some f" "\<not> rf_archived f" using types_ok_active [OF G(1) t] by blast
  have k: "k \<in> dom (map_of rs1)" using computed_stores [OF c g(1) f] .
  obtain rs' where "calculate_all cx n ks rs1 = Val rs'" "results_ok G rs'" "set ks \<subseteq> dom (map_of rs')" "kept rs1 rs'"
    using Cons.IH [OF g(2)] Cons.prems(2) by auto
  moreover have "kept rs rs1" using results_kept.computed_passes [of rs cx n k] c by simp
  ultimately have r: "calculate_all cx n ks rs1 = Val rs'" "results_ok G rs'" "set (k # ks) \<subseteq> dom (map_of rs')" "kept rs rs'"
    using k results_kept.related_trans [of rs rs1 rs'] by (auto simp: kept_def)
  then show ?case using g(1) c by (cases out) auto
qed (simp add: kept_def)

lemma calculate_all_caused: "calculate_all cx n ks rs = Val rs' \<Longrightarrow> errors_caused cx rs \<Longrightarrow> errors_caused cx rs'"
proof (induction ks arbitrary: rs)
  case (Cons k ks)
  obtain out rs1 where c: "computed cx n k rs = (out, rs1)" by fastforce
  then have "errors_caused cx rs1" using results_caused.computed_passes [of cx rs n k] Cons.prems(2) by (simp add: keeps_causes_def)
  then show ?case using Cons.IH [of rs1] Cons.prems(1) c by (cases out) auto
qed simp

lemma computed_keys_active: "set (computed_keys fs) \<subseteq> set (active_keys fs)"
  by (auto simp: computed_keys_def active_keys_def)

text \<open>What a calculation is made of, once the definitions are accepted.\<close>

lemma calculation_run:
  fixes vals rels :: "(string \<times> json) list"
  assumes cat: "catalog_ok cat" and fs: "read_definitions defs cat = Some fs" and G: "validateRecordDefinitions defs cat = Some G" and n: "40 \<le> n"
  defines "cx \<equiv> \<lparr>cx_fields = fs, cx_values = vals, cx_relations = rels, cx_catalog = cat\<rparr>"
  shows "\<exists>rs. calculateRecordFields n defs (JObj vals) (JObj rels) cat =
       Some (Val (map (\<lambda>k. (k, fst (the (map_of rs k)), snd (the (map_of rs k)), the (map_of G k))) (computed_keys fs))) \<and>
     results_ok G rs \<and> set (computed_keys fs) \<subseteq> dom (map_of rs) \<and> set (computed_keys fs) \<subseteq> dom (map_of G) \<and> errors_caused cx rs"
proof -
  have "check_fields fs cat (active_keys fs) [] = Some G" using fs G by (simp add: validateRecordDefinitions_def)
  then have t: "types_ok fs cat G" "set (active_keys fs) \<subseteq> dom (map_of G)" using check_fields_sound [OF types_none] by blast+
  then have sub: "set (computed_keys fs) \<subseteq> dom (map_of G)" using computed_keys_active by blast
  have len: "length G \<le> n" using types_ok_length [OF t(1)] read_definitions_ok [OF fs] n by linarith
  have emp: "results_ok G []" "errors_caused cx []" by (auto simp: results_ok_def errors_caused_def)
  obtain rs where rs: "calculate_all cx n (computed_keys fs) [] = Val rs" "results_ok G rs" "set (computed_keys fs) \<subseteq> dom (map_of rs)"
    using calculate_all_ok [of cx G n "[]" "computed_keys fs"] read_definitions_ok [OF fs] cat t(1) len emp sub by (auto simp: cx_def)
  show ?thesis
    using rs fs G sub calculate_all_caused [OF rs(1) emp(2)] by (intro exI [of _ rs]) (simp add: calculateRecordFields_def cx_def)
qed

text \<open>C15: For definitions that were accepted, calculating a record always ends with a result for every computed field:
  the references between fields form no cycle, so fuel for forty references (the number of fields is at most forty) is
  enough, and no operation meets an operand of a type it does not expect, whatever the values and related records are.\<close>

theorem calculation_terminates:
  assumes "catalog_ok cat" and "validateRecordDefinitions defs cat = Some types" and "40 \<le> n"
  shows "\<exists>outs. calculateRecordFields n defs (JObj vals) (JObj rels) cat = Some (Val outs)"
proof -
  obtain fs where "read_definitions defs cat = Some fs" using assms(2) by (auto simp: validateRecordDefinitions_def split: option.splits)
  then show ?thesis using calculation_run [OF assms(1) _ assms(2,3)] by blast
qed

text \<open>C23: The outputs are the active computed fields in their order. The value of each has the type the validation
  found for the field, or is null, and it is null when the field has an error.\<close>

theorem calculation_well_typed:
  assumes "catalog_ok cat" and "read_definitions defs cat = Some fs" and "validateRecordDefinitions defs cat = Some types" and "40 \<le> n"
    and "calculateRecordFields n defs (JObj vals) (JObj rels) cat = Some (Val outs)"
  shows "map fst outs = computed_keys fs \<and>
     (\<forall>(k, v, err, t) \<in> set outs. map_of types k = Some t \<and> fits v t \<and> (err \<noteq> None \<longrightarrow> v = JNull))"
proof -
  obtain rs where rs: "outs = map (\<lambda>k. (k, fst (the (map_of rs k)), snd (the (map_of rs k)), the (map_of types k))) (computed_keys fs)"
    "results_ok types rs" "set (computed_keys fs) \<subseteq> dom (map_of rs)" "set (computed_keys fs) \<subseteq> dom (map_of types)"
    using calculation_run [OF assms(1-4), of vals rels] assms(5) by auto
  have "map_of types k = Some t \<and> fits v t \<and> (err \<noteq> None \<longrightarrow> v = JNull)" if o: "(k, v, err, t) \<in> set outs" for k v err t
  proof -
    have k: "k \<in> set (computed_keys fs)" using o rs(1) by auto
    then obtain w e u where "map_of rs k = Some (w, e)" "map_of types k = Some u" using rs(3,4) by fastforce
    then show ?thesis using o rs(1,2) by (auto simp: results_ok_def)
  qed
  moreover have "map fst outs = computed_keys fs" using rs(1) by (simp add: o_def)
  ultimately show ?thesis by blast
qed

definition field_obj :: "string \<Rightarrow> string \<Rightarrow> string \<Rightarrow> (string \<times> json) list \<Rightarrow> json" where
  "field_obj k nm ty extra = JObj ([(''key'', JStr k), (''name'', JStr nm), (''type'', JStr ty)] @ extra)"

definition ex_defs :: json where
  "ex_defs = JArr [field_obj ''qty'' ''Qty'' ''NUMBER'' [],
     field_obj ''parts'' ''Parts'' ''RELATION'' [(''collectionId'', JStr ''c1'')],
     field_obj ''many'' ''Many'' ''FORMULA'' [(''expression'', JObj [(''op'', JStr ''less''),
        (''args'', JArr [JObj [(''field'', JStr ''qty'')], JObj [(''field'', JStr ''count'')]])])],
     field_obj ''count'' ''Count'' ''ROLLUP'' [(''relationKey'', JStr ''parts''), (''aggregate'', JStr ''COUNT'')]]"

definition ex_catalog :: catalog where
  "ex_catalog = [(''c1'', JArr [field_obj ''price'' ''Price'' ''NUMBER'' []])]"

definition ex_values :: json where
  "ex_values = JObj [(''qty'', JNum (Fin 0)), (''parts'', JArr [JStr ''p''])]"

definition ex_related :: json where
  "ex_related = JObj [(''parts'', JObj [(''complete'', JBool True),
     (''items'', JArr [JObj [(''id'', JStr ''p''), (''values'', JObj [(''price'', JNum (Fin 5))])]])])]"

lemma ex_types: "validateRecordDefinitions ex_defs ex_catalog =
   Some [(''qty'', TNumber), (''parts'', TRelation), (''count'', TNumber), (''many'', TBoolean)]"
  by code_simp

lemma ex_catalog_ok: "catalog_ok ex_catalog"
  by (auto simp: catalog_ok_def ex_catalog_def field_obj_def jfield_def split: if_splits)

lemma ex_keys: "map_option computed_keys (read_definitions ex_defs ex_catalog) = Some [''many'', ''count'']"
  by code_simp

lemma ex_calculation:
  "calculateRecordFields 40 ex_defs ex_values ex_related ex_catalog =
   Some (Val [(''many'', JBool True, None, TBoolean), (''count'', JNum (Fin 1), None, TNumber)])"
  by code_simp

theorem calculation_terminates_witness:
  "\<exists>outs. calculateRecordFields 40 ex_defs (JObj [(''qty'', JNum (Fin 3))]) (JObj []) ex_catalog = Some (Val outs)"
  by (rule calculation_terminates [OF ex_catalog_ok ex_types]) simp

theorem calculation_well_typed_witness:
  "map_of [(''qty'', TNumber), (''parts'', TRelation), (''count'', TNumber), (''many'', TBoolean)] ''many'' = Some TBoolean \<and>
   fits (JBool True) TBoolean"
proof -
  obtain fs where fs: "read_definitions ex_defs ex_catalog = Some fs" using ex_keys by auto
  show ?thesis using calculation_well_typed [OF ex_catalog_ok fs ex_types order.refl ex_calculation [unfolded ex_values_def ex_related_def]]
    by simp
qed

end
