(* ===== verification/Record_Inputs.thy ===== *)
theory Record_Inputs
  imports Record_Calculations
begin

section \<open>Record values, definition updates and forms\<close>

text \<open>
  Models \<^verbatim>\<open>src/shared/record-inputs.js\<close>: the values a client may store in a record, changes of the
  definitions of a collection, and forms. \<open>new URL\<close> of the platform is a parameter \<open>url_of\<close>: \<open>None\<close> when it
  throws, otherwise protocol, user name and password.
\<close>

type_synonym url_parser = "string \<Rightarrow> (string \<times> string \<times> string) option"

definition editable :: "rfield \<Rightarrow> bool" where
  "editable f \<longleftrightarrow> \<not> rf_archived f \<and> rf_type f \<notin> {TFormula, TRollup}"

definition url_allowed :: "url_parser \<Rightarrow> string \<Rightarrow> bool" where
  "url_allowed url_of s =
     (case url_of s of None \<Rightarrow> False
      | Some (protocol, user, password) \<Rightarrow> protocol \<in> set [''http:'', ''https:''] \<and> user = [] \<and> password = [])"

definition relation_id :: "json \<Rightarrow> bool" where
  "relation_id v = (case v of JStr s \<Rightarrow> s \<noteq> [] \<and> length s \<le> 80 | _ \<Rightarrow> False)"

definition validateRecordValue :: "url_parser \<Rightarrow> rfield \<Rightarrow> json \<Rightarrow> bool" where
  "validateRecordValue url_of f v \<longleftrightarrow> editable f \<and> (v = JNull \<or>
     (case rf_type f of
        TText \<Rightarrow> (case v of JStr s \<Rightarrow> length s \<le> 2000 | _ \<Rightarrow> False)
      | TNumber \<Rightarrow> (case v of JNum n \<Rightarrow> is_finite n | _ \<Rightarrow> False)
      | TBoolean \<Rightarrow> (case v of JBool _ \<Rightarrow> True | _ \<Rightarrow> False)
      | TDate \<Rightarrow> (case v of JStr s \<Rightarrow> validDate s | _ \<Rightarrow> False)
      | TUrl \<Rightarrow> (case v of JStr s \<Rightarrow> length s \<le> 2048 \<and> url_allowed url_of s | _ \<Rightarrow> False)
      | TSelect \<Rightarrow> (case v of JStr s \<Rightarrow> s \<in> set (rf_options f) | _ \<Rightarrow> False)
      | TMultiSelect \<Rightarrow> (case v of JArr vs \<Rightarrow> length vs \<le> 30 \<and> list_all (\<lambda>i. i \<in> JStr ` set (rf_options f)) vs \<and> distinct vs | _ \<Rightarrow> False)
      | TRelation \<Rightarrow> (case v of JArr vs \<Rightarrow> length vs \<le> 100 \<and> list_all relation_id vs \<and> distinct vs | _ \<Rightarrow> False)
      | _ \<Rightarrow> False))"

definition empty_value :: "json option \<Rightarrow> bool" where
  "empty_value v =
     (case v of None \<Rightarrow> True | Some JNull \<Rightarrow> True | Some (JStr s) \<Rightarrow> js_trim s = [] | Some (JArr vs) \<Rightarrow> vs = [] | _ \<Rightarrow> False)"

text \<open>The patch is applied entry by entry; the first entry that is refused ends it.\<close>

fun apply_patch :: "url_parser \<Rightarrow> rfield list \<Rightarrow> (string \<times> json) list \<Rightarrow> (string \<times> json) list \<Rightarrow> (string \<times> json) list option" where
  "apply_patch url_of fs [] result = Some result"
| "apply_patch url_of fs ((key, v) # patch) result =
     (case lookup_field fs key of
        None \<Rightarrow> None
      | Some f \<Rightarrow> if validateRecordValue url_of f v then apply_patch url_of fs patch (AList.update key v result) else None)"

definition required_present :: "rfield list \<Rightarrow> (string \<times> json) list \<Rightarrow> bool" where
  "required_present fs vals = list_all (\<lambda>f. editable f \<and> rf_required f \<longrightarrow> \<not> empty_value (map_of vals (rf_key f))) fs"

definition values_valid :: "url_parser \<Rightarrow> rfield list \<Rightarrow> (string \<times> json) list \<Rightarrow> bool" where
  "values_valid url_of fs vals =
     list_all (\<lambda>f. editable f \<longrightarrow> (case map_of vals (rf_key f) of None \<Rightarrow> True | Some v \<Rightarrow> validateRecordValue url_of f v)) fs"

definition recordValuePatch :: "url_parser \<Rightarrow> json \<Rightarrow> json \<Rightarrow> json \<Rightarrow> catalog \<Rightarrow> (string \<times> json) list option" where
  "recordValuePatch url_of defs existing patch cat =
     (case (validateRecordDefinitions defs cat, read_definitions defs cat, existing, patch) of
        (Some _, Some fs, JObj old, JObj changes) \<Rightarrow>
          if 40 < length changes then None
          else (case apply_patch url_of fs changes old of
             None \<Rightarrow> None
           | Some result \<Rightarrow> if required_present fs result \<and> values_valid url_of fs result then Some result else None)
      | _ \<Rightarrow> None)"

subsection \<open>Updates of the definitions\<close>

definition json_options :: "json \<Rightarrow> json list" where
  "json_options v = (case jfield v ''options'' of Some (JArr os) \<Rightarrow> os | _ \<Rightarrow> [])"

definition keeps_field :: "json list \<Rightarrow> json \<Rightarrow> bool" where
  "keeps_field next_defs old =
     (case find_row (\<lambda>d. jfield d ''key'' = jfield old ''key'') next_defs of
        None \<Rightarrow> False
      | Some current \<Rightarrow>
         jfield current ''type'' = jfield old ''type'' \<and> jfield current ''collectionId'' = jfield old ''collectionId'' \<and>
         jfield current ''target'' = jfield old ''target'' \<and> list_all (\<lambda>opt. opt \<in> set (json_options current)) (json_options old))"

definition validateRecordDefinitionUpdate :: "json list \<Rightarrow> json \<Rightarrow> catalog \<Rightarrow> bool" where
  "validateRecordDefinitionUpdate previous next_defs cat =
     (case (validateRecordDefinitions next_defs cat, next_defs) of
        (Some _, JArr ds) \<Rightarrow> list_all (keeps_field ds) previous
      | _ \<Rightarrow> False)"

subsection \<open>Forms\<close>

record form_item =
  fi_key :: string
  fi_required :: bool
  fi_default :: "json option"

definition text_within :: "nat \<Rightarrow> json option \<Rightarrow> bool" where
  "text_within n v = (case v of None \<Rightarrow> True | Some (JStr s) \<Rightarrow> length s \<le> n | _ \<Rightarrow> False)"

definition not_blank :: "json option \<Rightarrow> bool" where
  "not_blank v = (case v of Some (JStr s) \<Rightarrow> js_trim s \<noteq> [] | _ \<Rightarrow> True)"

definition read_form_item :: "json \<Rightarrow> form_item option" where
  "read_form_item item =
     (case (jfield item ''key'', jfield item ''required'') of
        (Some (JStr key), Some (JBool required)) \<Rightarrow>
          if exact item [''key'', ''label'', ''help'', ''required'', ''defaultValue''] \<and>
             text_within 80 (jfield item ''label'') \<and> not_blank (jfield item ''label'') \<and> text_within 500 (jfield item ''help'')
          then Some \<lparr>fi_key = key, fi_required = required, fi_default = jfield item ''defaultValue''\<rparr> else None
      | _ \<Rightarrow> None)"

definition form_item_ok :: "url_parser \<Rightarrow> rfield list \<Rightarrow> form_item \<Rightarrow> bool" where
  "form_item_ok url_of fs item =
     (case lookup_field fs (fi_key item) of
        None \<Rightarrow> False
      | Some f \<Rightarrow> editable f \<and> (rf_required f \<longrightarrow> fi_required item) \<and>
          (case fi_default item of None \<Rightarrow> True | Some v \<Rightarrow> validateRecordValue url_of f v))"

fun read_form_items :: "json list \<Rightarrow> form_item list option" where
  "read_form_items [] = Some []"
| "read_form_items (v # vs) =
     (case read_form_item v of None \<Rightarrow> None | Some i \<Rightarrow> map_option (\<lambda>is. i # is) (read_form_items vs))"

definition revision_of :: "json option \<Rightarrow> int option" where
  "revision_of v =
     (case v of Some (JNum (Fin q)) \<Rightarrow> if q = of_int \<lfloor>q\<rfloor> \<and> 0 \<le> q then Some \<lfloor>q\<rfloor> else None | _ \<Rightarrow> None)"

definition form_heading_ok :: "json \<Rightarrow> json \<Rightarrow> bool" where
  "form_heading_ok form schemaRevision \<longleftrightarrow>
     exact form [''name'', ''description'', ''definitionRevision'', ''fields''] \<and>
     jfield form ''name'' \<noteq> None \<and> text_within 80 (jfield form ''name'') \<and> not_blank (jfield form ''name'') \<and>
     text_within 2000 (jfield form ''description'') \<and>
     revision_of (jfield form ''definitionRevision'') \<noteq> None \<and>
     revision_of (jfield form ''definitionRevision'') = revision_of (Some schemaRevision)"

definition validateRecordForm :: "url_parser \<Rightarrow> json \<Rightarrow> json \<Rightarrow> json \<Rightarrow> catalog \<Rightarrow> form_item list option" where
  "validateRecordForm url_of form defs schemaRevision cat =
     (case (validateRecordDefinitions defs cat, read_definitions defs cat, jfield form ''fields'') of
        (Some _, Some fs, Some (JArr vs)) \<Rightarrow>
          if \<not> form_heading_ok form schemaRevision \<or> vs = [] \<or> 40 < length vs \<or> \<not> distinct (map (\<lambda>v. jfield v ''key'') vs) then None
          else (case read_form_items vs of
             None \<Rightarrow> None
           | Some items \<Rightarrow>
              if list_all (form_item_ok url_of fs) items \<and>
                 list_all (\<lambda>f. editable f \<and> rf_required f \<longrightarrow> rf_key f \<in> set (map fi_key items)) fs
              then Some items else None)
      | _ \<Rightarrow> None)"

definition item_value :: "(string \<times> json) list \<Rightarrow> form_item \<Rightarrow> json" where
  "item_value submitted item =
     (case map_of submitted (fi_key item) of
        Some v \<Rightarrow> v
      | None \<Rightarrow> (case fi_default item of Some v \<Rightarrow> v | None \<Rightarrow> JNull))"

definition recordFormSubmission :: "url_parser \<Rightarrow> json \<Rightarrow> json \<Rightarrow> json \<Rightarrow> json \<Rightarrow> catalog \<Rightarrow> (string \<times> json) list option" where
  "recordFormSubmission url_of form defs schemaRevision submitted cat =
     (case (validateRecordForm url_of form defs schemaRevision cat, submitted) of
        (Some items, JObj vals) \<Rightarrow>
          if \<not> list_all (\<lambda>(k, _). k \<in> set (map fi_key items)) vals \<or>
             list_ex (\<lambda>i. fi_required i \<and> empty_value (Some (item_value vals i))) items
          then None
          else recordValuePatch url_of defs (JObj []) (JObj (map (\<lambda>i. (fi_key i, item_value vals i)) items)) cat
      | _ \<Rightarrow> None)"

subsection \<open>What an accepted definition says\<close>

lemma read_fields_all2: "read_fields cat byKey names vs = Some fs \<Longrightarrow> list_all2 (\<lambda>v f. read_field cat v = Some f) vs fs"
  by (induction vs arbitrary: byKey names fs) (auto split: option.splits if_splits)

lemma read_fields_distinct:
  "read_fields cat byKey names vs = Some fs \<Longrightarrow> distinct (map rf_key fs) \<and> js_lower ` rf_key ` set fs \<inter> set byKey = {}"
proof (induction vs arbitrary: byKey names fs)
  case (Cons v vs)
  obtain f fs' where f: "fs = f # fs'" "js_lower (rf_key f) \<notin> set byKey"
    "read_fields cat (js_lower (rf_key f) # byKey) (js_lower (js_trim (rf_name f)) # names) vs = Some fs'"
    using Cons.prems by (auto split: option.splits if_splits)
  show ?case using Cons.IH [OF f(3)] f(1,2) by auto
qed simp

lemma read_fieldD:
  assumes "read_field cat v = Some f"
  obtains ty where "jfield v ''key'' = Some (JStr (rf_key f))" "jfield v ''type'' = Some (JStr ty)" "TYPES ty = Some (rf_type f)"
    "read_options (rf_type f) v = Some (rf_options f)"
  using assms unfolding read_field_def by (auto split: option.splits json.splits prod.splits if_splits)

lemma str_list_map: "str_list vs = Some ss \<Longrightarrow> vs = map JStr ss"
  by (induction vs arbitrary: ss rule: str_list.induct) auto

lemma read_options_short: "read_options t v = Some opts \<Longrightarrow> s \<in> set opts \<Longrightarrow> length s \<le> 80"
  by (auto simp: read_options_def list_ex_iff split: option.splits json.splits if_splits)

lemma read_options_set: "read_options t v = Some opts \<Longrightarrow> t \<in> {TSelect, TMultiSelect} \<Longrightarrow> set (json_options v) = JStr ` set opts"
  by (auto simp: read_options_def json_options_def split: option.splits json.splits if_splits dest!: str_list_map)

lemma definition_fields:
  assumes "read_definitions defs cat = Some fs"
  shows "distinct (map rf_key fs)" and "f \<in> set fs \<Longrightarrow> s \<in> set (rf_options f) \<Longrightarrow> length s \<le> 80"
    and "\<exists>vs. defs = JArr vs \<and> list_all2 (\<lambda>v f. read_field cat v = Some f) vs fs"
proof -
  obtain vs where vs: "defs = JArr vs" "read_fields cat [] [] vs = Some fs"
    using assms by (auto simp: read_definitions_def split: json.splits if_splits)
  show "distinct (map rf_key fs)" using read_fields_distinct [OF vs(2)] by blast
  show a: "\<exists>vs. defs = JArr vs \<and> list_all2 (\<lambda>v f. read_field cat v = Some f) vs fs" using vs read_fields_all2 by blast
  assume "f \<in> set fs" and "s \<in> set (rf_options f)"
  moreover obtain v where "read_field cat v = Some f"
    using read_fields_all2 [OF vs(2)] \<open>f \<in> set fs\<close> by (auto simp: list_all2_conv_all_nth in_set_conv_nth)
  ultimately show "length s \<le> 80" using read_options_short by (auto elim!: read_fieldD)
qed

lemma lookup_self: "distinct (map rf_key fs) \<Longrightarrow> f \<in> set fs \<Longrightarrow> lookup_field fs (rf_key f) = Some f"
  unfolding lookup_field_def by (rule find_row_distinct) auto

subsection \<open>Accepted values\<close>

lemma valid_input:
  assumes "validateRecordValue url_of f v" and "\<And>s. s \<in> set (rf_options f) \<Longrightarrow> length s \<le> 80"
  shows "v = JNull \<or> input_ok f v"
  using assms by (cases "rf_type f") (fastforce simp: validateRecordValue_def input_ok_def scalarType_def split: json.splits)+

lemma valid_relation:
  assumes "validateRecordValue url_of f v" and "rf_type f = TRelation"
  shows "selected_ids (Some v) \<noteq> None"
  using assms by (auto simp: validateRecordValue_def selected_ids_def relation_id_def list_all_iff split: json.splits)

lemma types_ok_field: "types_ok fs cat G \<Longrightarrow> map_of G k = Some t \<Longrightarrow> \<exists>H. field_typed fs cat (map_of H) k t"
  by (induction rule: types_ok.induct) (auto simp: map_add_Some_iff split: if_splits)

lemma rollup_of_active:
  assumes "check_fields fs cat (active_keys fs) [] = Some G" and "distinct (map rf_key fs)" and "f \<in> set fs" "\<not> rf_archived f" "rf_type f = TRollup"
  shows "\<exists>t. rollupType fs cat f = Some t"
proof -
  have "rf_key f \<in> set (active_keys fs)" using assms(3,4) by (auto simp: active_keys_def)
  then obtain t where t: "types_ok fs cat G" "map_of G (rf_key f) = Some t" using check_fields_sound [OF types_none assms(1)] by blast
  then show ?thesis using types_ok_field [OF t] lookup_self [OF assms(2,3)] assms(5) by (auto simp: field_typed_def)
qed

lemma rollup_relation_valid:
  assumes "rollupType fs cat f = Some t"
  shows "\<exists>r. rollup_relation fs f = Some r \<and> r \<in> set fs \<and> \<not> rf_archived r \<and> rf_type r = TRelation \<and> aggregate_of (rf_aggregate f) \<noteq> None"
  using assms by (auto simp: rollupType_def rollup_relation_def lookup_field_def split: option.splits json.splits if_splits dest: find_row_SomeD)

lemma values_no_cause:
  assumes fs: "read_definitions defs cat = Some fs" and G: "validateRecordDefinitions defs cat = Some G" and v: "values_valid url_of fs vals"
  shows "\<not> caused \<lparr>cx_fields = fs, cx_values = vals, cx_relations = rels, cx_catalog = cat\<rparr> INVALID_INPUT"
    and "\<not> caused \<lparr>cx_fields = fs, cx_values = vals, cx_relations = rels, cx_catalog = cat\<rparr> INVALID_RELATION"
proof -
  let ?cx = "\<lparr>cx_fields = fs, cx_values = vals, cx_relations = rels, cx_catalog = cat\<rparr>"
  have c: "check_fields fs cat (active_keys fs) [] = Some G" using fs G by (simp add: validateRecordDefinitions_def)
  have valid: "validateRecordValue url_of f w" if "f \<in> set fs" "editable f" "map_of vals (rf_key f) = Some w" for f w
    using v that by (auto simp: values_valid_def list_all_iff)
  have inp: "input_value ?cx f \<noteq> Throw INVALID_INPUT" if f: "f \<in> set fs" "\<not> rf_archived f" "rf_type f \<notin> {TFormula, TRollup}" for f
  proof (cases "map_of vals (rf_key f)")
    case (Some w)
    then show ?thesis using valid_input [OF valid [OF f(1) _ Some]] f definition_fields(2) [OF fs f(1)] by (auto simp: input_value_def editable_def)
  qed (simp add: input_value_def)
  have rel: "rollup ?cx f \<noteq> Throw INVALID_RELATION" if f: "f \<in> set fs" "\<not> rf_archived f" "rf_type f = TRollup" for f
  proof -
    obtain t where "rollupType fs cat f = Some t" using rollup_of_active [OF c definition_fields(1) [OF fs] f] by blast
    then obtain r agg where r: "rollup_relation fs f = Some r" "r \<in> set fs" "\<not> rf_archived r" "rf_type r = TRelation" "aggregate_of (rf_aggregate f) = Some agg"
      using rollup_relation_valid by fast
    have s: "selected_ids (map_of vals (rf_key r)) \<noteq> None"
      using valid_relation [OF valid [OF r(2)] r(4)] r(3,4) by (cases "map_of vals (rf_key r)") (auto simp: editable_def selected_ids_def)
    then show ?thesis using r by (auto simp: rollup_def rollup_items_def with_operands_def aggregate_nums_def finite_num_def Let_def
      split: option.splits if_splits json.splits)
  qed
  show "\<not> caused ?cx INVALID_INPUT" using inp by (auto simp: caused_def)
  show "\<not> caused ?cx INVALID_RELATION" using rel by (auto simp: caused_def)
qed

lemma apply_patch_result:
  "apply_patch url_of fs changes old = Some result \<Longrightarrow>
     map_of result = map_of old ++ map_of (rev changes) \<and>
     list_all (\<lambda>(k, v). \<exists>f. lookup_field fs k = Some f \<and> validateRecordValue url_of f v) changes"
proof (induction changes arbitrary: old)
  case (Cons c changes)
  obtain k v where c: "c = (k, v)" by fastforce
  have i: "map_of result = map_of (AList.update k v old) ++ map_of (rev changes)"
    and l: "list_all (\<lambda>(k, v). \<exists>f. lookup_field fs k = Some f \<and> validateRecordValue url_of f v) changes"
    and f: "\<exists>f. lookup_field fs k = Some f \<and> validateRecordValue url_of f v"
    using Cons.prems Cons.IH [of "AList.update k v old"] c by (auto split: option.splits if_splits)
  then show ?case using c by (auto simp: update_conv' map_add_def fun_eq_iff split: option.splits)
qed simp

lemma recordValuePatchD:
  assumes "recordValuePatch url_of defs (JObj old) (JObj changes) cat = Some vals"
  obtains fs G where "read_definitions defs cat = Some fs" "validateRecordDefinitions defs cat = Some G"
    "apply_patch url_of fs changes old = Some vals" "required_present fs vals" "values_valid url_of fs vals"
  using assms by (auto simp: recordValuePatch_def split: option.splits if_splits)

text \<open>A patch that is accepted gives the old values with the changes on top. Fields that are archived or computed
  keep what was stored, required fields have a value that is not blank, and every stored value of an input field is valid.\<close>

theorem patch_result:
  assumes "recordValuePatch url_of defs (JObj old) (JObj changes) cat = Some vals" and "read_definitions defs cat = Some fs"
  shows "map_of vals = map_of old ++ map_of (rev changes) \<and>
     (\<forall>f \<in> set fs. \<not> editable f \<longrightarrow> map_of vals (rf_key f) = map_of old (rf_key f)) \<and>
     (\<forall>f \<in> set fs. editable f \<and> rf_required f \<longrightarrow> \<not> empty_value (map_of vals (rf_key f))) \<and>
     (\<forall>f \<in> set fs. \<forall>v. editable f \<and> map_of vals (rf_key f) = Some v \<longrightarrow> validateRecordValue url_of f v)"
proof -
  have p: "apply_patch url_of fs changes old = Some vals" and r: "required_present fs vals" and v: "values_valid url_of fs vals"
    using recordValuePatchD [OF assms(1)] assms(2) by (metis option.inject)+
  note res = apply_patch_result [OF p]
  have "map_of (rev changes) (rf_key f) = None" if f: "f \<in> set fs" "\<not> editable f" for f
  proof (rule ccontr)
    assume "map_of (rev changes) (rf_key f) \<noteq> None"
    then obtain w where "(rf_key f, w) \<in> set changes" by (auto dest: map_of_SomeD)
    then have "validateRecordValue url_of f w"
      using res lookup_self [OF definition_fields(1) [OF assms(2)] f(1)] by (fastforce simp: list_all_iff)
    then show False using f(2) by (simp add: validateRecordValue_def)
  qed
  then show ?thesis using res r v by (auto simp: required_present_def values_valid_def list_all_iff map_add_def)
qed

text \<open>C16: Values that passed the validation of a patch are accepted by the calculation: no computed field fails with
  INVALID\<open>_\<close>INPUT or INVALID\<open>_\<close>RELATION.\<close>

theorem accepted_values_calculate:
  assumes "catalog_ok cat" and "recordValuePatch url_of defs (JObj old) (JObj changes) cat = Some vals" and "40 \<le> n"
  shows "\<exists>outs. calculateRecordFields n defs (JObj vals) (JObj rels) cat = Some (Val outs) \<and>
     (\<forall>(k, v, err, t) \<in> set outs. err \<notin> {Some INVALID_INPUT, Some INVALID_RELATION})"
proof -
  obtain fs G where fs: "read_definitions defs cat = Some fs" and G: "validateRecordDefinitions defs cat = Some G"
    and v: "values_valid url_of fs vals" using recordValuePatchD [OF assms(2)] by metis
  let ?cx = "\<lparr>cx_fields = fs, cx_values = vals, cx_relations = rels, cx_catalog = cat\<rparr>"
  let ?out = "\<lambda>rs k. (k, fst (the (map_of rs k)), snd (the (map_of rs k)), the (map_of G k))"
  obtain rs where rs: "calculateRecordFields n defs (JObj vals) (JObj rels) cat = Some (Val (map (?out rs) (computed_keys fs)))"
    "set (computed_keys fs) \<subseteq> dom (map_of rs)" "errors_caused ?cx rs"
    using calculation_run [OF assms(1) fs G assms(3), of vals rels] by blast
  have "err \<notin> {Some INVALID_INPUT, Some INVALID_RELATION}" if "(k, w, err, t) \<in> set (map (?out rs) (computed_keys fs))" for k w err t
    using that rs(2,3) values_no_cause [OF fs G v, of rels] by (auto simp: errors_caused_def)
  then show ?thesis using rs(1) by blast
qed

subsection \<open>Updates keep stored values valid\<close>

lemma find_definition:
  assumes "list_all2 (\<lambda>v f. read_field cat v = Some f) ds fs"
    and "find_row (\<lambda>d. jfield d ''key'' = Some (JStr k)) ds = Some d"
  shows "\<exists>g. lookup_field fs k = Some g \<and> read_field cat d = Some g"
  using assms
proof (induction rule: list_all2_induct)
  case (Cons v vs f fs)
  have "jfield v ''key'' = Some (JStr (rf_key f))" using Cons.hyps(1) by (rule read_fieldD)
  then show ?case using Cons by (cases "rf_key f = k") (auto simp: lookup_field_def find_row_def)
qed (simp add: find_row_def)

lemma valid_more_options:
  assumes "validateRecordValue url_of f v" and "rf_type g = rf_type f" and "\<not> rf_archived g"
    and "rf_type f \<in> {TSelect, TMultiSelect} \<Longrightarrow> set (rf_options f) \<subseteq> set (rf_options g)"
  shows "validateRecordValue url_of g v"
  using assms by (cases "rf_type f") (fastforce simp: validateRecordValue_def editable_def list_all_iff split: json.splits)+

text \<open>C24: Definitions are updated without reinterpreting stored values: a value that was valid for a field is valid
  for the updated field of the same key and type, unless the field was archived.\<close>

theorem update_keeps_values:
  assumes "validateRecordDefinitionUpdate previous defs cat" and "old \<in> set previous" and "read_field cat0 old = Some f"
    and "read_definitions defs cat = Some fs" and "validateRecordValue url_of f v"
  shows "\<exists>g. lookup_field fs (rf_key f) = Some g \<and> rf_type g = rf_type f \<and> (rf_archived g \<or> validateRecordValue url_of g v)"
proof -
  obtain ds where ds: "defs = JArr ds" "list_all2 (\<lambda>v f. read_field cat v = Some f) ds fs" using definition_fields(3) [OF assms(4)] by blast
  have "keeps_field ds old" using assms(1,2) ds(1) by (auto simp: validateRecordDefinitionUpdate_def list_all_iff split: option.splits)
  then obtain d where d: "find_row (\<lambda>d. jfield d ''key'' = jfield old ''key'') ds = Some d" "jfield d ''type'' = jfield old ''type''"
    "set (json_options old) \<subseteq> set (json_options d)"
    by (auto simp: keeps_field_def list_all_iff split: option.splits)
  obtain ty where old: "jfield old ''key'' = Some (JStr (rf_key f))" "jfield old ''type'' = Some (JStr ty)" "TYPES ty = Some (rf_type f)"
    "read_options (rf_type f) old = Some (rf_options f)" using assms(3) by (rule read_fieldD)
  obtain g where g: "lookup_field fs (rf_key f) = Some g" "read_field cat d = Some g" using find_definition [OF ds(2), of "rf_key f" d] d(1) old(1) by auto
  then have t: "rf_type g = rf_type f" "read_options (rf_type g) d = Some (rf_options g)" using old(2,3) d(2) by (auto elim!: read_fieldD)
  have "JStr ` set (rf_options f) \<subseteq> JStr ` set (rf_options g)" if s: "rf_type f \<in> {TSelect, TMultiSelect}"
    using read_options_set [OF old(4) s] read_options_set [OF t(2)] t(1) s d(3) by simp
  then have "rf_type f \<in> {TSelect, TMultiSelect} \<Longrightarrow> set (rf_options f) \<subseteq> set (rf_options g)" by auto
  then show ?thesis using g(1) t(1) valid_more_options [OF assms(5) t(1)] by blast
qed

subsection \<open>Forms\<close>

lemma form_item_keys: "read_form_items vs = Some items \<Longrightarrow> map (\<lambda>v. jfield v ''key'') vs = map (Some \<circ> JStr \<circ> fi_key) items"
proof (induction vs arbitrary: items)
  case (Cons v vs)
  obtain i "is" where i: "read_form_item v = Some i" "read_form_items vs = Some is" "items = i # is"
    using Cons.prems by (auto split: option.splits)
  have "jfield v ''key'' = Some (JStr (fi_key i))"
    using i(1) by (auto simp: read_form_item_def split: option.splits json.splits if_splits)
  then show ?case using Cons.IH [OF i(2)] i(3) by simp
qed simp

lemma map_of_rev_distinct: "distinct (map fst xs) \<Longrightarrow> map_of (rev xs) = map_of xs"
  using map_of_inject_set [of "rev xs" xs] by (simp add: rev_map [symmetric])

lemma validateRecordFormD:
  assumes "validateRecordForm url_of form defs revision cat = Some items"
  shows "distinct (map fi_key items) \<and> revision_of (jfield form ''definitionRevision'') = revision_of (Some revision)"
proof -
  obtain vs where vs: "distinct (map (\<lambda>v. jfield v ''key'') vs)" "read_form_items vs = Some items" and h: "form_heading_ok form revision"
    using assms by (auto simp: validateRecordForm_def split: option.splits json.splits if_splits)
  have "distinct (map fi_key items)"
    using vs(1) form_item_keys [OF vs(2)] by (simp add: distinct_map inj_on_def o_def)
  then show ?thesis using h by (simp add: form_heading_ok_def)
qed

text \<open>A form submission is only accepted at the revision the form was reviewed for. It stores exactly the fields of
  the form, each with the submitted value, the default or null, and a required one is not blank.\<close>

theorem form_submission:
  assumes "recordFormSubmission url_of form defs revision (JObj submitted) cat = Some vals"
  shows "\<exists>items. validateRecordForm url_of form defs revision cat = Some items \<and>
     revision_of (jfield form ''definitionRevision'') = revision_of (Some revision) \<and>
     dom (map_of vals) = set (map fi_key items) \<and> fst ` set submitted \<subseteq> set (map fi_key items) \<and>
     (\<forall>i \<in> set items. map_of vals (fi_key i) = Some (item_value submitted i) \<and>
        (fi_required i \<longrightarrow> \<not> empty_value (Some (item_value submitted i))))"
proof -
  obtain items where items: "validateRecordForm url_of form defs revision cat = Some items"
    using assms by (auto simp: recordFormSubmission_def split: option.splits)
  let ?changes = "map (\<lambda>i. (fi_key i, item_value submitted i)) items"
  have c: "list_all (\<lambda>(k, _). k \<in> set (map fi_key items)) submitted \<and>
      \<not> list_ex (\<lambda>i. fi_required i \<and> empty_value (Some (item_value submitted i))) items"
    and p: "recordValuePatch url_of defs (JObj []) (JObj ?changes) cat = Some vals"
    using assms items by (simp_all add: recordFormSubmission_def split: if_splits)
  have sub: "fst ` set submitted \<subseteq> set (map fi_key items)" using c by (auto simp: list_all_iff)
  have req: "\<forall>i \<in> set items. fi_required i \<longrightarrow> \<not> empty_value (Some (item_value submitted i))" using c by (auto simp: list_ex_iff)
  note form = validateRecordFormD [OF items]
  have d: "distinct (map fst ?changes)" using form by (simp add: o_def)
  obtain fs where "apply_patch url_of fs ?changes [] = Some vals" using p by (rule recordValuePatchD)
  then have "map_of vals = map_of (rev ?changes)" using apply_patch_result by fastforce
  then have m: "map_of vals = map_of ?changes" using map_of_rev_distinct [OF d] by simp
  have "map_of vals (fi_key i) = Some (item_value submitted i)" if "i \<in> set items" for i
    using that d m by (force intro!: map_of_is_SomeI)
  then show ?thesis using items sub req form m by (auto simp: dom_map_of_conv_image_fst image_image)
qed

definition no_url :: url_parser where
  "no_url s = None"

definition ex_patch :: "(string \<times> json) list" where
  "ex_patch = [(''qty'', JNum (Fin 2)), (''parts'', JArr [JStr ''p''])]"

lemma ex_patch_result: "recordValuePatch no_url ex_defs (JObj []) (JObj ex_patch) ex_catalog = Some ex_patch"
  by code_simp

theorem accepted_values_calculate_witness:
  "\<exists>outs. calculateRecordFields 40 ex_defs (JObj ex_patch) (JObj []) ex_catalog = Some (Val outs) \<and>
     (\<forall>(k, v, err, t) \<in> set outs. err \<notin> {Some INVALID_INPUT, Some INVALID_RELATION})"
  by (rule accepted_values_calculate [OF ex_catalog_ok ex_patch_result]) simp

definition ex_select :: "string list \<Rightarrow> json" where
  "ex_select opts = field_obj ''state'' ''State'' ''SELECT'' [(''required'', JBool True), (''options'', JArr (map JStr opts))]"

definition ex_form :: json where
  "ex_form = JObj [(''name'', JStr ''Intake''), (''definitionRevision'', JNum (Fin 3)),
     (''fields'', JArr [JObj [(''key'', JStr ''state''), (''required'', JBool True), (''defaultValue'', JStr ''new'')]])]"

lemma ex_update: "validateRecordDefinitionUpdate [ex_select [''new'']] (JArr [ex_select [''new'', ''old'']]) []"
  by code_simp

lemma ex_submission:
  "recordFormSubmission no_url ex_form (JArr [ex_select [''new'', ''old'']]) (JNum (Fin 3)) (JObj []) [] = Some [(''state'', JStr ''new'')]"
  by code_simp

theorem update_keeps_values_witness:
  "\<exists>f fs g. read_field [] (ex_select [''new'']) = Some f \<and> read_definitions (JArr [ex_select [''new'', ''old'']]) [] = Some fs \<and>
     lookup_field fs (rf_key f) = Some g \<and> (rf_archived g \<or> validateRecordValue no_url g (JStr ''new''))"
proof -
  have f: "map_option (\<lambda>f. validateRecordValue no_url f (JStr ''new'')) (read_field [] (ex_select [''new''])) = Some True"
    and fs: "read_definitions (JArr [ex_select [''new'', ''old'']]) [] \<noteq> None" by code_simp+
  then obtain f fs where "read_field [] (ex_select [''new'']) = Some f" "validateRecordValue no_url f (JStr ''new'')"
    "read_definitions (JArr [ex_select [''new'', ''old'']]) [] = Some fs" by auto
  then show ?thesis using update_keeps_values [OF ex_update, of "ex_select [''new'']"] by fastforce
qed

theorem form_submission_witness:
  "\<exists>items. validateRecordForm no_url ex_form (JArr [ex_select [''new'', ''old'']]) (JNum (Fin 3)) [] = Some items \<and>
     dom (map_of [(''state'', JStr ''new'')]) = set (map fi_key items)"
  using form_submission [OF ex_submission] by blast

theorem patch_result_witness:
  "\<exists>fs. read_definitions ex_defs ex_catalog = Some fs \<and>
     (\<forall>f \<in> set fs. \<not> editable f \<longrightarrow> map_of ex_patch (rf_key f) = None)"
proof -
  obtain fs where fs: "read_definitions ex_defs ex_catalog = Some fs" using ex_keys by auto
  then show ?thesis using patch_result [OF ex_patch_result fs] by auto
qed

end
