(* ===== verification/Tenant_Policy.thy ===== *)
theory Tenant_Policy
  imports Request_Paths
begin

section \<open>Tenant isolation\<close>

text \<open>
  Models \<^verbatim>\<open>src/utils/prisma-tenant-proxy.js\<close>, \<^verbatim>\<open>src/utils/tenant-relations.js\<close>,
  \<^verbatim>\<open>src/services/soft-delete.service.js\<close> and \<^verbatim>\<open>src/middleware/tenancy.js\<close>: the request-scoped database
  client. It takes a call of a Prisma delegate, refuses it or rewrites its arguments, and checks the
  records a write refers to; the soft-delete layer below rewrites the call again.

  The generated data model and the lookups of the database are parameters, the record \<open>prisma_client\<close>.
  Arguments are JSON objects, a member that is undefined is missing, a date is its time value. Lookups
  made by one call answer from the same database.
\<close>

subsection \<open>Which model belongs to whom\<close>

definition DIRECT_SCOPED_MODELS :: "string list" where
  "DIRECT_SCOPED_MODELS =
     [''resourcelink'', ''portalhandoffrequest'', ''portalassistantconfig'', ''portalassistantconversation'',
     ''portalassistantrun'', ''client'', ''project'', ''user'', ''integration'', ''trasheditem'', ''attachment'',
     ''formdraft'', ''wpsite'', ''wpbackup'', ''wpreport'', ''wpalert'', ''wpfleetop'', ''wpmagicloginlog'',
     ''wpbridgenonce'', ''supporthourentry'', ''assignmentrule'', ''template'', ''unmatchedemail'',
     ''lineitemtemplate'', ''weeklydigest'', ''tasktemplate'', ''outreachsequence'', ''emailtriageitem'',
     ''aicontext'', ''ashconversation'', ''projecttemplate'', ''brandsettings'', ''pipelinestage'', ''promptversion'',
     ''credential'', ''credentialaccessaudit'', ''onboardingprogress'', ''slackinstallation'', ''slackchannelmapping'',
     ''slackeventreceipt'', ''googlecalendarconnection'', ''notionimportrecord'', ''importrun'', ''slackimportrecord'',
     ''loomimportrecord'', ''markupimportrecord'', ''aibridgeaction'', ''publicinquiry'', ''auditevent'',
     ''aiproviderconnection'', ''aiusagerecord'', ''reviewsession'', ''domainevent'', ''documentnumbersequence'',
     ''impersonationsession'', ''breakglassgrant'', ''expense'', ''taskcollaborator'', ''projectboard'',
     ''workspacepage'', ''workspacepagegrant'', ''workspacecollection'', ''workspacerecord'', ''workspacerecordform'',
     ''clientagentprofile'', ''workspacechatchannel'', ''workspacechatmember'', ''workspacechatmessage'',
     ''workspacechatattention'', ''gmailsendreceipt'', ''gmailingestreceipt'', ''workspaceaccountmanagerbinding'',
     ''workspaceaccountmanagerinvocation'', ''clientagentconversation'', ''clientagentrun'', ''clientagentrunreview'',
     ''clientserviceproject'', ''clientservicereport'', ''noterevision'', ''workspacepagerevision'']"

definition APPEND_ONLY_MODELS :: "string list" where
  "APPEND_ONLY_MODELS =
     [''auditevent'', ''reviewdecision'', ''portalassistantconversation'', ''clientagentrunreview'']"

definition TRIGGER_OWNED_MODELS :: "string list" where
  "TRIGGER_OWNED_MODELS =
     [''noterevision'', ''workspacepagerevision'', ''gmailingestreceipt'']"

definition BOOKKEEPING_ONLY_MODELS :: "(string \<times> string list) list" where
  "BOOKKEEPING_ONLY_MODELS =
     [(''resourcelink'', [''title'', ''url'', ''clientVisible'', ''archivedAt'', ''position'', ''revision'', ''updatedAt'']),
      (''portalassistantconfig'', [''enabled'', ''name'', ''instructions'', ''revision'', ''changedById'', ''updatedAt'']),
      (''portalassistantrun'', [''status'', ''response'', ''claimToken'', ''contextSnapshot'', ''memorySnapshot'', ''startedAt'', ''finishedAt'', ''errorCode'', ''updatedAt'']),
      (''portalhandoffrequest'', [''status'', ''ownerId'', ''claimedAt'', ''resolvedAt'', ''changedById'', ''requeueReason'', ''revision'', ''updatedAt'']),
      (''workspacechatattention'', [''acknowledgedAt'']),
      (''workspaceaccountmanagerinvocation'', [''deliveryState'', ''deliveryCode'', ''deliveredAt'', ''suppressedAt'', ''updatedAt'']),
      (''gmailsendreceipt'', [''status'', ''providerMessageId'', ''providerThreadId'', ''hubMessageId'', ''errorCode'', ''updatedAt'', ''finishedAt'']),
      (''domainevent'', [''status'', ''attempts'', ''nextAttemptAt'', ''lastAttemptAt'', ''lockedUntil'', ''claimToken'', ''publishedAt'', ''discardedAt'', ''lastError'', ''replayCount''])]"

definition GLOBAL_MODELS :: "string list" where
  "GLOBAL_MODELS =
     [''organization'', ''mailgunwebhookreceipt'', ''platformsetting'', ''clientportallinkredemption'',
     ''emailwebhookreceipt'']"

definition DIRECT_PARENT_RELATIONS :: "(string \<times> (string \<times> string \<times> string \<times> bool) list) list" where
  "DIRECT_PARENT_RELATIONS =
     [(''resourcelink'', [(''project'', ''projectId'', ''project'', True), (''task'', ''taskId'', ''task'', False), (''createdBy'', ''createdById'', ''user'', True)]),
      (''portalassistantconfig'', [(''client'', ''clientId'', ''client'', True)]),
      (''portalassistantconversation'', [(''client'', ''clientId'', ''client'', True), (''project'', ''projectId'', ''project'', True)]),
      (''portalassistantrun'', [(''client'', ''clientId'', ''client'', True), (''project'', ''projectId'', ''project'', True), (''conversation'', ''conversationId'', ''portalassistantconversation'', True)]),
      (''portalhandoffrequest'', [(''client'', ''clientId'', ''client'', True), (''project'', ''projectId'', ''project'', True)]),
      (''workspaceaccountmanagerbinding'', [(''channel'', ''channelId'', ''workspacechatchannel'', True), (''client'', ''clientId'', ''client'', True), (''project'', ''projectId'', ''project'', False), (''profile'', ''profileId'', ''clientagentprofile'', True), (''createdBy'', ''createdById'', ''user'', True), (''updatedBy'', ''updatedById'', ''user'', True)]),
      (''workspaceaccountmanagerinvocation'', [(''binding'', ''bindingId'', ''workspaceaccountmanagerbinding'', True), (''sourceMessage'', ''sourceMessageId'', ''workspacechatmessage'', True), (''requestedBy'', ''requestedById'', ''user'', True), (''conversation'', ''conversationId'', ''clientagentconversation'', True), (''run'', ''runId'', ''clientagentrun'', True)]),
      (''clientagentconversation'', [(''sourceChannel'', ''sourceChannelId'', ''workspacechatchannel'', False), (''sourceBinding'', ''sourceBindingId'', ''workspaceaccountmanagerbinding'', False), (''client'', ''clientId'', ''client'', True), (''createdBy'', ''createdById'', ''user'', True)]),
      (''clientagentrun'', [(''conversation'', ''conversationId'', ''clientagentconversation'', True), (''requestedBy'', ''requestedById'', ''user'', True)]),
      (''clientagentrunreview'', [(''run'', ''runId'', ''clientagentrun'', True)]),
      (''noterevision'', [(''note'', ''noteId'', ''note'', True)]),
      (''workspacepagerevision'', [(''page'', ''pageId'', ''workspacepage'', True)]),
      (''workspacecollection'', [(''author'', ''authorId'', ''user'', True)]),
      (''workspacerecord'', [(''collection'', ''collectionId'', ''workspacecollection'', True), (''author'', ''authorId'', ''user'', True)]),
      (''workspacerecordform'', [(''collection'', ''collectionId'', ''workspacecollection'', True), (''author'', ''authorId'', ''user'', True)]),
      (''workspacepage'', [(''author'', ''authorId'', ''user'', True), (''parent'', ''parentId'', ''workspacepage'', False)]),
      (''workspacepagegrant'', [(''page'', ''pageId'', ''workspacepage'', True), (''user'', ''userId'', ''user'', True)]),
      (''projectboard'', [(''project'', ''projectId'', ''project'', True)]),
      (''taskcollaborator'', [(''task'', ''taskId'', ''task'', True), (''user'', ''userId'', ''user'', True)]),
      (''project'', [(''client'', ''clientId'', ''client'', True)]),
      (''user'', [(''client'', ''clientId'', ''client'', False)]),
      (''supporthourentry'', [(''client'', ''clientId'', ''client'', False), (''project'', ''projectId'', ''project'', False)]),
      (''wpsite'', [(''client'', ''clientId'', ''client'', False), (''project'', ''projectId'', ''project'', False)]),
      (''wpbackup'', [(''site'', ''siteId'', ''wpsite'', True)]),
      (''wpreport'', [(''site'', ''siteId'', ''wpsite'', True)]),
      (''wpalert'', [(''site'', ''siteId'', ''wpsite'', False)]),
      (''wpbridgenonce'', [(''site'', ''siteId'', ''wpsite'', True)]),
      (''expense'', [(''client'', ''clientId'', ''client'', False), (''project'', ''projectId'', ''project'', False), (''invoice'', ''invoiceId'', ''invoice'', False)]),
      (''credential'', [(''client'', ''clientId'', ''client'', False), (''project'', ''projectId'', ''project'', False)]),
      (''slackchannelmapping'', [(''installation'', ''installationId'', ''slackinstallation'', True), (''project'', ''projectId'', ''project'', True)]),
      (''slackeventreceipt'', [(''installation'', ''installationId'', ''slackinstallation'', True)]),
      (''googlecalendarconnection'', [(''user'', ''userId'', ''user'', True)]),
      (''notionimportrecord'', [(''project'', ''projectId'', ''project'', True)]),
      (''slackimportrecord'', [(''project'', ''projectId'', ''project'', True), (''run'', ''runId'', ''importrun'', True)]),
      (''loomimportrecord'', [(''project'', ''projectId'', ''project'', True), (''run'', ''runId'', ''importrun'', True)]),
      (''markupimportrecord'', [(''project'', ''projectId'', ''project'', True), (''run'', ''runId'', ''importrun'', True)]),
      (''aibridgeaction'', [(''user'', ''userId'', ''user'', True)]),
      (''onboardingprogress'', [(''user'', ''userId'', ''user'', True)]),
      (''publicinquiry'', [(''owner'', ''ownerId'', ''user'', False)]),
      (''aiusagerecord'', [(''connection'', ''connectionId'', ''aiproviderconnection'', True)]),
      (''reviewsession'', [(''project'', ''projectId'', ''project'', True), (''attachment'', ''attachmentId'', ''attachment'', True), (''previousSession'', ''previousSessionId'', ''reviewsession'', False)])]"

definition TENANT_PATHS :: "(string \<times> string list) list" where
  "TENANT_PATHS =
     [(''contact'', [''client'']),
      (''thread'', [''client'']),
      (''invoice'', [''client'']),
      (''proposal'', [''client'']),
      (''contract'', [''client'']),
      (''retainerplan'', [''client'']),
      (''pipelinedeal'', [''client'']),
      (''clientembedding'', [''client'']),
      (''report'', [''client'']),
      (''aiteammessage'', [''client'']),
      (''revenuesnapshot'', [''client'']),
      (''clientemailmapping'', [''client'']),
      (''intakeform'', [''client'']),
      (''creativebrief'', [''client'']),
      (''asset'', [''client'']),
      (''clientinvitation'', [''client'']),
      (''estimate'', [''client'']),
      (''ratecard'', [''client'']),
      (''note'', [''project'', ''client'']),
      (''projectcommunication'', [''project'', ''client'']),
      (''chatmessage'', [''project'', ''client'']),
      (''revisionround'', [''project'', ''client'']),
      (''task'', [''project'', ''client'']),
      (''milestone'', [''project'', ''client'']),
      (''timesession'', [''project'', ''client'']),
      (''projectcontext'', [''project'', ''client'']),
      (''timeentry'', [''project'', ''client'']),
      (''activity'', [''project'', ''client'']),
      (''approval'', [''project'', ''client'']),
      (''message'', [''thread'', ''client'']),
      (''internalnote'', [''thread'', ''client'']),
      (''response'', [''thread'', ''client'']),
      (''invoicelineitem'', [''invoice'', ''client'']),
      (''invoicepayment'', [''invoice'', ''client'']),
      (''proposallineitem'', [''proposal'', ''client'']),
      (''proposalversion'', [''proposal'', ''client'']),
      (''taskcomment'', [''task'', ''project'', ''client'']),
      (''notification'', [''user'']),
      (''pushsubscription'', [''user'']),
      (''snippet'', [''createdBy'']),
      (''apikey'', [''user'']),
      (''calendarevent'', [''createdBy'']),
      (''eventattendee'', [''event'', ''createdBy'']),
      (''chatreaction'', [''message'', ''project'', ''client'']),
      (''emailtriagedraft'', [''item'']),
      (''ashchatmessage'', [''conversation'']),
      (''intakeformresponse'', [''form'', ''client'']),
      (''reviewannotation'', [''session'']),
      (''reviewdecision'', [''session'']),
      (''reviewsharelink'', [''session''])]"

definition RELATION_OWNER_MODELS :: "(string \<times> string) list" where
  "RELATION_OWNER_MODELS =
     [(''client'', ''client''), (''project'', ''project''), (''thread'', ''thread''), (''invoice'', ''invoice''),
     (''proposal'', ''proposal''), (''task'', ''task''), (''board'', ''projectboard''), (''user'', ''user''),
     (''createdBy'', ''user''), (''event'', ''calendarevent''), (''message'', ''chatmessage''),
     (''item'', ''emailtriageitem''), (''conversation'', ''ashconversation''), (''form'', ''intakeform''),
     (''session'', ''reviewsession'')]"


definition RESTRICTED_MODELS :: "string list" where
  "RESTRICTED_MODELS = []"

definition SCALAR_REFERENCES :: "(string \<times> (string \<times> string) list) list" where
  "SCALAR_REFERENCES = [(''invoice'', [(''projectId'', ''project''), (''proposalId'', ''proposal'')])]"

text \<open>The methods of a delegate; other functions of it are \<open>OtherMethod\<close>.\<close>

datatype pmethod =
    FindMany | FindFirst | FindFirstOrThrow | FindUnique | FindUniqueOrThrow | Count | Aggregate | GroupBy
  | Create | CreateMany | CreateManyAndReturn | Update | UpdateMany | UpdateManyAndReturn | Upsert | Delete | DeleteMany
  | OtherMethod string

definition READ_METHODS :: "pmethod list" where
  "READ_METHODS = [FindMany, FindFirst, FindFirstOrThrow, FindUnique, FindUniqueOrThrow, Count, Aggregate, GroupBy]"

definition CREATE_METHODS :: "pmethod list" where
  "CREATE_METHODS = [Create, CreateMany, CreateManyAndReturn]"

definition BULK_UPDATE_METHODS :: "pmethod list" where
  "BULK_UPDATE_METHODS = [UpdateMany, UpdateManyAndReturn]"

definition WRITE_METHODS :: "pmethod list" where
  "WRITE_METHODS = CREATE_METHODS @ [Update] @ BULK_UPDATE_METHODS @ [Upsert, Delete, DeleteMany]"

definition APPEND_ONLY_BLOCKED_METHODS :: "pmethod list" where
  "APPEND_ONLY_BLOCKED_METHODS = [Update, UpdateMany, UpdateManyAndReturn, Upsert, Delete, DeleteMany]"

definition BOOKKEEPING_BLOCKED_METHODS :: "pmethod list" where
  "BOOKKEEPING_BLOCKED_METHODS = [Upsert, Delete, DeleteMany, UpdateManyAndReturn]"

definition BOOKKEEPING_UPDATE_METHODS :: "pmethod list" where
  "BOOKKEEPING_UPDATE_METHODS = [Update, UpdateMany]"

definition tenantModelPolicy :: "string \<Rightarrow> string option" where
  "tenantModelPolicy m =
     (if m \<in> set RESTRICTED_MODELS then Some ''restricted'' else if m \<in> set GLOBAL_MODELS then Some ''global''
      else if map_of TENANT_PATHS m \<noteq> None then Some ''relation'' else if m \<in> set DIRECT_SCOPED_MODELS then Some ''direct'' else None)"

subsection \<open>Relations of the data model\<close>

record dm_field =
  df_name :: string
  df_kind :: string
  df_type :: string

record dm_model =
  dm_name :: string
  dm_fields :: "dm_field list"

record relation_info =
  ri_target :: string
  ri_fk :: "string option"
  ri_fkFields :: "string list"

record model_relations =
  mr_name :: string
  mr_delegate :: string
  mr_relations :: "(string \<times> relation_info) list"
  mr_foreignKeys :: "(string \<times> string) list"

definition COMPOSITE_TENANT_RELATIONS :: "(string \<times> (string \<times> string list) list) list" where
  "COMPOSITE_TENANT_RELATIONS =
     [(''clientagentrunreview'', [(''run'', [''runId'', ''organizationId''])]),
      (''resourcelink'', [(''organization'', [''organizationId'']), (''project'', [''projectId'', ''organizationId'']), (''task'', [''taskId'', ''projectId'']), (''createdBy'', [''createdById'', ''organizationId''])]),
      (''portalassistantconfig'', [(''client'', [''clientId'', ''organizationId''])]),
      (''portalassistantconversation'', [(''client'', [''clientId'', ''organizationId'']), (''project'', [''projectId'', ''organizationId''])]),
      (''portalassistantrun'', [(''client'', [''clientId'', ''organizationId'']), (''project'', [''projectId'', ''organizationId'']), (''conversation'', [''conversationId'', ''organizationId''])]),
      (''portalhandoffrequest'', [(''client'', [''clientId'', ''organizationId'']), (''project'', [''projectId'', ''organizationId''])]),
      (''workspaceaccountmanagerbinding'', [(''channel'', [''channelId'', ''organizationId'']), (''client'', [''clientId'', ''organizationId'']), (''project'', [''projectId'', ''organizationId'']), (''profile'', [''profileId'', ''organizationId'']), (''createdBy'', [''createdById'', ''organizationId'']), (''updatedBy'', [''updatedById'', ''organizationId''])]),
      (''workspaceaccountmanagerinvocation'', [(''binding'', [''bindingId'', ''organizationId'']), (''sourceMessage'', [''sourceMessageId'', ''organizationId'']), (''requestedBy'', [''requestedById'', ''organizationId'']), (''conversation'', [''conversationId'', ''organizationId'']), (''run'', [''runId'', ''organizationId''])]),
      (''gmailsendreceipt'', [(''user'', [''userId'', ''organizationId''])]),
      (''clientserviceproject'', [(''client'', [''clientId'', ''organizationId'']), (''credential'', [''credentialId'', ''organizationId'', ''clientId''])]),
      (''clientservicereport'', [(''client'', [''clientId'', ''organizationId'']), (''mapping'', [''mappingId'', ''organizationId'', ''clientId''])]),
      (''clientagentprofile'', [(''createdBy'', [''createdById'', ''organizationId'']), (''updatedBy'', [''updatedById'', ''organizationId''])]),
      (''clientagentconversation'', [(''createdBy'', [''createdById'', ''organizationId'']), (''sourceChannel'', [''sourceChannelId'', ''organizationId'']), (''sourceBinding'', [''sourceBindingId'', ''organizationId''])]),
      (''clientagentrun'', [(''conversation'', [''conversationId'', ''organizationId'']), (''requestedBy'', [''requestedById'', ''organizationId''])]),
      (''workspacechatchannel'', [(''createdBy'', [''createdById'', ''organizationId''])]),
      (''workspacechatmember'', [(''channel'', [''channelId'', ''organizationId'']), (''user'', [''userId'', ''organizationId''])]),
      (''workspacechatmessage'', [(''channel'', [''channelId'', ''organizationId'']), (''author'', [''authorId'', ''organizationId''])]),
      (''workspacechatattention'', [(''channel'', [''channelId'', ''organizationId'']), (''message'', [''messageId'', ''organizationId'']), (''recipient'', [''recipientId'', ''organizationId''])]),
      (''workspacecollection'', [(''author'', [''authorId'', ''organizationId''])]),
      (''workspacerecord'', [(''collection'', [''collectionId'', ''organizationId'']), (''author'', [''authorId'', ''organizationId''])]),
      (''workspacerecordform'', [(''collection'', [''collectionId'', ''organizationId'']), (''author'', [''authorId'', ''organizationId''])])]"

definition COMPOSITE_TARGETS :: "string list" where
  "COMPOSITE_TARGETS =
     [''User'', ''Client'', ''WorkspaceCollection'', ''WorkspaceChatChannel'', ''ClientAgentConversation'', ''ClientServiceProject'',
      ''Credential'', ''Project'', ''ClientAgentProfile'', ''WorkspaceAccountManagerBinding'', ''WorkspaceChatMessage'',
      ''ClientAgentRun'', ''PortalAssistantConversation'']"

definition delegateName :: "string \<Rightarrow> string" where
  "delegateName modelName = (case modelName of [] \<Rightarrow> [] | c # cs \<Rightarrow> lower_char c # cs)"

text \<open>A composite edge that is not one of the supported shapes makes the map unusable.\<close>

definition composite_ok :: "string \<Rightarrow> dm_field \<Rightarrow> string option \<Rightarrow> string list \<Rightarrow> bool" where
  "composite_ok model f fk fkFields \<longleftrightarrow>
     length fkFields \<le> 1 \<or>
     model = ''ResourceLink'' \<and> df_name f = ''task'' \<and> df_type f = ''Task'' \<and> fk = Some ''taskId'' \<and> fkFields = [''taskId'', ''projectId''] \<or>
     Some (fkFields ! 0) = fk \<and> fkFields ! 1 = ''organizationId'' \<and> df_type f \<in> set COMPOSITE_TARGETS \<and>
       (length fkFields \<le> 2 \<or>
        (model = ''ClientServiceReport'' \<and> df_name f = ''mapping'' \<or> model = ''ClientServiceProject'' \<and> df_name f = ''credential'') \<and>
        length fkFields = 3 \<and> fkFields ! 2 = ''clientId'')"

definition relation_fk :: "dm_model \<Rightarrow> dm_field \<Rightarrow> string option" where
  "relation_fk model f =
     (if df_name f @ ''Id'' \<in> set (map df_name (filter (\<lambda>g. df_kind g = ''scalar'') (dm_fields model))) then Some (df_name f @ ''Id'') else None)"

definition relation_fields :: "dm_model \<Rightarrow> dm_field \<Rightarrow> string list" where
  "relation_fields model f =
     (case Option.bind (map_of COMPOSITE_TENANT_RELATIONS (js_lower (dm_name model))) (\<lambda>rels. map_of rels (df_name f)) of
        Some ks \<Rightarrow> ks
      | None \<Rightarrow> (case relation_fk model f of Some k \<Rightarrow> [k] | None \<Rightarrow> []))"

fun model_edges :: "dm_model \<Rightarrow> dm_field list \<Rightarrow> ((string \<times> relation_info) list \<times> (string \<times> string) list) option" where
  "model_edges model [] = Some ([], [])"
| "model_edges model (f # fs) =
     (if df_kind f \<noteq> ''object'' then model_edges model fs
      else (let fk = relation_fk model f; fkFields = relation_fields model f
        in if \<not> set fkFields \<subseteq> set (map df_name (filter (\<lambda>g. df_kind g = ''scalar'') (dm_fields model))) \<or> \<not> composite_ok (dm_name model) f fk fkFields
           then None
           else map_option (\<lambda>(rels, keys). ((df_name f, \<lparr>ri_target = js_lower (df_type f), ri_fk = fk, ri_fkFields = fkFields\<rparr>) # rels,
                  (case fk of None \<Rightarrow> keys | Some k \<Rightarrow> (k, df_name f) # keys))) (model_edges model fs)))"

fun tenantRelationMap :: "dm_model list \<Rightarrow> (string \<times> model_relations) list option" where
  "tenantRelationMap [] = Some []"
| "tenantRelationMap (model # models) =
     (case (model_edges model (dm_fields model), tenantRelationMap models) of
        (Some (rels, keys), Some rest) \<Rightarrow>
          Some ((js_lower (dm_name model), \<lparr>mr_name = dm_name model, mr_delegate = delegateName (dm_name model),
                  mr_relations = rels, mr_foreignKeys = keys\<rparr>) # rest)
      | _ \<Rightarrow> None)"

subsection \<open>Soft deletion\<close>

definition SOFT_DELETE_MODELS :: "string list" where
  "SOFT_DELETE_MODELS =
     [''client'', ''project'', ''task'', ''note'', ''milestone'', ''timeEntry'', ''retainerPlan'',
      ''proposal'', ''contract'', ''invoice'', ''expense'', ''estimate'']"

type_synonym members = "(string \<times> json) list"

text \<open>Spreading a value into an object; arguments are objects, null or undefined.\<close>

definition spread :: "json option \<Rightarrow> members" where
  "spread v = (case v of Some (JObj kvs) \<Rightarrow> kvs | _ \<Rightarrow> [])"

definition hasExplicitDeletedAt :: "members \<Rightarrow> bool" where
  "hasExplicitDeletedAt args = (map_of (spread (map_of args ''where'')) ''deletedAt'' \<noteq> None)"

definition over_hundred :: "json option \<Rightarrow> bool" where
  "over_hundred v = (case v of Some (JNum (Fin q)) \<Rightarrow> 100 < q | _ \<Rightarrow> True)"

definition activeRecordArgs :: "pmethod \<Rightarrow> members \<Rightarrow> members" where
  "activeRecordArgs operation args =
     (if hasExplicitDeletedAt args then args
      else
        (let scoped = AList.update ''where'' (JObj (AList.update ''deletedAt'' JNull (spread (map_of args ''where'')))) args
         in if operation = FindMany \<and> over_hundred (map_of scoped ''take'') then AList.update ''take'' (JNum (Fin 100)) scoped else scoped))"

record raw_call =
  rc_model :: string
  rc_method :: pmethod
  rc_args :: members

text \<open>What the soft-delete layer hands to the generated client.\<close>

definition withSoftDelete :: "timestamp \<Rightarrow> raw_call \<Rightarrow> raw_call" where
  "withSoftDelete nowMs call =
     (if rc_model call \<notin> set SOFT_DELETE_MODELS then call
      else if rc_method call = Delete then
        call\<lparr>rc_method := Update, rc_args := AList.update ''data'' (JObj [(''deletedAt'', JNum (Fin (of_int nowMs)))]) (rc_args call)\<rparr>
      else if rc_method call = DeleteMany then
        call\<lparr>rc_method := UpdateMany, rc_args := AList.update ''data'' (JObj [(''deletedAt'', JNum (Fin (of_int nowMs)))]) (rc_args call)\<rparr>
      else if rc_method call \<in> set READ_METHODS then call\<lparr>rc_args := activeRecordArgs (rc_method call) (rc_args call)\<rparr>
      else call)"

subsection \<open>Ownership of a record\<close>

text \<open>The generated client: its data model, and what \<open>findFirst\<close> of a delegate finds for a filter.\<close>

record prisma_client =
  pc_models :: "dm_model list"
  pc_findFirst :: "string \<Rightarrow> json \<Rightarrow> json option"

datatype tenancy_error = TenancyError nat | PlainError

definition relationsFor :: "prisma_client \<Rightarrow> string \<Rightarrow> tenancy_error + model_relations option" where
  "relationsFor c modelKey =
     (if pc_models c = [] then Inl PlainError
      else (case tenantRelationMap (pc_models c) of None \<Rightarrow> Inl PlainError | Some mp \<Rightarrow> Inr (map_of mp modelKey)))"

text \<open>\<open>findFirst\<close> through the soft-delete layer, or below it.\<close>

definition find_first :: "prisma_client \<Rightarrow> string \<Rightarrow> bool \<Rightarrow> json \<Rightarrow> json option" where
  "find_first c delegate includeDeleted filter_by =
     pc_findFirst c delegate
       (if includeDeleted \<or> delegate \<notin> set SOFT_DELETE_MODELS then filter_by
        else JObj (spread (map_of (activeRecordArgs FindFirst [(''where'', filter_by)]) ''where'')))"

definition delegates :: "prisma_client \<Rightarrow> string list" where
  "delegates c = map (\<lambda>m. delegateName (dm_name m)) (pc_models c)"

definition asList :: "json option \<Rightarrow> json list" where
  "asList v = (case v of None \<Rightarrow> [] | Some JNull \<Rightarrow> [] | Some (JArr vs) \<Rightarrow> vs | Some w \<Rightarrow> [w])"

definition scalarKeyValue :: "json \<Rightarrow> string option" where
  "scalarKeyValue v = (case v of JStr s \<Rightarrow> Some s | JObj kvs \<Rightarrow> (case map_of kvs ''set'' of Some (JStr s) \<Rightarrow> Some s | _ \<Rightarrow> None) | _ \<Rightarrow> None)"

fun buildTenantWhere :: "string list \<Rightarrow> string \<Rightarrow> json" where
  "buildTenantWhere [] org = JObj [(''organizationId'', JStr org)]"
| "buildTenantWhere (via # path) org = JObj [(via, buildTenantWhere path org)]"

definition tenantFilteredWhere :: "json option \<Rightarrow> json \<Rightarrow> json" where
  "tenantFilteredWhere w tenantWhere =
     JObj ((case map_of (spread w) ''deletedAt'' of None \<Rightarrow> [] | Some d \<Rightarrow> [(''deletedAt'', d)]) @
       [(''AND'', JArr [JObj (spread w), tenantWhere])])"

definition with_org :: "string \<Rightarrow> json option \<Rightarrow> json" where
  "with_org org v = JObj (AList.update ''organizationId'' (JStr org) (spread v))"

definition ownedWhere :: "string \<Rightarrow> string \<Rightarrow> members \<Rightarrow> json" where
  "ownedWhere org modelKey w =
     (if modelKey \<in> set DIRECT_SCOPED_MODELS then with_org org (Some (JObj w))
      else tenantFilteredWhere (Some (JObj w)) (buildTenantWhere (the (map_of TENANT_PATHS modelKey)) org))"

text \<open>A composite reference is flattened; a reference that names another organization is refused.\<close>

definition composite_reference :: "string \<Rightarrow> members \<Rightarrow> members option" where
  "composite_reference modelKey w =
     (case map_of w ''id_organizationId'' of
        Some (JObj pair) \<Rightarrow>
          (case (map_of pair ''id'', map_of pair ''organizationId'') of
             (Some (JStr i), Some (JStr o1)) \<Rightarrow>
               if modelKey \<in> set [''user'', ''workspacecollection'', ''clientagentconversation''] \<and> length pair = 2
               then Some (AList.delete ''id_organizationId'' (AList.update ''organizationId'' (JStr o1) (AList.update ''id'' (JStr i) w)))
               else None
           | _ \<Rightarrow> None)
      | _ \<Rightarrow> Some w)"

definition ownedSelector :: "string \<Rightarrow> string \<Rightarrow> members \<Rightarrow> tenancy_error + members" where
  "ownedSelector org modelKey w =
     (case composite_reference modelKey w of
        None \<Rightarrow> Inl (TenancyError 400)
      | Some w1 \<Rightarrow>
         if map_of w1 ''organizationId'' \<notin> {None, Some (JStr org)} then Inl (TenancyError 404) else Inr w1)"

text \<open>The records verified during a call: model, whether deleted ones count, and the reference.\<close>

type_synonym verified = "(string \<times> bool \<times> members) list"

definition lookup_owner :: "prisma_client \<Rightarrow> string \<Rightarrow> string \<Rightarrow> bool \<Rightarrow> members \<Rightarrow> tenancy_error option" where
  "lookup_owner c org modelKey includeDeleted w =
     (if modelKey = ''organization'' then (if w = [(''id'', JStr org)] then None else Some (TenancyError 404))
      else if modelKey \<in> set GLOBAL_MODELS then Some (TenancyError 500)
      else if modelKey \<notin> set DIRECT_SCOPED_MODELS \<and> map_of TENANT_PATHS modelKey = None then Some (TenancyError 500)
      else (case relationsFor c modelKey of
         Inl e \<Rightarrow> Some e
       | Inr meta \<Rightarrow>
           (let delegate = (case meta of None \<Rightarrow> modelKey | Some m \<Rightarrow> mr_delegate m)
            in if delegate \<notin> set (delegates c) then Some (TenancyError 500)
               else if find_first c delegate includeDeleted (ownedWhere org modelKey w) = None then Some (TenancyError 404) else None)))"

definition verifyOwned :: "prisma_client \<Rightarrow> string \<Rightarrow> string \<Rightarrow> bool \<Rightarrow> json \<Rightarrow> verified \<Rightarrow> tenancy_error + verified" where
  "verifyOwned c org modelKey includeDeleted reference ver =
     (case reference of
        JObj kvs \<Rightarrow>
          if kvs = [] then Inl (TenancyError 400)
          else (case ownedSelector org modelKey kvs of
             Inl e \<Rightarrow> Inl e
           | Inr w \<Rightarrow>
              if (modelKey, includeDeleted, w) \<in> set ver then Inr ver
              else (case lookup_owner c org modelKey includeDeleted w of Some e \<Rightarrow> Inl e | None \<Rightarrow> Inr ((modelKey, includeDeleted, w) # ver)))
      | _ \<Rightarrow> Inl (TenancyError 400))"

definition reference :: "string \<Rightarrow> json" where
  "reference i = JObj [(''id'', JStr i)]"

end
