(* ===== verification/Tenant_Writes.thy ===== *)
theory Tenant_Writes
  imports Tenant_Policy
begin

section \<open>Tenant isolation: writes and calls\<close>

text \<open>
  The validation of written data and the rewriting of calls of
  \<^verbatim>\<open>src/utils/prisma-tenant-proxy.js\<close>. Data is visited in the order of its members; the organization is
  put into rows created through relations, as the code does in place.
\<close>

subsection \<open>Validating the data of a write\<close>

datatype nested_op = Connect | SetTo | NCreate | NCreateMany | NUpdate | NUpdateMany | NUpsert | Disconnect | NDelete | NDeleteMany
  | ConnectOrCreate | OtherOp

definition nested_op_of :: "string \<Rightarrow> nested_op" where
  "nested_op_of s =
     (case map_of [(''connect'', Connect), (''set'', SetTo), (''create'', NCreate), (''createMany'', NCreateMany), (''update'', NUpdate),
        (''updateMany'', NUpdateMany), (''upsert'', NUpsert), (''disconnect'', Disconnect), (''delete'', NDelete), (''deleteMany'', NDeleteMany),
        (''connectOrCreate'', ConnectOrCreate)] s of None \<Rightarrow> OtherOp | Some x \<Rightarrow> x)"

definition NESTED_TO_ONE_REFUSED :: "nested_op list" where
  "NESTED_TO_ONE_REFUSED = [NCreate, ConnectOrCreate, NUpsert]"

definition NESTED_TO_MANY_REFUSED :: "nested_op list" where
  "NESTED_TO_MANY_REFUSED = [ConnectOrCreate]"

text \<open>
  Visiting a list, a member of an object, or both branches of an upsert: the first error ends it, otherwise the
  visited values are put back in their places.
\<close>

fun each :: "('v \<Rightarrow> 's \<Rightarrow> 'e + 'w \<times> 's) \<Rightarrow> 'v list \<Rightarrow> 's \<Rightarrow> 'e + 'w list \<times> 's" where
  "each f [] s = Inr ([], s)"
| "each f (x # xs) s =
     (case f x s of
        Inl e \<Rightarrow> Inl e
      | Inr (y, s1) \<Rightarrow> (case each f xs s1 of Inl e \<Rightarrow> Inl e | Inr (ys, s2) \<Rightarrow> Inr (y # ys, s2)))"

definition over_list :: "(json \<Rightarrow> 's \<Rightarrow> 'e + json \<times> 's) \<Rightarrow> json \<Rightarrow> 's \<Rightarrow> 'e + json \<times> 's" where
  "over_list f v s =
     (case v of
        JNull \<Rightarrow> Inr (v, s)
      | JArr vs \<Rightarrow> (case each f vs s of Inl e \<Rightarrow> Inl e | Inr (ws, s1) \<Rightarrow> Inr (JArr ws, s1))
      | _ \<Rightarrow> f v s)"

definition over_member :: "string \<Rightarrow> (json \<Rightarrow> 's \<Rightarrow> 'e + json \<times> 's) \<Rightarrow> json \<Rightarrow> 's \<Rightarrow> 'e + json \<times> 's" where
  "over_member k f v s =
     (case v of
        JObj kvs \<Rightarrow>
          (case map_of kvs k of
             None \<Rightarrow> Inr (v, s)
           | Some w \<Rightarrow> (case f w s of Inl e \<Rightarrow> Inl e | Inr (w1, s1) \<Rightarrow> Inr (JObj (AList.update k w1 kvs), s1)))
      | _ \<Rightarrow> Inr (v, s))"

definition over_branches :: "(json \<Rightarrow> 's \<Rightarrow> 'e + json \<times> 's) \<Rightarrow> (json \<Rightarrow> 's \<Rightarrow> 'e + json \<times> 's) \<Rightarrow> json \<Rightarrow> 's \<Rightarrow> 'e + json \<times> 's" where
  "over_branches f g v s =
     (case over_member ''create'' f v s of
        Inl e \<Rightarrow> Inl e
      | Inr (v1, s1) \<Rightarrow>
         (case jfield v ''update'' of
            None \<Rightarrow> Inr (v1, s1)
          | Some w \<Rightarrow> (case g w s1 of Inl e \<Rightarrow> Inl e | Inr (w1, s2) \<Rightarrow> Inr (JObj (AList.update ''update'' w1 (spread (Some v1))), s2))))"

lemma each_cong [fundef_cong]:
  "xs = ys \<Longrightarrow> s = t \<Longrightarrow> (\<And>x s. x \<in> set ys \<Longrightarrow> f x s = g x s) \<Longrightarrow> each f xs s = each g ys t"
proof (induction xs arbitrary: ys s t)
  case (Cons x xs)
  then show ?case by (auto split: sum.splits)
qed simp

lemma over_list_cong [fundef_cong]:
  "v = w \<Longrightarrow> s = t \<Longrightarrow> (\<And>x s. x \<in> set (asList (Some w)) \<Longrightarrow> f x s = g x s) \<Longrightarrow> over_list f v s = over_list g w t"
  by (auto simp: over_list_def asList_def split: json.splits cong: each_cong)

lemma over_member_cong [fundef_cong]:
  "k = l \<Longrightarrow> v = w \<Longrightarrow> s = t \<Longrightarrow> (\<And>x s. jfield w l = Some x \<Longrightarrow> f x s = g x s) \<Longrightarrow> over_member k f v s = over_member l g w t"
  by (auto simp: over_member_def jfield_def split: json.splits option.splits)

lemma over_branches_cong [fundef_cong]:
  "v = w \<Longrightarrow> s = t \<Longrightarrow> (\<And>x s. jfield w ''create'' = Some x \<Longrightarrow> f x s = f' x s) \<Longrightarrow>
     (\<And>x s. jfield w ''update'' = Some x \<Longrightarrow> g x s = g' x s) \<Longrightarrow> over_branches f g v s = over_branches f' g' w t"
  using over_member_cong [of "''create''" "''create''" v w s t f f']
  by (auto simp: over_branches_def split: sum.splits option.splits)

text \<open>The rows an operation on a relation writes, with whether it creates them, and what visiting them is.\<close>

definition wrapped_update :: "bool \<Rightarrow> json \<Rightarrow> bool" where
  "wrapped_update toOne entry \<longleftrightarrow>
     (case jfield entry ''data'' of Some (JObj _) \<Rightarrow> True | _ \<Rightarrow> False) \<and> (\<not> toOne \<or> jfield entry ''where'' \<noteq> None)"

definition updated_row :: "bool \<Rightarrow> json \<Rightarrow> json" where
  "updated_row toOne entry = (if wrapped_update toOne entry then the (jfield entry ''data'') else entry)"

definition member_list :: "json \<Rightarrow> string \<Rightarrow> json list" where
  "member_list v k = (case jfield v k of None \<Rightarrow> [] | Some w \<Rightarrow> [w])"

fun nested_rows :: "bool \<Rightarrow> nested_op \<Rightarrow> json \<Rightarrow> (bool \<times> json) list" where
  "nested_rows toOne NCreate operand = map (Pair True) (asList (Some operand))"
| "nested_rows toOne NCreateMany operand = map (Pair True) (asList (jfield operand ''data''))"
| "nested_rows toOne NUpdate operand = map (\<lambda>u. (False, updated_row toOne u)) (asList (Some operand))"
| "nested_rows toOne NUpdateMany operand = map (\<lambda>u. (False, updated_row toOne u)) (asList (Some operand))"
| "nested_rows toOne NUpsert operand =
     concat (map (\<lambda>u. map (Pair True) (member_list u ''create'') @ map (Pair False) (member_list u ''update'')) (asList (Some operand)))"
| "nested_rows toOne _ operand = []"

definition visit_update :: "bool \<Rightarrow> (json \<Rightarrow> 's \<Rightarrow> 'e + json \<times> 's) \<Rightarrow> json \<Rightarrow> 's \<Rightarrow> 'e + json \<times> 's" where
  "visit_update toOne f u s = (if wrapped_update toOne u then over_member ''data'' f u s else f u s)"

fun nested_write :: "(json \<Rightarrow> 's \<Rightarrow> tenancy_error + json \<times> 's) \<Rightarrow> (bool \<Rightarrow> json \<Rightarrow> 's \<Rightarrow> tenancy_error + json \<times> 's) \<Rightarrow> bool \<Rightarrow> nested_op \<Rightarrow>
    json \<Rightarrow> 's \<Rightarrow> tenancy_error + json \<times> 's" where
  "nested_write refs rows toOne Connect operand s = over_list refs operand s"
| "nested_write refs rows toOne SetTo operand s = over_list refs operand s"
| "nested_write refs rows toOne NCreate operand s = over_list (rows True) operand s"
| "nested_write refs rows toOne NCreateMany operand s = over_member ''data'' (over_list (rows True)) operand s"
| "nested_write refs rows toOne NUpdate operand s = over_list (visit_update toOne (rows False)) operand s"
| "nested_write refs rows toOne NUpdateMany operand s = over_list (visit_update toOne (rows False)) operand s"
| "nested_write refs rows toOne NUpsert operand s = over_list (over_branches (rows True) (rows False)) operand s"
| "nested_write refs rows toOne Disconnect operand s = Inr (operand, s)"
| "nested_write refs rows toOne NDelete operand s = Inr (operand, s)"
| "nested_write refs rows toOne NDeleteMany operand s = Inr (operand, s)"
| "nested_write refs rows toOne _ operand s = Inl (TenancyError 500)"

lemma nested_write_cong [fundef_cong]:
  assumes "refs = refs'" "toOne = toOne'" "op = op'" "operand = operand'" "s = s'"
    and rows: "\<And>b r s. (b, r) \<in> set (nested_rows toOne' op' operand') \<Longrightarrow> rows b r s = rows' b r s"
  shows "nested_write refs rows toOne op operand s = nested_write refs' rows' toOne' op' operand' s'"
proof -
  have m: "over_list (rows True) d t = over_list (rows' True) d t" if "op' = NCreateMany" "jfield operand' ''data'' = Some d" for d t
    using that by (intro over_list_cong rows) auto
  have u: "visit_update toOne' (rows False) v t = visit_update toOne' (rows' False) v t"
    if "op' = NUpdate \<or> op' = NUpdateMany" "v \<in> set (asList (Some operand'))" for v t
  proof -
    have "(False, updated_row toOne' v) \<in> set (nested_rows toOne' op' operand')" using that by auto
    from rows [OF this] show ?thesis by (auto simp: visit_update_def updated_row_def intro!: over_member_cong)
  qed
  have b: "over_branches (rows True) (rows False) v t = over_branches (rows' True) (rows' False) v t"
    if "op' = NUpsert" "v \<in> set (asList (Some operand'))" for v t
    using that by (intro over_branches_cong rows) (auto simp: member_list_def intro!: bexI [of _ v])
  show ?thesis unfolding assms(1-5)
  proof (cases op')
    case NCreate
    then show "nested_write refs' rows toOne' op' operand' s' = nested_write refs' rows' toOne' op' operand' s'"
      by (auto intro!: over_list_cong rows)
  qed (auto intro!: over_list_cong over_member_cong m u b)
qed

datatype entry_kind = ScalarReference string | ForeignKey string | Relation relation_info | Column

definition entry_kind :: "string \<Rightarrow> model_relations \<Rightarrow> string \<Rightarrow> entry_kind" where
  "entry_kind modelKey meta key =
     (case Option.bind (map_of SCALAR_REFERENCES modelKey) (\<lambda>refs. map_of refs key) of
        Some target \<Rightarrow> ScalarReference target
      | None \<Rightarrow>
         (case Option.bind (map_of (mr_foreignKeys meta) key) (map_of (mr_relations meta)) of
            Some rel \<Rightarrow> ForeignKey (ri_target rel)
          | None \<Rightarrow> (case map_of (mr_relations meta) key of Some rel \<Rightarrow> Relation rel | None \<Rightarrow> Column)))"

definition verify_key :: "prisma_client \<Rightarrow> string \<Rightarrow> string \<Rightarrow> bool \<Rightarrow> json option \<Rightarrow> string \<times> json \<Rightarrow> verified \<Rightarrow>
    tenancy_error + (string \<times> json) \<times> verified" where
  "verify_key c org target includeDeleted stored entry ver =
     (case scalarKeyValue (snd entry) of
        None \<Rightarrow> Inr (entry, ver)
      | Some ownerId \<Rightarrow>
         if stored = Some (JStr ownerId) then Inr (entry, ver)
         else (case verifyOwned c org target includeDeleted (reference ownerId) ver of Inl e \<Rightarrow> Inl e | Inr ver1 \<Rightarrow> Inr (entry, ver1)))"

definition verify_ref :: "prisma_client \<Rightarrow> string \<Rightarrow> string \<Rightarrow> json \<Rightarrow> verified \<Rightarrow> tenancy_error + json \<times> verified" where
  "verify_ref c org target w ver = (case verifyOwned c org target False w ver of Inl e \<Rightarrow> Inl e | Inr ver1 \<Rightarrow> Inr (w, ver1))"

text \<open>The organization of a row created inside another write.\<close>

definition stamp :: "string \<Rightarrow> string \<Rightarrow> bool \<Rightarrow> bool \<Rightarrow> members \<Rightarrow> members" where
  "stamp org modelKey creating nested kvs =
     (if nested \<and> creating \<and> modelKey \<in> set DIRECT_SCOPED_MODELS \<and> map_of kvs ''organization'' = None
      then AList.update ''organizationId'' (JStr org) kvs else kvs)"

definition op_refused :: "relation_info \<Rightarrow> nested_op \<Rightarrow> bool" where
  "op_refused rel operation = (operation \<in> set (if ri_fk rel \<noteq> None then NESTED_TO_ONE_REFUSED else NESTED_TO_MANY_REFUSED))"

definition visit_operation :: "(json \<Rightarrow> 's \<Rightarrow> tenancy_error + json \<times> 's) \<Rightarrow> (bool \<Rightarrow> json \<Rightarrow> 's \<Rightarrow> tenancy_error + json \<times> 's) \<Rightarrow> relation_info \<Rightarrow>
    string \<times> json \<Rightarrow> 's \<Rightarrow> tenancy_error + (string \<times> json) \<times> 's" where
  "visit_operation refs rows rel operation s =
     (if op_refused rel (nested_op_of (fst operation)) then Inl (TenancyError 500)
      else (case nested_write refs rows (ri_fk rel \<noteq> None) (nested_op_of (fst operation)) (snd operation) s of
         Inl e \<Rightarrow> Inl e
       | Inr (operand, s1) \<Rightarrow> Inr ((fst operation, operand), s1)))"

definition visit_relation :: "(json \<Rightarrow> 's \<Rightarrow> tenancy_error + json \<times> 's) \<Rightarrow> (bool \<Rightarrow> json \<Rightarrow> 's \<Rightarrow> tenancy_error + json \<times> 's) \<Rightarrow> relation_info \<Rightarrow>
    string \<times> json \<Rightarrow> 's \<Rightarrow> tenancy_error + (string \<times> json) \<times> 's" where
  "visit_relation refs rows rel entry s =
     (case snd entry of
        JNull \<Rightarrow> Inr (entry, s)
      | JObj ops \<Rightarrow>
         (case each (visit_operation refs rows rel) ops s of Inl e \<Rightarrow> Inl e | Inr (ops1, s1) \<Rightarrow> Inr ((fst entry, JObj ops1), s1))
      | _ \<Rightarrow> Inl (TenancyError 500))"

definition operation_rows :: "relation_info \<Rightarrow> string \<times> json \<Rightarrow> (bool \<times> json) list" where
  "operation_rows rel operation = nested_rows (ri_fk rel \<noteq> None) (nested_op_of (fst operation)) (snd operation)"

lemma visit_relation_cong [fundef_cong]:
  assumes "refs = refs'" "rel = rel'" "entry = entry'" "s = s'"
    and rows: "\<And>ops operation b r s. snd entry' = JObj ops \<Longrightarrow> operation \<in> set ops \<Longrightarrow> (b, r) \<in> set (operation_rows rel' operation) \<Longrightarrow>
      rows b r s = rows' b r s"
  shows "visit_relation refs rows rel entry s = visit_relation refs' rows' rel' entry' s'"
proof -
  have "visit_operation refs' rows rel' operation t = visit_operation refs' rows' rel' operation t"
    if "snd entry' = JObj ops" "operation \<in> set ops" for ops operation t
    using rows [OF that] nested_write_cong [OF refl refl refl refl refl, of "ri_fk rel' \<noteq> None" "nested_op_of (fst operation)" "snd operation" rows rows' refs' t]
    by (simp add: visit_operation_def operation_rows_def)
  then show ?thesis unfolding assms(1-4) visit_relation_def by (auto split: json.splits cong: each_cong)
qed

function validateWriteData :: "prisma_client \<Rightarrow> string \<Rightarrow> string \<Rightarrow> bool \<Rightarrow> bool \<Rightarrow> json option \<Rightarrow> json \<Rightarrow> verified \<Rightarrow>
    tenancy_error + json \<times> verified" where
  "validateWriteData c org modelKey creating nested existing row ver =
     (case row of
        JObj kvs \<Rightarrow>
          (case relationsFor c modelKey of
             Inl e \<Rightarrow> Inl e
           | Inr None \<Rightarrow> Inl (TenancyError 500)
           | Inr (Some meta) \<Rightarrow>
              (case each (\<lambda>entry ver.
                  case entry_kind modelKey meta (fst entry) of
                    ScalarReference target \<Rightarrow>
                      verify_key c org target True (Option.bind existing (\<lambda>r. jfield r (fst entry))) entry ver
                  | ForeignKey target \<Rightarrow> verify_key c org target False None entry ver
                  | Column \<Rightarrow> Inr (entry, ver)
                  | Relation rel \<Rightarrow>
                      visit_relation (verify_ref c org (ri_target rel))
                        (\<lambda>create r ver. validateWriteData c org (ri_target rel) create True None r ver) rel entry ver)
                 (stamp org modelKey creating nested kvs) ver of
                 Inl e \<Rightarrow> Inl e
               | Inr (kvs1, ver1) \<Rightarrow> Inr (JObj kvs1, ver1)))
      | _ \<Rightarrow> Inr (row, ver))"
  by pat_completeness auto

lemma size_member: "jfield v k = Some w \<Longrightarrow> size w < size v"
proof -
  assume "jfield v k = Some w"
  then obtain kvs where v: "v = JObj kvs" "(k, w) \<in> set kvs" by (auto simp: jfield_def dest: map_of_SomeD split: json.splits)
  then show ?thesis using size_list_estimation [of "(k, w)" kvs "size w" "size_prod (\<lambda>_. 0) size"] by auto
qed

lemma size_entry: "(k, w) \<in> set kvs \<Longrightarrow> size w < size (JObj kvs)"
  using size_list_estimation [of "(k, w)" kvs "size w" "size_prod (\<lambda>_. 0) size"] by auto

lemma size_asList: "w \<in> set (asList (Some v)) \<Longrightarrow> size w \<le> size v"
  by (cases v) (auto simp: asList_def dest!: size_list_estimation' [of _ _ _ size, OF _ order.refl])

lemma stamp_entry: "entry \<in> set (stamp org modelKey creating nested kvs) \<Longrightarrow> entry = (''organizationId'', JStr org) \<or> entry \<in> set kvs"
proof -
  have "set (AList.update k v kvs) \<subseteq> insert (k, v) (set kvs)" for k :: string and v :: json by (induction kvs) auto
  then show "entry \<in> set (stamp org modelKey creating nested kvs) \<Longrightarrow> ?thesis" by (auto simp: stamp_def split: if_splits)
qed

lemma size_updated_row: "size (updated_row toOne u) \<le> size u"
  by (auto simp: updated_row_def wrapped_update_def dest!: size_member split: option.splits)

lemma size_nested_rows:
  assumes "(b, r) \<in> set (nested_rows toOne op operand)"
  shows "size r \<le> size operand"
proof -
  have a: "size w \<le> size operand" if "w \<in> set (asList (Some operand))" for w using that by (rule size_asList)
  have m: "size w \<le> size operand" if "w \<in> set (asList (jfield operand k))" for w k
    using that size_asList [of w] size_member [of operand k] by (cases "jfield operand k") (auto simp: asList_def dest: less_imp_le order.trans)
  have l: "size w < size u" if "w \<in> set (member_list u k)" for w u k using that size_member by (auto simp: member_list_def split: option.splits)
  show ?thesis using assms
    by (cases op) (auto dest!: a m l intro: order.trans [OF size_updated_row] order.trans [OF less_imp_le])
qed

termination validateWriteData
proof (relation "measure (\<lambda>(c, org, modelKey, creating, nested, existing, row, ver). size row)", goal_cases)
  case 1
  show ?case by simp
next
  case (2 c org modelKey creating nested existing row ver kvs b meta entry s rel ops operation create r sb)
  then have "(fst entry, JObj ops) \<in> set kvs" using stamp_entry [OF 2(4)] by (cases entry) auto
  moreover have "size (snd operation) < size (JObj ops)" using 2(7) size_entry [of "fst operation" "snd operation" ops] by simp
  ultimately show ?case using size_nested_rows [OF 2(8) [unfolded operation_rows_def]] size_entry [of "fst entry" "JObj ops" kvs] 2(1) by simp
qed

subsection \<open>Arguments of a write\<close>

definition visit_arg :: "string \<Rightarrow> (json \<Rightarrow> 's \<Rightarrow> 'e + json \<times> 's) \<Rightarrow> members \<Rightarrow> 's \<Rightarrow> 'e + members \<times> 's" where
  "visit_arg k f qa s =
     (case map_of qa k of
        None \<Rightarrow> Inr (qa, s)
      | Some v \<Rightarrow> (case f v s of Inl e \<Rightarrow> Inl e | Inr (w, s1) \<Rightarrow> Inr (AList.update k w qa, s1)))"

text \<open>Rows of the same batch may refer to each other, unless duplicates are skipped.\<close>

definition batch_rows :: "string \<Rightarrow> members \<Rightarrow> verified" where
  "batch_rows modelKey qa =
     (if truthy (map_of qa ''skipDuplicates'') then []
      else concat (map (\<lambda>row. case jfield row ''id'' of Some (JStr i) \<Rightarrow> [(modelKey, False, [(''id'', JStr i)])] | _ \<Rightarrow> []) (asList (map_of qa ''data''))))"

definition validateWriteArgs :: "prisma_client \<Rightarrow> string \<Rightarrow> string \<Rightarrow> pmethod \<Rightarrow> json option \<Rightarrow> members \<Rightarrow> verified \<Rightarrow>
    tenancy_error + members \<times> verified" where
  "validateWriteArgs c org modelKey method existing qa ver =
     (if method = Upsert then
        (case visit_arg ''create'' (validateWriteData c org modelKey True False None) qa ver of
           Inl e \<Rightarrow> Inl e
         | Inr (qa1, ver1) \<Rightarrow> visit_arg ''update'' (validateWriteData c org modelKey False False None) qa1 ver1)
      else if method \<in> set CREATE_METHODS then
        visit_arg ''data'' (over_list (validateWriteData c org modelKey True False existing)) qa (batch_rows modelKey qa @ ver)
      else if method = Update \<or> method \<in> set BULK_UPDATE_METHODS then
        visit_arg ''data'' (over_list (validateWriteData c org modelKey False False existing)) qa ver
      else Inr (qa, ver))"

subsection \<open>Models with an organization of their own\<close>

definition set_org :: "string \<Rightarrow> string \<Rightarrow> members \<Rightarrow> members" where
  "set_org org k qa = AList.update k (with_org org (map_of qa k)) qa"

definition scope_direct :: "string \<Rightarrow> pmethod \<Rightarrow> bool \<Rightarrow> members \<Rightarrow> members" where
  "scope_direct org method bookkeeping qa =
     (if method \<in> set READ_METHODS then set_org org ''where'' qa
      else if method \<in> set CREATE_METHODS then
        (case map_of qa ''data'' of
           Some (JArr rows) \<Rightarrow> AList.update ''data'' (JArr (map (\<lambda>d. with_org org (Some d)) rows)) qa
         | _ \<Rightarrow> set_org org ''data'' qa)
      else if method = Upsert then set_org org ''update'' (set_org org ''create'' (set_org org ''where'' qa))
      else
        (let qa1 = set_org org ''where'' qa
         in if truthy (map_of qa1 ''data'') \<and> \<not> bookkeeping then set_org org ''data'' qa1 else qa1))"

definition ownership_writes :: "pmethod \<Rightarrow> members \<Rightarrow> (json option \<times> bool) list" where
  "ownership_writes method qa =
     (if method = Upsert then [(map_of qa ''create'', True), (map_of qa ''update'', False)]
      else if method \<in> set CREATE_METHODS \<or> method = Update \<or> method \<in> set BULK_UPDATE_METHODS
      then map (\<lambda>row. (Some row, method \<in> set CREATE_METHODS)) (asList (map_of qa ''data''))
      else [])"

definition row_member :: "json option \<Rightarrow> string \<Rightarrow> json option" where
  "row_member row k = Option.bind row (\<lambda>r. jfield r k)"

definition nullish :: "json option \<Rightarrow> bool" where
  "nullish v = (v = None \<or> v = Some JNull)"

definition parent_check :: "string \<Rightarrow> json option \<Rightarrow> bool \<Rightarrow> string \<times> string \<times> string \<times> bool \<Rightarrow> tenancy_error option" where
  "parent_check org row creating parent =
     (case parent of (relation, field, model, required) \<Rightarrow>
        (let nested = row_member row relation; connected = row_member nested ''connect''
         in if truthy (row_member nested ''create'') \<or> truthy (row_member nested ''connectOrCreate'') then Some (TenancyError 500)
            else if \<not> nullish (row_member row field) then
              (if \<not> truthy (row_member row field) \<and> creating \<and> required then Some (TenancyError 400) else None)
            else if truthy connected then
              (case ownedSelector org model (spread connected) of
                 Inl e \<Rightarrow> Some e
               | Inr w \<Rightarrow> if \<not> truthy (map_of w ''id'') \<and> creating \<and> required then Some (TenancyError 400) else None)
            else if creating \<and> required then Some (TenancyError 400) else None))"

definition parent_relations :: "string \<Rightarrow> (string \<times> string \<times> string \<times> bool) list" where
  "parent_relations modelKey = (case map_of DIRECT_PARENT_RELATIONS modelKey of None \<Rightarrow> [] | Some ps \<Rightarrow> ps)"

fun first_error :: "'e option list \<Rightarrow> 'e option" where
  "first_error [] = None"
| "first_error (Some e # es) = Some e"
| "first_error (None # es) = first_error es"

definition parent_problem :: "string \<Rightarrow> string \<Rightarrow> pmethod \<Rightarrow> members \<Rightarrow> tenancy_error option" where
  "parent_problem org modelKey method qa =
     first_error (concat (map (\<lambda>(row, creating). map (parent_check org row creating) (parent_relations modelKey)) (ownership_writes method qa)))"

definition direct_call :: "prisma_client \<Rightarrow> string \<Rightarrow> string \<Rightarrow> pmethod \<Rightarrow> members \<Rightarrow> tenancy_error + raw_call" where
  "direct_call c org modelName method qa =
     (let modelKey = js_lower modelName;
          qa1 = scope_direct org method (map_of BOOKKEEPING_ONLY_MODELS modelKey \<noteq> None) qa
      in (case parent_problem org modelKey method qa1 of
            Some e \<Rightarrow> Inl e
          | None \<Rightarrow>
             (case validateWriteArgs c org modelKey method None qa1 [] of
                Inl e \<Rightarrow> Inl e
              | Inr (qa2, _) \<Rightarrow> Inr \<lparr>rc_model = modelName, rc_method = method, rc_args = qa2\<rparr>)))"

subsection \<open>Models owned through a relation\<close>

definition kept_members :: "string list \<Rightarrow> members \<Rightarrow> members" where
  "kept_members ks qa = concat (map (\<lambda>k. case map_of qa k of Some v \<Rightarrow> if truthy (Some v) then [(k, v)] else [] | None \<Rightarrow> []) ks)"

definition path_upsert :: "prisma_client \<Rightarrow> string \<Rightarrow> string \<Rightarrow> string \<Rightarrow> json \<Rightarrow> members \<Rightarrow> tenancy_error + raw_call" where
  "path_upsert c org modelName owner tenantWhere qa =
     (if map_of RELATION_OWNER_MODELS owner = None then Inl (TenancyError 500)
      else
        (let found = (find_first c modelName False (tenantFilteredWhere (map_of qa ''where'') tenantWhere) \<noteq> None);
             branch = map_of qa (if found then ''update'' else ''create'')
         in if \<not> found \<and> \<not> truthy (row_member branch (owner @ ''Id'')) then Inl (TenancyError 400)
            else (case validateWriteData c org (js_lower modelName) (\<not> found) False None (case branch of None \<Rightarrow> JNull | Some b \<Rightarrow> b) [] of
               Inl e \<Rightarrow> Inl e
             | Inr (row, _) \<Rightarrow>
                Inr \<lparr>rc_model = modelName, rc_method = (if found then Update else Create),
                  rc_args = (if found then kept_members [''where''] qa else []) @ [(''data'', row)] @ kept_members [''include'', ''select''] qa\<rparr>)))"

definition path_call :: "prisma_client \<Rightarrow> string \<Rightarrow> string \<Rightarrow> string list \<Rightarrow> pmethod \<Rightarrow> members \<Rightarrow> tenancy_error + raw_call" where
  "path_call c org modelName path method qa =
     (let modelKey = js_lower modelName; tenantWhere = buildTenantWhere path org; owner = hd path;
          scoped = tenantFilteredWhere (map_of qa ''where'') tenantWhere
      in if method \<in> {FindUnique, FindUniqueOrThrow} then
           Inr \<lparr>rc_model = modelName, rc_method = (if method = FindUniqueOrThrow then FindFirstOrThrow else FindFirst),
             rc_args = (''where'', scoped) # kept_members [''include'', ''select'', ''orderBy'', ''cursor'', ''distinct''] qa\<rparr>
         else if method \<in> {Update, Delete} then
           (case find_first c modelName False scoped of
              None \<Rightarrow> Inl (TenancyError 404)
            | Some target \<Rightarrow>
               (case (if method = Update then validateWriteArgs c org modelKey method (Some target) qa [] else Inr (qa, [])) of
                  Inl e \<Rightarrow> Inl e
                | Inr (qa1, _) \<Rightarrow> Inr \<lparr>rc_model = modelName, rc_method = method, rc_args = qa1\<rparr>))
         else if method = Upsert then path_upsert c org modelName owner tenantWhere qa
         else if method \<in> set CREATE_METHODS then
           (if map_of RELATION_OWNER_MODELS owner = None then Inl (TenancyError 500)
            else if list_ex (\<lambda>row. \<not> truthy (jfield row (owner @ ''Id''))) (asList (map_of qa ''data'')) then Inl (TenancyError 400)
            else (case validateWriteArgs c org modelKey method None qa [] of
               Inl e \<Rightarrow> Inl e
             | Inr (qa1, _) \<Rightarrow> Inr \<lparr>rc_model = modelName, rc_method = method, rc_args = qa1\<rparr>))
         else
           (let qa1 = AList.update ''where'' scoped qa
            in (case (if method \<in> set BULK_UPDATE_METHODS then validateWriteArgs c org modelKey method None qa1 [] else Inr (qa1, [])) of
                  Inl e \<Rightarrow> Inl e
                | Inr (qa2, _) \<Rightarrow> Inr \<lparr>rc_model = modelName, rc_method = method, rc_args = qa2\<rparr>)))"

subsection \<open>The request-scoped client\<close>

text \<open>\<open>Object.keys\<close> of the data; of an array only whether it has elements matters, their keys are digits.\<close>

definition data_keys :: "json option \<Rightarrow> string list" where
  "data_keys v = (case v of Some (JObj kvs) \<Rightarrow> map fst kvs | Some (JArr (_ # _)) \<Rightarrow> [''0''] | _ \<Rightarrow> [])"

definition method_refused :: "string \<Rightarrow> pmethod \<Rightarrow> members \<Rightarrow> tenancy_error option" where
  "method_refused modelKey method qa =
     (if method \<notin> set READ_METHODS \<and> method \<notin> set WRITE_METHODS then Some (TenancyError 500)
      else if modelKey \<in> set TRIGGER_OWNED_MODELS \<and> method \<in> set WRITE_METHODS then Some (TenancyError 500)
      else if modelKey \<in> set APPEND_ONLY_MODELS \<and> method \<in> set APPEND_ONLY_BLOCKED_METHODS then Some (TenancyError 500)
      else (case map_of BOOKKEEPING_ONLY_MODELS modelKey of
         None \<Rightarrow> None
       | Some allowed \<Rightarrow>
          if method \<in> set BOOKKEEPING_BLOCKED_METHODS then Some PlainError
          else if method \<in> set BOOKKEEPING_UPDATE_METHODS \<and> list_ex (\<lambda>k. k \<notin> set allowed) (data_keys (map_of qa ''data''))
          then Some PlainError else None))"

definition scoped_call :: "prisma_client \<Rightarrow> string \<Rightarrow> string \<Rightarrow> pmethod \<Rightarrow> members \<Rightarrow> tenancy_error + raw_call" where
  "scoped_call c org modelName method qa =
     (let modelKey = js_lower modelName
      in if modelKey \<in> set GLOBAL_MODELS then Inr \<lparr>rc_model = modelName, rc_method = method, rc_args = qa\<rparr>
         else if modelKey \<in> set RESTRICTED_MODELS then Inl (TenancyError 500)
         else if modelKey \<notin> set DIRECT_SCOPED_MODELS \<and> map_of TENANT_PATHS modelKey = None then Inl (TenancyError 500)
         else (case method_refused modelKey method qa of
            Some e \<Rightarrow> Inl e
          | None \<Rightarrow>
             if modelKey \<in> set DIRECT_SCOPED_MODELS then direct_call c org modelName method qa
             else path_call c org modelName (the (map_of TENANT_PATHS modelKey)) method qa))"

text \<open>The client of a request: an organization is required; its calls go through the soft-delete layer.\<close>

definition createScopedPrisma :: "prisma_client \<Rightarrow> timestamp \<Rightarrow> string \<Rightarrow> string \<Rightarrow> pmethod \<Rightarrow> members \<Rightarrow> tenancy_error + raw_call" where
  "createScopedPrisma c nowMs org modelName method qa =
     (if org = [] then Inl (TenancyError 500)
      else (case scoped_call c org modelName method qa of Inl e \<Rightarrow> Inl e | Inr call \<Rightarrow> Inr (withSoftDelete nowMs call)))"

end
