(* ===== verification/Tenant_Isolation.thy ===== *)
theory Tenant_Isolation
  imports Tenant_Writes
begin

section \<open>Tenant isolation: what reaches the database\<close>

text \<open>
  The meaning of the filters and checks of the request-scoped client, under what it relies on of the
  database (the locale \<open>prisma_where\<close>), and \<^verbatim>\<open>src/middleware/tenancy.js\<close>, which decides the client of a
  request. Reads and changes stay within the organization; so does every record written data refers to.
\<close>

subsection \<open>What filters mean\<close>

text \<open>
  What the code relies on of Prisma's filters: the members of a filter are all required, \<open>AND\<close> requires every filter
  of a list, \<open>organizationId\<close> compares that column, and a filter on a to-one relation is about the related record.
  Records are of any type; \<open>sat m r w\<close> says that the record \<open>r\<close> of model \<open>m\<close> matches the filter \<open>w\<close>.
\<close>

locale prisma_where =
  fixes sat :: "string \<Rightarrow> 'r \<Rightarrow> json \<Rightarrow> bool"
    and column :: "'r \<Rightarrow> string \<Rightarrow> json option"
    and related :: "string \<Rightarrow> 'r \<Rightarrow> string \<Rightarrow> (string \<times> 'r) option"
    and to_one :: "string \<Rightarrow> string \<Rightarrow> string option"
  assumes members: "sat m r (JObj kvs) \<Longrightarrow> (k, v) \<in> set kvs \<Longrightarrow> sat m r (JObj [(k, v)])"
    and conjunction: "sat m r (JObj [(''AND'', JArr ws)]) \<Longrightarrow> w \<in> set ws \<Longrightarrow> sat m r w"
    and org_column: "sat m r (JObj [(''organizationId'', JStr org)]) \<Longrightarrow> column r ''organizationId'' = Some (JStr org)"
    and relation: "to_one m via = Some m' \<Longrightarrow> sat m r (JObj [(via, JObj kvs)]) \<Longrightarrow>
      \<exists>r'. related m r via = Some (m', r') \<and> sat m' r' (JObj kvs)"

fun follow :: "(string \<Rightarrow> 'r \<Rightarrow> string \<Rightarrow> (string \<times> 'r) option) \<Rightarrow> string \<Rightarrow> 'r \<Rightarrow> string list \<Rightarrow> 'r option" where
  "follow related m r [] = Some r"
| "follow related m r (via # path) = (case related m r via of None \<Rightarrow> None | Some (m', r') \<Rightarrow> follow related m' r' path)"

definition owner_path :: "string \<Rightarrow> string list" where
  "owner_path modelKey = (if modelKey \<in> set DIRECT_SCOPED_MODELS then [] else the (map_of TENANT_PATHS modelKey))"

text \<open>The record belongs to the organization, by its own column or through its owner.\<close>

definition belongs :: "('r \<Rightarrow> string \<Rightarrow> json option) \<Rightarrow> (string \<Rightarrow> 'r \<Rightarrow> string \<Rightarrow> (string \<times> 'r) option) \<Rightarrow> string \<Rightarrow> 'r \<Rightarrow> string \<Rightarrow> bool" where
  "belongs column related m r org \<longleftrightarrow>
     (\<exists>r'. follow related m r (owner_path m) = Some r' \<and> column r' ''organizationId'' = Some (JStr org))"

text \<open>The relations of an owner path are to-one relations of the data model.\<close>

fun path_exists :: "(string \<Rightarrow> string \<Rightarrow> string option) \<Rightarrow> string \<Rightarrow> string list \<Rightarrow> bool" where
  "path_exists to_one m [] = True"
| "path_exists to_one m (via # path) = (case to_one m via of None \<Rightarrow> False | Some m' \<Rightarrow> path_exists to_one m' path)"

definition paths_exist :: "(string \<Rightarrow> string \<Rightarrow> string option) \<Rightarrow> bool" where
  "paths_exist to_one = list_all (\<lambda>(m, path). path_exists to_one m path) TENANT_PATHS"

definition call_where :: "raw_call \<Rightarrow> json" where
  "call_where call = JObj (spread (map_of (rc_args call) ''where''))"

lemma tenant_where_object: "\<exists>kvs. buildTenantWhere path org = JObj kvs"
  by (cases path) auto

context prisma_where
begin

lemma tenant_where:
  "path_exists to_one m path \<Longrightarrow> sat m r (buildTenantWhere path org) \<Longrightarrow>
     \<exists>r'. follow related m r path = Some r' \<and> column r' ''organizationId'' = Some (JStr org)"
proof (induction path arbitrary: m r)
  case Nil
  then show ?case using org_column by simp
next
  case (Cons via path)
  obtain m' where m': "to_one m via = Some m'" "path_exists to_one m' path" using Cons.prems(1) by (auto split: option.splits)
  obtain kvs where kvs: "buildTenantWhere path org = JObj kvs" using tenant_where_object by blast
  obtain r' where "related m r via = Some (m', r')" "sat m' r' (JObj kvs)" using relation [OF m'(1)] Cons.prems(2) kvs by auto
  then show ?case using Cons.IH [OF m'(2)] kvs by auto
qed

lemma filtered_where:
  assumes "path_exists to_one m path" and "sat m r (JObj kvs)" and "(''AND'', JArr [w, buildTenantWhere path org]) \<in> set kvs"
  shows "\<exists>r'. follow related m r path = Some r' \<and> column r' ''organizationId'' = Some (JStr org)" and "sat m r w"
proof -
  note conj = conjunction [OF members [OF assms(2,3)]]
  show "\<exists>r'. follow related m r path = Some r' \<and> column r' ''organizationId'' = Some (JStr org)"
    using tenant_where [OF assms(1)] conj by simp
  show "sat m r w" using conj by simp
qed

end

text \<open>The filters the client adds, also below the soft-delete layer.\<close>

definition isolating :: "string \<Rightarrow> string \<Rightarrow> members \<Rightarrow> bool" where
  "isolating modelKey org kvs \<longleftrightarrow>
     (if modelKey \<in> set DIRECT_SCOPED_MODELS then (''organizationId'', JStr org) \<in> set kvs
      else \<exists>w. (''AND'', JArr [w, buildTenantWhere (owner_path modelKey) org]) \<in> set kvs)"

lemma in_update_other: "(k, v) \<in> set kvs \<Longrightarrow> k \<noteq> k' \<Longrightarrow> (k, v) \<in> set (AList.update k' w kvs)"
  by (induction kvs) auto

lemma in_update_same: "(k, v) \<in> set (AList.update k v kvs)"
  by (rule map_of_SomeD) (simp add: update_conv')

lemma owner_path_exists: "paths_exist to_one \<Longrightarrow> modelKey \<notin> set DIRECT_SCOPED_MODELS \<Longrightarrow> map_of TENANT_PATHS modelKey \<noteq> None \<Longrightarrow>
   path_exists to_one modelKey (owner_path modelKey)"
  using map_of_SomeD [of TENANT_PATHS modelKey] by (auto simp: paths_exist_def owner_path_def list_all_iff)

context prisma_where
begin

lemma isolating_belongs:
  assumes "paths_exist to_one" and "modelKey \<in> set DIRECT_SCOPED_MODELS \<or> map_of TENANT_PATHS modelKey \<noteq> None"
    and "isolating modelKey org kvs" and "sat modelKey r (JObj kvs)"
  shows "belongs column related modelKey r org"
proof (cases "modelKey \<in> set DIRECT_SCOPED_MODELS")
  case True
  then have "column r ''organizationId'' = Some (JStr org)"
    using org_column [of modelKey r org] members [OF assms(4)] assms(3) by (simp add: isolating_def)
  then show ?thesis using True by (simp add: belongs_def owner_path_def)
next
  case False
  then show ?thesis
    using filtered_where(1) [OF owner_path_exists [OF assms(1) False] assms(4)] assms(2,3) by (auto simp: isolating_def belongs_def)
qed

end

subsection \<open>The filter of a call\<close>

definition where_members :: "members \<Rightarrow> members" where
  "where_members qa = spread (map_of qa ''where'')"

lemma set_org_where: "(''organizationId'', JStr org) \<in> set (where_members (set_org org ''where'' qa))"
  by (simp add: where_members_def set_org_def with_org_def update_conv' spread_def in_update_same)

lemma where_update [simp]: "k \<noteq> ''where'' \<Longrightarrow> where_members (AList.update k v qa) = where_members qa"
  by (simp add: where_members_def update_conv')

lemma visit_arg_where: "visit_arg k f qa s = Inr (qa1, s1) \<Longrightarrow> k \<noteq> ''where'' \<Longrightarrow> where_members qa1 = where_members qa"
  by (auto simp: visit_arg_def split: option.splits sum.splits)

lemma validateWriteArgs_where:
  assumes "validateWriteArgs c org modelKey method existing qa ver = Inr (qa1, ver1)"
  shows "where_members qa1 = where_members qa"
proof (cases "method = Upsert")
  case True
  then obtain qa2 ver2 where "visit_arg ''create'' (validateWriteData c org modelKey True False None) qa ver = Inr (qa2, ver2)"
    "visit_arg ''update'' (validateWriteData c org modelKey False False None) qa2 ver2 = Inr (qa1, ver1)"
    using assms by (auto simp: validateWriteArgs_def split: sum.splits)
  then show ?thesis by (auto dest!: visit_arg_where)
next
  case False
  then show ?thesis using assms by (auto simp: validateWriteArgs_def split: if_splits dest!: visit_arg_where)
qed

lemma scope_direct_where:
  assumes "method \<notin> set CREATE_METHODS"
  shows "(''organizationId'', JStr org) \<in> set (where_members (scope_direct org method bookkeeping qa))"
  using assms set_org_where [of org qa] unfolding scope_direct_def
  by (simp add: Let_def set_org_def [of org "''data''"] set_org_def [of org "''update''"] set_org_def [of org "''create''"])

lemma direct_call_isolating:
  assumes "direct_call c org modelName method qa = Inr call" and "js_lower modelName \<in> set DIRECT_SCOPED_MODELS" and "method \<notin> set CREATE_METHODS"
  shows "isolating (js_lower modelName) org (where_members (rc_args call)) \<and> rc_model call = modelName \<and> rc_method call = method"
  using assms scope_direct_where [OF assms(3)]
  by (auto simp: direct_call_def Let_def isolating_def split: option.splits sum.splits dest!: validateWriteArgs_where)

lemma direct_call_method: "direct_call c org modelName method qa = Inr call \<Longrightarrow> rc_method call = method"
  by (auto simp: direct_call_def Let_def split: option.splits sum.splits)

lemma tenantFilteredWhere_AND:
  "(''AND'', JArr [JObj (spread w), tw]) \<in> set (spread (Some (tenantFilteredWhere w tw)))"
  by (simp add: tenantFilteredWhere_def spread_def)

lemma kept_where: "where_members (kept_members [''where''] qa @ (''data'', row) # kept_members [''include'', ''select''] qa) = where_members qa"
  by (auto simp: where_members_def kept_members_def spread_def truthy_def split: option.splits json.splits)

text \<open>A call on a model owned through a relation is filtered, or its record was found in the organization.\<close>

lemma path_call_cases:
  assumes "path_call c org modelName path method qa = Inr call" and "rc_method call \<notin> set CREATE_METHODS"
  shows "(''AND'', JArr [JObj (where_members qa), buildTenantWhere path org]) \<in> set (where_members (rc_args call)) \<or>
     method \<in> {Update, Delete, Upsert} \<and> where_members (rc_args call) = where_members qa \<and> rc_method call \<notin> set READ_METHODS \<and>
     find_first c modelName False (tenantFilteredWhere (map_of qa ''where'') (buildTenantWhere path org)) \<noteq> None"
    and "rc_model call = modelName"
proof -
  let ?scoped = "tenantFilteredWhere (map_of qa ''where'') (buildTenantWhere path org)"
  have f: "(''AND'', JArr [JObj (where_members qa), buildTenantWhere path org]) \<in> set (spread (Some ?scoped))"
    using tenantFilteredWhere_AND [of "map_of qa ''where''"] by (simp add: where_members_def)
  consider "method \<in> {FindUnique, FindUniqueOrThrow}" | "method \<in> {Update, Delete}" | "method = Upsert" | "method \<in> set CREATE_METHODS"
    | "method \<notin> {FindUnique, FindUniqueOrThrow, Update, Delete, Upsert}" "method \<notin> set CREATE_METHODS" by blast
  then have "((''AND'', JArr [JObj (where_members qa), buildTenantWhere path org]) \<in> set (where_members (rc_args call)) \<or>
     method \<in> {Update, Delete, Upsert} \<and> where_members (rc_args call) = where_members qa \<and> rc_method call \<notin> set READ_METHODS \<and> find_first c modelName False ?scoped \<noteq> None) \<and>
     rc_model call = modelName"
  proof cases
    case 1
    then show ?thesis using assms(1) f by (auto simp: path_call_def Let_def where_members_def)
  next
    case 2
    then show ?thesis using assms(1)
      by (auto simp: path_call_def Let_def READ_METHODS_def split: option.splits sum.splits if_splits dest!: validateWriteArgs_where)
  next
    case 3
    then have "path_upsert c org modelName (hd path) (buildTenantWhere path org) qa = Inr call" using assms(1) by (simp add: path_call_def Let_def)
    then show ?thesis using assms(2) 3 kept_where [of qa]
      by (auto simp: path_upsert_def Let_def CREATE_METHODS_def READ_METHODS_def split: if_splits sum.splits)
  next
    case 4
    then show ?thesis using assms by (auto simp: path_call_def Let_def CREATE_METHODS_def split: if_splits sum.splits)
  next
    case 5
    then show ?thesis using assms(1) f
      by (auto simp: path_call_def Let_def where_members_def update_conv' split: if_splits sum.splits
          dest!: validateWriteArgs_where [unfolded where_members_def])
  qed
  then show "(''AND'', JArr [JObj (where_members qa), buildTenantWhere path org]) \<in> set (where_members (rc_args call)) \<or>
     method \<in> {Update, Delete, Upsert} \<and> where_members (rc_args call) = where_members qa \<and> rc_method call \<notin> set READ_METHODS \<and> find_first c modelName False ?scoped \<noteq> None"
    and "rc_model call = modelName" by blast+
qed

text \<open>The soft-delete layer only adds to a filter.\<close>

lemma active_where: "(k, v) \<in> set (where_members args) \<Longrightarrow> k \<noteq> ''deletedAt'' \<Longrightarrow> (k, v) \<in> set (where_members (activeRecordArgs operation args))"
proof -
  assume "(k, v) \<in> set (where_members args)" and "k \<noteq> ''deletedAt''"
  then have "(k, v) \<in> set (AList.update ''deletedAt'' JNull (where_members args))" by (rule in_update_other)
  then show ?thesis
    using \<open>(k, v) \<in> set (where_members args)\<close> by (auto simp: activeRecordArgs_def Let_def where_members_def update_conv' spread_def [of "Some _"])
qed

lemma soft_where:
  "(k, v) \<in> set (where_members (rc_args call)) \<Longrightarrow> k \<noteq> ''deletedAt'' \<Longrightarrow> (k, v) \<in> set (where_members (rc_args (withSoftDelete nowMs call)))"
  by (auto simp: withSoftDelete_def active_where)

lemma soft_write_where:
  "rc_method call \<notin> set READ_METHODS \<Longrightarrow> where_members (rc_args (withSoftDelete nowMs call)) = where_members (rc_args call)"
  by (auto simp: withSoftDelete_def)

lemma find_first_filter:
  assumes "find_first c delegate includeDeleted (JObj kvs) = Some row"
  shows "\<exists>kvs'. pc_findFirst c delegate (JObj kvs') = Some row \<and> (\<forall>k v. (k, v) \<in> set kvs \<and> k \<noteq> ''deletedAt'' \<longrightarrow> (k, v) \<in> set kvs')"
proof (cases "includeDeleted \<or> delegate \<notin> set SOFT_DELETE_MODELS")
  case True
  then show ?thesis using assms by (auto simp: find_first_def)
next
  case False
  have "(k, v) \<in> set (where_members (activeRecordArgs FindFirst [(''where'', JObj kvs)]))" if "(k, v) \<in> set kvs" "k \<noteq> ''deletedAt''" for k v
    using that by (intro active_where) (simp_all add: where_members_def spread_def)
  then show ?thesis using assms False by (auto simp: find_first_def where_members_def)
qed

text \<open>What \<open>findFirst\<close> returns matches the filter.\<close>

definition finds_match :: "(string \<Rightarrow> 'r \<Rightarrow> json \<Rightarrow> bool) \<Rightarrow> prisma_client \<Rightarrow> bool" where
  "finds_match sat c \<longleftrightarrow> (\<forall>delegate w row. pc_findFirst c delegate w = Some row \<longrightarrow> (\<exists>r. sat (js_lower delegate) r w))"

context prisma_where
begin

lemma found_belongs:
  assumes "paths_exist to_one" and "modelKey \<notin> set DIRECT_SCOPED_MODELS" and "map_of TENANT_PATHS modelKey \<noteq> None"
    and "finds_match sat c" and "js_lower modelName = modelKey"
    and "find_first c modelName False (tenantFilteredWhere w (buildTenantWhere (owner_path modelKey) org)) \<noteq> None"
  shows "\<exists>r. sat modelKey r (JObj (spread w)) \<and> belongs column related modelKey r org"
proof -
  let ?tw = "buildTenantWhere (owner_path modelKey) org"
  obtain row where row: "find_first c modelName False (tenantFilteredWhere w ?tw) = Some row" using assms(6) by blast
  obtain kvs' where kvs': "pc_findFirst c modelName (JObj kvs') = Some row" "(''AND'', JArr [JObj (spread w), ?tw]) \<in> set kvs'"
    using find_first_filter [OF row [unfolded tenantFilteredWhere_def]] by auto
  obtain r where "sat modelKey r (JObj kvs')" using assms(4,5) kvs'(1) unfolding finds_match_def by blast
  note f = filtered_where [OF owner_path_exists [OF assms(1-3)] this kvs'(2)]
  show ?thesis using f by (auto simp: belongs_def)
qed

lemma call_isolated:
  assumes paths: "paths_exist to_one" and finds: "finds_match sat c"
    and uniq: "\<And>r r'. method \<in> {Update, Delete, Upsert} \<Longrightarrow> sat (js_lower modelName) r (JObj (where_members qa)) \<Longrightarrow>
      sat (js_lower modelName) r' (JObj (where_members qa)) \<Longrightarrow> r = r'"
    and call: "createScopedPrisma c nowMs org modelName method qa = Inr call" and glob: "js_lower modelName \<notin> set GLOBAL_MODELS"
    and cr: "rc_method call \<notin> set CREATE_METHODS" and r: "sat (js_lower modelName) r (JObj (where_members (rc_args call)))"
  shows "belongs column related (js_lower modelName) r org"
proof -
  let ?key = "js_lower modelName"
  obtain call0 where call0: "scoped_call c org modelName method qa = Inr call0" "call = withSoftDelete nowMs call0"
    using call by (auto simp: createScopedPrisma_def split: if_splits sum.splits)
  then have cr0: "rc_method call0 \<notin> set CREATE_METHODS"
    using cr by (auto simp: withSoftDelete_def CREATE_METHODS_def split: if_splits)
  have cls: "?key \<in> set DIRECT_SCOPED_MODELS \<or> map_of TENANT_PATHS ?key \<noteq> None"
    using call0(1) glob by (auto simp: scoped_call_def Let_def split: if_splits)
  have iso: "belongs column related ?key r org" if "isolating ?key org (where_members (rc_args call0))"
  proof -
    have k: "''organizationId'' \<noteq> ''deletedAt''" "''AND'' \<noteq> ''deletedAt''" by simp_all
    have "isolating ?key org (where_members (rc_args call))"
      using that soft_where [OF _ k(1), of _ call0 nowMs] soft_where [OF _ k(2), of _ call0 nowMs] unfolding isolating_def call0(2) by metis
    then show ?thesis using isolating_belongs [OF paths cls _ r] by blast
  qed
  show ?thesis
  proof (cases "?key \<in> set DIRECT_SCOPED_MODELS")
    case True
    then have d: "direct_call c org modelName method qa = Inr call0"
      using call0(1) glob by (auto simp: scoped_call_def Let_def split: if_splits option.splits)
    have "method \<notin> set CREATE_METHODS" using direct_call_method [OF d] cr0 by simp
    then show ?thesis using direct_call_isolating [OF d True] iso by blast
  next
    case False
    then have p: "path_call c org modelName (owner_path ?key) method qa = Inr call0"
      using call0(1) glob by (auto simp: scoped_call_def Let_def owner_path_def split: if_splits option.splits)
    have path: "map_of TENANT_PATHS ?key \<noteq> None" using cls False by blast
    from path_call_cases(1) [OF p cr0] show ?thesis
    proof
      assume "(''AND'', JArr [JObj (where_members qa), buildTenantWhere (owner_path ?key) org]) \<in> set (where_members (rc_args call0))"
      then show ?thesis using iso False by (auto simp: isolating_def)
    next
      assume a: "method \<in> {Update, Delete, Upsert} \<and> where_members (rc_args call0) = where_members qa \<and> rc_method call0 \<notin> set READ_METHODS \<and>
        find_first c modelName False (tenantFilteredWhere (map_of qa ''where'') (buildTenantWhere (owner_path ?key) org)) \<noteq> None"
      then obtain r0 where r0: "sat ?key r0 (JObj (where_members qa))" "belongs column related ?key r0 org"
        using found_belongs [OF paths False path finds refl] unfolding where_members_def by blast
      have "sat ?key r (JObj (where_members qa))" using r a soft_write_where [of call0 nowMs] call0(2) by simp
      then have "r = r0" using uniq r0(1) a by blast
      then show ?thesis using r0(2) by simp
    qed
  qed
qed

end

subsection \<open>What validated data refers to\<close>

text \<open>A reference is owned when the database has it in the organization, or the call itself creates it.\<close>

definition owned_entry :: "prisma_client \<Rightarrow> string \<Rightarrow> verified \<Rightarrow> string \<times> bool \<times> members \<Rightarrow> bool" where
  "owned_entry c org batch x \<longleftrightarrow> x \<in> set batch \<or> (case x of (m, includeDeleted, w) \<Rightarrow> lookup_owner c org m includeDeleted w = None)"

definition reference_owned :: "prisma_client \<Rightarrow> string \<Rightarrow> verified \<Rightarrow> string \<Rightarrow> bool \<Rightarrow> json \<Rightarrow> bool" where
  "reference_owned c org batch m includeDeleted ref \<longleftrightarrow>
     (\<exists>kvs w. ref = JObj kvs \<and> ownedSelector org m kvs = Inr w \<and> owned_entry c org batch (m, includeDeleted, w))"

definition key_owned :: "prisma_client \<Rightarrow> string \<Rightarrow> verified \<Rightarrow> string \<Rightarrow> model_relations \<Rightarrow> json option \<Rightarrow> string \<times> json \<Rightarrow> bool" where
  "key_owned c org batch modelKey meta existing entry \<longleftrightarrow>
     (\<forall>i. scalarKeyValue (snd entry) = Some i \<longrightarrow>
        (case entry_kind modelKey meta (fst entry) of
           ScalarReference target \<Rightarrow>
             Option.bind existing (\<lambda>r. jfield r (fst entry)) = Some (JStr i) \<or> reference_owned c org batch target True (reference i)
         | ForeignKey target \<Rightarrow> reference_owned c org batch target False (reference i)
         | _ \<Rightarrow> True))"

definition row_stamped :: "string \<Rightarrow> string \<Rightarrow> members \<Rightarrow> bool" where
  "row_stamped org modelKey kvs \<longleftrightarrow>
     (modelKey \<in> set DIRECT_SCOPED_MODELS \<longrightarrow> map_of kvs ''organizationId'' = Some (JStr org) \<or> map_of kvs ''organization'' \<noteq> None)"

text \<open>
  Data the checks accept: every foreign key and every connected record is owned, rows created
  inside it carry the organization, and the same holds of the rows written through its relations.
\<close>

inductive inside :: "prisma_client \<Rightarrow> string \<Rightarrow> verified \<Rightarrow> string \<Rightarrow> bool \<Rightarrow> bool \<Rightarrow> json option \<Rightarrow> json \<Rightarrow> bool" for c org batch where
  inside_value: "\<forall>kvs. row \<noteq> JObj kvs \<Longrightarrow> inside c org batch modelKey creating nested existing row"
| inside_row: "relationsFor c modelKey = Inr (Some meta) \<Longrightarrow>
    nested \<and> creating \<longrightarrow> row_stamped org modelKey kvs \<Longrightarrow>
    \<forall>entry \<in> set kvs. key_owned c org batch modelKey meta existing entry \<Longrightarrow>
    \<forall>entry \<in> set kvs. \<forall>rel. entry_kind modelKey meta (fst entry) = Relation rel \<and> snd entry \<noteq> JNull \<longrightarrow>
      (\<exists>ops. snd entry = JObj ops \<and>
        (\<forall>operation \<in> set ops.
           \<not> op_refused rel (nested_op_of (fst operation)) \<and> nested_op_of (fst operation) \<noteq> OtherOp \<and>
           (nested_op_of (fst operation) \<in> {Connect, SetTo} \<longrightarrow>
              (\<forall>ref \<in> set (asList (Some (snd operation))). reference_owned c org batch (ri_target rel) False ref)) \<and>
           (\<forall>x \<in> set (operation_rows rel operation).
              inside c org batch (ri_target rel) (fst x) True None (snd x)))) \<Longrightarrow>
    inside c org batch modelKey creating nested existing (JObj kvs)"

subsection \<open>Visiting keeps what it visits\<close>

definition same_kind :: "json \<Rightarrow> json \<Rightarrow> bool" where
  "same_kind v w \<longleftrightarrow> (\<exists>kvs kvs'. v = JObj kvs \<and> w = JObj kvs') \<or> v = w"

lemma same_kind_refl [simp]: "same_kind v v"
  by (simp add: same_kind_def)

lemma each_inv:
  assumes "each f xs s = Inr (ys, s1)" and "Inv s"
    and "\<And>x s y s1. x \<in> set xs \<Longrightarrow> Inv s \<Longrightarrow> f x s = Inr (y, s1) \<Longrightarrow> Inv s1 \<and> P x y"
  shows "Inv s1 \<and> list_all2 P xs ys"
  using assms
proof (induction xs arbitrary: s ys)
  case (Cons x xs)
  obtain y s2 zs where y: "f x s = Inr (y, s2)" "each f xs s2 = Inr (zs, s1)" "ys = y # zs"
    using Cons.prems(1) by (auto split: sum.splits)
  have i: "Inv s2 \<and> P x y" using Cons.prems(3) [OF _ Cons.prems(2) y(1)] by simp
  have "Inv s1 \<and> list_all2 P xs zs"
  proof (rule Cons.IH [OF y(2)])
    show "Inv s2" using i by blast
  qed (use Cons.prems(3) in auto)
  then show ?case using i y(3) by simp
qed simp

lemma all2_right: "list_all2 P xs ys \<Longrightarrow> y \<in> set ys \<Longrightarrow> \<exists>x \<in> set xs. P x y"
  by (induction rule: list_all2_induct) auto

lemma over_list_inv:
  assumes "over_list f v s = Inr (w, s1)" and "Inv s"
    and f: "\<And>x s y s1. x \<in> set (asList (Some v)) \<Longrightarrow> Inv s \<Longrightarrow> f x s = Inr (y, s1) \<Longrightarrow> Inv s1 \<and> same_kind x y \<and> P x y"
  shows "Inv s1 \<and> same_kind v w \<or> Inv s1 \<and> (\<exists>vs ws. v = JArr vs \<and> w = JArr ws)"
    and "y \<in> set (asList (Some w)) \<Longrightarrow> \<exists>x \<in> set (asList (Some v)). P x y"
    and "Inv s1"
proof -
  consider "v = JNull" | vs where "v = JArr vs" | "v \<noteq> JNull" "\<nexists>vs. v = JArr vs" by blast
  then have "(Inv s1 \<and> same_kind v w \<or> Inv s1 \<and> (\<exists>vs ws. v = JArr vs \<and> w = JArr ws)) \<and>
    (\<forall>y. y \<in> set (asList (Some w)) \<longrightarrow> (\<exists>x \<in> set (asList (Some v)). P x y))"
  proof cases
    case 1
    then show ?thesis using assms(1,2) by (auto simp: over_list_def asList_def)
  next
    case (2 vs)
    then obtain ws where ws: "each f vs s = Inr (ws, s1)" "w = JArr ws" using assms(1) by (auto simp: over_list_def split: sum.splits)
    have "Inv s1 \<and> list_all2 P vs ws"
      by (rule each_inv [where Inv = Inv, OF ws(1) assms(2)]) (use f 2 in \<open>auto simp: asList_def\<close>)
    then show ?thesis using 2 ws(2) all2_right [of P vs ws] by (auto simp: asList_def)
  next
    case 3
    then have a: "f v s = Inr (w, s1)" "v \<in> set (asList (Some v))" using assms(1) by (auto simp: over_list_def asList_def split: json.splits)
    have p: "Inv s1 \<and> same_kind v w \<and> P v w" using f [OF a(2) assms(2) a(1)] .
    then have "asList (Some w) = [w]" using 3 by (cases v) (auto simp: same_kind_def asList_def)
    then show ?thesis using p a(2) by auto
  qed
  then show "Inv s1 \<and> same_kind v w \<or> Inv s1 \<and> (\<exists>vs ws. v = JArr vs \<and> w = JArr ws)"
    and "y \<in> set (asList (Some w)) \<Longrightarrow> \<exists>x \<in> set (asList (Some v)). P x y" and "Inv s1" by blast+
qed

lemma over_member_inv:
  assumes "over_member k f v s = Inr (w, s1)" and "Inv s"
    and f: "\<And>x s y s1. jfield v k = Some x \<Longrightarrow> Inv s \<Longrightarrow> f x s = Inr (y, s1) \<Longrightarrow> Inv s1 \<and> P x y"
  shows "Inv s1 \<and> (v = w \<and> jfield v k = None \<or> (\<exists>kvs x y. v = JObj kvs \<and> jfield v k = Some x \<and> w = JObj (AList.update k y kvs) \<and> P x y))"
proof (cases "jfield v k")
  case None
  then show ?thesis using assms(1,2) by (auto simp: over_member_def jfield_def split: json.splits)
next
  case (Some x)
  then obtain kvs where v: "v = JObj kvs" by (auto simp: jfield_def split: json.splits)
  then obtain y where "f x s = Inr (y, s1)" "w = JObj (AList.update k y kvs)"
    using assms(1) Some by (auto simp: over_member_def jfield_def split: sum.splits)
  then show ?thesis using f [OF Some assms(2)] v Some by blast
qed

lemma jfield_update: "jfield (JObj (AList.update k y kvs)) l = (if l = k then Some y else jfield (JObj kvs) l)"
  by (simp add: jfield_def update_conv')

definition alike :: "json \<Rightarrow> json \<Rightarrow> bool" where
  "alike v w \<longleftrightarrow> (\<forall>k. rel_option same_kind (jfield v k) (jfield w k))"

lemma alike_wrapped: "alike v w \<Longrightarrow> wrapped_update toOne v = wrapped_update toOne w"
proof -
  assume a: "alike v w"
  have "jfield v ''where'' = None \<longleftrightarrow> jfield w ''where'' = None" using a unfolding alike_def by (metis option.rel_distinct option.rel_sel)
  moreover have "rel_option same_kind (jfield v ''data'') (jfield w ''data'')" using a by (simp add: alike_def)
  then have "(case jfield v ''data'' of Some (JObj _) \<Rightarrow> True | _ \<Rightarrow> False) = (case jfield w ''data'' of Some (JObj _) \<Rightarrow> True | _ \<Rightarrow> False)"
    by (auto simp: same_kind_def elim!: option.rel_cases split: option.splits json.splits)
  ultimately show ?thesis by (simp add: wrapped_update_def)
qed

lemma visit_update_inv:
  assumes "visit_update toOne f u s = Inr (y, s1)" and "Inv s"
    and f: "\<And>s y s1. Inv s \<Longrightarrow> f (updated_row toOne u) s = Inr (y, s1) \<Longrightarrow> Inv s1 \<and> same_kind (updated_row toOne u) y \<and> alike (updated_row toOne u) y \<and> P y"
  shows "Inv s1 \<and> same_kind u y \<and> P (updated_row toOne y)"
proof (cases "wrapped_update toOne u")
  case False
  then have "updated_row toOne u = u" "f u s = Inr (y, s1)" using assms(1) by (simp_all add: updated_row_def visit_update_def)
  then have "Inv s1 \<and> same_kind u y \<and> alike u y \<and> P y" using f [OF assms(2)] by simp
  then show ?thesis using alike_wrapped [of u y toOne] False by (simp add: updated_row_def)
next
  case True
  then obtain d where d: "jfield u ''data'' = Some d" "updated_row toOne u = d" "\<exists>kvs. d = JObj kvs"
    by (auto simp: wrapped_update_def updated_row_def split: option.splits json.splits)
  obtain kvs where u: "u = JObj kvs" using d(1) by (auto simp: jfield_def split: json.splits)
  obtain z where z: "f d s = Inr (z, s1)" "y = JObj (AList.update ''data'' z kvs)"
    using assms(1) True d(1) u by (auto simp: visit_update_def over_member_def jfield_def split: sum.splits)
  have p: "Inv s1 \<and> same_kind d z \<and> P z" using f [OF assms(2)] z(1) d(2) by simp
  then obtain dz where dz: "z = JObj dz" using d(3) by (auto simp: same_kind_def)
  have "wrapped_update toOne y" using True u z(2) dz by (auto simp: wrapped_update_def jfield_update)
  then have "updated_row toOne y = z" using z(2) by (simp add: updated_row_def jfield_update)
  then show ?thesis using p u z(2) by (simp add: same_kind_def)
qed

lemma over_branches_inv:
  assumes "over_branches f g u s = Inr (y, s1)" and "Inv s"
    and f: "\<And>x s y s1. jfield u ''create'' = Some x \<Longrightarrow> Inv s \<Longrightarrow> f x s = Inr (y, s1) \<Longrightarrow> Inv s1 \<and> P y"
    and g: "\<And>x s y s1. jfield u ''update'' = Some x \<Longrightarrow> Inv s \<Longrightarrow> g x s = Inr (y, s1) \<Longrightarrow> Inv s1 \<and> Q y"
  shows "Inv s1 \<and> same_kind u y \<and> (\<forall>z \<in> set (member_list y ''create''). P z) \<and> (\<forall>z \<in> set (member_list y ''update''). Q z)"
proof -
  obtain v s2 where v: "over_member ''create'' f u s = Inr (v, s2)" using assms(1) by (auto simp: over_branches_def split: sum.splits)
  have c: "Inv s2 \<and> (u = v \<and> jfield u ''create'' = None \<or>
      (\<exists>kvs x y. u = JObj kvs \<and> jfield u ''create'' = Some x \<and> v = JObj (AList.update ''create'' y kvs) \<and> P y))"
    by (rule over_member_inv [where Inv = Inv and P = "\<lambda>_. P", OF v assms(2)]) (use f in blast)
  then have vv: "same_kind u v" "\<forall>z \<in> set (member_list v ''create''). P z" "jfield v ''update'' = jfield u ''update''"
    by (auto simp: same_kind_def member_list_def jfield_update split: option.splits)
  show ?thesis
  proof (cases "jfield u ''update''")
    case None
    then show ?thesis using assms(1) v c vv by (auto simp: over_branches_def member_list_def)
  next
    case (Some w)
    then obtain z where z: "g w s2 = Inr (z, s1)" "y = JObj (AList.update ''update'' z (spread (Some v)))"
      using assms(1) v by (auto simp: over_branches_def split: sum.splits)
    obtain kvs where kvs: "v = JObj kvs" using Some vv(1) by (cases u) (auto simp: same_kind_def jfield_def)
    have "Inv s1 \<and> Q z" using g [OF Some _ z(1)] c by blast
    moreover have "same_kind u y" using Some z(2) by (cases u) (auto simp: same_kind_def jfield_def)
    ultimately show ?thesis using vv(2) z(2) kvs by (auto simp: member_list_def jfield_update spread_def split: option.splits)
  qed
qed

lemma nested_write_inv:
  assumes w: "nested_write refs rows toOne op operand s = Inr (operand', s1)" and s: "Inv s"
    and refs: "\<And>x s y s1. Inv s \<Longrightarrow> refs x s = Inr (y, s1) \<Longrightarrow> Inv s1 \<and> y = x \<and> R x"
    and rows: "\<And>b x s y s1. (b, x) \<in> set (nested_rows toOne op operand) \<Longrightarrow> Inv s \<Longrightarrow> rows b x s = Inr (y, s1) \<Longrightarrow>
      Inv s1 \<and> same_kind x y \<and> (\<not> b \<longrightarrow> alike x y) \<and> P b y"
  shows "Inv s1 \<and> (op \<in> {Connect, SetTo} \<longrightarrow> (\<forall>ref \<in> set (asList (Some operand')). R ref)) \<and>
     (\<forall>x \<in> set (nested_rows toOne op operand'). P (fst x) (snd x))"
proof -
  have references: "Inv s1 \<and> (\<forall>ref \<in> set (asList (Some operand')). R ref)" if "over_list refs operand s = Inr (operand', s1)"
    using over_list_inv(2,3) [where Inv = Inv and P = "\<lambda>x y. R y", OF that s] refs by (metis same_kind_refl)
  have creates: "Inv s1 \<and> (\<forall>r \<in> set (asList (Some operand')). P True r)"
    if "over_list (rows True) operand s = Inr (operand', s1)" "op = NCreate"
    using over_list_inv(2,3) [where Inv = Inv and P = "\<lambda>x y. P True y", OF that(1) s] rows [of True] that(2) by (simp add: image_iff)
  have many: "Inv s1 \<and> (\<forall>r \<in> set (asList (jfield operand' ''data'')). P True r)"
    if o: "over_member ''data'' (over_list (rows True)) operand s = Inr (operand', s1)" "op = NCreateMany"
  proof -
    have l: "Inv t1 \<and> (\<forall>r \<in> set (asList (Some y)). P True r)"
      if "jfield operand ''data'' = Some x" "Inv t" "over_list (rows True) x t = Inr (y, t1)" for x t y t1
      using over_list_inv(2,3) [where Inv = Inv and P = "\<lambda>x y. P True y", OF that(3,2)] rows [of True] that(1) o(2) by (simp add: image_iff)
    have "Inv s1 \<and> (operand = operand' \<and> jfield operand ''data'' = None \<or> (\<exists>kvs x y. operand = JObj kvs \<and> jfield operand ''data'' = Some x \<and>
        operand' = JObj (AList.update ''data'' y kvs) \<and> (\<forall>r \<in> set (asList (Some y)). P True r)))"
      by (rule over_member_inv [where Inv = Inv and P = "\<lambda>_ y. \<forall>r \<in> set (asList (Some y)). P True r", OF o(1) s]) (use l in blast)
    then show ?thesis by (auto simp: jfield_update asList_def)
  qed
  have updates: "Inv s1 \<and> (\<forall>r \<in> set (asList (Some operand')). P False (updated_row toOne r))"
    if o: "over_list (visit_update toOne (rows False)) operand s = Inr (operand', s1)" "op = NUpdate \<or> op = NUpdateMany"
  proof -
    have v: "Inv t1 \<and> same_kind x y \<and> P False (updated_row toOne y)"
      if "x \<in> set (asList (Some operand))" "Inv t" "visit_update toOne (rows False) x t = Inr (y, t1)" for x t y t1
    proof -
      have m: "(False, updated_row toOne x) \<in> set (nested_rows toOne op operand)" using that(1) o(2) by auto
      show ?thesis by (rule visit_update_inv [where Inv = Inv, OF that(3,2)]) (use rows [OF m] in blast)
    qed
    show ?thesis using over_list_inv(2,3) [where Inv = Inv and P = "\<lambda>x y. P False (updated_row toOne y)", OF o(1) s] v by metis
  qed
  have upserts: "Inv s1 \<and> (\<forall>u \<in> set (asList (Some operand')). (\<forall>z \<in> set (member_list u ''create''). P True z) \<and>
      (\<forall>z \<in> set (member_list u ''update''). P False z))"
    if o: "over_list (over_branches (rows True) (rows False)) operand s = Inr (operand', s1)" "op = NUpsert"
  proof -
    have v: "Inv t1 \<and> same_kind x y \<and> (\<forall>z \<in> set (member_list y ''create''). P True z) \<and> (\<forall>z \<in> set (member_list y ''update''). P False z)"
      if "x \<in> set (asList (Some operand))" "Inv t" "over_branches (rows True) (rows False) x t = Inr (y, t1)" for x t y t1
    proof -
      have c: "(True, z) \<in> set (nested_rows toOne op operand)" if "jfield x ''create'' = Some z" for z
        using that \<open>x \<in> set (asList (Some operand))\<close> o(2) by (auto simp: member_list_def intro!: bexI [of _ x])
      have u: "(False, z) \<in> set (nested_rows toOne op operand)" if "jfield x ''update'' = Some z" for z
        using that \<open>x \<in> set (asList (Some operand))\<close> o(2) by (auto simp: member_list_def intro!: bexI [of _ x])
      show ?thesis by (rule over_branches_inv [where Inv = Inv, OF that(3,2)]) (use rows [OF c] rows [OF u] in blast)+
    qed
    show ?thesis
      using over_list_inv(2,3) [where Inv = Inv and P = "\<lambda>x y. (\<forall>z \<in> set (member_list y ''create''). P True z) \<and> (\<forall>z \<in> set (member_list y ''update''). P False z)",
          OF o(1) s] v by metis
  qed
  show ?thesis using w s references creates many updates upserts by (cases op) auto
qed

lemma verifyOwned_owned:
  assumes "verifyOwned c org m includeDeleted ref ver = Inr ver1" and "\<forall>x \<in> set ver. owned_entry c org batch x"
  shows "(\<forall>x \<in> set ver1. owned_entry c org batch x) \<and> reference_owned c org batch m includeDeleted ref"
proof -
  obtain kvs w where r: "ref = JObj kvs" "ownedSelector org m kvs = Inr w"
    using assms(1) by (auto simp: verifyOwned_def split: json.splits if_splits sum.splits)
  then have "(m, includeDeleted, w) \<in> set ver \<and> ver1 = ver \<or> lookup_owner c org m includeDeleted w = None \<and> ver1 = (m, includeDeleted, w) # ver"
    using assms(1) by (auto simp: verifyOwned_def split: if_splits option.splits)
  then have "owned_entry c org batch (m, includeDeleted, w)" "\<forall>x \<in> set ver1. owned_entry c org batch x"
    using assms(2) by (auto simp: owned_entry_def)
  then show ?thesis using r by (auto simp: reference_owned_def)
qed

lemma verify_ref_owned:
  assumes "\<forall>x \<in> set ver. owned_entry c org batch x" and "verify_ref c org m ref ver = Inr (y, ver1)"
  shows "(\<forall>x \<in> set ver1. owned_entry c org batch x) \<and> y = ref \<and> reference_owned c org batch m False ref"
  using assms verifyOwned_owned by (auto simp: verify_ref_def split: sum.splits)

lemma verify_key_owned:
  assumes "verify_key c org target includeDeleted stored entry ver = Inr (y, ver1)" and "\<forall>x \<in> set ver. owned_entry c org batch x"
  shows "(\<forall>x \<in> set ver1. owned_entry c org batch x) \<and> y = entry \<and>
     (\<forall>i. scalarKeyValue (snd entry) = Some i \<longrightarrow> stored = Some (JStr i) \<or> reference_owned c org batch target includeDeleted (reference i))"
  using assms verifyOwned_owned by (auto simp: verify_key_def split: option.splits if_splits sum.splits)

definition relation_inside :: "prisma_client \<Rightarrow> string \<Rightarrow> verified \<Rightarrow> string \<Rightarrow> model_relations \<Rightarrow> string \<times> json \<Rightarrow> bool" where
  "relation_inside c org batch modelKey meta entry \<longleftrightarrow>
     (\<forall>rel. entry_kind modelKey meta (fst entry) = Relation rel \<and> snd entry \<noteq> JNull \<longrightarrow>
      (\<exists>ops. snd entry = JObj ops \<and>
        (\<forall>operation \<in> set ops.
           \<not> op_refused rel (nested_op_of (fst operation)) \<and> nested_op_of (fst operation) \<noteq> OtherOp \<and>
           (nested_op_of (fst operation) \<in> {Connect, SetTo} \<longrightarrow>
              (\<forall>ref \<in> set (asList (Some (snd operation))). reference_owned c org batch (ri_target rel) False ref)) \<and>
           (\<forall>x \<in> set (operation_rows rel operation).
              inside c org batch (ri_target rel) (fst x) True None (snd x)))))"

lemma visit_relation_inside:
  assumes v: "visit_relation (verify_ref c org (ri_target rel)) rows rel entry s = Inr (y, s1)"
    and kind: "entry_kind modelKey meta (fst entry) = Relation rel" and s: "\<forall>x \<in> set s. owned_entry c org batch x"
    and rows: "\<And>ops operation b x s y s1. snd entry = JObj ops \<Longrightarrow> operation \<in> set ops \<Longrightarrow> (b, x) \<in> set (operation_rows rel operation) \<Longrightarrow>
      \<forall>x \<in> set s. owned_entry c org batch x \<Longrightarrow> rows b x s = Inr (y, s1) \<Longrightarrow>
      (\<forall>x \<in> set s1. owned_entry c org batch x) \<and> same_kind x y \<and> (\<not> b \<longrightarrow> alike x y) \<and> inside c org batch (ri_target rel) b True None y"
  shows "(\<forall>x \<in> set s1. owned_entry c org batch x) \<and> fst y = fst entry \<and> same_kind (snd entry) (snd y) \<and> relation_inside c org batch modelKey meta y"
proof (cases "snd entry = JNull")
  case True
  then show ?thesis using v s by (auto simp: visit_relation_def relation_inside_def)
next
  case False
  then obtain ops where ops: "snd entry = JObj ops" using v by (auto simp: visit_relation_def split: json.splits)
  then obtain ops1 where ops1: "each (visit_operation (verify_ref c org (ri_target rel)) rows rel) ops s = Inr (ops1, s1)" "y = (fst entry, JObj ops1)"
    using v by (auto simp: visit_relation_def split: sum.splits)
  let ?Inv = "\<lambda>ver. \<forall>x \<in> set ver. owned_entry c org batch x"
  let ?good = "\<lambda>operation. \<not> op_refused rel (nested_op_of (fst operation)) \<and> nested_op_of (fst operation) \<noteq> OtherOp \<and>
     (nested_op_of (fst operation) \<in> {Connect, SetTo} \<longrightarrow>
        (\<forall>ref \<in> set (asList (Some (snd operation))). reference_owned c org batch (ri_target rel) False ref)) \<and>
     (\<forall>x \<in> set (operation_rows rel operation). inside c org batch (ri_target rel) (fst x) True None (snd x))"
  have "?Inv s1 \<and> list_all2 (\<lambda>_. ?good) ops ops1"
  proof (rule each_inv [where Inv = ?Inv, OF ops1(1) s])
    fix operation t z t1
    assume o: "operation \<in> set ops" "?Inv t" "visit_operation (verify_ref c org (ri_target rel)) rows rel operation t = Inr (z, t1)"
    then obtain operand where w: "\<not> op_refused rel (nested_op_of (fst operation))" "z = (fst operation, operand)"
      "nested_write (verify_ref c org (ri_target rel)) rows (ri_fk rel \<noteq> None) (nested_op_of (fst operation)) (snd operation) t = Inr (operand, t1)"
      by (auto simp: visit_operation_def split: if_splits sum.splits)
    have "?Inv t1 \<and> (nested_op_of (fst operation) \<in> {Connect, SetTo} \<longrightarrow>
        (\<forall>ref \<in> set (asList (Some operand)). reference_owned c org batch (ri_target rel) False ref)) \<and>
      (\<forall>x \<in> set (nested_rows (ri_fk rel \<noteq> None) (nested_op_of (fst operation)) operand). inside c org batch (ri_target rel) (fst x) True None (snd x))"
      by (rule nested_write_inv [where Inv = ?Inv, OF w(3) o(2)])
         (use verify_ref_owned rows [OF ops o(1), unfolded operation_rows_def] in blast)+
    moreover have "nested_op_of (fst operation) \<noteq> OtherOp" using w(3) by auto
    ultimately show "?Inv t1 \<and> ?good z" using w(1,2) by (simp add: operation_rows_def)
  qed
  then show ?thesis using ops ops1(2) kind by (auto simp: relation_inside_def same_kind_def dest!: all2_right)
qed

lemma same_kind_members:
  "list_all2 (\<lambda>x y. fst y = fst x \<and> same_kind (snd x) (snd y)) kvs kvs1 \<Longrightarrow> rel_option same_kind (map_of kvs k) (map_of kvs1 k)"
  by (induction rule: list_all2_induct) auto

definition entry_ok :: "prisma_client \<Rightarrow> string \<Rightarrow> verified \<Rightarrow> string \<Rightarrow> model_relations \<Rightarrow> json option \<Rightarrow> string \<times> json \<Rightarrow> string \<times> json \<Rightarrow> bool" where
  "entry_ok c org batch modelKey meta existing x y \<longleftrightarrow>
     fst y = fst x \<and> same_kind (snd x) (snd y) \<and> key_owned c org batch modelKey meta existing y \<and> relation_inside c org batch modelKey meta y"

lemma row_inside:
  assumes meta: "relationsFor c modelKey = Inr (Some meta)"
    and all: "list_all2 (entry_ok c org batch modelKey meta existing) (stamp org modelKey creating nested kvs) kvs1"
  shows "inside c org batch modelKey creating nested existing (JObj kvs1)" and "\<not> (nested \<and> creating) \<Longrightarrow> alike (JObj kvs) (JObj kvs1)"
proof -
  have m: "rel_option same_kind (map_of (stamp org modelKey creating nested kvs) k) (map_of kvs1 k)" for k
    by (rule same_kind_members) (use all in \<open>auto simp: entry_ok_def elim: list_all2_mono\<close>)
  have e: "key_owned c org batch modelKey meta existing y \<and> relation_inside c org batch modelKey meta y" if "y \<in> set kvs1" for y
    using all2_right [OF all that] by (auto simp: entry_ok_def)
  have "row_stamped org modelKey kvs1" if "nested" "creating"
  proof (cases "modelKey \<in> set DIRECT_SCOPED_MODELS \<and> map_of kvs ''organization'' = None")
    case True
    then have "map_of (stamp org modelKey creating nested kvs) ''organizationId'' = Some (JStr org)"
      using that by (simp add: stamp_def update_conv')
    then show ?thesis using m [of "''organizationId''"] by (auto simp: row_stamped_def same_kind_def option_rel_Some1)
  next
    case False
    then show ?thesis using m [of "''organization''"] by (auto simp: row_stamped_def stamp_def option_rel_Some1 split: if_splits)
  qed
  then show "inside c org batch modelKey creating nested existing (JObj kvs1)"
    using meta e by (intro inside_row) (auto simp: relation_inside_def)
  show "alike (JObj kvs) (JObj kvs1)" if "\<not> (nested \<and> creating)"
    using m that by (auto simp: alike_def jfield_def stamp_def)
qed

declare validateWriteData.simps [simp del]

lemma validateWriteData_inside:
  assumes "validateWriteData c org modelKey creating nested existing row ver = Inr (row', ver')"
    and "\<forall>x \<in> set ver. owned_entry c org batch x"
  shows "(\<forall>x \<in> set ver'. owned_entry c org batch x) \<and> same_kind row row' \<and> (\<not> (nested \<and> creating) \<longrightarrow> alike row row') \<and>
     inside c org batch modelKey creating nested existing row'"
  using assms
proof (induction c org modelKey creating nested existing row ver arbitrary: row' ver' rule: validateWriteData.induct)
  case (1 c org modelKey creating nested existing row ver)
  show ?case
  proof (cases "\<exists>kvs. row = JObj kvs")
    case False
    then have "row' = row" "ver' = ver" using "1.prems"(1) by (auto simp: validateWriteData.simps split: json.splits)
    moreover have "alike row row" by (simp add: alike_def option.rel_refl)
    ultimately show ?thesis using False "1.prems"(2) by (auto intro: inside_value)
  next
    case True
    then obtain kvs where row: "row = JObj kvs" by blast
    note unfold_row = validateWriteData.simps [of c org modelKey creating nested existing "JObj kvs" ver]
    obtain meta where meta: "relationsFor c modelKey = Inr (Some meta)"
      using "1.prems"(1) row by (auto simp: unfold_row split: sum.splits option.splits)
    let ?Inv = "\<lambda>ver. \<forall>x \<in> set ver. owned_entry c org batch x"
    let ?visit = "\<lambda>entry ver.
       case entry_kind modelKey meta (fst entry) of
         ScalarReference target \<Rightarrow> verify_key c org target True (Option.bind existing (\<lambda>r. jfield r (fst entry))) entry ver
       | ForeignKey target \<Rightarrow> verify_key c org target False None entry ver
       | Relation rel \<Rightarrow> visit_relation (verify_ref c org (ri_target rel))
             (\<lambda>create r ver. validateWriteData c org (ri_target rel) create True None r ver) rel entry ver
       | Column \<Rightarrow> Inr (entry, ver)"
    obtain kvs1 where e: "each ?visit (stamp org modelKey creating nested kvs) ver = Inr (kvs1, ver')" and row': "row' = JObj kvs1"
      using "1.prems"(1) row meta by (auto simp: unfold_row split: sum.splits)
    have "?Inv ver' \<and> list_all2 (entry_ok c org batch modelKey meta existing) (stamp org modelKey creating nested kvs) kvs1"
    proof (rule each_inv [where Inv = ?Inv, OF e "1.prems"(2)])
      fix entry s y s1
      assume a: "entry \<in> set (stamp org modelKey creating nested kvs)" "?Inv s" "?visit entry s = Inr (y, s1)"
      show "?Inv s1 \<and> entry_ok c org batch modelKey meta existing entry y"
      proof (cases "entry_kind modelKey meta (fst entry)")
        case (Relation rel)
        then have v: "visit_relation (verify_ref c org (ri_target rel))
            (\<lambda>create r ver. validateWriteData c org (ri_target rel) create True None r ver) rel entry s = Inr (y, s1)" using a(3) by simp
        have "?Inv s1 \<and> fst y = fst entry \<and> same_kind (snd entry) (snd y) \<and> relation_inside c org batch modelKey meta y"
          by (rule visit_relation_inside [OF v Relation a(2)]) (use "1.IH" [OF row meta refl a(1) Relation] in blast)
        then show ?thesis using Relation by (auto simp: entry_ok_def key_owned_def)
      qed (use a verify_key_owned [OF _ a(2)] in \<open>fastforce simp: entry_ok_def key_owned_def relation_inside_def\<close>)+
    qed
    then show ?thesis using row_inside [OF meta] row row' by (auto simp: same_kind_def)
  qed
qed

subsection \<open>What a scoped write stores\<close>

definition written_rows :: "raw_call \<Rightarrow> (bool \<times> json) list" where
  "written_rows call =
     (let rows = (\<lambda>k. asList (map_of (rc_args call) k))
      in if rc_method call \<in> set CREATE_METHODS then map (Pair True) (rows ''data'')
         else if rc_method call = Update \<or> rc_method call \<in> set BULK_UPDATE_METHODS then map (Pair False) (rows ''data'')
         else if rc_method call = Upsert then map (Pair True) (member_list (JObj (rc_args call)) ''create'') @ map (Pair False) (member_list (JObj (rc_args call)) ''update'')
         else [])"

definition call_batch :: "string \<Rightarrow> pmethod \<Rightarrow> members \<Rightarrow> verified" where
  "call_batch modelKey method qa = (if method \<in> set CREATE_METHODS then batch_rows modelKey qa else [])"

definition stored_target :: "prisma_client \<Rightarrow> string \<Rightarrow> string \<Rightarrow> pmethod \<Rightarrow> members \<Rightarrow> json option" where
  "stored_target c org modelName method qa =
     (if js_lower modelName \<notin> set DIRECT_SCOPED_MODELS \<and> method = Update
      then find_first c modelName False (tenantFilteredWhere (map_of qa ''where'') (buildTenantWhere (owner_path (js_lower modelName)) org)) else None)"

text \<open>A created row names its owner: its organization, or the record it is owned through.\<close>

definition names_owner :: "string \<Rightarrow> string \<Rightarrow> json \<Rightarrow> bool" where
  "names_owner org modelKey row \<longleftrightarrow>
     (if modelKey \<in> set DIRECT_SCOPED_MODELS then jfield row ''organizationId'' = Some (JStr org)
      else truthy (jfield row (hd (owner_path modelKey) @ ''Id'')))"

lemma asList_simps [simp]: "asList (Some (JObj kvs)) = [JObj kvs]" "asList (Some (JArr vs)) = vs" "asList None = []"
  by (simp_all add: asList_def)

lemma in_member_list [simp]: "w \<in> set (member_list v k) \<longleftrightarrow> jfield v k = Some w"
  by (auto simp: member_list_def split: option.splits)

lemma batch_owned: "x \<in> set batch \<Longrightarrow> owned_entry c org batch x"
  by (simp add: owned_entry_def)

lemma truthy_kind: "rel_option same_kind v w \<Longrightarrow> truthy v = truthy w"
  by (auto simp: same_kind_def truthy_def elim!: option.rel_cases)

lemma names_owner_alike: "alike v w \<Longrightarrow> names_owner org modelKey v \<Longrightarrow> names_owner org modelKey w"
proof -
  assume "alike v w"
  then have m: "rel_option same_kind (jfield v k) (jfield w k)" for k by (simp add: alike_def)
  show "names_owner org modelKey v \<Longrightarrow> names_owner org modelKey w"
    using m [of "''organizationId''"] truthy_kind [OF m] by (auto simp: names_owner_def same_kind_def option_rel_Some1 split: if_splits)
qed

lemma visit_arg_result:
  "visit_arg k f qa s = Inr (qa1, s1) \<Longrightarrow>
     qa1 = qa \<and> s1 = s \<and> map_of qa k = None \<or> (\<exists>v w. map_of qa k = Some v \<and> f v s = Inr (w, s1) \<and> qa1 = AList.update k w qa)"
  by (auto simp: visit_arg_def split: option.splits sum.splits)

lemma rows_inside:
  assumes "visit_arg ''data'' (over_list (validateWriteData c org modelKey creating False existing)) qa ver = Inr (qa1, ver1)"
    and "\<forall>x \<in> set ver. owned_entry c org batch x"
    and "row \<in> set (asList (map_of qa1 ''data''))"
  shows "inside c org batch modelKey creating False existing row" and "\<exists>row0 \<in> set (asList (map_of qa ''data'')). alike row0 row"
proof -
  obtain v w where v: "map_of qa ''data'' = Some v" "over_list (validateWriteData c org modelKey creating False existing) v ver = Inr (w, ver1)" "map_of qa1 ''data'' = Some w"
    using visit_arg_result [OF assms(1)] assms(3) by (auto simp: asList_def update_conv')
  have "\<exists>x \<in> set (asList (Some v)). alike x row \<and> inside c org batch modelKey creating False existing row"
    by (rule over_list_inv(2) [where Inv = "\<lambda>ver. \<forall>x \<in> set ver. owned_entry c org batch x", OF v(2) assms(2)])
       (use validateWriteData_inside assms(3) v(3) in \<open>fastforce+\<close>)
  then show "inside c org batch modelKey creating False existing row" "\<exists>row0 \<in> set (asList (map_of qa ''data'')). alike row0 row"
    using v(1) by auto
qed

lemma branch_inside:
  assumes "visit_arg k (validateWriteData c org modelKey creating False None) qa ver = Inr (qa1, ver1)" and "\<forall>x \<in> set ver. owned_entry c org batch x"
  shows "(\<forall>x \<in> set ver1. owned_entry c org batch x) \<and> (\<forall>l. l \<noteq> k \<longrightarrow> map_of qa1 l = map_of qa l) \<and>
     (\<forall>row. map_of qa1 k = Some row \<longrightarrow> inside c org batch modelKey creating False None row \<and> (\<exists>row0. map_of qa k = Some row0 \<and> alike row0 row))"
  using visit_arg_result [OF assms(1)] validateWriteData_inside [OF _ assms(2)] assms(2) by (fastforce simp: update_conv')

lemma args_inside:
  assumes "validateWriteArgs c org modelKey method existing qa [] = Inr (qa1, ver1)"
    and "(b, row) \<in> set (written_rows \<lparr>rc_model = m, rc_method = method, rc_args = qa1\<rparr>)"
  shows "inside c org (call_batch modelKey method qa) modelKey b False (if method = Upsert then None else existing) row \<and>
     (\<exists>row0. (b, row0) \<in> set (written_rows \<lparr>rc_model = m, rc_method = method, rc_args = qa\<rparr>) \<and> alike row0 row)"
proof -
  consider "method = Upsert" | "method \<in> set CREATE_METHODS" | "method = Update \<or> method \<in> set BULK_UPDATE_METHODS"
    | "method \<noteq> Upsert" "method \<notin> set CREATE_METHODS" "\<not> (method = Update \<or> method \<in> set BULK_UPDATE_METHODS)" by blast
  then show ?thesis
  proof cases
    case 1
    then obtain qa2 ver2 where v: "visit_arg ''create'' (validateWriteData c org modelKey True False None) qa [] = Inr (qa2, ver2)"
      "visit_arg ''update'' (validateWriteData c org modelKey False False None) qa2 ver2 = Inr (qa1, ver1)"
      using assms(1) by (auto simp: validateWriteArgs_def split: sum.splits)
    have n: "call_batch modelKey method qa = []" "\<forall>x \<in> set []. owned_entry c org [] x" using 1 by (simp_all add: call_batch_def CREATE_METHODS_def)
    have c: "\<forall>x \<in> set ver2. owned_entry c org [] x" "map_of qa2 ''update'' = map_of qa ''update''"
      "\<And>r. map_of qa2 ''create'' = Some r \<Longrightarrow> inside c org [] modelKey True False None r \<and> (\<exists>row0. map_of qa ''create'' = Some row0 \<and> alike row0 r)"
      using branch_inside [OF v(1) n(2)] by simp_all
    have u: "map_of qa1 ''create'' = map_of qa2 ''create''"
      "\<And>r. map_of qa1 ''update'' = Some r \<Longrightarrow> inside c org [] modelKey False False None r \<and> (\<exists>row0. map_of qa2 ''update'' = Some row0 \<and> alike row0 r)"
      using branch_inside [OF v(2) c(1)] by simp_all
    have w: "(b, r) \<in> set (written_rows \<lparr>rc_model = m, rc_method = method, rc_args = q\<rparr>) \<longleftrightarrow> map_of q (if b then ''create'' else ''update'') = Some r" for r q
      using 1 by (cases b) (auto simp: written_rows_def Let_def CREATE_METHODS_def BULK_UPDATE_METHODS_def jfield_def)
    show ?thesis using assms(2) 1 n(1) c(2) c(3) [of row] u(1) u(2) [of row] unfolding w by (cases b) auto
  next
    case 2
    then have v: "visit_arg ''data'' (over_list (validateWriteData c org modelKey True False existing)) qa (batch_rows modelKey qa) = Inr (qa1, ver1)"
      using assms(1) by (auto simp: validateWriteArgs_def CREATE_METHODS_def)
    have r: "row \<in> set (asList (map_of qa1 ''data''))" "b" using assms(2) 2 by (auto simp: written_rows_def Let_def)
    have "\<forall>x \<in> set (batch_rows modelKey qa). owned_entry c org (batch_rows modelKey qa) x" by (simp add: batch_owned)
    from rows_inside [OF v this r(1)] show ?thesis
      using 2 r(2) by (auto simp: written_rows_def Let_def call_batch_def CREATE_METHODS_def)
  next
    case 3
    then have v: "visit_arg ''data'' (over_list (validateWriteData c org modelKey False False existing)) qa [] = Inr (qa1, ver1)"
      using assms(1) by (auto simp: validateWriteArgs_def CREATE_METHODS_def BULK_UPDATE_METHODS_def)
    have r: "row \<in> set (asList (map_of qa1 ''data''))" "\<not> b" using assms(2) 3 by (auto simp: written_rows_def Let_def CREATE_METHODS_def BULK_UPDATE_METHODS_def)
    have "\<forall>x \<in> set []. owned_entry c org [] x" by simp
    from rows_inside [OF v this r(1)] show ?thesis
      using 3 r(2) by (auto simp: written_rows_def Let_def call_batch_def CREATE_METHODS_def BULK_UPDATE_METHODS_def)
  next
    case 4
    then show ?thesis using assms(2) by (simp add: written_rows_def Let_def)
  qed
qed

lemma with_org_names: "modelKey \<in> set DIRECT_SCOPED_MODELS \<Longrightarrow> names_owner org modelKey (with_org org v)"
  by (simp add: names_owner_def with_org_def jfield_def update_conv')

lemma batch_with_org: "jfield (with_org org (Some d)) ''id'' = jfield d ''id''"
  by (cases d) (auto simp: with_org_def jfield_def spread_def update_conv')

lemma scope_direct_batch: "call_batch modelKey method (scope_direct org method bookkeeping qa) = call_batch modelKey method qa"
proof (cases "method \<in> set CREATE_METHODS")
  case True
  then have r: "method \<notin> set READ_METHODS" by (auto simp: CREATE_METHODS_def READ_METHODS_def)
  show ?thesis
  proof (cases "\<exists>rows. map_of qa ''data'' = Some (JArr rows)")
    case a: True
    then show ?thesis using True r
      by (auto simp: call_batch_def batch_rows_def scope_direct_def update_conv' asList_def batch_with_org o_def)
  next
    case False
    then have s: "scope_direct org method bookkeeping qa = set_org org ''data'' qa"
      using True r by (auto simp: scope_direct_def split: option.splits json.splits)
    have "(case jfield (with_org org v) ''id'' of Some (JStr i) \<Rightarrow> [(modelKey, False, [(''id'', JStr i)])] | _ \<Rightarrow> []) =
        concat (map (\<lambda>row. case jfield row ''id'' of Some (JStr i) \<Rightarrow> [(modelKey, False, [(''id'', JStr i)])] | _ \<Rightarrow> []) (asList v))"
      if "\<nexists>rows. v = Some (JArr rows)" for v
    proof (cases v)
      case (Some d)
      then show ?thesis using that by (cases d) (simp_all add: asList_def with_org_def jfield_def spread_def update_conv')
    qed (simp add: asList_def with_org_def jfield_def spread_def)
    from this [OF False] show ?thesis using True s
      by (auto simp: call_batch_def batch_rows_def set_org_def update_conv' with_org_def)
  qed
qed (simp add: call_batch_def)

lemma scope_direct_owner:
  assumes "(True, row) \<in> set (written_rows \<lparr>rc_model = m, rc_method = method, rc_args = scope_direct org method bookkeeping qa\<rparr>)"
    and "modelKey \<in> set DIRECT_SCOPED_MODELS"
  shows "names_owner org modelKey row"
proof -
  have o: "names_owner org modelKey (with_org org v)" for v using with_org_names [OF assms(2)] .
  have one: "asList (Some (with_org org v)) = [with_org org v]" for v by (simp add: asList_def with_org_def)
  consider "method \<in> set CREATE_METHODS" "method \<notin> set READ_METHODS" | "method = Upsert" "method \<notin> set READ_METHODS"
    using assms(1) by (auto simp: written_rows_def Let_def CREATE_METHODS_def READ_METHODS_def split: if_splits)
  then show ?thesis
  proof cases
    case 1
    then show ?thesis using assms(1) o one
      by (auto simp: written_rows_def Let_def scope_direct_def set_org_def update_conv' asList_def [of "Some (JArr _)"] split: option.splits json.splits)
  next
    case 2
    then show ?thesis using assms(1) o
      by (auto simp: written_rows_def Let_def scope_direct_def set_org_def update_conv' member_list_def jfield_def CREATE_METHODS_def BULK_UPDATE_METHODS_def)
  qed
qed

lemma direct_write_inside:
  assumes "direct_call c org modelName method qa = Inr call" and d: "js_lower modelName \<in> set DIRECT_SCOPED_MODELS"
    and w: "(b, row) \<in> set (written_rows call)"
  shows "inside c org (call_batch (js_lower modelName) method qa) (js_lower modelName) b False None row \<and> (b \<longrightarrow> names_owner org (js_lower modelName) row)"
proof -
  let ?key = "js_lower modelName" and ?qa = "scope_direct org method (map_of BOOKKEEPING_ONLY_MODELS (js_lower modelName) \<noteq> None) qa"
  obtain qa2 ver where v: "validateWriteArgs c org ?key method None ?qa [] = Inr (qa2, ver)"
    "call = \<lparr>rc_model = modelName, rc_method = method, rc_args = qa2\<rparr>"
    using assms(1) by (auto simp: direct_call_def Let_def split: option.splits sum.splits)
  have i: "inside c org (call_batch ?key method qa) ?key b False None row"
    "\<exists>row0. (b, row0) \<in> set (written_rows \<lparr>rc_model = modelName, rc_method = method, rc_args = ?qa\<rparr>) \<and> alike row0 row"
    using args_inside [OF v(1), of b row modelName] w v(2) by (simp_all add: scope_direct_batch)
  moreover have "names_owner org ?key row" if b: b
  proof -
    obtain row0 where "(True, row0) \<in> set (written_rows \<lparr>rc_model = modelName, rc_method = method, rc_args = ?qa\<rparr>)" "alike row0 row"
      using i(2) b by auto
    then show ?thesis using scope_direct_owner [OF _ d] names_owner_alike by blast
  qed
  ultimately show ?thesis by blast
qed

lemma path_upsert_inside:
  assumes "path_upsert c org modelName owner tw qa = Inr call" and w: "(b, row) \<in> set (written_rows call)"
    and "\<nexists>vs. map_of qa ''update'' = Some (JArr vs)"
  shows "inside c org [] (js_lower modelName) b False None row \<and> (b \<longrightarrow> truthy (jfield row (owner @ ''Id'')))"
proof -
  let ?found = "find_first c modelName False (tenantFilteredWhere (map_of qa ''where'') tw) \<noteq> None"
  let ?branch = "map_of qa (if ?found then ''update'' else ''create'')"
  let ?row0 = "case ?branch of None \<Rightarrow> JNull | Some b \<Rightarrow> b"
  obtain r ver where v: "validateWriteData c org (js_lower modelName) (\<not> ?found) False None ?row0 [] = Inr (r, ver)"
    and call: "rc_method call = (if ?found then Update else Create)" "map_of (rc_args call) ''data'' = Some r"
    and own: "?found \<or> truthy (row_member ?branch (owner @ ''Id''))"
    using assms(1) by (auto simp: path_upsert_def Let_def kept_members_def split: if_splits sum.splits option.splits)
  have none: "\<forall>x \<in> set []. owned_entry c org [] x" by simp
  note i = validateWriteData_inside [OF v none]
  have k: "same_kind ?row0 r" "alike ?row0 r" using i by simp_all
  have r: "asList (Some r) = (if r = JNull then [] else [r])"
  proof (cases "\<exists>vs. r = JArr vs")
    case True
    then have "?row0 = r" using k(1) by (auto simp: same_kind_def split del: if_split)
    moreover have "\<not> truthy (row_member (Some (JArr vs)) k)" for vs k by (simp add: row_member_def jfield_def truthy_def)
    ultimately show ?thesis using True own assms(3) by (cases ?branch; cases ?found) auto
  next
    case False
    then show ?thesis by (cases r) (auto simp: asList_def)
  qed
  have b: "row = r" "b = (\<not> ?found)"
    using w call r by (auto simp: written_rows_def Let_def CREATE_METHODS_def split: if_splits)
  have "truthy (jfield r (owner @ ''Id''))" if "\<not> ?found"
  proof -
    have "truthy (jfield ?row0 (owner @ ''Id''))"
      using own that by (cases ?branch) (simp_all add: row_member_def truthy_def)
    then show ?thesis using truthy_kind [OF k(2) [unfolded alike_def, rule_format, of "owner @ ''Id''"]] by simp
  qed
  then show ?thesis using i b by simp
qed

lemma path_write_inside:
  assumes call: "path_call c org modelName path method qa = Inr call" and p: "js_lower modelName \<notin> set DIRECT_SCOPED_MODELS"
    and path: "owner_path (js_lower modelName) = path" and u: "\<nexists>vs. map_of qa ''update'' = Some (JArr vs)"
    and w: "(b, row) \<in> set (written_rows call)"
  shows "inside c org (call_batch (js_lower modelName) method qa) (js_lower modelName) b False (stored_target c org modelName method qa) row \<and>
     (b \<longrightarrow> names_owner org (js_lower modelName) row)"
proof -
  let ?key = "js_lower modelName"
  have owner: "names_owner org ?key r = truthy (jfield r (hd path @ ''Id''))" for r using p path by (simp add: names_owner_def)
  consider "method = Upsert" | "method = Update" | "method \<in> set CREATE_METHODS" | "method \<in> set BULK_UPDATE_METHODS"
    | "method \<notin> set BULK_UPDATE_METHODS" "method \<notin> set CREATE_METHODS" "method \<noteq> Update" "method \<noteq> Upsert" by blast
  then show ?thesis
  proof cases
    case 1
    then have "path_upsert c org modelName (hd path) (buildTenantWhere path org) qa = Inr call" using call by (simp add: path_call_def Let_def)
    then show ?thesis using path_upsert_inside [OF _ w u] 1 owner by (simp add: call_batch_def stored_target_def CREATE_METHODS_def)
  next
    case 2
    then obtain target qa1 ver where t: "find_first c modelName False (tenantFilteredWhere (map_of qa ''where'') (buildTenantWhere path org)) = Some target"
      "validateWriteArgs c org ?key Update (Some target) qa [] = Inr (qa1, ver)" "call = \<lparr>rc_model = modelName, rc_method = Update, rc_args = qa1\<rparr>"
      using call by (auto simp: path_call_def Let_def split: option.splits sum.splits)
    have "\<not> b" using w t(3) by (auto simp: written_rows_def Let_def CREATE_METHODS_def)
    then show ?thesis using args_inside [OF t(2), of b row modelName] w t 2 p path by (simp add: stored_target_def)
  next
    case 3
    then have o: "\<not> list_ex (\<lambda>row. \<not> truthy (jfield row (hd path @ ''Id''))) (asList (map_of qa ''data''))"
      and "\<exists>qa1 ver. validateWriteArgs c org ?key method None qa [] = Inr (qa1, ver) \<and> call = \<lparr>rc_model = modelName, rc_method = method, rc_args = qa1\<rparr>"
      using call by (auto simp: path_call_def Let_def CREATE_METHODS_def split: sum.splits if_splits)
    then obtain qa1 ver where v: "validateWriteArgs c org ?key method None qa [] = Inr (qa1, ver)" "call = \<lparr>rc_model = modelName, rc_method = method, rc_args = qa1\<rparr>" by blast
    have t: "stored_target c org modelName method qa = None" "method \<noteq> Upsert" using 3 by (auto simp: stored_target_def CREATE_METHODS_def)
    obtain row0 where row0: "inside c org (call_batch ?key method qa) ?key b False None row" "alike row0 row"
      "(b, row0) \<in> set (written_rows \<lparr>rc_model = modelName, rc_method = method, rc_args = qa\<rparr>)"
      using args_inside [OF v(1), of b row modelName] w v(2) by auto
    then have "row0 \<in> set (asList (map_of qa ''data''))" using 3 by (auto simp: written_rows_def Let_def)
    then have "names_owner org ?key row0" using o owner by (auto simp: list_ex_iff)
    then show ?thesis using row0 t names_owner_alike by (metis (full_types))
  next
    case 4
    then obtain qa1 qa2 ver where v: "validateWriteArgs c org ?key method None qa1 [] = Inr (qa2, ver)" "call = \<lparr>rc_model = modelName, rc_method = method, rc_args = qa2\<rparr>"
      using call by (auto simp: path_call_def Let_def CREATE_METHODS_def BULK_UPDATE_METHODS_def split: sum.splits)
    have "\<not> b" "stored_target c org modelName method qa = None" "method \<noteq> Upsert" "call_batch ?key method qa1 = []" "call_batch ?key method qa = []"
      using w v(2) 4 by (auto simp: written_rows_def Let_def CREATE_METHODS_def BULK_UPDATE_METHODS_def stored_target_def call_batch_def)
    then show ?thesis using args_inside [OF v(1), of b row modelName] w v(2) by simp
  next
    case 5
    then have "rc_method call \<notin> set CREATE_METHODS \<and> rc_method call \<noteq> Update \<and> rc_method call \<notin> set BULK_UPDATE_METHODS \<and> rc_method call \<noteq> Upsert"
      using call by (auto simp: path_call_def Let_def CREATE_METHODS_def BULK_UPDATE_METHODS_def split: option.splits sum.splits if_splits)
    then show ?thesis using w by (simp add: written_rows_def Let_def)
  qed
qed

subsection \<open>Filters evaluated on records\<close>

text \<open>Records with their columns and their related records; the filters the client adds, evaluated on them.\<close>

datatype db_record = DbRecord (db_columns: members) (db_links: "(string \<times> db_record) list")

definition db_column :: "db_record \<Rightarrow> string \<Rightarrow> json option" where
  "db_column r k = map_of (db_columns r) k"

definition filter_relation :: "(string \<Rightarrow> string \<Rightarrow> string option) \<Rightarrow> string \<Rightarrow> string \<Rightarrow> string option" where
  "filter_relation to_one m via = (if via \<in> set [''AND'', ''organizationId''] then None else to_one m via)"

definition db_related :: "(string \<Rightarrow> string \<Rightarrow> string option) \<Rightarrow> string \<Rightarrow> db_record \<Rightarrow> string \<Rightarrow> (string \<times> db_record) option" where
  "db_related to_one m r via = (case (filter_relation to_one m via, map_of (db_links r) via) of (Some m', Some r') \<Rightarrow> Some (m', r') | _ \<Rightarrow> None)"

function (sequential) matches_where :: "(string \<Rightarrow> string \<Rightarrow> string option) \<Rightarrow> string \<Rightarrow> db_record \<Rightarrow> json \<Rightarrow> bool" where
  "matches_where to_one m r (JObj kvs) =
     list_all (\<lambda>entry.
       if fst entry = ''AND'' then list_all (\<lambda>w. matches_where to_one m r w) (asList (Some (snd entry)))
       else (case filter_relation to_one m (fst entry) of
          None \<Rightarrow> db_column r (fst entry) = Some (snd entry)
        | Some m' \<Rightarrow> (case map_of (db_links r) (fst entry) of None \<Rightarrow> False | Some r' \<Rightarrow> matches_where to_one m' r' (snd entry)))) kvs"
| "matches_where to_one m r w = True"
  by pat_completeness auto

termination
proof (relation "measure (\<lambda>(to_one, m, r, w). size w)", goal_cases)
  case (2 to_one m r kvs entry w)
  have "size (snd entry) < size (JObj kvs)" using size_entry [of "fst entry" "snd entry" kvs] 2(1) by simp
  then show ?case using size_asList [OF 2(3)] by simp
next
  case (3 to_one m r kvs entry m' r')
  have "size (snd entry) < size (JObj kvs)" using size_entry [of "fst entry" "snd entry" kvs] 3(1) by simp
  then show ?case by simp
qed simp

declare matches_where.simps [simp del]

interpretation record_filters: prisma_where "matches_where to_one" db_column "db_related to_one" "filter_relation to_one" for to_one
proof
  show "matches_where to_one m r (JObj [(k, v)])" if "matches_where to_one m r (JObj kvs)" "(k, v) \<in> set kvs" for m r kvs k v
    using that by (auto simp: matches_where.simps(1) list_all_iff)
  show "matches_where to_one m r w" if "matches_where to_one m r (JObj [(''AND'', JArr ws)])" "w \<in> set ws" for m r ws w
    using that by (simp add: matches_where.simps(1) [of to_one m r "[(''AND'', JArr ws)]"] list_all_iff asList_def)
  show "db_column r ''organizationId'' = Some (JStr org)" if "matches_where to_one m r (JObj [(''organizationId'', JStr org)])" for m r org
    using that by (simp add: matches_where.simps(1) filter_relation_def)
  show "\<exists>r'. db_related to_one m r via = Some (m', r') \<and> matches_where to_one m' r' (JObj kvs)"
    if "filter_relation to_one m via = Some m'" "matches_where to_one m r (JObj [(via, JObj kvs)])" for m r via m' kvs
  proof -
    have "via \<noteq> ''AND''" using that(1) by (auto simp: filter_relation_def)
    then show ?thesis using that
      by (auto simp: matches_where.simps(1) [of to_one m r "[(via, JObj kvs)]"] db_related_def split: option.splits)
  qed
qed

subsection \<open>The client a request gets\<close>

text \<open>The signed-in person of a request: their role and organization.\<close>

record tenant_request = http_request +
  tr_is404 :: bool
  tr_role :: "string option"
  tr_organizationId :: "string option"

definition EXEMPT_PREFIXES :: "string list" where
  "EXEMPT_PREFIXES =
     [''/api/auth'', ''/api/webhooks'', ''/api/portal'', ''/api/bot'', ''/api/client-portal'', ''/api/client-acquisition/config'',
      ''/api/client-acquisition/intake'', ''/api/proposals/client'', ''/api/contracts/sign'', ''/api/estimates/view'',
      ''/api/invoices/client'', ''/api/invoices/stripe-webhook'', ''/api/mailgun'', ''/api/slack/events'',
      ''/api/slack/oauth/callback'', ''/api/google-calendar/oauth/callback'']"

definition isTenancyExemptUrl :: "string \<Rightarrow> bool" where
  "isTenancyExemptUrl url \<longleftrightarrow>
     list_ex (\<lambda>p. starts_with p url) EXEMPT_PREFIXES \<or>
     takeWhile (\<lambda>c. c \<noteq> CHR ''?'') url \<in> set [''/api/live'', ''/api/health'', ''/api/health/details'']"

datatype request_client = RawClient | ScopedClient string | ClientForbidden string

definition tenancyMiddleware :: "'a tenant_request_scheme \<Rightarrow> request_client" where
  "tenancyMiddleware request =
     (let path = requestPath (http_request.truncate request)
      in if \<not> starts_with ''/api/'' path \<or> tr_is404 request then RawClient
         else if isTenancyExemptUrl path then RawClient
         else if tr_role request = Some ''CLIENT'' then ClientForbidden ''CLIENT_SESSION_FORBIDDEN''
         else (case tr_organizationId request of
            None \<Rightarrow> ClientForbidden ''ORG_CONTEXT_REQUIRED''
          | Some org \<Rightarrow> if org = [] then ClientForbidden ''ORG_CONTEXT_REQUIRED'' else ScopedClient org))"

text \<open>A database call a handler makes through the client of its request.\<close>

definition request_call :: "prisma_client \<Rightarrow> timestamp \<Rightarrow> 'a tenant_request_scheme \<Rightarrow> string \<Rightarrow> pmethod \<Rightarrow> members \<Rightarrow> tenancy_error + raw_call" where
  "request_call c nowMs request modelName method qa =
     (case tenancyMiddleware request of
        RawClient \<Rightarrow> Inr (withSoftDelete nowMs \<lparr>rc_model = modelName, rc_method = method, rc_args = qa\<rparr>)
      | ScopedClient org \<Rightarrow> createScopedPrisma c nowMs org modelName method qa
      | ClientForbidden code \<Rightarrow> Inl PlainError)"

text \<open>C1: Take a request on an API path that is not exempt from tenancy. A call it makes through the client of the request
  on a model that is not shared, that reaches the database and is not a creation, only touches records of that model
  that belong to the organization of the signed-in person, whatever filter the handler passes; a client session
  reaches none. The filter of a call on one record must select at most one record. The theorem is about the records the
  filter of the call selects: not about rows an \<open>include\<close> adds, and not about the routes that use the raw client or raw
  SQL on purpose.\<close>

theorem scoped_calls_isolated:
  assumes "prisma_where sat column related to_one" and "paths_exist to_one" and "finds_match sat c"
    and "\<And>r r'. method \<in> {Update, Delete, Upsert} \<Longrightarrow> sat (js_lower modelName) r (JObj (where_members qa)) \<Longrightarrow>
      sat (js_lower modelName) r' (JObj (where_members qa)) \<Longrightarrow> r = r'"
    and "starts_with ''/api/'' (requestPath (http_request.truncate request))" and "\<not> tr_is404 request"
    and "\<not> isTenancyExemptUrl (requestPath (http_request.truncate request))"
    and "request_call c nowMs request modelName method qa = Inr call" and "js_lower modelName \<notin> set GLOBAL_MODELS"
    and "rc_method call \<notin> set CREATE_METHODS" and "sat (js_lower modelName) r (JObj (where_members (rc_args call)))"
  shows "\<exists>org. tr_organizationId request = Some org \<and> tr_role request \<noteq> Some ''CLIENT'' \<and> belongs column related (js_lower modelName) r org"
proof -
  obtain org where org: "tenancyMiddleware request = ScopedClient org" "tr_organizationId request = Some org" "tr_role request \<noteq> Some ''CLIENT''"
    using assms(5-8) by (auto simp: request_call_def tenancyMiddleware_def Let_def split: if_splits option.splits)
  have "createScopedPrisma c nowMs org modelName method qa = Inr call" using assms(8) org(1) by (simp add: request_call_def)
  from assms(4) this assms(9-11) have "belongs column related (js_lower modelName) r org"
    by (rule prisma_where.call_isolated [OF assms(1-3)])
  then show ?thesis using org by blast
qed

text \<open>Every row a scoped write stores was checked.\<close>

lemma scoped_writes_checked:
  assumes "scoped_call c org modelName method qa = Inr call" and "js_lower modelName \<notin> set GLOBAL_MODELS"
    and "\<nexists>vs. map_of qa ''update'' = Some (JArr vs)" and "(creating, row) \<in> set (written_rows call)"
  shows "inside c org (call_batch (js_lower modelName) method qa) (js_lower modelName) creating False (stored_target c org modelName method qa) row \<and>
     (creating \<longrightarrow> names_owner org (js_lower modelName) row)"
proof (cases "js_lower modelName \<in> set DIRECT_SCOPED_MODELS")
  case True
  then have "direct_call c org modelName method qa = Inr call"
    using assms(1,2) by (auto simp: scoped_call_def Let_def split: if_splits option.splits)
  then show ?thesis using direct_write_inside [OF _ True assms(4)] True by (simp add: stored_target_def)
next
  case False
  then have "path_call c org modelName (owner_path (js_lower modelName)) method qa = Inr call"
    using assms(1,2) by (auto simp: scoped_call_def Let_def owner_path_def split: if_splits option.splits)
  then show ?thesis using path_write_inside [OF _ False refl assms(3,4)] by simp
qed

subsection \<open>Owned references\<close>

lemma classified_lower: "m \<in> set DIRECT_SCOPED_MODELS \<or> m \<in> set (map fst TENANT_PATHS) \<Longrightarrow> js_lower m = m"
proof -
  have "list_all (\<lambda>m. js_lower m = m) (DIRECT_SCOPED_MODELS @ map fst TENANT_PATHS)" by code_simp
  then show "m \<in> set DIRECT_SCOPED_MODELS \<or> m \<in> set (map fst TENANT_PATHS) \<Longrightarrow> js_lower m = m" by (auto simp: list_all_iff)
qed

lemma lower_char_idem: "lower_char (lower_char c) = lower_char c"
proof -
  have "lower_char (lower_char (char_of n)) = lower_char (char_of n)" if "n < 256" for n :: nat
    using that by (simp add: lower_char_def Let_def)
  from this [of "of_char c"] show ?thesis by simp
qed

lemma js_lower_delegate: "js_lower (delegateName n) = js_lower n"
  by (cases n) (simp_all add: delegateName_def js_lower_def lower_char_idem)

lemma relation_map_delegate:
  "tenantRelationMap models = Some mp \<Longrightarrow> map_of mp m = Some meta \<Longrightarrow> js_lower (mr_delegate meta) = m"
  by (induction models arbitrary: mp) (auto simp: js_lower_delegate split: option.splits if_splits)

lemma relationsFor_delegate: "relationsFor c m = Inr (Some meta) \<Longrightarrow> js_lower (mr_delegate meta) = m"
  by (auto simp: relationsFor_def relation_map_delegate split: if_splits option.splits)

lemma selector_org: "ownedSelector org m kvs = Inr w \<Longrightarrow> map_of w ''organizationId'' \<in> {None, Some (JStr org)}"
  by (auto simp: ownedSelector_def split: option.splits if_splits)

lemma in_update_kept: "(k, v) \<in> set w \<Longrightarrow> distinct (map fst w) \<Longrightarrow> map_of w k' \<in> {None, Some u} \<Longrightarrow> (k, v) \<in> set (AList.update k' u w)"
  by (induction w) (auto split: if_splits simp: image_iff)

lemma lookup_owner_found:
  assumes "lookup_owner c org m includeDeleted w = None" and "m \<noteq> ''organization''"
  obtains delegate row where "m \<in> set DIRECT_SCOPED_MODELS \<or> map_of TENANT_PATHS m \<noteq> None" "js_lower delegate = m"
    "find_first c delegate includeDeleted (ownedWhere org m w) = Some row"
proof -
  have cls: "m \<in> set DIRECT_SCOPED_MODELS \<or> map_of TENANT_PATHS m \<noteq> None"
    using assms by (auto simp: lookup_owner_def split: if_splits)
  then have low: "js_lower m = m" by (intro classified_lower) (auto simp: map_of_eq_None_iff)
  obtain meta where meta: "relationsFor c m = Inr meta" using assms cls by (auto simp: lookup_owner_def split: if_splits sum.splits)
  let ?delegate = "case meta of None \<Rightarrow> m | Some x \<Rightarrow> mr_delegate x"
  have "find_first c ?delegate includeDeleted (ownedWhere org m w) \<noteq> None"
    using assms cls meta by (auto simp: lookup_owner_def Let_def split: if_splits)
  moreover have "js_lower ?delegate = m" using meta low relationsFor_delegate by (cases meta) auto
  ultimately show ?thesis using that cls by blast
qed

context prisma_where
begin

lemma owned_where_belongs:
  assumes paths: "paths_exist to_one" and cls: "m \<in> set DIRECT_SCOPED_MODELS \<or> map_of TENANT_PATHS m \<noteq> None" and finds: "finds_match sat c"
    and d: "js_lower delegate = m" and row: "find_first c delegate includeDeleted (ownedWhere org m w) = Some row"
    and w: "map_of w ''organizationId'' \<in> {None, Some (JStr org)}"
  shows "\<exists>r. belongs column related m r org \<and> (\<forall>k v. map_of w k = Some v \<and> k \<noteq> ''deletedAt'' \<longrightarrow> sat m r (JObj [(k, v)]))"
proof (cases "m \<in> set DIRECT_SCOPED_MODELS")
  case True
  let ?kvs = "AList.update ''organizationId'' (JStr org) w"
  have o: "ownedWhere org m w = JObj ?kvs" using True by (simp add: ownedWhere_def with_org_def spread_def)
  obtain kvs' where kvs': "pc_findFirst c delegate (JObj kvs') = Some row" "\<And>k v. (k, v) \<in> set ?kvs \<Longrightarrow> k \<noteq> ''deletedAt'' \<Longrightarrow> (k, v) \<in> set kvs'"
    using find_first_filter [OF row [unfolded o]] by blast
  obtain r where r: "sat m r (JObj kvs')" using finds d kvs'(1) unfolding finds_match_def by blast
  have "column r ''organizationId'' = Some (JStr org)"
    using org_column members [OF r kvs'(2) [OF in_update_same]] by simp
  moreover have "sat m r (JObj [(k, v)])" if kv: "map_of w k = Some v" "k \<noteq> ''deletedAt''" for k v
  proof -
    have "map_of ?kvs k = Some v" using kv(1) w by (auto simp: update_conv')
    then show ?thesis using members [OF r kvs'(2)] kv(2) by (auto dest: map_of_SomeD)
  qed
  ultimately show ?thesis using True by (auto simp: belongs_def owner_path_def)
next
  case False
  let ?tw = "buildTenantWhere (owner_path m) org"
  have o: "ownedWhere org m w = JObj ((case map_of w ''deletedAt'' of None \<Rightarrow> [] | Some d \<Rightarrow> [(''deletedAt'', d)]) @ [(''AND'', JArr [JObj w, ?tw])])"
    using False by (simp add: ownedWhere_def tenantFilteredWhere_def spread_def owner_path_def)
  obtain kvs' where kvs': "pc_findFirst c delegate (JObj kvs') = Some row" "(''AND'', JArr [JObj w, ?tw]) \<in> set kvs'"
    using find_first_filter [OF row [unfolded o]] by auto
  obtain r where r: "sat m r (JObj kvs')" using finds d kvs'(1) unfolding finds_match_def by blast
  have "map_of TENANT_PATHS m \<noteq> None" using cls False by blast
  note f = filtered_where [OF owner_path_exists [OF paths False this] r kvs'(2)]
  then have "sat m r (JObj [(k, v)])" if "map_of w k = Some v" for k v using members [OF f(2)] that by (auto dest: map_of_SomeD)
  then show ?thesis using f(1) by (auto simp: belongs_def)
qed

lemma verified_belongs:
  assumes "paths_exist to_one" and "finds_match sat c" and "reference_owned c org batch m includeDeleted ref"
  shows "\<exists>kvs w. ref = JObj kvs \<and> ownedSelector org m kvs = Inr w \<and>
     ((m, includeDeleted, w) \<in> set batch \<or> m = ''organization'' \<and> w = [(''id'', JStr org)] \<or>
      (\<exists>r. belongs column related m r org \<and> (\<forall>k v. map_of w k = Some v \<and> k \<noteq> ''deletedAt'' \<longrightarrow> sat m r (JObj [(k, v)]))))"
proof -
  obtain kvs w where r: "ref = JObj kvs" "ownedSelector org m kvs = Inr w" "owned_entry c org batch (m, includeDeleted, w)"
    using assms(3) by (auto simp: reference_owned_def)
  consider "(m, includeDeleted, w) \<in> set batch" | "m = ''organization''" "lookup_owner c org m includeDeleted w = None"
    | "m \<noteq> ''organization''" "lookup_owner c org m includeDeleted w = None" using r(3) unfolding owned_entry_def prod.case by metis
  then show ?thesis
  proof cases
    case 1
    then show ?thesis using r by blast
  next
    case 2
    then show ?thesis using r(1,2) by (auto simp: lookup_owner_def split: if_splits)
  next
    case 3
    obtain delegate row where f: "m \<in> set DIRECT_SCOPED_MODELS \<or> map_of TENANT_PATHS m \<noteq> None" "js_lower delegate = m"
      "find_first c delegate includeDeleted (ownedWhere org m w) = Some row" using lookup_owner_found [OF 3(2,1)] .
    show ?thesis using owned_where_belongs [OF assms(1) f(1) assms(2) f(2,3) selector_org [OF r(2)]] r(1,2) by blast
  qed
qed

end

text \<open>A reference that was accepted as owned is, in the database, a record of the organization that matches the
  reference, or the organization itself, unless the call itself creates the record.\<close>

theorem owned_reference_belongs:
  assumes "prisma_where sat column related to_one" and "paths_exist to_one" and "finds_match sat c"
    and "reference_owned c org batch m includeDeleted ref"
  shows "\<exists>kvs w. ref = JObj kvs \<and> ownedSelector org m kvs = Inr w \<and>
     ((m, includeDeleted, w) \<in> set batch \<or> m = ''organization'' \<and> w = [(''id'', JStr org)] \<or>
      (\<exists>r. belongs column related m r org \<and> (\<forall>k v. map_of w k = Some v \<and> k \<noteq> ''deletedAt'' \<longrightarrow> sat m r (JObj [(k, v)]))))"
  by (rule prisma_where.verified_belongs [OF assms])

subsection \<open>Evidence and bookkeeping\<close>

lemma alike_keys: "alike (JObj a) (JObj b) \<Longrightarrow> set (map fst a) = set (map fst b)"
proof -
  assume "alike (JObj a) (JObj b)"
  then have r: "rel_option same_kind (map_of a k) (map_of b k)" for k by (simp add: alike_def jfield_def)
  have "map_of a k = None \<longleftrightarrow> map_of b k = None" for k using r [of k] by (auto elim!: option.rel_cases)
  then show ?thesis unfolding map_of_eq_None_iff by auto
qed

lemma scoped_method:
  assumes "scoped_call c org modelName method qa = Inr call" and "js_lower modelName \<notin> set GLOBAL_MODELS"
  shows "method_refused (js_lower modelName) method qa = None" and "method \<in> set READ_METHODS \<longrightarrow> rc_method call \<in> set READ_METHODS"
    and "method \<noteq> Upsert \<and> method \<notin> set READ_METHODS \<longrightarrow> rc_method call = method"
proof -
  show "method_refused (js_lower modelName) method qa = None"
    using assms by (auto simp: scoped_call_def Let_def split: if_splits option.splits)
  have "direct_call c org modelName method qa = Inr call \<or> (\<exists>path. path_call c org modelName path method qa = Inr call)"
    using assms by (auto simp: scoped_call_def Let_def split: if_splits option.splits)
  then have "(method \<in> set READ_METHODS \<longrightarrow> rc_method call \<in> set READ_METHODS) \<and> (method \<noteq> Upsert \<and> method \<notin> set READ_METHODS \<longrightarrow> rc_method call = method)"
    by (auto simp: path_call_def Let_def READ_METHODS_def CREATE_METHODS_def BULK_UPDATE_METHODS_def dest: direct_call_method
        split: if_splits option.splits sum.splits)
  then show "method \<in> set READ_METHODS \<longrightarrow> rc_method call \<in> set READ_METHODS"
    and "method \<noteq> Upsert \<and> method \<notin> set READ_METHODS \<longrightarrow> rc_method call = method" by blast+
qed

text \<open>Request code can only append to evidence tables: whatever is called on them, only reads and creations reach
  the database, and only reads where the database writes the rows itself.\<close>

theorem evidence_is_append_only:
  assumes "createScopedPrisma c nowMs org modelName method qa = Inr call"
    and "js_lower modelName \<in> set APPEND_ONLY_MODELS \<union> set TRIGGER_OWNED_MODELS"
  shows "rc_method call \<in> set READ_METHODS \<or> rc_method call \<in> set CREATE_METHODS \<and> js_lower modelName \<notin> set TRIGGER_OWNED_MODELS"
proof -
  let ?key = "js_lower modelName"
  obtain call0 where call0: "scoped_call c org modelName method qa = Inr call0" "call = withSoftDelete nowMs call0"
    using assms(1) by (auto simp: createScopedPrisma_def split: if_splits sum.splits)
  have g: "?key \<notin> set GLOBAL_MODELS" using assms(2) by (auto simp: APPEND_ONLY_MODELS_def TRIGGER_OWNED_MODELS_def GLOBAL_MODELS_def)
  have m: "method \<in> set READ_METHODS \<or> method \<in> set CREATE_METHODS \<and> ?key \<notin> set TRIGGER_OWNED_MODELS"
    using scoped_method(1) [OF call0(1) g] assms(2)
    by (auto simp: method_refused_def WRITE_METHODS_def APPEND_ONLY_BLOCKED_METHODS_def BULK_UPDATE_METHODS_def split: if_splits)
  have "rc_method call0 \<in> set READ_METHODS \<or> rc_method call0 \<in> set CREATE_METHODS \<and> ?key \<notin> set TRIGGER_OWNED_MODELS"
    using m scoped_method(2,3) [OF call0(1) g] by (auto simp: READ_METHODS_def CREATE_METHODS_def)
  then show ?thesis using call0(2) by (auto simp: withSoftDelete_def READ_METHODS_def CREATE_METHODS_def)
qed

theorem evidence_is_append_only_witness:
  "\<exists>call. createScopedPrisma \<lparr>pc_models = [\<lparr>dm_name = ''AuditEvent'', dm_fields = []\<rparr>], pc_findFirst = \<lambda>_ _. None\<rparr> 0 ''org1'' ''auditEvent'' Create
      [(''data'', JObj [])] = Inr call \<and> rc_method call \<in> set READ_METHODS \<union> set CREATE_METHODS"
proof -
  have "createScopedPrisma \<lparr>pc_models = [\<lparr>dm_name = ''AuditEvent'', dm_fields = []\<rparr>], pc_findFirst = \<lambda>_ _. None\<rparr> 0 ''org1'' ''auditEvent'' Create
      [(''data'', JObj [])] = Inr \<lparr>rc_model = ''auditEvent'', rc_method = Create, rc_args = [(''data'', JObj [(''organizationId'', JStr ''org1'')])]\<rparr>"
    and "js_lower ''auditEvent'' \<in> set APPEND_ONLY_MODELS \<union> set TRIGGER_OWNED_MODELS" by code_simp+
  then show ?thesis using evidence_is_append_only by blast
qed

definition sample_models :: "dm_model list" where
  "sample_models =
     [\<lparr>dm_name = ''Client'', dm_fields = [\<lparr>df_name = ''id'', df_kind = ''scalar'', df_type = ''String''\<rparr>]\<rparr>,
      \<lparr>dm_name = ''Project'', dm_fields =
         [\<lparr>df_name = ''clientId'', df_kind = ''scalar'', df_type = ''String''\<rparr>, \<lparr>df_name = ''client'', df_kind = ''object'', df_type = ''Client''\<rparr>]\<rparr>,
      \<lparr>dm_name = ''Task'', dm_fields =
         [\<lparr>df_name = ''projectId'', df_kind = ''scalar'', df_type = ''String''\<rparr>, \<lparr>df_name = ''project'', df_kind = ''object'', df_type = ''Project''\<rparr>,
          \<lparr>df_name = ''comments'', df_kind = ''object'', df_type = ''TaskComment''\<rparr>]\<rparr>]"

definition owner_relation :: "string \<Rightarrow> string \<Rightarrow> string option" where
  "owner_relation m via = map_of RELATION_OWNER_MODELS via"

lemma owner_relations_exist: "paths_exist (filter_relation owner_relation)"
  by code_simp

definition silent_client :: prisma_client where
  "silent_client = \<lparr>pc_models = sample_models, pc_findFirst = (\<lambda>_ _. None)\<rparr>"

definition sample_staff_request :: tenant_request where
  "sample_staff_request = \<lparr>hr_method = ''GET'', hr_url = ''/api/tasks'',
     hr_route = \<lparr>ro_url = Some ''/api/tasks'', ro_public = False, ro_actsForStaff = False, ro_sideEffectingGet = False\<rparr>,
     tr_is404 = False, tr_role = Some ''STAFF'', tr_organizationId = Some ''org1''\<rparr>"

definition sample_task :: db_record where
  "sample_task = DbRecord [(''deletedAt'', JNull)] [(''project'', DbRecord [] [(''client'', DbRecord [(''organizationId'', JStr ''org1'')] [])])]"

lemma sample_read: "request_call silent_client 0 sample_staff_request ''task'' FindMany [] =
    Inr \<lparr>rc_model = ''task'', rc_method = FindMany, rc_args = [(''where'', JObj [(''AND'', JArr [JObj [], JObj [(''project'', JObj [(''client'',
      JObj [(''organizationId'', JStr ''org1'')])])]]), (''deletedAt'', JNull)]), (''take'', JNum (Fin 100))]\<rparr>"
  by code_simp

theorem scoped_calls_isolated_witness: "belongs db_column (db_related owner_relation) ''task'' sample_task ''org1''"
proof -
  have r: "js_lower ''task'' = ''task''" "js_lower ''task'' \<notin> set GLOBAL_MODELS" "FindMany \<notin> set CREATE_METHODS"
    "starts_with ''/api/'' (requestPath (http_request.truncate sample_staff_request))" "\<not> tr_is404 sample_staff_request"
    "\<not> isTenancyExemptUrl (requestPath (http_request.truncate sample_staff_request))" "tr_organizationId sample_staff_request = Some ''org1''"
    "matches_where owner_relation ''task'' sample_task (JObj [(''AND'', JArr [JObj [], JObj [(''project'', JObj [(''client'',
      JObj [(''organizationId'', JStr ''org1'')])])]]), (''deletedAt'', JNull)])"
    by code_simp+
  have f: "finds_match (matches_where owner_relation) silent_client" by (simp add: finds_match_def silent_client_def)
  have s: "matches_where owner_relation (js_lower ''task'') sample_task (JObj (where_members
      [(''where'', JObj [(''AND'', JArr [JObj [], JObj [(''project'', JObj [(''client'', JObj [(''organizationId'', JStr ''org1'')])])]]), (''deletedAt'', JNull)]), (''take'', JNum (Fin 100))]))"
    using r(1,8) by (simp add: where_members_def spread_def)
  show ?thesis
    using scoped_calls_isolated [OF record_filters.prisma_where_axioms owner_relations_exist f _ r(4-6) sample_read r(2), of sample_task] r(1,3,7) s by simp
qed


definition found_project :: db_record where
  "found_project = DbRecord [(''id'', JStr ''p1''), (''organizationId'', JStr ''org1''), (''deletedAt'', JNull)] []"

definition project_client :: prisma_client where
  "project_client = \<lparr>pc_models = sample_models,
     pc_findFirst = (\<lambda>delegate w. if delegate = ''project'' \<and> matches_where owner_relation ''project'' found_project w then Some (JObj []) else None)\<rparr>"

theorem owned_reference_belongs_witness: "\<exists>r. belongs db_column (db_related owner_relation) ''project'' r ''org1''"
proof -
  have o: "reference_owned project_client ''org1'' [] ''project'' False (reference ''p1'')"
  proof -
    have "lookup_owner project_client ''org1'' ''project'' False [(''id'', JStr ''p1'')] = None"
      and "ownedSelector ''org1'' ''project'' [(''id'', JStr ''p1'')] = Inr [(''id'', JStr ''p1'')]" by code_simp+
    then show ?thesis by (auto simp: reference_owned_def owned_entry_def reference_def)
  qed
  have f: "finds_match (matches_where owner_relation) project_client"
    by (auto simp: finds_match_def project_client_def js_lower_def lower_char_def)
  show ?thesis using owned_reference_belongs [OF record_filters.prisma_where_axioms owner_relations_exist f o] by auto
qed

end
