(* ===== verification/Tenant_Ownership.thy ===== *)
theory Tenant_Ownership
  imports Tenant_Isolation
begin

section \<open>Tenant isolation: what a write may store\<close>

text \<open>
  The promise of scoped writes in terms of the database: the rows a write call stores, through relations too, are read
  off the call the way Prisma documents its nested writes, and the records they refer to are given by the data model.
  The checks of \<^verbatim>\<open>src/utils/prisma-tenant-proxy.js\<close> (\<open>Tenant_Writes\<close>) are shown to give this promise.
\<close>

subsection \<open>The rows a nested write stores\<close>

fun listed :: "json \<Rightarrow> json list" where
  "listed JNull = []"
| "listed (JArr vs) = vs"
| "listed v = [v]"

definition member_of :: "json \<Rightarrow> string \<Rightarrow> json list" where
  "member_of v k = (case jfield v k of None \<Rightarrow> [] | Some w \<Rightarrow> [w])"

text \<open>
  An update of related records is their data, or an object with the data and an optional filter. Data without a filter
  on a to-one relation is the one form the promise leaves out (\<open>unfiltered_update_unchecked\<close> shows why).
\<close>

definition update_data :: "json \<Rightarrow> json" where
  "update_data entry = (case jfield entry ''data'' of Some (JObj kvs) \<Rightarrow> JObj kvs | _ \<Rightarrow> entry)"

definition unfiltered_data :: "json \<Rightarrow> bool" where
  "unfiltered_data entry \<longleftrightarrow>
     (case jfield entry ''data'' of Some (JObj kvs) \<Rightarrow> jfield entry ''where'' = None | _ \<Rightarrow> False)"

definition stored_rows :: "bool \<Rightarrow> string \<Rightarrow> json \<Rightarrow> (bool \<times> json) list" where
  "stored_rows toOne op operand =
     (if op = ''create'' then map (Pair True) (listed operand)
      else if op = ''createMany'' then map (Pair True) (concat (map listed (member_of operand ''data'')))
      else if op = ''update'' \<or> op = ''updateMany'' then
        map (\<lambda>e. (False, update_data e)) (filter (\<lambda>e. \<not> (toOne \<and> unfiltered_data e)) (listed operand))
      else if op = ''upsert'' then
        concat (map (\<lambda>e. map (Pair True) (member_of e ''create'') @ map (Pair False) (member_of e ''update'')) (listed operand))
      else [])"

definition allowed_operations :: "bool \<Rightarrow> string list" where
  "allowed_operations toOne =
     [''connect'', ''set'', ''createMany'', ''update'', ''updateMany'', ''disconnect'', ''delete'', ''deleteMany''] @
     (if toOne then [] else [''create'', ''upsert''])"

definition call_rows :: "raw_call \<Rightarrow> (bool \<times> json) list" where
  "call_rows call =
     (let args = JObj (rc_args call); data = concat (map listed (member_of args ''data''))
      in case rc_method call of
           Create \<Rightarrow> map (Pair True) data
         | CreateMany \<Rightarrow> map (Pair True) data
         | CreateManyAndReturn \<Rightarrow> map (Pair True) data
         | Update \<Rightarrow> map (Pair False) data
         | UpdateMany \<Rightarrow> map (Pair False) data
         | UpdateManyAndReturn \<Rightarrow> map (Pair False) data
         | Upsert \<Rightarrow> map (Pair True) (member_of args ''create'') @ map (Pair False) (member_of args ''update'')
         | _ \<Rightarrow> [])"

subsection \<open>What a row refers to\<close>

definition model_of :: "dm_model list \<Rightarrow> string \<Rightarrow> dm_model option" where
  "model_of models key = List.find (\<lambda>m. js_lower (dm_name m) = key) models"

definition relation_field :: "dm_model list \<Rightarrow> string \<Rightarrow> string \<Rightarrow> dm_field option" where
  "relation_field models key name =
     Option.bind (model_of models key) (\<lambda>m. List.find (\<lambda>f. df_kind f = ''object'' \<and> df_name f = name) (dm_fields m))"

definition has_column :: "dm_model list \<Rightarrow> string \<Rightarrow> string \<Rightarrow> bool" where
  "has_column models key k =
     (case model_of models key of None \<Rightarrow> False | Some m \<Rightarrow> list_ex (\<lambda>f. df_kind f = ''scalar'' \<and> df_name f = k) (dm_fields m))"

text \<open>The columns of an invoice that refer to a record without a relation.\<close>

definition soft_reference :: "string \<Rightarrow> string \<Rightarrow> string option" where
  "soft_reference key k =
     map_of [((''invoice'', ''projectId''), ''project''), ((''invoice'', ''proposalId''), ''proposal'')] (key, k)"

definition refers_to :: "dm_model list \<Rightarrow> string \<Rightarrow> string \<Rightarrow> string \<Rightarrow> bool" where
  "refers_to models key k target \<longleftrightarrow>
     (case soft_reference key k of
        Some t \<Rightarrow> target = t
      | None \<Rightarrow> has_column models key k \<and>
          (\<exists>name f. k = name @ ''Id'' \<and> relation_field models key name = Some f \<and> target = js_lower (df_type f)))"

definition relation_key :: "dm_model list \<Rightarrow> string \<Rightarrow> string \<Rightarrow> dm_field \<Rightarrow> bool" where
  "relation_key models key k f \<longleftrightarrow>
     relation_field models key k = Some f \<and> \<not> has_column models key k \<and> soft_reference key k = None"

definition to_one_relation :: "dm_model list \<Rightarrow> string \<Rightarrow> string \<Rightarrow> bool" where
  "to_one_relation models key k \<longleftrightarrow> has_column models key (k @ ''Id'')"

definition names_id :: "json \<Rightarrow> string \<Rightarrow> bool" where
  "names_id v i \<longleftrightarrow> v = JStr i \<or> jfield v ''set'' = Some (JStr i)"

text \<open>A soft reference the stored row already has may be written again.\<close>

definition unchanged :: "string \<Rightarrow> json option \<Rightarrow> string \<Rightarrow> string \<Rightarrow> bool" where
  "unchanged key existing k i \<longleftrightarrow> soft_reference key k \<noteq> None \<and> Option.bind existing (\<lambda>r. jfield r k) = Some (JStr i)"

text \<open>
  A row that keeps to the organization, for a given notion of owned records: every key of the row and every connected
  record is owned, a row created through a relation carries the organization, and the same holds of the rows stored
  through its relations.
\<close>

inductive keeps_inside ::
  "(string \<Rightarrow> json \<Rightarrow> bool) \<Rightarrow> dm_model list \<Rightarrow> string \<Rightarrow> string \<Rightarrow> bool \<Rightarrow> json option \<Rightarrow> json \<Rightarrow> bool"
for owned models org where
  keeps_value: "\<forall>kvs. row \<noteq> JObj kvs \<Longrightarrow> keeps_inside owned models org key created existing row"
| keeps_row: "created \<longrightarrow> row_stamped org key kvs \<Longrightarrow>
    \<forall>(k, v) \<in> set kvs. \<forall>i target. names_id v i \<and> refers_to models key k target \<longrightarrow>
      unchanged key existing k i \<or> owned target (JObj [(''id'', JStr i)]) \<Longrightarrow>
    \<forall>(k, v) \<in> set kvs. \<forall>f. relation_key models key k f \<and> v \<noteq> JNull \<longrightarrow>
      (\<exists>ops. v = JObj ops \<and>
        (\<forall>(op, operand) \<in> set ops.
           op \<in> set (allowed_operations (to_one_relation models key k)) \<and>
           (op \<in> {''connect'', ''set''} \<longrightarrow> (\<forall>ref \<in> set (listed operand). owned (js_lower (df_type f)) ref)) \<and>
           (\<forall>(creates, r) \<in> set (stored_rows (to_one_relation models key k) op operand).
              keeps_inside owned models org (js_lower (df_type f)) creates None r))) \<Longrightarrow>
    keeps_inside owned models org key created existing (JObj kvs)"

subsection \<open>Records of the organization\<close>

text \<open>The columns a reference names; a composite reference names those of its pair.\<close>

definition named_by :: "json \<Rightarrow> string \<Rightarrow> json \<Rightarrow> bool" where
  "named_by ref k v \<longleftrightarrow>
     (case jfield ref ''id_organizationId'' of
        Some (JObj pair) \<Rightarrow>
          if k = ''id'' \<or> k = ''organizationId'' then map_of pair k = Some v
          else k \<noteq> ''id_organizationId'' \<and> jfield ref k = Some v
      | _ \<Rightarrow> jfield ref k = Some v)"

definition in_organization ::
  "(string \<Rightarrow> 'r \<Rightarrow> json \<Rightarrow> bool) \<Rightarrow> ('r \<Rightarrow> string \<Rightarrow> json option) \<Rightarrow> (string \<Rightarrow> 'r \<Rightarrow> string \<Rightarrow> (string \<times> 'r) option) \<Rightarrow>
   string \<Rightarrow> string \<Rightarrow> json \<Rightarrow> bool" where
  "in_organization sat column related org m ref \<longleftrightarrow>
     m = ''organization'' \<and> ref = JObj [(''id'', JStr org)] \<or>
     (\<exists>r. belongs column related m r org \<and> (\<forall>k v. named_by ref k v \<and> k \<noteq> ''deletedAt'' \<longrightarrow> sat m r (JObj [(k, v)])))"

text \<open>A record the call itself creates; not when duplicates are skipped, since the row may then be another's.\<close>

definition created_by_call :: "string \<Rightarrow> pmethod \<Rightarrow> members \<Rightarrow> string \<Rightarrow> json \<Rightarrow> bool" where
  "created_by_call key method qa m ref \<longleftrightarrow>
     m = key \<and> method \<in> {Create, CreateMany, CreateManyAndReturn} \<and> \<not> truthy (map_of qa ''skipDuplicates'') \<and>
     (\<exists>i. ref = JObj [(''id'', JStr i)] \<and>
        (\<exists>row \<in> set (concat (map listed (member_of (JObj qa) ''data''))). jfield row ''id'' = Some (JStr i)))"

subsection \<open>The checks read the data model\<close>

lemma listed_asList: "listed v = asList (Some v)"
  by (cases v) (simp_all add: asList_def)

lemma listed_members: "concat (map listed (member_of v k)) = asList (jfield v k)"
  by (simp add: member_of_def listed_asList asList_def [of None] split: option.split)

lemma member_of_list: "member_of v k = member_list v k"
  by (simp add: member_of_def member_list_def)

lemma call_rows_written: "call_rows call = written_rows call"
  unfolding call_rows_def written_rows_def Let_def member_of_list listed_members [unfolded member_of_list]
  by (simp add: jfield_def CREATE_METHODS_def BULK_UPDATE_METHODS_def split: pmethod.split)

lemma names_id_scalar: "names_id v i \<longleftrightarrow> scalarKeyValue v = Some i"
  by (cases v) (auto simp: names_id_def scalarKeyValue_def jfield_def split: option.splits json.splits)

lemma soft_references: "Option.bind (map_of SCALAR_REFERENCES key) (\<lambda>refs. map_of refs k) = soft_reference key k"
  by (simp add: SCALAR_REFERENCES_def soft_reference_def)

lemma relation_map_model:
  "tenantRelationMap models = Some mp \<Longrightarrow> map_of mp key = Some meta \<Longrightarrow>
   \<exists>m. model_of models key = Some m \<and> model_edges m (dm_fields m) = Some (mr_relations meta, mr_foreignKeys meta)"
  by (induction models arbitrary: mp) (auto simp: model_of_def split: option.splits if_splits)

lemma relations_model:
  assumes "relationsFor c key = Inr (Some meta)"
  obtains m where "model_of (pc_models c) key = Some m" "model_edges m (dm_fields m) = Some (mr_relations meta, mr_foreignKeys meta)"
proof -
  obtain mp where "tenantRelationMap (pc_models c) = Some mp" "map_of mp key = Some meta"
    using assms by (auto simp: relationsFor_def split: if_splits option.splits)
  then show ?thesis using relation_map_model that by blast
qed

definition scalar_names :: "dm_model \<Rightarrow> string list" where
  "scalar_names m = map df_name (filter (\<lambda>g. df_kind g = ''scalar'') (dm_fields m))"

lemma relation_fk_scalar: "relation_fk m f = (if df_name f @ ''Id'' \<in> set (scalar_names m) then Some (df_name f @ ''Id'') else None)"
  by (simp add: relation_fk_def scalar_names_def)

lemma edges_relations:
  "model_edges m fs = Some (rels, keys) \<Longrightarrow>
   map_of rels name = map_option (\<lambda>f. \<lparr>ri_target = js_lower (df_type f), ri_fk = relation_fk m f, ri_fkFields = relation_fields m f\<rparr>)
     (List.find (\<lambda>f. df_kind f = ''object'' \<and> df_name f = name) fs)"
proof (induction fs arbitrary: rels keys)
  case (Cons f fs)
  show ?case
  proof (cases "df_kind f = ''object''")
    case True
    then obtain rels1 keys1 where "model_edges m fs = Some (rels1, keys1)"
      "rels = (df_name f, \<lparr>ri_target = js_lower (df_type f), ri_fk = relation_fk m f, ri_fkFields = relation_fields m f\<rparr>) # rels1"
      using Cons.prems by (auto simp: Let_def split: if_splits)
    then show ?thesis using Cons.IH True by auto
  qed (use Cons in simp)
qed simp

lemma edges_keys:
  "model_edges m fs = Some (rels, keys) \<Longrightarrow>
   map_of keys (name @ ''Id'') = (if List.find (\<lambda>f. df_kind f = ''object'' \<and> df_name f = name) fs \<noteq> None \<and> name @ ''Id'' \<in> set (scalar_names m)
     then Some name else None)"
proof (induction fs arbitrary: rels keys)
  case (Cons f fs)
  show ?case
  proof (cases "df_kind f = ''object''")
    case True
    then obtain rels1 keys1 where "model_edges m fs = Some (rels1, keys1)"
      "keys = (case relation_fk m f of None \<Rightarrow> keys1 | Some k \<Rightarrow> (k, df_name f) # keys1)"
      using Cons.prems by (auto simp: Let_def split: if_splits)
    then show ?thesis using Cons.IH True by (auto simp: relation_fk_scalar)
  qed (use Cons in simp)
qed simp

lemma edges_key_column: "model_edges m fs = Some (rels, keys) \<Longrightarrow> map_of keys k = Some n \<Longrightarrow> k \<in> set (scalar_names m)"
proof (induction fs arbitrary: rels keys)
  case (Cons f fs)
  show ?case
  proof (cases "df_kind f = ''object''")
    case True
    then obtain rels1 keys1 where "model_edges m fs = Some (rels1, keys1)"
      "keys = (case relation_fk m f of None \<Rightarrow> keys1 | Some k \<Rightarrow> (k, df_name f) # keys1)"
      using Cons.prems(1) by (auto simp: Let_def split: if_splits)
    then show ?thesis using Cons.IH Cons.prems(2) by (auto simp: relation_fk_scalar split: if_splits)
  qed (use Cons in simp)
qed simp

lemma has_column_scalar: "model_of models key = Some m \<Longrightarrow> has_column models key k \<longleftrightarrow> k \<in> set (scalar_names m)"
  by (auto simp: has_column_def scalar_names_def list_ex_iff)

lemma refers_kind:
  assumes "relationsFor c key = Inr (Some meta)" and "refers_to (pc_models c) key k target"
  shows "entry_kind key meta k = (if soft_reference key k = None then ForeignKey target else ScalarReference target)"
proof (cases "soft_reference key k")
  case (Some t)
  then show ?thesis using assms(2) by (simp add: entry_kind_def soft_references refers_to_def)
next
  case None
  obtain m where m: "model_of (pc_models c) key = Some m" "model_edges m (dm_fields m) = Some (mr_relations meta, mr_foreignKeys meta)"
    using relations_model [OF assms(1)] .
  obtain name f where n: "k = name @ ''Id''" "relation_field (pc_models c) key name = Some f" "target = js_lower (df_type f)"
    "has_column (pc_models c) key k" using assms(2) None by (auto simp: refers_to_def)
  have f: "List.find (\<lambda>f. df_kind f = ''object'' \<and> df_name f = name) (dm_fields m) = Some f"
    using n(2) m(1) by (simp add: relation_field_def)
  have "map_of (mr_foreignKeys meta) k = Some name"
    using edges_keys [OF m(2), of name] f n(1,4) has_column_scalar [OF m(1)] by simp
  then show ?thesis using edges_relations [OF m(2), of name] f n(3) None by (simp add: entry_kind_def soft_references)
qed

lemma relation_kind:
  assumes "relationsFor c key = Inr (Some meta)" and "relation_key (pc_models c) key k f"
  obtains rel where "entry_kind key meta k = Relation rel" "ri_target rel = js_lower (df_type f)"
    "ri_fk rel \<noteq> None \<longleftrightarrow> to_one_relation (pc_models c) key k"
proof -
  obtain m where m: "model_of (pc_models c) key = Some m" "model_edges m (dm_fields m) = Some (mr_relations meta, mr_foreignKeys meta)"
    using relations_model [OF assms(1)] .
  have f: "List.find (\<lambda>f. df_kind f = ''object'' \<and> df_name f = k) (dm_fields m) = Some f"
    using assms(2) m(1) by (simp add: relation_key_def relation_field_def)
  then have name: "df_name f = k" by (auto simp: find_Some_iff)
  have "map_of (mr_foreignKeys meta) k = None"
    using edges_key_column [OF m(2), of k] has_column_scalar [OF m(1)] assms(2)
    by (cases "map_of (mr_foreignKeys meta) k") (auto simp: relation_key_def)
  then have "entry_kind key meta k = Relation \<lparr>ri_target = js_lower (df_type f), ri_fk = relation_fk m f, ri_fkFields = relation_fields m f\<rparr>"
    using edges_relations [OF m(2), of k] f assms(2) by (simp add: entry_kind_def soft_references relation_key_def)
  then show ?thesis using that has_column_scalar [OF m(1)] name by (simp add: relation_fk_scalar to_one_relation_def)
qed

subsection \<open>What the checks accept keeps to the organization\<close>

lemma wrapped_data:
  "wrapped_update toOne e \<longleftrightarrow> (\<exists>kvs. jfield e ''data'' = Some (JObj kvs)) \<and> (\<not> toOne \<or> jfield e ''where'' \<noteq> None)"
  by (auto simp: wrapped_update_def split: option.splits json.splits)

lemma update_rows_same: "\<not> (toOne \<and> unfiltered_data e) \<Longrightarrow> update_data e = updated_row toOne e"
  by (auto simp: updated_row_def wrapped_data update_data_def unfiltered_data_def split: option.splits json.splits)

lemma stored_rows_nested:
  assumes "x \<in> set (stored_rows toOne op operand)"
  shows "x \<in> set (nested_rows toOne (nested_op_of op) operand)"
proof -
  consider (create) "op = ''create''" | (many) "op = ''createMany''" | (update) "op = ''update'' \<or> op = ''updateMany''" | (upsert) "op = ''upsert''"
    using assms by (simp add: stored_rows_def split: if_splits)
  then show ?thesis
  proof cases
    case create
    then show ?thesis using assms by (simp add: stored_rows_def nested_op_of_def listed_asList)
  next
    case many
    then show ?thesis using assms unfolding stored_rows_def listed_members by (simp add: nested_op_of_def)
  next
    case update
    then obtain e where e: "e \<in> set (asList (Some operand))" "\<not> (toOne \<and> unfiltered_data e)" "x = (False, update_data e)"
      using assms by (auto simp: stored_rows_def listed_asList)
    then have "x \<in> (\<lambda>u. (False, updated_row toOne u)) ` set (asList (Some operand))" by (simp add: update_rows_same)
    moreover have "nested_op_of op = NUpdate \<or> nested_op_of op = NUpdateMany" using update by (auto simp: nested_op_of_def)
    ultimately show ?thesis by auto
  next
    case upsert
    then show ?thesis using assms by (simp add: stored_rows_def nested_op_of_def listed_asList member_of_list)
  qed
qed

lemma allowed_operation:
  assumes "\<not> op_refused rel (nested_op_of op)" and "nested_op_of op \<noteq> OtherOp"
  shows "op \<in> set (allowed_operations (ri_fk rel \<noteq> None))"
  using assms
  by (auto simp: nested_op_of_def op_refused_def allowed_operations_def NESTED_TO_ONE_REFUSED_def NESTED_TO_MANY_REFUSED_def split: if_splits)

lemma inside_keeps:
  assumes "inside c org batch key creating nested existing row"
    and own: "\<And>m includeDeleted ref. reference_owned c org batch m includeDeleted ref \<Longrightarrow> owned m ref"
  shows "keeps_inside owned (pc_models c) org key (nested \<and> creating) existing row"
  using assms(1)
proof (induction rule: inside.induct)
  case (inside_value row key creating nested existing)
  then show ?case by (intro keeps_value) blast
next
  case (inside_row key meta nested creating kvs existing)
  show ?case
  proof (rule keeps_row)
    show "nested \<and> creating \<longrightarrow> row_stamped org key kvs" using inside_row by blast
    have "unchanged key existing k i \<or> owned target (JObj [(''id'', JStr i)])"
      if e: "(k, v) \<in> set kvs" and i: "names_id v i" "refers_to (pc_models c) key k target" for k v i target
    proof -
      have "key_owned c org batch key meta existing (k, v)" using inside_row e by blast
      then show ?thesis
        using i own refers_kind [OF inside_row(1) i(2)]
        by (auto simp: key_owned_def names_id_scalar unchanged_def reference_def split: if_splits)
    qed
    then show "\<forall>(k, v) \<in> set kvs. \<forall>i target. names_id v i \<and> refers_to (pc_models c) key k target \<longrightarrow>
        unchanged key existing k i \<or> owned target (JObj [(''id'', JStr i)])" by blast
    have "\<exists>ops. v = JObj ops \<and>
        (\<forall>(op, operand) \<in> set ops.
           op \<in> set (allowed_operations (to_one_relation (pc_models c) key k)) \<and>
           (op \<in> {''connect'', ''set''} \<longrightarrow> (\<forall>ref \<in> set (listed operand). owned (js_lower (df_type f)) ref)) \<and>
           (\<forall>(creates, r) \<in> set (stored_rows (to_one_relation (pc_models c) key k) op operand).
              keeps_inside owned (pc_models c) org (js_lower (df_type f)) creates None r))"
      if e: "(k, v) \<in> set kvs" and f: "relation_key (pc_models c) key k f" "v \<noteq> JNull" for k v f
    proof -
      obtain rel where rel: "entry_kind key meta k = Relation rel" "ri_target rel = js_lower (df_type f)"
          "(ri_fk rel \<noteq> None) = to_one_relation (pc_models c) key k" using relation_kind [OF inside_row(1) f(1)] .
      obtain ops where ops: "v = JObj ops" "\<forall>operation \<in> set ops.
           \<not> op_refused rel (nested_op_of (fst operation)) \<and> nested_op_of (fst operation) \<noteq> OtherOp \<and>
           (nested_op_of (fst operation) \<in> {Connect, SetTo} \<longrightarrow>
              (\<forall>ref \<in> set (asList (Some (snd operation))). reference_owned c org batch (ri_target rel) False ref)) \<and>
           (\<forall>x \<in> set (operation_rows rel operation).
              keeps_inside owned (pc_models c) org (ri_target rel) (True \<and> fst x) None (snd x))"
        using inside_row(4) e rel(1) f(2) by fastforce
      have "op \<in> set (allowed_operations (to_one_relation (pc_models c) key k)) \<and>
           (op \<in> {''connect'', ''set''} \<longrightarrow> (\<forall>ref \<in> set (listed operand). owned (js_lower (df_type f)) ref)) \<and>
           (\<forall>(creates, r) \<in> set (stored_rows (to_one_relation (pc_models c) key k) op operand).
              keeps_inside owned (pc_models c) org (js_lower (df_type f)) creates None r)"
        if o: "(op, operand) \<in> set ops" for op operand
      proof (intro conjI)
        note g = ops(2) [rule_format, OF o, unfolded fst_conv snd_conv]
        show "op \<in> set (allowed_operations (to_one_relation (pc_models c) key k))" using allowed_operation g rel(3) by metis
        show "op \<in> {''connect'', ''set''} \<longrightarrow> (\<forall>ref \<in> set (listed operand). owned (js_lower (df_type f)) ref)"
        proof
          assume "op \<in> {''connect'', ''set''}"
          then have "nested_op_of op \<in> {Connect, SetTo}" by (elim insertE emptyE) (simp_all add: nested_op_of_def)
          then have "\<forall>ref \<in> set (listed operand). reference_owned c org batch (js_lower (df_type f)) False ref"
            using g rel(2) by (simp add: listed_asList)
          then show "\<forall>ref \<in> set (listed operand). owned (js_lower (df_type f)) ref" using own by blast
        qed
        show "\<forall>(creates, r) \<in> set (stored_rows (to_one_relation (pc_models c) key k) op operand).
            keeps_inside owned (pc_models c) org (js_lower (df_type f)) creates None r"
        proof clarify
          fix creates r
          assume "(creates, r) \<in> set (stored_rows (to_one_relation (pc_models c) key k) op operand)"
          then have "(creates, r) \<in> set (operation_rows rel (op, operand))"
            using stored_rows_nested rel(3) by (simp add: operation_rows_def)
          then have "keeps_inside owned (pc_models c) org (ri_target rel) (True \<and> fst (creates, r)) None (snd (creates, r))"
            using g by blast
          then show "keeps_inside owned (pc_models c) org (js_lower (df_type f)) creates None r" using rel(2) by simp
        qed
      qed
      then show ?thesis using ops(1) by blast
    qed
    then show "\<forall>(k, v) \<in> set kvs. \<forall>f. relation_key (pc_models c) key k f \<and> v \<noteq> JNull \<longrightarrow>
      (\<exists>ops. v = JObj ops \<and>
        (\<forall>(op, operand) \<in> set ops.
           op \<in> set (allowed_operations (to_one_relation (pc_models c) key k)) \<and>
           (op \<in> {''connect'', ''set''} \<longrightarrow> (\<forall>ref \<in> set (listed operand). owned (js_lower (df_type f)) ref)) \<and>
           (\<forall>(creates, r) \<in> set (stored_rows (to_one_relation (pc_models c) key k) op operand).
              keeps_inside owned (pc_models c) org (js_lower (df_type f)) creates None r)))" by blast
  qed
qed

subsection \<open>Accepted references are records of the organization\<close>

lemma selector_names:
  assumes "ownedSelector org m kvs = Inr w" and "named_by (JObj kvs) k v"
  shows "map_of w k = Some v"
proof (cases "\<exists>pair. map_of kvs ''id_organizationId'' = Some (JObj pair)")
  case False
  then have "composite_reference m kvs = Some kvs"
    by (auto simp: composite_reference_def split: option.splits json.splits)
  moreover have "map_of kvs k = Some v"
    using assms(2) False by (auto simp: named_by_def jfield_def split: option.splits json.splits)
  ultimately show ?thesis using assms(1) by (auto simp: ownedSelector_def split: if_splits)
next
  case True
  then obtain pair where pair: "map_of kvs ''id_organizationId'' = Some (JObj pair)" by blast
  then obtain i o1 where p: "map_of pair ''id'' = Some (JStr i)" "map_of pair ''organizationId'' = Some (JStr o1)"
    and w: "w = AList.delete ''id_organizationId'' (AList.update ''organizationId'' (JStr o1) (AList.update ''id'' (JStr i) kvs))"
    using assms(1) by (auto simp: ownedSelector_def composite_reference_def split: option.splits json.splits if_splits)
  show ?thesis
    using assms(2) pair p unfolding w by (auto simp: named_by_def jfield_def delete_conv' update_conv' split: if_splits)
qed

lemma selector_plain:
  assumes "ownedSelector org m kvs = Inr [(''id'', JStr i)]"
  shows "kvs = [(''id'', JStr i)]"
proof -
  have c: "composite_reference m kvs = Some [(''id'', JStr i)]"
    using assms by (auto simp: ownedSelector_def split: option.splits if_splits)
  show ?thesis
  proof (cases "\<exists>pair. map_of kvs ''id_organizationId'' = Some (JObj pair)")
    case True
    then have "\<exists>o1 j. AList.delete ''id_organizationId'' (AList.update ''organizationId'' (JStr o1) (AList.update ''id'' (JStr j) kvs)) = [(''id'', JStr i)]"
      using c by (auto simp: composite_reference_def split: option.splits json.splits if_splits)
    then obtain o1 j where "[(''id'', JStr i)] = AList.delete ''id_organizationId'' (AList.update ''organizationId'' (JStr o1) (AList.update ''id'' (JStr j) kvs))"
      by metis
    then have "map_of [(''id'', JStr i)] ''organizationId'' = Some (JStr o1)" by (simp only: delete_conv' update_conv') simp
    then show ?thesis by simp
  qed (use c in \<open>auto simp: composite_reference_def split: option.splits json.splits\<close>)
qed

lemma batch_created:
  assumes "(m, includeDeleted, w) \<in> set (call_batch key method qa)" and "ownedSelector org m kvs = Inr w"
  shows "created_by_call key method qa m (JObj kvs)"
proof -
  have cm: "method \<in> set CREATE_METHODS" and nd: "\<not> truthy (map_of qa ''skipDuplicates'')"
    using assms(1) by (auto simp: call_batch_def batch_rows_def split: if_splits)
  obtain row i where row: "row \<in> set (asList (map_of qa ''data''))" "jfield row ''id'' = Some (JStr i)" "m = key" "w = [(''id'', JStr i)]"
    using assms(1) cm nd by (auto simp: call_batch_def batch_rows_def eq_commute [of "Some _" "jfield _ _"] split: option.splits json.splits)
  have "kvs = [(''id'', JStr i)]" using selector_plain assms(2) row(4) by blast
  moreover have "row \<in> set (concat (map listed (member_of (JObj qa) ''data'')))"
    unfolding listed_members using row(1) by (simp add: jfield_def)
  ultimately show ?thesis using row nd cm unfolding created_by_call_def CREATE_METHODS_def by auto
qed

lemma reference_in_organization:
  assumes "prisma_where sat column related to_one" and "paths_exist to_one" and "finds_match sat c"
    and "reference_owned c org (call_batch key method qa) m includeDeleted ref"
  shows "in_organization sat column related org m ref \<or> created_by_call key method qa m ref"
proof -
  obtain kvs w where ref: "ref = JObj kvs" "ownedSelector org m kvs = Inr w"
    and o: "(m, includeDeleted, w) \<in> set (call_batch key method qa) \<or> m = ''organization'' \<and> w = [(''id'', JStr org)] \<or>
      (\<exists>r. belongs column related m r org \<and> (\<forall>k v. map_of w k = Some v \<and> k \<noteq> ''deletedAt'' \<longrightarrow> sat m r (JObj [(k, v)])))"
    using owned_reference_belongs [OF assms] by blast
  from o show ?thesis
  proof (elim disjE)
    assume "(m, includeDeleted, w) \<in> set (call_batch key method qa)"
    then show ?thesis using batch_created ref by blast
  next
    assume "m = ''organization'' \<and> w = [(''id'', JStr org)]"
    then show ?thesis using selector_plain ref by (auto simp: in_organization_def)
  next
    assume "\<exists>r. belongs column related m r org \<and> (\<forall>k v. map_of w k = Some v \<and> k \<noteq> ''deletedAt'' \<longrightarrow> sat m r (JObj [(k, v)]))"
    then show ?thesis using selector_names ref unfolding in_organization_def by blast
  qed
qed

text \<open>C3: Every row a scoped write on a model that is not shared stores, at the top and through relations at any depth, keeps
  to the organization. A key that refers to a record by the data model (or by the two soft references of an invoice,
  unless it repeats what is stored) and every connected record names a record that belongs to the organization, or one
  the same call creates; only the listed nested operations occur; rows created through a relation carry the
  organization; and a created row names its owner. Left out is the data of a to-one update without a filter. The meaning
  of filters and of \<open>findFirst\<close> is what Prisma documents, and the \<open>update\<close> of an upsert is an object.\<close>

theorem scoped_writes_inside:
  assumes "prisma_where sat column related to_one" and "paths_exist to_one" and "finds_match sat c"
    and "scoped_call c org modelName method qa = Inr call" and "js_lower modelName \<notin> set GLOBAL_MODELS"
    and "\<nexists>vs. map_of qa ''update'' = Some (JArr vs)" and "(creating, row) \<in> set (call_rows call)"
  shows "keeps_inside
       (\<lambda>m ref. in_organization sat column related org m ref \<or> created_by_call (js_lower modelName) method qa m ref)
       (pc_models c) org (js_lower modelName) False (stored_target c org modelName method qa) row \<and>
     (creating \<longrightarrow> names_owner org (js_lower modelName) row)"
proof -
  have i: "inside c org (call_batch (js_lower modelName) method qa) (js_lower modelName) creating False (stored_target c org modelName method qa) row \<and>
      (creating \<longrightarrow> names_owner org (js_lower modelName) row)"
    using scoped_writes_checked [OF assms(4-6)] assms(7) by (simp add: call_rows_written)
  have "keeps_inside (\<lambda>m ref. in_organization sat column related org m ref \<or> created_by_call (js_lower modelName) method qa m ref)
      (pc_models c) org (js_lower modelName) (False \<and> creating) (stored_target c org modelName method qa) row"
    by (rule inside_keeps [OF conjunct1 [OF i] reference_in_organization [OF assms(1-3)]])
  then show ?thesis using i by simp
qed

definition sample_data :: json where
  "sample_data = JObj [(''projectId'', JStr ''p1''), (''title'', JStr ''Draft'')]"

lemma sample_create: "scoped_call project_client ''org1'' ''task'' Create [(''data'', sample_data)] =
    Inr \<lparr>rc_model = ''task'', rc_method = Create, rc_args = [(''data'', sample_data)]\<rparr>"
  by code_simp

theorem scoped_writes_inside_witness:
  "keeps_inside (\<lambda>m ref. in_organization (matches_where owner_relation) db_column (db_related owner_relation) ''org1'' m ref \<or>
       created_by_call ''task'' Create [(''data'', sample_data)] m ref)
     sample_models ''org1'' ''task'' False None sample_data \<and> names_owner ''org1'' ''task'' sample_data"
proof -
  have k: "js_lower ''task'' = ''task''" "js_lower ''task'' \<notin> set GLOBAL_MODELS" "pc_models project_client = sample_models"
    "stored_target project_client ''org1'' ''task'' Create [(''data'', sample_data)] = None"
    "(True, sample_data) \<in> set (call_rows \<lparr>rc_model = ''task'', rc_method = Create, rc_args = [(''data'', sample_data)]\<rparr>)"
    by code_simp+
  have f: "finds_match (matches_where owner_relation) project_client"
    by (auto simp: finds_match_def project_client_def js_lower_def lower_char_def)
  have n: "\<nexists>vs. map_of [(''data'', sample_data)] ''update'' = Some (JArr vs)" by simp
  show ?thesis
    using scoped_writes_inside [OF record_filters.prisma_where_axioms owner_relations_exist f sample_create k(2) n k(5)]
    unfolding k(1,3,4) by simp
qed

subsection \<open>The update that is left out\<close>

definition related_update :: "json \<Rightarrow> string \<Rightarrow> members \<Rightarrow> json \<Rightarrow> members" where
  "related_update w via filter_by d =
     [(''where'', w), (''data'', JObj [(via, JObj [(''update'', JObj (filter_by @ [(''data'', d)]))])])]"

lemma update_scoped:
  assumes "js_lower modelName \<notin> set GLOBAL_MODELS" and "js_lower modelName \<notin> set RESTRICTED_MODELS"
    and "js_lower modelName \<notin> set DIRECT_SCOPED_MODELS" and "map_of TENANT_PATHS (js_lower modelName) \<noteq> None"
    and "method_refused (js_lower modelName) Update qa = None"
    and "find_first c modelName False (tenantFilteredWhere (map_of qa ''where'') (buildTenantWhere (owner_path (js_lower modelName)) org)) = Some stored"
    and "map_of qa ''data'' = Some (JObj row)"
  shows "scoped_call c org modelName Update qa =
    (case validateWriteData c org (js_lower modelName) False False (Some stored) (JObj row) [] of
       Inl e \<Rightarrow> Inl e
     | Inr (row1, _) \<Rightarrow> Inr \<lparr>rc_model = modelName, rc_method = Update, rc_args = AList.update ''data'' row1 qa\<rparr>)"
  using assms
  by (auto simp: scoped_call_def path_call_def owner_path_def validateWriteArgs_def visit_arg_def over_list_def Let_def CREATE_METHODS_def
      split: sum.split)

lemma plain_column:
  assumes "relationsFor c key = Inr (Some meta)" and "entry_kind key meta k = Column"
  shows "validateWriteData c org key False True None (JObj [(k, v)]) ver = Inr (JObj [(k, v)], ver)"
  using assms by (simp add: validateWriteData.simps stamp_def)

lemma foreign_key_refused:
  assumes "relationsFor c key = Inr (Some meta)" and "entry_kind key meta k = ForeignKey target"
    and "lookup_owner c org target False [(''id'', JStr i)] = Some e"
  shows "validateWriteData c org key False True None (JObj [(k, JStr i)]) [] = Inl e"
  using assms
  by (simp add: validateWriteData.simps stamp_def verify_key_def scalarKeyValue_def verifyOwned_def reference_def ownedSelector_def
      composite_reference_def)

lemma related_update_visit:
  assumes "relationsFor c key = Inr (Some meta)" and "entry_kind key meta via = Relation rel" and "ri_fk rel \<noteq> None"
  shows "validateWriteData c org key False False existing (JObj [(via, JObj [(''update'', JObj u)])]) [] =
    (case visit_update True (validateWriteData c org (ri_target rel) False True None) (JObj u) [] of
       Inl e \<Rightarrow> Inl e | Inr (y, ver) \<Rightarrow> Inr (JObj [(via, JObj [(''update'', y)])], ver))"
proof -
  have o: "nested_op_of ''update'' = NUpdate" "\<not> op_refused rel NUpdate"
    using assms(3) by (simp_all add: nested_op_of_def op_refused_def NESTED_TO_ONE_REFUSED_def)
  show ?thesis
    using assms o by (simp add: validateWriteData.simps [of c org key] stamp_def visit_relation_def visit_operation_def over_list_def split: sum.split)
qed

text \<open>C37: An update through a to-one relation that has data but no filter is taken for the row itself. Whatever the data
  is, the call passes unchanged, so that no key in it is verified and a key of another organization reaches the
  database; with a filter beside it, the same data with a key that the organization does not own is refused.\<close>

theorem unfiltered_update_unchecked:
  assumes "js_lower modelName \<notin> set GLOBAL_MODELS" and "js_lower modelName \<notin> set RESTRICTED_MODELS"
    and "js_lower modelName \<notin> set DIRECT_SCOPED_MODELS" and "map_of TENANT_PATHS (js_lower modelName) \<noteq> None"
    and "\<And>filter_by d. method_refused (js_lower modelName) Update (related_update w via filter_by d) = None"
    and "find_first c modelName False (tenantFilteredWhere (Some w) (buildTenantWhere (owner_path (js_lower modelName)) org)) = Some stored"
    and "relationsFor c (js_lower modelName) = Inr (Some meta)" and "relation_key (pc_models c) (js_lower modelName) via f"
    and "to_one_relation (pc_models c) (js_lower modelName) via"
    and "relationsFor c (js_lower (df_type f)) = Inr (Some meta')" and "entry_kind (js_lower (df_type f)) meta' ''data'' = Column"
    and "soft_reference (js_lower (df_type f)) k = None" and "refers_to (pc_models c) (js_lower (df_type f)) k target"
    and "lookup_owner c org target False [(''id'', JStr i)] = Some e"
  shows "scoped_call c org modelName Update (related_update w via [] d) =
       Inr \<lparr>rc_model = modelName, rc_method = Update, rc_args = related_update w via [] d\<rparr> \<and>
     scoped_call c org modelName Update (related_update w via [(''where'', v)] (JObj [(k, JStr i)])) = Inl e"
proof -
  obtain rel where rel: "entry_kind (js_lower modelName) meta via = Relation rel" "ri_target rel = js_lower (df_type f)" "ri_fk rel \<noteq> None"
    using relation_kind [OF assms(7,8)] assms(9) by metis
  note call = update_scoped [OF assms(1-4) assms(5)] and visit = related_update_visit [OF assms(7) rel(1,3)]
  have target: "find_first c modelName False (tenantFilteredWhere (map_of (related_update w via u d) ''where'')
      (buildTenantWhere (owner_path (js_lower modelName)) org)) = Some stored" for u d
    using assms(6) by (simp add: related_update_def)
  have data: "map_of (related_update w via u d) ''data'' = Some (JObj [(via, JObj [(''update'', JObj (u @ [(''data'', d)]))])])" for u d
    by (simp add: related_update_def)
  have plain: "visit_update True (validateWriteData c org (ri_target rel) False True None) (JObj ([] @ [(''data'', d)])) [] =
      Inr (JObj [(''data'', d)], [])"
    using plain_column [OF assms(10,11)] rel(2) by (simp add: visit_update_def wrapped_data jfield_def)
  have "entry_kind (js_lower (df_type f)) meta' k = ForeignKey target" using refers_kind [OF assms(10,13)] assms(12) by simp
  note refused = foreign_key_refused [OF assms(10) this assms(14)]
  have filtered: "visit_update True (validateWriteData c org (ri_target rel) False True None)
      (JObj ([(''where'', v)] @ [(''data'', JObj [(k, JStr i)])])) [] = Inl e"
    using refused rel(2) by (simp add: visit_update_def wrapped_data jfield_def over_member_def)
  have "scoped_call c org modelName Update (related_update w via [] d) =
      Inr \<lparr>rc_model = modelName, rc_method = Update, rc_args = related_update w via [] d\<rparr>"
    unfolding call [OF target data] visit plain by (simp add: related_update_def)
  moreover have "scoped_call c org modelName Update (related_update w via [(''where'', v)] (JObj [(k, JStr i)])) = Inl e"
    unfolding call [OF target data] visit filtered by simp
  ultimately show ?thesis ..
qed

definition sample_client :: prisma_client where
  "sample_client = \<lparr>pc_models = sample_models,
     pc_findFirst = (\<lambda>delegate w. if delegate = ''task'' then Some (JObj [(''id'', JStr ''t1'')]) else None)\<rparr>"

definition project_relation :: dm_field where
  "project_relation = \<lparr>df_name = ''project'', df_kind = ''object'', df_type = ''Project''\<rparr>"

theorem unfiltered_update_unchecked_witness:
  "scoped_call sample_client ''org1'' ''task'' Update (related_update (JObj [(''id'', JStr ''t1'')]) ''project'' [] (JObj [(''clientId'', JStr ''foreign'')])) =
     Inr \<lparr>rc_model = ''task'', rc_method = Update,
       rc_args = related_update (JObj [(''id'', JStr ''t1'')]) ''project'' [] (JObj [(''clientId'', JStr ''foreign'')])\<rparr> \<and>
   scoped_call sample_client ''org1'' ''task'' Update
       (related_update (JObj [(''id'', JStr ''t1'')]) ''project'' [(''where'', JObj [])] (JObj [(''clientId'', JStr ''foreign'')])) = Inl (TenancyError 404)"
proof -
  have t: "js_lower ''task'' = ''task''" "js_lower (df_type project_relation) = ''project''" by code_simp+
  have a: "js_lower ''task'' \<notin> set GLOBAL_MODELS" "js_lower ''task'' \<notin> set RESTRICTED_MODELS" "js_lower ''task'' \<notin> set DIRECT_SCOPED_MODELS"
    "map_of TENANT_PATHS (js_lower ''task'') \<noteq> None"
    "find_first sample_client ''task'' False (tenantFilteredWhere (Some (JObj [(''id'', JStr ''t1'')])) (buildTenantWhere (owner_path (js_lower ''task'')) ''org1'')) =
      Some (JObj [(''id'', JStr ''t1'')])"
    "relation_key (pc_models sample_client) (js_lower ''task'') ''project'' project_relation"
    "to_one_relation (pc_models sample_client) (js_lower ''task'') ''project''"
    "soft_reference (js_lower (df_type project_relation)) ''clientId'' = None"
    "lookup_owner sample_client ''org1'' ''client'' False [(''id'', JStr ''foreign'')] = Some (TenancyError 404)"
    by code_simp+
  have r: "refers_to (pc_models sample_client) (js_lower (df_type project_relation)) ''clientId'' ''client''"
  proof -
    have "has_column sample_models ''project'' ''clientId''" "soft_reference ''project'' ''clientId'' = None"
      "relation_field sample_models ''project'' ''client'' = Some \<lparr>df_name = ''client'', df_kind = ''object'', df_type = ''Client''\<rparr>"
      "js_lower ''Client'' = ''client''" by code_simp+
    then show ?thesis unfolding refers_to_def t by (auto simp: sample_client_def intro!: exI [of _ "''client''"])
  qed
  have m: "method_refused (js_lower ''task'') Update qa = None" for qa
  proof -
    have "''task'' \<notin> set TRIGGER_OWNED_MODELS" "''task'' \<notin> set APPEND_ONLY_MODELS" "map_of BOOKKEEPING_ONLY_MODELS ''task'' = None"
      "Update \<in> set WRITE_METHODS" "Update \<notin> set APPEND_ONLY_BLOCKED_METHODS \<or> True" by code_simp+
    then show ?thesis unfolding t by (simp add: method_refused_def)
  qed
  obtain meta where meta: "relationsFor sample_client (js_lower ''task'') = Inr (Some meta)"
  proof -
    have "\<not> (case relationsFor sample_client (js_lower ''task'') of Inr (Some _) \<Rightarrow> False | _ \<Rightarrow> True)" by code_simp
    then show ?thesis using that by (auto split: sum.splits option.splits)
  qed
  obtain meta' where meta': "relationsFor sample_client (js_lower (df_type project_relation)) = Inr (Some meta')"
    "entry_kind (js_lower (df_type project_relation)) meta' ''data'' = Column"
  proof -
    have "case relationsFor sample_client (js_lower (df_type project_relation)) of
        Inr (Some m) \<Rightarrow> entry_kind (js_lower (df_type project_relation)) m ''data'' = Column | _ \<Rightarrow> False" by code_simp
    then show ?thesis using that by (auto split: sum.splits option.splits)
  qed
  show ?thesis by (rule unfiltered_update_unchecked [OF a(1-4) m a(5) meta a(6,7) meta' a(8) r a(9)])
qed

end
