(* ===== verification/Recurrence.thy ===== *)
theory Recurrence
  imports Calendar
begin

section \<open>Recurrence: the next occurrence of a task rule and of a recurring invoice\<close>

text \<open>
  Models \<^verbatim>\<open>src/shared/task-recurrence.js\<close> and the date functions of \<^verbatim>\<open>src/jobs/recurring-invoices.js\<close>.
  Both look for the first date of a schedule after a given date: every date is computed from the anchor, by
  a number of intervals, and the search counts up from an estimate. The search is a loop without a bound
  (\<open>for (;;)\<close>, \<open>while\<close>); here it is a partial function, \<open>None\<close> when it does not return, and it is shown
  that it returns for every rule the schema accepts, with the least date of the schedule after the given one.
  The locale \<open>schedule\<close> holds that search; the schedules of months, of days and of recurring invoices
  interpret it.

  \<open>dateInZone\<close> reads the time zone database of the platform and is a parameter of the definitions that use it.
\<close>

subsection \<open>Searching a schedule\<close>

partial_function (option) search_from :: "(int \<Rightarrow> timestamp) \<Rightarrow> timestamp \<Rightarrow> int \<Rightarrow> timestamp option" where
  "search_from f after k = (if after < f k then Some (f k) else search_from f after (k + 1))"

declare search_from.simps [code]

locale schedule =
  fixes occurs :: "'p \<Rightarrow> int \<Rightarrow> timestamp" and admissible :: "'p \<Rightarrow> bool"
  assumes occurs_mono: "admissible p \<Longrightarrow> j < k \<Longrightarrow> occurs p j < occurs p k"
begin

lemma occurs_le_iff: "admissible p \<Longrightarrow> occurs p j \<le> occurs p k \<longleftrightarrow> j \<le> k"
  using occurs_mono [of p j k] occurs_mono [of p k j] by (metis le_less linorder_not_less)

text \<open>A search that can succeed returns the least occurrence of the schedule after the given time.\<close>

lemma search_returns:
  assumes "admissible p" and "after < occurs p n" and "k \<le> n"
  shows "\<exists>m. k \<le> m \<and> m \<le> n \<and> search_from (occurs p) after k = Some (occurs p m) \<and> after < occurs p m \<and> (m = k \<or> occurs p (m - 1) \<le> after)"
  using assms(3)
proof (induction "nat (n - k)" arbitrary: k)
  case 0
  then show ?case using assms(2) by (intro exI [of _ n]) (simp add: search_from.simps)
next
  case (Suc d)
  show ?case
  proof (cases "after < occurs p k")
    case True
    then show ?thesis using Suc.prems by (intro exI [of _ k]) (simp add: search_from.simps)
  next
    case False
    have "d = nat (n - (k + 1))" "k + 1 \<le> n" using Suc.hyps(2) by simp_all
    from Suc.hyps(1) [OF this] obtain m where m: "k + 1 \<le> m" "m \<le> n"
      "search_from (occurs p) after (k + 1) = Some (occurs p m)" "after < occurs p m" "m = k + 1 \<or> occurs p (m - 1) \<le> after"
      by blast
    then show ?thesis using False by (intro exI [of _ m]) (auto simp: search_from.simps [of _ _ k])
  qed
qed

lemma search_least:
  assumes "admissible p" and "after < occurs p n" and "k \<le> n" and "k = l \<or> l < k \<and> occurs p (k - 1) \<le> after"
  shows "\<exists>m. l \<le> m \<and> m \<le> n \<and> search_from (occurs p) after k = Some (occurs p m) \<and> after < occurs p m \<and> (\<forall>j. l \<le> j \<and> after < occurs p j \<longrightarrow> occurs p m \<le> occurs p j)"
proof -
  obtain m where m: "k \<le> m" "m \<le> n" "search_from (occurs p) after k = Some (occurs p m)" "after < occurs p m" "m = k \<or> occurs p (m - 1) \<le> after"
    using search_returns [OF assms(1-3)] by blast
  have "m = l \<or> l < m \<and> occurs p (m - 1) \<le> after" using m(1,5) assms(4) by auto
  then have "occurs p m \<le> occurs p j" if "l \<le> j" "after < occurs p j" for j
  proof
    assume "l < m \<and> occurs p (m - 1) \<le> after"
    then have "occurs p (m - 1) < occurs p j" using that(2) by linarith
    then have "m - 1 < j" using occurs_le_iff [OF assms(1), of j "m - 1"] by linarith
    then show ?thesis using occurs_le_iff [OF assms(1)] by simp
  qed (use that occurs_le_iff [OF assms(1)] in simp)
  moreover have "l \<le> m" using m(1) assms(4) by auto
  ultimately show ?thesis using m by blast
qed

end

subsection \<open>Moving a date by months and by days\<close>

text \<open>The anchor's day of the month, clamped to the last day of the month it is moved to.\<close>

definition addMonthsFromAnchor :: "timestamp \<Rightarrow> int \<Rightarrow> timestamp" where
  "addMonthsFromAnchor anchor months =
     (let day = getUTCDate anchor;
          d1 = setUTCDate anchor 1;
          d2 = setUTCMonth d1 (getUTCMonth d1 + months);
          lastDay = getUTCDate (Date_UTC (getUTCFullYear d2) (getUTCMonth d2 + 1) 0)
      in setUTCDate d2 (min day lastDay))"

lemma addMonthsFromAnchor_clamped: "addMonthsFromAnchor anchor months = clamped_month anchor months"
  using clamped_month_steps [of anchor months] by (simp add: addMonthsFromAnchor_def Let_def)

definition month_occurrence :: "timestamp \<times> int \<Rightarrow> int \<Rightarrow> timestamp" where
  "month_occurrence p k = addMonthsFromAnchor (fst p) (k * snd p)"

definition day_occurrence :: "timestamp \<times> int \<Rightarrow> int \<Rightarrow> timestamp" where
  "day_occurrence p k = setUTCDate (fst p) (getUTCDate (fst p) + k * snd p)"

interpretation months: schedule month_occurrence "\<lambda>p. 0 < snd p"
  by unfold_locales (simp add: month_occurrence_def addMonthsFromAnchor_clamped clamped_month_mono)

interpretation days: schedule day_occurrence "\<lambda>p. 0 < snd p"
  by unfold_locales (simp add: day_occurrence_def setUTCDate_shift)

definition months_between :: "timestamp \<Rightarrow> timestamp \<Rightarrow> int" where
  "months_between s t = (getUTCFullYear t - getUTCFullYear s) * 12 + getUTCMonth t - getUTCMonth s"

lemma months_between: "months_between s t = month_index t - month_index s"
  by (simp add: months_between_def month_index_def)

text \<open>The estimate from the months elapsed is at most one interval short, and never late.\<close>

lemma month_estimate:
  fixes n :: int and anchor after :: timestamp
  assumes "0 < n"
  defines "e \<equiv> months_between anchor after div n"
  shows "month_occurrence (anchor, n) (e - 1) \<le> after" and "after < month_occurrence (anchor, n) (e + 1)"
    and "month_index (month_occurrence (anchor, n) (e + 1)) \<le> month_index after + n"
proof -
  have b: "e * n \<le> months_between anchor after" "months_between anchor after < (e + 1) * n"
    unfolding e_def distrib_right
    using div_mult_mod_eq [of "months_between anchor after" n] pos_mod_bound [OF assms(1), of "months_between anchor after"]
      pos_mod_sign [OF assms(1), of "months_between anchor after"] by linarith+
  have i: "month_index (month_occurrence (anchor, n) k) = month_index anchor + k * n" for k
    by (simp add: month_occurrence_def addMonthsFromAnchor_clamped clamped_month_parts)
  have "month_index (month_occurrence (anchor, n) (e - 1)) < month_index after"
    using b assms(1) by (simp add: i months_between algebra_simps)
  then show "month_occurrence (anchor, n) (e - 1) \<le> after" using month_index_less utc_day_less less_imp_le by blast
  have "month_index after < month_index (month_occurrence (anchor, n) (e + 1))"
    using b by (simp add: i months_between algebra_simps)
  then show "after < month_occurrence (anchor, n) (e + 1)" using month_index_less utc_day_less by blast
  show "month_index (month_occurrence (anchor, n) (e + 1)) \<le> month_index after + n"
    using b by (simp add: i months_between algebra_simps)
qed

subsection \<open>Recurring invoices\<close>

datatype interval = MONTHLY_INVOICE | QUARTERLY | ANNUALLY | OtherInterval string

definition interval_of :: "string \<Rightarrow> interval" where
  "interval_of s =
     (if s = ''MONTHLY'' then MONTHLY_INVOICE else if s = ''QUARTERLY'' then QUARTERLY else if s = ''ANNUALLY'' then ANNUALLY
      else OtherInterval s)"

definition INTERVAL_MONTHS :: "interval \<Rightarrow> int option" where
  "INTERVAL_MONTHS i =
     (case i of MONTHLY_INVOICE \<Rightarrow> Some 1 | QUARTERLY \<Rightarrow> Some 3 | ANNUALLY \<Rightarrow> Some 12 | OtherInterval _ \<Rightarrow> None)"

definition interval_months :: "interval \<Rightarrow> int" where
  "interval_months i = (case INTERVAL_MONTHS i of Some n \<Rightarrow> n | None \<Rightarrow> 1)"

definition getNextRecurringDate :: "timestamp \<Rightarrow> interval \<Rightarrow> timestamp" where
  "getNextRecurringDate currentDate i =
     (case i of
        MONTHLY_INVOICE \<Rightarrow> addMonthsFromAnchor currentDate 1
      | QUARTERLY \<Rightarrow> addMonthsFromAnchor currentDate 3
      | ANNUALLY \<Rightarrow> addMonthsFromAnchor currentDate 12
      | OtherInterval _ \<Rightarrow> addMonthsFromAnchor currentDate 1)"

definition firstRecurringDate :: "timestamp option \<Rightarrow> interval \<Rightarrow> timestamp \<Rightarrow> timestamp option" where
  "firstRecurringDate anchor i now =
     (let months = interval_months i;
          start = (case anchor of Some a \<Rightarrow> a | None \<Rightarrow> now);
          k = max 1 (months_between start now div months)
      in search_from (month_occurrence (start, months)) now k)"

lemma interval_months_pos: "0 < interval_months i"
  by (simp add: interval_months_def INTERVAL_MONTHS_def split: interval.splits)

text \<open>
  The billing date after now exists: the first of the dates one or more intervals after the anchor.
\<close>

lemma firstRecurringDate_least:
  "\<exists>k. 1 \<le> k \<and> firstRecurringDate (Some anchor) i now = Some (addMonthsFromAnchor anchor (k * interval_months i)) \<and>
     now < addMonthsFromAnchor anchor (k * interval_months i) \<and>
     (\<forall>j. 1 \<le> j \<and> now < addMonthsFromAnchor anchor (j * interval_months i) \<longrightarrow>
        addMonthsFromAnchor anchor (k * interval_months i) \<le> addMonthsFromAnchor anchor (j * interval_months i))"
proof -
  let ?n = "interval_months i"
  let ?e = "months_between anchor now div ?n"
  let ?k = "max 1 ?e"
  have n: "0 < snd (anchor, ?n)" by (simp add: interval_months_pos)
  have late: "now < month_occurrence (anchor, ?n) (?k + 1)"
  proof -
    have "month_occurrence (anchor, ?n) (?e + 1) \<le> month_occurrence (anchor, ?n) (?k + 1)"
      unfolding months.occurs_le_iff [OF n] by simp
    then show ?thesis using month_estimate(2) [OF interval_months_pos [of i], where anchor = anchor and after = now] by linarith
  qed
  have early: "?k = 1 \<or> 1 < ?k \<and> month_occurrence (anchor, ?n) (?k - 1) \<le> now"
    using month_estimate(1) [OF interval_months_pos [of i], where anchor = anchor and after = now] by (auto simp: max_def)
  show ?thesis
    using months.search_least [OF n late _ early]
    by (auto simp: firstRecurringDate_def Let_def month_occurrence_def)
qed

subsection \<open>Task rules\<close>

datatype frequency = DAILY | WEEKLY | MONTHLY

datatype trigger = CALENDAR | AFTER_COMPLETION

record rule =
  trigger :: "trigger option"
  frequency :: frequency
  interval :: int
  startDate :: string
  timeZone :: string

datatype date_error = RangeError

text \<open>
  \<open>new Date(text + "T00:00:00Z")\<close>: \<open>None\<close> is an invalid date. The parser accepts a day up to 31 in every
  month and moves it into the next month, which is why \<open>isCalendarDate\<close> compares the text again.
\<close>

definition dateOf :: "string \<Rightarrow> timestamp option" where
  "dateOf s =
     (case date_parts s of
        None \<Rightarrow> None
      | Some (y, m, d) \<Rightarrow> if 1 \<le> m \<and> m \<le> 12 \<and> 1 \<le> d \<and> d \<le> 31 then Some (Date_UTC y (m - 1) d) else None)"

definition textOf :: "timestamp \<Rightarrow> string" where
  "textOf t = iso_date t"

definition isCalendarDate :: "string \<Rightarrow> bool" where
  "isCalendarDate s \<longleftrightarrow>
     take 2 s = ''20'' \<and> date_parts s \<noteq> None \<and> (case dateOf s of None \<Rightarrow> False | Some t \<Rightarrow> iso_date t = s)"

definition rule_days :: "rule \<Rightarrow> int" where
  "rule_days r = interval r * (if frequency r = WEEKLY then 7 else 1)"

text \<open>
  The result is \<open>None\<close> when the loop does not end, which a monthly rule with an invalid date or an interval
  of 0 does; the other frequencies then throw the \<open>RangeError\<close> of \<open>toISOString\<close>.
\<close>

definition recurrenceAfter :: "rule \<Rightarrow> string \<Rightarrow> (date_error + string) option" where
  "recurrenceAfter r afterDate =
     (if afterDate < startDate r then Some (Inr (startDate r))
      else if frequency r \<noteq> MONTHLY then
        (case (dateOf (startDate r), dateOf afterDate) of
           (Some anchor, Some after) \<Rightarrow>
             if rule_days r = 0 then Some (Inl RangeError)
             else
               (let elapsed = (after - anchor) div day_ms
                in Some (Inr (textOf (setUTCDate anchor (getUTCDate anchor + (elapsed div rule_days r + 1) * rule_days r)))))
         | _ \<Rightarrow> Some (Inl RangeError))
      else
        (case (dateOf (startDate r), dateOf afterDate) of
           (Some anchor, Some after) \<Rightarrow>
             if interval r = 0 then None
             else
               (let count = max 0 (months_between anchor after div interval r)
                in map_option (\<lambda>next. Inr (textOf next)) (search_from (month_occurrence (anchor, interval r)) after count))
         | _ \<Rightarrow> None))"

definition firstRecurrenceOnOrAfter :: "rule \<Rightarrow> string \<Rightarrow> (date_error + string) option" where
  "firstRecurrenceOnOrAfter r today =
     (case dateOf today of
        None \<Rightarrow> Some (Inl RangeError)
      | Some t \<Rightarrow> recurrenceAfter r (textOf (setUTCDate t (getUTCDate t - 1))))"

definition completionRepeatDate :: "(timestamp \<Rightarrow> string \<Rightarrow> string) \<Rightarrow> rule \<Rightarrow> timestamp \<Rightarrow> (date_error + string) option" where
  "completionRepeatDate dateInZone r completedAt =
     (let completedDate = dateInZone completedAt (timeZone r)
      in recurrenceAfter (r\<lparr>startDate := completedDate\<rparr>) completedDate)"

text \<open>\<open>taskRecurrenceRuleSchema\<close>; \<open>isTimeZone\<close> is the platform's.\<close>

definition rule_valid :: "(string \<Rightarrow> bool) \<Rightarrow> rule \<Rightarrow> bool" where
  "rule_valid isTimeZone r \<longleftrightarrow>
     1 \<le> interval r \<and> interval r \<le> 365 \<and> isCalendarDate (startDate r) \<and> length (timeZone r) \<le> 100 \<and> isTimeZone (timeZone r)"

lemma dateOf_valid:
  assumes "valid_text s"
  shows "dateOf s = Some (text_day s * day_ms)"
proof -
  obtain y m d where p: "date_parts s = Some (y, m, d)" "valid_parts y m d" "text_day s = day_number y m d"
    using assms by (rule valid_textE)
  have "m - 1 = (m - 1) mod 12 \<and> (m - 1) div 12 = 0" "1 \<le> m" "m \<le> 12" "1 \<le> d" "d \<le> 31"
    using p(2) month_lengths_pos [of "month_lengths y ! nat (m - 1)" y] by (auto simp: valid_parts_def)
  then show ?thesis using p by (simp add: dateOf_def Date_UTC_def make_day_def)
qed

lemma digit_value: "c \<in> set DIGITS \<Longrightarrow> 0 \<le> (of_char c - 48 :: int) \<and> (of_char c - 48 :: int) \<le> 9"
  unfolding DIGITS_def by auto

lemma century_20:
  assumes "date_parts s = Some (y, m, d)" and "take 2 s = ''20''"
  shows "2000 \<le> y" and "y \<le> 2099"
proof -
  have l: "length s = 10" "all_in DIGITS (take 4 s)" "y = digits_int (take 4 s)"
    using assms(1) by (auto simp: date_parts_def split: if_splits)
  obtain a b where ab: "take 2 (drop 2 s) = [a, b]"
    using l(1) by (cases "drop 2 s"; cases "tl (drop 2 s)") (auto dest: arg_cong [of _ _ length])
  have t: "take 4 s = ''20'' @ [a, b]" using take_add [of 2 2 s] assms(2) ab by simp
  have "a \<in> set DIGITS" "b \<in> set DIGITS" using l(2) t by (auto simp: all_in_def)
  then have v: "0 \<le> (of_char a - 48 :: int)" "(of_char a - 48 :: int) \<le> 9" "0 \<le> (of_char b - 48 :: int)" "(of_char b - 48 :: int) \<le> 9"
    using digit_value by blast+
  have "y = 2000 + 10 * (of_char a - 48) + (of_char b - 48)" using l(3) t by (simp add: digits_int_def)
  then show "2000 \<le> y" "y \<le> 2099" using v by (simp_all add: algebra_simps)
qed

text \<open>\<open>isCalendarDate\<close> accepts exactly the existing dates of the years 2000 to 2099.\<close>

lemma isCalendarDate_iff: "isCalendarDate s \<longleftrightarrow> valid_text s \<and> take 2 s = ''20''"
proof
  assume v: "valid_text s \<and> take 2 s = ''20''"
  then have "date_parts s \<noteq> None" by (auto simp: valid_text_def split: option.splits)
  then show "isCalendarDate s" using v by (simp add: isCalendarDate_def dateOf_valid iso_date_of_text)
next
  assume c: "isCalendarDate s"
  then obtain t where t: "dateOf s = Some t" "iso_date t = s" "date_parts s \<noteq> None" and s: "take 2 s = ''20''"
    by (auto simp: isCalendarDate_def split: option.splits)
  obtain y m d where p: "date_parts s = Some (y, m, d)" using t(3) by auto
  note y = date_text_parts [OF p]
  have t': "t = make_day y (m - 1) d * day_ms" "1 \<le> m" "m \<le> 12" "1 \<le> d" "d \<le> 31"
    using t(1) p by (auto simp: dateOf_def Date_UTC_def split: if_splits)
  have "utc_day t = day_number y m d" using t' by (simp add: make_day_def)
  moreover have "0 \<le> sum_list (take (nat (m - 1)) (month_lengths y))" "sum_list (take (nat (m - 1)) (month_lengths y)) \<le> sum_list (month_lengths y)"
    using month_sum_bound [of y m 1] month_lengths_pos [of "month_lengths y ! nat (m - 1)" y] t' by (auto simp: valid_parts_def)
  ultimately have "year_start y \<le> utc_day t" "utc_day t < year_start (y + 1) + 31"
    using t' by (simp_all add: day_number_start year_length)
  moreover have "year_start (y + 1) + 31 < year_start (y + 1 + 1)"
    using year_length [of "y + 1"] sum_month_lengths [of "y + 1"] by simp
  ultimately have "y \<le> getUTCFullYear t" "getUTCFullYear t \<le> y + 1"
    using year_from [of y t] year_before [of t "y + 1"] by simp_all
  then have "0 \<le> getUTCFullYear t" "getUTCFullYear t \<le> 9999"
    using century_20 [OF p s] by simp_all
  then show "valid_text s \<and> take 2 s = ''20''" using s t(2) iso_date_valid(1) by auto
qed

subsection \<open>The next occurrence\<close>

text \<open>The schedule of a rule: the day of its occurrence \<open>k\<close> (\<open>k \<ge> 0\<close>).\<close>

definition occurrence :: "rule \<Rightarrow> int \<Rightarrow> int" where
  "occurrence r k =
     (let anchor = text_day (startDate r) * day_ms
      in utc_day (if frequency r = MONTHLY then month_occurrence (anchor, interval r) k else day_occurrence (anchor, rule_days r) k))"

lemma clamped_month_0: "clamped_month t 0 = t"
proof -
  have "valid_parts (month_index t div 12) (month_index t mod 12 + 1) (getUTCDate t)"
    using utc_parts_valid(1) [of t] getUTCMonth_range [of t] by (simp add: month_index_def)
  then have "min (getUTCDate t) (month_length (month_index t)) = getUTCDate t" by (simp add: valid_parts_index)
  then show ?thesis
    using utc_parts_valid(2) [of t] utc_day_split [of t] getUTCMonth_range [of t] by (simp add: clamped_month_def Let_def month_index_def)
qed

lemma occurrence_0: "occurrence r 0 = text_day (startDate r)"
  by (simp add: occurrence_def Let_def month_occurrence_def addMonthsFromAnchor_clamped clamped_month_0 day_occurrence_def
      setUTCDate_shift [of _ 0, simplified])

lemma occurrence_day: "frequency r \<noteq> MONTHLY \<Longrightarrow> occurrence r k = text_day (startDate r) + k * rule_days r"
  by (simp add: occurrence_def Let_def day_occurrence_def utc_day_setUTCDate)

lemma midnight: "t mod day_ms = 0 \<Longrightarrow> t = utc_day t * day_ms"
  using utc_day_split [of t] by simp

lemma month_occurrence_midnight: "month_occurrence (n * day_ms, i) k mod day_ms = 0"
  by (simp add: month_occurrence_def addMonthsFromAnchor_clamped clamped_month_parts)

lemma occurrence_month:
  assumes "frequency r = MONTHLY"
  shows "month_occurrence (text_day (startDate r) * day_ms, interval r) k = occurrence r k * day_ms"
  using assms midnight [OF month_occurrence_midnight] by (simp add: occurrence_def Let_def)

lemma rule_days_pos: "1 \<le> interval r \<Longrightarrow> 0 < rule_days r"
  by (simp add: rule_days_def)

lemma occurrence_mono: "1 \<le> interval r \<Longrightarrow> j < k \<Longrightarrow> occurrence r j < occurrence r k"
proof (cases "frequency r = MONTHLY")
  case True
  assume "1 \<le> interval r" "j < k"
  then have "occurrence r j * day_ms < occurrence r k * day_ms"
    using months.occurs_mono [of "(text_day (startDate r) * day_ms, interval r)" j k] occurrence_month [OF True] by simp
  then show ?thesis by simp
qed (simp add: occurrence_day rule_days_pos)

definition next_of :: "rule \<Rightarrow> string \<Rightarrow> string \<Rightarrow> bool" where
  "next_of r a next \<longleftrightarrow>
     valid_text next \<and> a < next \<and>
     (\<exists>k \<ge> 0. text_day next = occurrence r k \<and> (\<forall>j \<ge> 0. text_day a < occurrence r j \<longrightarrow> occurrence r k \<le> occurrence r j))"

lemma text_9900: "valid_text a \<Longrightarrow> a < ''9900'' \<Longrightarrow> text_day a < 2896373"
proof -
  assume a: "valid_text a" "a < ''9900''"
  have "''9900'' < (''9900-01-01'' :: string)" by simp
  with a(2) have "a < ''9900-01-01''" by (rule less_trans)
  moreover have "valid_text ''9900-01-01''" "text_day ''9900-01-01'' = 2896373" by code_simp+
  ultimately show ?thesis using text_less_iff [OF a(1)] by simp
qed

lemma later_text:
  assumes "valid_text a" and "text_day a < utc_day t" and "utc_day t < 2932532"
  shows "valid_text (textOf t)" and "text_day (textOf t) = utc_day t" and "a < textOf t"
proof -
  obtain y m d where p: "valid_parts y m d" "text_day a = day_number y m d" "0 \<le> y" using assms(1) by (rule valid_textE)
  have "year_start y \<le> utc_day t"
    using p assms(2) month_sum_bound [OF p(1)] by (simp add: day_number_start valid_parts_def)
  then have "0 \<le> getUTCFullYear t" using year_from p(3) by force
  moreover have "year_start (9999 + 1) = 2932897" by (simp add: year_start_eq)
  then have "getUTCFullYear t \<le> 9999" using year_before [of t 9999] assms(3) by simp
  ultimately show v: "valid_text (textOf t)" "text_day (textOf t) = utc_day t"
    using iso_date_valid by (simp_all add: textOf_def)
  show "a < textOf t" using text_less_iff [OF assms(1) v(1)] v(2) assms(2) by simp
qed

lemma next_daily:
  assumes r: "1 \<le> interval r" "interval r \<le> 365" "valid_text (startDate r)" "frequency r \<noteq> MONTHLY"
    and a: "valid_text a" "a < ''9900''" "\<not> a < startDate r"
  shows "\<exists>next. recurrenceAfter r a = Some (Inr next) \<and> next_of r a next"
proof -
  let ?n = "rule_days r"
  let ?s = "text_day (startDate r)"
  define elapsed where "elapsed = text_day a - ?s"
  let ?k = "elapsed div ?n + 1"
  define t where "t = setUTCDate (?s * day_ms) (getUTCDate (?s * day_ms) + ?k * ?n)"
  have n: "0 < ?n" "?n \<le> 2555" using r(1,2) by (simp_all add: rule_days_def)
  have e: "0 \<le> elapsed" using a(3) text_less_iff [OF a(1) r(3)] by (simp add: elapsed_def)
  have u: "utc_day t = ?s + ?k * ?n" by (simp add: t_def utc_day_setUTCDate)
  have k: "elapsed < ?k * ?n" "?k * ?n \<le> elapsed + ?n" "0 \<le> ?k"
    using n(1) e div_mult_mod_eq [of elapsed ?n] pos_mod_bound [OF n(1), of elapsed] pos_mod_sign [OF n(1), of elapsed]
      pos_imp_zdiv_nonneg_iff [OF n(1), of elapsed] unfolding distrib_right by linarith+
  have b: "text_day a < utc_day t" "utc_day t < 2932532"
    using u k(1,2) n(2) text_9900 [OF a(1,2)] by (simp_all add: elapsed_def)
  note l = later_text [OF a(1) b]
  have d: "(text_day a * day_ms - ?s * day_ms) div day_ms = elapsed"
    by (simp add: elapsed_def flip: left_diff_distrib)
  have "recurrenceAfter r a = Some (Inr (textOf t))"
    using r(4) a n(1) d by (simp add: recurrenceAfter_def dateOf_valid r(3) Let_def t_def)
  moreover have "next_of r a (textOf t)"
    unfolding next_of_def
  proof (intro conjI exI [of _ ?k] allI impI)
    show "text_day (textOf t) = occurrence r ?k" by (simp add: l(2) u occurrence_day [OF r(4)])
    fix j assume j: "0 \<le> j" "text_day a < occurrence r j"
    then have "elapsed < j * ?n" by (simp add: occurrence_day [OF r(4)] elapsed_def)
    then have "elapsed div ?n < j"
      using mult_right_mono [of j "elapsed div ?n" ?n] n(1) div_mult_mod_eq [of elapsed ?n] pos_mod_sign [OF n(1), of elapsed] by linarith
    then show "occurrence r ?k \<le> occurrence r j" using n(1) by (simp add: occurrence_day [OF r(4)])
  qed (use l k in simp_all)
  ultimately show ?thesis by blast
qed

lemma next_monthly:
  assumes r: "1 \<le> interval r" "interval r \<le> 365" "valid_text (startDate r)" "frequency r = MONTHLY"
    and a: "valid_text a" "a < ''9900''" "\<not> a < startDate r"
  shows "\<exists>next. recurrenceAfter r a = Some (Inr next) \<and> next_of r a next"
proof -
  let ?s = "text_day (startDate r) * day_ms"
  let ?p = "(?s, interval r)"
  let ?t = "text_day a * day_ms"
  let ?e = "months_between ?s ?t div interval r"
  have n: "0 < interval r" "0 < snd ?p" using r(1) by simp_all
  have "\<not> utc_day ?t < utc_day ?s" using a(3) text_less_iff [OF a(1) r(3)] by simp
  then have "0 \<le> months_between ?s ?t" using month_index_less [of ?t ?s] by (fastforce simp: months_between)
  then have e: "0 \<le> ?e" using n(1) by (simp add: pos_imp_zdiv_nonneg_iff)
  note est = month_estimate [OF n(1), where anchor = ?s and after = ?t]
  have early: "?e = 0 \<or> 0 < ?e \<and> month_occurrence ?p (?e - 1) \<le> ?t" using e est(1) by auto
  obtain m where m: "0 \<le> m" "m \<le> ?e + 1" "search_from (month_occurrence ?p) ?t ?e = Some (month_occurrence ?p m)"
    "?t < month_occurrence ?p m" "\<And>j. 0 \<le> j \<Longrightarrow> ?t < month_occurrence ?p j \<Longrightarrow> month_occurrence ?p m \<le> month_occurrence ?p j"
    using months.search_least [OF n(2) est(2) _ early] by auto
  have occ: "month_occurrence ?p k = occurrence r k * day_ms" for k by (rule occurrence_month [OF r(4)])
  define t where "t = month_occurrence ?p m"
  have u: "utc_day t = occurrence r m" by (simp add: t_def occ)
  have "month_index t \<le> month_index (month_occurrence ?p (?e + 1))"
    using m(2) months.occurs_le_iff [OF n(2), of m "?e + 1"] month_index_less utc_day_less unfolding t_def by (meson leD leI)
  then have i: "month_index t \<le> month_index ?t + 365" using est(3) r(2) by linarith
  have "utc_day ?t < year_start (9899 + 1)" using text_9900 [OF a(1,2)] by (simp add: year_start_eq)
  then have "getUTCFullYear ?t \<le> 9899" by (rule year_before)
  then have "getUTCFullYear t \<le> 9997" using i getUTCMonth_range [of t] getUTCMonth_range [of ?t] by (simp add: month_index_def)
  then have "year_start (getUTCFullYear t + 1) \<le> year_start 9999" using year_start_less [of "getUTCFullYear t" 9999] by simp
  moreover have "utc_day t < year_start (getUTCFullYear t + 1)" by (rule in_year(2))
  ultimately have b: "text_day a < utc_day t" "utc_day t < 2932532"
    using m(4) by (simp_all add: u occ year_start_eq)
  note l = later_text [OF a(1) b]
  have "recurrenceAfter r a = Some (Inr (textOf t))"
    using r(1,4) a e m(3) by (simp add: recurrenceAfter_def dateOf_valid r(3) Let_def t_def)
  moreover have "next_of r a (textOf t)"
    unfolding next_of_def
  proof (intro conjI exI [of _ m] allI impI)
    fix j assume j: "0 \<le> j" "text_day a < occurrence r j"
    then show "occurrence r m \<le> occurrence r j" using m(5) [of j] by (simp add: occ)
  qed (use l m(1) u in simp_all)
  ultimately show ?thesis by blast
qed

lemma next_after:
  assumes v: "1 \<le> interval r" "interval r \<le> 365" "valid_text (startDate r)" and a: "valid_text a" "a < ''9900''"
  shows "\<exists>next. recurrenceAfter r a = Some (Inr next) \<and> next_of r a next"
proof (cases "a < startDate r")
  case True
  have "next_of r a (startDate r)"
    unfolding next_of_def
  proof (intro conjI exI [of _ 0] allI impI)
    fix j :: int assume "0 \<le> j"
    then show "occurrence r 0 \<le> occurrence r j" using occurrence_mono [OF v(1), of 0 j] by (cases "j = 0") simp_all
  qed (simp_all add: v True occurrence_0)
  then show ?thesis using True by (simp add: recurrenceAfter_def)
qed (use next_daily [OF v _ a] next_monthly [OF v _ a] in blast)

lemma next_occurrence:
  assumes "rule_valid isTimeZone r" and "valid_text a" "a < ''9900''"
  shows "\<exists>next. recurrenceAfter r a = Some (Inr next) \<and> next_of r a next"
  using assms by (intro next_after) (simp_all add: rule_valid_def isCalendarDate_iff)

text \<open>C14: The next date of a valid rule after a calendar date before 9900 exists, whatever the frequency: the
  search ends, and its result is the first occurrence of the rule (its anchor plus whole intervals, a monthly one on the last day
  of a short month) later than that date.\<close>

theorem recurrence_is_next:
  assumes "rule_valid isTimeZone r" and "valid_text a" and "a < ''9900''"
  shows "\<exists>next k. recurrenceAfter r a = Some (Inr next) \<and> valid_text next \<and> a < next \<and> 0 \<le> k \<and> text_day next = occurrence r k \<and>
    (\<forall>j \<ge> 0. text_day a < occurrence r j \<longrightarrow> text_day next \<le> occurrence r j)"
  using next_occurrence [OF assms] unfolding next_of_def by metis

definition month_end_rule :: rule where
  "month_end_rule = \<lparr>trigger = None, frequency = MONTHLY, interval = 1, startDate = ''2026-01-31'', timeZone = ''America/Toronto''\<rparr>"

lemma recurrence_is_next_witness:
  "\<exists>next k. recurrenceAfter month_end_rule ''2026-02-28'' = Some (Inr next) \<and> valid_text next \<and> ''2026-02-28'' < next \<and> 0 \<le> k \<and>
      text_day next = occurrence month_end_rule k \<and>
      (\<forall>j \<ge> 0. text_day ''2026-02-28'' < occurrence month_end_rule j \<longrightarrow> text_day next \<le> occurrence month_end_rule j)"
proof -
  have "rule_valid (\<lambda>z. z = ''America/Toronto'') month_end_rule" "valid_text ''2026-02-28''" "''2026-02-28'' < ''9900''" by code_simp+
  from recurrence_is_next [OF this]
  show "\<exists>next k. recurrenceAfter month_end_rule ''2026-02-28'' = Some (Inr next) \<and> valid_text next \<and> ''2026-02-28'' < next \<and> 0 \<le> k \<and>
      text_day next = occurrence month_end_rule k \<and>
      (\<forall>j \<ge> 0. text_day ''2026-02-28'' < occurrence month_end_rule j \<longrightarrow> text_day next \<le> occurrence month_end_rule j)" .
qed

text \<open>The day before a date, and the first occurrence on or after a date.\<close>

lemma first_occurrence:
  assumes r: "rule_valid isTimeZone r" and a: "valid_text a" "''0001-01-01'' \<le> a" "a < ''9900''"
  shows "\<exists>next. firstRecurrenceOnOrAfter r a = Some (Inr next) \<and> valid_text next \<and> a \<le> next \<and>
    (\<exists>k \<ge> 0. text_day next = occurrence r k \<and> (\<forall>j \<ge> 0. text_day a \<le> occurrence r j \<longrightarrow> occurrence r k \<le> occurrence r j))"
proof -
  define t where "t = setUTCDate (text_day a * day_ms) (getUTCDate (text_day a * day_ms) - 1)"
  have u: "utc_day t = text_day a - 1" by (simp add: t_def utc_day_setUTCDate)
  have v1: "valid_text ''0001-01-01''" "text_day ''0001-01-01'' = -719162" by code_simp+
  have "-719162 \<le> text_day a" using a(2) text_less_iff [OF a(1) v1(1)] v1(2) by (simp add: not_less [symmetric])
  then have "year_start 0 \<le> utc_day t" by (simp add: u year_start_eq)
  moreover have "utc_day t < year_start (9999 + 1)" using text_9900 [OF a(1,3)] by (simp add: u year_start_eq)
  ultimately have y: "valid_text (textOf t)" "text_day (textOf t) = text_day a - 1"
    using iso_date_valid [of t] year_from [of 0 t] year_before [of t 9999] u by (simp_all add: textOf_def)
  have "textOf t < a" using text_less_iff [OF y(1) a(1)] y(2) by simp
  then have "textOf t < ''9900''" using a(3) by (rule less_trans)
  then obtain d where d: "recurrenceAfter r (textOf t) = Some (Inr d)" "next_of r (textOf t) d"
    using next_occurrence [OF r y(1)] by blast
  have "firstRecurrenceOnOrAfter r a = Some (Inr d)"
    using d(1) by (simp add: firstRecurrenceOnOrAfter_def dateOf_valid [OF a(1)] t_def)
  moreover have "valid_text d" "textOf t < d"
    "\<exists>k \<ge> 0. text_day d = occurrence r k \<and> (\<forall>j \<ge> 0. text_day a \<le> occurrence r j \<longrightarrow> occurrence r k \<le> occurrence r j)"
    using d(2) y(2) by (auto simp: next_of_def)
  moreover from this have "a \<le> d" using text_less_iff [OF y(1)] text_less_iff [OF _ a(1)] y(2) by (simp add: not_less [symmetric])
  ultimately show ?thesis by blast
qed

end
