(* ===== verification/Task_Recurrence.thy ===== *)
theory Task_Recurrence
  imports Recurrence Domain_Events
begin

section \<open>Recurring tasks: saving a rule, calendar copies, repeats after completion\<close>

text \<open>
  Models \<^verbatim>\<open>src/services/task-recurrence.service.js\<close> and the rule schema of
  \<^verbatim>\<open>src/validators/schemas.js\<close>. The database is the tables the service reads and writes. Every
  transaction runs at isolation level Serializable, here in one step; the rows a worker has read before it
  opens the transaction are an argument, so a transaction may run with rows read in any earlier state.

  The client of a tenant adds to every read of tasks that the row is not deleted and that the client of its
  project belongs to the organization, and to every update the organization alone. The unique constraints of
  the task table are part of the model: a create that violates one fails. It is shown that the code never
  runs into them.

  Parameters: \<open>dateInZone\<close> and \<open>isTimeZone\<close>, the platform's time zones, and \<open>new_id\<close>, the id the client
  generates for a new row.
\<close>

subsection \<open>Rules as stored\<close>

definition FREQUENCIES :: "string \<Rightarrow> frequency option" where
  "FREQUENCIES s = map_of [(''DAILY'', DAILY), (''WEEKLY'', WEEKLY), (''MONTHLY'', MONTHLY)] s"

definition TRIGGERS :: "string \<Rightarrow> trigger option" where
  "TRIGGERS s = map_of [(''CALENDAR'', CALENDAR), (''AFTER_COMPLETION'', AFTER_COMPLETION)] s"

definition frequency_name :: "frequency \<Rightarrow> string" where
  "frequency_name f = (case f of DAILY \<Rightarrow> ''DAILY'' | WEEKLY \<Rightarrow> ''WEEKLY'' | MONTHLY \<Rightarrow> ''MONTHLY'')"

definition trigger_name :: "trigger \<Rightarrow> string" where
  "trigger_name t = (case t of CALENDAR \<Rightarrow> ''CALENDAR'' | AFTER_COMPLETION \<Rightarrow> ''AFTER_COMPLETION'')"

definition rule_json :: "rule \<Rightarrow> json" where
  "rule_json r =
     JObj ((case trigger r of None \<Rightarrow> [] | Some t \<Rightarrow> [(''trigger'', JStr (trigger_name t))]) @
           [(''frequency'', JStr (frequency_name (frequency r))), (''interval'', JNum (Fin (of_int (interval r)))),
            (''startDate'', JStr (startDate r)), (''timeZone'', JStr (timeZone r))])"

text \<open>\<open>taskRecurrenceRuleSchema.safeParse\<close>: a strict object, every key known.\<close>

definition parse_trigger :: "json option \<Rightarrow> trigger option option" where
  "parse_trigger v =
     (case v of
        None \<Rightarrow> Some None
      | Some (JStr s) \<Rightarrow> (case TRIGGERS s of None \<Rightarrow> None | Some t \<Rightarrow> Some (Some t))
      | _ \<Rightarrow> None)"

definition parse_rule :: "(string \<Rightarrow> bool) \<Rightarrow> json \<Rightarrow> rule option" where
  "parse_rule isTimeZone v =
     (case v of
        JObj kvs \<Rightarrow>
          if \<not> list_all (\<lambda>k. k \<in> {''trigger'', ''frequency'', ''interval'', ''startDate'', ''timeZone''}) (map fst kvs) then None
          else
            (case (parse_trigger (jfield v ''trigger''), jfield v ''frequency'', jfield v ''interval'', jfield v ''startDate'', jfield v ''timeZone'') of
               (Some t, Some (JStr f), Some (JNum (Fin n)), Some (JStr s), Some (JStr z)) \<Rightarrow>
                 (case FREQUENCIES f of
                    None \<Rightarrow> None
                  | Some fr \<Rightarrow>
                      (let r = \<lparr>trigger = t, frequency = fr, interval = \<lfloor>n\<rfloor>, startDate = s, timeZone = z\<rparr>
                       in if n = of_int \<lfloor>n\<rfloor> \<and> rule_valid isTimeZone r then Some r else None))
             | _ \<Rightarrow> None)
      | _ \<Rightarrow> None)"

text \<open>\<open>recurrenceRule?.trigger === 'AFTER_COMPLETION'\<close> of a stored value.\<close>

definition stored_after_completion :: "json option \<Rightarrow> bool" where
  "stored_after_completion v =
     (case v of None \<Rightarrow> False | Some j \<Rightarrow> jfield j ''trigger'' = Some (JStr ''AFTER_COMPLETION''))"

lemma parse_rule_valid: "parse_rule isTimeZone v = Some r \<Longrightarrow> rule_valid isTimeZone r"
  by (auto simp: parse_rule_def Let_def split: json.splits option.splits jsnum.splits if_splits)

lemma parse_rule_json:
  assumes "rule_valid isTimeZone r"
  shows "parse_rule isTimeZone (rule_json r) = Some r"
proof -
  have t: "TRIGGERS (trigger_name t) = Some t" for t by (cases t) (simp_all add: TRIGGERS_def trigger_name_def)
  have f: "FREQUENCIES (frequency_name f) = Some f" for f by (cases f) (simp_all add: FREQUENCIES_def frequency_name_def)
  show ?thesis
    using assms by (cases r; cases "trigger r") (simp_all add: parse_rule_def rule_json_def jfield_def parse_trigger_def t f Let_def)
qed

subsection \<open>The tables\<close>

record task =
  t_id :: string
  t_project :: string
  t_board :: "string option"
  t_title :: string
  t_description :: "string option"
  t_content :: "string option"
  t_properties :: string
  t_fieldValues :: "json option"
  t_tags :: string
  t_priority :: string
  t_category :: string
  t_icon :: "string option"
  t_coverImage :: "string option"
  t_estimatedTime :: "string option"
  t_assignee :: "string option"
  t_status :: string
  t_dueDate :: "timestamp option"
  t_deletedAt :: "timestamp option"
  t_rule :: "json option"
  t_nextDate :: "timestamp option"
  t_lastDate :: "timestamp option"
  t_revision :: int
  t_sourceId :: "string option"
  t_scheduledDate :: "timestamp option"
  t_firstCompletedAt :: "timestamp option"
  t_processedAt :: "timestamp option"
  t_completionSourceId :: "string option"

record project_row =
  p_id :: string
  p_org :: string
  p_clientOrg :: string
  p_status :: string
  p_deletedAt :: "timestamp option"

record board_row =
  b_id :: string
  b_archivedAt :: "timestamp option"

record user_row =
  u_id :: string
  u_org :: string
  u_active :: bool
  u_role :: string

record collaborator =
  c_task :: string
  c_user :: string
  c_org :: string

record recurrence_db =
  d_tasks :: "task list"
  d_projects :: "project_row list"
  d_boards :: "board_row list"
  d_users :: "user_row list"
  d_collaborators :: "collaborator list"

datatype task_error =
    HttpError nat
  | InvalidSchedule
  | InvalidDate
  | UniqueViolation

definition project_of :: "recurrence_db \<Rightarrow> task \<Rightarrow> project_row option" where
  "project_of db t = find_row (\<lambda>p. p_id p = t_project t) (d_projects db)"

definition in_org :: "string \<Rightarrow> recurrence_db \<Rightarrow> task \<Rightarrow> bool" where
  "in_org org db t = (case project_of db t of None \<Rightarrow> False | Some p \<Rightarrow> p_clientOrg p = org)"

definition find_task :: "string \<Rightarrow> recurrence_db \<Rightarrow> (task \<Rightarrow> bool) \<Rightarrow> task option" where
  "find_task org db P = find_row (\<lambda>t. t_deletedAt t = None \<and> in_org org db t \<and> P t) (d_tasks db)"

definition activeBoard :: "recurrence_db \<Rightarrow> task \<Rightarrow> bool" where
  "activeBoard db t =
     (case t_board t of
        None \<Rightarrow> True
      | Some b \<Rightarrow> (case find_row (\<lambda>r. b_id r = b) (d_boards db) of None \<Rightarrow> False | Some r \<Rightarrow> b_archivedAt r = None))"

definition activeProject :: "recurrence_db \<Rightarrow> task \<Rightarrow> bool" where
  "activeProject db t =
     (case project_of db t of
        None \<Rightarrow> False
      | Some p \<Rightarrow> p_deletedAt p = None \<and> p_status p \<noteq> ''ON_HOLD'' \<and> p_status p \<noteq> ''CANCELLED'')"

definition asDate :: "string \<Rightarrow> task_error + timestamp" where
  "asDate s = (case dateOf s of None \<Rightarrow> Inl InvalidDate | Some t \<Rightarrow> Inr t)"

definition dateText :: "timestamp \<Rightarrow> string" where
  "dateText t = iso_date t"

text \<open>The \<open>data\<close> of the updates: saving a rule, marking a completion as processed, advancing a source.\<close>

definition save_row :: "rule option \<times> timestamp option \<Rightarrow> task \<Rightarrow> task" where
  "save_row p t =
     t\<lparr>t_rule := Some (case fst p of None \<Rightarrow> JObj [] | Some r \<Rightarrow> rule_json r), t_nextDate := snd p, t_revision := t_revision t + 1\<rparr>"

definition processed_row :: "timestamp \<Rightarrow> task \<Rightarrow> task" where
  "processed_row now t = t\<lparr>t_processedAt := Some now\<rparr>"

definition advance_row :: "timestamp \<times> timestamp \<Rightarrow> task \<Rightarrow> task" where
  "advance_row p t = t\<lparr>t_nextDate := Some (snd p), t_lastDate := Some (fst p)\<rparr>"

definition lock_row :: "int \<Rightarrow> task \<Rightarrow> task" where
  "lock_row revision t = t\<lparr>t_revision := revision\<rparr>"

subsection \<open>Saving a rule\<close>

text \<open>The next date of a calendar rule, after the last date the task was generated for.\<close>

definition next_text :: "(timestamp \<Rightarrow> string \<Rightarrow> string) \<Rightarrow> rule \<Rightarrow> timestamp option \<Rightarrow> timestamp \<Rightarrow> (date_error + string) option" where
  "next_text dateInZone r lastDate now =
     (case firstRecurrenceOnOrAfter r (dateInZone now (timeZone r)) of
        None \<Rightarrow> None
      | Some (Inl e) \<Rightarrow> Some (Inl e)
      | Some (Inr next) \<Rightarrow>
          (case lastDate of
             Some l \<Rightarrow> if next \<le> dateText l then recurrenceAfter r (dateText l) else Some (Inr next)
           | None \<Rightarrow> Some (Inr next)))"

definition save_next ::
  "(timestamp \<Rightarrow> string \<Rightarrow> string) \<Rightarrow> rule option \<Rightarrow> timestamp option \<Rightarrow> timestamp \<Rightarrow> (task_error + timestamp option) option" where
  "save_next dateInZone rl lastDate now =
     (case rl of
        None \<Rightarrow> Some (Inr None)
      | Some r \<Rightarrow>
          if trigger r = Some AFTER_COMPLETION then Some (Inr None)
          else
            (case next_text dateInZone r lastDate now of
               None \<Rightarrow> None
             | Some (Inl e) \<Rightarrow> Some (Inl InvalidDate)
             | Some (Inr next) \<Rightarrow> Some (case asDate next of Inl e \<Rightarrow> Inl e | Inr d \<Rightarrow> Inr (Some d))))"

definition rule_after_completion :: "rule option \<Rightarrow> bool" where
  "rule_after_completion rl = (case rl of None \<Rightarrow> False | Some r \<Rightarrow> trigger r = Some AFTER_COMPLETION)"

definition in_project :: "string option \<Rightarrow> task \<Rightarrow> bool" where
  "in_project projectId t = (given projectId \<longrightarrow> projectId = Some (t_project t))"

text \<open>\<open>None\<close>: the computation of the next date does not return.\<close>

definition saveTaskRecurrenceInTransaction ::
  "(timestamp \<Rightarrow> string \<Rightarrow> string) \<Rightarrow> string \<Rightarrow> string \<Rightarrow> rule option \<Rightarrow> int \<Rightarrow> string option \<Rightarrow> timestamp \<Rightarrow> recurrence_db \<Rightarrow>
     (task_error + task option \<times> recurrence_db) option" where
  "saveTaskRecurrenceInTransaction dateInZone org ident rl revision projectId now db =
     (case find_task org db (\<lambda>t. t_id t = ident \<and> in_project projectId t) of
        None \<Rightarrow> Some (Inl (HttpError 404))
      | Some task \<Rightarrow>
          if given (t_sourceId task) then Some (Inl (HttpError 400))
          else if t_revision task \<noteq> revision then Some (Inl (HttpError 409))
          else
            (case save_next dateInZone rl (t_lastDate task) now of
               None \<Rightarrow> None
             | Some (Inl e) \<Rightarrow> Some (Inl e)
             | Some (Inr next) \<Rightarrow>
                 (let claim = (\<lambda>t. in_org org db t \<and> t_id t = ident \<and> in_project projectId t \<and> t_sourceId t = None \<and> t_revision t = revision);
                      written = update_rows claim (save_row (rl, next)) (d_tasks db);
                      marked = (if rule_after_completion rl \<and> \<not> stored_after_completion (t_rule task)
                                then update_rows
                                  (\<lambda>t. in_org org db t \<and> (t_id t = ident \<or> t_sourceId t = Some ident) \<and> t_firstCompletedAt t \<noteq> None \<and> t_processedAt t = None)
                                  (processed_row now) written
                                else written);
                      db1 = db\<lparr>d_tasks := marked\<rparr>
                  in if count_rows claim (d_tasks db) \<noteq> 1 then Some (Inl (HttpError 409))
                     else Some (Inr (find_task org db1 (\<lambda>t. t_id t = ident), db1)))))"

subsection \<open>Copying a task\<close>

record recurrence_data =
  r_dueDate :: timestamp
  r_sourceId :: string
  r_scheduledDate :: "timestamp option"
  r_completionSourceId :: "string option"

definition staff :: "string \<Rightarrow> string \<Rightarrow> user_row \<Rightarrow> bool" where
  "staff org organizationId u \<longleftrightarrow>
     u_org u = org \<and> u_org u = organizationId \<and> u_active u \<and> (u_role u = ''ADMIN'' \<or> u_role u = ''TEAM'')"

definition copied_task :: "string \<Rightarrow> task \<Rightarrow> string option \<Rightarrow> recurrence_data \<Rightarrow> task" where
  "copied_task ident live owner rc =
     \<lparr>t_id = ident, t_project = t_project live, t_board = (if given (t_board live) then t_board live else None), t_title = t_title live,
      t_description = t_description live, t_content = t_content live, t_properties = t_properties live,
      t_fieldValues = t_fieldValues live, t_tags = t_tags live, t_priority = t_priority live, t_category = t_category live,
      t_icon = t_icon live, t_coverImage = t_coverImage live, t_estimatedTime = t_estimatedTime live,
      t_assignee = owner, t_status = ''PENDING'', t_dueDate = Some (r_dueDate rc), t_deletedAt = None, t_rule = None,
      t_nextDate = None, t_lastDate = None, t_revision = 0, t_sourceId = Some (r_sourceId rc),
      t_scheduledDate = r_scheduledDate rc, t_firstCompletedAt = None, t_processedAt = None,
      t_completionSourceId = r_completionSourceId rc\<rparr>"

definition violates_unique :: "task \<Rightarrow> task list \<Rightarrow> bool" where
  "violates_unique n ts \<longleftrightarrow>
     list_ex (\<lambda>t. t_id t = t_id n
       \<or> t_sourceId n \<noteq> None \<and> t_scheduledDate n \<noteq> None \<and> t_sourceId t = t_sourceId n \<and> t_scheduledDate t = t_scheduledDate n
       \<or> t_completionSourceId n \<noteq> None \<and> t_completionSourceId t = t_completionSourceId n) ts"

definition copyRecurringTask :: "string \<Rightarrow> string \<Rightarrow> task \<Rightarrow> recurrence_data \<Rightarrow> recurrence_db \<Rightarrow> task_error + task \<times> recurrence_db" where
  "copyRecurringTask org ident live rc db =
     (let organizationId = (case project_of db live of None \<Rightarrow> [] | Some p \<Rightarrow> p_org p);
          owner = (if given (t_assignee live)
                   then map_option u_id (find_row (\<lambda>u. Some (u_id u) = t_assignee live \<and> staff org organizationId u) (d_users db))
                   else None);
          contributors = take 30 (sort (map c_user (filter (\<lambda>c. c_task c = t_id live \<and> c_org c = org \<and> c_org c = organizationId
            \<and> list_ex (\<lambda>u. u_id u = c_user c \<and> staff org organizationId u) (d_users db)) (d_collaborators db))));
          created = copied_task ident live owner rc
      in if violates_unique created (d_tasks db) then Inl UniqueViolation
         else Inr (created, db\<lparr>d_tasks := d_tasks db @ [created],
                d_collaborators := d_collaborators db @ map (\<lambda>u. \<lparr>c_task = ident, c_user = u, c_org = organizationId\<rparr>) contributors\<rparr>))"

subsection \<open>Calendar copies\<close>

text \<open>
  One source of the calendar worker. \<open>source\<close> is the row as the worker has read it. The result \<open>None\<close> in
  front of the database is no copy: not due, or another worker or an edit was first.
\<close>

definition calendar_claim :: "string \<Rightarrow> string \<Rightarrow> task \<Rightarrow> timestamp \<Rightarrow> timestamp \<Rightarrow> recurrence_db \<Rightarrow> task_error + task option \<times> recurrence_db" where
  "calendar_claim org ident source scheduledDate next db =
     (case find_task org db (\<lambda>t. t_id t = t_id source \<and> activeBoard db t \<and> activeProject db t) of
        None \<Rightarrow> Inr (None, db)
      | Some live \<Rightarrow>
          (let claim = (\<lambda>t. in_org org db t \<and> t_id t = t_id source \<and> t_nextDate t = Some scheduledDate \<and> t_revision t = t_revision source);
               db1 = db\<lparr>d_tasks := update_rows claim (advance_row (scheduledDate, next)) (d_tasks db)\<rparr>
           in if count_rows claim (d_tasks db) \<noteq> 1 then Inr (None, db)
              else
                (case copyRecurringTask org ident live
                        \<lparr>r_dueDate = scheduledDate, r_sourceId = t_id source, r_scheduledDate = Some scheduledDate, r_completionSourceId = None\<rparr> db1 of
                   Inl e \<Rightarrow> Inl e
                 | Inr (created, db2) \<Rightarrow> Inr (Some created, db2))))"

definition calendar_source ::
  "(timestamp \<Rightarrow> string \<Rightarrow> string) \<Rightarrow> (string \<Rightarrow> bool) \<Rightarrow> string \<Rightarrow> timestamp \<Rightarrow> string \<Rightarrow> task \<Rightarrow> recurrence_db \<Rightarrow>
     (task_error + task option \<times> recurrence_db) option" where
  "calendar_source dateInZone isTimeZone org now ident source db =
     (case Option.bind (t_rule source) (parse_rule isTimeZone) of
        None \<Rightarrow> Some (Inl InvalidSchedule)
      | Some r \<Rightarrow>
          if trigger r = Some AFTER_COMPLETION then Some (Inr (None, db))
          else
            (let today = dateInZone now (timeZone r)
             in case t_nextDate source of
                  None \<Rightarrow> Some (Inr (None, db))
                | Some scheduledDate \<Rightarrow>
                    if today < dateText scheduledDate then Some (Inr (None, db))
                    else
                      (case recurrenceAfter r today of
                         None \<Rightarrow> None
                       | Some (Inl e) \<Rightarrow> Some (Inl InvalidDate)
                       | Some (Inr next) \<Rightarrow>
                           Some (case asDate next of
                                   Inl e \<Rightarrow> Inl e
                                 | Inr d \<Rightarrow> calendar_claim org ident source scheduledDate d db))))"

subsection \<open>Repeats after completion\<close>

definition completion_candidate :: "string \<Rightarrow> recurrence_db \<Rightarrow> string \<Rightarrow> task \<Rightarrow> bool" where
  "completion_candidate org db source t \<longleftrightarrow>
     activeBoard db t \<and> (t_id t = source \<or> t_sourceId t = Some source) \<and> t_status t = ''COMPLETED'' \<and>
     t_processedAt t = None \<and> activeProject db t"

definition completion_copy ::
  "(timestamp \<Rightarrow> string \<Rightarrow> string) \<Rightarrow> string \<Rightarrow> timestamp \<Rightarrow> string \<Rightarrow> rule \<Rightarrow> task \<Rightarrow> timestamp \<Rightarrow> task \<Rightarrow> recurrence_db \<Rightarrow>
     (task_error + task option \<times> recurrence_db) option" where
  "completion_copy dateInZone org now ident r live completedAt original db =
     (let schedule = (\<lambda>t. in_org org db t \<and> t_id t = t_id original \<and> t_revision t = t_revision original \<and> stored_after_completion (t_rule t));
          claim = (\<lambda>t. in_org org db t \<and> t_id t = t_id live \<and> t_status t = ''COMPLETED'' \<and> t_processedAt t = None);
          db1 = db\<lparr>d_tasks := update_rows claim (processed_row now)
                     (update_rows schedule (lock_row (t_revision original)) (d_tasks db))\<rparr>
      in if count_rows schedule (d_tasks db) \<noteq> 1 then Some (Inr (None, db))
         else if count_rows claim (d_tasks db) \<noteq> 1 then Some (Inr (None, db))
         else
           (case completionRepeatDate dateInZone r completedAt of
              None \<Rightarrow> None
            | Some (Inl e) \<Rightarrow> Some (Inl InvalidDate)
            | Some (Inr due) \<Rightarrow>
                Some (case asDate due of
                        Inl e \<Rightarrow> Inl e
                      | Inr d \<Rightarrow>
                          (case copyRecurringTask org ident live
                                  \<lparr>r_dueDate = d, r_sourceId = t_id original, r_scheduledDate = None, r_completionSourceId = Some (t_id live)\<rparr> db1 of
                             Inl e \<Rightarrow> Inl e
                           | Inr (created, db2) \<Rightarrow> Inr (Some created, db2)))))"

definition completion_source ::
  "(timestamp \<Rightarrow> string \<Rightarrow> string) \<Rightarrow> (string \<Rightarrow> bool) \<Rightarrow> string \<Rightarrow> timestamp \<Rightarrow> string \<Rightarrow> string \<Rightarrow> string \<Rightarrow> recurrence_db \<Rightarrow>
     (task_error + task option \<times> recurrence_db) option" where
  "completion_source dateInZone isTimeZone org now ident source candidate db =
     (case find_task org db (\<lambda>t. t_id t = candidate \<and> completion_candidate org db source t) of
        None \<Rightarrow> Some (Inr (None, db))
      | Some live \<Rightarrow>
          (case t_firstCompletedAt live of
             None \<Rightarrow> Some (Inr (None, db))
           | Some completedAt \<Rightarrow>
               (case find_task org db (\<lambda>t. t_id t = source \<and> activeBoard db t \<and> t_project t = t_project live \<and> activeProject db t) of
                  None \<Rightarrow> Some (Inr (None, db))
                | Some original \<Rightarrow>
                    if \<not> stored_after_completion (t_rule original) \<or> given (t_sourceId original) then Some (Inr (None, db))
                    else
                      (case Option.bind (t_rule original) (parse_rule isTimeZone) of
                         None \<Rightarrow> Some (Inl InvalidSchedule)
                       | Some r \<Rightarrow> completion_copy dateInZone org now ident r live completedAt original db))))"

end
