(* ===== verification/Task_Occurrences.thy ===== *)
theory Task_Occurrences
  imports Task_Recurrence
begin

section \<open>Recurring tasks: every occurrence once\<close>

text \<open>
  The properties of the recurrence service. The steps of the system are the transactions of the service, with
  rows read in any state before them, and everything else that writes tasks: edits that leave the recurrence
  columns alone, new tasks, changes of projects, boards, users and collaborators. The invariant says that a
  source never goes back: its last date is below its next date, and every copy it has made is dated at or
  below its last date.

  The locale \<open>zone_clock\<close> is the contract of the platform's time zones: the date of a time in a zone is the
  text of an existing date. The UTC zone of the theory Calendar satisfies it.
\<close>

subsection \<open>The time zones\<close>

definition clock_ok :: "timestamp \<Rightarrow> bool" where
  "clock_ok now \<longleftrightarrow> 1000 \<le> getUTCFullYear now \<and> getUTCFullYear now \<le> 9000"

locale zone_clock =
  fixes dateInZone :: "timestamp \<Rightarrow> string \<Rightarrow> string" and isTimeZone :: "string \<Rightarrow> bool"
  assumes zone_date: "isTimeZone tz \<Longrightarrow> clock_ok now \<Longrightarrow>
    valid_text (dateInZone now tz) \<and> ''0001-01-01'' \<le> dateInZone now tz \<and> dateInZone now tz < ''9900''"

definition utc_date :: "timestamp \<Rightarrow> string \<Rightarrow> string" where
  "utc_date now tz = iso_date now"

definition utc_zone :: "string \<Rightarrow> bool" where
  "utc_zone tz \<longleftrightarrow> tz = ''UTC''"

lemma utc_date_bounds:
  assumes "clock_ok now"
  shows "valid_text (utc_date now tz)" and "''0001-01-01'' \<le> utc_date now tz" and "utc_date now tz < ''9900''"
proof -
  have y: "1000 \<le> getUTCFullYear now" "getUTCFullYear now \<le> 9000" using assms by (simp_all add: clock_ok_def)
  show v: "valid_text (utc_date now tz)" using iso_date_valid [of now] y by (simp add: utc_date_def)
  have d: "text_day (utc_date now tz) = utc_day now" using iso_date_valid [of now] y by (simp add: utc_date_def)
  have "year_start (999 + 1) \<le> year_start (getUTCFullYear now)" "year_start (getUTCFullYear now + 1) \<le> year_start 9002"
    by (rule year_start_less, use y in linarith)+
  then have s: "year_start 1000 \<le> utc_day now" "utc_day now < year_start 9002" using in_year [of now] by simp_all
  have b: "-719162 < utc_day now" "utc_day now < 2896007"
    using s by (simp_all add: year_start_eq)
  have "valid_text ''0001-01-01''" "text_day ''0001-01-01'' = -719162" by code_simp+
  then show "''0001-01-01'' \<le> utc_date now tz" using text_less_iff [OF v, of "''0001-01-01''"] b d by (simp add: not_less [symmetric])
  have n: "valid_text ''9899-01-01''" "text_day ''9899-01-01'' = 2896008" by code_simp+
  then have "utc_date now tz < ''9899-01-01''" using text_less_iff [OF v n(1)] b d by simp
  also have "\<dots> < ''9900''" by code_simp
  finally show "utc_date now tz < ''9900''" .
qed

interpretation utc: zone_clock utc_date utc_zone
  by unfold_locales (simp add: utc_date_bounds)

subsection \<open>Dates of rows\<close>

definition date_ok :: "timestamp \<Rightarrow> bool" where
  "date_ok d \<longleftrightarrow> d mod day_ms = 0 \<and> 0 \<le> getUTCFullYear d \<and> getUTCFullYear d \<le> 9999"

lemma date_ok_text: "date_ok d \<Longrightarrow> valid_text (dateText d)" "date_ok d \<Longrightarrow> text_day (dateText d) = utc_day d"
  using iso_date_valid by (simp_all add: date_ok_def dateText_def)

lemma date_ok_less: "date_ok a \<Longrightarrow> date_ok b \<Longrightarrow> dateText a < dateText b \<longleftrightarrow> a < b"
proof -
  assume a: "date_ok a" "date_ok b"
  then have "a < b \<longleftrightarrow> utc_day a < utc_day b"
    using midnight [of a] midnight [of b] by (metis date_ok_def mult_less_cancel_right_pos day_ms_pos(1))
  then show ?thesis using a by (simp add: text_less_iff date_ok_text)
qed

lemma asDate_valid:
  assumes "valid_text s"
  shows "asDate s = Inr (text_day s * day_ms)" and "date_ok (text_day s * day_ms)" and "dateText (text_day s * day_ms) = s"
proof -
  show "asDate s = Inr (text_day s * day_ms)" by (simp add: asDate_def dateOf_valid [OF assms])
  show "dateText (text_day s * day_ms) = s" by (simp add: dateText_def iso_date_of_text [OF assms])
  obtain y m d where p: "valid_parts y m d" "text_day s = day_number y m d" "0 \<le> y" "y \<le> 9999" using assms by (rule valid_textE)
  then show "date_ok (text_day s * day_ms)" by (simp add: date_ok_def getUTCFullYear_def civil_day_number)
qed

lemma asDate_less:
  assumes "valid_text s" and "asDate s = Inr d" and "date_ok l"
  shows "date_ok d" and "dateText l < s \<longleftrightarrow> l < d" and "dateText d = s"
  using asDate_valid [OF assms(1)] assms(2,3) date_ok_less [of l d] by auto

subsection \<open>The invariant of the task table\<close>

definition dates_ok :: "task \<Rightarrow> bool" where
  "dates_ok t \<longleftrightarrow>
     (\<forall>l. t_lastDate t = Some l \<longrightarrow> date_ok l \<and> dateText l < ''9900'') \<and>
     (\<forall>n. t_nextDate t = Some n \<longrightarrow> date_ok n \<and> (\<forall>l. t_lastDate t = Some l \<longrightarrow> l < n))"

text \<open>A copy for a date of its source: the source has been advanced to that date or beyond.\<close>

definition covered :: "task \<Rightarrow> task \<Rightarrow> bool" where
  "covered i s \<longleftrightarrow>
     (t_sourceId i = Some (t_id s) \<longrightarrow> (\<forall>d. t_scheduledDate i = Some d \<longrightarrow> (\<exists>l. t_lastDate s = Some l \<and> d \<le> l))) \<and>
     (t_completionSourceId i = Some (t_id s) \<longrightarrow> t_processedAt s \<noteq> None)"

definition parents_known :: "task list \<Rightarrow> task \<Rightarrow> bool" where
  "parents_known ts i \<longleftrightarrow>
     (\<forall>s. t_sourceId i = Some s \<longrightarrow> s \<in> t_id ` set ts) \<and> (\<forall>c. t_completionSourceId i = Some c \<longrightarrow> c \<in> t_id ` set ts)"

text \<open>Two rows for the same date of a source, or for the same completed task.\<close>

definition same_occurrence :: "task \<Rightarrow> task \<Rightarrow> bool" where
  "same_occurrence i j \<longleftrightarrow>
     t_sourceId i \<noteq> None \<and> t_sourceId i = t_sourceId j \<and> t_scheduledDate i \<noteq> None \<and> t_scheduledDate i = t_scheduledDate j \<or>
     t_completionSourceId i \<noteq> None \<and> t_completionSourceId i = t_completionSourceId j"

definition rows_ok :: "task list \<Rightarrow> bool" where
  "rows_ok ts \<longleftrightarrow>
     distinct (map t_id ts) \<and> (\<forall>t \<in> set ts. dates_ok t \<and> parents_known ts t) \<and>
     (\<forall>i \<in> set ts. \<forall>s \<in> set ts. covered i s) \<and>
     (\<forall>i \<in> set ts. \<forall>j \<in> set ts. same_occurrence i j \<longrightarrow> i = j)"

text \<open>
  The contract of an update: it keeps the identity of a row, keeps its dates in order and never takes back a
  last date or a processed mark.
\<close>

locale recurrence_update =
  fixes upd :: "'p \<Rightarrow> task \<Rightarrow> task" and legal :: "'p \<Rightarrow> task \<Rightarrow> bool"
  assumes same_row: "t_id (upd p t) = t_id t" "t_sourceId (upd p t) = t_sourceId t"
      "t_scheduledDate (upd p t) = t_scheduledDate t" "t_completionSourceId (upd p t) = t_completionSourceId t"
    and dates_kept: "legal p t \<Longrightarrow> dates_ok t \<Longrightarrow> dates_ok (upd p t)"
    and last_kept: "legal p t \<Longrightarrow> dates_ok t \<Longrightarrow> t_lastDate t = Some l \<Longrightarrow> \<exists>l'. t_lastDate (upd p t) = Some l' \<and> l \<le> l'"
    and processed_kept: "t_processedAt t \<noteq> None \<Longrightarrow> t_processedAt (upd p t) \<noteq> None"
begin

lemma ids_updated: "t_id ` set (update_rows P (upd p) ts) = t_id ` set ts"
proof -
  have "map t_id (update_rows P (upd p) ts) = map t_id ts" by (simp add: update_rows_def same_row)
  then show ?thesis by (metis set_map)
qed

lemma rows_updated:
  assumes ok: "rows_ok ts" and legal: "\<And>t. t \<in> set ts \<Longrightarrow> P t \<Longrightarrow> legal p t"
  shows "rows_ok (update_rows P (upd p) ts)"
proof -
  let ?g = "\<lambda>t. if P t then upd p t else t"
  have g: "t_id (?g t) = t_id t" "t_sourceId (?g t) = t_sourceId t" "t_scheduledDate (?g t) = t_scheduledDate t"
    "t_completionSourceId (?g t) = t_completionSourceId t" for t
    by (simp_all add: same_row)
  have s: "set (update_rows P (upd p) ts) = ?g ` set ts" by (simp add: update_rows_def)
  have ids: "map t_id (update_rows P (upd p) ts) = map t_id ts"
    by (simp add: update_rows_def g)
  have idset: "t_id ` ?g ` set ts = t_id ` set ts" by (simp only: image_image g)
  have d: "dates_ok (?g t)" "parents_known (update_rows P (upd p) ts) (?g t)" if t: "t \<in> set ts" for t
  proof -
    have "dates_ok t" "parents_known ts t" using t ok by (simp_all add: rows_ok_def)
    then show "dates_ok (?g t)" "parents_known (update_rows P (upd p) ts) (?g t)"
      using legal [OF t] dates_kept [of p t] unfolding parents_known_def s idset g by auto
  qed
  have c: "covered (?g i) (?g t)" if i: "i \<in> set ts" "t \<in> set ts" for i t
  proof -
    have "covered i t" "dates_ok t" using i ok by (simp_all add: rows_ok_def)
    then show ?thesis
      using last_kept [of p t] processed_kept [of t p] legal [OF i(2)] unfolding covered_def g
      by (cases "P t") (simp, meson order_trans, simp)
  qed
  have u: "?g i = ?g j" if "i \<in> set ts" "j \<in> set ts" "same_occurrence (?g i) (?g j)" for i j
  proof -
    have "same_occurrence i j" using that(3) by (simp add: same_occurrence_def g)
    then have "i = j" using that ok unfolding rows_ok_def by blast
    then show ?thesis by simp
  qed
  show ?thesis
    using ok d c u unfolding rows_ok_def ids s Set.ball_simps(9) by blast
qed

end

interpretation saving: recurrence_update save_row "\<lambda>p t. \<forall>n. snd p = Some n \<longrightarrow> date_ok n \<and> (\<forall>l. t_lastDate t = Some l \<longrightarrow> l < n)"
  by unfold_locales (auto simp: save_row_def dates_ok_def)

interpretation processing: recurrence_update processed_row "\<lambda>p t. True"
  by unfold_locales (auto simp: processed_row_def dates_ok_def)

interpretation locking: recurrence_update lock_row "\<lambda>p t. True"
  by unfold_locales (auto simp: lock_row_def dates_ok_def)

text \<open>Any other write to a task: every column may change but the recurrence columns.\<close>

definition edit_row :: "task \<Rightarrow> task \<Rightarrow> task" where
  "edit_row e t =
     e\<lparr>t_id := t_id t, t_rule := t_rule t, t_nextDate := t_nextDate t, t_lastDate := t_lastDate t, t_revision := t_revision t,
       t_sourceId := t_sourceId t, t_scheduledDate := t_scheduledDate t, t_processedAt := t_processedAt t,
       t_completionSourceId := t_completionSourceId t\<rparr>"

interpretation editing: recurrence_update edit_row "\<lambda>p t. True"
  by unfold_locales (auto simp: edit_row_def dates_ok_def)

interpretation advancing: recurrence_update advance_row
  "\<lambda>p t. t_nextDate t = Some (fst p) \<and> date_ok (snd p) \<and> fst p < snd p \<and> dateText (fst p) < ''9900''"
  by unfold_locales (auto simp: advance_row_def dates_ok_def less_imp_le)

text \<open>A new row.\<close>

lemma rows_appended:
  assumes ok: "rows_ok ts" and n: "t_id n \<notin> t_id ` set ts" "dates_ok n" "parents_known ts n"
    and c: "\<And>s. s \<in> set ts \<Longrightarrow> covered n s" and u: "\<And>j. j \<in> set ts \<Longrightarrow> \<not> same_occurrence n j"
  shows "rows_ok (ts @ [n])"
proof -
  have known: "parents_known (ts @ [n]) t" if "parents_known ts t" for t using that by (auto simp: parents_known_def)
  have other: "covered i n" if "parents_known ts i" for i using that n(1) by (auto simp: parents_known_def covered_def)
  have u': "\<not> same_occurrence j n" if "j \<in> set ts" for j using u [OF that] by (auto simp: same_occurrence_def)
  show ?thesis using ok n c u u' known other unfolding rows_ok_def by auto
qed

lemma row_by_id: "rows_ok ts \<Longrightarrow> s \<in> set ts \<Longrightarrow> t \<in> set ts \<Longrightarrow> t_id s = t_id t \<Longrightarrow> s = t"
  by (metis rows_ok_def distinct_map inj_onD)

lemma claimed_task: "count_rows P ts = 1 \<Longrightarrow> \<exists>t \<in> set ts. P t"
  using count_rows_0_iff [of P ts] by auto

lemma violates_unique_iff: "violates_unique n ts \<longleftrightarrow> t_id n \<in> t_id ` set ts \<or> (\<exists>t \<in> set ts. same_occurrence n t)"
proof -
  have "violates_unique n ts \<longleftrightarrow> (\<exists>t \<in> set ts. t_id t = t_id n \<or> same_occurrence n t)"
    unfolding violates_unique_def list_ex_iff same_occurrence_def by (rule bex_cong [OF refl]) auto
  also have "\<dots> \<longleftrightarrow> t_id n \<in> t_id ` set ts \<or> (\<exists>t \<in> set ts. same_occurrence n t)" by (auto simp: image_iff) metis
  finally show ?thesis .
qed

lemma find_task_SomeD: "find_task org db P = Some t \<Longrightarrow> t \<in> set (d_tasks db) \<and> P t"
  by (auto simp: find_task_def dest: find_row_SomeD)

text \<open>Creating a copy that is covered and of no occurrence yet.\<close>

lemma copy_created:
  assumes ok: "rows_ok (d_tasks db)" and fresh: "ident \<notin> t_id ` set (d_tasks db)"
    and known: "r_sourceId rc \<in> t_id ` set (d_tasks db)" "\<And>c. r_completionSourceId rc = Some c \<Longrightarrow> c \<in> t_id ` set (d_tasks db)"
    and cov: "\<And>s owner. s \<in> set (d_tasks db) \<Longrightarrow> covered (copied_task ident live owner rc) s"
    and new: "\<And>j owner. j \<in> set (d_tasks db) \<Longrightarrow> \<not> same_occurrence (copied_task ident live owner rc) j"
  shows "\<exists>c db'. copyRecurringTask org ident live rc db = Inr (c, db') \<and> (\<exists>owner. c = copied_task ident live owner rc) \<and>
    d_tasks db' = d_tasks db @ [c] \<and> rows_ok (d_tasks db') \<and> d_projects db' = d_projects db \<and> d_boards db' = d_boards db"
proof -
  have id: "t_id (copied_task ident live owner rc) = ident" for owner by (simp add: copied_task_def)
  have "\<not> violates_unique (copied_task ident live owner rc) (d_tasks db)" for owner
    using fresh new by (auto simp: violates_unique_iff id)
  moreover have "rows_ok (d_tasks db @ [copied_task ident live owner rc])" for owner
    using ok fresh known cov new
    by (intro rows_appended) (auto simp: id dates_ok_def parents_known_def copied_task_def)
  ultimately show ?thesis unfolding copyRecurringTask_def Let_def by auto
qed

lemma calendar_claim_ok:
  assumes ok: "rows_ok (d_tasks db)" and fresh: "ident \<notin> t_id ` set (d_tasks db)"
    and dates: "date_ok next" "d < next" "dateText d < ''9900''"
  shows "calendar_claim org ident source d next db = Inr (None, db) \<or>
    (\<exists>c db' live owner. calendar_claim org ident source d next db = Inr (Some c, db') \<and> rows_ok (d_tasks db') \<and>
       c = copied_task ident live owner \<lparr>r_dueDate = d, r_sourceId = t_id source, r_scheduledDate = Some d, r_completionSourceId = None\<rparr> \<and>
       d_tasks db' = update_rows (\<lambda>t. in_org org db t \<and> t_id t = t_id source \<and> t_nextDate t = Some d \<and> t_revision t = t_revision source)
         (advance_row (d, next)) (d_tasks db) @ [c] \<and> d_projects db' = d_projects db \<and> d_boards db' = d_boards db)"
proof (cases "find_task org db (\<lambda>t. t_id t = t_id source \<and> activeBoard db t \<and> activeProject db t)")
  case (Some live)
  let ?P = "\<lambda>t. in_org org db t \<and> t_id t = t_id source \<and> t_nextDate t = Some d \<and> t_revision t = t_revision source"
  let ?u = "advance_row (d, next)"
  let ?db1 = "db\<lparr>d_tasks := update_rows ?P ?u (d_tasks db)\<rparr>"
  let ?rc = "\<lparr>r_dueDate = d, r_sourceId = t_id source, r_scheduledDate = Some d, r_completionSourceId = None\<rparr>"
  show ?thesis
  proof (cases "count_rows ?P (d_tasks db) = 1")
    case True
    then obtain s where s: "s \<in> set (d_tasks db)" "?P s" using claimed_task by blast
    have ok1: "rows_ok (d_tasks ?db1)" using ok dates by (auto intro!: advancing.rows_updated)
    have ids: "t_id ` set (d_tasks ?db1) = t_id ` set (d_tasks db)"
      by (simp add: advancing.ids_updated)
    have at_id: "t \<in> set (d_tasks ?db1) \<Longrightarrow> t_id t = t_id source \<Longrightarrow> t = ?u s" for t
      using row_by_id [OF ok _ s(1)] s(2) by (auto simp: update_rows_def advance_row_def split: if_splits)
    have cov: "covered (copied_task ident live owner ?rc) t" if "t \<in> set (d_tasks ?db1)" for t owner
      using at_id [OF that] by (auto simp: covered_def copied_task_def advance_row_def)
    have new: "\<not> same_occurrence (copied_task ident live owner ?rc) j" if j: "j \<in> set (d_tasks ?db1)" for j owner
    proof
      assume "same_occurrence (copied_task ident live owner ?rc) j"
      then have sj: "t_sourceId j = Some (t_id s)" "t_scheduledDate j = Some d" using s(2) by (auto simp: same_occurrence_def copied_task_def)
      obtain j0 where j0: "j0 \<in> set (d_tasks db)" "t_sourceId j0 = Some (t_id s)" "t_scheduledDate j0 = Some d"
        using j sj by (auto simp: update_rows_def advance_row_def split: if_splits)
      then obtain l where "t_lastDate s = Some l" "d \<le> l" using ok s(1) unfolding rows_ok_def covered_def by meson
      moreover have "dates_ok s" using ok s(1) by (simp add: rows_ok_def)
      ultimately show False using s(2) by (auto simp: dates_ok_def)
    qed
    have "\<exists>c db'. copyRecurringTask org ident live ?rc ?db1 = Inr (c, db') \<and> (\<exists>owner. c = copied_task ident live owner ?rc) \<and>
        d_tasks db' = d_tasks ?db1 @ [c] \<and> rows_ok (d_tasks db') \<and> d_projects db' = d_projects ?db1 \<and> d_boards db' = d_boards ?db1"
    proof (rule copy_created [OF ok1])
      show "ident \<notin> t_id ` set (d_tasks ?db1)" using fresh unfolding ids .
      show "r_sourceId ?rc \<in> t_id ` set (d_tasks ?db1)" unfolding ids using s by (metis image_eqI recurrence_data.select_convs(2))
    qed (use cov new in auto)
    then obtain c db' owner where c: "copyRecurringTask org ident live ?rc ?db1 = Inr (c, db')"
      "c = copied_task ident live owner ?rc" "rows_ok (d_tasks db')" "d_tasks db' = d_tasks ?db1 @ [c]"
      "d_projects db' = d_projects ?db1" "d_boards db' = d_boards ?db1" by blast
    then have "calendar_claim org ident source d next db = Inr (Some c, db')"
      using Some True by (simp add: calendar_claim_def Let_def)
    then show ?thesis using c(2-6) by auto
  qed (simp add: calendar_claim_def Some Let_def)
qed (simp add: calendar_claim_def)

lemma completion_copy_ok:
  assumes ok: "rows_ok (d_tasks db)" and fresh: "ident \<notin> t_id ` set (d_tasks db)"
  shows "completion_copy dateInZone org now ident r live completedAt original db \<noteq> Some (Inl UniqueViolation) \<and>
    (\<forall>v db'. completion_copy dateInZone org now ident r live completedAt original db = Some (Inr (v, db')) \<longrightarrow>
       v = None \<and> db' = db \<or>
       (\<exists>c. v = Some c \<and> rows_ok (d_tasks db') \<and> t_id c = ident \<and> t_sourceId c = Some (t_id original) \<and> t_status c = ''PENDING'' \<and> t_firstCompletedAt c = None \<and>
          t_rule c = None \<and> d_projects db' = d_projects db \<and> d_boards db' = d_boards db \<and>
          d_tasks db' = update_rows (\<lambda>t. in_org org db t \<and> t_id t = t_id live \<and> t_status t = ''COMPLETED'' \<and> t_processedAt t = None) (processed_row now)
            (update_rows (\<lambda>t. in_org org db t \<and> t_id t = t_id original \<and> t_revision t = t_revision original \<and> stored_after_completion (t_rule t))
              (lock_row (t_revision original)) (d_tasks db)) @ [c]))"
proof -
  let ?S = "\<lambda>t. in_org org db t \<and> t_id t = t_id original \<and> t_revision t = t_revision original \<and> stored_after_completion (t_rule t)"
  let ?C = "\<lambda>t. in_org org db t \<and> t_id t = t_id live \<and> t_status t = ''COMPLETED'' \<and> t_processedAt t = None"
  let ?ts1 = "update_rows ?S (lock_row (t_revision original)) (d_tasks db)"
  let ?db1 = "db\<lparr>d_tasks := update_rows ?C (processed_row now) ?ts1\<rparr>"
  let ?rc = "\<lambda>d. \<lparr>r_dueDate = d, r_sourceId = t_id original, r_scheduledDate = None, r_completionSourceId = Some (t_id live)\<rparr>"
  show ?thesis
  proof (cases "count_rows ?S (d_tasks db) = 1 \<and> count_rows ?C (d_tasks db) = 1")
    case True
    then obtain s l where s: "s \<in> set (d_tasks db)" "?S s" and l: "l \<in> set (d_tasks db)" "?C l"
      using claimed_task [of ?S] claimed_task [of ?C] by blast
    have ok1: "rows_ok (d_tasks ?db1)" using ok by (auto intro!: processing.rows_updated locking.rows_updated)
    have ids: "t_id ` set (d_tasks ?db1) = t_id ` set (d_tasks db)"
      by (simp add: processing.ids_updated locking.ids_updated)
    define g where "g t = (if ?S t then lock_row (t_revision original) t else t)" for t
    define h where "h t = (if ?C t then processed_row now t else t)" for t
    have "d_tasks ?db1 = map h (map g (d_tasks db))"
      by (simp add: update_rows_def g_def [abs_def] h_def [abs_def])
    then have rows: "set (d_tasks ?db1) = h ` g ` set (d_tasks db)" by (simp only: set_map)
    have same: "t_id (h (g t)) = t_id t" "t_completionSourceId (h (g t)) = t_completionSourceId t" for t
      by (simp_all add: g_def h_def lock_row_def processed_row_def)
    have marked: "t_processedAt (h (g l)) \<noteq> None"
      using l(2) by (simp add: g_def h_def lock_row_def processed_row_def in_org_def project_of_def)
    have cov: "covered (copied_task ident live owner (?rc d)) t" if t: "t \<in> set (d_tasks ?db1)" for t owner d
    proof -
      obtain t0 where t0: "t0 \<in> set (d_tasks db)" "t = h (g t0)" using t unfolding rows by blast
      have "t_processedAt t \<noteq> None" if "t_id t = t_id live"
        using row_by_id [OF ok t0(1) l(1)] that same(1) [of t0] t0(2) l(2) marked by simp
      then show ?thesis by (auto simp: covered_def copied_task_def)
    qed
    have new: "\<not> same_occurrence (copied_task ident live owner (?rc d)) j" if j: "j \<in> set (d_tasks ?db1)" for j owner d
    proof
      assume "same_occurrence (copied_task ident live owner (?rc d)) j"
      then have cj: "t_completionSourceId j = Some (t_id l)" using l(2) by (auto simp: same_occurrence_def copied_task_def)
      obtain j0 where "j0 \<in> set (d_tasks db)" "t_completionSourceId j0 = Some (t_id l)" using j cj same(2) unfolding rows by auto
      then have "t_processedAt l \<noteq> None" using ok l(1) unfolding rows_ok_def covered_def by meson
      then show False using l(2) by simp
    qed
    have made: "\<exists>c db'. copyRecurringTask org ident live (?rc d) ?db1 = Inr (c, db') \<and> (\<exists>owner. c = copied_task ident live owner (?rc d)) \<and>
        d_tasks db' = d_tasks ?db1 @ [c] \<and> rows_ok (d_tasks db') \<and> d_projects db' = d_projects ?db1 \<and> d_boards db' = d_boards ?db1" for d
    proof (rule copy_created [OF ok1])
      show "ident \<notin> t_id ` set (d_tasks ?db1)" using fresh unfolding ids .
      show "r_sourceId (?rc d) \<in> t_id ` set (d_tasks ?db1)" unfolding ids using s by (metis image_eqI recurrence_data.select_convs(2))
      show "c \<in> t_id ` set (d_tasks ?db1)" if "r_completionSourceId (?rc d) = Some c" for c
        unfolding ids using l that by (metis image_eqI recurrence_data.select_convs(4) option.inject)
    qed (use cov new in auto)
    show ?thesis
    proof (cases "completionRepeatDate dateInZone r completedAt")
      case (Some res)
      show ?thesis
      proof (cases res)
        case (Inr due)
        show ?thesis
        proof (cases "asDate due")
          case (Inr d)
          obtain c db' owner where "copyRecurringTask org ident live (?rc d) ?db1 = Inr (c, db')" "rows_ok (d_tasks db')" "c = copied_task ident live owner (?rc d)"
            "d_tasks db' = d_tasks ?db1 @ [c]" "d_projects db' = d_projects ?db1" "d_boards db' = d_boards ?db1"
            using made by blast
          then show ?thesis using True Some \<open>res = Inr due\<close> Inr by (simp add: completion_copy_def Let_def copied_task_def)
        qed (use True Some Inr in \<open>auto simp: completion_copy_def Let_def asDate_def split: option.splits\<close>)
      qed (use True Some in \<open>simp add: completion_copy_def Let_def\<close>)
    qed (use True in \<open>simp add: completion_copy_def Let_def\<close>)
  qed (use ok in \<open>auto simp: completion_copy_def Let_def\<close>)
qed

lemma completion_source_ok:
  assumes ok: "rows_ok (d_tasks db)" and fresh: "ident \<notin> t_id ` set (d_tasks db)"
  shows "completion_source dateInZone isTimeZone org now ident source candidate db \<noteq> Some (Inl UniqueViolation)"
    and "completion_source dateInZone isTimeZone org now ident source candidate db = Some (Inr (v, db')) \<Longrightarrow> rows_ok (d_tasks db')"
proof -
  note c = completion_copy_ok [OF assms, of dateInZone org now]
  show "completion_source dateInZone isTimeZone org now ident source candidate db \<noteq> Some (Inl UniqueViolation)"
    using c [THEN conjunct1] by (auto simp: completion_source_def split: option.splits if_splits)
  assume "completion_source dateInZone isTimeZone org now ident source candidate db = Some (Inr (v, db'))"
  then consider "db' = db" | r live completedAt original where
      "completion_copy dateInZone org now ident r live completedAt original db = Some (Inr (v, db'))"
    by (auto simp: completion_source_def split: option.splits if_splits)
  then show "rows_ok (d_tasks db')"
  proof cases
    case 2
    from c [THEN conjunct2, rule_format, OF this] show ?thesis using ok by auto
  qed (use ok in simp)
qed

subsection \<open>Dates computed by the service\<close>

context zone_clock
begin

text \<open>A calendar rule has a next date on or after today, and after the last date generated.\<close>

lemma next_text_after:
  assumes r: "rule_valid isTimeZone r" and now: "clock_ok now" and l: "\<And>l. lastDate = Some l \<Longrightarrow> date_ok l \<and> dateText l < ''9900''"
  shows "\<exists>nxt. next_text dateInZone r lastDate now = Some (Inr nxt) \<and> valid_text nxt \<and> (\<forall>l. lastDate = Some l \<longrightarrow> dateText l < nxt)"
proof -
  have z: "valid_text (dateInZone now (timeZone r))" "''0001-01-01'' \<le> dateInZone now (timeZone r)" "dateInZone now (timeZone r) < ''9900''"
    using zone_date [OF _ now, of "timeZone r"] r by (simp_all add: rule_valid_def)
  obtain first where first: "firstRecurrenceOnOrAfter r (dateInZone now (timeZone r)) = Some (Inr first)" "valid_text first"
    using first_occurrence [OF r z] by blast
  show ?thesis
  proof (cases lastDate)
    case (Some last)
    show ?thesis
    proof (cases "first \<le> dateText last")
      case True
      obtain nxt where "recurrenceAfter r (dateText last) = Some (Inr nxt)" "next_of r (dateText last) nxt"
        using next_occurrence [OF r] l [OF Some] date_ok_text(1) by blast
      then show ?thesis using first True Some by (simp add: next_text_def next_of_def)
    qed (use first Some in \<open>simp add: next_text_def\<close>)
  qed (use first in \<open>simp add: next_text_def\<close>)
qed

lemma save_next_after:
  assumes r: "\<And>r. rl = Some r \<Longrightarrow> rule_valid isTimeZone r" and now: "clock_ok now" and l: "\<And>l. lastDate = Some l \<Longrightarrow> date_ok l \<and> dateText l < ''9900''"
  shows "\<exists>nxt. save_next dateInZone rl lastDate now = Some (Inr nxt) \<and> (\<forall>n. nxt = Some n \<longrightarrow> date_ok n \<and> (\<forall>l. lastDate = Some l \<longrightarrow> l < n))"
proof (cases "rl = None \<or> rule_after_completion rl")
  case False
  then obtain r' where r': "rl = Some r'" "trigger r' \<noteq> Some AFTER_COMPLETION" by (auto simp: rule_after_completion_def)
  obtain nxt where n: "next_text dateInZone r' lastDate now = Some (Inr nxt)" "valid_text nxt" "\<forall>l. lastDate = Some l \<longrightarrow> dateText l < nxt"
    using next_text_after [OF r [OF r'(1)] now l] by blast
  note a = asDate_valid [OF n(2)]
  have "\<forall>l. lastDate = Some l \<longrightarrow> l < text_day nxt * day_ms"
    using n(3) l asDate_less(2) [OF n(2) a(1)] by blast
  then show ?thesis using n(1) r' a by (simp add: save_next_def)
qed (auto simp: save_next_def rule_after_completion_def split: option.splits)

lemma save_rows_ok:
  assumes ok: "rows_ok (d_tasks db)" and r: "\<And>r. rl = Some r \<Longrightarrow> rule_valid isTimeZone r" and now: "clock_ok now"
    and saved: "saveTaskRecurrenceInTransaction dateInZone org ident rl revision projectId now db = Some (Inr (v, db'))"
  shows "rows_ok (d_tasks db')"
proof -
  obtain task where task: "find_task org db (\<lambda>t. t_id t = ident \<and> in_project projectId t) = Some task"
    using saved by (auto simp: saveTaskRecurrenceInTransaction_def split: option.splits)
  have t: "task \<in> set (d_tasks db)" "t_id task = ident" using find_task_SomeD [OF task] by simp_all
  have l: "\<And>l. t_lastDate task = Some l \<Longrightarrow> date_ok l \<and> dateText l < ''9900''"
    using ok t(1) by (simp add: rows_ok_def dates_ok_def)
  obtain nxt where n: "save_next dateInZone rl (t_lastDate task) now = Some (Inr nxt)"
    "\<forall>n. nxt = Some n \<longrightarrow> date_ok n \<and> (\<forall>l. t_lastDate task = Some l \<longrightarrow> l < n)"
    using save_next_after [OF r now l] by blast
  let ?P = "\<lambda>t. in_org org db t \<and> t_id t = ident \<and> in_project projectId t \<and> t_sourceId t = None \<and> t_revision t = revision"
  have w: "rows_ok (update_rows ?P (save_row (rl, nxt)) (d_tasks db))"
  proof (rule saving.rows_updated [OF ok])
    fix u assume "u \<in> set (d_tasks db)" "?P u"
    then have "u = task" using row_by_id [OF ok _ t(1)] t(2) by simp
    then show "\<forall>n. snd (rl, nxt) = Some n \<longrightarrow> date_ok n \<and> (\<forall>l. t_lastDate u = Some l \<longrightarrow> l < n)" using n(2) by simp
  qed
  then show ?thesis
    using saved task n(1) by (auto simp: saveTaskRecurrenceInTransaction_def Let_def intro!: processing.rows_updated split: if_splits)
qed

text \<open>The calendar worker: whatever row it has read, and however old.\<close>

lemma calendar_source_cases:
  assumes ok: "rows_ok (d_tasks db)" and fresh: "ident \<notin> t_id ` set (d_tasks db)" and now: "clock_ok now"
    and read: "\<And>d. t_nextDate source = Some d \<Longrightarrow> date_ok d"
  shows "calendar_source dateInZone isTimeZone org now ident source db = Some (Inl InvalidSchedule) \<or>
    calendar_source dateInZone isTimeZone org now ident source db = Some (Inr (None, db)) \<or>
    (\<exists>c db'. calendar_source dateInZone isTimeZone org now ident source db = Some (Inr (Some c, db')) \<and> rows_ok (d_tasks db'))"
proof (cases "Option.bind (t_rule source) (parse_rule isTimeZone)")
  case (Some r)
  then have v: "rule_valid isTimeZone r" using parse_rule_valid by (cases "t_rule source") auto
  let ?today = "dateInZone now (timeZone r)"
  have z: "valid_text ?today" "?today < ''9900''"
    using zone_date [OF _ now, of "timeZone r"] v by (simp_all add: rule_valid_def)
  obtain nxt where n: "recurrenceAfter r ?today = Some (Inr nxt)" "valid_text nxt" "?today < nxt"
    using next_occurrence [OF v z] by (auto simp: next_of_def)
  show ?thesis
  proof (cases "t_nextDate source")
    case date: (Some d)
    show ?thesis
    proof (cases "trigger r = Some AFTER_COMPLETION \<or> ?today < dateText d")
      case False
      then have le: "dateText d \<le> ?today" by (simp add: linorder_not_less)
      have t9: "dateText d < ''9900''" using le z(2) by (rule le_less_trans)
      have "dateText d < nxt" using le n(3) by (rule le_less_trans)
      then have less: "d < text_day nxt * day_ms" using asDate_less(2) [OF n(2) asDate_valid(1) [OF n(2)] read [OF date]] by simp
      have c: "calendar_source dateInZone isTimeZone org now ident source db =
          Some (calendar_claim org ident source d (text_day nxt * day_ms) db)"
        using Some date False n(1) asDate_valid(1) [OF n(2)] by (simp add: calendar_source_def Let_def)
      show ?thesis
        using calendar_claim_ok [OF ok fresh asDate_valid(2) [OF n(2)] less t9, of org source] unfolding c by auto
    qed (auto simp: calendar_source_def Some date Let_def)
  qed (simp add: calendar_source_def Some Let_def)
qed (simp add: calendar_source_def)

lemma calendar_rows_ok:
  assumes "rows_ok (d_tasks db)" and "ident \<notin> t_id ` set (d_tasks db)" and "clock_ok now"
    and "\<And>d. t_nextDate source = Some d \<Longrightarrow> date_ok d"
    and "calendar_source dateInZone isTimeZone org now ident source db = Some (Inr (v, db'))"
  shows "rows_ok (d_tasks db')"
  using calendar_source_cases [of db ident now source org] assms by auto

end

subsection \<open>The steps\<close>

definition plain_task :: "task \<Rightarrow> bool" where
  "plain_task t \<longleftrightarrow>
     t_nextDate t = None \<and> t_lastDate t = None \<and> t_sourceId t = None \<and> t_scheduledDate t = None \<and> t_completionSourceId t = None"

inductive recurrence_step :: "(timestamp \<Rightarrow> string \<Rightarrow> string) \<Rightarrow> (string \<Rightarrow> bool) \<Rightarrow> recurrence_db \<Rightarrow> recurrence_db \<Rightarrow> bool"
  for dateInZone isTimeZone where
  save: "saveTaskRecurrenceInTransaction dateInZone org ident rl revision projectId now db = Some (Inr (v, db')) \<Longrightarrow>
    (\<And>r. rl = Some r \<Longrightarrow> rule_valid isTimeZone r) \<Longrightarrow> clock_ok now \<Longrightarrow> recurrence_step dateInZone isTimeZone db db'"
| calendar: "calendar_source dateInZone isTimeZone org now ident source db = Some (Inr (v, db')) \<Longrightarrow>
    ident \<notin> t_id ` set (d_tasks db) \<Longrightarrow> clock_ok now \<Longrightarrow> (\<And>d. t_nextDate source = Some d \<Longrightarrow> date_ok d) \<Longrightarrow>
    recurrence_step dateInZone isTimeZone db db'"
| completion: "completion_source dateInZone isTimeZone org now ident source candidate db = Some (Inr (v, db')) \<Longrightarrow>
    ident \<notin> t_id ` set (d_tasks db) \<Longrightarrow> recurrence_step dateInZone isTimeZone db db'"
| edit: "recurrence_step dateInZone isTimeZone db (db\<lparr>d_tasks := update_rows P (edit_row e) (d_tasks db)\<rparr>)"
| plain: "plain_task t \<Longrightarrow> t_id t \<notin> t_id ` set (d_tasks db) \<Longrightarrow>
    recurrence_step dateInZone isTimeZone db (db\<lparr>d_tasks := d_tasks db @ [t]\<rparr>)"
| tables: "recurrence_step dateInZone isTimeZone db (db\<lparr>d_projects := ps, d_boards := bs, d_users := us, d_collaborators := cs\<rparr>)"

lemma step_keeps_rows:
  assumes "zone_clock dateInZone isTimeZone" and "recurrence_step dateInZone isTimeZone db db'" and "rows_ok (d_tasks db)"
  shows "rows_ok (d_tasks db')"
  using assms(2,3)
proof cases
  case save
  then show ?thesis using zone_clock.save_rows_ok [OF assms(1) assms(3)] by blast
next
  case calendar
  then show ?thesis using zone_clock.calendar_rows_ok [OF assms(1) assms(3)] by blast
next
  case completion
  then show ?thesis using completion_source_ok(2) [OF assms(3)] by blast
next
  case edit
  then show ?thesis using assms(3) by (simp add: editing.rows_updated)
next
  case (plain t)
  then show ?thesis using assms(3)
    by (auto simp: plain_task_def dates_ok_def parents_known_def covered_def same_occurrence_def intro!: rows_appended)
qed (use assms(3) in simp)

text \<open>A due source of the worker's query.\<close>

definition due_source :: "(timestamp \<Rightarrow> string \<Rightarrow> string) \<Rightarrow> (string \<Rightarrow> bool) \<Rightarrow> string \<Rightarrow> timestamp \<Rightarrow> recurrence_db \<Rightarrow> task \<Rightarrow> bool" where
  "due_source dateInZone isTimeZone org now db t \<longleftrightarrow>
     t_deletedAt t = None \<and> in_org org db t \<and> activeBoard db t \<and> activeProject db t \<and>
     (case (Option.bind (t_rule t) (parse_rule isTimeZone), t_nextDate t) of
        (Some r, Some d) \<Rightarrow> trigger r \<noteq> Some AFTER_COMPLETION \<and> dateText d \<le> dateInZone now (timeZone r)
      | _ \<Rightarrow> False)"

subsection \<open>A sample\<close>

definition demo_rule :: rule where
  "demo_rule = \<lparr>trigger = None, frequency = DAILY, interval = 3, startDate = ''2026-01-31'', timeZone = ''UTC''\<rparr>"

definition demo_source :: task where
  "demo_source = \<lparr>t_id = ''s'', t_project = ''p'', t_board = None, t_title = ''Monthly review'', t_description = None, t_content = None,
     t_properties = [], t_fieldValues = None, t_tags = [], t_priority = ''HIGH'', t_category = ''UPCOMING'', t_icon = None,
     t_coverImage = None, t_estimatedTime = None, t_assignee = None, t_status = ''PENDING'', t_dueDate = None, t_deletedAt = None,
     t_rule = Some (rule_json demo_rule), t_nextDate = Some 1769817600000, t_lastDate = None, t_revision = 0, t_sourceId = None,
     t_scheduledDate = None, t_firstCompletedAt = None, t_processedAt = None, t_completionSourceId = None\<rparr>"

definition demo_db :: recurrence_db where
  "demo_db = \<lparr>d_tasks = [demo_source], d_projects = [\<lparr>p_id = ''p'', p_org = ''o'', p_clientOrg = ''o'', p_status = ''ACTIVE'', p_deletedAt = None\<rparr>],
     d_boards = [], d_users = [], d_collaborators = []\<rparr>"

definition demo_now :: timestamp where "demo_now = 1776528000000"

lemma demo_due: "due_source utc_date utc_zone ''o'' demo_now demo_db demo_source"
  by code_simp

lemma demo_clock: "clock_ok demo_now"
  by code_simp

lemma demo_rows: "rows_ok (d_tasks demo_db)"
proof -
  have "date_ok 1769817600000" by code_simp
  then show ?thesis
    by (simp add: rows_ok_def demo_db_def demo_source_def dates_ok_def parents_known_def covered_def same_occurrence_def)
qed

lemma demo_copy:
  "\<exists>c db. calendar_source utc_date utc_zone ''o'' demo_now ''c'' demo_source demo_db = Some (Inr (Some c, db)) \<and> map t_id (d_tasks db) = [''s'', ''c'']"
proof -
  have "case calendar_source utc_date utc_zone ''o'' demo_now ''c'' demo_source demo_db of
      Some (Inr (Some c, db)) \<Rightarrow> map t_id (d_tasks db) = [''s'', ''c''] | _ \<Rightarrow> False"
    by code_simp
  then show ?thesis by (auto split: option.splits sum.splits prod.splits)
qed

text \<open>C8: Whatever edits of rules, runs of both workers on stale reads, edits and new tasks interleave, no
  occurrence is generated twice: no two tasks are copies of one source for one date, or repeats of one completion, and the last
  date of a source covers every copy made from it while its next date lies after it.\<close>

theorem recurring_tasks_never_replay:
  assumes "zone_clock dateInZone isTimeZone" and "rows_ok (d_tasks db0)"
    and "(recurrence_step dateInZone isTimeZone)\<^sup>*\<^sup>* db0 db"
  shows "(\<forall>i \<in> set (d_tasks db). \<forall>j \<in> set (d_tasks db). same_occurrence i j \<longrightarrow> i = j) \<and>
    (\<forall>i \<in> set (d_tasks db). \<forall>s \<in> set (d_tasks db). t_sourceId i = Some (t_id s) \<longrightarrow> (\<forall>d. t_scheduledDate i = Some d \<longrightarrow>
       (\<exists>l. t_lastDate s = Some l \<and> d \<le> l \<and> (\<forall>n. t_nextDate s = Some n \<longrightarrow> d < n))))"
proof -
  have ok: "rows_ok (d_tasks db)"
    using assms(3,2) by (induction rule: rtranclp_induct) (auto intro: step_keeps_rows [OF assms(1)])
  show ?thesis
  proof (intro conjI ballI impI allI)
    fix i s d assume a: "i \<in> set (d_tasks db)" "s \<in> set (d_tasks db)" "t_sourceId i = Some (t_id s)" "t_scheduledDate i = Some d"
    then obtain l where "t_lastDate s = Some l" "d \<le> l" using ok unfolding rows_ok_def covered_def by meson
    moreover have "dates_ok s" using ok a(2) by (simp add: rows_ok_def)
    ultimately show "\<exists>l. t_lastDate s = Some l \<and> d \<le> l \<and> (\<forall>n. t_nextDate s = Some n \<longrightarrow> d < n)"
      by (auto simp: dates_ok_def intro: le_less_trans)
  qed (use ok in \<open>unfold rows_ok_def, blast\<close>)
qed

lemma recurring_tasks_never_replay_witness:
  "\<exists>db. (recurrence_step utc_date utc_zone)\<^sup>*\<^sup>* demo_db db \<and> map t_id (d_tasks db) = [''s'', ''c''] \<and>
    (\<forall>i \<in> set (d_tasks db). \<forall>j \<in> set (d_tasks db). same_occurrence i j \<longrightarrow> i = j)"
proof -
  obtain c db where db: "calendar_source utc_date utc_zone ''o'' demo_now ''c'' demo_source demo_db = Some (Inr (Some c, db))"
    "map t_id (d_tasks db) = [''s'', ''c'']"
    using demo_copy by (elim exE conjE)
  have "date_ok 1769817600000" by code_simp
  then have "recurrence_step utc_date utc_zone demo_db db"
    using db(1) demo_clock by (intro recurrence_step.calendar) (auto simp: demo_db_def demo_source_def)
  then have run: "(recurrence_step utc_date utc_zone)\<^sup>*\<^sup>* demo_db db" by (rule r_into_rtranclp)
  show ?thesis
    by (intro exI [of _ db] conjI run db(2) recurring_tasks_never_replay [OF utc.zone_clock_axioms demo_rows run, THEN conjunct1])
qed

lemma due_copied:
  assumes zone: "zone_clock dateInZone isTimeZone" and ok: "rows_ok (d_tasks db)" and fresh: "ident \<notin> t_id ` set (d_tasks db)"
    and now: "clock_ok now" and s: "s \<in> set (d_tasks db)" "due_source dateInZone isTimeZone org now db s"
  shows "\<exists>c db' s' n. calendar_source dateInZone isTimeZone org now ident s db = Some (Inr (Some c, db')) \<and> rows_ok (d_tasks db') \<and>
    c \<in> set (d_tasks db') \<and> t_id c = ident \<and> t_nextDate c = None \<and>
    t_sourceId c = Some (t_id s) \<and> t_dueDate c = t_nextDate s \<and> t_status c = ''PENDING'' \<and>
    (\<forall>i \<in> set (d_tasks db). \<not> same_occurrence c i) \<and>
    s' \<in> set (d_tasks db') \<and> t_id s' = t_id s \<and> t_lastDate s' = t_nextDate s \<and> t_nextDate s' = Some n \<and>
    \<not> due_source dateInZone isTimeZone org now db' s' \<and>
    (\<forall>ident'. calendar_source dateInZone isTimeZone org now ident' s db' = Some (Inr (None, db'))) \<and>
    d_projects db' = d_projects db \<and> d_boards db' = d_boards db \<and>
    (\<forall>t \<in> set (d_tasks db'). t \<in> set (d_tasks db) \<and> t_id t \<noteq> t_id s \<or> t = s' \<or> t = c) \<and>
    (\<forall>t \<in> set (d_tasks db). t_id t \<noteq> t_id s \<longrightarrow> t \<in> set (d_tasks db'))"
proof -
  obtain r d where r: "Option.bind (t_rule s) (parse_rule isTimeZone) = Some r" and d: "t_nextDate s = Some d"
    and due: "trigger r \<noteq> Some AFTER_COMPLETION" "dateText d \<le> dateInZone now (timeZone r)"
    and live: "t_deletedAt s = None" "in_org org db s" "activeBoard db s" "activeProject db s"
    using s(2) by (auto simp: due_source_def split: option.splits)
  let ?today = "dateInZone now (timeZone r)"
  have v: "rule_valid isTimeZone r" using r parse_rule_valid by (cases "t_rule s") auto
  have z: "valid_text ?today" "?today < ''9900''"
    using zone_clock.zone_date [OF zone _ now, of "timeZone r"] v by (simp_all add: rule_valid_def)
  obtain nxt where n: "recurrenceAfter r ?today = Some (Inr nxt)" "valid_text nxt" "?today < nxt"
    using next_occurrence [OF v z] by (auto simp: next_of_def)
  define m where "m = text_day nxt * day_ms"
  note a = asDate_valid [OF n(2), folded m_def]
  have dok: "date_ok d" using ok s(1) d by (simp add: rows_ok_def dates_ok_def)
  have t9: "dateText d < ''9900''" using due(2) z(2) by (rule le_less_trans)
  have "dateText d < nxt" using due(2) n(3) by (rule le_less_trans)
  then have less: "d < m" using asDate_less(2) [OF n(2) a(1) dok] by simp
  have step: "calendar_source dateInZone isTimeZone org now i s e = Some (calendar_claim org i s d m e)" for i e
    using r d due n(1) a(1) by (simp add: calendar_source_def Let_def linorder_not_less [symmetric])
  let ?P = "\<lambda>t. in_org org db t \<and> t_id t = t_id s \<and> t_nextDate t = Some d \<and> t_revision t = t_revision s"
  have one: "count_rows ?P (d_tasks db) = 1"
    using count_rows_pos [OF s(1), of ?P] count_by_key [of t_id "d_tasks db" ?P "t_id s"] ok live(2) d by (simp add: rows_ok_def)
  have found: "find_task org db (\<lambda>t. t_id t = t_id s \<and> activeBoard db t \<and> activeProject db t) \<noteq> None"
    using s(1) live by (auto simp: find_task_def find_row_None_iff)
  have "calendar_claim org ident s d m db \<noteq> Inr (None, db)"
    using found one by (auto simp: calendar_claim_def Let_def split: sum.splits)
  then obtain c db' lv owner where c: "calendar_claim org ident s d m db = Inr (Some c, db')" "rows_ok (d_tasks db')"
    "c = copied_task ident lv owner \<lparr>r_dueDate = d, r_sourceId = t_id s, r_scheduledDate = Some d, r_completionSourceId = None\<rparr>"
    "d_tasks db' = update_rows ?P (advance_row (d, m)) (d_tasks db) @ [c]" "d_projects db' = d_projects db" "d_boards db' = d_boards db"
    using calendar_claim_ok [OF ok fresh a(2) less t9, of org s] by auto
  let ?s' = "advance_row (d, m) s"
  have s': "?s' \<in> set (d_tasks db')" using s(1) live(2) d by (auto simp: c(4) set_update_rows)
  have sid: "t_id s \<noteq> ident" using fresh s(1) by auto
  have again: "calendar_claim org i s d m db' = Inr (None, db')" for i
  proof -
    let ?Q = "\<lambda>t. in_org org db' t \<and> t_id t = t_id s \<and> t_nextDate t = Some d \<and> t_revision t = t_revision s"
    have "\<not> ?Q t" if t: "t \<in> set (d_tasks db')" for t
    proof
      assume q: "?Q t"
      have "t = ?s'" using row_by_id [OF c(2) t s'] q by (simp add: advance_row_def)
      then show False using q less by (simp add: advance_row_def)
    qed
    then have "count_rows ?Q (d_tasks db') = 0" by (simp add: count_rows_0_iff)
    then show ?thesis by (simp add: calendar_claim_def Let_def split: option.splits)
  qed
  have new: "\<not> same_occurrence c i" if i: "i \<in> set (d_tasks db)" for i
  proof
    assume "same_occurrence c i"
    then have "t_sourceId i = Some (t_id s)" "t_scheduledDate i = Some d" by (auto simp: c(3) same_occurrence_def copied_task_def)
    then obtain l where "t_lastDate s = Some l" "d \<le> l" using ok s(1) i unfolding rows_ok_def covered_def by meson
    moreover have "dates_ok s" using ok s(1) by (simp add: rows_ok_def)
    ultimately show False using d by (auto simp: dates_ok_def)
  qed
  have "\<not> dateText m \<le> ?today" using n(3) a(3) by (simp add: linorder_not_le)
  then have "\<not> due_source dateInZone isTimeZone org now db' ?s'"
    using r by (simp add: due_source_def advance_row_def)
  moreover have "t \<in> set (d_tasks db) \<and> t_id t \<noteq> t_id s \<or> t = ?s' \<or> t = c" if t: "t \<in> set (d_tasks db')" for t
    using t row_by_id [OF c(2) t s'] by (auto simp: c(4) set_update_rows advance_row_def)
  moreover have "t \<in> set (d_tasks db')" if "t \<in> set (d_tasks db)" "t_id t \<noteq> t_id s" for t
    using that by (auto simp: c(4) set_update_rows)
  moreover have "t_id c = ident" "t_nextDate c = None" "t_sourceId c = Some (t_id s)" "t_dueDate c = Some d" "t_status c = ''PENDING''"
    by (simp_all add: c(3) copied_task_def)
  moreover have "c \<in> set (d_tasks db')" by (simp add: c(4))
  moreover have "t_id ?s' = t_id s" "t_lastDate ?s' = Some d" "t_nextDate ?s' = Some m" by (simp_all add: advance_row_def)
  ultimately show ?thesis
    using step c(1,2,5,6) again s' new d by (intro exI [of _ c] exI [of _ db'] exI [of _ ?s'] exI [of _ m]) simp
qed

text \<open>C21: A due source is copied: the transaction of the calendar worker creates one pending task of the
  scheduled date that no earlier task stands for, moves the source past today, and a second worker with the same read creates none.\<close>

theorem due_task_copied_once:
  assumes zone: "zone_clock dateInZone isTimeZone" and ok: "rows_ok (d_tasks db)" and fresh: "ident \<notin> t_id ` set (d_tasks db)"
    and now: "clock_ok now" and s: "s \<in> set (d_tasks db)" "due_source dateInZone isTimeZone org now db s"
  shows "\<exists>c db' s' n. calendar_source dateInZone isTimeZone org now ident s db = Some (Inr (Some c, db')) \<and>
    c \<in> set (d_tasks db') \<and> t_sourceId c = Some (t_id s) \<and> t_dueDate c = t_nextDate s \<and> t_status c = ''PENDING'' \<and>
    (\<forall>i \<in> set (d_tasks db). \<not> same_occurrence c i) \<and>
    s' \<in> set (d_tasks db') \<and> t_id s' = t_id s \<and> t_lastDate s' = t_nextDate s \<and> t_nextDate s' = Some n \<and>
    \<not> due_source dateInZone isTimeZone org now db' s' \<and>
    (\<forall>ident'. calendar_source dateInZone isTimeZone org now ident' s db' = Some (Inr (None, db')))"
  using due_copied [OF assms] by (elim exE conjE) (intro exI conjI; assumption)

lemma due_task_copied_once_witness:
  "\<exists>c db' s' n. calendar_source utc_date utc_zone ''o'' demo_now ''c'' demo_source demo_db = Some (Inr (Some c, db')) \<and>
    c \<in> set (d_tasks db') \<and> t_sourceId c = Some ''s'' \<and> t_dueDate c = Some 1769817600000 \<and> t_status c = ''PENDING'' \<and>
    s' \<in> set (d_tasks db') \<and> t_id s' = ''s'' \<and> t_nextDate s' = Some n \<and> \<not> due_source utc_date utc_zone ''o'' demo_now db' s'"
proof -
  have "''c'' \<notin> t_id ` set (d_tasks demo_db)" "demo_source \<in> set (d_tasks demo_db)" by (simp_all add: demo_db_def demo_source_def)
  moreover have "t_id demo_source = ''s''" "t_nextDate demo_source = Some 1769817600000" by (simp_all add: demo_source_def)
  ultimately show ?thesis
    using due_task_copied_once [OF utc.zone_clock_axioms demo_rows _ demo_clock _ demo_due, of "''c''"] by metis
qed

end
