(* ===== verification/Task_Worker.thy ===== *)
theory Task_Worker
  imports Task_Occurrences
begin

section \<open>The recurrence workers: pages, failures, and what a run leaves\<close>

text \<open>
  Models the loops of \<open>processRecurringTasks\<close> and \<open>processCompletionRepeats\<close> of
  \<^verbatim>\<open>src/services/task-recurrence.service.js\<close>. A worker reads the sources in pages of 100 ordered by id, the
  next page after the last id of the page before, until a page is short; a source that fails is noted and
  does not stop the run. The loops have no bound in the code and are partial functions here; the locale
  \<open>paging\<close> shows that reading pages this way ends and meets every row it is meant to meet.

  \<open>new_id\<close> is the id the client generates for a new row, not yet used in the table.
\<close>

subsection \<open>Reading pages\<close>

partial_function (option) paged ::
  "(string option \<Rightarrow> 's \<Rightarrow> 'r list) \<Rightarrow> ('r \<Rightarrow> string) \<Rightarrow> ('r list \<Rightarrow> 's \<Rightarrow> 's option) \<Rightarrow> string option \<Rightarrow> 's \<Rightarrow> 's option" where
  "paged fetch key body after st =
     (case body (fetch after st) st of
        None \<Rightarrow> None
      | Some st' \<Rightarrow>
          if length (fetch after st) < 100 then Some st'
          else paged fetch key body (Some (key (last (fetch after st)))) st')"

declare paged.simps [code]

definition beyond :: "string option \<Rightarrow> string \<Rightarrow> bool" where
  "beyond after k = (case after of None \<Rightarrow> True | Some a \<Rightarrow> a < k)"

text \<open>\<open>findMany\<close> with \<open>id: { gt: after }\<close>, \<open>orderBy: { id: 'asc' }\<close>, \<open>take: 100\<close>.\<close>

definition page_of :: "('r \<Rightarrow> string) \<Rightarrow> ('r \<Rightarrow> bool) \<Rightarrow> string option \<Rightarrow> 'r list \<Rightarrow> 'r list" where
  "page_of key P after rows = take 100 (sort_key key (filter (\<lambda>r. P r \<and> beyond after (key r)) rows))"

lemma page_of_set: "r \<in> set (page_of key P after rows) \<Longrightarrow> r \<in> set rows \<and> P r \<and> beyond after (key r)"
  by (auto simp: page_of_def dest!: in_set_takeD)

lemma page_of_short:
  assumes "length (page_of key P after rows) < 100" and "r \<in> set rows" "P r" "beyond after (key r)"
  shows "r \<in> set (page_of key P after rows)"
proof -
  have "page_of key P after rows = sort_key key (filter (\<lambda>r. P r \<and> beyond after (key r)) rows)"
    using assms(1) by (simp add: page_of_def)
  then show ?thesis using assms(2-4) by simp
qed

lemma sorted_take_last:
  assumes "sorted (map key xs)" and "n \<le> length xs" "0 < n" and "x \<in> set xs" and "key x \<le> key (last (take n xs))" and "distinct (map key xs)"
  shows "x \<in> set (take n xs)"
proof -
  obtain i where i: "i < length xs" "x = xs ! i" using assms(4) by (auto simp: in_set_conv_nth)
  have l: "last (take n xs) = xs ! (n - 1)" using assms(2,3) by (subst last_conv_nth) auto
  have "i < n"
  proof (rule ccontr)
    assume "\<not> i < n"
    then have lt: "n - 1 < i" using assms(3) by simp
    then have "key (xs ! (n - 1)) \<le> key x" using sorted_nth_mono [OF assms(1), of "n - 1" i] i by simp
    then have "map key xs ! (n - 1) = map key xs ! i" using assms(5) l i lt by simp
    then show False using nth_eq_iff_index_eq [OF assms(6), of "n - 1" i] i lt by simp
  qed
  then show ?thesis using i assms(2) by (auto simp: in_set_conv_nth)
qed

lemma distinct_keys_sorted: "distinct (map key xs) \<Longrightarrow> distinct (map key (sort_key f xs))"
  by (simp add: distinct_map)

lemma page_of_full:
  assumes "\<not> length (page_of key P after rows) < 100" and "distinct (map key rows)" and "r \<in> set rows" "P r" "beyond after (key r)"
    and "key r \<le> key (last (page_of key P after rows))"
  shows "r \<in> set (page_of key P after rows)"
proof -
  let ?xs = "sort_key key (filter (\<lambda>r. P r \<and> beyond after (key r)) rows)"
  have "distinct (map key (filter (\<lambda>r. P r \<and> beyond after (key r)) rows))" using assms(2) by (rule distinct_map_filter)
  then have "distinct (map key ?xs)" by (rule distinct_keys_sorted)
  then show ?thesis
    unfolding page_of_def using assms(1,3-6) by (intro sorted_take_last [where key = key]) (auto simp: page_of_def)
qed

lemma page_of_progress:
  assumes "\<not> length (page_of key P after rows) < 100"
  shows "last (page_of key P after rows) \<in> set rows" and "beyond after (key (last (page_of key P after rows)))"
proof -
  have "page_of key P after rows \<noteq> []" using assms by auto
  then have m: "last (page_of key P after rows) \<in> set (page_of key P after rows)" by (rule last_in_set)
  show "last (page_of key P after rows) \<in> set rows" "beyond after (key (last (page_of key P after rows)))"
    using page_of_set [OF m] by simp_all
qed

text \<open>
  The contract of a worker: \<open>table\<close> is what it pages through, \<open>wanted\<close> the rows of the query; the body returns,
  keeps the invariant, adds no row that the query would find, settles the rows of its page, and leaves settled
  what is not on it.
\<close>

locale paging =
  fixes table :: "'p \<Rightarrow> 's \<Rightarrow> 'r list" and key :: "'r \<Rightarrow> string" and wanted :: "'p \<Rightarrow> 's \<Rightarrow> 'r \<Rightarrow> bool"
    and body :: "'p \<Rightarrow> 'r list \<Rightarrow> 's \<Rightarrow> 's option" and good :: "'p \<Rightarrow> 's \<Rightarrow> bool" and todo :: "'p \<Rightarrow> 's \<Rightarrow> 'r \<Rightarrow> bool"
  assumes keys: "good p s \<Longrightarrow> distinct (map key (table p s))"
    and todo_wanted: "good p s \<Longrightarrow> r \<in> set (table p s) \<Longrightarrow> todo p s r \<Longrightarrow> wanted p s r"
    and body_returns: "good p s \<Longrightarrow> set rs \<subseteq> {r \<in> set (table p s). wanted p s r} \<Longrightarrow> distinct (map key rs) \<Longrightarrow>
      \<exists>s'. body p rs s = Some s' \<and> good p s' \<and>
        (\<forall>r' \<in> set (table p s'). wanted p s' r' \<longrightarrow> (\<exists>r \<in> set (table p s). wanted p s r \<and> key r = key r')) \<and>
        (\<forall>r' \<in> set (table p s'). todo p s' r' \<longrightarrow> key r' \<notin> key ` set rs \<and> (\<exists>r \<in> set (table p s). todo p s r \<and> key r = key r'))"
begin

abbreviation fetch :: "'p \<Rightarrow> string option \<Rightarrow> 's \<Rightarrow> 'r list" where
  "fetch p after s \<equiv> page_of key (wanted p s) after (table p s)"

definition left :: "'p \<Rightarrow> string option \<Rightarrow> 's \<Rightarrow> string set" where
  "left p after s = key ` {r \<in> set (table p s). wanted p s r \<and> beyond after (key r)}"

lemma pages_end:
  assumes "good p s" and "\<forall>r \<in> set (table p s). todo p s r \<longrightarrow> beyond after (key r)"
  shows "\<exists>s'. paged (fetch p) key (body p) after s = Some s' \<and> good p s' \<and> (\<forall>r \<in> set (table p s'). \<not> todo p s' r)"
  using assms
proof (induction "card (left p after s)" arbitrary: after s rule: less_induct)
  case less
  let ?page = "fetch p after s"
  have d: "distinct (map key ?page)"
  proof -
    have "distinct (map key (filter (\<lambda>r. wanted p s r \<and> beyond after (key r)) (table p s)))"
      using keys [OF less.prems(1)] by (rule distinct_map_filter)
    then have "distinct (map key (sort_key key (filter (\<lambda>r. wanted p s r \<and> beyond after (key r)) (table p s))))"
      by (rule distinct_keys_sorted)
    then show ?thesis unfolding page_of_def take_map [symmetric] by (rule distinct_take)
  qed
  have sub: "set ?page \<subseteq> {r \<in> set (table p s). wanted p s r}" using page_of_set by fastforce
  obtain s' where s': "body p ?page s = Some s'" "good p s'"
    "\<And>r'. r' \<in> set (table p s') \<Longrightarrow> wanted p s' r' \<Longrightarrow> \<exists>r \<in> set (table p s). wanted p s r \<and> key r = key r'"
    "\<And>r'. r' \<in> set (table p s') \<Longrightarrow> todo p s' r' \<Longrightarrow> key r' \<notin> key ` set ?page \<and> (\<exists>r \<in> set (table p s). todo p s r \<and> key r = key r')"
    using body_returns [OF less.prems(1) sub d] by blast
  have was: "\<exists>r \<in> set (table p s). todo p s r \<and> wanted p s r \<and> key r = key r' \<and> beyond after (key r) \<and> r \<notin> set ?page"
    if r': "r' \<in> set (table p s')" "todo p s' r'" for r'
  proof -
    obtain r where r: "r \<in> set (table p s)" "todo p s r" "key r = key r'" using s'(4) [OF r'] by blast
    then show ?thesis using s'(4) [OF r'] todo_wanted [OF less.prems(1)] less.prems(2) by (metis image_eqI)
  qed
  show ?case
  proof (cases "length ?page < 100")
    case True
    then have "\<not> todo p s' r'" if "r' \<in> set (table p s')" for r'
      using was [OF that] page_of_short [OF True] by blast
    then show ?thesis using True s'(1,2) by (subst paged.simps) auto
  next
    case False
    let ?l = "key (last ?page)"
    note progress = page_of_progress [OF False]
    have todo_next: "\<forall>r' \<in> set (table p s'). todo p s' r' \<longrightarrow> beyond (Some ?l) (key r')"
    proof (intro ballI impI)
      fix r' assume "r' \<in> set (table p s')" "todo p s' r'"
      from was [OF this] obtain r where r: "r \<in> set (table p s)" "wanted p s r" "key r = key r'" "beyond after (key r)" "r \<notin> set ?page"
        by blast
      then have "\<not> key r \<le> ?l" using page_of_full [OF False keys [OF less.prems(1)]] by blast
      then show "beyond (Some ?l) (key r')" using r(3) by (simp add: beyond_def)
    qed
    have "left p (Some ?l) s' \<subseteq> left p after s - {?l}"
    proof
      fix k assume "k \<in> left p (Some ?l) s'"
      then obtain r' where r': "r' \<in> set (table p s')" "wanted p s' r'" "k = key r'" "?l < k" by (auto simp: left_def beyond_def)
      obtain r where r: "r \<in> set (table p s)" "wanted p s r" "key r = k" using s'(3) [OF r'(1,2)] r'(3) by auto
      have "beyond after k" using progress(2) r'(4) by (auto simp: beyond_def split: option.splits)
      then show "k \<in> left p after s - {?l}" using r r'(4) by (auto simp: left_def)
    qed
    moreover have "last ?page \<in> set ?page" using False by (intro last_in_set) auto
    then have "?l \<in> left p after s" using page_of_set unfolding left_def by fast
    moreover have "finite (left p after s)" by (simp add: left_def)
    ultimately have "card (left p (Some ?l) s') < card (left p after s)"
      by (metis Diff_subset card_Diff1_less card_mono finite_Diff le_less_trans)
    from less.hyps [OF this s'(2) todo_next] show ?thesis using False s'(1) by (subst paged.simps) auto
  qed
qed

end

subsection \<open>The calendar worker\<close>

record worker_env =
  e_zone :: "timestamp \<Rightarrow> string \<Rightarrow> string"
  e_known :: "string \<Rightarrow> bool"
  e_org :: string
  e_now :: timestamp
  e_new_id :: "recurrence_db \<Rightarrow> string"

record worker_state =
  w_examined :: nat
  w_generated :: nat
  w_failures :: "(string \<times> task_error) list"
  w_db :: recurrence_db

text \<open>The outcome of one source: a transaction that failed has changed nothing.\<close>

definition count_outcome :: "string \<Rightarrow> task_error + task option \<times> recurrence_db \<Rightarrow> worker_state \<Rightarrow> worker_state" where
  "count_outcome ident out st =
     (case out of
        Inl e \<Rightarrow> st\<lparr>w_examined := w_examined st + 1, w_failures := w_failures st @ [(ident, e)]\<rparr>
      | Inr (None, db) \<Rightarrow> st\<lparr>w_examined := w_examined st + 1, w_db := db\<rparr>
      | Inr (Some c, db) \<Rightarrow> st\<lparr>w_examined := w_examined st + 1, w_generated := w_generated st + 1, w_db := db\<rparr>)"

fun run_each :: "('r \<Rightarrow> 's \<Rightarrow> 's option) \<Rightarrow> 'r list \<Rightarrow> 's \<Rightarrow> 's option" where
  "run_each f [] st = Some st"
| "run_each f (r # rs) st = (case f r st of None \<Rightarrow> None | Some st' \<Rightarrow> run_each f rs st')"

definition calendar_one :: "worker_env \<Rightarrow> task \<Rightarrow> worker_state \<Rightarrow> worker_state option" where
  "calendar_one env source st =
     map_option (\<lambda>out. count_outcome (t_id source) out st)
       (calendar_source (e_zone env) (e_known env) (e_org env) (e_now env) (e_new_id env (w_db st)) source (w_db st))"

definition calendar_wanted :: "worker_env \<Rightarrow> worker_state \<Rightarrow> task \<Rightarrow> bool" where
  "calendar_wanted env st t \<longleftrightarrow>
     t_deletedAt t = None \<and> in_org (e_org env) (w_db st) t \<and> activeBoard (w_db st) t \<and> t_nextDate t \<noteq> None \<and> activeProject (w_db st) t"

definition calendar_pages :: "worker_env \<Rightarrow> string option \<Rightarrow> worker_state \<Rightarrow> worker_state option" where
  "calendar_pages env =
     paged (\<lambda>after st. page_of t_id (calendar_wanted env st) after (d_tasks (w_db st))) t_id (run_each (calendar_one env))"

definition start_worker :: "recurrence_db \<Rightarrow> worker_state" where
  "start_worker db = \<lparr>w_examined = 0, w_generated = 0, w_failures = [], w_db = db\<rparr>"

text \<open>The result of the job: the failures it throws, or its counts; and the database.\<close>

definition job_result :: "worker_state \<Rightarrow> ((string \<times> task_error) list + nat \<times> nat) \<times> recurrence_db" where
  "job_result st = (if w_failures st \<noteq> [] then Inl (w_failures st) else Inr (w_examined st, w_generated st), w_db st)"

definition processRecurringTasks :: "worker_env \<Rightarrow> recurrence_db \<Rightarrow> (((string \<times> task_error) list + nat \<times> nat) \<times> recurrence_db) option" where
  "processRecurringTasks env db = map_option job_result (calendar_pages env None (start_worker db))"

definition worker_good :: "worker_env \<Rightarrow> worker_state \<Rightarrow> bool" where
  "worker_good env st \<longleftrightarrow>
     zone_clock (e_zone env) (e_known env) \<and> clock_ok (e_now env) \<and> (\<forall>db. e_new_id env db \<notin> t_id ` set (d_tasks db)) \<and> rows_ok (d_tasks (w_db st))"

definition calendar_due :: "worker_env \<Rightarrow> worker_state \<Rightarrow> task \<Rightarrow> bool" where
  "calendar_due env st t = due_source (e_zone env) (e_known env) (e_org env) (e_now env) (w_db st) t"

text \<open>A source that is not due is left alone.\<close>

lemma not_due_kept:
  assumes ok: "rows_ok (d_tasks db)" and fresh: "ident \<notin> t_id ` set (d_tasks db)" and zone: "zone_clock dz tz" and now: "clock_ok now"
    and s: "s \<in> set (d_tasks db)" "\<not> due_source dz tz org now db s"
  shows "calendar_source dz tz org now ident s db = Some (Inl InvalidSchedule) \<or> calendar_source dz tz org now ident s db = Some (Inr (None, db))"
proof -
  have no: "calendar_source dz tz org now ident s db \<noteq> Some (Inr (Some c, db'))" for c db'
  proof
    assume "calendar_source dz tz org now ident s db = Some (Inr (Some c, db'))"
    then obtain r d n where r: "Option.bind (t_rule s) (parse_rule tz) = Some r" "trigger r \<noteq> Some AFTER_COMPLETION"
      "t_nextDate s = Some d" "\<not> dz now (timeZone r) < dateText d" "calendar_claim org ident s d n db = Inr (Some c, db')"
      by (auto simp: calendar_source_def Let_def split: option.splits sum.splits if_splits)
    then obtain live where "find_task org db (\<lambda>t. t_id t = t_id s \<and> activeBoard db t \<and> activeProject db t) = Some live"
      by (auto simp: calendar_claim_def split: option.splits)
    then have live: "live \<in> set (d_tasks db)" "t_deletedAt live = None" "in_org org db live" "t_id live = t_id s" "activeBoard db live" "activeProject db live"
      unfolding find_task_def by (auto dest!: find_row_SomeD)
    then have "live = s" using row_by_id [OF ok _ s(1)] by blast
    then show False using s(2) live r by (simp add: due_source_def linorder_not_less)
  qed
  have "\<And>d. t_nextDate s = Some d \<Longrightarrow> date_ok d" using ok s(1) by (simp add: rows_ok_def dates_ok_def)
  then show ?thesis using zone_clock.calendar_source_cases [OF zone ok fresh now, of s org] no by blast
qed

lemma due_source_tables:
  assumes "d_projects db' = d_projects db" and "d_boards db' = d_boards db"
  shows "due_source dz tz org now db' t = due_source dz tz org now db t"
  by (simp only: due_source_def in_org_def project_of_def activeBoard_def activeProject_def assms)

text \<open>One source: every other row keeps, the source is not due any more, a copy is never a source.\<close>

lemma calendar_one_effect:
  assumes good: "worker_good env st" and s: "s \<in> set (d_tasks (w_db st))"
  shows "\<exists>st'. calendar_one env s st = Some st' \<and> worker_good env st' \<and>
    d_projects (w_db st') = d_projects (w_db st) \<and> d_boards (w_db st') = d_boards (w_db st) \<and>
    (\<forall>t \<in> set (d_tasks (w_db st')). t \<in> set (d_tasks (w_db st)) \<and> t_id t \<noteq> t_id s \<or> t_id t = t_id s \<and> \<not> calendar_due env st' t \<or> t_nextDate t = None) \<and>
    (\<forall>t \<in> set (d_tasks (w_db st)). t_id t \<noteq> t_id s \<longrightarrow> t \<in> set (d_tasks (w_db st')))"
proof -
  have g: "zone_clock (e_zone env) (e_known env)" "clock_ok (e_now env)" "e_new_id env (w_db st) \<notin> t_id ` set (d_tasks (w_db st))"
    "rows_ok (d_tasks (w_db st))"
    using good by (simp_all add: worker_good_def)
  show ?thesis
  proof (cases "calendar_due env st s")
    case True
    then obtain c db' s' n where d: "calendar_source (e_zone env) (e_known env) (e_org env) (e_now env) (e_new_id env (w_db st)) s (w_db st) = Some (Inr (Some c, db'))"
      "rows_ok (d_tasks db')" "t_nextDate c = None" "t_id s' = t_id s" "\<not> due_source (e_zone env) (e_known env) (e_org env) (e_now env) db' s'"
      "d_projects db' = d_projects (w_db st)" "d_boards db' = d_boards (w_db st)"
      "\<forall>t \<in> set (d_tasks db'). t \<in> set (d_tasks (w_db st)) \<and> t_id t \<noteq> t_id s \<or> t = s' \<or> t = c"
      "\<forall>t \<in> set (d_tasks (w_db st)). t_id t \<noteq> t_id s \<longrightarrow> t \<in> set (d_tasks db')"
      using due_copied [OF g(1,4,3,2) s, of "e_org env"] by (auto simp: calendar_due_def)
    let ?st = "count_outcome (t_id s) (Inr (Some c, db')) st"
    have w: "w_db ?st = db'" by (simp add: count_outcome_def)
    have "calendar_one env s st = Some ?st" using d(1) by (simp add: calendar_one_def)
    moreover have "worker_good env ?st" using good d(2) by (simp add: worker_good_def w)
    ultimately show ?thesis using d(3-9) by (intro exI [of _ ?st]) (auto simp: w calendar_due_def)
  next
    case False
    let ?out = "calendar_source (e_zone env) (e_known env) (e_org env) (e_now env) (e_new_id env (w_db st)) s (w_db st)"
    have "?out = Some (Inl InvalidSchedule) \<or> ?out = Some (Inr (None, w_db st))"
      using False by (intro not_due_kept [OF g(4,3,1,2) s]) (simp add: calendar_due_def)
    then obtain st' where st': "calendar_one env s st = Some st'" "w_db st' = w_db st"
      by (auto simp: calendar_one_def count_outcome_def)
    have "t = s" if "t \<in> set (d_tasks (w_db st))" "t_id t = t_id s" for t using row_by_id [OF g(4) that(1) s that(2)] .
    then show ?thesis
      using st' False good by (intro exI [of _ st']) (auto simp: worker_good_def calendar_due_def)
  qed
qed

lemma calendar_page_effect:
  assumes "worker_good env st" and "set rs \<subseteq> set (d_tasks (w_db st))" and "distinct (map t_id rs)"
  shows "\<exists>st'. run_each (calendar_one env) rs st = Some st' \<and> worker_good env st' \<and>
    d_projects (w_db st') = d_projects (w_db st) \<and> d_boards (w_db st') = d_boards (w_db st) \<and>
    (\<forall>t \<in> set (d_tasks (w_db st')). t \<in> set (d_tasks (w_db st)) \<and> t_id t \<notin> t_id ` set rs \<or>
       t_id t \<in> t_id ` set rs \<and> \<not> calendar_due env st' t \<or> t_nextDate t = None)"
  using assms
proof (induction rs arbitrary: st)
  case (Cons r rs)
  obtain st1 where st1: "calendar_one env r st = Some st1" "worker_good env st1"
    "d_projects (w_db st1) = d_projects (w_db st)" "d_boards (w_db st1) = d_boards (w_db st)"
    "\<And>t. t \<in> set (d_tasks (w_db st1)) \<Longrightarrow>
       t \<in> set (d_tasks (w_db st)) \<and> t_id t \<noteq> t_id r \<or> t_id t = t_id r \<and> \<not> calendar_due env st1 t \<or> t_nextDate t = None"
    "\<And>t. t \<in> set (d_tasks (w_db st)) \<Longrightarrow> t_id t \<noteq> t_id r \<Longrightarrow> t \<in> set (d_tasks (w_db st1))"
    using calendar_one_effect [OF Cons.prems(1), of r] Cons.prems(2) by auto
  have sub: "set rs \<subseteq> set (d_tasks (w_db st1))"
  proof
    fix x assume "x \<in> set rs"
    then have "x \<in> set (d_tasks (w_db st))" "t_id x \<noteq> t_id r" using Cons.prems(2,3) by (auto simp: image_iff)
    then show "x \<in> set (d_tasks (w_db st1))" by (rule st1(6))
  qed
  have "distinct (map t_id rs)" using Cons.prems(3) by simp
  from Cons.IH [OF st1(2) sub this] obtain st2 where st2: "run_each (calendar_one env) rs st1 = Some st2" "worker_good env st2"
    "d_projects (w_db st2) = d_projects (w_db st1)" "d_boards (w_db st2) = d_boards (w_db st1)"
    "\<forall>t \<in> set (d_tasks (w_db st2)). t \<in> set (d_tasks (w_db st1)) \<and> t_id t \<notin> t_id ` set rs \<or>
       t_id t \<in> t_id ` set rs \<and> \<not> calendar_due env st2 t \<or> t_nextDate t = None"
    by (elim exE conjE) (rule that)
  have due: "calendar_due env st2 t = calendar_due env st1 t" for t
    unfolding calendar_due_def by (rule due_source_tables [OF st2(3,4)])
  have rows: "t \<in> set (d_tasks (w_db st)) \<and> t_id t \<notin> t_id ` set (r # rs) \<or>
      t_id t \<in> t_id ` set (r # rs) \<and> \<not> calendar_due env st2 t \<or> t_nextDate t = None"
    if t: "t \<in> set (d_tasks (w_db st2))" for t
  proof -
    consider "t \<in> set (d_tasks (w_db st1))" "t_id t \<notin> t_id ` set rs" | "t_id t \<in> t_id ` set rs" "\<not> calendar_due env st2 t" | "t_nextDate t = None"
      using bspec [OF st2(5) t] by metis
    then show ?thesis
    proof cases
      case 1
      show ?thesis using st1(5) [OF 1(1)] 1(2) by (elim disjE) (simp_all add: due)
    qed simp_all
  qed
  show ?case
    using st1(1,3,4) st2(1-4) rows by (intro exI [of _ st2]) simp
qed simp

lemma calendar_wanted_tables:
  assumes "d_projects (w_db st') = d_projects (w_db st)" and "d_boards (w_db st') = d_boards (w_db st)"
  shows "calendar_wanted env st' t = calendar_wanted env st t"
  by (simp only: calendar_wanted_def in_org_def project_of_def activeBoard_def activeProject_def assms)

lemma due_is_wanted: "calendar_due env st t \<Longrightarrow> calendar_wanted env st t"
  by (auto simp: calendar_due_def due_source_def calendar_wanted_def split: option.splits)

interpretation calendar: paging "\<lambda>env st. d_tasks (w_db st)" t_id calendar_wanted "\<lambda>env. run_each (calendar_one env)" worker_good calendar_due
proof unfold_locales
  fix env st rs
  assume good: "worker_good env st" and sub: "set rs \<subseteq> {r \<in> set (d_tasks (w_db st)). calendar_wanted env st r}" and d: "distinct (map t_id rs)"
  have "set rs \<subseteq> set (d_tasks (w_db st))" using sub by blast
  from calendar_page_effect [OF good this d] obtain st' where st': "run_each (calendar_one env) rs st = Some st'" "worker_good env st'"
    "d_projects (w_db st') = d_projects (w_db st)" "d_boards (w_db st') = d_boards (w_db st)"
    "\<forall>t \<in> set (d_tasks (w_db st')). t \<in> set (d_tasks (w_db st)) \<and> t_id t \<notin> t_id ` set rs \<or>
       t_id t \<in> t_id ` set rs \<and> \<not> calendar_due env st' t \<or> t_nextDate t = None"
    by (elim exE conjE) (rule that)
  have due: "calendar_due env st' t = calendar_due env st t" for t
    unfolding calendar_due_def by (rule due_source_tables [OF st'(3,4)])
  note wanted = calendar_wanted_tables [OF st'(3,4)]
  have a: "\<exists>r \<in> set (d_tasks (w_db st)). calendar_wanted env st r \<and> t_id r = t_id t"
    if t: "t \<in> set (d_tasks (w_db st'))" "calendar_wanted env st' t" for t
  proof -
    have "t_nextDate t \<noteq> None" using t(2) by (simp add: calendar_wanted_def)
    then consider "t \<in> set (d_tasks (w_db st))" | "t_id t \<in> t_id ` set rs" using bspec [OF st'(5) t(1)] by metis
    then show ?thesis
    proof cases
      case 1
      moreover have "calendar_wanted env st t" using t(2) by (simp only: wanted)
      ultimately show ?thesis by blast
    next
      case 2
      then obtain r where "r \<in> set rs" "t_id r = t_id t" by auto
      then show ?thesis using sub by blast
    qed
  qed
  have b: "t_id t \<notin> t_id ` set rs \<and> (\<exists>r \<in> set (d_tasks (w_db st)). calendar_due env st r \<and> t_id r = t_id t)"
    if t: "t \<in> set (d_tasks (w_db st'))" "calendar_due env st' t" for t
  proof -
    have "t_nextDate t \<noteq> None" using due_is_wanted [OF t(2)] by (simp add: calendar_wanted_def)
    then have "t \<in> set (d_tasks (w_db st))" "t_id t \<notin> t_id ` set rs" using bspec [OF st'(5) t(1)] t(2) by metis+
    moreover have "calendar_due env st t" using t(2) by (simp only: due)
    ultimately show ?thesis by blast
  qed
  show "\<exists>st'. run_each (calendar_one env) rs st = Some st' \<and> worker_good env st' \<and>
      (\<forall>r' \<in> set (d_tasks (w_db st')). calendar_wanted env st' r' \<longrightarrow> (\<exists>r \<in> set (d_tasks (w_db st)). calendar_wanted env st r \<and> t_id r = t_id r')) \<and>
      (\<forall>r' \<in> set (d_tasks (w_db st')). calendar_due env st' r' \<longrightarrow>
         t_id r' \<notin> t_id ` set rs \<and> (\<exists>r \<in> set (d_tasks (w_db st)). calendar_due env st r \<and> t_id r = t_id r'))"
    using st'(1,2) a b by blast
qed (simp_all add: worker_good_def rows_ok_def due_is_wanted)

text \<open>C20: A run of the calendar worker over the pages of an organization ends, whatever sources fail, and leaves
  no source due.\<close>

theorem calendar_run_drains:
  assumes "zone_clock (e_zone env) (e_known env)" and "clock_ok (e_now env)"
    and "\<forall>db. e_new_id env db \<notin> t_id ` set (d_tasks db)" and "rows_ok (d_tasks db)"
  shows "\<exists>res db'. processRecurringTasks env db = Some (res, db') \<and> rows_ok (d_tasks db') \<and>
    (\<forall>t \<in> set (d_tasks db'). \<not> due_source (e_zone env) (e_known env) (e_org env) (e_now env) db' t)"
proof -
  have "worker_good env (start_worker db)" using assms by (simp add: worker_good_def start_worker_def)
  then obtain st where st: "calendar_pages env None (start_worker db) = Some st" "worker_good env st"
    "\<forall>t \<in> set (d_tasks (w_db st)). \<not> calendar_due env st t"
    using calendar.pages_end [of env "start_worker db" None] unfolding calendar_pages_def by (auto simp: beyond_def)
  then show ?thesis by (auto simp: processRecurringTasks_def job_result_def worker_good_def calendar_due_def)
qed

definition fresh_name :: "recurrence_db \<Rightarrow> string" where
  "fresh_name db = CHR ''x'' # concat (map t_id (d_tasks db))"

lemma fresh_name: "fresh_name db \<notin> t_id ` set (d_tasks db)"
proof
  assume "fresh_name db \<in> t_id ` set (d_tasks db)"
  then obtain t where t: "t \<in> set (d_tasks db)" "fresh_name db = t_id t" by auto
  have "u \<in> set us \<Longrightarrow> length (t_id u) \<le> length (concat (map t_id us))" for u and us :: "task list"
    by (induction us) auto
  from this [OF t(1)] have "length (fresh_name db) \<le> length (concat (map t_id (d_tasks db)))" by (simp add: t(2))
  then show False by (simp add: fresh_name_def)
qed

definition demo_env :: worker_env where
  "demo_env = \<lparr>e_zone = utc_date, e_known = utc_zone, e_org = ''o'', e_now = demo_now, e_new_id = fresh_name\<rparr>"

lemma calendar_run_drains_witness:
  "due_source utc_date utc_zone ''o'' demo_now demo_db demo_source \<and> demo_source \<in> set (d_tasks demo_db) \<and>
   (\<exists>res db'. processRecurringTasks demo_env demo_db = Some (res, db') \<and> rows_ok (d_tasks db') \<and>
     (\<forall>t \<in> set (d_tasks db'). \<not> due_source utc_date utc_zone ''o'' demo_now db' t))"
  using calendar_run_drains [of demo_env demo_db] utc.zone_clock_axioms demo_clock demo_rows fresh_name demo_due
  by (simp add: demo_env_def) (simp add: demo_db_def)

subsection \<open>The completion worker\<close>

definition completion_one :: "worker_env \<Rightarrow> string \<Rightarrow> task \<Rightarrow> worker_state \<Rightarrow> worker_state option" where
  "completion_one env source candidate st =
     map_option (\<lambda>out. count_outcome (t_id candidate) out st)
       (completion_source (e_zone env) (e_known env) (e_org env) (e_now env) (e_new_id env (w_db st)) source (t_id candidate) (w_db st))"

definition completion_wanted :: "worker_env \<Rightarrow> string \<Rightarrow> worker_state \<Rightarrow> task \<Rightarrow> bool" where
  "completion_wanted env source st t \<longleftrightarrow>
     t_deletedAt t = None \<and> in_org (e_org env) (w_db st) t \<and> completion_candidate (e_org env) (w_db st) source t \<and> t_firstCompletedAt t \<noteq> None"

definition root_wanted :: "worker_env \<Rightarrow> worker_state \<Rightarrow> task \<Rightarrow> bool" where
  "root_wanted env st t \<longleftrightarrow>
     t_deletedAt t = None \<and> in_org (e_org env) (w_db st) t \<and> activeBoard (w_db st) t \<and> t_sourceId t = None \<and>
     stored_after_completion (t_rule t) \<and> activeProject (w_db st) t"

definition root_completions :: "worker_env \<Rightarrow> task \<Rightarrow> worker_state \<Rightarrow> worker_state option" where
  "root_completions env source =
     paged (\<lambda>after st. page_of t_id (completion_wanted env (t_id source) st) after (d_tasks (w_db st))) t_id
       (run_each (completion_one env (t_id source))) None"

definition completion_pages :: "worker_env \<Rightarrow> string option \<Rightarrow> worker_state \<Rightarrow> worker_state option" where
  "completion_pages env =
     paged (\<lambda>after st. page_of t_id (root_wanted env st) after (d_tasks (w_db st))) t_id (run_each (root_completions env))"

definition processCompletionRepeats :: "worker_env \<Rightarrow> recurrence_db \<Rightarrow> (((string \<times> task_error) list + nat \<times> nat) \<times> recurrence_db) option" where
  "processCompletionRepeats env db = map_option job_result (completion_pages env None (start_worker db))"

text \<open>A completed task that has its repeat still to come: its source is live and has a valid rule.\<close>

definition repeat_due :: "worker_env \<Rightarrow> string \<Rightarrow> worker_state \<Rightarrow> task \<Rightarrow> bool" where
  "repeat_due env source st t \<longleftrightarrow>
     completion_wanted env source st t \<and>
     (\<exists>r \<in> set (d_tasks (w_db st)). t_id r = source \<and> root_wanted env st r \<and> t_project r = t_project t \<and>
        Option.bind (t_rule r) (parse_rule (e_known env)) \<noteq> None)"

text \<open>What a run of the worker does to the tables: it adds pending copies and marks completions.\<close>

definition evolves :: "worker_env \<Rightarrow> worker_state \<Rightarrow> worker_state \<Rightarrow> bool" where
  "evolves env st st' \<longleftrightarrow>
     d_projects (w_db st') = d_projects (w_db st) \<and> d_boards (w_db st') = d_boards (w_db st) \<and>
     (\<forall>t \<in> set (d_tasks (w_db st')). t_status t = ''PENDING'' \<and> t_firstCompletedAt t = None \<and> t_rule t = None \<or>
        t \<in> set (d_tasks (w_db st)) \<or> (\<exists>u \<in> set (d_tasks (w_db st)). t = processed_row (e_now env) u))"

definition repeat_good :: "worker_env \<Rightarrow> worker_state \<Rightarrow> bool" where
  "repeat_good env st \<longleftrightarrow>
     zone_clock (e_zone env) (e_known env) \<and> (\<forall>db. e_new_id env db \<notin> t_id ` set (d_tasks db)) \<and> rows_ok (d_tasks (w_db st)) \<and>
     (\<forall>t \<in> set (d_tasks (w_db st)). \<forall>x. t_firstCompletedAt t = Some x \<longrightarrow> clock_ok x)"

lemma evolves_refl: "evolves env st st"
  by (simp add: evolves_def)

lemma processed_twice: "processed_row now (processed_row now t) = processed_row now t"
  by (simp add: processed_row_def)

definition pending_copy :: "task \<Rightarrow> bool" where
  "pending_copy t \<longleftrightarrow> t_status t = ''PENDING'' \<and> t_firstCompletedAt t = None \<and> t_rule t = None"

lemma evolves_cases:
  assumes "evolves env st st'" and "t \<in> set (d_tasks (w_db st'))"
  obtains "pending_copy t" | "t \<in> set (d_tasks (w_db st))" | u where "u \<in> set (d_tasks (w_db st))" "t = processed_row (e_now env) u"
  using assms unfolding evolves_def pending_copy_def by metis

lemma evolves_trans:
  assumes e: "evolves env a b" "evolves env b c"
  shows "evolves env a c"
proof -
  have "pending_copy t \<or> t \<in> set (d_tasks (w_db a)) \<or> (\<exists>u \<in> set (d_tasks (w_db a)). t = processed_row (e_now env) u)"
    if t: "t \<in> set (d_tasks (w_db c))" for t
    using e(2) t
  proof (cases rule: evolves_cases)
    case 2
    from e(1) this show ?thesis by (cases rule: evolves_cases) auto
  next
    case (3 u)
    have "pending_copy (processed_row now v) = pending_copy v" for v now by (simp add: pending_copy_def processed_row_def)
    with e(1) 3(1) show ?thesis unfolding 3(2) by (cases rule: evolves_cases) (auto simp: processed_twice)
  qed simp
  then show ?thesis using e unfolding evolves_def pending_copy_def by simp
qed

lemma tables_same:
  assumes "evolves env st st'"
  shows "in_org org (w_db st') t = in_org org (w_db st) t" "activeBoard (w_db st') t = activeBoard (w_db st) t"
    "activeProject (w_db st') t = activeProject (w_db st) t"
proof -
  have e: "d_projects (w_db st') = d_projects (w_db st)" "d_boards (w_db st') = d_boards (w_db st)" using assms by (simp_all add: evolves_def)
  show "in_org org (w_db st') t = in_org org (w_db st) t" "activeBoard (w_db st') t = activeBoard (w_db st) t"
    "activeProject (w_db st') t = activeProject (w_db st) t"
    by (simp_all only: in_org_def project_of_def activeBoard_def activeProject_def e)
qed

lemma processed_row_same:
  "in_org org db (processed_row now t) = in_org org db t" "activeBoard db (processed_row now t) = activeBoard db t"
  "activeProject db (processed_row now t) = activeProject db t" "t_id (processed_row now t) = t_id t"
  "t_sourceId (processed_row now t) = t_sourceId t" "t_rule (processed_row now t) = t_rule t" "t_project (processed_row now t) = t_project t"
  "t_deletedAt (processed_row now t) = t_deletedAt t" "t_processedAt (processed_row now t) = Some now"
  by (simp_all add: processed_row_def in_org_def activeBoard_def activeProject_def project_of_def)

lemma root_wanted_evolves:
  assumes e: "evolves env st st'" and r: "r \<in> set (d_tasks (w_db st'))" "root_wanted env st' r"
  shows "\<exists>u \<in> set (d_tasks (w_db st)). root_wanted env st u \<and> t_id u = t_id r \<and> t_rule u = t_rule r \<and> t_project u = t_project r"
proof -
  have "t_rule r \<noteq> None" using r(2) by (auto simp: root_wanted_def stored_after_completion_def split: option.splits)
  then consider "r \<in> set (d_tasks (w_db st))" | u where "u \<in> set (d_tasks (w_db st))" "r = processed_row (e_now env) u"
    using e r(1) unfolding evolves_def by metis
  then show ?thesis
  proof cases
    case 1
    then show ?thesis using r(2) by (intro bexI [of _ r]) (simp_all add: root_wanted_def tables_same [OF e])
  next
    case 2
    then show ?thesis using r(2) by (intro bexI [of _ u]) (simp_all add: root_wanted_def tables_same [OF e] processed_row_same)
  qed
qed

lemma wanted_evolves:
  assumes e: "evolves env st st'" and t: "t \<in> set (d_tasks (w_db st'))" "completion_wanted env source st' t"
  shows "t \<in> set (d_tasks (w_db st))" and "completion_wanted env source st t"
proof -
  show "t \<in> set (d_tasks (w_db st))"
    using e t unfolding evolves_def by (auto simp: completion_wanted_def completion_candidate_def processed_row_same)
  show "completion_wanted env source st t"
    using t(2) by (simp add: completion_wanted_def completion_candidate_def tables_same [OF e])
qed

lemma repeat_due_evolves:
  assumes e: "evolves env st st'" and t: "t \<in> set (d_tasks (w_db st'))" "repeat_due env source st' t"
  shows "t \<in> set (d_tasks (w_db st))" and "repeat_due env source st t"
proof -
  have w: "completion_wanted env source st' t" using t(2) by (simp add: repeat_due_def)
  show "t \<in> set (d_tasks (w_db st))" using wanted_evolves [OF e t(1) w] by simp
  obtain r where "r \<in> set (d_tasks (w_db st'))" "t_id r = source" "root_wanted env st' r" "t_project r = t_project t"
    "Option.bind (t_rule r) (parse_rule (e_known env)) \<noteq> None"
    using t(2) by (auto simp: repeat_due_def)
  then show "repeat_due env source st t"
    using root_wanted_evolves [OF e, of r] wanted_evolves [OF e t(1) w] unfolding repeat_due_def by metis
qed

lemma lock_same: "(\<And>t. P t \<Longrightarrow> t_revision t = n) \<Longrightarrow> update_rows P (lock_row n) ts = ts"
  by (induction ts) (auto simp: lock_row_def)

context zone_clock
begin

lemma repeat_date:
  assumes "rule_valid isTimeZone r" and "clock_ok completedAt"
  shows "\<exists>s. completionRepeatDate dateInZone r completedAt = Some (Inr s) \<and> valid_text s"
proof -
  let ?d = "dateInZone completedAt (timeZone r)"
  have z: "valid_text ?d" "?d < ''9900''" using zone_date [OF _ assms(2), of "timeZone r"] assms(1) by (simp_all add: rule_valid_def)
  then have "\<exists>s. recurrenceAfter (r\<lparr>startDate := ?d\<rparr>) ?d = Some (Inr s) \<and> next_of (r\<lparr>startDate := ?d\<rparr>) ?d s"
    using assms(1) by (intro next_after) (simp_all add: rule_valid_def)
  then show ?thesis by (auto simp: completionRepeatDate_def next_of_def)
qed

text \<open>The worker's transaction returns, and a due completion is copied and marked.\<close>

lemma completion_returns:
  assumes "\<And>t x. t \<in> set (d_tasks db) \<Longrightarrow> t_firstCompletedAt t = Some x \<Longrightarrow> clock_ok x"
  shows "completion_source dateInZone isTimeZone org now ident source k db \<noteq> None"
proof
  assume "completion_source dateInZone isTimeZone org now ident source k db = None"
  then obtain live completedAt r original where l: "find_task org db (\<lambda>t. t_id t = k \<and> completion_candidate org db source t) = Some live"
    "t_firstCompletedAt live = Some completedAt" "Option.bind (t_rule original) (parse_rule isTimeZone) = Some r"
    "completion_copy dateInZone org now ident r live completedAt original db = None"
    by (auto simp: completion_source_def split: option.splits if_splits)
  have "rule_valid isTimeZone r" using l(3) parse_rule_valid by (cases "t_rule original") auto
  moreover have "clock_ok completedAt" using assms find_task_SomeD [OF l(1)] l(2) by blast
  ultimately show False using repeat_date [of r completedAt] l(4)
    by (auto simp: completion_copy_def Let_def asDate_valid split: if_splits sum.splits)
qed

lemma completion_made:
  assumes ok: "rows_ok (d_tasks db)" and fresh: "ident \<notin> t_id ` set (d_tasks db)"
    and live: "find_task org db (\<lambda>t. t_id t = k \<and> completion_candidate org db source t) = Some live" "t_firstCompletedAt live = Some x" "clock_ok x"
    and original: "find_task org db (\<lambda>t. t_id t = source \<and> activeBoard db t \<and> t_project t = t_project live \<and> activeProject db t) = Some original"
      "stored_after_completion (t_rule original)" "t_sourceId original = None" "Option.bind (t_rule original) (parse_rule isTimeZone) = Some r"
  shows "\<exists>c db'. completion_source dateInZone isTimeZone org now ident source k db = Some (Inr (Some c, db'))"
proof -
  have v: "rule_valid isTimeZone r" using original(4) parse_rule_valid by (cases "t_rule original") auto
  obtain s where s: "completionRepeatDate dateInZone r x = Some (Inr s)" "valid_text s" using repeat_date [OF v live(3)] by blast
  have l: "live \<in> set (d_tasks db)" "in_org org db live" "t_status live = ''COMPLETED''" "t_processedAt live = None"
    using live(1) by (auto simp: find_task_def completion_candidate_def dest!: find_row_SomeD)
  have o': "original \<in> set (d_tasks db)" "in_org org db original"
    using original(1) by (auto simp: find_task_def dest!: find_row_SomeD)
  let ?S = "\<lambda>t. in_org org db t \<and> t_id t = t_id original \<and> t_revision t = t_revision original \<and> stored_after_completion (t_rule t)"
  let ?C = "\<lambda>t. in_org org db t \<and> t_id t = t_id live \<and> t_status t = ''COMPLETED'' \<and> t_processedAt t = None"
  have d: "distinct (map t_id (d_tasks db))" using ok by (simp add: rows_ok_def)
  have one: "count_rows ?S (d_tasks db) = 1" "count_rows ?C (d_tasks db) = 1"
    using count_rows_pos [OF o'(1), of ?S] count_by_key [OF d, of ?S "t_id original"]
      count_rows_pos [OF l(1), of ?C] count_by_key [OF d, of ?C "t_id live"] o'(2) original(2) l by auto
  have copy: "completion_copy dateInZone org now ident r live x original db \<noteq> Some (Inl UniqueViolation)"
    using completion_copy_ok [OF ok fresh] by blast
  have "completion_source dateInZone isTimeZone org now ident source k db = completion_copy dateInZone org now ident r live x original db"
    using live original by (simp add: completion_source_def given_def)
  moreover have "\<exists>c db'. completion_copy dateInZone org now ident r live x original db = Some (Inr (Some c, db'))"
    using one s copy asDate_valid(1) [OF s(2)]
    by (auto simp: completion_copy_def Let_def copyRecurringTask_def split: sum.splits prod.splits if_splits)
  ultimately show ?thesis by simp
qed

end

lemma find_task_unique:
  assumes "rows_ok (d_tasks db)" and "t \<in> set (d_tasks db)" and "t_deletedAt t = None" "in_org org db t" "P t"
    and "\<And>u. P u \<Longrightarrow> t_id u = t_id t"
  shows "find_task org db P = Some t"
proof -
  have "find_task org db P \<noteq> None" using assms(2-5) by (auto simp: find_task_def find_row_None_iff)
  then obtain u where u: "find_task org db P = Some u" by blast
  then show ?thesis using row_by_id [OF assms(1) _ assms(2)] find_task_SomeD [OF u] assms(6) by metis
qed

text \<open>The tables after one transaction of the completion worker.\<close>

lemma completion_shape:
  assumes ok: "rows_ok (d_tasks db)" and fresh: "ident \<notin> t_id ` set (d_tasks db)"
    and out: "completion_source dz tz org now ident source k db = Some (Inr (v, db'))"
  shows "v = None \<and> db' = db \<or>
    (\<exists>c. v = Some c \<and> rows_ok (d_tasks db') \<and> pending_copy c \<and> t_id c = ident \<and> k \<in> t_id ` set (d_tasks db) \<and>
       d_projects db' = d_projects db \<and> d_boards db' = d_boards db \<and>
       d_tasks db' = update_rows (\<lambda>t. in_org org db t \<and> t_id t = k \<and> t_status t = ''COMPLETED'' \<and> t_processedAt t = None) (processed_row now) (d_tasks db) @ [c])"
proof -
  let ?live = "find_task org db (\<lambda>t. t_id t = k \<and> completion_candidate org db source t)"
  have "v = None \<and> db' = db \<or> (\<exists>r live x original. ?live = Some live \<and> completion_copy dz org now ident r live x original db = Some (Inr (v, db')))"
  proof (cases ?live)
    case (Some live)
    show ?thesis
    proof (cases "t_firstCompletedAt live")
      case x: (Some x)
      show ?thesis
      proof (cases "find_task org db (\<lambda>t. t_id t = source \<and> activeBoard db t \<and> t_project t = t_project live \<and> activeProject db t)")
        case original: (Some original)
        show ?thesis
          using out Some x original by (cases "Option.bind (t_rule original) (parse_rule tz)") (simp_all add: completion_source_def split: if_splits, metis)
      qed (use out Some x in \<open>simp add: completion_source_def\<close>)
    qed (use out Some in \<open>simp add: completion_source_def\<close>)
  qed (use out in \<open>simp add: completion_source_def\<close>)
  then consider "v = None \<and> db' = db" | r live x original where "?live = Some live"
      "completion_copy dz org now ident r live x original db = Some (Inr (v, db'))"
    by metis
  then show ?thesis
  proof cases
    case 2
    have live: "live \<in> set (d_tasks db)" "t_id live = k" using find_task_SomeD [OF 2(1)] by simp_all
    have lock: "update_rows (\<lambda>t. in_org org db t \<and> t_id t = t_id original \<and> t_revision t = t_revision original \<and> stored_after_completion (t_rule t))
        (lock_row (t_revision original)) (d_tasks db) = d_tasks db"
      by (rule lock_same) simp
    show ?thesis
      using completion_copy_ok [OF ok fresh, of dz org now r live x original, THEN conjunct2, rule_format, OF 2(2)] live
      by (auto simp: pending_copy_def lock)
  qed blast
qed

lemma due_repeat_made:
  assumes good: "repeat_good env st" and t: "t \<in> set (d_tasks (w_db st))" "repeat_due env source st t"
  shows "\<exists>cp db'. completion_source (e_zone env) (e_known env) (e_org env) (e_now env) (e_new_id env (w_db st)) source (t_id t) (w_db st) = Some (Inr (Some cp, db'))"
proof -
  let ?db = "w_db st"
  have g: "zone_clock (e_zone env) (e_known env)" "e_new_id env ?db \<notin> t_id ` set (d_tasks ?db)" "rows_ok (d_tasks ?db)"
    using good by (simp_all add: repeat_good_def)
  have w: "completion_wanted env source st t" using t(2) by (simp add: repeat_due_def)
  then obtain x where x: "t_firstCompletedAt t = Some x" by (auto simp: completion_wanted_def)
  have ck: "clock_ok x" using good t(1) x by (simp add: repeat_good_def)
  obtain r where r: "r \<in> set (d_tasks ?db)" "t_id r = source" "root_wanted env st r" "t_project r = t_project t"
    "Option.bind (t_rule r) (parse_rule (e_known env)) \<noteq> None"
    using t(2) by (auto simp: repeat_due_def)
  then obtain rl where rl: "Option.bind (t_rule r) (parse_rule (e_known env)) = Some rl" by blast
  have live: "find_task (e_org env) ?db (\<lambda>u. t_id u = t_id t \<and> completion_candidate (e_org env) ?db source u) = Some t"
    using w by (intro find_task_unique [OF g(3) t(1)]) (simp_all add: completion_wanted_def)
  have original: "find_task (e_org env) ?db (\<lambda>u. t_id u = source \<and> activeBoard ?db u \<and> t_project u = t_project t \<and> activeProject ?db u) = Some r"
    using r by (intro find_task_unique [OF g(3) r(1)]) (simp_all add: root_wanted_def)
  show ?thesis
    using r(3) by (intro zone_clock.completion_made [OF g(1,3,2) live x ck original _ _ rl]) (simp_all add: root_wanted_def)
qed

lemma completion_one_effect:
  assumes good: "repeat_good env st"
  shows "\<exists>st'. completion_one env source c st = Some st' \<and> repeat_good env st' \<and> evolves env st st' \<and>
    (\<forall>t \<in> set (d_tasks (w_db st')). t_id t = t_id c \<longrightarrow> \<not> repeat_due env source st' t)"
proof -
  let ?db = "w_db st"
  let ?id = "e_new_id env ?db"
  let ?out = "completion_source (e_zone env) (e_known env) (e_org env) (e_now env) ?id source (t_id c) ?db"
  have g: "zone_clock (e_zone env) (e_known env)" "?id \<notin> t_id ` set (d_tasks ?db)" "rows_ok (d_tasks ?db)"
    "\<And>t x. t \<in> set (d_tasks ?db) \<Longrightarrow> t_firstCompletedAt t = Some x \<Longrightarrow> clock_ok x"
    using good unfolding repeat_good_def by blast+
  obtain out where out: "?out = Some out"
    using zone_clock.completion_returns [OF g(1), of ?db "e_org env" "e_now env" ?id source "t_id c"] g(4) by blast
  let ?st = "count_outcome (t_id c) out st"
  have one: "completion_one env source c st = Some ?st" using out by (simp add: completion_one_def)
  show ?thesis
  proof (cases "\<exists>cp db'. out = Inr (Some cp, db')")
    case False
    have db: "w_db ?st = ?db"
    proof (cases out)
      case (Inr p)
      obtain v db' where p: "p = (v, db')" by (cases p)
      have v: "v = None" using False unfolding Inr p by (cases v) auto
      have "?out = Some (Inr (v, db'))" using out unfolding Inr p .
      from completion_shape [OF g(3,2) this] have "db' = ?db" using v by auto
      then show ?thesis by (simp add: count_outcome_def Inr p v)
    qed (simp add: count_outcome_def)
    have due: "repeat_due env source ?st t = repeat_due env source st t" for t
      by (simp add: repeat_due_def completion_wanted_def root_wanted_def db)
    have "\<not> repeat_due env source ?st t" if "t \<in> set (d_tasks ?db)" "t_id t = t_id c" for t
      using due_repeat_made [OF good that(1), of source] False out unfolding due that(2) by auto
    then show ?thesis using one good by (intro exI [of _ ?st]) (simp add: repeat_good_def evolves_def db)
  next
    case True
    then obtain cp db' where cp: "out = Inr (Some cp, db')" by blast
    have db: "w_db ?st = db'" by (simp add: count_outcome_def cp)
    let ?C = "\<lambda>t. in_org (e_org env) ?db t \<and> t_id t = t_id c \<and> t_status t = ''COMPLETED'' \<and> t_processedAt t = None"
    have s: "rows_ok (d_tasks db')" "pending_copy cp" "t_id cp = ?id" "t_id c \<in> t_id ` set (d_tasks ?db)"
      "d_projects db' = d_projects ?db" "d_boards db' = d_boards ?db"
      "d_tasks db' = update_rows ?C (processed_row (e_now env)) (d_tasks ?db) @ [cp]"
      using completion_shape [OF g(3,2), of "e_zone env" "e_known env" "e_org env" "e_now env" source "t_id c" "Some cp" db'] out cp by auto
    have e: "evolves env st ?st" using s(2,5,6) by (auto simp: evolves_def db s(7) set_update_rows pending_copy_def)
    have clocks: "clock_ok x" if "t \<in> set (d_tasks db')" "t_firstCompletedAt t = Some x" for t x
      using that g(4) s(2) by (auto simp: s(7) set_update_rows pending_copy_def processed_row_def)
    have "\<not> repeat_due env source ?st t" if t: "t \<in> set (d_tasks db')" "t_id t = t_id c" for t
    proof
      assume "repeat_due env source ?st t"
      then have w: "t_status t = ''COMPLETED''" "t_processedAt t = None" "in_org (e_org env) ?db t"
        using tables_same(1) [OF e] by (auto simp: repeat_due_def completion_wanted_def completion_candidate_def)
      then show False using t s(2) by (auto simp: s(7) set_update_rows pending_copy_def processed_row_same)
    qed
    then show ?thesis
      using one good e s(1) clocks by (intro exI [of _ ?st]) (auto simp: repeat_good_def db)
  qed
qed

lemma completion_page_effect:
  assumes "repeat_good env st"
  shows "\<exists>st'. run_each (completion_one env source) rs st = Some st' \<and> repeat_good env st' \<and> evolves env st st' \<and>
    (\<forall>t \<in> set (d_tasks (w_db st')). t_id t \<in> t_id ` set rs \<longrightarrow> \<not> repeat_due env source st' t)"
  using assms
proof (induction rs arbitrary: st)
  case Nil
  then show ?case by (simp add: evolves_refl)
next
  case (Cons c rs)
  obtain st1 where st1: "completion_one env source c st = Some st1" "repeat_good env st1" "evolves env st st1"
    "\<forall>t \<in> set (d_tasks (w_db st1)). t_id t = t_id c \<longrightarrow> \<not> repeat_due env source st1 t"
    using completion_one_effect [OF Cons.prems, of source c] by blast
  from Cons.IH [OF st1(2)] obtain st2 where st2: "run_each (completion_one env source) rs st1 = Some st2" "repeat_good env st2"
    "evolves env st1 st2" "\<forall>t \<in> set (d_tasks (w_db st2)). t_id t \<in> t_id ` set rs \<longrightarrow> \<not> repeat_due env source st2 t"
    by blast
  have "\<not> repeat_due env source st2 t" if t: "t \<in> set (d_tasks (w_db st2))" "t_id t \<in> t_id ` set (c # rs)" for t
  proof
    assume due: "repeat_due env source st2 t"
    then have "t_id t = t_id c" using t st2(4) by auto
    then show False using st1(4) repeat_due_evolves [OF st2(3) t(1) due] by blast
  qed
  then show ?case using st1(1) st2(1,2) evolves_trans [OF st1(3) st2(3)] by simp
qed

interpretation completions: paging "\<lambda>p st. d_tasks (w_db st)" t_id "\<lambda>(env, source, st0). completion_wanted env source"
  "\<lambda>(env, source, st0). run_each (completion_one env source)"
  "\<lambda>(env, source, st0) st. repeat_good env st \<and> evolves env st0 st" "\<lambda>(env, source, st0). repeat_due env source"
proof (unfold_locales, goal_cases)
  case (1 p st)
  then show ?case by (auto simp: repeat_good_def rows_ok_def split: prod.splits)
next
  case (2 p st t)
  then show ?case by (auto simp: repeat_due_def split: prod.splits)
next
  case (3 p st rs)
  obtain env source st0 where p: "p = (env, source, st0)" by (cases p)
  have good: "repeat_good env st" "evolves env st0 st" using 3(1) by (simp_all add: p)
  obtain st' where st': "run_each (completion_one env source) rs st = Some st'" "repeat_good env st'" "evolves env st st'"
    "\<forall>t \<in> set (d_tasks (w_db st')). t_id t \<in> t_id ` set rs \<longrightarrow> \<not> repeat_due env source st' t"
    using completion_page_effect [OF good(1)] by blast
  show ?case
    unfolding p prod.case
  proof (intro exI [of _ st'] conjI ballI impI)
    show "evolves env st0 st'" using evolves_trans [OF good(2) st'(3)] .
    fix t assume t: "t \<in> set (d_tasks (w_db st'))"
    show "\<exists>r \<in> set (d_tasks (w_db st)). completion_wanted env source st r \<and> t_id r = t_id t" if "completion_wanted env source st' t"
      using wanted_evolves [OF st'(3) t that] by blast
    assume due: "repeat_due env source st' t"
    show "t_id t \<notin> t_id ` set rs" using st'(4) t due by blast
    show "\<exists>r \<in> set (d_tasks (w_db st)). repeat_due env source st r \<and> t_id r = t_id t"
      using repeat_due_evolves [OF st'(3) t due] by blast
  qed (use st' in simp_all)
qed

lemma root_completions_effect:
  assumes "repeat_good env st"
  shows "\<exists>st'. root_completions env src st = Some st' \<and> repeat_good env st' \<and> evolves env st st' \<and>
    (\<forall>t \<in> set (d_tasks (w_db st')). \<not> repeat_due env (t_id src) st' t)"
  using completions.pages_end [of "(env, t_id src, st)" st None] assms evolves_refl
  by (simp add: root_completions_def beyond_def)

text \<open>A source with a repeat still to come.\<close>

definition root_due :: "worker_env \<Rightarrow> worker_state \<Rightarrow> task \<Rightarrow> bool" where
  "root_due env st r \<longleftrightarrow> list_ex (repeat_due env (t_id r) st) (d_tasks (w_db st))"

lemma roots_page_effect:
  assumes "repeat_good env st"
  shows "\<exists>st'. run_each (root_completions env) rs st = Some st' \<and> repeat_good env st' \<and> evolves env st st' \<and>
    (\<forall>k \<in> t_id ` set rs. \<forall>t \<in> set (d_tasks (w_db st')). \<not> repeat_due env k st' t)"
  using assms
proof (induction rs arbitrary: st)
  case Nil
  then show ?case by (simp add: evolves_refl)
next
  case (Cons c rs)
  obtain st1 where st1: "root_completions env c st = Some st1" "repeat_good env st1" "evolves env st st1"
    "\<forall>t \<in> set (d_tasks (w_db st1)). \<not> repeat_due env (t_id c) st1 t"
    using root_completions_effect [OF Cons.prems, of c] by blast
  from Cons.IH [OF st1(2)] obtain st2 where st2: "run_each (root_completions env) rs st1 = Some st2" "repeat_good env st2" "evolves env st1 st2"
    "\<forall>k \<in> t_id ` set rs. \<forall>t \<in> set (d_tasks (w_db st2)). \<not> repeat_due env k st2 t"
    by blast
  have "\<not> repeat_due env k st2 t" if t: "k \<in> t_id ` set (c # rs)" "t \<in> set (d_tasks (w_db st2))" for k t
  proof
    assume due: "repeat_due env k st2 t"
    then have "k = t_id c" using t st2(4) by auto
    then show False using st1(4) repeat_due_evolves [OF st2(3) t(2) due] by auto
  qed
  then show ?case using st1(1) st2(1,2) evolves_trans [OF st1(3) st2(3)] by simp
qed

interpretation roots: paging "\<lambda>env st. d_tasks (w_db st)" t_id root_wanted "\<lambda>env. run_each (root_completions env)" repeat_good root_due
proof (unfold_locales, goal_cases)
  case (1 env st)
  then show ?case by (simp add: repeat_good_def rows_ok_def)
next
  case (2 env st r)
  then obtain u where "u \<in> set (d_tasks (w_db st))" "t_id u = t_id r" "root_wanted env st u"
    by (auto simp: root_due_def list_ex_iff repeat_due_def)
  moreover have "rows_ok (d_tasks (w_db st))" using 2(1) by (simp add: repeat_good_def)
  ultimately show ?case using row_by_id 2(2) by metis
next
  case (3 env st rs)
  obtain st' where st': "run_each (root_completions env) rs st = Some st'" "repeat_good env st'" "evolves env st st'"
    "\<forall>k \<in> t_id ` set rs. \<forall>t \<in> set (d_tasks (w_db st')). \<not> repeat_due env k st' t"
    using roots_page_effect [OF 3(1)] by blast
  show ?case
  proof (intro exI [of _ st'] conjI ballI impI)
    fix r assume r: "r \<in> set (d_tasks (w_db st'))"
    show "\<exists>u \<in> set (d_tasks (w_db st)). root_wanted env st u \<and> t_id u = t_id r" if "root_wanted env st' r"
      using root_wanted_evolves [OF st'(3) r that] by blast
    assume due: "root_due env st' r"
    then obtain t where t: "t \<in> set (d_tasks (w_db st'))" "repeat_due env (t_id r) st' t" by (auto simp: root_due_def list_ex_iff)
    show "t_id r \<notin> t_id ` set rs" using st'(4) t by blast
    have d: "t \<in> set (d_tasks (w_db st))" "repeat_due env (t_id r) st t" using repeat_due_evolves [OF st'(3) t] by simp_all
    then obtain u where u: "u \<in> set (d_tasks (w_db st))" "t_id u = t_id r" by (auto simp: repeat_due_def)
    then show "\<exists>u \<in> set (d_tasks (w_db st)). root_due env st u \<and> t_id u = t_id r"
      using d by (intro bexI [of _ u]) (auto simp: root_due_def list_ex_iff)
  qed (use st' in simp_all)
qed

text \<open>C13: A run of the completion worker, pages of completed tasks within pages of sources, ends and leaves no
  completed task whose repeat is due.\<close>

theorem completion_run_drains:
  assumes "zone_clock (e_zone env) (e_known env)" and "\<forall>db. e_new_id env db \<notin> t_id ` set (d_tasks db)" and "rows_ok (d_tasks db)"
    and "\<forall>t \<in> set (d_tasks db). \<forall>x. t_firstCompletedAt t = Some x \<longrightarrow> clock_ok x"
  shows "\<exists>st. completion_pages env None (start_worker db) = Some st \<and> processCompletionRepeats env db = Some (job_result st) \<and>
    rows_ok (d_tasks (w_db st)) \<and>
    (\<forall>r \<in> set (d_tasks (w_db st)). \<forall>t \<in> set (d_tasks (w_db st)). \<not> repeat_due env (t_id r) st t)"
proof -
  have "repeat_good env (start_worker db)" using assms by (simp add: repeat_good_def start_worker_def)
  then obtain st where st: "completion_pages env None (start_worker db) = Some st" "repeat_good env st"
    "\<forall>r \<in> set (d_tasks (w_db st)). \<not> root_due env st r"
    using roots.pages_end [of env "start_worker db" None] unfolding completion_pages_def by (auto simp: beyond_def)
  then show ?thesis by (auto simp: processCompletionRepeats_def repeat_good_def root_due_def list_ex_iff)
qed

definition demo_done :: task where
  "demo_done = demo_source\<lparr>t_status := ''COMPLETED'', t_firstCompletedAt := Some demo_now, t_nextDate := None,
     t_rule := Some (rule_json (demo_rule\<lparr>trigger := Some AFTER_COMPLETION\<rparr>))\<rparr>"

definition demo_done_db :: recurrence_db where
  "demo_done_db = demo_db\<lparr>d_tasks := [demo_done]\<rparr>"

lemma demo_done_rows: "rows_ok (d_tasks demo_done_db)"
  by (simp add: rows_ok_def demo_done_db_def demo_done_def demo_source_def dates_ok_def parents_known_def covered_def same_occurrence_def)

lemma demo_done_due: "repeat_due demo_env ''s'' (start_worker demo_done_db) demo_done"
proof -
  have "completion_wanted demo_env ''s'' (start_worker demo_done_db) demo_done" by code_simp
  moreover have "t_id demo_done = ''s'' \<and> root_wanted demo_env (start_worker demo_done_db) demo_done \<and>
      Option.bind (t_rule demo_done) (parse_rule (e_known demo_env)) \<noteq> None"
    by code_simp
  moreover have "demo_done \<in> set (d_tasks (w_db (start_worker demo_done_db)))" by (simp add: start_worker_def demo_done_db_def)
  ultimately show ?thesis unfolding repeat_due_def by blast
qed

lemma completion_run_drains_witness:
  "repeat_due demo_env ''s'' (start_worker demo_done_db) demo_done \<and>
   (\<exists>st. processCompletionRepeats demo_env demo_done_db = Some (job_result st) \<and>
     (\<forall>r \<in> set (d_tasks (w_db st)). \<forall>t \<in> set (d_tasks (w_db st)). \<not> repeat_due demo_env (t_id r) st t))"
proof (rule conjI [OF demo_done_due])
  have z: "zone_clock (e_zone demo_env) (e_known demo_env)" "\<forall>db. e_new_id demo_env db \<notin> t_id ` set (d_tasks db)"
    using utc.zone_clock_axioms fresh_name by (simp_all add: demo_env_def)
  have "\<forall>t \<in> set (d_tasks demo_done_db). \<forall>x. t_firstCompletedAt t = Some x \<longrightarrow> clock_ok x"
    using demo_clock by (simp add: demo_done_db_def demo_done_def)
  from completion_run_drains [OF z demo_done_rows this]
  show "\<exists>st. processCompletionRepeats demo_env demo_done_db = Some (job_result st) \<and>
     (\<forall>r \<in> set (d_tasks (w_db st)). \<forall>t \<in> set (d_tasks (w_db st)). \<not> repeat_due demo_env (t_id r) st t)"
    by metis
qed

end
