(* ===== verification/Invoice_Numbers.thy ===== *)
theory Invoice_Numbers
  imports Money Recurrence "HOL-Library.AList" "HOL-Library.Sublist"
begin

section \<open>Invoice numbers and the creation of invoices\<close>

text \<open>
  Models \<^verbatim>\<open>src/utils/invoice.js\<close> and the route \<open>POST /from-proposal/:proposalId\<close> of
  \<^verbatim>\<open>src/routes/invoice.routes.js\<close>. The counter row of an organization and year is locked by the
  increment until the transaction ends, so a creation is one step; a transaction that throws leaves the
  database as it was, its increments included. The unique constraints of the invoice table on the number
  within an organization and on the proposal are part of the model. The database trigger that derives the
  organization of an invoice from its client agrees with what the code writes.
\<close>

subsection \<open>Invoices\<close>

datatype bill_status = DRAFT | SENT | VIEWED | OVERDUE | PAID | VOID

record bill_line =
  bl_description :: string
  bl_itemType :: string
  bl_quantity :: jsnum
  bl_unitPrice :: jsnum
  bl_total :: jsnum
  bl_position :: "int option"

record bill =
  v_id :: string
  v_org :: string
  v_number :: string
  v_client :: string
  v_status :: bill_status
  v_title :: "string option"
  v_notes :: "string option"
  v_currency :: string
  v_taxRate :: jsnum
  v_taxType :: string
  v_discount :: jsnum
  v_subtotal :: jsnum
  v_tax :: jsnum
  v_total :: jsnum
  v_project :: "string option"
  v_proposal :: "string option"
  v_createdBy :: string
  v_issueDate :: timestamp
  v_sentAt :: "timestamp option"
  v_voidedAt :: "timestamp option"
  v_voidedFrom :: "bill_status option"
  v_isRecurring :: bool
  v_interval :: "string option"
  v_nextDate :: "timestamp option"
  v_lines :: "bill_line list"
  v_deletedAt :: "timestamp option"
  v_updatedAt :: timestamp

record client_row =
  cl_id :: string
  cl_org :: string
  cl_deletedAt :: "timestamp option"

record billing_project =
  bp_id :: string
  bp_org :: string

record billing_user =
  bu_id :: string
  bu_org :: string

record billing_db =
  bd_clients :: "client_row list"
  bd_projects :: "billing_project list"
  bd_users :: "billing_user list"
  bd_proposals :: "(string \<times> string) list"
  bd_sequences :: "((string \<times> int) \<times> nat) list"
  bd_bills :: "bill list"
  bd_payments :: "(string \<times> jsnum) list"

datatype bill_constraint = UniqueId | UniqueNumber | UniqueProposal

datatype billing_error =
    ClientNotFound
  | NoFreeNumber
  | ForeignReference
  | UniqueViolation bill_constraint
  | BillingError nat

subsection \<open>Numbers\<close>

definition formatInvoiceNumber :: "int \<Rightarrow> nat \<Rightarrow> string" where
  "formatInvoiceNumber year sequence = ''INV-'' @ int_text year @ ''-'' @ padStart 4 CHR ''0'' (nat_text sequence)"

definition MAX_ALLOCATION_ATTEMPTS :: nat where
  "MAX_ALLOCATION_ATTEMPTS = 50"

definition lastValue :: "string \<Rightarrow> int \<Rightarrow> billing_db \<Rightarrow> nat" where
  "lastValue org year db = (case map_of (bd_sequences db) (org, year) of None \<Rightarrow> 0 | Some n \<Rightarrow> n)"

text \<open>\<open>INSERT \<dots> ON CONFLICT DO UPDATE \<dots> RETURNING\<close>.\<close>

definition increment :: "string \<Rightarrow> int \<Rightarrow> billing_db \<Rightarrow> nat \<times> billing_db" where
  "increment org year db =
     (let n = lastValue org year db + 1 in (n, db\<lparr>bd_sequences := AList.update (org, year) n (bd_sequences db)\<rparr>))"

definition number_taken :: "string \<Rightarrow> string \<Rightarrow> billing_db \<Rightarrow> bool" where
  "number_taken org number db = list_ex (\<lambda>b. v_org b = org \<and> v_number b = number) (bd_bills db)"

fun allocate_loop :: "nat \<Rightarrow> string \<Rightarrow> int \<Rightarrow> billing_db \<Rightarrow> billing_error + string \<times> billing_db" where
  "allocate_loop 0 org year db = Inl NoFreeNumber"
| "allocate_loop (Suc attempts) org year db =
     (case increment org year db of
        (n, db1) \<Rightarrow>
          if \<not> number_taken org (formatInvoiceNumber year n) db1 then Inr (formatInvoiceNumber year n, db1)
          else allocate_loop attempts org year db1)"

definition client_org :: "string \<Rightarrow> billing_db \<Rightarrow> string option" where
  "client_org clientId db = map_option cl_org (find_row (\<lambda>c. cl_id c = clientId) (bd_clients db))"

definition allocateInvoiceNumber :: "string \<Rightarrow> string option \<Rightarrow> timestamp \<Rightarrow> billing_db \<Rightarrow> billing_error + (string \<times> string) \<times> billing_db" where
  "allocateInvoiceNumber clientId organizationId now db =
     (case client_org clientId db of
        None \<Rightarrow> Inl ClientNotFound
      | Some owner \<Rightarrow>
          if given organizationId \<and> organizationId \<noteq> Some owner then Inl ClientNotFound
          else (case allocate_loop MAX_ALLOCATION_ATTEMPTS owner (getUTCFullYear now) db of
                  Inl e \<Rightarrow> Inl e
                | Inr (number, db1) \<Rightarrow> Inr ((number, owner), db1)))"

text \<open>
  \<open>tx.invoice.create\<close> through the client of an organization: the client must be a live client of the
  organization, the person, project and proposal must belong to it; then the unique constraints.
\<close>

definition references_owned :: "string \<Rightarrow> bill \<Rightarrow> billing_db \<Rightarrow> bool" where
  "references_owned org b db \<longleftrightarrow>
     list_ex (\<lambda>c. cl_id c = v_client b \<and> cl_org c = org \<and> cl_deletedAt c = None) (bd_clients db) \<and>
     list_ex (\<lambda>u. bu_id u = v_createdBy b \<and> bu_org u = org) (bd_users db) \<and>
     (case v_project b of None \<Rightarrow> True | Some p \<Rightarrow> list_ex (\<lambda>r. bp_id r = p \<and> bp_org r = org) (bd_projects db)) \<and>
     (case v_proposal b of None \<Rightarrow> True | Some p \<Rightarrow> (p, org) \<in> set (bd_proposals db))"

definition create_bill :: "string \<Rightarrow> bill \<Rightarrow> billing_db \<Rightarrow> billing_error + bill \<times> billing_db" where
  "create_bill org b db =
     (if v_org b \<noteq> org \<or> \<not> references_owned org b db then Inl ForeignReference
      else if list_ex (\<lambda>c. v_id c = v_id b) (bd_bills db) then Inl (UniqueViolation UniqueId)
      else if number_taken (v_org b) (v_number b) db then Inl (UniqueViolation UniqueNumber)
      else if v_proposal b \<noteq> None \<and> list_ex (\<lambda>c. v_proposal c = v_proposal b) (bd_bills db) then Inl (UniqueViolation UniqueProposal)
      else Inr (b, db\<lparr>bd_bills := bd_bills db @ [b]\<rparr>))"

text \<open>\<open>scope\<close> is the organization of the client of the request, \<open>organizationId\<close> the argument of the caller.\<close>

definition createNumberedInvoice :: "string \<Rightarrow> bill \<Rightarrow> string option \<Rightarrow> timestamp \<Rightarrow> billing_db \<Rightarrow> billing_error + bill \<times> billing_db" where
  "createNumberedInvoice scope b organizationId now db =
     (case allocateInvoiceNumber (v_client b) organizationId now db of
        Inl e \<Rightarrow> Inl e
      | Inr ((number, org), db1) \<Rightarrow> create_bill scope (b\<lparr>v_number := number, v_org := org\<rparr>) db1)"

definition isUniqueViolationOn :: "billing_error \<Rightarrow> bill_constraint \<Rightarrow> bool" where
  "isUniqueViolationOn e c = (e = UniqueViolation c)"

subsection \<open>An invoice for an approved proposal\<close>

record approved_proposal =
  ap_id :: string
  ap_status :: string
  ap_client :: string
  ap_project :: "string option"
  ap_title :: string
  ap_metadata :: metadata
  ap_discount :: jsnum
  ap_lines :: "bill_line list"

definition with_positions :: "bill_line list \<Rightarrow> bill_line list" where
  "with_positions ls = map2 (\<lambda>l i. l\<lparr>bl_itemType := ''LABOR'', bl_position := Some (int i)\<rparr>) ls [0..<length ls]"

definition proposal_bill :: "approved_proposal \<Rightarrow> string \<Rightarrow> string \<Rightarrow> timestamp \<Rightarrow> bill" where
  "proposal_bill p ident userId now =
     (let items = with_positions (ap_lines p);
          rate = proposalTaxRate (ap_metadata p);
          t = invoiceTotals (map (\<lambda>l. Some (bl_total l)) items) (Some rate) (Some (num_or_zero (Some (ap_discount p))))
      in \<lparr>v_id = ident, v_org = [], v_number = [], v_client = ap_client p, v_status = DRAFT, v_title = Some (''Invoice for: '' @ ap_title p),
          v_notes = Some (''Invoice for proposal: '' @ ap_title p), v_currency = defaultInvoiceCurrency, v_taxRate = rate,
          v_taxType = taxTypeForRate (Some rate), v_discount = num_or_zero (Some (ap_discount p)), v_subtotal = tot_subtotal t,
          v_tax = tot_tax t, v_total = tot_total t, v_project = (if given (ap_project p) then ap_project p else None), v_proposal = Some (ap_id p),
          v_createdBy = userId, v_issueDate = now, v_sentAt = None, v_voidedAt = None, v_voidedFrom = None, v_isRecurring = False,
          v_interval = None, v_nextDate = None, v_lines = items, v_deletedAt = None,
          v_updatedAt = now\<rparr>)"

definition bill_for_proposal :: "string \<Rightarrow> string \<Rightarrow> billing_db \<Rightarrow> bill option" where
  "bill_for_proposal org proposalId db =
     find_row (\<lambda>b. v_proposal b = Some proposalId \<and> v_org b = org \<and> v_deletedAt b = None) (bd_bills db)"

text \<open>
  The route reads the invoice of the proposal in one state (\<open>seen\<close>) and creates it in a later one; when the
  constraint on the proposal fails it returns the invoice that was there first.
\<close>

definition invoiceFromProposal ::
  "approved_proposal option \<Rightarrow> string \<Rightarrow> string \<Rightarrow> string \<Rightarrow> timestamp \<Rightarrow> billing_db \<Rightarrow> billing_db \<Rightarrow> (billing_error + bill option) \<times> billing_db" where
  "invoiceFromProposal proposal ident org userId now seen db =
     (case proposal of
        None \<Rightarrow> (Inl (BillingError 404), db)
      | Some p \<Rightarrow>
          if ap_status p \<noteq> ''APPROVED'' then (Inl (BillingError 400), db)
          else
            (case bill_for_proposal org (ap_id p) seen of
               Some b \<Rightarrow> (Inr (Some b), db)
             | None \<Rightarrow>
                 (case createNumberedInvoice org (proposal_bill p ident userId now) (Some org) now db of
                    Inr (b, db1) \<Rightarrow> (Inr (Some b), db1)
                  | Inl e \<Rightarrow>
                      if isUniqueViolationOn e UniqueProposal then (Inr (bill_for_proposal org (ap_id p) db), db)
                      else (Inl e, db))))"

subsection \<open>The numbers are different\<close>

lemma digits_int_padded: "digits_int (padStart k CHR ''0'' (nat_text n)) = int n"
proof -
  obtain j where j: "0 < j" "length (nat_text n) = j" "nat_text n = fixed_digits j n" "n < 10 ^ j"
    using nat_text_fixed by blast
  show ?thesis
  proof (cases "j \<le> k")
    case True
    then have "n < 10 ^ k" using j(4) by (meson le_trans less_le_trans power_increasing one_le_numeral)
    moreover have "0 < k" using j(1) True by simp
    ultimately show ?thesis using padStart_nat_text [of k n] digits_int_fixed [of n k] by simp
  next
    case False
    then have "padStart k CHR ''0'' (nat_text n) = fixed_digits j n" using j by (simp add: padStart_def)
    then show ?thesis using digits_int_fixed [OF j(4)] by simp
  qed
qed

lemma formatInvoiceNumber_eq [simp]: "formatInvoiceNumber y m = formatInvoiceNumber y n \<longleftrightarrow> m = n"
proof -
  have "formatInvoiceNumber y m = formatInvoiceNumber y n \<longleftrightarrow> padStart 4 CHR ''0'' (nat_text m) = padStart 4 CHR ''0'' (nat_text n)"
    by (simp add: formatInvoiceNumber_def)
  also have "\<dots> \<longleftrightarrow> m = n"
  proof
    assume "padStart 4 CHR ''0'' (nat_text m) = padStart 4 CHR ''0'' (nat_text n)"
    then have "digits_int (padStart 4 CHR ''0'' (nat_text m)) = digits_int (padStart 4 CHR ''0'' (nat_text n))" by (simp only:)
    then have "int m = int n" by (simp only: digits_int_padded)
    then show "m = n" by (simp only: of_nat_eq_iff)
  next
    assume "m = n"
    then show "padStart 4 CHR ''0'' (nat_text m) = padStart 4 CHR ''0'' (nat_text n)" by (simp only:)
  qed
  finally show ?thesis .
qed

definition only_sequences :: "billing_db \<Rightarrow> billing_db \<Rightarrow> bool" where
  "only_sequences db db1 \<longleftrightarrow> (\<exists>ss. db1 = db\<lparr>bd_sequences := ss\<rparr>)"

lemma only_sequences_trans: "only_sequences a b \<Longrightarrow> only_sequences b c \<Longrightarrow> only_sequences a c"
  by (auto simp: only_sequences_def)

lemma only_sequences_tables:
  assumes "only_sequences db db1"
  shows "bd_bills db1 = bd_bills db" "bd_clients db1 = bd_clients db" "references_owned org b db1 = references_owned org b db"
proof -
  obtain ss where d: "db1 = db\<lparr>bd_sequences := ss\<rparr>" using assms by (auto simp: only_sequences_def)
  then have t: "bd_users db1 = bd_users db" "bd_projects db1 = bd_projects db" "bd_proposals db1 = bd_proposals db" "bd_clients db1 = bd_clients db"
    by simp_all
  show "bd_bills db1 = bd_bills db" "bd_clients db1 = bd_clients db" using d by simp_all
  show "references_owned org b db1 = references_owned org b db" by (simp only: references_owned_def t)
qed

lemma lastValue_increment:
  assumes "increment org year db = (n, db1)"
  shows "n = lastValue org year db + 1 \<and> lastValue org year db1 = n \<and> bd_bills db1 = bd_bills db \<and> only_sequences db db1 \<and>
    (\<forall>o' y'. (o', y') \<noteq> (org, year) \<longrightarrow> lastValue o' y' db1 = lastValue o' y' db)"
proof -
  have n: "n = lastValue org year db + 1" and db1: "db1 = db\<lparr>bd_sequences := AList.update (org, year) n (bd_sequences db)\<rparr>"
    using assms by (auto simp: increment_def Let_def)
  have "map_of (bd_sequences db1) = (map_of (bd_sequences db))((org, year) \<mapsto> n)"
    using db1 by (cases db) (simp add: update_conv')
  moreover have "only_sequences db db1" unfolding only_sequences_def using db1 by blast
  ultimately show ?thesis using n db1 by (simp add: lastValue_def)
qed

lemma number_taken_bills: "bd_bills db1 = bd_bills db \<Longrightarrow> number_taken org n db1 = number_taken org n db"
  by (simp add: number_taken_def)

text \<open>The loop skips to the first free number, or fails when all it may try are taken.\<close>

lemma allocate_loop_free:
  assumes "k < attempts" and "\<not> number_taken org (formatInvoiceNumber year (lastValue org year db + 1 + k)) db"
    and "\<And>j. j < k \<Longrightarrow> number_taken org (formatInvoiceNumber year (lastValue org year db + 1 + j)) db"
  shows "\<exists>db1. allocate_loop attempts org year db = Inr (formatInvoiceNumber year (lastValue org year db + 1 + k), db1) \<and>
    lastValue org year db1 = lastValue org year db + 1 + k \<and> bd_bills db1 = bd_bills db \<and> only_sequences db db1 \<and>
    (\<forall>o' y'. (o', y') \<noteq> (org, year) \<longrightarrow> lastValue o' y' db1 = lastValue o' y' db)"
  using assms
proof (induction attempts arbitrary: k db)
  case (Suc attempts)
  obtain n db1 where i: "increment org year db = (n, db1)" by force
  note l = lastValue_increment [OF i]
  show ?case
  proof (cases k)
    case 0
    then show ?thesis using Suc.prems(2) i l by (simp add: number_taken_bills [of db1 db])
  next
    case (Suc k')
    have taken: "number_taken org (formatInvoiceNumber year n) db1"
      using Suc.prems(3) [of 0] Suc l by (simp add: number_taken_bills [of db1 db])
    have "\<exists>db2. allocate_loop attempts org year db1 = Inr (formatInvoiceNumber year (lastValue org year db1 + 1 + k'), db2) \<and>
        lastValue org year db2 = lastValue org year db1 + 1 + k' \<and> bd_bills db2 = bd_bills db1 \<and> only_sequences db1 db2 \<and>
        (\<forall>o' y'. (o', y') \<noteq> (org, year) \<longrightarrow> lastValue o' y' db2 = lastValue o' y' db1)"
    proof (rule Suc.IH)
      show "k' < attempts" using Suc.prems(1) Suc by simp
      show "\<not> number_taken org (formatInvoiceNumber year (lastValue org year db1 + 1 + k')) db1"
        using Suc.prems(2) Suc l by (simp add: number_taken_bills [of db1 db])
      show "number_taken org (formatInvoiceNumber year (lastValue org year db1 + 1 + j)) db1" if "j < k'" for j
        using Suc.prems(3) [of "Suc j"] Suc that l by (simp add: number_taken_bills [of db1 db])
    qed
    then show ?thesis using i taken l Suc by (auto intro: only_sequences_trans)
  qed
qed simp

lemma allocate_loop_none:
  assumes "\<And>k. k < attempts \<Longrightarrow> number_taken org (formatInvoiceNumber year (lastValue org year db + 1 + k)) db"
  shows "allocate_loop attempts org year db = Inl NoFreeNumber"
  using assms
proof (induction attempts arbitrary: db)
  case (Suc attempts)
  obtain n db1 where i: "increment org year db = (n, db1)" by force
  note l = lastValue_increment [OF i]
  have "number_taken org (formatInvoiceNumber year n) db1" using Suc.prems [of 0] l by (simp add: number_taken_bills [of db1 db])
  moreover have "allocate_loop attempts org year db1 = Inl NoFreeNumber"
  proof (rule Suc.IH)
    fix k assume "k < attempts"
    then show "number_taken org (formatInvoiceNumber year (lastValue org year db1 + 1 + k)) db1"
      using Suc.prems [of "Suc k"] l by (simp add: number_taken_bills [of db1 db])
  qed
  ultimately show ?case using i by simp
qed simp

text \<open>
  The first of the next numbers that is free is the number allocated, and when none of the next fifty is free
  the allocation fails, the transaction is undone and the counter keeps its value.
\<close>

definition free_number :: "string \<Rightarrow> int \<Rightarrow> billing_db \<Rightarrow> nat option" where
  "free_number org year db =
     find (\<lambda>n. \<not> number_taken org (formatInvoiceNumber year n) db)
       (map (\<lambda>k. lastValue org year db + 1 + k) [0..<MAX_ALLOCATION_ATTEMPTS])"

lemma free_number_None:
  assumes "free_number org year db = None"
  shows "allocate_loop MAX_ALLOCATION_ATTEMPTS org year db = Inl NoFreeNumber"
proof (rule allocate_loop_none)
  fix k assume k: "k < MAX_ALLOCATION_ATTEMPTS"
  have "list_all (\<lambda>n. number_taken org (formatInvoiceNumber year n) db)
      (map (\<lambda>k. lastValue org year db + 1 + k) [0..<MAX_ALLOCATION_ATTEMPTS])"
    using assms unfolding free_number_def find_None_iff by (simp add: list_all_iff)
  then show "number_taken org (formatInvoiceNumber year (lastValue org year db + 1 + k)) db"
    using k by (simp add: list_all_iff)
qed

lemma free_number_Some:
  assumes "free_number org year db = Some n"
  shows "lastValue org year db < n \<and> \<not> number_taken org (formatInvoiceNumber year n) db \<and>
    (\<forall>m. lastValue org year db < m \<and> m < n \<longrightarrow> number_taken org (formatInvoiceNumber year m) db) \<and>
    (\<exists>db1. allocate_loop MAX_ALLOCATION_ATTEMPTS org year db = Inr (formatInvoiceNumber year n, db1) \<and>
      lastValue org year db1 = n \<and> bd_bills db1 = bd_bills db \<and> only_sequences db db1 \<and>
      (\<forall>o' y'. (o', y') \<noteq> (org, year) \<longrightarrow> lastValue o' y' db1 = lastValue o' y' db))"
proof -
  obtain k where k: "k < MAX_ALLOCATION_ATTEMPTS" "n = lastValue org year db + 1 + k"
      "\<not> number_taken org (formatInvoiceNumber year n) db"
    and least: "\<forall>j<k. number_taken org (formatInvoiceNumber year (lastValue org year db + 1 + j)) db"
    using assms unfolding free_number_def find_Some_iff by (elim exE conjE) (simp del: upt_Suc)
  have before: "number_taken org (formatInvoiceNumber year m) db" if "lastValue org year db < m" "m < n" for m
  proof -
    have "m - (lastValue org year db + 1) < k" using that k(2) by linarith
    then have "number_taken org (formatInvoiceNumber year (lastValue org year db + 1 + (m - (lastValue org year db + 1)))) db"
      using least by blast
    moreover have "lastValue org year db + 1 + (m - (lastValue org year db + 1)) = m" using that(1) by linarith
    ultimately show ?thesis by simp
  qed
  have loop: "\<exists>db1. allocate_loop MAX_ALLOCATION_ATTEMPTS org year db = Inr (formatInvoiceNumber year (lastValue org year db + 1 + k), db1) \<and>
    lastValue org year db1 = lastValue org year db + 1 + k \<and> bd_bills db1 = bd_bills db \<and> only_sequences db db1 \<and>
    (\<forall>o' y'. (o', y') \<noteq> (org, year) \<longrightarrow> lastValue o' y' db1 = lastValue o' y' db)"
    by (rule allocate_loop_free [OF k(1)]) (use k least in simp_all)
  then show ?thesis using k before by simp
qed

lemma allocate_loop_cases:
  assumes "allocate_loop MAX_ALLOCATION_ATTEMPTS org year db = Inr (number, db1)"
  obtains n where "free_number org year db = Some n" "number = formatInvoiceNumber year n" "lastValue org year db1 = n"
    "bd_bills db1 = bd_bills db" "only_sequences db db1"
    "\<forall>o' y'. (o', y') \<noteq> (org, year) \<longrightarrow> lastValue o' y' db1 = lastValue o' y' db"
proof (cases "free_number org year db")
  case None
  then show ?thesis using free_number_None [OF None] assms by simp
next
  case (Some n)
  then show ?thesis using free_number_Some [OF Some] assms that by auto
qed

subsection \<open>The numbers of one year\<close>

definition number_prefix :: "int \<Rightarrow> string" where
  "number_prefix year = ''INV-'' @ int_text year @ ''-''"

definition year_numbers :: "string \<Rightarrow> int \<Rightarrow> billing_db \<Rightarrow> string list" where
  "year_numbers org year db =
     map v_number (filter (\<lambda>b. v_org b = org \<and> prefix (number_prefix year) (v_number b)) (bd_bills db))"

definition gapless :: "string \<Rightarrow> int \<Rightarrow> billing_db \<Rightarrow> bool" where
  "gapless org year db \<longleftrightarrow> year_numbers org year db = map (formatInvoiceNumber year) [1..<lastValue org year db + 1]"

lemma nat_text_no_dash: "CHR ''-'' \<notin> set (nat_text n)"
proof -
  obtain k where "nat_text n = fixed_digits k n" using nat_text_fixed by blast
  then have "all_in DIGITS (nat_text n)" by simp
  then have "\<forall>c\<in>set (nat_text n). c \<in> set DIGITS" by (simp only: all_in_def list_all_iff)
  moreover have "CHR ''-'' \<notin> set DIGITS" by (simp add: DIGITS_def)
  ultimately show ?thesis by blast
qed

lemma nat_text_eq: "nat_text m = nat_text n \<longleftrightarrow> m = n"
  using digits_int_padded [of 0 m] digits_int_padded [of 0 n] by (metis of_nat_eq_iff)

lemma nat_text_before:
  assumes "nat_text m @ ''-'' @ a = nat_text n @ ''-'' @ b"
  shows "m = n"
proof -
  have "takeWhile (\<lambda>c. c \<noteq> CHR ''-'') (nat_text m @ ''-'' @ a) = nat_text m" for m a
    using nat_text_no_dash [of m] by (subst takeWhile_append2) auto
  then have "nat_text m = nat_text n" using assms by metis
  then show ?thesis by (simp only: nat_text_eq)
qed

lemma int_text_before:
  assumes "int_text y @ ''-'' @ a = int_text z @ ''-'' @ b"
  shows "y = z"
proof -
  have first: "\<not> prefix ''-'' (nat_text n @ ''-'' @ a)" for n a
  proof
    assume p: "prefix ''-'' (nat_text n @ ''-'' @ a)"
    obtain k where "0 < k" "length (nat_text n) = k" using nat_text_fixed by blast
    then obtain c cs where c: "nat_text n = c # cs" by (cases "nat_text n") auto
    then show False using p nat_text_no_dash [of n] by simp
  qed
  show ?thesis
  proof (cases "y < 0")
    case True
    show ?thesis
    proof (cases "z < 0")
      case True
      then have "nat_text (nat (- y)) @ ''-'' @ a = nat_text (nat (- z)) @ ''-'' @ b"
        using assms \<open>y < 0\<close> by (simp add: int_text_def)
      then have "nat (- y) = nat (- z)" by (rule nat_text_before)
      then show ?thesis using True \<open>y < 0\<close> by simp
    next
      case False
      then have "prefix ''-'' (nat_text (nat z) @ ''-'' @ b)"
        using assms \<open>y < 0\<close> by (metis append_Cons int_text_def Cons_prefix_Cons Nil_prefix)
      then show ?thesis using first by blast
    qed
  next
    case False
    show ?thesis
    proof (cases "z < 0")
      case True
      then have "prefix ''-'' (nat_text (nat y) @ ''-'' @ a)"
        using assms False by (metis append_Cons int_text_def Cons_prefix_Cons Nil_prefix)
      then show ?thesis using first by blast
    next
      case False
      then have "nat_text (nat y) @ ''-'' @ a = nat_text (nat z) @ ''-'' @ b"
        using assms \<open>\<not> y < 0\<close> by (simp add: int_text_def)
      then have "nat y = nat z" by (rule nat_text_before)
      then show ?thesis using False \<open>\<not> y < 0\<close> by simp
    qed
  qed
qed

lemma number_prefix_format [simp]: "prefix (number_prefix y) (formatInvoiceNumber z n) \<longleftrightarrow> y = z"
proof
  assume "prefix (number_prefix y) (formatInvoiceNumber z n)"
  then obtain s where "formatInvoiceNumber z n = number_prefix y @ s" by (auto simp: prefix_def)
  then have "int_text y @ ''-'' @ s = int_text z @ ''-'' @ padStart 4 CHR ''0'' (nat_text n)"
    by (simp add: number_prefix_def formatInvoiceNumber_def)
  then show "y = z" by (rule int_text_before)
qed (simp add: number_prefix_def formatInvoiceNumber_def)

subsection \<open>Operations that number invoices\<close>

text \<open>
  What an operation may do to the numbers: nothing, or append one invoice under the first free number of its
  organization in the year, on an identifier and a proposal no invoice has.
\<close>

definition bill_key :: "bill \<Rightarrow> string \<times> string \<times> string \<times> string option" where
  "bill_key b = (v_id b, v_org b, v_number b, v_proposal b)"

definition numbers_kept :: "billing_db \<Rightarrow> billing_db \<Rightarrow> bool" where
  "numbers_kept db db1 \<longleftrightarrow>
     map bill_key (bd_bills db1) = map bill_key (bd_bills db) \<and> (\<forall>org y. lastValue org y db1 = lastValue org y db)"

definition one_numbered :: "billing_db \<Rightarrow> billing_db \<Rightarrow> bool" where
  "one_numbered db db1 \<longleftrightarrow>
     (\<exists>b y n. free_number (v_org b) y db = Some n \<and> v_number b = formatInvoiceNumber y n \<and>
        map bill_key (bd_bills db1) = map bill_key (bd_bills db) @ [bill_key b] \<and> lastValue (v_org b) y db1 = n \<and>
        (\<forall>o' y'. (o', y') \<noteq> (v_org b, y) \<longrightarrow> lastValue o' y' db1 = lastValue o' y' db) \<and>
        v_id b \<notin> v_id ` set (bd_bills db) \<and> (v_proposal b \<noteq> None \<longrightarrow> v_proposal b \<notin> v_proposal ` set (bd_bills db)))"

definition proposals_once :: "billing_db \<Rightarrow> bool" where
  "proposals_once db \<longleftrightarrow> distinct (map v_id (bd_bills db)) \<and> distinct (filter (\<lambda>p. p \<noteq> None) (map v_proposal (bd_bills db)))"

lemma year_numbers_keys:
  "year_numbers org y db =
     map (\<lambda>k. fst (snd (snd k))) (filter (\<lambda>k. fst (snd k) = org \<and> prefix (number_prefix y) (fst (snd (snd k)))) (map bill_key (bd_bills db)))"
  by (simp add: year_numbers_def filter_map comp_def bill_key_def)

lemma numbers_kept_gapless: "numbers_kept db db1 \<Longrightarrow> gapless org y db1 = gapless org y db"
  by (simp only: gapless_def year_numbers_keys numbers_kept_def)

lemma key_columns:
  "map v_id bs = map fst (map bill_key bs)" "map v_proposal bs = map (\<lambda>k. snd (snd (snd k))) (map bill_key bs)"
  by (simp_all add: bill_key_def comp_def)

lemma numbers_kept_columns:
  assumes "numbers_kept db db1"
  shows "map v_id (bd_bills db1) = map v_id (bd_bills db)" "map v_proposal (bd_bills db1) = map v_proposal (bd_bills db)"
  using assms by (simp_all only: key_columns numbers_kept_def)

lemma numbers_kept_proposals: "numbers_kept db db1 \<Longrightarrow> proposals_once db1 = proposals_once db"
  by (simp only: proposals_once_def numbers_kept_columns)

lemma numbers_kept_refl [simp]: "numbers_kept db db"
  by (simp add: numbers_kept_def)

lemma year_numbers_taken: "number_taken org (formatInvoiceNumber y n) db \<longleftrightarrow> formatInvoiceNumber y n \<in> set (year_numbers org y db)"
  by (force simp: number_taken_def year_numbers_def list_ex_iff image_iff)

lemma gapless_free:
  assumes "gapless org y db"
  shows "free_number org y db = Some (lastValue org y db + 1)"
proof -
  have "\<not> number_taken org (formatInvoiceNumber y (lastValue org y db + 1)) db"
    using assms by (auto simp: year_numbers_taken gapless_def)
  moreover have "[0..<MAX_ALLOCATION_ATTEMPTS] = 0 # [1..<MAX_ALLOCATION_ATTEMPTS]"
    by (simp add: MAX_ALLOCATION_ATTEMPTS_def upt_conv_Cons)
  ultimately show ?thesis by (simp add: free_number_def)
qed

lemma numbers_kept_free:
  assumes "numbers_kept db db1"
  shows "free_number org y db1 = free_number org y db"
proof -
  have "number_taken org n db1 = number_taken org n db" for n
  proof -
    have "number_taken org n db = list_ex (\<lambda>k. fst (snd k) = org \<and> fst (snd (snd k)) = n) (map bill_key (bd_bills db))" for db
      by (simp add: number_taken_def list_ex_iff bill_key_def)
    then show ?thesis using assms by (simp only: numbers_kept_def)
  qed
  moreover have "lastValue org y db1 = lastValue org y db" using assms by (simp add: numbers_kept_def)
  ultimately show ?thesis by (simp only: free_number_def)
qed

lemma kept_then_numbered:
  assumes "numbers_kept db db1" and "one_numbered db1 db2"
  shows "one_numbered db db2"
proof -
  have "v_id ` set (bd_bills db1) = v_id ` set (bd_bills db)" "v_proposal ` set (bd_bills db1) = v_proposal ` set (bd_bills db)"
    using arg_cong [OF numbers_kept_columns(1) [OF assms(1)], of set] arg_cong [OF numbers_kept_columns(2) [OF assms(1)], of set] by simp_all
  moreover have "map bill_key (bd_bills db1) = map bill_key (bd_bills db)" "\<And>o' y'. lastValue o' y' db1 = lastValue o' y' db"
    using assms(1) by (simp_all add: numbers_kept_def)
  ultimately show ?thesis using assms(2) unfolding one_numbered_def by (simp only: numbers_kept_free [OF assms(1)])
qed

lemma one_numbered_gapless:
  assumes "one_numbered db db1" and "gapless org y db"
  shows "gapless org y db1"
proof -
  obtain b z n where b: "free_number (v_org b) z db = Some n" "v_number b = formatInvoiceNumber z n"
      "map bill_key (bd_bills db1) = map bill_key (bd_bills db) @ [bill_key b]" "lastValue (v_org b) z db1 = n"
    and others: "\<And>o' y'. (o', y') \<noteq> (v_org b, z) \<Longrightarrow> lastValue o' y' db1 = lastValue o' y' db"
    using assms(1) unfolding one_numbered_def by blast
  have numbers: "year_numbers org y db1 = year_numbers org y db @ (if v_org b = org \<and> y = z then [formatInvoiceNumber z n] else [])"
    by (simp only: year_numbers_keys b(3)) (simp add: bill_key_def b(2))
  show ?thesis
  proof (cases "(org, y) = (v_org b, z)")
    case True
    then have "n = lastValue org y db + 1" using gapless_free [OF assms(2)] b(1) by simp
    moreover have "year_numbers org y db1 = year_numbers org y db @ [formatInvoiceNumber y n]"
      using True numbers by simp
    ultimately show ?thesis using assms(2) True b(4) by (simp add: gapless_def)
  next
    case False
    then have "year_numbers org y db1 = year_numbers org y db" using numbers by auto
    then show ?thesis using assms(2) others [OF False] by (simp add: gapless_def)
  qed
qed

lemma one_numbered_proposals:
  assumes "one_numbered db db1" and "proposals_once db"
  shows "proposals_once db1"
proof -
  obtain b where k: "map bill_key (bd_bills db1) = map bill_key (bd_bills db) @ [bill_key b]" and
      b: "v_id b \<notin> v_id ` set (bd_bills db)" "v_proposal b \<noteq> None \<longrightarrow> v_proposal b \<notin> v_proposal ` set (bd_bills db)"
    using assms(1) unfolding one_numbered_def by blast
  have "map v_id (bd_bills db1) = map v_id (bd_bills db) @ [v_id b]" "map v_proposal (bd_bills db1) = map v_proposal (bd_bills db) @ [v_proposal b]"
    by (simp_all only: key_columns k) (simp_all add: bill_key_def)
  then show ?thesis using assms(2) b by (auto simp: proposals_once_def)
qed

locale invoice_writer =
  fixes commit :: "'q \<Rightarrow> billing_db \<Rightarrow> billing_db"
  assumes written: "numbers_kept db (commit q db) \<or> one_numbered db (commit q db)"
begin

lemma written_gapless: "gapless org y db \<Longrightarrow> gapless org y (commit q db)"
  using written [of db q] numbers_kept_gapless [of db "commit q db"] one_numbered_gapless [of db "commit q db"] by blast

lemma written_proposals: "proposals_once db \<Longrightarrow> proposals_once (commit q db)"
  using written [of db q] numbers_kept_proposals [of db "commit q db"] one_numbered_proposals [of db "commit q db"] by blast

lemma written_keys: "prefix (map bill_key (bd_bills db)) (map bill_key (bd_bills (commit q db)))"
  using written [of db q] by (auto simp: numbers_kept_def one_numbered_def)

end

text \<open>What a transaction leaves behind: its own writes, or what was there when it fails.\<close>

definition committed :: "billing_error + 'a \<times> billing_db \<Rightarrow> billing_db \<Rightarrow> billing_db" where
  "committed r db = (case r of Inl _ \<Rightarrow> db | Inr (_, db1) \<Rightarrow> db1)"

lemma allocated:
  assumes "allocateInvoiceNumber c oid now db = Inr ((number, org), db1)"
  obtains n where "free_number org (getUTCFullYear now) db = Some n" "number = formatInvoiceNumber (getUTCFullYear now) n"
    "lastValue org (getUTCFullYear now) db1 = n" "bd_bills db1 = bd_bills db" "only_sequences db db1"
    "\<forall>o' y'. (o', y') \<noteq> (org, getUTCFullYear now) \<longrightarrow> lastValue o' y' db1 = lastValue o' y' db"
    "client_org c db = Some org"
proof -
  have "allocate_loop MAX_ALLOCATION_ATTEMPTS org (getUTCFullYear now) db = Inr (number, db1)" "client_org c db = Some org"
    using assms by (auto simp: allocateInvoiceNumber_def split: option.splits if_splits sum.splits)
  then show ?thesis using that by (elim allocate_loop_cases) auto
qed

lemma create_bill_numbers:
  assumes "create_bill scope b db1 = Inr (c, db2)" and "bd_bills db1 = bd_bills db" and "free_number (v_org b) y db = Some n"
    and "v_number b = formatInvoiceNumber y n" and "lastValue (v_org b) y db1 = n"
    and "\<forall>o' y'. (o', y') \<noteq> (v_org b, y) \<longrightarrow> lastValue o' y' db1 = lastValue o' y' db"
  shows "one_numbered db db2"
proof -
  have "db2 = db1\<lparr>bd_bills := bd_bills db1 @ [b]\<rparr>" "v_id b \<notin> v_id ` set (bd_bills db1)"
      "v_proposal b \<noteq> None \<longrightarrow> v_proposal b \<notin> v_proposal ` set (bd_bills db1)"
    using assms(1) by (auto simp: create_bill_def list_ex_iff split: if_splits)
  then show ?thesis
    unfolding one_numbered_def using assms(2-) by (intro exI [of _ b] exI [of _ y] exI [of _ n]) (simp add: lastValue_def)
qed

lemma createNumberedInvoice_numbers:
  assumes "createNumberedInvoice scope b oid now db = Inr (c, db1)"
  shows "one_numbered db db1"
proof -
  obtain number org db2 where a: "allocateInvoiceNumber (v_client b) oid now db = Inr ((number, org), db2)"
      and c: "create_bill scope (b\<lparr>v_number := number, v_org := org\<rparr>) db2 = Inr (c, db1)"
    using assms by (auto simp: createNumberedInvoice_def split: sum.splits)
  show ?thesis
    by (rule allocated [OF a]) (rule create_bill_numbers [OF c], simp_all)
qed

subsection \<open>A sample\<close>

definition sample_bill :: bill where
  "sample_bill =
     \<lparr>v_id = ''b1'', v_org = ''o1'', v_number = formatInvoiceNumber 2026 1, v_client = ''c1'', v_status = SENT, v_title = Some ''Hosting'',
      v_notes = None, v_currency = ''CAD'', v_taxRate = Fin 13, v_taxType = ''HST'', v_discount = Fin 0, v_subtotal = Fin 100, v_tax = Fin 13,
      v_total = Fin 113, v_project = None, v_proposal = Some ''p1'', v_createdBy = ''u1'', v_issueDate = Date_UTC 2026 0 31,
      v_sentAt = None, v_voidedAt = None, v_voidedFrom = None, v_isRecurring = True, v_interval = Some ''MONTHLY'',
      v_nextDate = Some (Date_UTC 2026 1 28), v_lines = [], v_deletedAt = None,
      v_updatedAt = Date_UTC 2026 0 31\<rparr>"

definition sample_billing :: billing_db where
  "sample_billing =
     \<lparr>bd_clients = [\<lparr>cl_id = ''c1'', cl_org = ''o1'', cl_deletedAt = None\<rparr>], bd_projects = [],
      bd_users = [\<lparr>bu_id = ''u1'', bu_org = ''o1''\<rparr>],
      bd_proposals = [(''p1'', ''o1'')], bd_sequences = [((''o1'', 2026), 1)], bd_bills = [sample_bill], bd_payments = []\<rparr>"

definition march :: timestamp where
  "march = Date_UTC 2026 2 5"

lemma getUTCFullYear_Date_UTC: "0 \<le> m \<Longrightarrow> m \<le> 11 \<Longrightarrow> valid_parts y (m + 1) d \<Longrightarrow> getUTCFullYear (Date_UTC y m d) = y"
  by (simp add: getUTCFullYear_def Date_UTC_def make_day_def civil_day_number zdiv_eq_0_iff)

lemma march_year [simp]: "getUTCFullYear march = 2026"
  unfolding march_def by (rule getUTCFullYear_Date_UTC) code_simp+

lemma sample_gapless: "gapless ''o1'' 2026 sample_billing"
  by (simp add: gapless_def year_numbers_def sample_billing_def sample_bill_def lastValue_def)

lemma sample_ids: "distinct (map v_id (bd_bills sample_billing))" "proposals_once sample_billing"
  by (simp_all add: sample_billing_def proposals_once_def)

end
