(* ===== verification/Invoice_Voiding.thy ===== *)
theory Invoice_Voiding
  imports Invoice_Numbers
begin

section \<open>Sending, voiding and restoring an invoice\<close>

text \<open>
  Models the changes of status of \<^verbatim>\<open>src/routes/invoice.routes.js\<close>: the claim that sends a draft
  (\<open>sendDraftInvoice\<close>), voiding (\<open>voidInvoice\<close> and \<open>DELETE /:id\<close>) and \<open>POST /:id/undo-void\<close>. A handler reads the
  invoice first (\<open>seen\<close>) and changes the database later. The columns of the public link
  and of the Checkout session that these updates also write, and the Checkout session, the message and the audit entry
  that follow the transactions, are not part of this theory; retainer periods are
  not modelled, so the error of their unique index does not occur. \<open>sum_payments\<close> is the sum of the database.
\<close>

definition VOIDABLE_STATUSES :: "bill_status list" where
  "VOIDABLE_STATUSES = [DRAFT, SENT, VIEWED, OVERDUE]"

definition VOID_UNDO_WINDOW_MS :: int where
  "VOID_UNDO_WINDOW_MS = 10000"

definition live_bill :: "string \<Rightarrow> string \<Rightarrow> billing_db \<Rightarrow> bill option" where
  "live_bill org ident db = find_row (\<lambda>b. v_id b = ident \<and> v_org b = org \<and> v_deletedAt b = None) (bd_bills db)"

definition update_bills :: "(bill \<Rightarrow> bool) \<Rightarrow> (bill \<Rightarrow> bill) \<Rightarrow> billing_db \<Rightarrow> nat \<times> billing_db" where
  "update_bills P f db = (count_rows P (bd_bills db), db\<lparr>bd_bills := update_rows P f (bd_bills db)\<rparr>)"

subsection \<open>Sending\<close>

definition sent_row :: "timestamp \<Rightarrow> timestamp option \<Rightarrow> bill \<Rightarrow> bill" where
  "sent_row now d b =
     b\<lparr>v_status := SENT, v_sentAt := Some now, v_nextDate := (case d of None \<Rightarrow> v_nextDate b | Some _ \<Rightarrow> d), v_updatedAt := now\<rparr>"

definition first_date :: "bill \<Rightarrow> timestamp \<Rightarrow> timestamp option" where
  "first_date b now =
     (if v_isRecurring b \<and> given (v_interval b) \<and> v_nextDate b = None
      then firstRecurringDate (Some (v_issueDate b)) (interval_of (the (v_interval b))) now else None)"

definition claim_send :: "string \<Rightarrow> bill option \<Rightarrow> timestamp \<Rightarrow> billing_db \<Rightarrow> nat \<times> billing_db" where
  "claim_send org seen now db =
     (case seen of
        None \<Rightarrow> (404, db)
      | Some b \<Rightarrow>
          if v_status b \<noteq> DRAFT then (400, db)
          else (case update_bills (\<lambda>c. v_id c = v_id b \<and> v_org c = org \<and> v_status c = DRAFT) (sent_row now (first_date b now)) db of
                  (count, db1) \<Rightarrow> if count \<noteq> 1 then (409, db) else (200, db1)))"

subsection \<open>Voiding\<close>

datatype void_outcome = Voided timestamp | HasPayments | NotClaimed

definition void_row :: "bill_status \<Rightarrow> timestamp \<Rightarrow> bill \<Rightarrow> bill" where
  "void_row from voidedAt b = b\<lparr>v_status := VOID, v_voidedAt := Some voidedAt, v_voidedFrom := Some from, v_updatedAt := voidedAt\<rparr>"

definition amount_paid :: "(jsnum list \<Rightarrow> jsnum option) \<Rightarrow> string \<Rightarrow> billing_db \<Rightarrow> jsnum" where
  "amount_paid sum_payments ident db =
     roundMoney (Some (case sum_payments (map snd (filter (\<lambda>p. fst p = ident) (bd_payments db))) of None \<Rightarrow> Fin 0 | Some a \<Rightarrow> a))"

text \<open>A refusal throws inside the transaction, which undoes the claim.\<close>

definition voidInvoice :: "(jsnum list \<Rightarrow> jsnum option) \<Rightarrow> string \<Rightarrow> bill \<Rightarrow> timestamp \<Rightarrow> billing_db \<Rightarrow> void_outcome \<times> billing_db" where
  "voidInvoice sum_payments org seen voidedAt db =
     (case update_bills (\<lambda>c. v_id c = v_id seen \<and> v_org c = org \<and> v_status c \<in> set VOIDABLE_STATUSES) (void_row (v_status seen) voidedAt) db of
        (count, db1) \<Rightarrow>
          if count \<noteq> 1 then (NotClaimed, db)
          else if js_less (Fin 0) (amount_paid sum_payments (v_id seen) db1) then (HasPayments, db)
          else (Voided voidedAt, db1))"

definition delete_invoice :: "(jsnum list \<Rightarrow> jsnum option) \<Rightarrow> string \<Rightarrow> bill option \<Rightarrow> timestamp \<Rightarrow> billing_db \<Rightarrow> nat \<times> billing_db" where
  "delete_invoice sum_payments org seen voidedAt db =
     (case seen of
        None \<Rightarrow> (404, db)
      | Some b \<Rightarrow>
          if v_status b = PAID then (400, db)
          else if v_status b \<notin> set VOIDABLE_STATUSES then (409, db)
          else (case voidInvoice sum_payments org b voidedAt db of
                  (Voided _, db1) \<Rightarrow> (200, db1)
                | (HasPayments, db1) \<Rightarrow> (409, db1)
                | (NotClaimed, db1) \<Rightarrow> (409, db1)))"

definition restored_row :: "bill_status \<Rightarrow> timestamp \<Rightarrow> bill \<Rightarrow> bill" where
  "restored_row status now b = b\<lparr>v_status := status, v_voidedAt := None, v_voidedFrom := None, v_updatedAt := now\<rparr>"

text \<open>One serializable transaction.\<close>

definition undo_void :: "string \<Rightarrow> string \<Rightarrow> timestamp \<Rightarrow> billing_db \<Rightarrow> nat \<times> billing_db" where
  "undo_void org ident now db =
     (case live_bill org ident db of
        None \<Rightarrow> (404, db)
      | Some b \<Rightarrow>
          (case v_voidedFrom b of
             None \<Rightarrow> (409, db)
           | Some from \<Rightarrow>
               if v_status b \<noteq> VOID \<or> from \<notin> set VOIDABLE_STATUSES then (409, db)
               else
                 (case v_voidedAt b of
                    None \<Rightarrow> (410, db)
                  | Some t \<Rightarrow>
                      if now - t > VOID_UNDO_WINDOW_MS then (410, db)
                      else (200, snd (update_bills (\<lambda>c. v_id c = ident) (restored_row from now) db)))))"

subsection \<open>Undoing a void\<close>

lemma update_bills_rows [simp]:
  "fst (update_bills P f db) = count_rows P (bd_bills db)" "bd_bills (snd (update_bills P f db)) = update_rows P f (bd_bills db)"
  "bd_payments (snd (update_bills P f db)) = bd_payments db"
  by (simp_all add: update_bills_def)

definition live_key :: "bill \<Rightarrow> string \<times> string \<times> timestamp option" where
  "live_key b = (v_id b, v_org b, v_deletedAt b)"

interpretation sending: keyed_update live_key "sent_row now d"
  by unfold_locales (simp add: live_key_def sent_row_def)

interpretation voiding: keyed_update live_key "void_row from now"
  by unfold_locales (simp add: live_key_def void_row_def)

interpretation restoring: keyed_update live_key "restored_row status now"
  by unfold_locales (simp add: live_key_def restored_row_def)

lemma live_bill_key: "live_bill org ident db = find_row (\<lambda>b. live_key b = (ident, org, None)) (bd_bills db)"
  by (simp add: live_bill_def live_key_def)

lemma live_bill_D: "live_bill org ident db = Some b \<Longrightarrow> b \<in> set (bd_bills db) \<and> v_id b = ident \<and> v_org b = org \<and> v_deletedAt b = None"
  unfolding live_bill_def by (drule find_row_SomeD) simp

lemma one_by_id:
  assumes "distinct (map v_id bs)" and "b \<in> set bs" and "P b" and "\<And>c. P c \<Longrightarrow> v_id c = v_id b"
  shows "count_rows P bs = 1"
  using count_by_key [OF assms(1), of P "v_id b"] count_rows_pos [of b bs P] assms by fastforce

lemma distinct_ids:
  assumes "\<And>b. v_id (f b) = v_id b" and "distinct (map v_id (bd_bills db))"
  shows "distinct (map v_id (bd_bills (snd (update_bills P f db))))"
proof -
  have "v_id (if P b then f b else b) = v_id b" for b by (simp add: assms(1))
  then show ?thesis using assms(2) by (simp add: update_rows_def comp_def)
qed

lemma sent_draft:
  assumes "distinct (map v_id (bd_bills db))" and "live_bill org ident db = Some b" and "v_status b = DRAFT"
  obtains db1 where "claim_send org (Some b) now db = (200, db1)" "live_bill org ident db1 = Some (sent_row now (first_date b now) b)"
    "distinct (map v_id (bd_bills db1))" "bd_payments db1 = bd_payments db"
proof -
  let ?P = "\<lambda>c. v_id c = v_id b \<and> v_org c = org \<and> v_status c = DRAFT"
  let ?u = "update_bills ?P (sent_row now (first_date b now)) db"
  note b = live_bill_D [OF assms(2)]
  have "count_rows ?P (bd_bills db) = 1" by (rule one_by_id [OF assms(1), of b]) (use b assms(3) in auto)
  then have "claim_send org (Some b) now db = (200, snd ?u)" using assms(3) by (simp add: claim_send_def update_bills_def)
  moreover have "live_bill org ident (snd ?u) = Some (sent_row now (first_date b now) b)"
    using assms(2,3) b by (simp add: live_bill_key sending.find_update)
  moreover have "distinct (map v_id (bd_bills (snd ?u)))" by (rule distinct_ids [OF _ assms(1)]) (simp add: sent_row_def)
  ultimately show ?thesis using that by simp
qed

lemma voided_claim:
  assumes "distinct (map v_id (bd_bills db))" and "live_bill org ident db = Some c" and "v_status c \<in> set VOIDABLE_STATUSES"
    and "v_id seen = ident" and "v_status seen \<in> set VOIDABLE_STATUSES" and "\<not> js_less (Fin 0) (amount_paid sum_payments ident db)"
  obtains db1 where "delete_invoice sum_payments org (Some seen) now db = (200, db1)"
    "live_bill org ident db1 = Some (void_row (v_status seen) now c)" "distinct (map v_id (bd_bills db1))"
    "db1 = snd (update_bills (\<lambda>c. v_id c = ident \<and> v_org c = org \<and> v_status c \<in> set VOIDABLE_STATUSES) (void_row (v_status seen) now) db)"
proof -
  let ?P = "\<lambda>c. v_id c = ident \<and> v_org c = org \<and> v_status c \<in> set VOIDABLE_STATUSES"
  let ?u = "update_bills ?P (void_row (v_status seen) now) db"
  note c = live_bill_D [OF assms(2)]
  have "count_rows ?P (bd_bills db) = 1" by (rule one_by_id [OF assms(1), of c]) (use c assms(3) in auto)
  moreover have "amount_paid sum_payments ident (snd ?u) = amount_paid sum_payments ident db" by (simp add: amount_paid_def)
  moreover have "v_status seen \<noteq> PAID" using assms(5) by (auto simp: VOIDABLE_STATUSES_def)
  ultimately have "delete_invoice sum_payments org (Some seen) now db = (200, snd ?u)"
    using assms(4-6) by (simp add: delete_invoice_def voidInvoice_def update_bills_def)
  moreover have "live_bill org ident (snd ?u) = Some (void_row (v_status seen) now c)"
    using assms(2,3) c by (simp add: live_bill_key voiding.find_update)
  moreover have "distinct (map v_id (bd_bills (snd ?u)))" by (rule distinct_ids [OF _ assms(1)]) (simp add: void_row_def)
  ultimately show ?thesis using that by simp
qed

lemma undone:
  assumes "live_bill org ident db = Some c" and "v_status c = VOID" and "v_voidedFrom c = Some from" and "from \<in> set VOIDABLE_STATUSES"
    and "v_voidedAt c = Some t" and "now - t \<le> VOID_UNDO_WINDOW_MS"
  shows "undo_void org ident now db = (200, snd (update_bills (\<lambda>c. v_id c = ident) (restored_row from now) db)) \<and>
    live_bill org ident (snd (update_bills (\<lambda>c. v_id c = ident) (restored_row from now) db)) = Some (restored_row from now c)"
  using assms live_bill_D [OF assms(1)] by (auto simp: undo_void_def live_bill_key restoring.find_update)

text \<open>Undoing a void in time gives the invoice back as it was, up to the time of its last change.\<close>

lemma void_then_undo:
  assumes "distinct (map v_id (bd_bills db))" and "live_bill org ident db = Some b" and "v_status b \<in> set VOIDABLE_STATUSES"
    and "\<not> js_less (Fin 0) (amount_paid sum_payments ident db)" and "t' - t \<le> VOID_UNDO_WINDOW_MS"
    and "v_voidedAt b = None" and "v_voidedFrom b = None"
  shows "\<exists>db1 db2. delete_invoice sum_payments org (Some b) t db = (200, db1) \<and> undo_void org ident t' db1 = (200, db2) \<and>
    live_bill org ident db2 = Some (b\<lparr>v_updatedAt := t'\<rparr>)"
proof -
  have i: "v_id b = ident" using live_bill_D [OF assms(2)] by simp
  obtain db1 where d: "delete_invoice sum_payments org (Some b) t db = (200, db1)" "live_bill org ident db1 = Some (void_row (v_status b) t b)"
    using voided_claim [OF assms(1,2,3) i assms(3,4)] by blast
  have "restored_row (v_status b) t' (void_row (v_status b) t b) = b\<lparr>v_updatedAt := t'\<rparr>"
    using assms(6,7) by (cases b) (simp add: restored_row_def void_row_def)
  moreover have "undo_void org ident t' db1 = (200, snd (update_bills (\<lambda>c. v_id c = ident) (restored_row (v_status b) t') db1)) \<and>
      live_bill org ident (snd (update_bills (\<lambda>c. v_id c = ident) (restored_row (v_status b) t') db1)) =
        Some (restored_row (v_status b) t' (void_row (v_status b) t b))"
    by (rule undone [OF d(2)]) (use assms in \<open>simp_all add: void_row_def\<close>)
  ultimately show ?thesis using d(1) by auto
qed

text \<open>A request to void that read the invoice as a draft and runs after a request has sent it writes
  DRAFT as the status to return to; undoing the void in time then gives a draft that has been sent, not the sent invoice.\<close>

theorem void_race_reopens_draft:
  assumes "distinct (map v_id (bd_bills db))" and "live_bill org ident db = Some b" and "v_status b = DRAFT"
    and "\<not> js_less (Fin 0) (amount_paid sum_payments ident db)" and "t3 - t2 \<le> VOID_UNDO_WINDOW_MS"
  shows "\<exists>db1 db2 db3 c. claim_send org (Some b) t1 db = (200, db1) \<and> delete_invoice sum_payments org (Some b) t2 db1 = (200, db2) \<and>
    undo_void org ident t3 db2 = (200, db3) \<and> live_bill org ident db3 = Some c \<and> v_status c = DRAFT \<and> v_sentAt c = Some t1"
proof -
  let ?s = "sent_row t1 (first_date b t1) b"
  obtain db1 where s: "claim_send org (Some b) t1 db = (200, db1)" "live_bill org ident db1 = Some ?s" "distinct (map v_id (bd_bills db1))"
      "bd_payments db1 = bd_payments db"
    by (rule sent_draft [OF assms(1-3)])
  have i: "v_id b = ident" using live_bill_D [OF assms(2)] by simp
  have "\<not> js_less (Fin 0) (amount_paid sum_payments ident db1)" using assms(4) s(4) by (simp add: amount_paid_def)
  moreover have "v_status ?s \<in> set VOIDABLE_STATUSES" "v_status b \<in> set VOIDABLE_STATUSES"
    using assms(3) by (simp_all add: sent_row_def VOIDABLE_STATUSES_def)
  ultimately obtain db2 where d: "delete_invoice sum_payments org (Some b) t2 db1 = (200, db2)" "live_bill org ident db2 = Some (void_row (v_status b) t2 ?s)"
    using voided_claim [OF s(3,2) _ i] by blast
  have "undo_void org ident t3 db2 = (200, snd (update_bills (\<lambda>c. v_id c = ident) (restored_row DRAFT t3) db2)) \<and>
      live_bill org ident (snd (update_bills (\<lambda>c. v_id c = ident) (restored_row DRAFT t3) db2)) = Some (restored_row DRAFT t3 (void_row (v_status b) t2 ?s))"
    by (rule undone [OF d(2)]) (use assms in \<open>simp_all add: void_row_def VOIDABLE_STATUSES_def\<close>)
  moreover have "v_status (restored_row DRAFT t3 (void_row (v_status b) t2 ?s)) = DRAFT" "v_sentAt (restored_row DRAFT t3 (void_row (v_status b) t2 ?s)) = Some t1"
    by (simp_all add: restored_row_def void_row_def sent_row_def)
  ultimately show ?thesis using s(1) d(1) by blast
qed

definition draft_billing :: billing_db where
  "draft_billing = sample_billing\<lparr>bd_bills := [sample_bill\<lparr>v_status := DRAFT\<rparr>]\<rparr>"

lemma void_race_reopens_draft_witness:
  "\<exists>db1 db2 db3 c. claim_send ''o1'' (Some (sample_bill\<lparr>v_status := DRAFT\<rparr>)) 0 draft_billing = (200, db1) \<and>
    delete_invoice (\<lambda>_. None) ''o1'' (Some (sample_bill\<lparr>v_status := DRAFT\<rparr>)) 10 db1 = (200, db2) \<and>
    undo_void ''o1'' ''b1'' 5000 db2 = (200, db3) \<and> live_bill ''o1'' ''b1'' db3 = Some c \<and> v_status c = DRAFT \<and> v_sentAt c = Some 0"
proof (rule void_race_reopens_draft)
  have "\<not> js_less (Fin 0) (roundMoney (Some (Fin 0)))" using roundMoney_cents [of 0] by simp
  then show "\<not> js_less (Fin 0) (amount_paid (\<lambda>_. None) ''b1'' draft_billing)" by (simp add: amount_paid_def)
qed (simp_all add: draft_billing_def live_bill_def find_row_def sample_bill_def VOID_UNDO_WINDOW_MS_def)

end
