(* ===== verification/Recurring_Invoices.thy ===== *)
theory Recurring_Invoices
  imports Invoice_Voiding
begin

section \<open>Recurring invoices\<close>

text \<open>
  Models \<^verbatim>\<open>processRecurringInvoices\<close> of \<^verbatim>\<open>src/jobs/recurring-invoices.js\<close> for one organization. The run reads the
  due invoices once and then claims and copies each of them in a transaction of its own, so the invoice read
  (\<open>src\<close>) may be older than the database of the transaction; the transaction is serializable and is one step.
  The clock the number is allocated at is the one of the allocator, not the one of the run.
\<close>

definition RECURRING_SOURCE_STATUSES :: "bill_status list" where
  "RECURRING_SOURCE_STATUSES = [SENT, VIEWED, OVERDUE, PAID]"

definition recurring_where :: "string \<Rightarrow> bill \<Rightarrow> bool" where
  "recurring_where org b \<longleftrightarrow>
     v_org b = org \<and> v_isRecurring b \<and> v_status b \<in> set RECURRING_SOURCE_STATUSES"

definition due_by :: "timestamp \<Rightarrow> bill \<Rightarrow> bool" where
  "due_by now b = (case v_nextDate b of None \<Rightarrow> False | Some d \<Rightarrow> d \<le> now)"

text \<open>
  The query has no limit and no order of its own: the client of the application limits a read of rows that can
  be deleted to 100 and adds that they are not deleted.
\<close>

definition READ_LIMIT :: nat where
  "READ_LIMIT = 100"

definition due_invoices :: "string \<Rightarrow> timestamp \<Rightarrow> billing_db \<Rightarrow> bill list" where
  "due_invoices org now db = filter (\<lambda>b. v_deletedAt b = None \<and> recurring_where org b \<and> due_by now b) (bd_bills db)"

definition read_due :: "string \<Rightarrow> timestamp \<Rightarrow> billing_db \<Rightarrow> bill list" where
  "read_due org now db = take READ_LIMIT (due_invoices org now db)"

definition copied_lines :: "bill_line list \<Rightarrow> bill_line list" where
  "copied_lines ls =
     map2 (\<lambda>l i. l\<lparr>bl_itemType := (if bl_itemType l = [] then ''LABOR'' else bl_itemType l),
                    bl_position := Some (case bl_position l of Some p \<Rightarrow> p | None \<Rightarrow> int i)\<rparr>) ls [0..<length ls]"

definition recurring_copy :: "bill \<Rightarrow> string \<Rightarrow> timestamp \<Rightarrow> bill" where
  "recurring_copy src ident now =
     (let items = copied_lines (v_lines src);
          t = invoiceTotals (map (\<lambda>l. Some (bl_total l)) items) (Some (v_taxRate src)) (Some (num_or_zero (Some (v_discount src))))
      in \<lparr>v_id = ident, v_org = [], v_number = [], v_client = v_client src, v_status = DRAFT, v_title = v_title src,
          v_notes = v_notes src, v_currency = v_currency src, v_taxRate = v_taxRate src,
          v_taxType = v_taxType src, v_discount = num_or_zero (Some (v_discount src)), v_subtotal = tot_subtotal t,
          v_tax = tot_tax t, v_total = tot_total t, v_project = v_project src, v_proposal = None,
          v_createdBy = v_createdBy src, v_issueDate = now, v_sentAt = None, v_voidedAt = None, v_voidedFrom = None, v_isRecurring = False,
          v_interval = None, v_nextDate = None, v_lines = items, v_deletedAt = None,
          v_updatedAt = now\<rparr>)"

definition recurring_interval :: "bill \<Rightarrow> interval" where
  "recurring_interval b = (case v_interval b of Some i \<Rightarrow> interval_of i | None \<Rightarrow> OtherInterval [])"

definition next_billing :: "bill \<Rightarrow> timestamp \<Rightarrow> timestamp option" where
  "next_billing b now = firstRecurringDate (Some (v_issueDate b)) (recurring_interval b) now"

text \<open>
  The guarded update of the claim; its identifier is unique, so it changes at most one row. An update is not
  limited to rows that are not deleted.
\<close>

definition claim_where :: "string \<Rightarrow> bill \<Rightarrow> bill \<Rightarrow> bool" where
  "claim_where org src b \<longleftrightarrow> v_id b = v_id src \<and> recurring_where org b \<and> v_nextDate b = v_nextDate src"

definition claim_recurring :: "string \<Rightarrow> bill \<Rightarrow> timestamp option \<Rightarrow> billing_db \<Rightarrow> nat \<times> billing_db" where
  "claim_recurring org src nextDate db =
     (length (filter (claim_where org src) (bd_bills db)),
      db\<lparr>bd_bills := map (\<lambda>b. if claim_where org src b then b\<lparr>v_nextDate := nextDate\<rparr> else b) (bd_bills db)\<rparr>)"

definition recurring_one ::
  "string \<Rightarrow> bill \<Rightarrow> string \<Rightarrow> timestamp \<Rightarrow> timestamp \<Rightarrow> billing_db \<Rightarrow> billing_error + bill option \<times> billing_db" where
  "recurring_one org src ident now clock db =
     (case claim_recurring org src (next_billing src now) db of
        (count, db1) \<Rightarrow>
          if count \<noteq> 1 then Inr (None, db1)
          else (case allocateInvoiceNumber (v_client src) None clock db1 of
                  Inl e \<Rightarrow> Inl e
                | Inr ((number, owner), db2) \<Rightarrow>
                    (case create_bill org ((recurring_copy src ident now)\<lparr>v_number := number, v_org := owner\<rparr>) db2 of
                       Inl e \<Rightarrow> Inl e
                     | Inr (b, db3) \<Rightarrow> Inr (Some b, db3))))"

record recurring_result =
  rr_examined :: nat
  rr_generated :: nat
  rr_failed :: nat

text \<open>
  The loop of a run. \<open>ident\<close> gives the identifier of each copy and \<open>clock\<close> the time its number is allocated at.
\<close>

fun recurring_loop ::
  "string \<Rightarrow> timestamp \<Rightarrow> (bill \<Rightarrow> string) \<Rightarrow> (bill \<Rightarrow> timestamp) \<Rightarrow> bill list \<Rightarrow> nat \<times> string list \<times> billing_db \<Rightarrow> nat \<times> string list \<times> billing_db" where
  "recurring_loop org now ident clock [] acc = acc"
| "recurring_loop org now ident clock (src # rest) (generated, failures, db) =
     (case recurring_one org src (ident src) now (clock src) db of
        Inl _ \<Rightarrow> recurring_loop org now ident clock rest (generated, failures @ [v_id src], db)
      | Inr (None, db1) \<Rightarrow> recurring_loop org now ident clock rest (generated, failures, db1)
      | Inr (Some _, db1) \<Rightarrow> recurring_loop org now ident clock rest (generated + 1, failures, db1))"

text \<open>\<open>Inl\<close> lists the invoices that failed; the copies made before and after them stay.\<close>

definition processRecurringInvoices ::
  "string \<Rightarrow> timestamp \<Rightarrow> (bill \<Rightarrow> string) \<Rightarrow> (bill \<Rightarrow> timestamp) \<Rightarrow> billing_db \<Rightarrow> (string list + recurring_result) \<times> billing_db" where
  "processRecurringInvoices org now ident clock db =
     (let due = read_due org now db in
      if due = [] then (Inr \<lparr>rr_examined = 0, rr_generated = 0, rr_failed = 0\<rparr>, db)
      else (case recurring_loop org now ident clock due (0, [], db) of
              (generated, failures, db1) \<Rightarrow>
                if failures \<noteq> [] then (Inl failures, db1)
                else (Inr \<lparr>rr_examined = length due, rr_generated = generated, rr_failed = 0\<rparr>, db1)))"

subsection \<open>The numbers of the copies\<close>

lemma claim_recurring_kept:
  assumes "claim_recurring org src d db = (count, db1)"
  shows "numbers_kept db db1"
proof -
  have "db1 = db\<lparr>bd_bills := map (\<lambda>b. if claim_where org src b then b\<lparr>v_nextDate := d\<rparr> else b) (bd_bills db)\<rparr>"
    using assms by (simp add: claim_recurring_def)
  then show "numbers_kept db db1"
    by (auto simp: numbers_kept_def lastValue_def bill_key_def)
qed

lemma recurring_one_cases:
  assumes "recurring_one org src ident now clock db = Inr (r, db1)"
  obtains (kept) n where "r = None" "claim_recurring org src (next_billing src now) db = (n, db1)" "n \<noteq> 1"
  | (copied) b db2 number owner db3 where "r = Some b" "claim_recurring org src (next_billing src now) db = (1, db2)"
      "allocateInvoiceNumber (v_client src) None clock db2 = Inr ((number, owner), db3)"
      "create_bill org ((recurring_copy src ident now)\<lparr>v_number := number, v_org := owner\<rparr>) db3 = Inr (b, db1)"
proof -
  obtain count db2 where c: "claim_recurring org src (next_billing src now) db = (count, db2)" by force
  show ?thesis
  proof (cases "count = 1")
    case False
    then have "r = None" "db1 = db2" using assms c by (simp_all add: recurring_one_def)
    then show ?thesis using c False by (simp add: kept)
  next
    case True
    show ?thesis
    proof (cases "allocateInvoiceNumber (v_client src) None clock db2")
      case (Inl e)
      then show ?thesis using assms c True by (simp add: recurring_one_def)
    next
      case (Inr a)
      obtain number owner db3 where a: "a = ((number, owner), db3)" by (metis prod.exhaust)
      show ?thesis
      proof (cases "create_bill org ((recurring_copy src ident now)\<lparr>v_number := number, v_org := owner\<rparr>) db3")
        case (Inl e)
        then show ?thesis using assms c True Inr a by (simp add: recurring_one_def)
      next
        case (Inr p)
        obtain b db4 where p: "p = (b, db4)" by (metis prod.exhaust)
        have "r = Some b" "db1 = db4" using assms c True \<open>_ = Inr a\<close> a Inr p by (simp_all add: recurring_one_def)
        then show ?thesis using copied c True \<open>_ = Inr a\<close> a Inr p by simp
      qed
    qed
  qed
qed

lemma recurring_one_numbers:
  assumes "recurring_one org src ident now clock db = Inr (r, db1)"
  shows "numbers_kept db db1 \<or> one_numbered db db1"
  using assms
proof (cases rule: recurring_one_cases)
  case (kept n)
  then show ?thesis using claim_recurring_kept by blast
next
  case (copied b db2 number owner db3)
  have "one_numbered db2 db1"
    by (rule allocated [OF copied(3)]) (rule create_bill_numbers [OF copied(4)], simp_all)
  then show ?thesis using claim_recurring_kept(1) [OF copied(2)] kept_then_numbered by blast
qed

interpretation recurring_numbers: invoice_writer
  "\<lambda>(org, src, ident, now, clock) db. committed (recurring_one org src ident now clock db) db"
proof
  fix q :: "string \<times> bill \<times> string \<times> timestamp \<times> timestamp" and db
  obtain org src ident now clock where q: "q = (org, src, ident, now, clock)" by (metis prod.exhaust)
  show "numbers_kept db ((\<lambda>(org, src, ident, now, clock) db. committed (recurring_one org src ident now clock db) db) q db) \<or>
      one_numbered db ((\<lambda>(org, src, ident, now, clock) db. committed (recurring_one org src ident now clock db) db) q db)"
    using recurring_one_numbers [of org src ident now clock db] unfolding q by (auto simp: committed_def split: sum.split)
qed

subsection \<open>One copy for each billing date\<close>

lemma next_billing_later: "\<exists>d. next_billing src now = Some d \<and> now < d"
  using firstRecurringDate_least [of "v_issueDate src" "recurring_interval src" now] by (auto simp: next_billing_def)

lemma claim_recurring_rows:
  "bd_bills (snd (claim_recurring org src d db)) = map (\<lambda>b. if claim_where org src b then b\<lparr>v_nextDate := d\<rparr> else b) (bd_bills db)"
  by (simp add: claim_recurring_def)

text \<open>
  The claims of all runs as a log, newest first, of the source, the date claimed and the time of the run.
  \<open>lb_clock\<close> is the time of the operations of the routes, which either leave the next date of an invoice,
  clear it, or compute it with \<open>firstRecurringDate\<close> at that time; invoices may be added and removed for good, but the
  identifier of a removed one is not used again.
\<close>

record billing_log =
  lb_db :: billing_db
  lb_claims :: "(string \<times> timestamp \<times> timestamp) list"
  lb_clock :: timestamp

definition schedule_kept :: "timestamp \<Rightarrow> billing_db \<Rightarrow> billing_db \<Rightarrow> bool" where
  "schedule_kept now db db1 \<longleftrightarrow>
     distinct (map v_id (bd_bills db1)) \<and>
     (\<forall>b\<in>set (bd_bills db1). \<forall>c\<in>set (bd_bills db). v_id b = v_id c \<longrightarrow>
        v_nextDate b = v_nextDate c \<or> v_nextDate b = None \<or> (\<exists>src. v_nextDate b = next_billing src now))"

inductive billing_run :: "billing_log \<Rightarrow> billing_log \<Rightarrow> bool" where
  claim: "\<lbrakk>now \<le> lb_clock s; due_by now src; recurring_one org src ident now clock (lb_db s) = Inr (Some b, db1)\<rbrakk> \<Longrightarrow>
    billing_run s (s\<lparr>lb_db := db1, lb_claims := (v_id src, the (v_nextDate src), now) # lb_claims s\<rparr>)"
| skip: "\<lbrakk>recurring_one org src ident now clock (lb_db s) = Inr (None, db1)\<rbrakk> \<Longrightarrow> billing_run s (s\<lparr>lb_db := db1\<rparr>)"
| edit: "\<lbrakk>schedule_kept (lb_clock s) (lb_db s) db1;
      \<forall>b\<in>set (bd_bills db1). v_id b \<in> fst ` set (lb_claims s) \<longrightarrow> v_id b \<in> v_id ` set (bd_bills (lb_db s))\<rbrakk> \<Longrightarrow> billing_run s (s\<lparr>lb_db := db1\<rparr>)"
| tick: "\<lbrakk>lb_clock s \<le> t\<rbrakk> \<Longrightarrow> billing_run s (s\<lparr>lb_clock := t\<rparr>)"

definition log_ok :: "billing_log \<Rightarrow> bool" where
  "log_ok s \<longleftrightarrow>
     distinct (map v_id (bd_bills (lb_db s))) \<and>
     (\<forall>(i, d, t)\<in>set (lb_claims s). t \<le> lb_clock s \<and>
        (\<forall>b\<in>set (bd_bills (lb_db s)). v_id b = i \<longrightarrow> (case v_nextDate b of None \<Rightarrow> True | Some n \<Rightarrow> t < n))) \<and>
     sorted_wrt (\<lambda>(i, d, t) (j, e, u). i = j \<longrightarrow> u < d) (lb_claims s) \<and>
     (\<forall>(i, d, t)\<in>set (lb_claims s). d \<le> t)"

lemma same_id: "distinct (map v_id bs) \<Longrightarrow> x \<in> set bs \<Longrightarrow> y \<in> set bs \<Longrightarrow> v_id x = v_id y \<Longrightarrow> x = y"
  unfolding distinct_map by (blast dest: inj_onD)

definition billed_row :: "string \<Rightarrow> bill \<Rightarrow> timestamp option \<Rightarrow> bill \<Rightarrow> bill" where
  "billed_row org src d b = (if claim_where org src b then b\<lparr>v_nextDate := d\<rparr> else b)"

lemma billed_row_id [simp]: "v_id (billed_row org src d b) = v_id b"
  by (simp add: billed_row_def)

lemma create_bill_rows:
  "create_bill scope b db = Inr (c, db1) \<Longrightarrow> c = b \<and> bd_bills db1 = bd_bills db @ [b] \<and> v_id b \<notin> v_id ` set (bd_bills db)"
  by (auto simp: create_bill_def list_ex_iff split: if_splits)

lemma recurring_one_rows:
  assumes "recurring_one org src ident now clock db = Inr (Some b, db1)"
  obtains c d where "c \<in> set (bd_bills db)" "claim_where org src c" "next_billing src now = Some d" "now < d"
    "bd_bills db1 = map (billed_row org src (Some d)) (bd_bills db) @ [b]" "v_id b \<notin> v_id ` set (bd_bills db)"
    "b = (recurring_copy src ident now)\<lparr>v_number := v_number b, v_org := v_org b\<rparr>"
  using assms
proof (cases rule: recurring_one_cases)
  case (kept n)
  then show ?thesis by simp
next
  case (copied b' db2 number owner db3)
  obtain d where d: "next_billing src now = Some d" "now < d" using next_billing_later by blast
  have "length (filter (claim_where org src) (bd_bills db)) = 1" using copied(2) by (simp add: claim_recurring_def)
  then have "set (filter (claim_where org src) (bd_bills db)) \<noteq> {}" by (metis list.size(3) set_empty zero_neq_one)
  then obtain c where c: "c \<in> set (bd_bills db)" "claim_where org src c" by auto
  have rows: "bd_bills db2 = map (billed_row org src (Some d)) (bd_bills db)"
    using copied(2) d(1) by (auto simp: claim_recurring_def billed_row_def)
  have "bd_bills db3 = bd_bills db2" by (rule allocated [OF copied(3)])
  moreover have new: "b = (recurring_copy src ident now)\<lparr>v_number := number, v_org := owner\<rparr> \<and> bd_bills db1 = bd_bills db3 @ [b] \<and>
      v_id b \<notin> v_id ` set (bd_bills db3)"
    using create_bill_rows [OF copied(4)] copied(1) by auto
  ultimately show ?thesis
  proof (intro that [OF c d])
    show "v_id b \<notin> v_id ` set (bd_bills db)"
    proof -
      have "v_id ` set (bd_bills db3) = v_id ` set (bd_bills db)"
        using rows \<open>bd_bills db3 = bd_bills db2\<close> by (simp add: image_image)
      then show ?thesis using conjunct2 [OF conjunct2 [OF new]] by metis
    qed
    show "b = (recurring_copy src ident now)\<lparr>v_number := v_number b, v_org := v_org b\<rparr>" using new by simp
  qed (use rows new in simp)
qed

lemma recurring_one_skip:
  assumes "recurring_one org src ident now clock db = Inr (None, db1)" and "distinct (map v_id (bd_bills db))"
  shows "bd_bills db1 = bd_bills db"
  using assms(1)
proof (cases rule: recurring_one_cases)
  case (kept n)
  let ?d = "next_billing src now"
  have n: "length (filter (claim_where org src) (bd_bills db)) \<noteq> 1" using kept by (simp add: claim_recurring_def)
  have "\<not> claim_where org src c" if c: "c \<in> set (bd_bills db)" for c
  proof
    assume w: "claim_where org src c"
    have "set (bd_bills db) \<inter> {b. claim_where org src b} = {c}"
    proof
      show "set (bd_bills db) \<inter> {b. claim_where org src b} \<subseteq> {c}"
        using same_id [OF assms(2) _ c] w by (auto simp: claim_where_def)
    qed (use c w in simp)
    moreover have "distinct (bd_bills db)" using assms(2) by (simp add: distinct_map)
    ultimately show False using n by (simp add: distinct_length_filter Int_commute)
  qed
  then have "bd_bills (snd (claim_recurring org src ?d db)) = bd_bills db" by (simp add: claim_recurring_rows cong: map_cong)
  then show ?thesis using kept by simp
qed simp

lemma log_ok_claim:
  assumes ok: "log_ok s" and now: "now \<le> lb_clock s" "due_by now src"
    and one: "recurring_one org src ident now clock (lb_db s) = Inr (Some b, db1)"
  shows "log_ok (s\<lparr>lb_db := db1, lb_claims := (v_id src, the (v_nextDate src), now) # lb_claims s\<rparr>)"
proof -
  obtain c d where c: "c \<in> set (bd_bills (lb_db s))" "claim_where org src c" "now < d"
    and rows: "bd_bills db1 = map (billed_row org src (Some d)) (bd_bills (lb_db s)) @ [b]"
    and b: "v_id b \<notin> v_id ` set (bd_bills (lb_db s))" "b = (recurring_copy src ident now)\<lparr>v_number := v_number b, v_org := v_org b\<rparr>"
    by (rule recurring_one_rows [OF one])
  have bn: "v_nextDate b = None" by (subst b(2)) (simp add: recurring_copy_def Let_def)
  obtain n where n: "v_nextDate src = Some n" "n \<le> now" using now(2) by (auto simp: due_by_def split: option.splits)
  have cid: "v_id c = v_id src" "v_nextDate c = Some n" using c(2) n by (simp_all add: claim_where_def)
  have ids: "distinct (map v_id (bd_bills (lb_db s)))"
    and old: "\<And>i e t x. (i, e, t) \<in> set (lb_claims s) \<Longrightarrow> t \<le> lb_clock s \<and> e \<le> t \<and>
        (x \<in> set (bd_bills (lb_db s)) \<longrightarrow> v_id x = i \<longrightarrow> (case v_nextDate x of None \<Rightarrow> True | Some m \<Rightarrow> t < m))"
    and sorted: "sorted_wrt (\<lambda>(i, d, t) (j, e, u). i = j \<longrightarrow> u < d) (lb_claims s)"
    using ok unfolding log_ok_def by blast+
  have same: "x = c" if "x \<in> set (bd_bills (lb_db s))" "v_id x = v_id src" for x
    using same_id [OF ids that(1) c(1)] that(2) cid(1) by simp
  have rowc: "billed_row org src (Some d) c = c\<lparr>v_nextDate := Some d\<rparr>" using c(2) by (simp add: billed_row_def)
  have before: "u < n" if "(v_id src, e, u) \<in> set (lb_claims s)" for e u
    using old [OF that, of c] c(1) cid by simp
  have later: "case v_nextDate y of None \<Rightarrow> True | Some m \<Rightarrow> t < m"
    if e: "(i, e, t) \<in> set ((v_id src, n, now) # lb_claims s)" and y: "y \<in> set (bd_bills db1)" "v_id y = i" for i e t y
  proof (cases "i = v_id src")
    case True
    have t: "t \<le> now" using e before [of e t] n(2) True by (cases "(i, e, t) = (v_id src, n, now)") auto
    have "y \<noteq> b" using b(1) y(2) True c(1) cid(1) by (metis image_eqI)
    then obtain x where "x \<in> set (bd_bills (lb_db s))" "y = billed_row org src (Some d) x" using y(1) rows by auto
    then have "y = c\<lparr>v_nextDate := Some d\<rparr>" using same rowc y(2) True by auto
    then show ?thesis using t c(3) by simp
  next
    case False
    then have m: "(i, e, t) \<in> set (lb_claims s)" using e by auto
    show ?thesis
    proof (cases "y = b")
      case nb: False
      then obtain x where x: "x \<in> set (bd_bills (lb_db s))" "y = billed_row org src (Some d) x" using y(1) rows by auto
      then have "y = x" using False y(2) by (auto simp: billed_row_def claim_where_def)
      then show ?thesis using old [OF m, of x] x(1) y(2) by simp
    qed (simp add: bn)
  qed
  show ?thesis
    unfolding log_ok_def
  proof (intro conjI)
    show "distinct (map v_id (bd_bills (lb_db (s\<lparr>lb_db := db1, lb_claims := (v_id src, the (v_nextDate src), now) # lb_claims s\<rparr>))))"
      using ids b(1) rows by (simp add: comp_def)
    show "sorted_wrt (\<lambda>(i, d, t) (j, e, u). i = j \<longrightarrow> u < d)
        (lb_claims (s\<lparr>lb_db := db1, lb_claims := (v_id src, the (v_nextDate src), now) # lb_claims s\<rparr>))"
      using sorted before n by auto
    show "\<forall>(i, d, t)\<in>set (lb_claims (s\<lparr>lb_db := db1, lb_claims := (v_id src, the (v_nextDate src), now) # lb_claims s\<rparr>)). d \<le> t"
      using old n by auto
    have "t \<le> lb_clock s \<and>
        (\<forall>b\<in>set (bd_bills db1). v_id b = i \<longrightarrow> (case v_nextDate b of None \<Rightarrow> True | Some m \<Rightarrow> t < m))"
      if e: "(i, e, t) \<in> set ((v_id src, n, now) # lb_claims s)" for i e t
    proof (intro conjI ballI impI)
      show "t \<le> lb_clock s" using e old now(1) by auto
    qed (rule later [OF e])
    then show "\<forall>(i, d, t)\<in>set (lb_claims (s\<lparr>lb_db := db1, lb_claims := (v_id src, the (v_nextDate src), now) # lb_claims s\<rparr>)).
        t \<le> lb_clock (s\<lparr>lb_db := db1, lb_claims := (v_id src, the (v_nextDate src), now) # lb_claims s\<rparr>) \<and>
        (\<forall>b\<in>set (bd_bills (lb_db (s\<lparr>lb_db := db1, lb_claims := (v_id src, the (v_nextDate src), now) # lb_claims s\<rparr>))).
          v_id b = i \<longrightarrow> (case v_nextDate b of None \<Rightarrow> True | Some n \<Rightarrow> t < n))"
      using n by simp blast
  qed
qed

lemma log_ok_edit:
  assumes ok: "log_ok s" and edit: "schedule_kept (lb_clock s) (lb_db s) db1"
    and reuse: "\<forall>b\<in>set (bd_bills db1). v_id b \<in> fst ` set (lb_claims s) \<longrightarrow> v_id b \<in> v_id ` set (bd_bills (lb_db s))"
  shows "log_ok (s\<lparr>lb_db := db1\<rparr>)"
proof -
  have later: "case v_nextDate b of None \<Rightarrow> True | Some n \<Rightarrow> t < n"
    if e: "(i, d, t) \<in> set (lb_claims s)" and b: "b \<in> set (bd_bills db1)" "v_id b = i" for i d t b
  proof -
    have e': "t \<le> lb_clock s \<and>
        (\<forall>c\<in>set (bd_bills (lb_db s)). v_id c = i \<longrightarrow> (case v_nextDate c of None \<Rightarrow> True | Some n \<Rightarrow> t < n))"
      using ok e unfolding log_ok_def by fast
    have "i \<in> fst ` set (lb_claims s)" using e by force
    then obtain c where c: "c \<in> set (bd_bills (lb_db s))" "v_id c = i" using reuse b by force
    have "v_nextDate b = v_nextDate c \<or> v_nextDate b = None \<or> (\<exists>src. v_nextDate b = next_billing src (lb_clock s))"
      using edit b c unfolding schedule_kept_def by metis
    then show ?thesis
    proof (elim disjE exE)
      assume "v_nextDate b = v_nextDate c"
      then show ?thesis using e' c by simp
    next
      fix src assume "v_nextDate b = next_billing src (lb_clock s)"
      then show ?thesis using next_billing_later [of src "lb_clock s"] e' by auto
    qed simp
  qed
  have "distinct (map v_id (bd_bills db1))" using edit by (simp add: schedule_kept_def)
  moreover have "\<forall>(i, d, u)\<in>set (lb_claims s). u \<le> lb_clock s \<and>
      (\<forall>b\<in>set (bd_bills db1). v_id b = i \<longrightarrow> (case v_nextDate b of None \<Rightarrow> True | Some n \<Rightarrow> u < n))"
  proof (clarify, intro conjI ballI impI)
    fix i d u assume e: "(i, d, u) \<in> set (lb_claims s)"
    then show "u \<le> lb_clock s" using ok unfolding log_ok_def by fast
    show "case v_nextDate b of None \<Rightarrow> True | Some n \<Rightarrow> u < n" if "b \<in> set (bd_bills db1)" "v_id b = i" for b
      by (rule later [OF e that])
  qed
  ultimately show ?thesis using ok unfolding log_ok_def by simp
qed

lemma log_ok_step: "billing_run s t \<Longrightarrow> log_ok s \<Longrightarrow> log_ok t"
proof (induction rule: billing_run.induct)
  case (claim now s src org ident clock b db1)
  then show ?case by (intro log_ok_claim)
next
  case (skip org src ident now clock s db1)
  then have "bd_bills db1 = bd_bills (lb_db s)" by (intro recurring_one_skip) (simp_all add: log_ok_def)
  then show ?case using skip by (simp add: log_ok_def)
next
  case (edit s db1)
  then show ?case by (intro log_ok_edit)
next
  case (tick s t)
  then show ?case by (auto simp: log_ok_def)
qed

text \<open>C9: Whatever runs of the recurring worker, on stale reads, changes of schedules and removals of
  invoices interleave, a recurring invoice is billed at most once for a date and at most once per run: each claim is for a date that
  had come, and the dates claimed for an invoice lie after the times of all earlier runs that claimed it. The identifier of a removed
  invoice is not used again.\<close>

theorem recurring_invoice_billed_once:
  assumes "billing_run\<^sup>*\<^sup>* \<lparr>lb_db = db, lb_claims = [], lb_clock = t0\<rparr> s" and "distinct (map v_id (bd_bills db))"
  shows "sorted_wrt (\<lambda>(i, date, now) (j, earlier, before). i = j \<longrightarrow> before < date) (lb_claims s) \<and>
    list_all (\<lambda>(i, date, now). date \<le> now) (lb_claims s)"
proof -
  have "log_ok s"
    using assms(1)
  proof (induction rule: rtranclp_induct)
    case base
    then show ?case using assms(2) by (simp add: log_ok_def)
  qed (rule log_ok_step)
  then show ?thesis by (simp add: log_ok_def list_all_iff)
qed

subsection \<open>A run leaves nothing due\<close>

lemma recurring_one_due:
  assumes ids: "distinct (map v_id (bd_bills db))" and src: "src \<in> set (due_invoices org now db)"
    and one: "recurring_one org src ident now clock db = Inr (r, db1)"
  shows "\<exists>b. r = Some b \<and> due_invoices org now db1 = filter (\<lambda>x. v_id x \<noteq> v_id src) (due_invoices org now db) \<and>
    distinct (map v_id (bd_bills db1)) \<and> length (bd_bills db1) = Suc (length (bd_bills db))"
proof -
  have s: "src \<in> set (bd_bills db)" "recurring_where org src" "due_by now src" using src by (simp_all add: due_invoices_def)
  let ?P = "\<lambda>x. v_deletedAt x = None \<and> recurring_where org x \<and> due_by now x"
  have "r \<noteq> None"
  proof
    assume "r = None"
    then have "bd_bills db1 = bd_bills db" "\<exists>n. claim_recurring org src (next_billing src now) db = (n, db1)"
      using one ids recurring_one_skip by (blast, elim recurring_one_cases) auto
    then have "map (billed_row org src (next_billing src now)) (bd_bills db) = bd_bills db"
      by (auto simp: claim_recurring_def billed_row_def [abs_def])
    then have "billed_row org src (next_billing src now) src = src" using s(1) by (metis list.map_ident map_eq_conv)
    moreover have "v_nextDate (billed_row org src (next_billing src now) src) = next_billing src now"
      using s(2) by (simp add: billed_row_def claim_where_def)
    ultimately have "v_nextDate src = next_billing src now" by simp
    then show False using next_billing_later [of src now] s(3) by (auto simp: due_by_def)
  qed
  then obtain b where r: "r = Some b" by blast
  obtain c d where c: "c \<in> set (bd_bills db)" "claim_where org src c" "now < d"
    and rows: "bd_bills db1 = map (billed_row org src (Some d)) (bd_bills db) @ [b]"
    and b: "v_id b \<notin> v_id ` set (bd_bills db)" "b = (recurring_copy src ident now)\<lparr>v_number := v_number b, v_org := v_org b\<rparr>"
    by (rule recurring_one_rows [OF one [unfolded r]])
  have fresh: "\<not> recurring_where org b" by (subst b(2)) (simp add: recurring_where_def recurring_copy_def Let_def)
  have row: "?P (billed_row org src (Some d) x) \<longleftrightarrow> ?P x \<and> v_id x \<noteq> v_id src" if x: "x \<in> set (bd_bills db)" for x
  proof (cases "v_id x = v_id src")
    case True
    then have "x = src" using same_id [OF ids x s(1)] by blast
    then have "billed_row org src (Some d) x = x\<lparr>v_nextDate := Some d\<rparr>" using s(2) by (simp add: billed_row_def claim_where_def)
    then show ?thesis using True c(3) by (simp add: due_by_def)
  qed (simp add: billed_row_def claim_where_def)
  have keep: "billed_row org src (Some d) x = x" if "v_id x \<noteq> v_id src" for x
    using that by (simp add: billed_row_def claim_where_def)
  have "due_invoices org now db1 =
      map (billed_row org src (Some d)) (filter (\<lambda>x. ?P x \<and> v_id x \<noteq> v_id src) (bd_bills db))"
    using fresh row by (simp add: due_invoices_def rows filter_map comp_def cong: filter_cong)
  also have "\<dots> = filter (\<lambda>x. ?P x \<and> v_id x \<noteq> v_id src) (bd_bills db)"
    by (rule map_idI) (simp add: keep)
  also have "\<dots> = filter (\<lambda>x. v_id x \<noteq> v_id src) (due_invoices org now db)"
    by (simp add: due_invoices_def conj_commute)
  finally show ?thesis using r rows ids b(1) by (simp add: comp_def)
qed

lemma recurring_loop_due:
  assumes "recurring_loop org now ident clock srcs (g, f, db) = (g', f', db1)" and "distinct (map v_id (bd_bills db))"
    and "set srcs \<subseteq> set (due_invoices org now db)" and "distinct (map v_id srcs)"
  shows "\<exists>failed. f' = f @ failed \<and> set failed \<subseteq> v_id ` set srcs \<and> g' + length failed = g + length srcs \<and>
    due_invoices org now db1 = filter (\<lambda>b. v_id b \<in> set failed \<or> v_id b \<notin> v_id ` set srcs) (due_invoices org now db) \<and>
    length (bd_bills db1) + g = length (bd_bills db) + g'"
  using assms
proof (induction srcs arbitrary: g f db)
  case (Cons src rest)
  note prems = Cons.prems
  show ?case
  proof (cases "recurring_one org src (ident src) now (clock src) db")
    case (Inl e)
    have "\<exists>failed. f' = (f @ [v_id src]) @ failed \<and> set failed \<subseteq> v_id ` set rest \<and> g' + length failed = g + length rest \<and>
        due_invoices org now db1 = filter (\<lambda>b. v_id b \<in> set failed \<or> v_id b \<notin> v_id ` set rest) (due_invoices org now db) \<and>
        length (bd_bills db1) + g = length (bd_bills db) + g'"
      by (rule Cons.IH) (use prems Inl in auto)
    then obtain failed where f: "f' = (f @ [v_id src]) @ failed" "set failed \<subseteq> v_id ` set rest" "g' + length failed = g + length rest"
        "due_invoices org now db1 = filter (\<lambda>b. v_id b \<in> set failed \<or> v_id b \<notin> v_id ` set rest) (due_invoices org now db)"
        "length (bd_bills db1) + g = length (bd_bills db) + g'" by blast
    have fresh: "v_id src \<notin> v_id ` set rest" using prems(4) by simp
    have "due_invoices org now db1 =
        filter (\<lambda>b. v_id b \<in> set (v_id src # failed) \<or> v_id b \<notin> v_id ` set (src # rest)) (due_invoices org now db)"
      unfolding f(4) using fresh by (intro filter_cong refl) auto
    then show ?thesis using f by (intro exI [of _ "v_id src # failed"]) auto
  next
    case (Inr p)
    obtain r db2 where p: "p = (r, db2)" by force
    have "src \<in> set (due_invoices org now db)" using prems(3) by simp
    then obtain b where b: "r = Some b" "due_invoices org now db2 = filter (\<lambda>x. v_id x \<noteq> v_id src) (due_invoices org now db)"
        "distinct (map v_id (bd_bills db2))" "length (bd_bills db2) = Suc (length (bd_bills db))"
      using recurring_one_due [OF prems(2) _ Inr [unfolded p]] by blast
    have "\<exists>failed. f' = f @ failed \<and> set failed \<subseteq> v_id ` set rest \<and> g' + length failed = (g + 1) + length rest \<and>
        due_invoices org now db1 = filter (\<lambda>b. v_id b \<in> set failed \<or> v_id b \<notin> v_id ` set rest) (due_invoices org now db2) \<and>
        length (bd_bills db1) + (g + 1) = length (bd_bills db2) + g'"
    proof (rule Cons.IH)
      show "recurring_loop org now ident clock rest (g + 1, f, db2) = (g', f', db1)" using prems(1) Inr p b(1) by simp
      show "set rest \<subseteq> set (due_invoices org now db2)"
      proof
        fix x assume x: "x \<in> set rest"
        then have "v_id x \<in> v_id ` set rest" by simp
        then have "v_id x \<noteq> v_id src" using prems(4) by auto
        moreover have "x \<in> set (due_invoices org now db)" using x prems(3) by auto
        ultimately show "x \<in> set (due_invoices org now db2)" using b(2) by simp
      qed
    qed (use prems b in auto)
    then obtain failed where f: "f' = f @ failed" "set failed \<subseteq> v_id ` set rest" "g' + length failed = (g + 1) + length rest"
        "due_invoices org now db1 = filter (\<lambda>b. v_id b \<in> set failed \<or> v_id b \<notin> v_id ` set rest) (due_invoices org now db2)"
        "length (bd_bills db1) + (g + 1) = length (bd_bills db2) + g'" by blast
    have fresh: "v_id src \<notin> v_id ` set rest" using prems(4) by simp
    have "due_invoices org now db1 =
        filter (\<lambda>b. v_id b \<in> set failed \<or> v_id b \<notin> v_id ` set (src # rest)) (due_invoices org now db)"
      unfolding f(4) b(2) filter_filter using fresh f(2) by (intro filter_cong refl) auto
    then show ?thesis using f b(4) by (intro exI [of _ failed]) auto
  qed
qed simp

lemma filter_drop_take:
  assumes "distinct (map k xs)" and q: "\<And>x. Q x \<Longrightarrow> k x \<in> k ` set (take n xs)"
  shows "filter (\<lambda>x. Q x \<or> k x \<notin> k ` set (take n xs)) xs = filter Q (take n xs) @ drop n xs"
proof -
  have d: "k x \<notin> k ` set (take n xs)" if "x \<in> set (drop n xs)" for x
  proof -
    have "set (map k (take n xs)) \<inter> set (map k (drop n xs)) = {}"
      using assms(1) by (metis append_take_drop_id distinct_append map_append)
    then show ?thesis using that by auto
  qed
  have "filter (\<lambda>x. Q x \<or> k x \<notin> k ` set (take n xs)) xs =
      filter (\<lambda>x. Q x \<or> k x \<notin> k ` set (take n xs)) (take n xs) @ filter (\<lambda>x. Q x \<or> k x \<notin> k ` set (take n xs)) (drop n xs)"
    by (metis append_take_drop_id filter_append)
  also have "filter (\<lambda>x. Q x \<or> k x \<notin> k ` set (take n xs)) (take n xs) = filter Q (take n xs)"
    by (rule filter_cong) auto
  also have "filter (\<lambda>x. Q x \<or> k x \<notin> k ` set (take n xs)) (drop n xs) = drop n xs"
    using d q by (simp add: filter_id_conv)
  finally show ?thesis .
qed

lemma due_invoices_distinct: "distinct (map v_id (bd_bills db)) \<Longrightarrow> distinct (map v_id (due_invoices org now db))"
  by (simp add: due_invoices_def distinct_map_filter)

lemma read_due_loop:
  assumes l: "recurring_loop org now ident clock (read_due org now db) (0, [], db) = (g, f, db1)" and ids: "distinct (map v_id (bd_bills db))"
  shows "\<exists>failed. f = [] @ failed \<and> g + length failed = 0 + length (read_due org now db) \<and> set failed \<subseteq> v_id ` set (read_due org now db) \<and>
    due_invoices org now db1 = filter (\<lambda>b. v_id b \<in> set failed) (read_due org now db) @ drop READ_LIMIT (due_invoices org now db) \<and>
    length (bd_bills db1) + 0 = length (bd_bills db) + g"
proof -
  have dist: "distinct (map v_id (due_invoices org now db))" by (rule due_invoices_distinct [OF ids])
  have sub: "set (read_due org now db) \<subseteq> set (due_invoices org now db)" by (simp add: read_due_def set_take_subset)
  have "distinct (map v_id (read_due org now db))" using dist by (simp add: read_due_def take_map [symmetric])
  then obtain failed where failed: "f = [] @ failed" "set failed \<subseteq> v_id ` set (read_due org now db)" "g + length failed = 0 + length (read_due org now db)"
      "due_invoices org now db1 = filter (\<lambda>b. v_id b \<in> set failed \<or> v_id b \<notin> v_id ` set (read_due org now db)) (due_invoices org now db)"
      "length (bd_bills db1) + 0 = length (bd_bills db) + g"
    using recurring_loop_due [OF l ids sub] by blast
  have "due_invoices org now db1 = filter (\<lambda>b. v_id b \<in> set failed) (read_due org now db) @ drop READ_LIMIT (due_invoices org now db)"
    unfolding failed(4) read_due_def by (rule filter_drop_take [OF dist]) (use failed(2) in \<open>auto simp: read_due_def\<close>)
  then show ?thesis using failed by blast
qed

lemma recurring_run_failed:
  assumes "distinct (map v_id (bd_bills db))" and "processRecurringInvoices org now ident clock db = (Inl failed, db1)"
  shows "failed \<noteq> [] \<and> set failed \<subseteq> v_id ` set (read_due org now db) \<and>
    length (bd_bills db1) + length failed = length (bd_bills db) + length (read_due org now db) \<and>
    due_invoices org now db1 = filter (\<lambda>b. v_id b \<in> set failed) (read_due org now db) @ drop READ_LIMIT (due_invoices org now db)"
proof -
  have ne: "read_due org now db \<noteq> []" using assms(2) by (auto simp: processRecurringInvoices_def)
  obtain g f db2 where l: "recurring_loop org now ident clock (read_due org now db) (0, [], db) = (g, f, db2)" by (metis prod.exhaust)
  have r: "f = failed" "db2 = db1" "failed \<noteq> []"
    using assms(2) l ne by (auto simp: processRecurringInvoices_def Let_def split: if_splits)
  show ?thesis using read_due_loop [OF l assms(1)] r by auto
qed

lemma recurring_run_clean:
  assumes "distinct (map v_id (bd_bills db))" and "processRecurringInvoices org now ident clock db = (Inr r, db1)"
  shows "rr_examined r = length (read_due org now db) \<and> rr_generated r = rr_examined r \<and> rr_failed r = 0 \<and>
    length (bd_bills db1) = length (bd_bills db) + rr_generated r \<and>
    due_invoices org now db1 = drop READ_LIMIT (due_invoices org now db)"
proof (cases "read_due org now db = []")
  case True
  then have "due_invoices org now db = []" by (simp add: read_due_def READ_LIMIT_def)
  then show ?thesis using assms(2) True by (auto simp: processRecurringInvoices_def)
next
  case False
  obtain g f db2 where l: "recurring_loop org now ident clock (read_due org now db) (0, [], db) = (g, f, db2)" by (metis prod.exhaust)
  have r: "f = []" "db2 = db1" "r = \<lparr>rr_examined = length (read_due org now db), rr_generated = g, rr_failed = 0\<rparr>"
    using assms(2) l False by (auto simp: processRecurringInvoices_def Let_def split: if_splits)
  show ?thesis using read_due_loop [OF l assms(1)] r by auto
qed

text \<open>C38: A run of the recurring worker takes up the first hundred of the due invoices (the limit the layer for
  deleted records puts on a read). A run that returns has created exactly one invoice for each of them and leaves due exactly those
  beyond the limit. A run that fails names the invoices that failed: it has created one invoice for every other one of the hundred, and
  due are still the failed ones and those beyond the limit. No other run takes place in between.\<close>

theorem recurring_run_drains:
  assumes "distinct (map v_id (bd_bills db))" and "processRecurringInvoices org now ident clock db = (r, db1)"
  shows "case r of
      Inr res \<Rightarrow> rr_examined res = min 100 (length (due_invoices org now db)) \<and> rr_generated res = rr_examined res \<and>
        rr_failed res = 0 \<and> length (bd_bills db1) = length (bd_bills db) + rr_generated res \<and>
        due_invoices org now db1 = drop 100 (due_invoices org now db)
    | Inl failed \<Rightarrow> failed \<noteq> [] \<and> set failed \<subseteq> v_id ` set (take 100 (due_invoices org now db)) \<and>
        length (bd_bills db1) + length failed = length (bd_bills db) + min 100 (length (due_invoices org now db)) \<and>
        due_invoices org now db1 =
          filter (\<lambda>b. v_id b \<in> set failed) (take 100 (due_invoices org now db)) @ drop 100 (due_invoices org now db)"
proof (cases r)
  case (Inl failed)
  then show ?thesis using recurring_run_failed [OF assms(1)] assms(2) by (auto simp: read_due_def READ_LIMIT_def min.commute)
next
  case (Inr res)
  then show ?thesis using recurring_run_clean [OF assms(1)] assms(2) by (simp add: read_due_def READ_LIMIT_def min.commute)
qed

subsection \<open>All operations that number invoices\<close>

interpretation numbered_invoices: invoice_writer
  "\<lambda>(scope, b, organizationId, now) db. committed (createNumberedInvoice scope b organizationId now db) db"
proof
  fix q :: "string \<times> bill \<times> string option \<times> timestamp" and db
  obtain scope b oid now where q: "q = (scope, b, oid, now)" by (metis prod.exhaust)
  show "numbers_kept db ((\<lambda>(scope, b, oid, now) db. committed (createNumberedInvoice scope b oid now db) db) q db) \<or>
      one_numbered db ((\<lambda>(scope, b, oid, now) db. committed (createNumberedInvoice scope b oid now db) db) q db)"
    using createNumberedInvoice_numbers [of scope b oid now db] unfolding q by (auto simp: committed_def split: sum.split)
qed

lemma invoiceFromProposal_numbers:
  "numbers_kept db (snd (invoiceFromProposal p ident org userId now seen db)) \<or>
   one_numbered db (snd (invoiceFromProposal p ident org userId now seen db))"
  using createNumberedInvoice_numbers
  by (auto simp: invoiceFromProposal_def split: option.split sum.split)

interpretation proposal_invoices: invoice_writer
  "\<lambda>(p, ident, org, userId, now, seen) db. snd (invoiceFromProposal p ident org userId now seen db)"
proof
  fix q :: "approved_proposal option \<times> string \<times> string \<times> string \<times> timestamp \<times> billing_db" and db
  obtain p ident org userId now seen where q: "q = (p, ident, org, userId, now, seen)" by (metis prod.exhaust)
  show "numbers_kept db ((\<lambda>(p, ident, org, userId, now, seen) db. snd (invoiceFromProposal p ident org userId now seen db)) q db) \<or>
      one_numbered db ((\<lambda>(p, ident, org, userId, now, seen) db. snd (invoiceFromProposal p ident org userId now seen db)) q db)"
    unfolding q prod.case by (rule invoiceFromProposal_numbers)
qed

text \<open>
  What happens to the invoices of the database: transactions of the billing code that create one (the retainer
  route and the draft from reviewed work allocate and create as \<open>createNumberedInvoice\<close> does), imports of an invoice
  under a number of its own, permanent deletion (the purge of the trash, with a client its invoices), and any other
  write, which leaves identifiers, organizations, numbers and proposals alone. No operation changes a counter but the
  allocation. A step carries the invoices it created, imported or removed.
\<close>

datatype numbering_event = Created bill | Imported bill | Purged "string list"

definition created_since :: "billing_db \<Rightarrow> billing_db \<Rightarrow> numbering_event list" where
  "created_since db db1 = map Created (drop (length (bd_bills db)) (bd_bills db1))"

definition counters_kept :: "billing_db \<Rightarrow> billing_db \<Rightarrow> bool" where
  "counters_kept db db1 \<longleftrightarrow> (\<forall>org y. lastValue org y db1 = lastValue org y db)"

inductive numbering_step :: "billing_db \<Rightarrow> numbering_event list \<Rightarrow> billing_db \<Rightarrow> bool" where
  numbered: "db1 = committed (createNumberedInvoice scope b organizationId now db) db \<Longrightarrow>
    numbering_step db (created_since db db1) db1"
| from_proposal: "db1 = snd (invoiceFromProposal p ident org userId now seen db) \<Longrightarrow>
    numbering_step db (created_since db db1) db1"
| recurring: "db1 = committed (recurring_one org src ident now clock db) db \<Longrightarrow>
    numbering_step db (created_since db db1) db1"
| imported: "\<lbrakk>bd_bills db1 = bd_bills db @ [b]; \<not> number_taken (v_org b) (v_number b) db; v_id b \<notin> v_id ` set (bd_bills db);
      v_proposal b \<noteq> None \<longrightarrow> v_proposal b \<notin> v_proposal ` set (bd_bills db); counters_kept db db1\<rbrakk> \<Longrightarrow>
    numbering_step db [Imported b] db1"
| purged: "\<lbrakk>bd_bills db1 = filter keep (bd_bills db); counters_kept db db1\<rbrakk> \<Longrightarrow>
    numbering_step db [Purged (map v_id (filter (\<lambda>b. \<not> keep b) (bd_bills db)))] db1"
| other: "numbers_kept db db1 \<Longrightarrow> numbering_step db [] db1"

inductive numbering_run :: "billing_db \<Rightarrow> numbering_event list \<Rightarrow> billing_db \<Rightarrow> bool" where
  start: "numbering_run db [] db"
| continue: "numbering_run db es db1 \<Longrightarrow> numbering_step db1 fs db2 \<Longrightarrow> numbering_run db (es @ fs) db2"

lemma numbers_kept_created: "numbers_kept db db1 \<Longrightarrow> created_since db db1 = []"
  by (auto simp: numbers_kept_def created_since_def dest: map_eq_imp_length_eq)

lemma one_numbered_created:
  assumes "one_numbered db db1"
  obtains b y n where "created_since db db1 = [Created b]" "free_number (v_org b) y db = Some n" "v_number b = formatInvoiceNumber y n"
    "map bill_key (bd_bills db1) = map bill_key (bd_bills db) @ [bill_key b]" "lastValue (v_org b) y db1 = n"
    "\<And>o' y'. (o', y') \<noteq> (v_org b, y) \<Longrightarrow> lastValue o' y' db1 = lastValue o' y' db"
proof -
  obtain c y n where c: "free_number (v_org c) y db = Some n" "v_number c = formatInvoiceNumber y n"
      "map bill_key (bd_bills db1) = map bill_key (bd_bills db) @ [bill_key c]" "lastValue (v_org c) y db1 = n"
    and others: "\<And>o' y'. (o', y') \<noteq> (v_org c, y) \<Longrightarrow> lastValue o' y' db1 = lastValue o' y' db"
    using assms unfolding one_numbered_def by blast
  have "length (bd_bills db1) = Suc (length (bd_bills db))" using arg_cong [OF c(3), of length] by simp
  then have "length (drop (length (bd_bills db)) (bd_bills db1)) = 1" by simp
  then obtain b where b: "drop (length (bd_bills db)) (bd_bills db1) = [b]" by (metis One_nat_def length_0_conv length_Suc_conv)
  have "map bill_key (drop (length (bd_bills db)) (bd_bills db1)) = [bill_key c]"
    by (simp only: drop_map [symmetric] c(3)) simp
  then have k: "bill_key b = bill_key c" using b by simp
  then have e: "v_org b = v_org c" "v_number b = v_number c" by (simp_all add: bill_key_def)
  show ?thesis by (rule that [of b y n]) (use b c others e k in \<open>simp_all add: created_since_def\<close>)
qed

lemma numbering_step_cases:
  assumes "numbering_step db fs db1"
  obtains (kept) "numbers_kept db db1" "fs = []"
  | (one) "one_numbered db db1" "fs = created_since db db1"
  | (added) b where "fs = [Imported b]" "bd_bills db1 = bd_bills db @ [b]" "\<not> number_taken (v_org b) (v_number b) db"
      "v_id b \<notin> v_id ` set (bd_bills db)" "v_proposal b \<noteq> None \<longrightarrow> v_proposal b \<notin> v_proposal ` set (bd_bills db)" "counters_kept db db1"
  | (removed) keep ids where "fs = [Purged ids]" "bd_bills db1 = filter keep (bd_bills db)" "counters_kept db db1"
  using assms
proof cases
  case (numbered scope b oid now)
  then show ?thesis
    using numbered_invoices.written [of db "(scope, b, oid, now)"] numbers_kept_created [of db db1] kept one by auto
next
  case (from_proposal p ident org userId now seen)
  then show ?thesis
    using invoiceFromProposal_numbers [of db p ident org userId now seen] numbers_kept_created [of db db1] kept one by auto
next
  case (recurring org src ident now clock)
  then show ?thesis
    using recurring_numbers.written [of db "(org, src, ident, now, clock)"] numbers_kept_created [of db db1] kept one by auto
qed (use kept added removed in blast)+

interpretation numbering: invoice_writer
  "\<lambda>(fs, db1) db. if numbering_step db fs db1 \<and> list_all (\<lambda>e. \<exists>b. e = Created b) fs then db1 else db"
proof
  fix q :: "numbering_event list \<times> billing_db" and db
  obtain fs db1 where q: "q = (fs, db1)" by force
  show "numbers_kept db ((\<lambda>(fs, db1) db. if numbering_step db fs db1 \<and> list_all (\<lambda>e. \<exists>b. e = Created b) fs then db1 else db) q db) \<or>
      one_numbered db ((\<lambda>(fs, db1) db. if numbering_step db fs db1 \<and> list_all (\<lambda>e. \<exists>b. e = Created b) fs then db1 else db) q db)"
    unfolding q by (auto elim: numbering_step_cases)
qed

subsection \<open>The numbers given\<close>

definition given_numbers :: "string \<Rightarrow> int \<Rightarrow> numbering_event list \<Rightarrow> string list" where
  "given_numbers org y es =
     concat (map (\<lambda>e. case e of Created b \<Rightarrow> if v_org b = org \<and> prefix (number_prefix y) (v_number b) then [v_number b] else [] | _ \<Rightarrow> []) es)"

text \<open>No number ahead of the counter is taken, and no number of the organization and year is imported.\<close>

definition nothing_ahead :: "string \<Rightarrow> int \<Rightarrow> billing_db \<Rightarrow> bool" where
  "nothing_ahead org y db \<longleftrightarrow> (\<forall>n. lastValue org y db < n \<longrightarrow> \<not> number_taken org (formatInvoiceNumber y n) db)"

definition no_imports :: "string \<Rightarrow> int \<Rightarrow> numbering_event list \<Rightarrow> bool" where
  "no_imports org y es =
     list_all (\<lambda>e. case e of Imported b \<Rightarrow> \<not> (v_org b = org \<and> prefix (number_prefix y) (v_number b)) | _ \<Rightarrow> True) es"

definition numbers_unique :: "billing_db \<Rightarrow> bool" where
  "numbers_unique db = distinct (map (\<lambda>b. (v_org b, v_number b)) (bd_bills db))"

lemma numbering_step_given:
  assumes "numbering_step db fs db1"
  shows "given_numbers org y fs = [] \<and> lastValue org y db1 = lastValue org y db \<or>
    (\<exists>n. given_numbers org y fs = [formatInvoiceNumber y n] \<and> free_number org y db = Some n \<and> lastValue org y db1 = n)"
  using assms
proof (cases rule: numbering_step_cases)
  case one
  then show ?thesis
  proof (elim one_numbered_created)
    fix b z n
    assume b: "created_since db db1 = [Created b]" "free_number (v_org b) z db = Some n" "v_number b = formatInvoiceNumber z n"
      "lastValue (v_org b) z db1 = n" "\<And>o' y'. (o', y') \<noteq> (v_org b, z) \<Longrightarrow> lastValue o' y' db1 = lastValue o' y' db"
    show ?thesis
    proof (cases "(org, y) = (v_org b, z)")
      case True
      then show ?thesis using b one(2) by (simp add: given_numbers_def)
    next
      case False
      then have "given_numbers org y fs = []" using b one(2) by (auto simp: given_numbers_def)
      then show ?thesis using b(5) [OF False] by blast
    qed
  qed
qed (simp_all add: given_numbers_def numbers_kept_def counters_kept_def)

lemma number_taken_keys: "number_taken org n db \<longleftrightarrow> (org, n) \<in> set (map (\<lambda>k. (fst (snd k), fst (snd (snd k)))) (map bill_key (bd_bills db)))"
  by (force simp: number_taken_def list_ex_iff bill_key_def)

lemma numbers_unique_keys: "numbers_unique db \<longleftrightarrow> distinct (map (\<lambda>k. (fst (snd k), fst (snd (snd k)))) (map bill_key (bd_bills db)))"
  by (simp add: numbers_unique_def comp_def bill_key_def)

lemma numbering_step_unique:
  assumes "numbering_step db fs db1" and "numbers_unique db"
  shows "numbers_unique db1"
  using assms(1)
proof (cases rule: numbering_step_cases)
  case kept
  then show ?thesis using assms(2) by (simp only: numbers_unique_keys numbers_kept_def)
next
  case one
  then obtain b y n where b: "free_number (v_org b) y db = Some n" "v_number b = formatInvoiceNumber y n"
      "map bill_key (bd_bills db1) = map bill_key (bd_bills db) @ [bill_key b]" by (elim one_numbered_created)
  have "(v_org b, v_number b) \<notin> set (map (\<lambda>k. (fst (snd k), fst (snd (snd k)))) (map bill_key (bd_bills db)))"
    unfolding number_taken_keys [symmetric] b(2) using free_number_Some [OF b(1)] by blast
  then show ?thesis using assms(2) unfolding numbers_unique_keys b(3) by (simp add: bill_key_def comp_def)
next
  case (added b)
  then show ?thesis using assms(2) by (auto simp: numbers_unique_def number_taken_def list_ex_iff)
next
  case (removed keep ids)
  then show ?thesis using assms(2) by (simp add: numbers_unique_def distinct_map_filter)
qed

lemma numbering_step_ahead:
  assumes "numbering_step db fs db1" and ahead: "nothing_ahead org y db" and noimp: "no_imports org y fs"
  shows "nothing_ahead org y db1"
  using assms(1)
proof (cases rule: numbering_step_cases)
  case kept
  then show ?thesis using ahead by (simp only: nothing_ahead_def number_taken_keys numbers_kept_def)
next
  case one
  then show ?thesis
  proof (elim one_numbered_created)
    fix b z n
    assume b: "free_number (v_org b) z db = Some n" "v_number b = formatInvoiceNumber z n"
      "map bill_key (bd_bills db1) = map bill_key (bd_bills db) @ [bill_key b]" "lastValue (v_org b) z db1 = n"
      "\<And>o' y'. (o', y') \<noteq> (v_org b, z) \<Longrightarrow> lastValue o' y' db1 = lastValue o' y' db"
    have taken: "number_taken org (formatInvoiceNumber y m) db1 \<longleftrightarrow>
        number_taken org (formatInvoiceNumber y m) db \<or> (org, formatInvoiceNumber y m) = (v_org b, formatInvoiceNumber z n)" for m
      unfolding number_taken_keys b(3) by (auto simp: bill_key_def b(2))
    show ?thesis
    proof (cases "(org, y) = (v_org b, z)")
      case True
      then have "lastValue org y db < n" "lastValue org y db1 = n" using free_number_Some [OF b(1)] b(4) by auto
      then show ?thesis using True ahead unfolding nothing_ahead_def taken by auto
    next
      case False
      have "y = z" if "formatInvoiceNumber y m = formatInvoiceNumber z n" for m
        using number_prefix_format [of y y m] number_prefix_format [of y z n] that by simp
      then show ?thesis using False ahead b(5) [OF False] unfolding nothing_ahead_def taken by auto
    qed
  qed
next
  case (added b)
  have "lastValue org y db1 = lastValue org y db" using added(6) by (simp add: counters_kept_def)
  moreover have "\<not> (v_org b = org \<and> v_number b = formatInvoiceNumber y m)" for m
    using noimp added(1) by (auto simp: no_imports_def)
  ultimately show ?thesis using ahead added(2) by (auto simp: nothing_ahead_def number_taken_def)
next
  case (removed keep ids)
  then show ?thesis using ahead by (auto simp: nothing_ahead_def number_taken_def counters_kept_def list_ex_iff)
qed

lemma given_numbers_append: "given_numbers org y (es @ fs) = given_numbers org y es @ given_numbers org y fs"
  by (simp add: given_numbers_def)

lemma numbering_run_given:
  assumes "numbering_run db es db1"
  shows "\<exists>ns. given_numbers org y es = map (formatInvoiceNumber y) ns \<and> sorted_wrt (<) ns \<and>
    set ns \<subseteq> {lastValue org y db<..lastValue org y db1} \<and> lastValue org y db \<le> lastValue org y db1 \<and>
    (nothing_ahead org y db \<and> no_imports org y es \<longrightarrow> nothing_ahead org y db1 \<and> ns = [lastValue org y db + 1..<lastValue org y db1 + 1])"
  using assms
proof (induction rule: numbering_run.induct)
  case (start db)
  then show ?case by (simp add: given_numbers_def)
next
  case (continue db es db1 fs db2)
  then obtain ns where ns: "given_numbers org y es = map (formatInvoiceNumber y) ns" "sorted_wrt (<) ns"
      "set ns \<subseteq> {lastValue org y db<..lastValue org y db1}" "lastValue org y db \<le> lastValue org y db1"
      "nothing_ahead org y db \<and> no_imports org y es \<longrightarrow> nothing_ahead org y db1 \<and> ns = [lastValue org y db + 1..<lastValue org y db1 + 1]"
    by blast
  have ahead: "nothing_ahead org y db2" if "nothing_ahead org y db1" "no_imports org y (es @ fs)"
    using numbering_step_ahead [OF continue(2) that(1)] that(2) by (simp add: no_imports_def)
  have noimp: "no_imports org y (es @ fs) \<Longrightarrow> no_imports org y es" by (simp add: no_imports_def)
  from numbering_step_given [OF continue(2), of org y] show ?case
  proof
    assume "given_numbers org y fs = [] \<and> lastValue org y db2 = lastValue org y db1"
    then show ?thesis using ns ahead noimp by (intro exI [of _ ns]) (auto simp: given_numbers_append)
  next
    assume "\<exists>n. given_numbers org y fs = [formatInvoiceNumber y n] \<and> free_number org y db1 = Some n \<and> lastValue org y db2 = n"
    then obtain n where n: "given_numbers org y fs = [formatInvoiceNumber y n]" "free_number org y db1 = Some n" "lastValue org y db2 = n" by blast
    have later: "lastValue org y db1 < n"
      and first: "\<And>m. lastValue org y db1 < m \<Longrightarrow> m < n \<Longrightarrow> number_taken org (formatInvoiceNumber y m) db1"
      using free_number_Some [OF n(2)] by blast+
    have next_number: "n = lastValue org y db1 + 1" if "nothing_ahead org y db1"
      using that later first [of "lastValue org y db1 + 1"] unfolding nothing_ahead_def by (metis less_add_one linorder_neqE_nat not_less_eq Suc_eq_plus1)
    have "given_numbers org y (es @ fs) = map (formatInvoiceNumber y) (ns @ [n])" using ns(1) n(1) by (simp add: given_numbers_append)
    moreover have "sorted_wrt (<) (ns @ [n])" using ns(2,3) later by (fastforce simp: sorted_wrt_append)
    moreover have "set (ns @ [n]) \<subseteq> {lastValue org y db<..lastValue org y db2}" using ns(3,4) later n(3) by fastforce
    moreover have "lastValue org y db \<le> lastValue org y db2" using ns(4) later n(3) by linarith
    moreover have "nothing_ahead org y db2 \<and> ns @ [n] = [lastValue org y db + 1..<lastValue org y db2 + 1]"
      if "nothing_ahead org y db" "no_imports org y (es @ fs)"
    proof -
      have a: "nothing_ahead org y db1" "ns = [lastValue org y db + 1..<lastValue org y db1 + 1]" using ns(5) that noimp by blast+
      have "n = Suc (lastValue org y db1)" using next_number [OF a(1)] by simp
      then show ?thesis using a ns(4) n(3) ahead [OF a(1) that(2)] by simp
    qed
    ultimately show ?thesis by blast
  qed
qed

lemma numbering_run_unique: "numbering_run db es db1 \<Longrightarrow> numbers_unique db \<Longrightarrow> numbers_unique db1"
  by (induction rule: numbering_run.induct) (auto intro: numbering_step_unique)

lemma numbering_run_gapless:
  assumes "numbering_run db es db1" and "gapless org y db" and "list_all (\<lambda>e. \<exists>b. e = Created b) es"
  shows "gapless org y db1 \<and> prefix (map bill_key (bd_bills db)) (map bill_key (bd_bills db1))"
  using assms
proof (induction rule: numbering_run.induct)
  case (start db)
  then show ?case by simp
next
  case (continue db es db1 fs db2)
  then have g: "gapless org y db1" "prefix (map bill_key (bd_bills db)) (map bill_key (bd_bills db1))" by simp_all
  have "list_all (\<lambda>e. \<exists>b. e = Created b) fs" using continue.prems(2) by simp
  then show ?case
    using numbering.written_gapless [OF g(1), of "(fs, db2)"] numbering.written_keys [of db1 "(fs, db2)"] continue(2) g(2)
    by (auto intro: prefix_order.order_trans)
qed

text \<open>C10: Over any sequence of transactions that create invoices or fail, imports of invoices under numbers of
  their own, permanent deletions and other writes: the numbers the code gives in an organization and year strictly increase, lie
  between the counter before and after, and so are never given twice, not even after a deletion; if no number ahead of the counter is
  taken and none of that year is imported, they are the consecutive numbers of the counter. Organization and number stay unique for
  all invoices. As long as nothing is imported or deleted for good, the numbers of the year are 1, 2, 3, ... in the order of creation,
  and numbers given stay.\<close>

theorem invoice_numbers_gapless:
  assumes "numbering_run db es db1"
  shows "(\<exists>ns. given_numbers org y es = map (formatInvoiceNumber y) ns \<and> sorted_wrt (<) ns \<and>
      set ns \<subseteq> {lastValue org y db<..lastValue org y db1} \<and>
      (nothing_ahead org y db \<and> no_imports org y es \<longrightarrow> ns = [lastValue org y db + 1..<lastValue org y db1 + 1])) \<and>
    (numbers_unique db \<longrightarrow> numbers_unique db1) \<and>
    (gapless org y db \<and> list_all (\<lambda>e. \<exists>b. e = Created b) es \<longrightarrow>
      year_numbers org y db1 = map (formatInvoiceNumber y) [1..<lastValue org y db1 + 1] \<and>
      prefix (year_numbers org y db) (year_numbers org y db1))"
proof -
  have "prefix (filter P xs) (filter P ys)" if "prefix xs ys" for P and xs ys :: "(string \<times> string \<times> string \<times> string option) list"
    using that by (auto simp: prefix_def)
  then have "prefix (year_numbers org y db) (year_numbers org y db1)" if "prefix (map bill_key (bd_bills db)) (map bill_key (bd_bills db1))"
    unfolding year_numbers_keys using that by (intro map_mono_prefix) blast
  moreover have "gapless org y db1 \<Longrightarrow> year_numbers org y db1 = map (formatInvoiceNumber y) [1..<lastValue org y db1 + 1]"
    by (simp only: gapless_def)
  ultimately show ?thesis
    using numbering_run_given [OF assms, of org y] numbering_run_unique [OF assms] numbering_run_gapless [OF assms, of org y] by blast
qed

lemma once_same:
  "distinct (filter (\<lambda>p. p \<noteq> None) (map g bs)) \<Longrightarrow> x \<in> set bs \<Longrightarrow> y \<in> set bs \<Longrightarrow> g x = Some v \<Longrightarrow> g y = Some v \<Longrightarrow> x = y"
proof (induction bs)
  case (Cons b bs)
  have "Some v \<notin> set (filter (\<lambda>p. p \<noteq> None) (map g bs))" if "g b = Some v" using Cons.prems(1) that by simp
  then have "g z \<noteq> Some v" if "g b = Some v" "z \<in> set bs" for z using that by force
  moreover have "distinct (filter (\<lambda>p. p \<noteq> None) (map g bs))" using Cons.prems(1) by (simp split: if_splits)
  ultimately show ?case using Cons.IH Cons.prems(2-) by (metis set_ConsD)
qed simp

lemma numbering_step_proposals:
  assumes "numbering_step db fs db1" and "proposals_once db"
  shows "proposals_once db1"
  using assms(1)
proof (cases rule: numbering_step_cases)
  case kept
  then show ?thesis using numbers_kept_proposals assms(2) by blast
next
  case one
  then show ?thesis using one_numbered_proposals assms(2) by blast
next
  case (added b)
  then show ?thesis using assms(2) by (auto simp: proposals_once_def)
next
  case (removed keep ids)
  have "distinct (filter (\<lambda>p. p \<noteq> None) (map v_proposal (filter keep bs)))"
    if "distinct (filter (\<lambda>p. p \<noteq> None) (map v_proposal bs))" for bs
    using that by (induction bs) (auto, metis image_eqI)
  then show ?thesis using removed assms(2) by (simp add: proposals_once_def distinct_map_filter)
qed

lemma numbering_run_proposals: "numbering_run db es db1 \<Longrightarrow> proposals_once db \<Longrightarrow> proposals_once db1"
  by (induction rule: numbering_run.induct) (auto intro: numbering_step_proposals)

text \<open>C39: A proposal is invoiced once: after any sequence of creations, imports, deletions and other writes, a
  request that read the proposal before its invoice existed ends with that invoice and changes nothing, provided the numbering is not
  stuck, and no other invoice refers to the proposal.\<close>

theorem proposal_invoiced_once:
  assumes "numbering_run db es db1" and "proposals_once db" and "free_number org (getUTCFullYear now) db1 \<noteq> None"
    and "bill_for_proposal org (ap_id p) db1 = Some b" and "ap_status p = ''APPROVED''" and "bill_for_proposal org (ap_id p) seen = None"
    and "client_org (ap_client p) db1 = Some org" and "references_owned org (proposal_bill p ident userId now) db1" and "ident \<notin> v_id ` set (bd_bills db1)"
  shows "invoiceFromProposal (Some p) ident org userId now seen db1 = (Inr (Some b), db1) \<and>
    (\<forall>c\<in>set (bd_bills db1). v_proposal c = Some (ap_id p) \<longrightarrow> c = b)"
proof -
  have inv: "proposals_once db1" using numbering_run_proposals assms(1,2) by blast
  obtain n db2 where a: "allocate_loop MAX_ALLOCATION_ATTEMPTS org (getUTCFullYear now) db1 =
      Inr (formatInvoiceNumber (getUTCFullYear now) n, db2)" "only_sequences db1 db2" "bd_bills db2 = bd_bills db1"
      "\<not> number_taken org (formatInvoiceNumber (getUTCFullYear now) n) db1"
    using free_number_Some assms(3) by blast
  let ?b = "(proposal_bill p ident userId now)\<lparr>v_number := formatInvoiceNumber (getUTCFullYear now) n, v_org := org\<rparr>"
  have "b \<in> set (bd_bills db1)" "v_proposal b = Some (ap_id p)"
    using find_row_SomeD [OF assms(4) [unfolded bill_for_proposal_def]] by auto
  note b = this
  have "references_owned org ?b db2 = references_owned org (proposal_bill p ident userId now) db2" by (simp add: references_owned_def)
  then have "references_owned org ?b db2" using only_sequences_tables(3) [OF a(2)] assms(8) by simp
  then have "create_bill org ?b db2 = Inl (UniqueViolation UniqueProposal)"
    using b assms(9) a(3,4) by (auto simp: create_bill_def proposal_bill_def Let_def number_taken_def list_ex_iff)
  moreover have "allocateInvoiceNumber (ap_client p) (Some org) now db1 = Inr ((formatInvoiceNumber (getUTCFullYear now) n, org), db2)"
    using assms(7) a(1) by (simp add: allocateInvoiceNumber_def)
  moreover have "v_client (proposal_bill p ident userId now) = ap_client p" by (simp add: proposal_bill_def Let_def)
  ultimately have "createNumberedInvoice org (proposal_bill p ident userId now) (Some org) now db1 = Inl (UniqueViolation UniqueProposal)"
    by (simp add: createNumberedInvoice_def)
  then have "invoiceFromProposal (Some p) ident org userId now seen db1 = (Inr (Some b), db1)"
    using assms(4-6) by (simp add: invoiceFromProposal_def isUniqueViolationOn_def)
  moreover have "c = b" if "c \<in> set (bd_bills db1)" "v_proposal c = Some (ap_id p)" for c
    using once_same [OF _ that(1) b(1) that(2) b(2)] inv by (simp add: proposals_once_def)
  ultimately show ?thesis by blast
qed

text \<open>
  Fifty numbers ahead of the counter that are taken stop the numbering of the organization and year for good:
  the transaction that fails takes its increments back.
\<close>

lemma free_number_None_iff:
  "free_number org y db = None \<longleftrightarrow> (\<forall>k<MAX_ALLOCATION_ATTEMPTS. number_taken org (formatInvoiceNumber y (lastValue org y db + 1 + k)) db)"
  unfolding free_number_def find_None_iff by force

lemma one_numbered_stuck:
  assumes "one_numbered db db1" and "free_number org y db = None"
  shows "free_number org y db1 = None"
proof -
  obtain b z where b: "free_number (v_org b) z db \<noteq> None" "map bill_key (bd_bills db1) = map bill_key (bd_bills db) @ [bill_key b]"
    and others: "\<And>o' y'. (o', y') \<noteq> (v_org b, z) \<Longrightarrow> lastValue o' y' db1 = lastValue o' y' db"
    using assms(1) unfolding one_numbered_def by blast
  have "(org, y) \<noteq> (v_org b, z)" using b(1) assms(2) by auto
  then have "lastValue org y db1 = lastValue org y db" by (rule others)
  moreover have "number_taken org n db \<Longrightarrow> number_taken org n db1" for n
    unfolding number_taken_keys b(2) by simp
  ultimately show ?thesis using assms(2) by (simp add: free_number_None_iff)
qed

lemma numbering_step_stuck:
  assumes "numbering_step db fs db1" and "\<forall>ids. Purged ids \<notin> set fs" and "free_number org y db = None"
  shows "free_number org y db1 = None"
  using assms(1)
proof (cases rule: numbering_step_cases)
  case kept
  then show ?thesis using numbers_kept_free assms(3) by metis
next
  case one
  then show ?thesis using one_numbered_stuck assms(3) by blast
next
  case (added b)
  then show ?thesis using assms(3) by (auto simp: free_number_None_iff counters_kept_def number_taken_def)
next
  case (removed keep ids)
  then show ?thesis using assms(2) by simp
qed

lemma numbering_run_stuck:
  "numbering_run db es db1 \<Longrightarrow> \<forall>ids. Purged ids \<notin> set es \<Longrightarrow> free_number org y db = None \<Longrightarrow> free_number org y db1 = None"
  by (induction rule: numbering_run.induct) (auto intro: numbering_step_stuck)

text \<open>C40: Fifty invoice numbers taken ahead of the counter stop the numbering of the organization and year for
  good: as long as no invoice is deleted permanently, every later creation fails, since the transaction that fails takes its
  increments of the counter back.\<close>

theorem numbering_stuck:
  assumes "numbering_run db es db1" and "\<forall>ids. Purged ids \<notin> set es"
    and "list_all (\<lambda>k. number_taken org (formatInvoiceNumber (getUTCFullYear now) (lastValue org (getUTCFullYear now) db + k)) db) [1..<51]"
    and "client_org (v_client b) db1 = Some org"
  shows "createNumberedInvoice scope b (Some org) now db1 = Inl NoFreeNumber"
proof -
  have "free_number org (getUTCFullYear now) db = None"
    unfolding free_number_None_iff
  proof (intro allI impI)
    fix k assume "k < MAX_ALLOCATION_ATTEMPTS"
    then have "k + 1 \<in> set [1..<51]" by (simp add: MAX_ALLOCATION_ATTEMPTS_def)
    then show "number_taken org (formatInvoiceNumber (getUTCFullYear now) (lastValue org (getUTCFullYear now) db + 1 + k)) db"
      using assms(3) unfolding list_all_iff by (metis add.assoc add.commute)
  qed
  then have "free_number org (getUTCFullYear now) db1 = None" by (rule numbering_run_stuck [OF assms(1,2)])
  then show ?thesis
    using free_number_None assms(4) by (simp add: createNumberedInvoice_def allocateInvoiceNumber_def)
qed

subsection \<open>Sample runs\<close>

lemma sample_due: "due_invoices ''o1'' march sample_billing = [sample_bill]"
  by (simp add: due_invoices_def sample_billing_def sample_bill_def recurring_where_def RECURRING_SOURCE_STATUSES_def due_by_def
    march_def Date_UTC_def make_day_def day_number_def month_lengths_def leap_year_def day_ms_def)

lemma sample_copied: "\<exists>b db1. recurring_one ''o1'' sample_bill ''b2'' march march sample_billing = Inr (Some b, db1)"
proof -
  let ?d = "next_billing sample_bill march"
  let ?db = "sample_billing\<lparr>bd_bills := [sample_bill\<lparr>v_nextDate := ?d\<rparr>]\<rparr>"
  have c: "claim_recurring ''o1'' sample_bill ?d sample_billing = (1, ?db)"
    by (simp add: claim_recurring_def claim_where_def recurring_where_def sample_billing_def sample_bill_def RECURRING_SOURCE_STATUSES_def)
  have "gapless ''o1'' 2026 ?db"
    by (simp add: gapless_def year_numbers_def sample_billing_def sample_bill_def lastValue_def)
  then obtain n db2 where a: "allocate_loop MAX_ALLOCATION_ATTEMPTS ''o1'' 2026 ?db = Inr (formatInvoiceNumber 2026 n, db2)"
      "only_sequences ?db db2" "bd_bills db2 = bd_bills ?db" "\<not> number_taken ''o1'' (formatInvoiceNumber 2026 n) ?db"
    using free_number_Some [OF gapless_free] by blast
  let ?b = "(recurring_copy sample_bill ''b2'' march)\<lparr>v_number := formatInvoiceNumber 2026 n, v_org := ''o1''\<rparr>"
  have "allocateInvoiceNumber ''c1'' None march ?db = Inr ((formatInvoiceNumber 2026 n, ''o1''), db2)"
    using a(1) by (simp add: allocateInvoiceNumber_def client_org_def find_row_def sample_billing_def given_def)
  moreover have "v_client sample_bill = ''c1''" by (simp add: sample_bill_def)
  moreover have "references_owned ''o1'' ?b db2"
    unfolding only_sequences_tables(3) [OF a(2)]
    by (simp add: references_owned_def recurring_copy_def Let_def sample_bill_def sample_billing_def)
  then have "create_bill ''o1'' ?b db2 = Inr (?b, db2\<lparr>bd_bills := bd_bills db2 @ [?b]\<rparr>)"
    using a(3,4) by (simp add: create_bill_def recurring_copy_def Let_def number_taken_def sample_bill_def)
  ultimately show ?thesis using c by (simp add: recurring_one_def)
qed

lemma sample_run: "\<exists>r db1. processRecurringInvoices ''o1'' march (\<lambda>_. ''b2'') (\<lambda>_. march) sample_billing = (Inr r, db1)"
proof -
  obtain b db1 where "recurring_one ''o1'' sample_bill ''b2'' march march sample_billing = Inr (Some b, db1)" using sample_copied by blast
  then show ?thesis by (simp add: processRecurringInvoices_def read_due_def READ_LIMIT_def sample_due)
qed

lemma recurring_run_drains_witness:
  "\<exists>r db1. processRecurringInvoices ''o1'' march (\<lambda>_. ''b2'') (\<lambda>_. march) sample_billing = (Inr r, db1) \<and> rr_generated r = 1 \<and>
     length (bd_bills db1) = 2 \<and> due_invoices ''o1'' march db1 = []"
proof -
  obtain r db1 where run: "processRecurringInvoices ''o1'' march (\<lambda>_. ''b2'') (\<lambda>_. march) sample_billing = (Inr r, db1)"
    using sample_run by blast
  from recurring_run_drains [OF sample_ids(1) run] have "rr_generated r = 1" "length (bd_bills db1) = 2" "due_invoices ''o1'' march db1 = []"
    by (simp_all add: sample_due) (simp add: sample_billing_def)
  then show ?thesis using run by blast
qed

lemma recurring_invoice_billed_once_witness:
  "\<exists>s. billing_run\<^sup>*\<^sup>* \<lparr>lb_db = sample_billing, lb_claims = [], lb_clock = march\<rparr> s \<and>
     lb_claims s = [(''b1'', Date_UTC 2026 1 28, march)] \<and> list_all (\<lambda>(i, date, now). date \<le> now) (lb_claims s)"
proof -
  obtain b db1 where one: "recurring_one ''o1'' sample_bill ''b2'' march march sample_billing = Inr (Some b, db1)" using sample_copied by blast
  let ?s = "\<lparr>lb_db = sample_billing, lb_claims = [], lb_clock = march\<rparr>"
  have "sample_bill \<in> set (due_invoices ''o1'' march sample_billing)" by (simp add: sample_due)
  then have "due_by march sample_bill" by (simp add: due_invoices_def)
  then have "billing_run ?s (?s\<lparr>lb_db := db1, lb_claims := (v_id sample_bill, the (v_nextDate sample_bill), march) # lb_claims ?s\<rparr>)"
    using one by (intro billing_run.claim [of march ?s]) simp_all
  then have run: "billing_run\<^sup>*\<^sup>* ?s (?s\<lparr>lb_db := db1, lb_claims := (v_id sample_bill, the (v_nextDate sample_bill), march) # lb_claims ?s\<rparr>)"
    by (rule r_into_rtranclp)
  show ?thesis
    using run conjunct2 [OF recurring_invoice_billed_once [OF run sample_ids(1)]]
    by (intro exI [of _ "?s\<lparr>lb_db := db1, lb_claims := (v_id sample_bill, the (v_nextDate sample_bill), march) # lb_claims ?s\<rparr>"])
      (simp add: sample_bill_def)
qed

definition second_bill :: bill where
  "second_bill = sample_bill\<lparr>v_id := ''b3'', v_status := DRAFT, v_proposal := None\<rparr>"

lemma sample_numbered:
  "numbering_run sample_billing
     (created_since sample_billing (committed (createNumberedInvoice ''o1'' second_bill (Some ''o1'') march sample_billing) sample_billing))
     (committed (createNumberedInvoice ''o1'' second_bill (Some ''o1'') march sample_billing) sample_billing)"
  using numbering_run.continue [OF numbering_run.start numbering_step.numbered [OF refl]] by simp

lemma invoice_numbers_gapless_witness:
  "year_numbers ''o1'' 2026 (committed (createNumberedInvoice ''o1'' second_bill (Some ''o1'') march sample_billing) sample_billing) =
     map (formatInvoiceNumber 2026)
       [1..<lastValue ''o1'' 2026 (committed (createNumberedInvoice ''o1'' second_bill (Some ''o1'') march sample_billing) sample_billing) + 1] \<and>
   numbers_unique (committed (createNumberedInvoice ''o1'' second_bill (Some ''o1'') march sample_billing) sample_billing)"
proof -
  have "list_all (\<lambda>e. \<exists>b. e = Created b) (created_since sample_billing db)" for db
    by (simp add: created_since_def list_all_iff)
  moreover have "numbers_unique sample_billing" by (simp add: numbers_unique_def sample_billing_def)
  ultimately show ?thesis using invoice_numbers_gapless [OF sample_numbered, of "''o1''" 2026] sample_gapless by blast
qed

definition sample_proposal :: approved_proposal where
  "sample_proposal =
     \<lparr>ap_id = ''p1'', ap_status = ''APPROVED'', ap_client = ''c1'', ap_project = None, ap_title = ''Hosting'',
      ap_metadata = NoMetadata, ap_discount = Fin 0, ap_lines = []\<rparr>"

lemma proposal_invoiced_once_witness:
  "invoiceFromProposal (Some sample_proposal) ''b3'' ''o1'' ''u1'' march (sample_billing\<lparr>bd_bills := []\<rparr>) sample_billing =
     (Inr (Some sample_bill), sample_billing)"
proof -
  have b: "bill_for_proposal ''o1'' (ap_id sample_proposal) sample_billing = Some sample_bill"
      "bill_for_proposal ''o1'' (ap_id sample_proposal) (sample_billing\<lparr>bd_bills := []\<rparr>) = None"
      "ap_status sample_proposal = ''APPROVED''" "client_org (ap_client sample_proposal) sample_billing = Some ''o1''"
      "references_owned ''o1'' (proposal_bill sample_proposal ''b3'' ''u1'' march) sample_billing"
      "''b3'' \<notin> v_id ` set (bd_bills sample_billing)"
    by (simp_all add: bill_for_proposal_def find_row_def client_org_def references_owned_def proposal_bill_def Let_def given_def sample_billing_def sample_proposal_def sample_bill_def)
  have g: "free_number ''o1'' (getUTCFullYear march) sample_billing \<noteq> None" using gapless_free [OF sample_gapless] by simp
  show ?thesis
    by (rule conjunct1 [OF proposal_invoiced_once [OF numbering_run.start sample_ids(2) g b(1,3,2,4,5,6)]])
qed

text \<open>Fifty imported invoices ahead of the counter.\<close>

definition imported_billing :: billing_db where
  "imported_billing =
     sample_billing\<lparr>bd_bills := sample_bill #
       map (\<lambda>n. sample_bill\<lparr>v_id := nat_text n, v_number := formatInvoiceNumber 2026 n, v_proposal := None\<rparr>) [2..<52]\<rparr>"

lemma numbering_stuck_witness: "createNumberedInvoice ''o1'' second_bill (Some ''o1'') march imported_billing = Inl NoFreeNumber"
proof -
  have l: "lastValue ''o1'' 2026 imported_billing = 1" by (simp add: lastValue_def imported_billing_def sample_billing_def)
  have "number_taken ''o1'' (formatInvoiceNumber 2026 (1 + k)) imported_billing" if "k \<in> set [1..<51]" for k
  proof -
    have "1 + k \<in> set [2..<52]" using that unfolding set_upt atLeastLessThan_iff by linarith
    then have "sample_bill\<lparr>v_id := nat_text (1 + k), v_number := formatInvoiceNumber 2026 (1 + k), v_proposal := None\<rparr> \<in> set (bd_bills imported_billing)"
      by (auto simp add: imported_billing_def simp del: upt_rec_numeral set_upt)
    then show ?thesis unfolding number_taken_def list_ex_iff by (rule bexI [rotated]) (simp add: sample_bill_def)
  qed
  then have taken: "list_all (\<lambda>k. number_taken ''o1'' (formatInvoiceNumber (getUTCFullYear march) (lastValue ''o1'' (getUTCFullYear march) imported_billing + k))
      imported_billing) [1..<51]"
    unfolding march_year l list_all_iff by blast
  have "client_org (v_client second_bill) imported_billing = Some ''o1''"
    by (simp add: client_org_def find_row_def imported_billing_def sample_billing_def second_bill_def sample_bill_def)
  then show ?thesis using numbering_stuck [OF numbering_run.start _ taken] by simp
qed

end
