(* ===== verification/Spec2Isabelle.thy ===== *)
theory Spec2Isabelle
  imports Money Domain_Events Invoice_Settlement Outbox_Dispatch MFA Audit_Log Request_Paths Sessions Impersonation
    Break_Glass MFA_Enforcement Record_Calculations Record_Inputs Tenant_Ownership Task_Worker Invoice_Voiding Recurring_Invoices
begin

text \<open>
  Verification of the Ashbi Hub server, the agency platform under \<^verbatim>\<open>src/src\<close> (Node.js, Fastify, Prisma on
  PostgreSQL). The development models its money path (arithmetic, settlement of invoices, the domain
  events a settlement records and their delivery), its access path (audit log, request paths, sessions
  and step-up, second factor and its enforcement, support views, break-glass recovery), the isolation of
  organizations (the database client every request gets), the calculation of workspace records, and what
  recurs: tasks and invoices, with the numbering of invoices.

  \<^bold>\<open>The parts and how they interact.\<close> A payment (entered by staff, or delivered by a Stripe webhook) is
  applied to an invoice in one transaction, which computes the balance with the money helpers, marks the
  invoice paid and records an event in the outbox through the normalizing producers. A dispatcher claims
  the outbox rows in order, under leases, and hands them to handlers. On the access side every request
  carries a session token; the support-view hook may replace its user by the viewed person, the
  enrollment hook refuses staff who must enroll in two-factor first, privileged routes ask for a recent
  re-authentication cookie, and what happens is written to the audit log, which names the administrator
  behind a view. Break-glass recovery restores an administrator and revokes everything the account had.
  Handlers reach the database through the client of their request, which adds the organization to the
  filters of calls on tenant models and checks the records a write refers to; a few routes use the raw client or raw
  SQL on purpose. Records of a collection have typed formulas and
  rollups, validated when the fields are defined and calculated when a record is read. Workers copy recurring
  tasks and invoices when their dates come, each in a transaction that claims the source against the state
  it was read in; every invoice gets its number from the counter of its organization and year inside the
  transaction that creates it.

  \<^bold>\<open>Theories.\<close>
  \<^item> \<^verbatim>\<open>Prelude\<close>: JavaScript strings, tables as lists of rows (\<open>find_row\<close>, \<open>update_rows\<close>, \<open>count_rows\<close>), the locale
    \<open>keyed_update\<close> for updates that keep a key, statements of a request, \<open>named_theorems\<close>.
  \<^item> \<^verbatim>\<open>JS_Number\<close>: binary64 numbers as rationals rounded to nearest even, NaN and infinities.
  \<^item> \<^verbatim>\<open>Money\<close>: \<^verbatim>\<open>utils/invoice-balance.js\<close>, \<^verbatim>\<open>money-totals.js\<close>, \<^verbatim>\<open>proposal-totals.js\<close>, \<^verbatim>\<open>retainer-money.js\<close>,
    \<^verbatim>\<open>money.js\<close>. Floating-point totals agree with whole-cent arithmetic; tax rounding and where it is not
    half up.
  \<^item> \<^verbatim>\<open>Domain_Events\<close>: \<^verbatim>\<open>services/domain-event-catalog.js\<close>, \<^verbatim>\<open>domain-event-producers.js\<close>, \<^verbatim>\<open>domain-event.service.js\<close>.
    The recorder keeps keys unique and aggregates numbered without gaps, is idempotent, and a paid invoice
    is recorded however malformed its fields are (with a date in the years 0 to 9999).
  \<^item> \<^verbatim>\<open>Invoice_Settlement\<close>: \<^verbatim>\<open>services/invoice-settlement.js\<close>, \<^verbatim>\<open>invoice-payment.service.js\<close> and the webhook
    side of \<^verbatim>\<open>stripe.service.js\<close>. The locale \<open>payment_sum\<close> states what the database's aggregate promises. The
    ledger invariant (payments never exceed the total by more than a cent, paid exactly when settled) holds
    along every sequence of settlements, both handlers refine an abstract ledger in cents, and a Stripe
    session settles once.
  \<^item> \<^verbatim>\<open>Outbox_Dispatch\<close>: \<^verbatim>\<open>services/domain-event-dispatcher.service.js\<close>. Rows as a state machine with
    interleaved dispatchers: an event is handed out only after its predecessors in the aggregate are settled,
    bounded attempts, finality, lease loss, the progress of a healthy run per round, backoff bounds, replay. Order is
    order of the rows: handlers of a dispatcher that lost its lease may still run.
  \<^item> \<^verbatim>\<open>TOTP\<close>, \<^verbatim>\<open>MFA\<close>: \<^verbatim>\<open>auth/totp.js\<close>, \<^verbatim>\<open>auth/mfa.js\<close>, \<^verbatim>\<open>routes/mfa.routes.js\<close>. Base32 round trip, window of
    accepted codes, a specification of the account that every interleaving of requests follows (its history notes an
    evaluation where the code lets a request through), a bound on guessing, single use of recovery codes, and the
    enrollment that overtakes a confirmation.
  \<^item> \<^verbatim>\<open>Token_Codec\<close>: UTF-8, base64url, splitting, JSON text and its parser, with round trips; the language
    library the tokens use.
  \<^item> \<^verbatim>\<open>Audit_Log\<close>: \<^verbatim>\<open>services/audit-event.service.js\<close>. Every row keeps the closed shape; attribution in a view.
  \<^item> \<^verbatim>\<open>Request_Paths\<close>: \<^verbatim>\<open>config/http.js\<close> and the path helpers of \<^verbatim>\<open>auth/impersonation.js\<close>. Rewriting a URL to its
    canonical form changes neither the query nor the path a security decision sees.
  \<^item> \<^verbatim>\<open>Sessions\<close>: \<^verbatim>\<open>auth/session.js\<close>, \<^verbatim>\<open>auth/reauth.js\<close>, the challenge of \<^verbatim>\<open>auth/mfa.js\<close>, the step-up handler,
    \<^verbatim>\<open>auth/api-key-scopes.js\<close>. Which step-up cookie is accepted, whoever made it; the locale \<open>versioned_credential\<close>, interpreted for
    sessions and step-up cookies, gives that a revoked credential never works again.
  \<^item> \<^verbatim>\<open>Impersonation\<close>: \<^verbatim>\<open>auth/impersonation.js\<close>, \<^verbatim>\<open>utils/insensitive-equals.js\<close>, the start and stop handlers of
    \<^verbatim>\<open>routes/privileged-access.routes.js\<close>. What a view lets through; the locale \<open>view_steps\<close> carries the
    operations over any step relation and is interpreted for closing views and for all view steps.
  \<^item> \<^verbatim>\<open>Break_Glass\<close>: \<^verbatim>\<open>auth/break-glass.js\<close>. Grants as a state machine; the locale \<open>grant_closing\<close> is interpreted
    for revoking and redeeming.
  \<^item> \<^verbatim>\<open>MFA_Enforcement\<close>: \<^verbatim>\<open>auth/mfa-enforcement.js\<close>, \<^verbatim>\<open>services/organization-mfa-policy.service.js\<close>, composed with the
    support-view hook. Turning the requirement on refuses exactly the listed staff.
  \<^item> \<^verbatim>\<open>Tenant_Policy\<close>, \<^verbatim>\<open>Tenant_Writes\<close>, \<^verbatim>\<open>Tenant_Isolation\<close>, \<^verbatim>\<open>Tenant_Ownership\<close>: \<^verbatim>\<open>utils/prisma-tenant-proxy.js\<close>,
    \<^verbatim>\<open>utils/tenant-relations.js\<close>, \<^verbatim>\<open>services/soft-delete.service.js\<close>, \<^verbatim>\<open>middleware/tenancy.js\<close>: the tables of the
    policy and the ownership checks, the validation of written data and the rewriting of calls, and what
    they mean. The locale \<open>prisma_where\<close> states what filters mean and is interpreted by evaluating them on
    records. The filters of calls select only records of the organization, and evidence is append-only.
    \<^verbatim>\<open>Tenant_Ownership\<close> states what a write may store without the code's own helpers (\<open>keeps_inside\<close>: rows as Prisma
    documents nested writes, references by the data model, ownership by the database), shows that the validation gives
    it, and what an update without a filter lets through.
  \<^item> \<^verbatim>\<open>Record_Calculations\<close>: \<^verbatim>\<open>shared/record-calculations.js\<close>. A typing of formulas that validated definitions
    satisfy; evaluating them terminates, never meets an operand of a wrong type, and keeps the types. The
    locale \<open>evaluation\<close> carries invariants through the evaluation and is interpreted for results being kept
    and for errors having a cause in a stored value.
  \<^item> \<^verbatim>\<open>Record_Inputs\<close>: \<^verbatim>\<open>shared/record-inputs.js\<close>. Patches, definition updates and forms; what they accept is accepted
    by the calculation, and an update keeps stored values valid.

  \<^item> \<^verbatim>\<open>Calendar\<close>: JavaScript dates: civil dates of day numbers and back, UTC parts of a time, \<open>setUTCDate\<close>,
    \<open>setUTCMonth\<close>, \<open>Date.UTC\<close>, and the text of a date with its round trip and order.
  \<^item> \<^verbatim>\<open>Recurrence\<close>: the dates of \<^verbatim>\<open>jobs/recurring-invoices.js\<close> and \<^verbatim>\<open>shared/task-recurrence.js\<close>. The locale \<open>schedule\<close>
    shows that the search for the next date ends at the least one; it is interpreted for months and for days.
  \<^item> \<^verbatim>\<open>Task_Recurrence\<close>, \<^verbatim>\<open>Task_Occurrences\<close>, \<^verbatim>\<open>Task_Worker\<close>: \<^verbatim>\<open>services/task-recurrence.service.js\<close>: saving a rule,
    copying a due source, repeating a completed task; the steps of all of them on shared tables, which never
    make one occurrence twice (locale \<open>recurrence_update\<close>, interpreted for the updates of the code); the loops of
    the two workers over pages, which end and leave nothing due (locale \<open>paging\<close>, interpreted for sources,
    completions and the pages of their sources).
  \<^item> \<^verbatim>\<open>Invoice_Numbers\<close>, \<^verbatim>\<open>Invoice_Voiding\<close>, \<^verbatim>\<open>Recurring_Invoices\<close>: \<^verbatim>\<open>utils/invoice.js\<close>, the invoice of an approved proposal,
    sending a draft, voiding and undoing it in \<^verbatim>\<open>routes/invoice.routes.js\<close>, \<^verbatim>\<open>jobs/recurring-invoices.js\<close>. The locale
    \<open>invoice_writer\<close> states what an operation may do to the numbers and is interpreted for the operations that create
    invoices. Over creations, imports, permanent deletions and other writes, numbers are given once and in increasing
    order (without gaps unless numbers were imported or deleted), a proposal is invoiced once, a recurring invoice is
    billed once for a date, and a run bills the first hundred due invoices, the limit the layer for deleted records
    puts on a read. Undoing a void in time restores the invoice, unless it was sent in between.

  \<^bold>\<open>State, concurrency and failures.\<close> A table is a list of rows and a database a record of tables. A request is a
  sequence of statements. Before each statement the other requests may change the database (the \<open>others\<close>
  function of an environment; the theorems ask of it only that it follows the same step relation, or
  nothing), and each statement may fail. Statements are atomic. A transaction whose rows are locked or
  guarded by its own conditions acts in one step and is undone when it fails. Time is milliseconds since
  the epoch, read from the environment at each statement.

  \<^bold>\<open>Parameters.\<close> Hashing, HMAC, bcrypt, JWT verification, \<open>toISOString\<close>, address classification, the database's sum
  random bytes, URL parsing, the generated data model, lookups of the database and the meaning of its filters
  belong to Node, PostgreSQL or packages and are arguments; what is relied on is a named hypothesis
  (\<open>externals_ok\<close>, \<open>iso_ok\<close>, \<open>payment_sum\<close>, \<open>prisma_where\<close>, \<open>finds_match\<close>, and \<open>zone_clock\<close> for the local date in a time zone), and the samples instantiate them.

  \<^bold>\<open>Bounds and fuel.\<close> Cent arithmetic is exact below 2^36 cents and for at most 1000 lines or payments, while
  the schemas admit at most 10 million (10^9 cents) for one amount; times are below 2^48 ms; integers in tokens below 2^53 in absolute value,
  the integers a binary64 number represents exactly; tokens longer than 1024 (2048 for views) characters
  are refused by the code itself. The JSON parser's fuel is twice the length of the text plus one, and the
  round trips show it is enough for every text the program signs. Backoff is bounded for a base of at most
  2^22 and a limit of at most 2^40 ms. Evaluating a record takes one unit of fuel per
  reference between fields; forty, the most fields a collection may have, is shown to be enough. The searches
  for a next date and the loops over pages have no bound in the code; they are partial functions, shown to
  return. Dates of recurring tasks lie before 9900, where the texts of dates have four digits of year and order as the dates do.
  The allocation of a number tries fifty, as in the code. Payments of the refinement theorems are dated in the years 0 to
  9999, whose texts zod accepts. Every other
  function is structurally recursive or proved to terminate; the dispatcher's rounds are bounded by its own limit, as in the code.

  \<^bold>\<open>Simplifications.\<close> Strings are Latin-1 (an escape above U+00FF counts as malformed); the two zeros are one number;
  message texts of replies, logs and notifications are left out and replies are given by status and code.

  \<^bold>\<open>Not modelled.\<close> The web application (React), the Cloudflare pilot, importers, mail, chat and calendar
  integrations, AI providers and agents, background scheduling, declarative request schemas and server
  assembly: they are user interface, clients of external services or configuration of libraries. Of the
  modelled files the Redis channel that drops sockets, Intl formatting, creating Stripe sessions and the
  envelope encryption of secrets are left out for the same reason. Transactions of the
  request-scoped client (which wrap the client once more), its raw SQL methods (which it does not scope) and
  the propagation of the client through AsyncLocalStorage are outside the model of tenancy. The loops over
  all organizations around the workers, retries after serialization conflicts, sign-in and password routes, boards and stages,
  time tracking, and the editing, chasing and listing of invoices are program logic of the same kind as what is here
  and are not modelled.
\<close>

end
